(* ===== verification/Prelude.thy ===== *)
theory Prelude
  imports Complex_Main "HOL-Library.Word" "HOL-Library.Multiset"
begin

text \<open>
  Shared vocabulary of the development: the Python exceptions the modelled code raises,
  sequencing of computations that may raise, the real-valued reading of \<open>math.hypot\<close>,
  decimal printing, and the two interfaces every stateful component is an instance of
  (a machine with an invariant, and a machine whose steps may raise).
\<close>

named_theorems step_simps "unfolding rules of the operations of a stateful component"
named_theorems inv_intros "every operation keeps the invariant of its component"

text \<open>Python floats are read as reals; the names say which unit an argument is in.\<close>

type_synonym metres = real
type_synonym radians = real
type_synonym seconds = real
type_synonym rad_per_s = real
type_synonym m_per_s = real

section \<open>Exceptions\<close>

datatype py_error =
    ValueError string
  | FrameError string
  | RuntimeError string
  | TypeError string
  | StructError
  | IndexError
  | KeyError
  | ZeroDivisionError
  | ConnectionError
  | AssertionError string
  | AttributeError string

definition bindE :: "'e + 'a \<Rightarrow> ('a \<Rightarrow> 'e + 'b) \<Rightarrow> 'e + 'b" where
  "bindE m f = (case m of Inl e \<Rightarrow> Inl e | Inr x \<Rightarrow> f x)"

lemma bindE_Inl [simp]: "bindE (Inl e) f = Inl e"
  by (simp add: bindE_def)

lemma bindE_Inr [simp]: "bindE (Inr x) f = f x"
  by (simp add: bindE_def)

lemma bindE_eq_Inr_iff: "bindE m f = Inr y \<longleftrightarrow> (\<exists>x. m = Inr x \<and> f x = Inr y)"
  by (cases m) auto

lemma bindE_eq_InrE [elim!]:
  assumes "bindE m f = Inr y"
  obtains x where "m = Inr x" "f x = Inr y"
  using assms by (auto simp: bindE_eq_Inr_iff)

definition guardE :: "bool \<Rightarrow> 'e \<Rightarrow> 'e + unit" where
  "guardE ok e = (if ok then Inr () else Inl e)"

lemma guardE_True [simp]: "guardE True e = Inr ()"
  by (simp add: guardE_def)

lemma guardE_False [simp]: "guardE False e = Inl e"
  by (simp add: guardE_def)

lemma guardE_eq_Inr [simp]: "guardE ok e = Inr u \<longleftrightarrow> ok"
  by (simp add: guardE_def)

lemma bindE_assoc: "bindE (bindE a f) g = bindE a (\<lambda>x. bindE (f x) g)"
  by (cases a) simp_all

lemma bindE_cong: "a = b \<Longrightarrow> (\<And>x. b = Inr x \<Longrightarrow> f x = g x) \<Longrightarrow> bindE a f = bindE b g"
  by (cases b) simp_all

lemma bindE_if: "bindE (if b then x else y) f = (if b then bindE x f else bindE y f)"
  by simp

text \<open>Running a fallible step over a list stops at the first exception.\<close>

fun foldE :: "('s \<Rightarrow> 'a \<Rightarrow> 'e + 's) \<Rightarrow> 's \<Rightarrow> 'a list \<Rightarrow> 'e + 's" where
  "foldE f s [] = Inr s"
| "foldE f s (x # xs) = bindE (f s x) (\<lambda>s'. foldE f s' xs)"

lemma foldE_append: "foldE f s (xs @ ys) = bindE (foldE f s xs) (\<lambda>s'. foldE f s' ys)"
  by (induction xs arbitrary: s) (auto simp: bindE_def split: sum.splits)

text \<open>Mapping a fallible function over a list stops at the first exception.\<close>

fun mapE :: "('a \<Rightarrow> 'e + 'b) \<Rightarrow> 'a list \<Rightarrow> 'e + 'b list" where
  "mapE f [] = Inr []"
| "mapE f (x # xs) = bindE (f x) (\<lambda>y. bindE (mapE f xs) (\<lambda>ys. Inr (y # ys)))"

lemma mapE_Inr_nth:
  "mapE f xs = Inr ys \<Longrightarrow> length ys = length xs \<and> (\<forall>i < length xs. f (xs ! i) = Inr (ys ! i))"
proof (induction xs arbitrary: ys)
  case (Cons x xs)
  then obtain y zs where y: "f x = Inr y" "mapE f xs = Inr zs" "ys = y # zs" by auto
  show ?case using Cons.IH [OF y(2)] y(1,3) by (auto simp: nth_Cons split: nat.splits)
qed simp

lemma mapE_returns: "(\<And>x. x \<in> set xs \<Longrightarrow> \<exists>y. f x = Inr y) \<Longrightarrow> \<exists>ys. mapE f xs = Inr ys"
proof (induction xs)
  case (Cons x xs)
  then obtain y ys where "f x = Inr y" "mapE f xs = Inr ys" by (metis list.set_intros)
  then show ?case by simp
qed simp

section \<open>Machines\<close>

text \<open>
  A component is a step function over its events together with the invariant its
  operations keep. What holds along every run is proved once, here.
\<close>

locale machine =
  fixes step :: "'s \<Rightarrow> 'e \<Rightarrow> 's"
    and inv :: "'s \<Rightarrow> bool"
  assumes step_inv: "inv s \<Longrightarrow> inv (step s e)"
begin

lemma run_inv: "inv s \<Longrightarrow> inv (foldl step s es)"
  by (induction es arbitrary: s) (auto intro: step_inv)

lemma run_prefix_inv: "inv s \<Longrightarrow> inv (foldl step s (take n es))"
  by (rule run_inv)

end

text \<open>The same for steps that may raise: a run that returns has kept the invariant.\<close>

locale fallible_machine =
  fixes step :: "'s \<Rightarrow> 'e \<Rightarrow> 'x + 's"
    and inv :: "'s \<Rightarrow> bool"
  assumes step_inv: "inv s \<Longrightarrow> step s e = Inr s' \<Longrightarrow> inv s'"
begin

lemma run_inv: "inv s \<Longrightarrow> foldE step s es = Inr s' \<Longrightarrow> inv s'"
  by (induction es arbitrary: s) (auto intro: step_inv)

end

text \<open>Such a machine with a preorder no step goes back in.\<close>

locale fallible_progress = fallible_machine step inv
  for step :: "'s \<Rightarrow> 'e \<Rightarrow> 'x + 's" and inv :: "'s \<Rightarrow> bool" +
  fixes ahead :: "'s \<Rightarrow> 's \<Rightarrow> bool"
  assumes ahead_refl: "ahead s s"
    and ahead_trans: "ahead s t \<Longrightarrow> ahead t u \<Longrightarrow> ahead s u"
    and step_ahead: "inv s \<Longrightarrow> step s e = Inr s' \<Longrightarrow> ahead s s'"
begin

lemma run_ahead: "inv s \<Longrightarrow> foldE step s es = Inr s' \<Longrightarrow> ahead s s'"
proof (induction es arbitrary: s)
  case Nil
  then show ?case by (simp add: ahead_refl)
next
  case (Cons e es)
  then obtain t where "step s e = Inr t" "foldE step t es = Inr s'" by auto
  with Cons.IH Cons.prems show ?case by (blast intro: ahead_trans step_ahead step_inv)
qed

end

text \<open>And one none of whose steps raises while the invariant holds.\<close>

locale safe_machine = fallible_machine step inv
  for step :: "'s \<Rightarrow> 'e \<Rightarrow> 'x + 's" and inv :: "'s \<Rightarrow> bool" +
  assumes step_returns: "inv s \<Longrightarrow> \<exists>s'. step s e = Inr s'"
begin

lemma run_returns: "inv s \<Longrightarrow> \<exists>s'. foldE step s es = Inr s' \<and> inv s'"
proof (induction es arbitrary: s)
  case (Cons e es)
  then obtain t where "step s e = Inr t" using step_returns by blast
  with Cons show ?case by (auto dest: step_inv)
qed simp

end

text \<open>A machine whose steps raise nothing but the exceptions it is allowed to.\<close>

locale guarded_machine =
  fixes step :: "'s \<Rightarrow> 'e \<Rightarrow> 'x + 's"
    and inv :: "'s \<Rightarrow> bool"
    and allowed :: "'x \<Rightarrow> bool"
  assumes step_guarded: "inv s \<Longrightarrow> case step s e of Inl x \<Rightarrow> allowed x | Inr t \<Rightarrow> inv t"
begin

lemma run_guarded: "inv s \<Longrightarrow> case foldE step s es of Inl x \<Rightarrow> allowed x | Inr t \<Rightarrow> inv t"
proof (induction es arbitrary: s)
  case (Cons e es)
  show ?case
  proof (cases "step s e")
    case (Inl x)
    then show ?thesis using step_guarded [OF Cons.prems, of e] by simp
  next
    case (Inr t)
    then have "inv t" using step_guarded [OF Cons.prems, of e] by simp
    with Cons.IH show ?thesis by (simp add: Inr)
  qed
qed simp

end

sublocale guarded_machine \<subseteq> fallible_machine step inv
proof
  show "inv s'" if "inv s" "step s e = Inr s'" for s e s'
    using step_guarded [OF that(1), of e] that(2) by simp
qed

text \<open>
  A machine whose every step is a run of a more abstract machine, seen through an abstraction of its state; so
  is every run, and what holds along the abstract runs holds along the concrete ones.
\<close>

locale refinement =
  fixes cstep :: "'c \<Rightarrow> 'ce \<Rightarrow> 'x + 'c"
    and astep :: "'a \<Rightarrow> 'ae \<Rightarrow> 'x + 'a"
    and abs :: "'c \<Rightarrow> 'a"
  assumes step_refines: "cstep s e = Inr t \<Longrightarrow> \<exists>aes. foldE astep (abs s) aes = Inr (abs t)"
begin

lemma run_refines: "foldE cstep s es = Inr t \<Longrightarrow> \<exists>aes. foldE astep (abs s) aes = Inr (abs t)"
proof (induction es arbitrary: s)
  case Nil
  then show ?case by (auto intro: exI [of _ "[]"])
next
  case (Cons e es)
  then obtain u where u: "cstep s e = Inr u" "foldE cstep u es = Inr t" by auto
  obtain as bs where "foldE astep (abs s) as = Inr (abs u)" "foldE astep (abs u) bs = Inr (abs t)"
    using step_refines [OF u(1)] Cons.IH [OF u(2)] by blast
  then have "foldE astep (abs s) (as @ bs) = Inr (abs t)" by (simp add: foldE_append)
  then show ?case by blast
qed

end

text \<open>Reading an optional attribute or a list element the way Python does.\<close>

definition need :: "'a option \<Rightarrow> py_error + 'a" where
  "need x = (case x of None \<Rightarrow> Inl (TypeError ''NoneType'') | Some v \<Rightarrow> Inr v)"

lemma need_simps [simp]: "need None = Inl (TypeError ''NoneType'')" "need (Some v) = Inr v"
  by (simp_all add: need_def)

definition item :: "'a list \<Rightarrow> nat \<Rightarrow> py_error + 'a" where
  "item xs i = (if i < length xs then Inr (xs ! i) else Inl IndexError)"

lemma item_simps [simp]:
  "i < length xs \<Longrightarrow> item xs i = Inr (xs ! i)" "\<not> i < length xs \<Longrightarrow> item xs i = Inl IndexError"
  by (simp_all add: item_def)

text \<open>A computation returns a value with a property; the rules push it through a program.\<close>

definition okE :: "('a \<Rightarrow> bool) \<Rightarrow> 'e + 'a \<Rightarrow> bool" where
  "okE P m \<longleftrightarrow> (case m of Inl _ \<Rightarrow> False | Inr x \<Rightarrow> P x)"

lemma okE_simps [simp]:
  "okE P (Inr x) = P x" "\<not> okE P (Inl e)"
  "okE P (bindE m f) = okE (\<lambda>x. okE P (f x)) m"
  "okE P' (need v) = (\<exists>x. v = Some x \<and> P' x)"
  "okE P'' (item xs i) = (i < length xs \<and> P'' (xs ! i))"
  by (auto simp: okE_def bindE_def item_def need_def split: sum.splits option.splits)

lemma okE_mono: "okE P m \<Longrightarrow> (\<And>x. P x \<Longrightarrow> Q x) \<Longrightarrow> okE Q m"
  by (cases m) auto

lemma okE_iff: "okE P m \<longleftrightarrow> (\<exists>x. m = Inr x \<and> P x)"
  by (cases m) auto

section \<open>Arithmetic of the source\<close>

text \<open>
  Python floats are read as reals: the modelled code compares, adds and scales them, and
  no property below depends on the last bit of a rounding.
\<close>

definition hypot :: "real \<Rightarrow> real \<Rightarrow> real" where
  "hypot x y = sqrt (x * x + y * y)"

lemma hypot_nonneg [simp]: "0 \<le> hypot x y"
  by (simp add: hypot_def)

lemma hypot_0 [simp]: "hypot 0 0 = 0"
  by (simp add: hypot_def)

lemma hypot_x_0 [simp]: "hypot x 0 = \<bar>x\<bar>"
  by (simp add: hypot_def)

lemma hypot_0_y [simp]: "hypot 0 y = \<bar>y\<bar>"
  by (simp add: hypot_def)

lemma hypot_eq_0_iff [simp]: "hypot x y = 0 \<longleftrightarrow> x = 0 \<and> y = 0"
  by (simp add: hypot_def sum_squares_eq_zero_iff)

lemma hypot_scale: "hypot (c * x) (c * y) = \<bar>c\<bar> * hypot x y"
proof -
  have "c * x * (c * x) + c * y * (c * y) = c\<^sup>2 * (x * x + y * y)"
    by (simp add: algebra_simps power2_eq_square)
  then show ?thesis by (simp add: hypot_def real_sqrt_mult)
qed

lemma sqrt_le_iff_square: "0 \<le> r \<Longrightarrow> sqrt a \<le> r \<longleftrightarrow> a \<le> r * r"
  by (metis abs_of_nonneg real_sqrt_abs2 real_sqrt_le_iff)

lemma hypot_le_iff: "0 \<le> r \<Longrightarrow> hypot x y \<le> r \<longleftrightarrow> x * x + y * y \<le> r * r"
  by (simp add: hypot_def sqrt_le_iff_square)

lemma hypot_triangle: "hypot (a + c) (b + d) \<le> hypot a b + hypot c d"
proof -
  have "a * c + b * d \<le> hypot a b * hypot c d"
  proof -
    have "(a * c + b * d)\<^sup>2 + (a * d - b * c)\<^sup>2 = (a * a + b * b) * (c * c + d * d)" by algebra
    moreover have "0 \<le> (a * d - b * c)\<^sup>2" by simp
    ultimately have "(a * c + b * d)\<^sup>2 \<le> (a * a + b * b) * (c * c + d * d)" by linarith
    then have "sqrt ((a * c + b * d)\<^sup>2) \<le> sqrt ((a * a + b * b) * (c * c + d * d))" by (rule real_sqrt_le_mono)
    then show ?thesis by (simp add: hypot_def real_sqrt_mult)
  qed
  moreover have "hypot a b * hypot a b = a * a + b * b" "hypot c d * hypot c d = c * c + d * d"
    by (simp_all add: hypot_def)
  ultimately have "(a + c) * (a + c) + (b + d) * (b + d) \<le> (hypot a b + hypot c d) * (hypot a b + hypot c d)"
    by (simp add: algebra_simps)
  then show ?thesis by (simp add: hypot_le_iff)
qed

lemma hypot_minus [simp]: "hypot (- x) (- y) = hypot x y"
  by (simp add: hypot_def)

lemma hypot_commute_diff: "hypot (a - c) (b - d) = hypot (c - a) (d - b)"
  using hypot_minus [of "a - c" "b - d"] by simp

lemma hypot_polar [simp]: "hypot (r * cos a) (r * sin a) = \<bar>r\<bar>"
  using hypot_scale [of r "cos a" "sin a"] sin_cos_squared_add3 [of a] by (simp add: hypot_def)

text \<open>Python's \<open>%\<close> on floats takes the sign of the divisor; \<open>np.clip\<close> lets the upper bound win.\<close>

definition py_fmod :: "real \<Rightarrow> real \<Rightarrow> real" where
  "py_fmod x y = x - y * of_int \<lfloor>x / y\<rfloor>"

lemma py_fmod_range: "0 < y \<Longrightarrow> 0 \<le> py_fmod x y \<and> py_fmod x y < y"
  using floor_divide_lower [of y x] floor_divide_upper [of y x] by (simp add: py_fmod_def algebra_simps)

definition np_clip :: "'a::linorder \<Rightarrow> 'a \<Rightarrow> 'a \<Rightarrow> 'a" where
  "np_clip x lo hi = min (max x lo) hi"

lemma np_clip_range: "lo \<le> hi \<Longrightarrow> lo \<le> np_clip x lo hi \<and> np_clip x lo hi \<le> hi"
  by (simp add: np_clip_def)

lemma np_clip_id: "lo \<le> x \<Longrightarrow> x \<le> hi \<Longrightarrow> np_clip x lo hi = x"
  by (simp add: np_clip_def)

text \<open>\<open>int(x)\<close> of a float truncates towards zero.\<close>

definition py_int :: "real \<Rightarrow> int" where
  "py_int x = (if 0 \<le> x then \<lfloor>x\<rfloor> else \<lceil>x\<rceil>)"

text \<open>\<open>round(x)\<close> of a float rounds to the nearest integer, halves to the even one.\<close>

definition py_round :: "real \<Rightarrow> int" where
  "py_round x =
     (let f = floor x; d = x - of_int f
      in if d < 1 / 2 then f else if 1 / 2 < d then f + 1 else if even f then f else f + 1)"

lemma py_round_of_int [simp]: "py_round (of_int n) = n"
  by (simp add: py_round_def)

lemma py_round_simps [simp]:
  "py_round 0 = 0" "py_round (numeral k) = numeral k"
  using py_round_of_int [of 0] py_round_of_int [of "numeral k"] by simp_all

lemma py_round_near: "of_int (py_round x) \<le> x + 1 / 2" "x - 1 / 2 \<le> of_int (py_round x)"
  unfolding py_round_def Let_def by (simp_all split: if_splits) (linarith | rule conjI)+

text \<open>\<open>math.radians\<close> and \<open>math.atan2\<close>.\<close>

definition radians :: "real \<Rightarrow> real" where
  "radians d = d * pi / 180"

definition atan2 :: "real \<Rightarrow> real \<Rightarrow> real" where
  "atan2 y x =
     (if 0 < x then arctan (y / x)
      else if x < 0 then (if 0 \<le> y then arctan (y / x) + pi else arctan (y / x) - pi)
      else if 0 < y then pi / 2 else if y < 0 then - (pi / 2) else 0)"

lemma hypot_sgn: "x \<noteq> 0 \<Longrightarrow> hypot x y = \<bar>x\<bar> * sqrt (1 + (y / x)\<^sup>2)"
proof -
  assume "x \<noteq> 0"
  then have "x * x + y * y = x\<^sup>2 * (1 + (y / x)\<^sup>2)" by (simp add: field_simps power2_eq_square)
  then show ?thesis by (simp add: hypot_def real_sqrt_mult)
qed

lemma atan2_cos_sin:
  assumes "x \<noteq> 0 \<or> y \<noteq> 0"
  shows "hypot x y * cos (atan2 y x) = x" "hypot x y * sin (atan2 y x) = y"
proof -
  have pos: "0 < 1 + (y / x)\<^sup>2" by (simp add: add_pos_nonneg)
  have "hypot x y * cos (atan2 y x) = x \<and> hypot x y * sin (atan2 y x) = y"
  proof (cases "x = 0")
    case True
    then show ?thesis using assms by (auto simp: atan2_def)
  next
    case False
    then show ?thesis
      using pos by (auto simp: hypot_sgn atan2_def cos_arctan sin_arctan field_simps)
  qed
  then show "hypot x y * cos (atan2 y x) = x" "hypot x y * sin (atan2 y x) = y" by simp_all
qed

section \<open>Decimal notation\<close>

text \<open>\<open>str(n)\<close> of a non-negative integer.\<close>

definition digit_char :: "nat \<Rightarrow> char" where
  "digit_char d = char_of (48 + d)"

fun show_nat :: "nat \<Rightarrow> string" where
  "show_nat n = (if n < 10 then [digit_char n] else show_nat (n div 10) @ [digit_char (n mod 10)])"

declare show_nat.simps [simp del]

definition show_int :: "int \<Rightarrow> string" where
  "show_int i = (if i < 0 then CHR ''-'' # show_nat (nat (- i)) else show_nat (nat i))"

lemma show_nat_nonempty [simp]: "show_nat n \<noteq> []"
  by (subst show_nat.simps) simp

end
