(* ===== verification/Bytes.thy ===== *)
theory Bytes
  imports Prelude
begin

text \<open>
  Byte strings and what the code uses of Python's \<open>struct\<close> and \<open>zlib\<close>: little-endian
  packing of unsigned and signed fields (which raises \<open>struct.error\<close> out of range),
  unpacking, and the reflected CRC-32 of \<open>zlib.crc32\<close> computed bit by bit.
\<close>

type_synonym byte = "8 word"
type_synonym bytes = "byte list"

unbundle bit_operations_syntax

section \<open>Little-endian fields\<close>

fun le_bytes :: "nat \<Rightarrow> int \<Rightarrow> bytes" where
  "le_bytes 0 v = []"
| "le_bytes (Suc n) v = word_of_int v # le_bytes n (v div 256)"

fun le_val :: "bytes \<Rightarrow> int" where
  "le_val [] = 0"
| "le_val (b # bs) = uint b + 256 * le_val bs"

lemma length_le_bytes [simp]: "length (le_bytes n v) = n"
  by (induction n arbitrary: v) auto

lemma uint_byte_of_int: "uint (word_of_int v :: byte) = v mod 256"
  by (simp add: uint_word_of_int)

lemma uint_byte_bounds: "0 \<le> uint (b :: byte)" "uint (b :: byte) < 256"
  using uint_bounded [of b] by simp_all

lemma le_val_le_bytes: "0 \<le> v \<Longrightarrow> v < 256 ^ n \<Longrightarrow> le_val (le_bytes n v) = v"
proof (induction n arbitrary: v)
  case 0
  then show ?case by simp
next
  case (Suc n)
  have "0 \<le> v div 256" "v div 256 < 256 ^ n"
    using Suc.prems by (simp_all add: pos_imp_zdiv_nonneg_iff div_less_iff_less_mult mult.commute)
  then show ?case
    using Suc.IH [of "v div 256"] by (simp add: uint_byte_of_int)
qed

lemma le_val_bounds: "0 \<le> le_val bs \<and> le_val bs < 256 ^ length bs"
proof (induction bs)
  case Nil
  then show ?case by simp
next
  case (Cons b bs)
  then show ?case
    using uint_byte_bounds [of b] by auto
qed

lemma le_bytes_le_val: "le_bytes (length bs) (le_val bs) = bs"
proof (induction bs)
  case Nil
  then show ?case by simp
next
  case (Cons b bs)
  have "(uint b + 256 * le_val bs) div 256 = le_val bs"
    using uint_byte_bounds [of b] by simp
  moreover have "word_of_int (uint b + 256 * le_val bs) = b"
  proof -
    have "(uint b + 256 * le_val bs) mod 256 = uint b"
      using uint_byte_bounds [of b] by simp
    then show ?thesis
      by (metis uint_byte_of_int word_uint_eq_iff)
  qed
  ultimately show ?case using Cons.IH by simp
qed


lemma le_bytes_mod: "le_bytes n (v mod 256 ^ n) = le_bytes n v"
proof (induction n arbitrary: v)
  case 0
  then show ?case by simp
next
  case (Suc n)
  have "(v mod 256 ^ Suc n) mod 256 = v mod 256"
    by (simp add: mod_mod_cancel)
  then have "(word_of_int (v mod 256 ^ Suc n) :: byte) = word_of_int v"
    by (metis uint_byte_of_int word_uint_eq_iff)
  moreover have "v mod 256 ^ Suc n div 256 = (v div 256) mod 256 ^ n"
    by (simp add: zmod_zmult2_eq)
  ultimately show ?case using Suc.IH [of "v div 256"] by simp
qed

section \<open>Structured fields\<close>

text \<open>The format characters the sources use: \<open>B H I Q\<close> unsigned, \<open>h i\<close> signed.\<close>

datatype fmt = FB | FH | FI | FQ | Fh | Fi

fun fmt_size :: "fmt \<Rightarrow> nat" where
  "fmt_size FB = 1"
| "fmt_size FH = 2"
| "fmt_size FI = 4"
| "fmt_size FQ = 8"
| "fmt_size Fh = 2"
| "fmt_size Fi = 4"

fun fmt_signed :: "fmt \<Rightarrow> bool" where
  "fmt_signed Fh = True"
| "fmt_signed Fi = True"
| "fmt_signed _ = False"

definition fits :: "fmt \<Rightarrow> int \<Rightarrow> bool" where
  "fits f v \<longleftrightarrow>
     (if fmt_signed f
      then - (256 ^ fmt_size f div 2) \<le> v \<and> v < 256 ^ fmt_size f div 2
      else 0 \<le> v \<and> v < 256 ^ fmt_size f)"

definition pack_item :: "fmt \<Rightarrow> int \<Rightarrow> py_error + bytes" where
  "pack_item f v = (if fits f v then Inr (le_bytes (fmt_size f) v) else Inl StructError)"

definition unpack_item :: "fmt \<Rightarrow> bytes \<Rightarrow> int" where
  "unpack_item f bs =
     (let v = le_val bs
      in if fmt_signed f \<and> 256 ^ fmt_size f div 2 \<le> v then v - 256 ^ fmt_size f else v)"

fun calcsize :: "fmt list \<Rightarrow> nat" where
  "calcsize [] = 0"
| "calcsize (f # fs) = fmt_size f + calcsize fs"

fun pack :: "fmt list \<Rightarrow> int list \<Rightarrow> py_error + bytes" where
  "pack [] [] = Inr []"
| "pack (f # fs) (v # vs) =
     bindE (pack_item f v) (\<lambda>b. bindE (pack fs vs) (\<lambda>bs. Inr (b @ bs)))"
| "pack _ _ = Inl StructError"

fun unpack_items :: "fmt list \<Rightarrow> bytes \<Rightarrow> int list" where
  "unpack_items [] bs = []"
| "unpack_items (f # fs) bs =
     unpack_item f (take (fmt_size f) bs) # unpack_items fs (drop (fmt_size f) bs)"

definition unpack :: "fmt list \<Rightarrow> bytes \<Rightarrow> py_error + int list" where
  "unpack fs bs = (if length bs = calcsize fs then Inr (unpack_items fs bs) else Inl StructError)"

definition unpack_from :: "fmt list \<Rightarrow> bytes \<Rightarrow> nat \<Rightarrow> py_error + int list" where
  "unpack_from fs bs off =
     (if off + calcsize fs \<le> length bs then Inr (unpack_items fs (drop off bs)) else Inl StructError)"

lemma unpack_pack_item:
  assumes "fits f v"
  shows "unpack_item f (le_bytes (fmt_size f) v) = v"
proof -
  let ?m = "256 ^ fmt_size f :: int"
  have half: "?m div 2 + ?m div 2 = ?m"
    by (cases f) simp_all
  have pos: "0 \<le> v mod ?m" "v mod ?m < ?m" by simp_all
  have val: "le_val (le_bytes (fmt_size f) v) = v mod ?m"
    using le_val_le_bytes [OF pos] by (simp add: le_bytes_mod)
  show ?thesis
  proof (cases "v < 0")
    case True
    with assms have s: "- (?m div 2) \<le> v" "fmt_signed f"
      by (auto simp: fits_def split: if_splits)
    have "v mod ?m = (v + ?m) mod ?m" by simp
    also have "\<dots> = v + ?m"
      using True s half by (intro mod_pos_pos_trivial) auto
    finally have "v mod ?m = v + ?m" "?m div 2 \<le> v + ?m" "fmt_signed f"
      using s half by auto
    then show ?thesis by (simp add: unpack_item_def val)
  next
    case False
    with assms have "v < ?m" "fmt_signed f \<Longrightarrow> v < ?m div 2"
      using half by (auto simp: fits_def split: if_splits)
    with False show ?thesis by (auto simp: unpack_item_def val)
  qed
qed

lemma pack_length: "pack fs vs = Inr bs \<Longrightarrow> length bs = calcsize fs"
  by (induction fs vs arbitrary: bs rule: pack.induct)
    (auto simp: pack_item_def split: if_splits)

lemma unpack_items_pack: "pack fs vs = Inr bs \<Longrightarrow> unpack_items fs (bs @ rest) = vs"
  by (induction fs vs arbitrary: bs rule: pack.induct)
    (auto simp: pack_item_def unpack_pack_item split: if_splits)

lemma unpack_pack: "pack fs vs = Inr bs \<Longrightarrow> unpack fs bs = Inr vs"
  using unpack_items_pack [of fs vs bs "[]"] pack_length by (auto simp: unpack_def)

lemma pack_total:
  "length vs = length fs \<Longrightarrow> (\<And>i. i < length fs \<Longrightarrow> fits (fs ! i) (vs ! i)) \<Longrightarrow> \<exists>bs. pack fs vs = Inr bs"
proof (induction fs arbitrary: vs)
  case Nil
  then show ?case by simp
next
  case (Cons f fs)
  then obtain v ws where vs: "vs = v # ws" "length ws = length fs"
    by (cases vs) auto
  have "fits f v" using Cons.prems(2) [of 0] vs by simp
  moreover have "fits (fs ! i) (ws ! i)" if "i < length fs" for i
    using Cons.prems(2) [of "Suc i"] that vs by simp
  then have "\<exists>bs. pack fs ws = Inr bs" using Cons.IH vs(2) by blast
  ultimately show ?case by (auto simp: pack_item_def vs)
qed

lemma unpack_item_fits:
  assumes "length bs = fmt_size f"
  shows "fits f (unpack_item f bs)"
proof -
  have "0 \<le> le_val bs \<and> le_val bs < 256 ^ fmt_size f"
    using le_val_bounds [of bs] assms by simp
  then show ?thesis
    by (cases f) (auto simp: fits_def unpack_item_def Let_def)
qed

section \<open>CRC-32\<close>

definition crc_poly :: "32 word" where
  "crc_poly = 0xEDB88320"

definition crc_shift :: "32 word \<Rightarrow> 32 word" where
  "crc_shift t = (if bit t 0 then drop_bit 1 t XOR crc_poly else drop_bit 1 t)"

definition crc_byte :: "32 word \<Rightarrow> byte \<Rightarrow> 32 word" where
  "crc_byte c b = (crc_shift ^^ 8) (c XOR ucast b)"

definition crc32 :: "bytes \<Rightarrow> int" where
  "crc32 bs = uint (NOT (foldl crc_byte (NOT 0) bs))"

lemma crc_byte_unfold:
  "crc_byte c b =
     crc_shift (crc_shift (crc_shift (crc_shift
       (crc_shift (crc_shift (crc_shift (crc_shift (c XOR ucast b))))))))"
  by (simp add: crc_byte_def eval_nat_numeral)

text \<open>The published check values of the algorithm, for no byte and for the byte \<open>a\<close>.\<close>

lemma crc32_check_values: "crc32 [] = 0" "crc32 [0x61] = 0xE8B7BE43"
  by (simp_all add: crc32_def crc_byte_unfold crc_shift_def crc_poly_def)

lemma crc_shift_bit31: "bit (crc_shift t) 31 = bit t 0"
proof -
  have "bit (crc_poly) 31" by (simp add: crc_poly_def)
  moreover have "\<not> bit (drop_bit 1 t) 31"
    by (simp add: bit_drop_bit_eq) (use bit_imp_le_length [of t 32] in auto)
  ultimately show ?thesis by (simp add: crc_shift_def bit_xor_iff)
qed

lemma xor_cancel_left: "(a :: 'a :: len word) XOR b = a XOR c \<longleftrightarrow> b = c"
  by (metis xor.left_neutral xor.assoc xor_self_eq)

lemma xor_cancel_right: "(b :: 'a :: len word) XOR a = c XOR a \<longleftrightarrow> b = c"
  by (simp add: xor.commute [of _ a] xor_cancel_left)

lemma crc_shift_inj: "crc_shift a = crc_shift b \<Longrightarrow> a = b"
proof -
  assume eq: "crc_shift a = crc_shift b"
  then have b0: "bit a 0 = bit b 0"
    by (metis crc_shift_bit31)
  with eq have d: "drop_bit 1 a = drop_bit 1 b"
    by (auto simp: crc_shift_def xor_cancel_right split: if_splits)
  show "a = b"
  proof (rule bit_word_eqI)
    fix n
    show "bit a n = bit b n"
    proof (cases n)
      case 0
      then show ?thesis using b0 by simp
    next
      case (Suc m)
      have "bit (drop_bit 1 a) m = bit (drop_bit 1 b) m" using d by simp
      with Suc show ?thesis by (simp add: bit_drop_bit_eq)
    qed
  qed
qed

lemma crc_shifts_inj: "(crc_shift ^^ n) a = (crc_shift ^^ n) b \<Longrightarrow> a = b"
  by (induction n) (auto dest: crc_shift_inj)

lemma ucast_byte_inj: "(ucast (a :: byte) :: 32 word) = ucast b \<longleftrightarrow> a = b"
proof -
  have "a = b" if "(ucast a :: 32 word) = ucast b"
  proof -
    have "ucast (ucast a :: 32 word) = (ucast (ucast b :: 32 word) :: byte)"
      using that by simp
    then show ?thesis by (simp add: ucast_down_ucast_id is_down)
  qed
  then show ?thesis by blast
qed

lemma crc_byte_inj_byte: "crc_byte c a = crc_byte c b \<Longrightarrow> a = b"
  by (auto simp: crc_byte_def xor_cancel_left ucast_byte_inj dest: crc_shifts_inj)

lemma crc_byte_inj_state: "crc_byte c b = crc_byte d b \<Longrightarrow> c = d"
  by (auto simp: crc_byte_def xor_cancel_right dest: crc_shifts_inj)

lemma crc_fold_inj: "foldl crc_byte c bs = foldl crc_byte d bs \<Longrightarrow> c = d"
  by (induction bs arbitrary: c d) (auto dest: crc_byte_inj_state)

text \<open>Two messages that differ in one byte never share a CRC.\<close>

lemma crc32_single_byte: "crc32 (xs @ a # ys) = crc32 (xs @ b # ys) \<Longrightarrow> a = b"
  unfolding crc32_def word_uint_eq_iff [symmetric]
  by (auto dest!: crc_fold_inj crc_byte_inj_byte simp: bit.compl_eq_compl_iff)

lemma crc32_bounds: "0 \<le> crc32 bs \<and> crc32 bs < 256 ^ 4"
  using uint_bounded [of "NOT (foldl crc_byte (NOT 0) bs)"] by (simp add: crc32_def)

end
