(* ===== verification/Cobs.thy ===== *)
theory Cobs
  imports Bytes
begin

text \<open>
  Consistent overhead byte stuffing of \<open>uwb/protocol/python/mission10_uwb_protocol.py\<close>.
  The encoder patches the length code of the open run in place; it is proved equal to a
  reference encoder without mutation. The decoder walks the frame by index. The lemmas give
  the round trip, the absence of the delimiter inside an encoding, and its length.
\<close>

section \<open>Encoder\<close>

record cobs_state =
  outbuf :: bytes
  code_index :: nat
  code :: nat

definition cobs_start :: cobs_state where
  "cobs_start = \<lparr>outbuf = [0], code_index = 0, code = 1\<rparr>"

text \<open>The two blocks that close a run: write its code, open a new placeholder.\<close>

definition cobs_close_run :: "cobs_state \<Rightarrow> cobs_state" where
  "cobs_close_run st =
     (let out = (outbuf st)[code_index st := of_nat (code st)]
      in \<lparr>outbuf = out @ [0], code_index = length out, code = 1\<rparr>)"

definition cobs_step :: "cobs_state \<Rightarrow> byte \<Rightarrow> cobs_state" where
  "cobs_step st b =
     (if b = 0 then cobs_close_run st
      else
        let st' = st\<lparr>outbuf := outbuf st @ [b], code := code st + 1\<rparr>
        in if code st' = 0xFF then cobs_close_run st' else st')"

definition cobs_encode :: "bytes \<Rightarrow> bytes" where
  "cobs_encode raw =
     (let st = foldl cobs_step cobs_start raw
      in (outbuf st)[code_index st := of_nat (code st)] @ [0])"

section \<open>Decoder\<close>

text \<open>
  The \<open>while index < end\<close> loop; \<open>end\<close> is the position of the final delimiter. Every
  iteration reads a non-zero code, so the index grows.
\<close>

function cobs_decode_loop :: "bytes \<Rightarrow> nat \<Rightarrow> nat \<Rightarrow> bytes \<Rightarrow> py_error + bytes" where
  "cobs_decode_loop frame fin index out =
     (if index < fin then
        let c = unat (frame ! index) in
        if c = 0 then Inl (FrameError ''unexpected COBS delimiter'')
        else
          let run_end = index + 1 + c - 1 in
          if fin < run_end then Inl (FrameError ''truncated COBS run'')
          else
            let out1 = out @ take (run_end - (index + 1)) (drop (index + 1) frame);
                out2 = (if c \<noteq> 0xFF \<and> run_end < fin then out1 @ [0] else out1)
            in cobs_decode_loop frame fin run_end out2
      else Inr out)"
  by pat_completeness auto
termination
  by (relation "measure (\<lambda>(frame, fin, index, out). fin - index)") auto

declare cobs_decode_loop.simps [simp del]

definition cobs_decode :: "bytes \<Rightarrow> py_error + bytes" where
  "cobs_decode frame =
     (if frame = [] \<or> last frame \<noteq> 0 then Inl (FrameError ''truncated COBS frame'')
      else cobs_decode_loop frame (length frame - 1) 0 [])"

section \<open>Reference encoder\<close>

text \<open>The pending run is an argument instead of the tail of a patched buffer.\<close>

fun cobs_ref :: "bytes \<Rightarrow> bytes \<Rightarrow> bytes" where
  "cobs_ref run [] = of_nat (length run + 1) # run"
| "cobs_ref run (b # bs) =
     (if b = 0 then of_nat (length run + 1) # run @ cobs_ref [] bs
      else if length run + 2 = 0xFF then 0xFF # run @ b # cobs_ref [] bs
      else cobs_ref (run @ [b]) bs)"

lemma list_update_mid: "(pre @ x # run)[length pre := y] = pre @ y # run"
  by simp

lemma cobs_fold_ref:
  "length run \<le> 253 \<Longrightarrow>
   st = \<lparr>outbuf = pre @ 0 # run, code_index = length pre, code = length run + 1\<rparr> \<Longrightarrow>
   (let st' = foldl cobs_step st raw in (outbuf st')[code_index st' := of_nat (code st')])
     = pre @ cobs_ref run raw"
proof (induction raw arbitrary: st pre run)
  case Nil
  then show ?case by simp
next
  case (Cons b bs)
  consider "b = 0" | "b \<noteq> 0" "length run = 253" | "b \<noteq> 0" "length run < 253"
    using Cons.prems(1) by linarith
  then show ?case
  proof cases
    case 1
    let ?pre = "pre @ of_nat (length run + 1) # run"
    have "cobs_step st b = \<lparr>outbuf = ?pre @ 0 # [], code_index = length ?pre, code = length [] + 1\<rparr>"
      using 1 Cons.prems by (simp add: cobs_step_def cobs_close_run_def Let_def)
    from Cons.IH [OF _ this] 1 show ?thesis by simp
  next
    case 2
    let ?pre = "pre @ 0xFF # run @ [b]"
    have "cobs_step st b = \<lparr>outbuf = ?pre @ 0 # [], code_index = length ?pre, code = length [] + 1\<rparr>"
      using 2 Cons.prems by (simp add: cobs_step_def cobs_close_run_def Let_def)
    from Cons.IH [OF _ this] 2 show ?thesis by simp
  next
    case 3
    have "cobs_step st b =
        \<lparr>outbuf = pre @ 0 # (run @ [b]), code_index = length pre, code = length (run @ [b]) + 1\<rparr>"
      using 3 Cons.prems by (simp add: cobs_step_def Let_def)
    from Cons.IH [OF _ this] 3 show ?thesis by simp
  qed
qed

lemma cobs_encode_ref: "cobs_encode raw = cobs_ref [] raw @ [0]"
  using cobs_fold_ref [of "[]" cobs_start "[]" raw]
  by (simp add: cobs_encode_def cobs_start_def Let_def)

lemma unat_byte_of_nat: "n < 256 \<Longrightarrow> unat (of_nat n :: byte) = n"
  by (simp add: unat_of_nat)

section \<open>The encoding holds no delimiter and is short\<close>

lemma of_nat_byte_nz: "0 < n \<Longrightarrow> n < 256 \<Longrightarrow> (of_nat n :: byte) \<noteq> 0"
  by (metis less_not_refl unat_0 unat_byte_of_nat)

lemma cobs_ref_no_zero:
  "length run \<le> 253 \<Longrightarrow> 0 \<notin> set run \<Longrightarrow> 0 \<notin> set (cobs_ref run raw)"
proof (induction run raw rule: cobs_ref.induct)
  case (1 run)
  then show ?case using of_nat_byte_nz [of "length run + 1"] by auto
next
  case (2 run b bs)
  then show ?case using of_nat_byte_nz [of "length run + 1"] by auto
qed

lemma cobs_ref_length:
  "length (cobs_ref run raw) \<le> length run + length raw + 1 + (length run + length raw) div 254"
proof (induction run raw rule: cobs_ref.induct)
  case (1 run)
  then show ?case by simp
next
  case (2 run b bs)
  consider "b = 0" | "b \<noteq> 0" "length run = 253" | "b \<noteq> 0" "length run \<noteq> 253" by blast
  then show ?case
  proof cases
    case 1
    have "length bs div 254 \<le> (length run + Suc (length bs)) div 254"
      by (rule div_le_mono) simp
    with 1 "2.IH"(1) show ?thesis by simp
  next
    case 2
    with "2.IH"(2) show ?thesis by simp
  next
    case 3
    with "2.IH"(3) show ?thesis by simp
  qed
qed

lemma cobs_encode_length: "length (cobs_encode raw) \<le> length raw + 2 + length raw div 254"
  using cobs_ref_length [of "[]" raw] by (simp add: cobs_encode_ref)

lemma cobs_encode_delimited:
  "cobs_encode raw = butlast (cobs_encode raw) @ [0]" "0 \<notin> set (butlast (cobs_encode raw))"
  using cobs_ref_no_zero [of "[]" raw] by (simp_all add: cobs_encode_ref)

section \<open>Round trip\<close>

lemma cobs_ref_nonempty [simp]: "cobs_ref run raw \<noteq> []"
  by (induction run raw rule: cobs_ref.induct) auto

lemma cobs_decode_block:
  assumes "0 < n" "n < 256" "length run = n - 1" "fin = length pre + 1 + length run + length post"
  shows "cobs_decode_loop (pre @ of_nat n # run @ post @ tl0) fin (length pre) out =
    cobs_decode_loop (pre @ of_nat n # run @ post @ tl0) fin (length pre + 1 + length run)
      (out @ run @ (if n \<noteq> 255 \<and> post \<noteq> [] then [0] else []))"
proof -
  have nz: "unat (of_nat n :: byte) = n" using assms(2) by (rule unat_byte_of_nat)
  have ff: "(of_nat n :: byte) = 255 \<longleftrightarrow> n = 255"
    using nz by auto
  show ?thesis
    using assms nz ff
    by (subst cobs_decode_loop.simps) (auto simp: Let_def nth_append)
qed

lemma cobs_decode_ref:
  "length run \<le> 253 \<Longrightarrow> 
   cobs_decode_loop (pre @ cobs_ref run raw @ [0]) (length (pre @ cobs_ref run raw)) (length pre) out
     = Inr (out @ run @ raw)"
proof (induction run raw arbitrary: pre out rule: cobs_ref.induct)
  case (1 run)
  let ?n = "length run + 1"
  have "cobs_decode_loop (pre @ of_nat ?n # run @ [] @ [0]) (length pre + 1 + length run)
      (length pre) out = Inr (out @ run)"
    using 1 by (subst cobs_decode_block) (auto simp: cobs_decode_loop.simps)
  then show ?case by simp
next
  case (2 run b bs)
  consider "b = 0" | "b \<noteq> 0" "length run = 253" | "b \<noteq> 0" "length run < 253"
    using "2.prems" by linarith
  then show ?case
  proof cases
    case 1
    let ?n = "length run + 1" and ?r = "cobs_ref [] bs"
    let ?pre = "pre @ of_nat ?n # run"
    have "cobs_decode_loop (pre @ of_nat ?n # run @ ?r @ [0]) (length pre + 1 + length run + length ?r)
        (length pre) out =
      cobs_decode_loop (pre @ of_nat ?n # run @ ?r @ [0]) (length pre + 1 + length run + length ?r)
        (length pre + 1 + length run) (out @ run @ [0])"
      using 1 "2.prems" by (subst cobs_decode_block) auto
    moreover have "cobs_decode_loop (?pre @ ?r @ [0]) (length (?pre @ ?r)) (length ?pre) (out @ run @ [0])
        = Inr ((out @ run @ [0]) @ [] @ bs)"
      using 1 by (intro "2.IH"(1)) auto
    ultimately show ?thesis using 1 by (simp add: add.assoc)
  next
    case 2
    let ?r = "cobs_ref [] bs" and ?run = "run @ [b]"
    let ?pre = "pre @ of_nat 255 # ?run"
    have "cobs_decode_loop (pre @ of_nat 255 # ?run @ ?r @ [0]) (length pre + 1 + length ?run + length ?r)
        (length pre) out =
      cobs_decode_loop (pre @ of_nat 255 # ?run @ ?r @ [0]) (length pre + 1 + length ?run + length ?r)
        (length pre + 1 + length ?run) (out @ ?run)"
      using 2 by (subst cobs_decode_block) auto
    moreover have "cobs_decode_loop (?pre @ ?r @ [0]) (length (?pre @ ?r)) (length ?pre) (out @ ?run)
        = Inr ((out @ ?run) @ [] @ bs)"
      using 2 by (intro "2.IH"(2)) auto
    ultimately show ?thesis using 2 by (simp add: ac_simps)
  next
    case 3
    then have "cobs_ref run (b # bs) = cobs_ref (run @ [b]) bs" by simp
    moreover have "cobs_decode_loop (pre @ cobs_ref (run @ [b]) bs @ [0])
        (length (pre @ cobs_ref (run @ [b]) bs)) (length pre) out = Inr (out @ (run @ [b]) @ bs)"
      using 3 by (intro "2.IH"(3)) auto
    ultimately show ?thesis by simp
  qed
qed

lemma cobs_roundtrip: "cobs_decode (cobs_encode raw) = Inr raw"
  using cobs_decode_ref [of "[]" "[]" raw "[]"]
  by (simp add: cobs_decode_def cobs_encode_ref)

text \<open>The decoder raises nothing but \<open>FrameError\<close>.\<close>

lemma cobs_decode_loop_error:
  "cobs_decode_loop frame fin index out = Inl e \<Longrightarrow> \<exists>m. e = FrameError m"
proof (induction frame fin index out rule: cobs_decode_loop.induct)
  case (1 frame fin index out)
  let ?c = "unat (frame ! index)"
  show ?case
  proof (cases "index < fin \<and> ?c \<noteq> 0 \<and> \<not> fin < index + 1 + ?c - 1")
    case True
    let ?fin = "index + 1 + ?c - 1"
    let ?out = "out @ take (?fin - (index + 1)) (drop (index + 1) frame)"
    have "cobs_decode_loop frame fin ?fin (if ?c \<noteq> 0xFF \<and> ?fin < fin then ?out @ [0] else ?out) = Inl e"
      using "1.prems" True
      by (simp add: cobs_decode_loop.simps [of frame fin index out] Let_def split del: if_split cong: if_cong)
    from "1.IH" [OF _ refl _ refl _ refl refl this] True show ?thesis by blast
  next
    case False
    with "1.prems" show ?thesis
      by (auto simp: cobs_decode_loop.simps [of frame fin index out] Let_def split: if_splits)
  qed
qed

lemma cobs_decode_error: "cobs_decode frame = Inl e \<Longrightarrow> \<exists>m. e = FrameError m"
  by (auto simp: cobs_decode_def split: if_splits dest: cobs_decode_loop_error)

end
