(* ===== verification/Uwb_Protocol.thy ===== *)
theory Uwb_Protocol
  imports Cobs
begin

text \<open>
  The host side of the UWB stream (\<open>uwb/protocol/python/mission10_uwb_protocol.py\<close>): the
  validated value classes, the binary layouts, \<open>decode_frame\<close> on every variant and error
  branch, the host command encoders and the splitter that cuts a byte stream into frames.
\<close>

section \<open>Constants and values\<close>

definition PROTOCOL_VERSION :: int where
  "PROTOCOL_VERSION = 9"

definition MAX_PEERS :: nat where
  "MAX_PEERS = 5"

definition MAX_FRAME_SIZE :: nat where
  "MAX_FRAME_SIZE = 192"

definition EGO_STATE_FORMAT :: "fmt list" where
  "EGO_STATE_FORMAT = [FQ, FI, FH, Fh, Fh, Fh, Fi, Fi, Fi, Fh, Fh, Fh, FB, FH]"

definition CONFIGURATION_FORMAT :: "fmt list" where
  "CONFIGURATION_FORMAT = [FH, FB, FH, FH, FH, FH, FH]"

definition DIAGNOSTIC_NAMES :: "string list" where
  "DIAGNOSTIC_NAMES =
    [''rx_fcs'', ''rx_phy'', ''rx_buffer_too_small'', ''rx_reed_solomon'',
     ''rx_frame_wait_timeout'', ''rx_overrun'', ''rx_preamble_detection_timeout'',
     ''rx_sfd_timeout'', ''rx_frame_filtering_rejection'', ''spi'', ''frame_decode'',
     ''invalid_distance'', ''delayed_send_too_late'', ''delayed_send_power_up_warning'',
     ''radio_state'', ''host_frame'', ''invalid_configuration'', ''malformed_air'',
     ''unexpected_air'', ''invalid_timestamp'', ''unknown'', ''radio_reset'', ''watchdog_reset'']"

definition is_node_address :: "int \<Rightarrow> bool" where
  "is_node_address a \<longleftrightarrow> 0 \<le> a \<and> a \<le> 0xFF \<or> 0x8000 \<le> a \<and> a \<le> 0x80FF"

record ego_state =
  sample_time_us :: int
  ego_sequence :: int
  frame_epoch :: int
  phase_mrad :: int
  phase_rate_mrad_s :: int
  yaw_mrad :: int
  position_enu_mm :: "int \<times> int \<times> int"
  velocity_enu_mm_s :: "int \<times> int \<times> int"
  ego_mode :: int
  validity :: int

record radio_configuration =
  node_address :: int
  peers :: "int list"

text \<open>\<open>RadioConfiguration(...)\<close> with the checks of \<open>__post_init__\<close> in their order.\<close>

definition mk_radio_configuration :: "int \<Rightarrow> int list \<Rightarrow> py_error + radio_configuration" where
  "mk_radio_configuration node ps =
     (if \<not> is_node_address node then
        Inl (ValueError ''node address is outside the Mission 10 namespaces'')
      else if \<not> (1 \<le> length ps \<and> length ps \<le> MAX_PEERS) then
        Inl (ValueError ''one to 5 peers are required'')
      else if (\<exists>p \<in> set ps. \<not> is_node_address p) then
        Inl (ValueError ''peer address is outside the Mission 10 namespaces'')
      else if node \<in> set ps \<or> card (set ps) \<noteq> length ps then
        Inl (ValueError ''peers must be unique and distinct from the node'')
      else Inr \<lparr>node_address = node, peers = ps\<rparr>)"

record fleet_mode =
  master :: int
  network :: int

definition FIELD :: int where "FIELD = 0"
definition INTERNET :: int where "INTERNET = 1"

definition mk_fleet_mode :: "int \<Rightarrow> int \<Rightarrow> py_error + fleet_mode" where
  "mk_fleet_mode m n =
     (if n \<noteq> FIELD \<and> n \<noteq> INTERNET then Inl (ValueError ''fleet network must be field or internet'')
      else Inr \<lparr>master = m, network = n\<rparr>)"

record diagnostic =
  diag_code :: int
  diag_name :: string

record mission_event_time =
  mission_time_us :: "int option"
  generation :: int
  error_us :: int

text \<open>\<open>Envelope.fields\<close> is a tuple of values of these classes.\<close>

datatype field =
    IntField int
  | ConfigField radio_configuration
  | EventTimeField mission_event_time
  | EgoField ego_state
  | DiagField diagnostic
  | ModeField fleet_mode

record envelope =
  protocol_version :: int
  env_sequence :: int
  kind :: string
  env_fields :: "field list"

section \<open>Ego state and configuration bodies\<close>

definition decode_ego_state :: "bytes \<Rightarrow> py_error + ego_state" where
  "decode_ego_state payload =
     (if length payload \<noteq> calcsize EGO_STATE_FORMAT then
        Inl (FrameError ''ego state has the wrong length'')
      else bindE (unpack EGO_STATE_FORMAT payload) (\<lambda>values.
        (case values of
           [t, s, ep, ph, rate, yaw, px, py, pz, vx, vy, vz, m, val] \<Rightarrow>
             Inr \<lparr>sample_time_us = t, ego_sequence = s, frame_epoch = ep, phase_mrad = ph,
                  phase_rate_mrad_s = rate, yaw_mrad = yaw, position_enu_mm = (px, py, pz),
                  velocity_enu_mm_s = (vx, vy, vz), ego_mode = m, validity = val\<rparr>
         | _ \<Rightarrow> Inl IndexError)))"

definition ego_values :: "ego_state \<Rightarrow> int list" where
  "ego_values st =
     (case (position_enu_mm st, velocity_enu_mm_s st) of ((px, py, pz), (vx, vy, vz)) \<Rightarrow>
        [sample_time_us st, ego_sequence st, frame_epoch st, phase_mrad st,
         phase_rate_mrad_s st, yaw_mrad st, px, py, pz, vx, vy, vz, ego_mode st, validity st])"

definition encode_ego_state_body :: "ego_state \<Rightarrow> py_error + bytes" where
  "encode_ego_state_body st = pack EGO_STATE_FORMAT (ego_values st)"

definition as_frame_error :: "py_error \<Rightarrow> py_error" where
  "as_frame_error e = (case e of ValueError m \<Rightarrow> FrameError m | _ \<Rightarrow> e)"

text \<open>\<open>try: ... except ValueError as error: raise FrameError(str(error))\<close>.\<close>

definition rethrow :: "py_error + 'a \<Rightarrow> py_error + 'a" where
  "rethrow r = (case r of Inl e \<Rightarrow> Inl (as_frame_error e) | Inr x \<Rightarrow> Inr x)"

definition decode_configuration :: "bytes \<Rightarrow> py_error + radio_configuration" where
  "decode_configuration payload =
     (if length payload \<noteq> calcsize CONFIGURATION_FORMAT then
        Inl (FrameError ''configuration has the wrong length'')
      else bindE (unpack CONFIGURATION_FORMAT payload) (\<lambda>values.
        (case values of
           node # peer_count # peer_slots \<Rightarrow>
             if int MAX_PEERS < peer_count then
               Inl (FrameError ''configuration peer count is out of range'')
             else rethrow (mk_radio_configuration node (take (nat peer_count) peer_slots))
         | _ \<Rightarrow> Inl (ValueError ''not enough values to unpack''))))"

definition encode_configuration_body :: "radio_configuration \<Rightarrow> py_error + bytes" where
  "encode_configuration_body cfg =
     pack CONFIGURATION_FORMAT
       (node_address cfg # int (length (peers cfg)) #
        (peers cfg @ replicate (MAX_PEERS - length (peers cfg)) 0))"


section \<open>decode\_frame\<close>

text \<open>The \<open>fixed_formats\<close> table.\<close>

definition fixed_formats :: "int \<Rightarrow> (string \<times> fmt list) option" where
  "fixed_formats variant =
     (if variant = 0 then Some (''radio_id'', [FH, FB, FB, FB])
      else if variant = 1 then Some (''otp'', [FI, FI, FI, FI])
      else if variant = 2 then Some (''ready'', [FH, FH])
      else if variant = 3 then Some (''clock_probe'', [FH])
      else if variant = 4 then Some (''clock_status'', [FI, FI, FI, FB])
      else if variant = 8 then Some (''health'', replicate 31 FI)
      else None)"

text \<open>
  The event-time part of a completed exchange, from \<open>offset\<close> on: the value and the offset
  behind it.
\<close>

definition decode_event_time :: "bytes \<Rightarrow> nat \<Rightarrow> py_error + mission_event_time \<times> nat" where
  "decode_event_time body header_size =
     (let mapping_variant = uint (body ! header_size);
          offset = header_size + 1;
          mapping_format = [FQ, FI, FI]
      in if mapping_variant = 0 then
           Inr (\<lparr>mission_time_us = None, generation = 0, error_us = 0\<rparr>, offset)
         else if mapping_variant = 1 then
           if length body < offset + calcsize mapping_format then
             Inl (FrameError ''mapped event time is truncated'')
           else bindE (unpack_from mapping_format body offset) (\<lambda>values.
             (case values of
                [t, g, er] \<Rightarrow>
                  Inr (\<lparr>mission_time_us = Some t, generation = g, error_us = er\<rparr>,
                       offset + calcsize mapping_format)
              | _ \<Rightarrow> Inl (TypeError ''MissionEventTime'')))
         else Inl (FrameError ''unknown mission event-time variant''))"

definition decode_completed_exchange :: "int \<Rightarrow> int \<Rightarrow> bytes \<Rightarrow> py_error + envelope" where
  "decode_completed_exchange version seqno body =
     (let header_format = [FH, FH, FQ];
          header_size = calcsize header_format;
          tail_format = [FI, Fh, FH];
          tail_size = calcsize tail_format
      in if length body < header_size + 1 then
           Inl (FrameError ''completed exchange has the wrong length'')
         else bindE (unpack_from header_format body 0) (\<lambda>header.
           bindE (decode_event_time body header_size) (\<lambda>(event_time, offset).
             if length body \<noteq> offset + tail_size + calcsize EGO_STATE_FORMAT then
               Inl (FrameError ''completed exchange has the wrong length'')
             else bindE (unpack_from tail_format body offset) (\<lambda>tail.
               bindE (decode_ego_state (drop (offset + tail_size) body)) (\<lambda>ego.
                 Inr \<lparr>protocol_version = version, env_sequence = seqno,
                      kind = ''completed_exchange'',
                      env_fields = List.map IntField header @ [EventTimeField event_time]
                        @ List.map IntField tail @ [EgoField ego]\<rparr>)))))"

definition decode_diagnostic :: "int \<Rightarrow> int \<Rightarrow> bytes \<Rightarrow> py_error + envelope" where
  "decode_diagnostic version seqno body =
     (if length body \<noteq> 1 then Inl (FrameError ''diagnostic has the wrong length'')
      else
        let code = unat (body ! 0);
            name = (if code < length DIAGNOSTIC_NAMES then DIAGNOSTIC_NAMES ! code
                    else ''unrecognized'')
        in Inr \<lparr>protocol_version = version, env_sequence = seqno, kind = ''error'',
                env_fields = [DiagField \<lparr>diag_code = int code, diag_name = name\<rparr>]\<rparr>)"

definition decode_fleet_mode :: "int \<Rightarrow> int \<Rightarrow> bytes \<Rightarrow> py_error + envelope" where
  "decode_fleet_mode version seqno body =
     (if length body \<noteq> 4 then Inl (FrameError ''fleet mode has the wrong length'')
      else bindE (unpack [FH, FB, FB] body) (\<lambda>values.
        (case values of
           [source, m, n] \<Rightarrow>
             bindE (rethrow (mk_fleet_mode m n)) (\<lambda>mode.
               Inr \<lparr>protocol_version = version, env_sequence = seqno,
                    kind = ''fleet_mode_received'',
                    env_fields = [IntField source, ModeField mode]\<rparr>)
         | _ \<Rightarrow> Inl (ValueError ''not enough values to unpack''))))"

definition decode_fixed :: "int \<Rightarrow> int \<Rightarrow> int \<Rightarrow> bytes \<Rightarrow> py_error + envelope" where
  "decode_fixed version seqno variant body =
     (case fixed_formats variant of
        None \<Rightarrow> Inl (FrameError (''unknown radio message variant '' @ show_int variant))
      | Some (k, field_format) \<Rightarrow>
          if length body \<noteq> calcsize field_format then
            Inl (FrameError ''message length does not match its variant'')
          else bindE (unpack field_format body) (\<lambda>values.
            Inr \<lparr>protocol_version = version, env_sequence = seqno, kind = k,
                 env_fields = List.map IntField values\<rparr>))"

definition decode_body :: "int \<Rightarrow> int \<Rightarrow> int \<Rightarrow> bytes \<Rightarrow> py_error + envelope" where
  "decode_body version seqno variant body =
     (if variant = 5 then
        bindE (decode_configuration body) (\<lambda>cfg.
          Inr \<lparr>protocol_version = version, env_sequence = seqno, kind = ''configured'',
               env_fields = [ConfigField cfg]\<rparr>)
      else if variant = 6 then decode_completed_exchange version seqno body
      else if variant = 7 then decode_diagnostic version seqno body
      else if variant = 9 then decode_fleet_mode version seqno body
      else decode_fixed version seqno variant body)"

definition decode_raw :: "bytes \<Rightarrow> py_error + envelope" where
  "decode_raw raw =
     (if length raw < 10 then Inl (FrameError ''frame too short'')
      else
        let payload = take (length raw - 4) raw; crc_bytes = drop (length raw - 4) raw
        in bindE (unpack [FI] crc_bytes) (\<lambda>crcs.
          if crc32 payload \<noteq> crcs ! 0 then Inl (FrameError ''CRC mismatch'')
          else bindE (unpack_from [FB, FI, FB] payload 0) (\<lambda>header.
            (case header of
               [version, seqno, variant] \<Rightarrow>
                 if version \<noteq> PROTOCOL_VERSION then
                   Inl (FrameError (''unsupported protocol version '' @ show_int version))
                 else decode_body version seqno variant (drop 6 payload)
             | _ \<Rightarrow> Inl (ValueError ''not enough values to unpack'')))))"

definition decode_frame :: "bytes \<Rightarrow> py_error + envelope" where
  "decode_frame frame = bindE (cobs_decode frame) decode_raw"

section \<open>Host commands\<close>

definition encode_host_command :: "int \<Rightarrow> int \<Rightarrow> bytes \<Rightarrow> py_error + bytes" where
  "encode_host_command seqno variant body =
     bindE (pack [FB, FI, FB] [PROTOCOL_VERSION, seqno, variant]) (\<lambda>header.
       let payload = header @ body
       in bindE (pack [FI] [crc32 payload]) (\<lambda>crc.
         let frame = cobs_encode (payload @ crc)
         in if MAX_FRAME_SIZE < length frame then
              Inl (FrameError ''encoded host command exceeds the transport bound'')
            else Inr frame))"

definition encode_configuration :: "int \<Rightarrow> radio_configuration \<Rightarrow> py_error + bytes" where
  "encode_configuration seqno cfg =
     bindE (encode_configuration_body cfg) (encode_host_command seqno 0)"

definition encode_ego_state :: "int \<Rightarrow> ego_state \<Rightarrow> py_error + bytes" where
  "encode_ego_state seqno st = bindE (encode_ego_state_body st) (encode_host_command seqno 1)"

definition encode_health_request :: "int \<Rightarrow> int \<Rightarrow> py_error + bytes" where
  "encode_health_request seqno request_id =
     bindE (pack [FI] [request_id]) (encode_host_command seqno 2)"

definition encode_clock_reply :: "int \<Rightarrow> int \<Rightarrow> int \<Rightarrow> int \<Rightarrow> int \<Rightarrow> int \<Rightarrow> py_error + bytes" where
  "encode_clock_reply seqno request_id mission_rx_us mission_tx_us mission_generation source_error_us =
     bindE (pack [FH, FQ, FQ, FI, FI]
             [request_id, mission_rx_us, mission_tx_us, mission_generation, source_error_us])
       (encode_host_command seqno 3)"

definition encode_fleet_mode :: "int \<Rightarrow> fleet_mode \<Rightarrow> py_error + bytes" where
  "encode_fleet_mode seqno mode =
     bindE (pack [FB, FB] [master mode, network mode]) (encode_host_command seqno 4)"

section \<open>Splitting the stream\<close>

record splitter =
  partial :: bytes
  discarding :: bool
  yielded :: "bytes list"

definition splitter_start :: splitter where
  "splitter_start = \<lparr>partial = [], discarding = False, yielded = []\<rparr>"

definition splitter_step :: "splitter \<Rightarrow> byte \<Rightarrow> splitter" where
  "splitter_step s b =
     (if discarding s then (if b = 0 then s\<lparr>discarding := False\<rparr> else s)
      else if length (partial s) = MAX_FRAME_SIZE then s\<lparr>partial := [], discarding := True\<rparr>
      else
        let s' = s\<lparr>partial := partial s @ [b]\<rparr>
        in if b = 0 then s'\<lparr>partial := [], yielded := yielded s' @ [partial s']\<rparr> else s')"

text \<open>\<open>while chunk := stream.read(64)\<close>: an empty chunk is the end of the stream.\<close>

fun frames_from :: "splitter \<Rightarrow> bytes list \<Rightarrow> splitter" where
  "frames_from s [] = s"
| "frames_from s (chunk # chunks) =
     (if chunk = [] then s else frames_from (foldl splitter_step s chunk) chunks)"

definition frames :: "bytes list \<Rightarrow> bytes list" where
  "frames chunks = yielded (frames_from splitter_start chunks)"


section \<open>What an encoded frame decodes to\<close>

lemma calcsize_formats [simp]:
  "calcsize EGO_STATE_FORMAT = 41" "calcsize CONFIGURATION_FORMAT = 13"
  by (simp_all add: EGO_STATE_FORMAT_def CONFIGURATION_FORMAT_def)

text \<open>Every host command is the stuffed payload, trailed by its CRC, and decodes to its body.\<close>

lemma encode_host_command_layout:
  assumes "encode_host_command s v body = Inr f"
  obtains header crc where "pack [FB, FI, FB] [9, s, v] = Inr header"
    "pack [FI] [crc32 (header @ body)] = Inr crc" "f = cobs_encode ((header @ body) @ crc)"
    "length f \<le> MAX_FRAME_SIZE" "length header = 6" "length crc = 4"
proof -
  from assms obtain header crc where hc:
    "pack [FB, FI, FB] [PROTOCOL_VERSION, s, v] = Inr header"
    "pack [FI] [crc32 (header @ body)] = Inr crc"
    "f = cobs_encode ((header @ body) @ crc)" "length f \<le> MAX_FRAME_SIZE"
    by (auto simp: encode_host_command_def Let_def simp del: pack.simps split: if_splits)
  moreover have "length header = 6" "length crc = 4"
    using pack_length [OF hc(1)] pack_length [OF hc(2)] by simp_all
  ultimately show ?thesis using that by (simp add: PROTOCOL_VERSION_def)
qed

lemma decode_raw_payload:
  assumes "pack [FB, FI, FB] [9, s, v] = Inr header"
    and "pack [FI] [crc32 (header @ body)] = Inr crc"
  shows "decode_raw ((header @ body) @ crc) = decode_body 9 s v body"
proof -
  have len: "length header = 6" "length crc = 4"
    using pack_length [OF assms(1)] pack_length [OF assms(2)] by simp_all
  have "unpack [FI] crc = Inr [crc32 (header @ body)]"
    using unpack_pack [OF assms(2)] .
  moreover have "unpack_from [FB, FI, FB] (header @ body) 0 = Inr [9, s, v]"
    using unpack_items_pack [OF assms(1), of body] len by (simp add: unpack_from_def)
  ultimately show ?thesis
    using len by (simp add: decode_raw_def Let_def PROTOCOL_VERSION_def)
qed

lemma decode_host_command:
  assumes "encode_host_command s v body = Inr f"
  shows "decode_frame f = decode_body 9 s v body"
  using assms
  by (auto elim!: encode_host_command_layout
      simp: decode_frame_def cobs_roundtrip decode_raw_payload simp del: append_assoc pack.simps)

lemma fits_unsigned [simp]:
  "fits FB x \<longleftrightarrow> 0 \<le> x \<and> x < 256" "fits FH x \<longleftrightarrow> 0 \<le> x \<and> x < 65536"
  "fits FI x \<longleftrightarrow> 0 \<le> x \<and> x < 2 ^ 32" "fits FQ x \<longleftrightarrow> 0 \<le> x \<and> x < 2 ^ 64"
  by (simp_all add: fits_def)

lemma encode_host_command_total:
  assumes "0 \<le> s" "s < 2 ^ 32" "0 \<le> v" "v < 256" "length body \<le> 180"
  obtains f where "encode_host_command s v body = Inr f" "length f \<le> 192"
proof -
  let ?header = "le_bytes 1 9 @ le_bytes 4 s @ le_bytes 1 v"
  have h: "pack [FB, FI, FB] [PROTOCOL_VERSION, s, v] = Inr ?header"
    using assms by (simp add: pack_item_def PROTOCOL_VERSION_def)
  have c: "pack [FI] [crc32 (?header @ body)] = Inr (le_bytes 4 (crc32 (?header @ body)))"
    using crc32_bounds [of "?header @ body"] by (simp add: pack_item_def)
  let ?raw = "(?header @ body) @ le_bytes 4 (crc32 (?header @ body))"
  have "length ?raw \<le> 190" using assms(5) by simp
  then have "length (cobs_encode ?raw) \<le> 192"
    using cobs_encode_length [of ?raw] by linarith
  with h c that show ?thesis
    by (simp add: encode_host_command_def MAX_FRAME_SIZE_def Let_def del: pack.simps)
qed

lemma encoded_frame_shape:
  assumes "encode_host_command s v body = Inr f"
  obtains g where "f = g @ [0]" "0 \<notin> set g" "length f \<le> 192"
  using assms cobs_encode_delimited
  by (elim encode_host_command_layout) (metis MAX_FRAME_SIZE_def)

section \<open>The splitter\<close>

lemma splitter_run_clean:
  "0 \<notin> set g \<Longrightarrow> \<not> discarding s \<Longrightarrow> length (partial s) + length g \<le> MAX_FRAME_SIZE \<Longrightarrow>
   foldl splitter_step s g = s\<lparr>partial := partial s @ g\<rparr>"
  by (induction g arbitrary: s) (auto simp: splitter_step_def)

lemma splitter_run_frame:
  assumes "0 \<notin> set g" "length g < MAX_FRAME_SIZE" "\<not> discarding s" "partial s = []"
  shows "foldl splitter_step s (g @ [0]) = s\<lparr>yielded := yielded s @ [g @ [0]]\<rparr>"
  using assms splitter_run_clean [of g s] by (simp add: splitter_step_def)

definition delimited :: "bytes \<Rightarrow> bool" where
  "delimited f \<longleftrightarrow> (\<exists>g. f = g @ [0] \<and> 0 \<notin> set g \<and> length g < MAX_FRAME_SIZE)"

lemma splitter_run_frames:
  "(\<forall>f \<in> set fs. delimited f) \<Longrightarrow> \<not> discarding s \<Longrightarrow> partial s = [] \<Longrightarrow>
   foldl splitter_step s (concat fs) = s\<lparr>yielded := yielded s @ fs\<rparr>"
proof (induction fs arbitrary: s)
  case Nil
  then show ?case by simp
next
  case (Cons f fs)
  then obtain g where "f = g @ [0]" "0 \<notin> set g" "length g < MAX_FRAME_SIZE"
    by (auto simp: delimited_def)
  with Cons.prems have "foldl splitter_step s f = s\<lparr>yielded := yielded s @ [f]\<rparr>"
    using splitter_run_frame by blast
  with Cons.IH [of "s\<lparr>yielded := yielded s @ [f]\<rparr>"] Cons.prems show ?case by simp
qed

lemma encoded_delimited: "encode_host_command s v body = Inr f \<Longrightarrow> delimited f"
  by (erule encoded_frame_shape) (auto simp: delimited_def MAX_FRAME_SIZE_def)

text \<open>Chunk boundaries do not matter.\<close>

lemma frames_from_concat:
  "[] \<notin> set chunks \<Longrightarrow> frames_from s chunks = foldl splitter_step s (concat chunks)"
  by (induction chunks arbitrary: s) auto

definition splitter_inv :: "splitter \<Rightarrow> bool" where
  "splitter_inv s \<longleftrightarrow> (discarding s \<longrightarrow> partial s = []) \<and> length (partial s) \<le> MAX_FRAME_SIZE
     \<and> (\<forall>f \<in> set (yielded s). delimited f) \<and> 0 \<notin> set (partial s)"

interpretation splitter: machine splitter_step splitter_inv
proof
  fix s b
  assume "splitter_inv s"
  then show "splitter_inv (splitter_step s b)"
    by (auto simp: splitter_inv_def splitter_step_def Let_def delimited_def)
qed

lemma splitter_start_inv: "splitter_inv splitter_start"
  by (simp add: splitter_inv_def splitter_start_def)

lemma frames_from_inv: "splitter_inv s \<Longrightarrow> splitter_inv (frames_from s chunks)"
  by (induction chunks arbitrary: s) (auto intro: splitter.run_inv)

text \<open>After any noise, two delimiters bring the splitter back to the frame boundary.\<close>

lemma splitter_resync:
  assumes "splitter_inv s"
  shows "\<not> discarding (foldl splitter_step s [0, 0]) \<and> partial (foldl splitter_step s [0, 0]) = []"
  using assms by (auto simp: splitter_inv_def splitter_step_def MAX_FRAME_SIZE_def)

end
