(* ===== verification/Uwb_Properties.thy ===== *)
theory Uwb_Properties
  imports Uwb_Protocol
begin

text \<open>
  What the UWB host protocol guarantees: round trips of its bodies, rejection of corrupted
  frames, the exceptions a reader has to expect, and the behaviour of the stream splitter,
  including the one oversized length after which it loses a good frame.
\<close>

section \<open>Round trips\<close>

lemma unpack_ego_items:
  "unpack_items EGO_STATE_FORMAT b =
    [unpack_item FQ (take 8 b), unpack_item FI (take 4 (drop 8 b)),
     unpack_item FH (take 2 (drop 12 b)), unpack_item Fh (take 2 (drop 14 b)),
     unpack_item Fh (take 2 (drop 16 b)), unpack_item Fh (take 2 (drop 18 b)),
     unpack_item Fi (take 4 (drop 20 b)), unpack_item Fi (take 4 (drop 24 b)),
     unpack_item Fi (take 4 (drop 28 b)), unpack_item Fh (take 2 (drop 32 b)),
     unpack_item Fh (take 2 (drop 34 b)), unpack_item Fh (take 2 (drop 36 b)),
     unpack_item FB (take 1 (drop 38 b)), unpack_item FH (take 2 (drop 39 b))]"
  by (simp add: EGO_STATE_FORMAT_def)

lemma pack_unpack_item:
  "length bs = fmt_size f \<Longrightarrow> pack_item f (unpack_item f bs) = Inr bs"
proof -
  assume len: "length bs = fmt_size f"
  then have "fits f (unpack_item f bs)" by (rule unpack_item_fits)
  moreover have "le_bytes (fmt_size f) (unpack_item f bs) = bs"
  proof -
    have "le_bytes (fmt_size f) (le_val bs - 256 ^ fmt_size f) = le_bytes (fmt_size f) (le_val bs)"
      by (metis le_bytes_mod minus_mod_self2)
    then show ?thesis
      using le_bytes_le_val [of bs] len by (simp add: unpack_item_def Let_def)
  qed
  ultimately show ?thesis by (simp add: pack_item_def)
qed

lemma pack_unpack_items:
  "length bs = calcsize fs \<Longrightarrow> pack fs (unpack_items fs bs) = Inr bs"
proof (induction fs arbitrary: bs)
  case Nil
  then show ?case by simp
next
  case (Cons f fs)
  then have "pack_item f (unpack_item f (take (fmt_size f) bs)) = Inr (take (fmt_size f) bs)"
    by (intro pack_unpack_item) simp
  moreover have "pack fs (unpack_items fs (drop (fmt_size f) bs)) = Inr (drop (fmt_size f) bs)"
    using Cons by simp
  ultimately show ?case by simp
qed

lemma decode_ego_values:
  "decode_ego_state b = Inr st \<longleftrightarrow> length b = 41 \<and> unpack_items EGO_STATE_FORMAT b = ego_values st"
  by (cases st)
    (auto simp: decode_ego_state_def unpack_def ego_values_def unpack_ego_items split: prod.splits)

text \<open>The ego-state body is exact both ways. A 41-byte body decodes to a state if and
  only if that state packs to it, so no field is dropped, reordered, truncated or has its sign
  lost, and a state packs if and only if every field fits its wire width.\<close>

theorem ego_state_exact:
  "decode_ego_state b = Inr st \<longleftrightarrow> encode_ego_state_body st = Inr b"
proof
  assume "decode_ego_state b = Inr st"
  then show "encode_ego_state_body st = Inr b"
    using pack_unpack_items [of b EGO_STATE_FORMAT]
    by (simp add: decode_ego_values encode_ego_state_body_def)
next
  assume "encode_ego_state_body st = Inr b"
  then show "decode_ego_state b = Inr st"
    using unpack_items_pack [of EGO_STATE_FORMAT _ b "[]"] pack_length [of EGO_STATE_FORMAT _ b]
    by (auto simp: decode_ego_values encode_ego_state_body_def)
qed

lemma mk_radio_configuration_iff:
  "mk_radio_configuration n ps = Inr cfg \<longleftrightarrow>
     cfg = \<lparr>node_address = n, peers = ps\<rparr> \<and> is_node_address n \<and> 1 \<le> length ps \<and> length ps \<le> 5
       \<and> (\<forall>p \<in> set ps. is_node_address p) \<and> n \<notin> set ps \<and> distinct ps"
  by (auto simp: mk_radio_configuration_def MAX_PEERS_def card_distinct distinct_card)

lemma node_address_fits: "is_node_address a \<Longrightarrow> fits FH a"
  by (auto simp: is_node_address_def)

lemma decode_configuration_valid:
  "decode_configuration b = Inr cfg \<Longrightarrow> mk_radio_configuration (node_address cfg) (peers cfg) = Inr cfg"
proof -
  assume "decode_configuration b = Inr cfg"
  then obtain n ps where "mk_radio_configuration n ps = Inr cfg"
    by (auto simp: decode_configuration_def rethrow_def split: if_splits list.splits sum.splits)
  then show ?thesis by (auto simp: mk_radio_configuration_iff)
qed

lemma encode_configuration_body_total:
  assumes "mk_radio_configuration n ps = Inr cfg"
  obtains body where "encode_configuration_body cfg = Inr body"
proof -
  let ?vs = "n # int (length ps) # (ps @ replicate (5 - length ps) 0)"
  have "\<exists>body. pack CONFIGURATION_FORMAT ?vs = Inr body"
  proof (rule pack_total)
    show len: "length ?vs = length CONFIGURATION_FORMAT"
      using assms by (auto simp: mk_radio_configuration_iff CONFIGURATION_FORMAT_def)
    fix i
    assume "i < length CONFIGURATION_FORMAT"
    then consider "i = 0" | "i = 1" | j where "i = Suc (Suc j)" "j < 5"
      by (auto simp: CONFIGURATION_FORMAT_def less_Suc_eq_0_disj numeral_eq_Suc)
    then show "fits (CONFIGURATION_FORMAT ! i) (?vs ! i)"
    proof cases
      case 3
      then have "CONFIGURATION_FORMAT ! i = FH"
        by (auto simp: CONFIGURATION_FORMAT_def less_Suc_eq numeral_eq_Suc)
      moreover have "length (ps @ replicate (5 - length ps) (0 :: int)) = 5"
        using len by (simp add: CONFIGURATION_FORMAT_def)
      then have "?vs ! i \<in> set (ps @ replicate (5 - length ps) 0)"
        using 3 nth_mem [of j "ps @ replicate (5 - length ps) 0"] by simp
      moreover have "\<forall>x \<in> set (ps @ replicate (5 - length ps) 0). fits FH x"
        using assms node_address_fits by (auto simp: mk_radio_configuration_iff)
      ultimately show ?thesis by metis
    qed (use assms in \<open>auto simp: mk_radio_configuration_iff CONFIGURATION_FORMAT_def
          is_node_address_def\<close>)
  qed
  then show ?thesis
    using assms that by (auto simp: encode_configuration_body_def mk_radio_configuration_iff MAX_PEERS_def)
qed

lemma decode_encode_configuration:
  assumes "mk_radio_configuration n ps = Inr cfg" "encode_configuration_body cfg = Inr body"
  shows "decode_configuration body = Inr cfg"
proof -
  have "length body = 13"
    using assms(2) pack_length by (fastforce simp: encode_configuration_body_def)
  moreover have "unpack CONFIGURATION_FORMAT body =
      Inr (n # int (length ps) # ps @ replicate (5 - length ps) 0)"
    using assms unpack_pack
    by (auto simp: encode_configuration_body_def mk_radio_configuration_iff MAX_PEERS_def)
  moreover have "length ps \<le> 5"
    using assms(1) by (simp add: mk_radio_configuration_iff)
  ultimately show ?thesis
    using assms(1) by (simp add: decode_configuration_def rethrow_def MAX_PEERS_def)
qed

text \<open>A radio configuration that passes its constructor's checks always encodes, and
  the frame that carries its body back from the radio decodes to a \<open>configured\<close> envelope with
  exactly that configuration: node, peers and their order survive the fixed five-slot layout.\<close>

theorem configuration_roundtrip:
  assumes "mk_radio_configuration n ps = Inr cfg" and "0 \<le> s" and "s < 2 ^ 32"
  shows "\<exists>body f. encode_configuration_body cfg = Inr body
    \<and> encode_configuration s cfg = encode_host_command s 0 body
    \<and> encode_host_command s 5 body = Inr f \<and> length f \<le> 192
    \<and> decode_frame f = Inr \<lparr>protocol_version = 9, env_sequence = s, kind = ''configured'',
                            env_fields = [ConfigField cfg]\<rparr>"
proof -
  obtain body where b: "encode_configuration_body cfg = Inr body"
    using assms(1) by (rule encode_configuration_body_total)
  then have "length body = 13"
    using pack_length by (fastforce simp: encode_configuration_body_def)
  with assms(2,3) obtain f where f: "encode_host_command s 5 body = Inr f" "length f \<le> 192"
    using encode_host_command_total [of s 5 body] by auto
  have "decode_frame f = decode_body 9 s 5 body"
    using f(1) by (rule decode_host_command)
  then show ?thesis
    using b f decode_encode_configuration [OF assms(1) b]
    by (simp add: decode_body_def encode_configuration_def)
qed

theorem configuration_roundtrip_witness:
  "mk_radio_configuration 2 [0, 3, 0x8000] = Inr \<lparr>node_address = 2, peers = [0, 3, 0x8000]\<rparr> \<and>
   (\<exists>f. decode_frame f = Inr \<lparr>protocol_version = 9, env_sequence = 7, kind = ''configured'',
      env_fields = [ConfigField \<lparr>node_address = 2, peers = [0, 3, 0x8000]\<rparr>]\<rparr>)"
proof -
  have mk: "mk_radio_configuration 2 [0, 3, 0x8000] = Inr \<lparr>node_address = 2, peers = [0, 3, 0x8000]\<rparr>"
    by (simp add: mk_radio_configuration_def is_node_address_def MAX_PEERS_def)
  show ?thesis
    using mk configuration_roundtrip [OF mk, of 7] by auto
qed


section \<open>Corrupted frames\<close>

text \<open>Claim C39: the CRC check of \<open>decode_frame\<close> catches every corruption of a single byte of
  the payload, wherever it is and whatever it is changed to: the frame is rejected with
  \<open>CRC mismatch\<close> and never reaches the body decoders.\<close>

theorem single_byte_corruption_rejected:
  assumes "pack [FI] [crc32 (xs @ a # ys)] = Inr crc" and "5 \<le> length (xs @ ys)" and "a \<noteq> b"
  shows "decode_frame (cobs_encode ((xs @ b # ys) @ crc)) = Inl (FrameError ''CRC mismatch'')"
proof -
  have "length crc = 4" using pack_length [OF assms(1)] by simp
  moreover have "unpack [FI] crc = Inr [crc32 (xs @ a # ys)]" using unpack_pack [OF assms(1)] .
  moreover have "crc32 (xs @ b # ys) \<noteq> crc32 (xs @ a # ys)"
    using crc32_single_byte assms(3) by blast
  ultimately show ?thesis
    using assms(2) by (simp add: decode_frame_def cobs_roundtrip decode_raw_def Let_def)
qed

theorem single_byte_corruption_rejected_witness:
  "\<exists>crc. pack [FI] [crc32 ([9, 1, 2, 3] @ 4 # [3, 7, 8])] = Inr crc \<and>
     decode_frame (cobs_encode (([9, 1, 2, 3] @ 5 # [3, 7, 8]) @ crc)) = Inl (FrameError ''CRC mismatch'')"
proof -
  have "fits FI (crc32 ([9, 1, 2, 3] @ 4 # [3, 7, 8]))"
    using crc32_bounds [of "[9, 1, 2, 3] @ 4 # [3, 7, 8]"] by simp
  then obtain crc where crc: "pack [FI] [crc32 ([9, 1, 2, 3] @ 4 # [3, 7, 8])] = Inr crc"
    by (simp add: pack_item_def)
  show ?thesis
    using single_byte_corruption_rejected [OF crc, of 5] crc by auto
qed

text \<open>Every body decoder answers with a value or a frame error.\<close>

lemma decode_ego_state_total: "length b = 41 \<Longrightarrow> \<exists>st. decode_ego_state b = Inr st"
  by (auto simp: decode_ego_state_def unpack_def unpack_ego_items)

lemma mk_radio_configuration_error: "mk_radio_configuration n ps = Inl e \<Longrightarrow> \<exists>m. e = ValueError m"
  by (auto simp: mk_radio_configuration_def split: if_splits)

lemma mk_fleet_mode_error: "mk_fleet_mode m n = Inl e \<Longrightarrow> \<exists>msg. e = ValueError msg"
  by (auto simp: mk_fleet_mode_def split: if_splits)

lemma rethrow_eq_Inl [simp]: "rethrow r = Inl e \<longleftrightarrow> (\<exists>e'. r = Inl e' \<and> e = as_frame_error e')"
  by (cases r) (auto simp: rethrow_def)

lemma as_frame_error_ValueError [simp]: "as_frame_error (ValueError m) = FrameError m"
  by (simp add: as_frame_error_def)

lemma bindE_eq_Inl_iff: "bindE m f = Inl e \<longleftrightarrow> m = Inl e \<or> (\<exists>x. m = Inr x \<and> f x = Inl e)"
  by (cases m) auto

definition only_frame_error :: "py_error + 'a \<Rightarrow> bool" where
  "only_frame_error r \<longleftrightarrow> (\<forall>e. r = Inl e \<longrightarrow> (\<exists>m. e = FrameError m))"

lemma only_frame_error_simps [simp]:
  "only_frame_error (Inr x)" "only_frame_error (Inl (FrameError m))"
  by (simp_all add: only_frame_error_def)

lemma only_frame_error_bind:
  "only_frame_error m \<Longrightarrow> (\<And>x. m = Inr x \<Longrightarrow> only_frame_error (f x)) \<Longrightarrow> only_frame_error (bindE m f)"
  by (auto simp: only_frame_error_def bindE_eq_Inl_iff)

lemma only_frame_error_configuration: "only_frame_error (decode_configuration b)"
  by (auto simp: decode_configuration_def unpack_def CONFIGURATION_FORMAT_def only_frame_error_def
      dest!: mk_radio_configuration_error)

lemma unpack_from_ok: "off + calcsize fs \<le> length b \<Longrightarrow> unpack_from fs b off = Inr (unpack_items fs (drop off b))"
  by (simp add: unpack_from_def)

lemma only_frame_error_event_time: "only_frame_error (decode_event_time b n)"
  by (simp add: decode_event_time_def Let_def unpack_from_def)

lemma only_frame_error_completed: "only_frame_error (decode_completed_exchange v s b)"
proof -
  have "only_frame_error (decode_ego_state (drop off b))" if "length b - off = 41" for off
    using decode_ego_state_total [of "drop off b"] that by auto
  then show ?thesis
    unfolding decode_completed_exchange_def Let_def
    by (auto simp: unpack_from_def only_frame_error_event_time
        intro!: only_frame_error_bind split: prod.splits)
qed

lemma only_frame_error_fleet_mode: "only_frame_error (decode_fleet_mode v s b)"
  by (auto simp: decode_fleet_mode_def unpack_def only_frame_error_def bindE_eq_Inl_iff
      dest!: mk_fleet_mode_error)

lemma only_frame_error_body: "only_frame_error (decode_body v s variant b)"
  by (auto simp: decode_body_def decode_diagnostic_def decode_fixed_def unpack_def Let_def
      only_frame_error_completed only_frame_error_fleet_mode only_frame_error_configuration
      intro!: only_frame_error_bind split: option.splits)

lemma only_frame_error_raw: "only_frame_error (decode_raw raw)"
proof (cases "length raw < 10")
  case True
  then show ?thesis by (simp add: decode_raw_def)
next
  case False
  then have "6 \<le> length raw - 4" "length raw - (length raw - 4) = 4" by simp_all
  with False show ?thesis
    by (simp add: decode_raw_def Let_def unpack_def unpack_from_def only_frame_error_body)
qed

lemma decode_body_version: "decode_body v s variant b = Inr env \<Longrightarrow> protocol_version env = v"
  by (auto simp: decode_body_def decode_completed_exchange_def decode_diagnostic_def
      decode_fleet_mode_def decode_fixed_def Let_def
      split: if_splits option.splits list.splits prod.splits)

lemma decode_raw_version: "decode_raw raw = Inr env \<Longrightarrow> protocol_version env = 9"
  using decode_body_version [of 9]
  by (auto simp: decode_raw_def Let_def PROTOCOL_VERSION_def split: if_splits list.splits)

text \<open>Whatever bytes arrive, \<open>decode_frame\<close> returns an envelope or raises
  \<open>FrameError\<close>: no \<open>struct.error\<close>, index, key or unpacking error escapes any of its variants, so
  the \<open>except FrameError\<close> of the readers is enough.\<close>

theorem decode_frame_total:
  "case decode_frame frame of Inl e \<Rightarrow> \<exists>m. e = FrameError m | Inr env \<Rightarrow> protocol_version env = 9"
proof -
  have "only_frame_error (decode_frame frame)"
    unfolding decode_frame_def
    by (rule only_frame_error_bind [OF _ only_frame_error_raw])
      (simp add: only_frame_error_def cobs_decode_error)
  then show ?thesis
    by (auto simp: only_frame_error_def decode_frame_def dest: decode_raw_version split: sum.splits)
qed

section \<open>The byte stream\<close>

lemma cobs_ref_long: "length run + length raw < length (cobs_ref run raw)"
  by (induction run raw rule: cobs_ref.induct) auto

lemma cobs_encode_long: "length raw + 2 \<le> length (cobs_encode raw)"
  using cobs_ref_long [of "[]" raw] by (simp add: cobs_encode_ref)

text \<open>Claim C38: however the operating system cuts the stream into reads, the splitter yields
  exactly the frames that were written, in order, when they are encoded commands back to back.\<close>

theorem frames_recovers_commands:
  assumes "\<forall>f \<in> set fs. \<exists>s v body. encode_host_command s v body = Inr f"
    and "concat chunks = concat fs" and "[] \<notin> set chunks"
  shows "frames chunks = fs"
proof -
  have "\<forall>f \<in> set fs. delimited f"
    using assms(1) encoded_delimited by blast
  then have "foldl splitter_step splitter_start (concat fs) = splitter_start\<lparr>yielded := fs\<rparr>"
    by (simp add: splitter_run_frames splitter_start_def)
  then show ?thesis
    by (simp add: frames_def frames_from_concat [OF assms(3)] assms(2))
qed

theorem frames_recovers_commands_witness:
  "\<exists>f. encode_host_command 1 2 [7, 7, 0, 0] = Inr f \<and>
     frames [take 3 f, drop 3 f @ f] = [f, f]"
proof -
  obtain f where f: "encode_host_command 1 2 [7, 7, 0, 0] = Inr f"
    using encode_host_command_total [of 1 2 "[7, 7, 0, 0]"] by auto
  then obtain header crc where "f = cobs_encode ((header @ [7, 7, 0, 0]) @ crc)"
    "length header = 6" "length crc = 4"
    by (elim encode_host_command_layout)
  then have "\<not> length f \<le> 3"
    using cobs_encode_long [of "(header @ [7, 7, 0, 0]) @ crc"] by simp
  then have "frames [take 3 f, drop 3 f @ f] = [f, f]"
    using f by (intro frames_recovers_commands) auto
  with f show ?thesis by blast
qed

text \<open>After any noise, two delimiters bring the splitter back to a frame boundary, so
  every well-formed frame behind them is yielded; this is what the zero byte written before the
  first command of a session relies on.\<close>

theorem frames_resynchronise:
  assumes "\<forall>f \<in> set fs. delimited f" and "concat chunks = noise @ [0, 0] @ concat fs"
    and "[] \<notin> set chunks"
  shows "\<exists>early. frames chunks = early @ fs \<and> (\<forall>f \<in> set early. delimited f)"
proof -
  let ?s = "foldl splitter_step splitter_start noise"
  let ?t = "foldl splitter_step ?s [0, 0]"
  have inv: "splitter_inv ?s" "splitter_inv ?t"
    using splitter.run_inv splitter_start_inv by blast+
  have "foldl splitter_step ?t (concat fs) = ?t\<lparr>yielded := yielded ?t @ fs\<rparr>"
    using assms(1) splitter_resync [OF inv(1)] by (intro splitter_run_frames) auto
  moreover have "frames chunks = yielded (foldl splitter_step ?t (concat fs))"
    by (simp add: frames_def frames_from_concat [OF assms(3)] assms(2))
  ultimately have "frames chunks = yielded ?t @ fs" by simp
  moreover have "\<forall>f \<in> set (yielded ?t). delimited f"
    using inv(2) by (simp add: splitter_inv_def)
  ultimately show ?thesis by blast
qed

theorem frames_resynchronise_witness:
  "\<exists>early. frames [[5, 6], [7, 0, 0, 1], [2, 0]] = early @ [[1, 2, 0]]"
proof -
  have "delimited [1, 2, 0]"
    by (auto simp: delimited_def MAX_FRAME_SIZE_def intro!: exI [of _ "[1, 2]"])
  then show ?thesis
    using frames_resynchronise [of "[[1, 2, 0]]" "[[5, 6], [7, 0, 0, 1], [2, 0]]" "[5, 6, 7]"] by auto
qed

text \<open>The length test of the splitter comes before its delimiter test. An oversized run
  of exactly \<open>MAX_FRAME_SIZE\<close> bytes whose delimiter follows at once makes it swallow that
  delimiter and then discard the next, perfectly good frame, while a run that is one byte longer
  loses nothing but itself.\<close>

theorem frames_loses_frame_after_full_run:
  assumes "0 \<notin> set run" and "length run = MAX_FRAME_SIZE" and "x \<noteq> 0" and "delimited f"
  shows "frames [run @ [0] @ f] = [] \<and> frames [run @ [x, 0] @ f] = [f]"
proof -
  obtain g where f: "f = g @ [0]" "0 \<notin> set g" "length g < MAX_FRAME_SIZE"
    using assms(4) by (auto simp: delimited_def)
  have full: "foldl splitter_step splitter_start run = splitter_start\<lparr>partial := run\<rparr>"
    using splitter_run_clean [of run splitter_start] assms(1,2) by (simp add: splitter_start_def)
  have skip: "0 \<notin> set g \<Longrightarrow> discarding s \<Longrightarrow> foldl splitter_step s (g @ [0]) = s\<lparr>discarding := False\<rparr>" for s g
    by (induction g) (auto simp: splitter_step_def)
  have "frames [run @ [0] @ f] = []"
    using f full assms(2) skip [of g "splitter_start\<lparr>discarding := True\<rparr>"]
    by (simp add: frames_def splitter_step_def splitter_start_def)
  moreover have "frames [run @ [x, 0] @ f] = [f]"
    using f full assms(2,3) splitter_run_frame [of g splitter_start]
    by (simp add: frames_def splitter_step_def splitter_start_def)
  ultimately show ?thesis ..
qed

theorem frames_loses_frame_after_full_run_witness:
  "frames [replicate 192 7 @ [0] @ [1, 0]] = [] \<and> frames [replicate 192 7 @ [7, 0] @ [1, 0]] = [[1, 0]]"
proof -
  have "delimited [1, 0]"
    by (auto simp: delimited_def MAX_FRAME_SIZE_def intro!: exI [of _ "[1]"])
  then show ?thesis
    using frames_loses_frame_after_full_run [of "replicate 192 7" 7 "[1, 0]"]
    by (simp add: MAX_FRAME_SIZE_def)
qed

end
