(* ===== verification/Uwb_Gateway.thy ===== *)
theory Uwb_Gateway
  imports Uwb_Properties
begin

text \<open>
  The ROS side of the UWB radio (\<open>ros/uwb_gateway/uwb_gateway/gateway.py\<close>): the command
  sequence number, the link, forwarding of the own state, the queue that applies the newest
  fleet mode, and the events of the reader thread. What the node writes or publishes is
  appended to a log; the radio service and \<open>fleet-network\<close> are events of the environment.
\<close>

section \<open>State\<close>

record uwb_range =
  range_sequence :: int
  source_id :: int
  receiver_id :: int
  range_m :: real

record uwb_state =
  st_sequence :: int
  st_vehicle_id :: int
  st_frame_epoch :: int
  st_validity :: int
  phase_rad :: real
  phase_rate_rad_s :: real
  yaw_rad :: real
  position_enu_m :: "real \<times> real \<times> real"
  velocity_enu_mps :: "real \<times> real \<times> real"
  st_mode :: int

text \<open>A ROS time stamp in seconds and nanoseconds.\<close>

record stamp =
  sec :: int
  nanosec :: int

datatype gateway_output =
    Sent bytes
  | PublishedMode fleet_mode
  | PublishedRange stamp uwb_range
  | PublishedPeerState stamp uwb_state

text \<open>
  \<open>stream\<close> is None while disconnected; a connected stream either takes what is written or
  raises a \<open>ConnectionError\<close>. \<open>applying\<close> is the local \<open>mode\<close> of \<open>_apply_loop\<close> while
  \<open>fleet-network\<close> runs.
\<close>

record gateway =
  vehicle_id :: int
  stream :: "bool option"
  sequence :: int
  applied_mode :: "fleet_mode option"
  requested_mode :: "fleet_mode option"
  target_mode :: "fleet_mode option"
  applying :: "fleet_mode option"
  apply_error :: bool
  out :: "gateway_output list"

definition gateway_start :: "int \<Rightarrow> gateway" where
  "gateway_start vid = \<lparr>vehicle_id = vid, stream = None, sequence = 0, applied_mode = None,
     requested_mode = None, target_mode = None, applying = None, apply_error = False, out = []\<rparr>"

text \<open>A handler leaves a state behind also when it raises.\<close>

type_synonym 'a handled = "(py_error + 'a) \<times> gateway"

unbundle bit_operations_syntax

definition next_sequence :: "gateway \<Rightarrow> int \<times> gateway" where
  "next_sequence g = (sequence g, g\<lparr>sequence := (sequence g + 1) AND 0xFFFFFFFF\<rparr>)"

definition send :: "bytes \<Rightarrow> gateway \<Rightarrow> unit handled" where
  "send frame g =
     (case stream g of
        None \<Rightarrow> (Inl ConnectionError, g)
      | Some works \<Rightarrow>
          if works then (Inr (), g\<lparr>out := out g @ [Sent frame]\<rparr>) else (Inl ConnectionError, g))"

text \<open>\<open>self._send(encode(self._next_sequence(), ...))\<close>: the number is taken before encoding.\<close>

definition send_command :: "(int \<Rightarrow> py_error + bytes) \<Rightarrow> gateway \<Rightarrow> unit handled" where
  "send_command encode g =
     (let (s, g1) = next_sequence g
      in case encode s of Inl e \<Rightarrow> (Inl e, g1) | Inr frame \<Rightarrow> send frame g1)"

section \<open>Own state to the radio\<close>

definition milli :: "real \<Rightarrow> int" where
  "milli x = py_round (x * 1000)"

definition ego_of_state :: "stamp \<Rightarrow> uwb_state \<Rightarrow> ego_state" where
  "ego_of_state ts m =
     (case (position_enu_m m, velocity_enu_mps m) of ((px, py, pz), (vx, vy, vz)) \<Rightarrow>
       \<lparr>sample_time_us = sec ts * 1000000 + nanosec ts div 1000, ego_sequence = st_sequence m,
        frame_epoch = st_frame_epoch m, phase_mrad = milli (phase_rad m),
        phase_rate_mrad_s = milli (phase_rate_rad_s m), yaw_mrad = milli (yaw_rad m),
        position_enu_mm = (milli px, milli py, milli pz),
        velocity_enu_mm_s = (milli vx, milli vy, milli vz),
        ego_mode = st_mode m, validity = st_validity m\<rparr>)"

definition local_state :: "stamp \<Rightarrow> uwb_state \<Rightarrow> gateway \<Rightarrow> unit handled" where
  "local_state ts m g =
     (if st_vehicle_id m \<noteq> vehicle_id g then (Inr (), g)
      else
        case send_command (\<lambda>s. encode_ego_state s (ego_of_state ts m)) g of
          (Inl ConnectionError, g') \<Rightarrow> (Inr (), g')
        | r \<Rightarrow> r)"

section \<open>Fleet mode\<close>

definition queue_mode :: "fleet_mode \<Rightarrow> gateway \<Rightarrow> gateway" where
  "queue_mode mode g =
     (if Some mode = requested_mode g then g
      else g\<lparr>requested_mode := Some mode, target_mode := Some mode,
             out := out g @ [PublishedMode mode]\<rparr>)"

text \<open>The service: the response's \<open>accepted\<close> flag, or an exception it does not catch.\<close>

definition set_fleet_mode :: "int \<Rightarrow> int \<Rightarrow> gateway \<Rightarrow> bool handled" where
  "set_fleet_mode master_id net g =
     (case mk_fleet_mode master_id net of
        Inl _ \<Rightarrow> (Inr False, g)
      | Inr mode \<Rightarrow>
          (case send_command (\<lambda>s. encode_fleet_mode s mode) g of
             (Inl (ValueError m), g') \<Rightarrow> (Inr False, g')
           | (Inl (FrameError m), g') \<Rightarrow> (Inr False, g')
           | (Inl ConnectionError, g') \<Rightarrow> (Inr False, g')
           | (Inl e, g') \<Rightarrow> (Inl e, g')
           | (Inr _, g') \<Rightarrow> (Inr True, queue_mode mode g')))"

text \<open>
  One round of \<open>_apply_loop\<close>, in two steps, since other threads run while the subprocess
  does. After a failed subprocess the thread has returned and never applies again.
\<close>

definition apply_started :: "gateway \<Rightarrow> gateway" where
  "apply_started g =
     (if apply_error g \<or> applying g \<noteq> None then g
      else case target_mode g of None \<Rightarrow> g | Some mode \<Rightarrow> g\<lparr>applying := Some mode\<rparr>)"

definition apply_finished :: "bool \<Rightarrow> gateway \<Rightarrow> gateway" where
  "apply_finished ok g =
     (case applying g of
        None \<Rightarrow> g
      | Some mode \<Rightarrow>
          if \<not> ok then g\<lparr>apply_error := True, applying := None\<rparr>
          else
            let g' = g\<lparr>applied_mode := Some mode, applying := None\<rparr>
            in if target_mode g' = Some mode then g'\<lparr>target_mode := None\<rparr> else g')"

section \<open>Events from the radio\<close>

definition completed_exchange :: "stamp \<Rightarrow> field list \<Rightarrow> gateway \<Rightarrow> unit handled" where
  "completed_exchange now fs g =
     (case fs of
        [IntField peer, IntField exchange_id, _, EventTimeField event_time, IntField millimetres,
         _, _, EgoField st] \<Rightarrow>
          let ts = (case mission_time_us event_time of
                      None \<Rightarrow> now
                    | Some t \<Rightarrow> \<lparr>sec = t div 1000000, nanosec = (t mod 1000000) * 1000\<rparr>);
              (px, py, pz) = position_enu_mm st; (vx, vy, vz) = velocity_enu_mm_s st;
              si = (\<lambda>v. of_int v / 1000 :: real)
          in (Inr (), g\<lparr>out := out g @
               [PublishedRange ts \<lparr>range_sequence = exchange_id, source_id = peer,
                  receiver_id = vehicle_id g, range_m = si millimetres\<rparr>,
                PublishedPeerState ts \<lparr>st_sequence = ego_sequence st, st_vehicle_id = peer,
                  st_frame_epoch = frame_epoch st, st_validity = validity st,
                  phase_rad = si (phase_mrad st), phase_rate_rad_s = si (phase_rate_mrad_s st),
                  yaw_rad = si (yaw_mrad st), position_enu_m = (si px, si py, si pz),
                  velocity_enu_mps = (si vx, si vy, si vz), st_mode = ego_mode st\<rparr>]\<rparr>)
      | _ \<Rightarrow> (Inl (ValueError ''unpack''), g))"

definition event :: "stamp \<Rightarrow> int \<Rightarrow> envelope \<Rightarrow> gateway \<Rightarrow> unit handled" where
  "event now now_us env g =
     (if kind env = ''completed_exchange'' then completed_exchange now (env_fields env) g
      else if kind env = ''fleet_mode_received'' then
        (case env_fields env of
           [_, ModeField mode] \<Rightarrow> (Inr (), queue_mode mode g)
         | _ \<Rightarrow> (Inl (ValueError ''unpack''), g))
      else if kind env = ''clock_probe'' then
        (case env_fields env of
           IntField request_id # _ \<Rightarrow>
             send_command (\<lambda>s. encode_clock_reply s request_id now_us now_us 0 50) g
         | _ \<Rightarrow> (Inl IndexError, g))
      else (Inr (), g))"

text \<open>
  One frame in \<open>_read_loop\<close>: connection and value errors are logged and drop the link, any
  other exception ends the reader thread (the first component).
\<close>

definition caught_by_reader :: "py_error \<Rightarrow> bool" where
  "caught_by_reader e = (case e of ConnectionError \<Rightarrow> True | ValueError _ \<Rightarrow> True | FrameError _ \<Rightarrow> True | _ \<Rightarrow> False)"

definition read_frame :: "stamp \<Rightarrow> int \<Rightarrow> bytes \<Rightarrow> gateway \<Rightarrow> unit handled" where
  "read_frame now now_us frame g =
     (let (r, g') = (case decode_frame frame of
                       Inl e \<Rightarrow> (Inl e, g)
                     | Inr env \<Rightarrow> event now now_us env g)
      in case r of
           Inr u \<Rightarrow> (Inr u, g')
         | Inl e \<Rightarrow> (if caught_by_reader e then Inr () else Inl e, g'\<lparr>stream := None\<rparr>))"

definition link_diagnostic :: "gateway \<Rightarrow> bool \<times> string" where
  "link_diagnostic g =
     (stream g \<noteq> None, if stream g \<noteq> None then ''connected'' else ''disconnected'')"


section \<open>The node as a machine\<close>

datatype gateway_event =
    Connect
  | LocalState stamp uwb_state
  | SetFleetMode int int
  | RadioFrame stamp int bytes
  | ApplyStarted
  | ApplyFinished bool

definition gateway_step :: "gateway \<Rightarrow> gateway_event \<Rightarrow> gateway" where
  "gateway_step g ev =
     (case ev of
        Connect \<Rightarrow> g\<lparr>stream := Some True\<rparr>
      | LocalState ts m \<Rightarrow> snd (local_state ts m g)
      | SetFleetMode m n \<Rightarrow> snd (set_fleet_mode m n g)
      | RadioFrame now now_us frame \<Rightarrow> snd (read_frame now now_us frame g)
      | ApplyStarted \<Rightarrow> apply_started g
      | ApplyFinished ok \<Rightarrow> apply_finished ok g)"

text \<open>
  The number is a 32-bit counter, a mode waiting to be applied is the one requested last, and
  once nothing waits the one applied last is the one requested last.
\<close>

definition gateway_inv :: "gateway \<Rightarrow> bool" where
  "gateway_inv g \<longleftrightarrow>
     0 \<le> sequence g \<and> sequence g < 2 ^ 32
     \<and> (\<forall>m. target_mode g = Some m \<longrightarrow> requested_mode g = Some m)
     \<and> (target_mode g = None \<longrightarrow> applied_mode g = requested_mode g)
     \<and> (applying g \<noteq> None \<longrightarrow> target_mode g \<noteq> None)"

lemma sequence_and_mask: "x AND 0xFFFFFFFF = (x :: int) mod 2 ^ 32"
  using take_bit_eq_mask [of 32 x] by (simp add: take_bit_eq_mod mask_eq_exp_minus_1)

lemma next_sequence_bounds: "0 \<le> sequence (snd (next_sequence g)) \<and> sequence (snd (next_sequence g)) < 2 ^ 32"
  by (simp add: next_sequence_def sequence_and_mask)

lemma gateway_start_inv: "gateway_inv (gateway_start vid)"
  by (simp add: gateway_inv_def gateway_start_def)

text \<open>Sending changes the number and the log only.\<close>

definition same_modes :: "gateway \<Rightarrow> gateway \<Rightarrow> bool" where
  "same_modes g g' \<longleftrightarrow> target_mode g' = target_mode g \<and> requested_mode g' = requested_mode g
     \<and> applied_mode g' = applied_mode g \<and> applying g' = applying g \<and> apply_error g' = apply_error g"

lemma send_command_frame:
  "same_modes g (snd (send_command enc g)) \<and> sequence (snd (send_command enc g)) = sequence (snd (next_sequence g))"
  by (auto simp: send_command_def next_sequence_def send_def same_modes_def split: sum.splits option.splits)

lemma same_modes_inv:
  "gateway_inv g \<Longrightarrow> same_modes g g' \<Longrightarrow> 0 \<le> sequence g' \<Longrightarrow> sequence g' < 2 ^ 32 \<Longrightarrow> gateway_inv g'"
  by (simp add: gateway_inv_def same_modes_def)

lemma send_command_inv [inv_intros]: "gateway_inv g \<Longrightarrow> gateway_inv (snd (send_command enc g))"
  using send_command_frame [of g enc] next_sequence_bounds [of g] by (auto intro: same_modes_inv)

lemma queue_mode_inv [inv_intros]: "gateway_inv g \<Longrightarrow> gateway_inv (queue_mode m g)"
  by (auto simp: gateway_inv_def queue_mode_def)

lemma apply_started_inv [inv_intros]: "gateway_inv g \<Longrightarrow> gateway_inv (apply_started g)"
  by (auto simp: gateway_inv_def apply_started_def split: option.splits)

lemma apply_finished_inv [inv_intros]: "gateway_inv g \<Longrightarrow> gateway_inv (apply_finished ok g)"
  by (auto simp: gateway_inv_def apply_finished_def Let_def split: option.splits)

lemma stream_update_inv [simp]: "gateway_inv (g\<lparr>stream := x\<rparr>) = gateway_inv g"
  by (simp add: gateway_inv_def)

lemma out_update_inv [simp]: "gateway_inv (g\<lparr>out := x\<rparr>) = gateway_inv g"
  by (simp add: gateway_inv_def)

lemma local_state_snd: "snd (local_state ts m g) =
   (if st_vehicle_id m \<noteq> vehicle_id g then g
    else snd (send_command (\<lambda>s. encode_ego_state s (ego_of_state ts m)) g))"
  by (auto simp: local_state_def split: prod.splits sum.splits py_error.splits)

lemma local_state_inv [inv_intros]: "gateway_inv g \<Longrightarrow> gateway_inv (snd (local_state ts m g))"
  by (simp add: local_state_snd send_command_inv)

lemma set_fleet_mode_inv [inv_intros]: "gateway_inv g \<Longrightarrow> gateway_inv (snd (set_fleet_mode m n g))"
proof (cases "mk_fleet_mode m n")
  case (Inr mode)
  let ?r = "send_command (\<lambda>s. encode_fleet_mode s mode) g"
  assume "gateway_inv g"
  then have "gateway_inv (snd ?r)" by (rule send_command_inv)
  moreover have "snd (set_fleet_mode m n g) \<in> {snd ?r, queue_mode mode (snd ?r)}"
    using Inr by (auto simp: set_fleet_mode_def split: prod.splits sum.splits py_error.splits)
  ultimately show ?thesis by (auto intro: queue_mode_inv)
qed (simp add: set_fleet_mode_def)

lemma completed_exchange_inv [inv_intros]: "gateway_inv g \<Longrightarrow> gateway_inv (snd (completed_exchange now fs g))"
  by (auto simp: completed_exchange_def Let_def split: list.splits field.splits prod.splits)

lemma event_inv [inv_intros]: "gateway_inv g \<Longrightarrow> gateway_inv (snd (event now now_us env g))"
  by (auto simp: event_def split: list.splits field.splits
      intro: completed_exchange_inv send_command_inv queue_mode_inv)

lemma read_frame_inv [inv_intros]: "gateway_inv g \<Longrightarrow> gateway_inv (snd (read_frame now now_us frame g))"
  using event_inv [of g now now_us]
  by (auto simp: read_frame_def Let_def split: sum.splits prod.splits) (metis snd_conv)+

interpretation gateway: machine gateway_step gateway_inv
  by unfold_locales
    (auto simp: gateway_step_def split: gateway_event.splits intro: inv_intros)


section \<open>Properties\<close>

text \<open>In every run of the node, whatever the interleaving of requests, radio frames
  and the worker thread, the sequence number stays a 32-bit value and, as soon as no mode waits,
  the mode applied last is the mode requested last; a waiting mode is always the newest request.\<close>

theorem gateway_applies_newest_mode:
  "let g = foldl gateway_step (gateway_start vid) evs
   in 0 \<le> sequence g \<and> sequence g < 2 ^ 32
    \<and> (target_mode g = None \<or> target_mode g = requested_mode g)
    \<and> (if target_mode g = None then applied_mode g = requested_mode g else True)"
proof -
  have "gateway_inv (foldl gateway_step (gateway_start vid) evs)"
    by (intro gateway.run_inv gateway_start_inv)
  then show ?thesis
    by (cases "target_mode (foldl gateway_step (gateway_start vid) evs)")
      (auto simp: gateway_inv_def Let_def)
qed

text \<open>Two rounds of the worker are enough. If the pending mode is not overtaken, then
  starting the worker and a successful \<open>fleet-network\<close> apply it, and if a mode was overtaken while
  it was being applied, the next round applies the newer one.\<close>

theorem gateway_worker_converges:
  assumes "gateway_inv g" and "\<not> apply_error g" and "target_mode g = Some m"
  shows "let round = (\<lambda>h. apply_finished True (apply_started h)); g' = round (round g)
         in applied_mode g' = Some m \<and> target_mode g' = None"
proof (cases "applying g")
  case None
  then show ?thesis
    using assms by (simp add: apply_started_def apply_finished_def Let_def)
next
  case (Some m')
  then show ?thesis
    using assms by (cases "m' = m") (simp_all add: apply_started_def apply_finished_def Let_def)
qed

theorem gateway_worker_converges_witness:
  "let m = \<lparr>master = 3, network = INTERNET\<rparr>;
       g = apply_started (queue_mode \<lparr>master = 1, network = FIELD\<rparr> (gateway_start 2));
       round = (\<lambda>h. apply_finished True (apply_started h))
   in applied_mode (round (round (queue_mode m g))) = Some m"
proof -
  let ?m = "\<lparr>master = 3, network = INTERNET\<rparr>"
  let ?g = "queue_mode ?m (apply_started (queue_mode \<lparr>master = 1, network = FIELD\<rparr> (gateway_start 2)))"
  have "gateway_inv ?g"
    by (intro queue_mode_inv apply_started_inv gateway_start_inv)
  moreover have "\<not> apply_error ?g" "target_mode ?g = Some ?m"
    by (simp_all add: queue_mode_def apply_started_def gateway_start_def)
  ultimately show ?thesis
    using gateway_worker_converges [of ?g ?m] by (simp add: Let_def)
qed

text \<open>Repeats of the newest mode are absorbed, but a late repeat of an older mode is
  queued again and replaces the newer request: \<open>requested_mode\<close> remembers one mode only.\<close>

theorem queue_mode_repeats:
  "queue_mode m (queue_mode m g) = queue_mode m g
   \<and> (m1 \<noteq> m2 \<longrightarrow> target_mode (queue_mode m1 (queue_mode m2 (queue_mode m1 g))) = Some m1)"
  by (cases "requested_mode g") (auto simp: queue_mode_def)

theorem queue_mode_repeats_witness:
  "\<lparr>master = 1, network = FIELD\<rparr> \<noteq> \<lparr>master = 2, network = FIELD\<rparr> \<and>
   target_mode (queue_mode \<lparr>master = 1, network = FIELD\<rparr> (queue_mode \<lparr>master = 2, network = FIELD\<rparr>
     (queue_mode \<lparr>master = 1, network = FIELD\<rparr> (gateway_start 0)))) = Some \<lparr>master = 1, network = FIELD\<rparr>"
  using queue_mode_repeats [of "\<lparr>master = 1, network = FIELD\<rparr>" "gateway_start 0"
      "\<lparr>master = 1, network = FIELD\<rparr>" "\<lparr>master = 2, network = FIELD\<rparr>"]
  by simp


lemma encode_ego_state_body_error: "encode_ego_state_body st = Inl e \<Longrightarrow> e = StructError"
proof -
  have "pack fs vs = Inl e \<Longrightarrow> e = StructError" for fs vs
    by (induction fs vs rule: pack.induct) (auto simp: pack_item_def bindE_eq_Inl_iff split: if_splits)
  then show "encode_ego_state_body st = Inl e \<Longrightarrow> e = StructError"
    by (auto simp: encode_ego_state_body_def)
qed

text \<open>Forwarding the own state. With a working link, a state whose fields all fit the
  wire becomes exactly one frame of at most 192 bytes that carries the next sequence number; a
  state with one field out of range (a velocity of 32.768 m/s is enough) raises \<open>struct.error\<close>,
  which the handler does not catch, and has used up a sequence number.\<close>

theorem local_state_forwards:
  assumes "gateway_inv g" and "stream g = Some True" and "st_vehicle_id m = vehicle_id g"
  shows "case encode_ego_state_body (ego_of_state ts m) of
      Inr body \<Rightarrow> \<exists>f. encode_host_command (sequence g) 1 body = Inr f \<and> length f \<le> 192
        \<and> local_state ts m g = (Inr (), (snd (next_sequence g))\<lparr>out := out g @ [Sent f]\<rparr>)
    | Inl e \<Rightarrow> local_state ts m g = (Inl StructError, snd (next_sequence g))"
proof (cases "encode_ego_state_body (ego_of_state ts m)")
  case (Inl e)
  then have "e = StructError" by (rule encode_ego_state_body_error)
  with Inl assms show ?thesis
    by (simp add: local_state_def send_command_def next_sequence_def encode_ego_state_def)
next
  case (Inr body)
  then have "length body = 41"
    using pack_length by (fastforce simp: encode_ego_state_body_def)
  then obtain f where "encode_host_command (sequence g) 1 body = Inr f" "length f \<le> 192"
    using encode_host_command_total [of "sequence g" 1 body] assms(1) by (auto simp: gateway_inv_def)
  with Inr assms show ?thesis
    by (simp add: local_state_def send_command_def next_sequence_def encode_ego_state_def send_def)
qed

definition example_state :: "real \<Rightarrow> uwb_state" where
  "example_state vx = \<lparr>st_sequence = 4, st_vehicle_id = 2, st_frame_epoch = 0, st_validity = 15,
     phase_rad = 0, phase_rate_rad_s = 0, yaw_rad = 0, position_enu_m = (0, 0, 0),
     velocity_enu_mps = (vx, 0, 0), st_mode = 1\<rparr>"

theorem local_state_forwards_witness:
  "fst (local_state \<lparr>sec = 1, nanosec = 0\<rparr> (example_state 40) ((gateway_start 2)\<lparr>stream := Some True\<rparr>)) = Inl StructError
   \<and> (\<exists>f. out (snd (local_state \<lparr>sec = 1, nanosec = 0\<rparr> (example_state 1) ((gateway_start 2)\<lparr>stream := Some True\<rparr>))) = [Sent f])"
proof -
  let ?g = "(gateway_start 2)\<lparr>stream := Some True\<rparr>"
  have inv: "gateway_inv ?g" by (simp add: gateway_start_inv)
  have vel: "milli 40 = 40000" "milli 1 = 1000" "milli 0 = 0"
    by (simp_all add: milli_def)
  have bad: "encode_ego_state_body (ego_of_state \<lparr>sec = 1, nanosec = 0\<rparr> (example_state 40)) = Inl StructError"
    by (simp add: encode_ego_state_body_def ego_values_def ego_of_state_def example_state_def vel
        EGO_STATE_FORMAT_def pack_item_def fits_def)
  have good: "\<exists>body. encode_ego_state_body (ego_of_state \<lparr>sec = 1, nanosec = 0\<rparr> (example_state 1)) = Inr body"
    by (simp add: encode_ego_state_body_def ego_values_def ego_of_state_def example_state_def vel
        EGO_STATE_FORMAT_def pack_item_def fits_def)
  show ?thesis
    using local_state_forwards [OF inv, of "example_state 40" "\<lparr>sec = 1, nanosec = 0\<rparr>"]
      local_state_forwards [OF inv, of "example_state 1" "\<lparr>sec = 1, nanosec = 0\<rparr>"] bad good
    by (auto simp: example_state_def gateway_start_def)
qed

end
