(* ===== verification/Frame_Pool.thy ===== *)
theory Frame_Pool
  imports Bytes
begin

text \<open>
  The shared-memory camera frame pool (\<open>ros/sensing/sensing/shared_frame_pool.py\<close>). The control
  segment is its header and one metadata block per slot, the frames segment one byte string per
  slot. Part one translates the pool's operations; part two runs the producer, the lease holders
  and a reader that copies byte by byte as one interleaved machine.
\<close>

unbundle bit_operations_syntax

section \<open>Segments\<close>

definition allowed_chars :: string where
  "allowed_chars = ''abcdefghijklmnopqrstuvwxyzABCDEFGHIJKLMNOPQRSTUVWXYZ0123456789_''"

definition segment_paths :: "string \<Rightarrow> py_error + string \<times> string" where
  "segment_paths name =
     (if name = [] \<or> (\<exists>c \<in> set name. c \<notin> set allowed_chars) then
        Inl (ValueError ''shared frame pool name must be alphanumeric or underscore'')
      else Inr (''/dev/shm/'' @ name @ ''_control'', ''/dev/shm/'' @ name @ ''_frames''))"

definition HEADER_BYTES :: int where "HEADER_BYTES = 128"
definition META_BYTES :: int where "META_BYTES = 64"
definition VERSION :: int where "VERSION = 1"

text \<open>The header; \<open>magic\<close> says whether the first eight bytes are \<open>M10CM2\<close>.\<close>

record header =
  magic :: bool
  h_version :: int
  h_slots :: int
  h_width :: int
  h_height :: int
  h_stride :: int
  h_frame_bytes :: int
  published_sequence :: int
  published_slot :: int
  heartbeat :: int

record slot_meta =
  generation :: int
  sm_sequence :: int
  sm_boottime_ns :: int
  sm_realtime_ns :: int
  sm_exposure_us :: int
  sm_gain :: real
  sm_payload_bytes :: int

definition zero_meta :: slot_meta where
  "zero_meta = \<lparr>generation = 0, sm_sequence = 0, sm_boottime_ns = 0, sm_realtime_ns = 0,
     sm_exposure_us = 0, sm_gain = 0, sm_payload_bytes = 0\<rparr>"

record frame_metadata =
  fm_sequence :: int
  fm_boottime_ns :: int
  fm_realtime_ns :: int
  fm_exposure_us :: int
  fm_gain :: real
  fm_payload_bytes :: int
  fm_slot :: nat
  fm_generation :: int

text \<open>One process's view: the two segments and the pool object's own fields.\<close>

record pool =
  owner :: bool
  header :: header
  metas :: "slot_meta list"
  slots :: "bytes list"
  leases :: "int list"
  next_slot :: nat
  pool_sequence :: int
  pool_full_drops :: nat

section \<open>Construction\<close>

text \<open>
  \<open>__init__\<close> over mapped segments: \<open>control_size\<close> and \<open>frames_size\<close> are their byte sizes.
\<close>

definition open_pool :: "bool \<Rightarrow> header \<Rightarrow> slot_meta list \<Rightarrow> bytes list \<Rightarrow> int \<Rightarrow> int \<Rightarrow> py_error + pool" where
  "open_pool own h ms ss control_size frames_size =
     (if \<not> magic h \<or> h_version h \<noteq> VERSION then
        Inl (RuntimeError ''shared camera pool has an incompatible header'')
      else if control_size < HEADER_BYTES + h_slots h * META_BYTES
           \<or> frames_size < h_slots h * h_frame_bytes h then
        Inl (RuntimeError ''shared camera pool segments are smaller than their header'')
      else Inr \<lparr>owner = own, header = h, metas = ms, slots = ss,
                leases = replicate (nat (h_slots h)) 0, next_slot = 0,
                pool_sequence = published_sequence h, pool_full_drops = 0\<rparr>)"

text \<open>
  \<open>create\<close>: \<open>previous\<close> is the header a former owner left in the control file (all zero, hence
  without magic, in a new file), \<open>old\<close> the bytes the frames file holds after \<open>ftruncate\<close>,
  \<open>live\<close> whether another process holds the writer lock. Failures of the file system calls
  themselves are not modelled.
\<close>

definition create_pool ::
  "string \<Rightarrow> int \<Rightarrow> int \<Rightarrow> int \<Rightarrow> int \<Rightarrow> bool \<Rightarrow> header \<Rightarrow> bytes list \<Rightarrow> py_error + pool" where
  "create_pool name w h n bytes_per_pixel live previous old =
     (if n < 3 then Inl (ValueError ''shared frame pool needs at least three slots'')
      else
        let stride = w * bytes_per_pixel; frame_bytes = stride * h
        in bindE (segment_paths name) (\<lambda>_.
          if live then Inl (RuntimeError ''shared frame pool already has a live owner'')
          else
            let previous_sequence =
                  (if magic previous \<and> h_version previous = VERSION
                   then published_sequence previous else 0)
            in if \<not> (\<forall>v \<in> {n, w, h, stride, frame_bytes}. fits FI v) \<or> \<not> fits FQ previous_sequence
               then Inl StructError
               else open_pool True
                 \<lparr>magic = True, h_version = VERSION, h_slots = n, h_width = w, h_height = h,
                  h_stride = stride, h_frame_bytes = frame_bytes,
                  published_sequence = previous_sequence, published_slot = 0, heartbeat = 0\<rparr>
                 (replicate (nat n) zero_meta) old (HEADER_BYTES + n * META_BYTES) (n * frame_bytes)))"

section \<open>Producer\<close>

definition slot_count :: "pool \<Rightarrow> nat" where
  "slot_count p = nat (h_slots (header p))"

definition frame_bytes :: "pool \<Rightarrow> int" where
  "frame_bytes p = h_frame_bytes (header p)"

abbreviation gen_of :: "pool \<Rightarrow> nat \<Rightarrow> int" where
  "gen_of p s \<equiv> generation (metas p ! s)"

definition set_generation :: "pool \<Rightarrow> nat \<Rightarrow> int \<Rightarrow> pool" where
  "set_generation p s v = p\<lparr>metas := (metas p)[s := (metas p ! s)\<lparr>generation := v\<rparr>]\<rparr>"

text \<open>The \<open>for offset in range(slot_count)\<close> search: the first slot nobody leases.\<close>

fun free_slot :: "pool \<Rightarrow> nat list \<Rightarrow> nat option" where
  "free_slot p [] = None"
| "free_slot p (off # offs) =
     (let slot = (next_slot p + off) mod slot_count p
      in if leases p ! slot = 0 then Some slot else free_slot p offs)"

definition begin_write :: "pool \<Rightarrow> (py_error + nat option) \<times> pool" where
  "begin_write p =
     (if \<not> owner p then (Inl (RuntimeError ''only the camera owner can publish frames''), p)
      else case free_slot p [0..<slot_count p] of
        None \<Rightarrow> (Inr None, p\<lparr>pool_full_drops := pool_full_drops p + 1\<rparr>)
      | Some slot \<Rightarrow>
          let p1 = p\<lparr>next_slot := (slot + 1) mod slot_count p\<rparr>;
              g = (if odd (gen_of p slot) then gen_of p slot + 1 else gen_of p slot)
          in (Inr (Some slot), set_generation p1 slot (g + 1)))"

record capture =
  boottime_ns :: int
  realtime_ns :: int
  exposure_us :: int
  analogue_gain :: real

text \<open>\<open>SharedFramePool._commit\<close>; the sequence number is taken before the metadata is packed.\<close>

definition commit_slot :: "nat \<Rightarrow> capture \<Rightarrow> int \<Rightarrow> pool \<Rightarrow> (py_error + frame_metadata) \<times> pool" where
  "commit_slot s c payload_bytes p =
     (if payload_bytes < 1 \<or> frame_bytes p < payload_bytes then
        (Inl (ValueError ''published payload does not fit the shared frame slot''), p)
      else if even (gen_of p s) then (Inl (RuntimeError ''shared frame slot was not reserved''), p)
      else
        let odd_generation = gen_of p s;
            seqno = pool_sequence p + 1;
            p1 = p\<lparr>pool_sequence := seqno\<rparr>;
            even_generation = odd_generation + 1
        in if \<not> (fits FQ odd_generation \<and> fits FQ seqno \<and> fits FQ (boottime_ns c)
                  \<and> fits FQ (realtime_ns c) \<and> fits FI (exposure_us c) \<and> fits FI payload_bytes
                  \<and> fits FQ even_generation)
           then (Inl StructError, p1)
           else
             let m = \<lparr>generation = even_generation, sm_sequence = seqno,
                      sm_boottime_ns = boottime_ns c, sm_realtime_ns = realtime_ns c,
                      sm_exposure_us = exposure_us c, sm_gain = analogue_gain c,
                      sm_payload_bytes = payload_bytes\<rparr>
             in (Inr \<lparr>fm_sequence = seqno, fm_boottime_ns = boottime_ns c,
                      fm_realtime_ns = realtime_ns c, fm_exposure_us = exposure_us c,
                      fm_gain = analogue_gain c, fm_payload_bytes = payload_bytes, fm_slot = s,
                      fm_generation = even_generation\<rparr>,
                 p1\<lparr>metas := (metas p)[s := m],
                    header := (header p)\<lparr>published_sequence := seqno, published_slot := int s\<rparr>\<rparr>))"

text \<open>The reservation object: the slot and its \<open>_done\<close> flag.\<close>

record writable =
  w_slot :: nat
  w_done :: bool

definition writable_commit ::
  "writable \<Rightarrow> capture \<Rightarrow> int option \<Rightarrow> pool \<Rightarrow> (py_error + frame_metadata) \<times> writable \<times> pool" where
  "writable_commit w c payload p =
     (if w_done w then (Inl (RuntimeError ''shared frame slot already completed''), w, p)
      else
        let n = (case payload of None \<Rightarrow> frame_bytes p | Some k \<Rightarrow> if k = 0 then frame_bytes p else k);
            (r, p') = commit_slot (w_slot w) c n p
        in (r, w\<lparr>w_done := True\<rparr>, p'))"

definition writable_abort :: "writable \<Rightarrow> writable" where
  "writable_abort w = w\<lparr>w_done := True\<rparr>"

section \<open>Consumers\<close>

definition read_meta :: "pool \<Rightarrow> nat \<Rightarrow> frame_metadata option" where
  "read_meta p s =
     (let m = metas p ! s
      in if generation m = 0 \<or> odd (generation m) then None
         else Some \<lparr>fm_sequence = sm_sequence m, fm_boottime_ns = sm_boottime_ns m,
                    fm_realtime_ns = sm_realtime_ns m, fm_exposure_us = sm_exposure_us m,
                    fm_gain = sm_gain m, fm_payload_bytes = sm_payload_bytes m, fm_slot = s,
                    fm_generation = generation m\<rparr>)"

text \<open>A slot index outside the control segment makes \<open>unpack_from\<close> raise.\<close>

definition lease :: "frame_metadata \<Rightarrow> pool \<Rightarrow> (py_error + bool) \<times> pool" where
  "lease md p =
     (if \<not> owner p then (Inl (RuntimeError ''only local sensing consumers take leases''), p)
      else if length (metas p) \<le> fm_slot md then (Inl StructError, p)
      else case read_meta p (fm_slot md) of
        None \<Rightarrow> (Inr False, p)
      | Some current \<Rightarrow>
          if fm_sequence current \<noteq> fm_sequence md then (Inr False, p)
          else (Inr True, p\<lparr>leases := (leases p)[fm_slot md := leases p ! fm_slot md + 1]\<rparr>))"

definition release_slot :: "nat \<Rightarrow> pool \<Rightarrow> (py_error + unit) \<times> pool" where
  "release_slot s p =
     (if leases p ! s \<le> 0 then (Inl (RuntimeError ''shared frame lease released twice''), p)
      else (Inr (), p\<lparr>leases := (leases p)[s := leases p ! s - 1]\<rparr>))"

record frame_lease =
  l_metadata :: frame_metadata
  l_released :: bool

definition lease_release :: "frame_lease \<Rightarrow> pool \<Rightarrow> (py_error + unit) \<times> frame_lease \<times> pool" where
  "lease_release l p =
     (if l_released l then (Inr (), l, p)
      else let (r, p') = release_slot (fm_slot (l_metadata l)) p in (r, l\<lparr>l_released := True\<rparr>, p'))"

text \<open>\<open>max(candidates, key=...)\<close> keeps the first of several maximal entries.\<close>

fun freshest :: "frame_metadata option \<Rightarrow> frame_metadata list \<Rightarrow> frame_metadata option" where
  "freshest best [] = best"
| "freshest best (m # ms) =
     (case best of
        None \<Rightarrow> freshest (Some m) ms
      | Some b \<Rightarrow> freshest (if fm_sequence b < fm_sequence m then Some m else Some b) ms)"

definition latest_after :: "int \<Rightarrow> pool \<Rightarrow> frame_metadata option" where
  "latest_after last_sequence p =
     freshest None [m. s \<leftarrow> [0..<slot_count p],
                       m \<leftarrow> (case read_meta p s of None \<Rightarrow> [] | Some m \<Rightarrow> [m]),
                       last_sequence < fm_sequence m]"

definition set_recorder_heartbeat :: "int \<Rightarrow> pool \<Rightarrow> pool" where
  "set_recorder_heartbeat now p = p\<lparr>header := (header p)\<lparr>heartbeat := now\<rparr>\<rparr>"

definition recorder_alive :: "int \<Rightarrow> real \<Rightarrow> pool \<Rightarrow> bool" where
  "recorder_alive now stale_after_s p \<longleftrightarrow>
     heartbeat (header p) \<noteq> 0 \<and> now - heartbeat (header p) \<le> py_int (stale_after_s * 1000000000)"


section \<open>Producer, lease holders and recorder, interleaved\<close>

text \<open>
  \<open>copy\<close> of the recorder, cut at its memory accesses: it reads the generation, then the payload
  byte by byte, then the generation again. \<open>content\<close> is a history variable: the bytes every
  published generation of a slot was published with. The producer holds at most one reservation,
  as the capture thread does, and writes into the slot it has reserved only.
\<close>

datatype reader =
    Idle
  | Copying frame_metadata bytes
  | Finished frame_metadata "bytes option"

record system =
  pool :: pool
  open_slot :: "nat option"
  held :: "frame_lease list"
  reader :: reader
  content :: "nat \<times> int \<Rightarrow> bytes option"

datatype pool_event =
    BeginWrite
  | WriteByte nat byte
  | Commit capture "int option"
  | Abort
  | TakeLease frame_metadata
  | DropLease nat
  | CopyStart frame_metadata
  | CopyByte
  | CopyEnd

definition producer_step :: "system \<Rightarrow> pool_event \<Rightarrow> system" where
  "producer_step s ev =
     (case ev of
        BeginWrite \<Rightarrow>
          if open_slot s \<noteq> None then s
          else (case begin_write (pool s) of
                  (Inr r, p) \<Rightarrow> s\<lparr>pool := p, open_slot := r\<rparr>
                | (Inl _, p) \<Rightarrow> s\<lparr>pool := p\<rparr>)
      | WriteByte i b \<Rightarrow>
          (case open_slot s of
             None \<Rightarrow> s
           | Some k \<Rightarrow> s\<lparr>pool := (pool s)\<lparr>slots := (slots (pool s))[k := (slots (pool s) ! k)[i := b]]\<rparr>\<rparr>)
      | Commit c n \<Rightarrow>
          (case open_slot s of
             None \<Rightarrow> s
           | Some k \<Rightarrow>
               let (r, w, p) = writable_commit \<lparr>w_slot = k, w_done = False\<rparr> c n (pool s)
               in s\<lparr>pool := p, open_slot := None,
                    content := (case r of Inl _ \<Rightarrow> content s
                      | Inr md \<Rightarrow> (content s)((k, fm_generation md) := Some (slots p ! k)))\<rparr>)
      | Abort \<Rightarrow> s\<lparr>open_slot := None\<rparr>
      | _ \<Rightarrow> s)"

definition consumer_step :: "system \<Rightarrow> pool_event \<Rightarrow> system" where
  "consumer_step s ev =
     (case ev of
        TakeLease md \<Rightarrow>
          (case lease md (pool s) of
             (Inr True, p) \<Rightarrow> s\<lparr>pool := p, held := held s @ [\<lparr>l_metadata = md, l_released = False\<rparr>]\<rparr>
           | (_, p) \<Rightarrow> s\<lparr>pool := p\<rparr>)
      | DropLease i \<Rightarrow>
          if i < length (held s) then
            let (r, l, p) = lease_release (held s ! i) (pool s)
            in s\<lparr>pool := p, held := (held s)[i := l]\<rparr>
          else s
      | CopyStart md \<Rightarrow>
          if gen_of (pool s) (fm_slot md) \<noteq> fm_generation md \<or> odd (gen_of (pool s) (fm_slot md))
             \<or> length (metas (pool s)) \<le> fm_slot md
          then s\<lparr>reader := Finished md None\<rparr> else s\<lparr>reader := Copying md []\<rparr>
      | CopyByte \<Rightarrow>
          (case reader s of
             Copying md got \<Rightarrow>
               if length got < min (nat (fm_payload_bytes md)) (length (slots (pool s) ! fm_slot md))
               then s\<lparr>reader := Copying md (got @ [slots (pool s) ! fm_slot md ! length got])\<rparr>
               else s
           | _ \<Rightarrow> s)
      | CopyEnd \<Rightarrow>
          (case reader s of
             Copying md got \<Rightarrow>
               if length got < min (nat (fm_payload_bytes md)) (length (slots (pool s) ! fm_slot md)) then s
               else if fm_generation md = gen_of (pool s) (fm_slot md) \<and> even (gen_of (pool s) (fm_slot md))
               then s\<lparr>reader := Finished md (Some got)\<rparr> else s\<lparr>reader := Finished md None\<rparr>
           | _ \<Rightarrow> s)
      | _ \<Rightarrow> s)"

definition system_step :: "system \<Rightarrow> pool_event \<Rightarrow> system" where
  "system_step s ev = consumer_step (producer_step s ev) ev"

definition system_start :: "pool \<Rightarrow> system" where
  "system_start p = \<lparr>pool = p, open_slot = None, held = [], reader = Idle, content = (\<lambda>_. None)\<rparr>"

subsection \<open>Invariant\<close>

definition pool_wf :: "pool \<Rightarrow> bool" where
  "pool_wf p \<longleftrightarrow> 0 < slot_count p \<and> length (metas p) = slot_count p \<and> length (leases p) = slot_count p
     \<and> length (slots p) = slot_count p"

definition holders :: "frame_lease list \<Rightarrow> nat \<Rightarrow> nat" where
  "holders ls k = length (filter (\<lambda>l. \<not> l_released l \<and> fm_slot (l_metadata l) = k) ls)"

text \<open>Leases count their holders, and a leased slot is published and not being written.\<close>

definition leases_ok :: "system \<Rightarrow> bool" where
  "leases_ok s \<longleftrightarrow> (\<forall>k < slot_count (pool s).
     leases (pool s) ! k = int (holders (held s) k)
     \<and> (0 < leases (pool s) ! k \<longrightarrow> even (gen_of (pool s) k) \<and> gen_of (pool s) k \<noteq> 0))
   \<and> (\<forall>l \<in> set (held s). fm_slot (l_metadata l) < slot_count (pool s))"

definition writer_ok :: "system \<Rightarrow> bool" where
  "writer_ok s \<longleftrightarrow> (\<forall>k. open_slot s = Some k \<longrightarrow> k < slot_count (pool s) \<and> odd (gen_of (pool s) k))
   \<and> (\<forall>k < slot_count (pool s). 0 \<le> gen_of (pool s) k)"

text \<open>The bytes of a published slot are those of its publication; no generation is used twice.\<close>

definition content_ok :: "system \<Rightarrow> bool" where
  "content_ok s \<longleftrightarrow>
     (\<forall>k < slot_count (pool s). even (gen_of (pool s) k) \<and> gen_of (pool s) k \<noteq> 0 \<longrightarrow>
        content s (k, gen_of (pool s) k) = Some (slots (pool s) ! k))
   \<and> (\<forall>k < slot_count (pool s). \<forall>g. content s (k, g) \<noteq> None \<longrightarrow> g \<le> gen_of (pool s) k)"

text \<open>While the generation has not moved, what the reader has copied is a prefix of the slot.\<close>

definition reader_ok :: "system \<Rightarrow> bool" where
  "reader_ok s \<longleftrightarrow>
     (case reader s of
        Idle \<Rightarrow> True
      | Copying md got \<Rightarrow>
          fm_slot md < slot_count (pool s) \<and> even (fm_generation md)
          \<and> length got \<le> nat (fm_payload_bytes md) \<and> fm_generation md \<le> gen_of (pool s) (fm_slot md)
          \<and> (fm_generation md = gen_of (pool s) (fm_slot md) \<longrightarrow>
               take (length got) (slots (pool s) ! fm_slot md) = got)
      | Finished md None \<Rightarrow> True
      | Finished md (Some got) \<Rightarrow>
          fm_generation md \<noteq> 0 \<longrightarrow>
            (\<exists>bs. content s (fm_slot md, fm_generation md) = Some bs
              \<and> got = take (nat (fm_payload_bytes md)) bs))"

definition system_inv :: "system \<Rightarrow> bool" where
  "system_inv s \<longleftrightarrow> pool_wf (pool s) \<and> leases_ok s \<and> writer_ok s \<and> content_ok s \<and> reader_ok s"


subsection \<open>Every step keeps it\<close>

lemma free_slot_Some:
  "free_slot p offs = Some k \<Longrightarrow> \<exists>off \<in> set offs. k = (next_slot p + off) mod slot_count p \<and> leases p ! k = 0"
  by (induction offs) (auto simp: Let_def split: if_splits)

lemma free_slot_None:
  "free_slot p offs = None \<Longrightarrow> off \<in> set offs \<Longrightarrow> leases p ! ((next_slot p + off) mod slot_count p) \<noteq> 0"
  by (induction offs) (auto simp: Let_def split: if_splits)

lemma set_generation_sel [simp]:
  "owner (set_generation p k v) = owner p" "header (set_generation p k v) = header p"
  "slots (set_generation p k v) = slots p" "leases (set_generation p k v) = leases p"
  "next_slot (set_generation p k v) = next_slot p"
  "pool_full_drops (set_generation p k v) = pool_full_drops p"
  "length (metas (set_generation p k v)) = length (metas p)"
  "slot_count (set_generation p k v) = slot_count p"
  by (simp_all add: set_generation_def slot_count_def)

lemma gen_of_set_generation:
  "k < length (metas p) \<Longrightarrow> gen_of (set_generation p k v) j = (if j = k then v else gen_of p j)"
  by (auto simp: set_generation_def nth_list_update)

lemma slot_count_update [simp]:
  "slot_count (p\<lparr>next_slot := a\<rparr>) = slot_count p" "slot_count (p\<lparr>pool_full_drops := d\<rparr>) = slot_count p"
  "slot_count (p\<lparr>leases := l\<rparr>) = slot_count p" "slot_count (p\<lparr>slots := t\<rparr>) = slot_count p"
  "slot_count (p\<lparr>pool_sequence := q\<rparr>) = slot_count p" "slot_count (p\<lparr>metas := ms\<rparr>) = slot_count p"
  by (simp_all add: slot_count_def)

lemma begin_write_cases:
  assumes "begin_write p = (r, p')" "0 < slot_count p"
  obtains (closed) e where "r = Inl e" "p' = p"
  | (full) "r = Inr None" "p' = p\<lparr>pool_full_drops := pool_full_drops p + 1\<rparr>"
  | (slot) k v where "r = Inr (Some k)" "k < slot_count p" "leases p ! k = 0"
      "p' = set_generation (p\<lparr>next_slot := (k + 1) mod slot_count p\<rparr>) k v"
      "odd v" "gen_of p k < v"
proof (cases "owner p")
  case True
  show ?thesis
  proof (cases "free_slot p [0..<slot_count p]")
    case None
    with True assms show ?thesis by (intro full) (auto simp: begin_write_def)
  next
    case (Some k)
    then have k: "k < slot_count p" "leases p ! k = 0"
      using free_slot_Some [OF Some] assms(2) by auto
    define v where "v = (if odd (gen_of p k) then gen_of p k + 1 else gen_of p k) + 1"
    from True Some assms have res: "r = Inr (Some k)"
      "p' = set_generation (p\<lparr>next_slot := (k + 1) mod slot_count p\<rparr>) k v"
      by (simp_all add: begin_write_def Let_def v_def)
    have "odd v" "gen_of p k < v" by (simp_all add: v_def)
    then show ?thesis by (rule slot [OF res(1) k res(2)])
  qed
next
  case False
  with assms(1) obtain e where "r = Inl e" "p' = p" by (auto simp: begin_write_def)
  then show ?thesis by (rule closed)
qed

text \<open>A step that moves no generation, writes no byte and touches no lease keeps everything.\<close>

lemma system_inv_cong:
  assumes "system_inv s" "slot_count p = slot_count (pool s)" "metas p = metas (pool s)"
    "slots p = slots (pool s)" "leases p = leases (pool s)"
  shows "system_inv (s\<lparr>pool := p\<rparr>)"
  using assms
  by (cases "reader s") (auto simp: system_inv_def pool_wf_def leases_ok_def writer_ok_def
      content_ok_def reader_ok_def split: option.splits)

lemma system_inv_open_None: "system_inv s \<Longrightarrow> system_inv (s\<lparr>open_slot := None\<rparr>)"
  by (cases "reader s") (auto simp: system_inv_def leases_ok_def writer_ok_def content_ok_def
      reader_ok_def split: option.splits)

lemma begin_write_inv:
  assumes inv: "system_inv s"
  shows "system_inv (producer_step s BeginWrite)"
proof (cases "open_slot s = None")
  case none: True
  obtain r p where bw: "begin_write (pool s) = (r, p)" by force
  from inv have "0 < slot_count (pool s)" by (simp add: system_inv_def pool_wf_def)
  with bw show ?thesis
  proof (cases rule: begin_write_cases)
    case closed
    with bw none inv show ?thesis
      using system_inv_cong [of s "pool s"] by (simp add: producer_step_def)
  next
    case full
    with bw none inv system_inv_cong [of s p] system_inv_open_None [of "s\<lparr>pool := p\<rparr>"]
    show ?thesis by (simp add: producer_step_def)
  next
    case (slot k v)
    have wf: "pool_wf (pool s)" "k < length (metas (pool s))"
      using inv slot by (auto simp: system_inv_def pool_wf_def)
    have g: "gen_of p j = (if j = k then v else gen_of (pool s) j)" for j
      using slot wf gen_of_set_generation [of k "(pool s)\<lparr>next_slot := (k + 1) mod slot_count (pool s)\<rparr>" v j]
      by simp
    let ?s = "s\<lparr>pool := p, open_slot := Some k\<rparr>"
    have [simp]: "slot_count p = slot_count (pool s)" "slots p = slots (pool s)"
      "leases p = leases (pool s)" "length (metas p) = length (metas (pool s))"
      by (simp_all add: slot)
    have "pool_wf (pool ?s)" using wf by (simp add: pool_wf_def)
    moreover have "leases_ok ?s" using inv slot(3) by (auto simp: system_inv_def leases_ok_def g)
    moreover have "0 \<le> gen_of (pool s) k"
      using inv slot(2) by (simp add: system_inv_def writer_ok_def)
    then have "writer_ok ?s"
      using inv slot(2,5,6) none by (auto simp: system_inv_def writer_ok_def g)
    moreover have "content_ok ?s"
      using inv slot(2,5,6) by (force simp: system_inv_def content_ok_def g)
    moreover have "reader_ok ?s"
      using inv slot(2,5,6)
      by (auto simp: system_inv_def reader_ok_def g split: reader.splits option.splits)
    ultimately have "system_inv ?s" by (simp add: system_inv_def)
    with bw none slot show ?thesis by (simp add: producer_step_def)
  qed
qed (use inv in \<open>simp add: producer_step_def\<close>)

lemma write_byte_inv:
  assumes inv: "system_inv s"
  shows "system_inv (producer_step s (WriteByte i b))"
proof (cases "open_slot s")
  case (Some k)
  then have k: "k < slot_count (pool s)" "odd (gen_of (pool s) k)"
    using inv by (auto simp: system_inv_def writer_ok_def)
  let ?p = "(pool s)\<lparr>slots := (slots (pool s))[k := (slots (pool s) ! k)[i := b]]\<rparr>"
  have other: "slots ?p ! j = slots (pool s) ! j" if "even (gen_of (pool s) j)" for j
    using k that by (cases "j = k") auto
  have "content_ok (s\<lparr>pool := ?p\<rparr>)"
    using inv other by (auto simp: system_inv_def content_ok_def)
  moreover have "reader_ok (s\<lparr>pool := ?p\<rparr>)"
    using inv other by (auto simp: system_inv_def reader_ok_def split: reader.splits option.splits)
  moreover have "pool_wf ?p" "leases_ok (s\<lparr>pool := ?p\<rparr>)" "writer_ok (s\<lparr>pool := ?p\<rparr>)"
    using inv by (simp_all add: system_inv_def pool_wf_def leases_ok_def writer_ok_def)
  ultimately show ?thesis using Some by (simp add: producer_step_def system_inv_def)
qed (use inv in \<open>simp add: producer_step_def\<close>)

lemma commit_slot_cases:
  assumes "commit_slot k c n p = (r, p')"
  obtains (refused) e where "r = Inl e" "metas p' = metas p" "slots p' = slots p"
      "leases p' = leases p" "slot_count p' = slot_count p"
  | (published) md m where "r = Inr md" "fm_generation md = gen_of p k + 1" "odd (gen_of p k)"
      "fm_slot md = k" "generation m = gen_of p k + 1" "metas p' = (metas p)[k := m]"
      "slots p' = slots p" "leases p' = leases p" "slot_count p' = slot_count p"
proof (cases r)
  case (Inl e)
  then show ?thesis
    using assms by (intro refused) (auto simp: commit_slot_def Let_def slot_count_def split: if_splits)
next
  case (Inr md)
  let ?m = "\<lparr>generation = gen_of p k + 1, sm_sequence = pool_sequence p + 1,
    sm_boottime_ns = boottime_ns c, sm_realtime_ns = realtime_ns c, sm_exposure_us = exposure_us c,
    sm_gain = analogue_gain c, sm_payload_bytes = n\<rparr>"
  from Inr assms have "odd (gen_of p k)" "fm_generation md = gen_of p k + 1" "fm_slot md = k"
    "metas p' = (metas p)[k := ?m]" "slots p' = slots p" "leases p' = leases p"
    "slot_count p' = slot_count p"
    by (auto simp: commit_slot_def Let_def slot_count_def split: if_splits)
  with Inr show ?thesis by (intro published [of md ?m]) simp_all
qed

lemma writable_commit_fresh:
  "\<exists>n. writable_commit \<lparr>w_slot = k, w_done = False\<rparr> c payload p =
     (let (r, p') = commit_slot k c n p in (r, \<lparr>w_slot = k, w_done = True\<rparr>, p'))"
  by (rule exI [of _ "case payload of None \<Rightarrow> frame_bytes p | Some k \<Rightarrow> if k = 0 then frame_bytes p else k"])
    (simp add: writable_commit_def Let_def)

lemma commit_inv:
  assumes inv: "system_inv s"
  shows "system_inv (producer_step s (Commit c payload))"
proof (cases "open_slot s")
  case (Some k)
  then have k: "k < slot_count (pool s)" "odd (gen_of (pool s) k)" "0 \<le> gen_of (pool s) k"
    using inv by (auto simp: system_inv_def writer_ok_def)
  obtain n where n: "writable_commit \<lparr>w_slot = k, w_done = False\<rparr> c payload (pool s) =
     (let (r, p') = commit_slot k c n (pool s) in (r, \<lparr>w_slot = k, w_done = True\<rparr>, p'))"
    using writable_commit_fresh by blast
  obtain r p where cs: "commit_slot k c n (pool s) = (r, p)" by force
  then show ?thesis
  proof (cases rule: commit_slot_cases)
    case (refused e)
    have "system_inv (s\<lparr>pool := p, open_slot := None\<rparr>)"
      using system_inv_open_None [OF system_inv_cong [OF inv refused(5,2,3,4)]] by simp
    with n cs Some refused(1) show ?thesis by (simp add: producer_step_def)
  next
    case (published md m)
    let ?s = "s\<lparr>pool := p, open_slot := None,
      content := (content s)((k, gen_of (pool s) k + 1) := Some (slots (pool s) ! k))\<rparr>"
    have wf: "pool_wf (pool s)" "k < length (metas (pool s))"
      using inv k by (auto simp: system_inv_def pool_wf_def)
    have g: "gen_of p j = (if j = k then gen_of (pool s) k + 1 else gen_of (pool s) j)" for j
      using published(5,6) wf(2) by (simp add: nth_list_update)
    note same = published(7,8,9)
    have "pool_wf (pool ?s)" using wf published(6) same by (simp add: pool_wf_def)
    moreover have "leases_ok ?s"
    proof -
      have "leases (pool s) ! k \<le> 0"
        using inv k by (fastforce simp: system_inv_def leases_ok_def)
      then show ?thesis using inv by (auto simp: system_inv_def leases_ok_def g same)
    qed
    moreover have "writer_ok ?s" using inv k by (auto simp: system_inv_def writer_ok_def g same)
    moreover have "content_ok ?s"
      using inv k by (fastforce simp: system_inv_def content_ok_def g same)
    moreover have "reader_ok ?s"
    proof (cases "reader s")
      case (Copying md' got)
      have "reader_ok s" using inv by (simp add: system_inv_def)
      with Copying show ?thesis
        using k by (cases "fm_slot md' = k") (simp_all add: reader_ok_def g same)
    next
      case (Finished md' res)
      have "content s (k, gen_of (pool s) k + 1) = None"
        using inv k by (force simp: system_inv_def content_ok_def)
      with Finished show ?thesis
        using inv by (auto simp: system_inv_def reader_ok_def split: option.splits)
    qed (simp add: reader_ok_def)
    ultimately have "system_inv ?s" by (simp add: system_inv_def)
    with n cs Some published(1,2) same show ?thesis by (simp add: producer_step_def)
  qed
qed (use inv in \<open>simp add: producer_step_def\<close>)

lemma producer_step_inv: "system_inv s \<Longrightarrow> system_inv (producer_step s ev)"
proof (cases ev)
  case Abort
  then show "system_inv s \<Longrightarrow> ?thesis" by (simp add: producer_step_def system_inv_open_None)
qed (simp_all add: begin_write_inv write_byte_inv commit_inv, simp_all add: producer_step_def)


lemma holders_append: "holders (ls @ [l]) k =
   holders ls k + (if \<not> l_released l \<and> fm_slot (l_metadata l) = k then 1 else 0)"
  by (simp add: holders_def)

lemma holders_update:
  assumes "i < length ls" "\<not> l_released (ls ! i)"
  shows "holders (ls[i := (ls ! i)\<lparr>l_released := True\<rparr>]) k + (if fm_slot (l_metadata (ls ! i)) = k then 1 else 0)
     = holders ls k"
proof -
  have "ls = take i ls @ ls ! i # drop (Suc i) ls" using assms(1) by (rule id_take_nth_drop)
  then have "holders ls k = holders (take i ls) k + holders [ls ! i] k + holders (drop (Suc i) ls) k"
    by (metis (no_types, lifting) append_Cons append_Nil filter_append holders_def length_append
        group_cancel.add1)
  moreover have "holders (ls[i := x]) k = holders (take i ls) k + holders [x] k + holders (drop (Suc i) ls) k" for x
    using assms(1) by (simp add: upd_conv_take_nth_drop holders_def)
  ultimately show ?thesis using assms(2) by (simp add: holders_def)
qed

lemma lease_cases:
  assumes "lease md p = (r, p')"
  obtains (denied) "r \<noteq> Inr True" "p' = p"
  | (granted) "r = Inr True" "fm_slot md < length (metas p)" "even (gen_of p (fm_slot md))"
      "gen_of p (fm_slot md) \<noteq> 0"
      "p' = p\<lparr>leases := (leases p)[fm_slot md := leases p ! fm_slot md + 1]\<rparr>"
proof (cases "r = Inr True")
  case True
  with assms have "fm_slot md < length (metas p)" "even (gen_of p (fm_slot md))"
    "gen_of p (fm_slot md) \<noteq> 0"
    "p' = p\<lparr>leases := (leases p)[fm_slot md := leases p ! fm_slot md + 1]\<rparr>"
    by (auto simp: lease_def read_meta_def Let_def split: if_splits option.splits)
  with True show ?thesis by (intro granted)
next
  case False
  with assms have "p' = p"
    by (auto simp: lease_def split: if_splits option.splits)
  with False show ?thesis by (rule denied)
qed

lemma take_lease_inv:
  assumes inv: "system_inv s"
  shows "system_inv (consumer_step s (TakeLease md))"
proof -
  obtain r p where l: "lease md (pool s) = (r, p)" by force
  then show ?thesis
  proof (cases rule: lease_cases)
    case denied
    with inv l show ?thesis
      using system_inv_cong [of s "pool s"]
      by (auto simp: consumer_step_def split: sum.splits bool.splits)
  next
    case granted
    let ?s = "s\<lparr>pool := p, held := held s @ [\<lparr>l_metadata = md, l_released = False\<rparr>]\<rparr>"
    have wf: "pool_wf (pool s)" using inv by (simp add: system_inv_def)
    have same: "slot_count p = slot_count (pool s)" "metas p = metas (pool s)" "slots p = slots (pool s)"
      "length (leases p) = length (leases (pool s))"
      by (simp_all add: granted(5))
    have "leases p ! k = leases (pool s) ! k + (if k = fm_slot md then 1 else 0)"
      if "k < slot_count (pool s)" for k
      using that wf by (simp add: granted(5) pool_wf_def nth_list_update)
    then have "leases_ok ?s"
      using inv granted(2,3,4) wf
      by (auto simp: system_inv_def leases_ok_def same holders_append pool_wf_def)
    moreover have "pool_wf p" "writer_ok ?s" "content_ok ?s" "reader_ok ?s"
      using inv by (cases "reader s"; auto simp: system_inv_def pool_wf_def writer_ok_def
          content_ok_def reader_ok_def same split: option.splits)+
    ultimately have "system_inv ?s" by (simp add: system_inv_def)
    with l granted(1) show ?thesis by (simp add: consumer_step_def)
  qed
qed

text \<open>With the leases counted right, giving one back never raises.\<close>

lemma held_lease_counted:
  assumes "system_inv s" "i < length (held s)" "\<not> l_released (held s ! i)"
  shows "fm_slot (l_metadata (held s ! i)) < slot_count (pool s)"
    "0 < leases (pool s) ! fm_slot (l_metadata (held s ! i))"
proof -
  let ?k = "fm_slot (l_metadata (held s ! i))"
  show k: "?k < slot_count (pool s)"
    using assms(1,2) by (auto simp: system_inv_def leases_ok_def)
  have "held s ! i \<in> set (filter (\<lambda>l. \<not> l_released l \<and> fm_slot (l_metadata l) = ?k) (held s))"
    using assms(2,3) by simp
  then have "0 < holders (held s) ?k"
    unfolding holders_def by (rule length_pos_if_in_set)
  then show "0 < leases (pool s) ! ?k"
    using assms(1) k by (simp add: system_inv_def leases_ok_def)
qed

lemma drop_lease_inv:
  assumes inv: "system_inv s"
  shows "system_inv (consumer_step s (DropLease i))"
proof (cases "i < length (held s) \<and> \<not> l_released (held s ! i)")
  case True
  let ?l = "held s ! i"
  let ?k = "fm_slot (l_metadata ?l)"
  let ?p = "(pool s)\<lparr>leases := (leases (pool s))[?k := leases (pool s) ! ?k - 1]\<rparr>"
  let ?s = "s\<lparr>pool := ?p, held := (held s)[i := ?l\<lparr>l_released := True\<rparr>]\<rparr>"
  have k: "?k < slot_count (pool s)" "0 < leases (pool s) ! ?k"
    using held_lease_counted [OF inv] True by auto
  have wf: "pool_wf (pool s)" using inv by (simp add: system_inv_def)
  have "leases ?p ! j = int (holders (held ?s) j)" if "j < slot_count (pool s)" for j
  proof -
    have "leases (pool s) ! j = int (holders (held s) j)"
      using inv that by (simp add: system_inv_def leases_ok_def)
    then show ?thesis
      using holders_update [of i "held s" j] True that wf k
      by (auto simp: pool_wf_def nth_list_update)
  qed
  moreover have "0 < leases (pool s) ! j" if "0 < leases ?p ! j" "j < slot_count (pool s)" for j
    using that k wf by (auto simp: nth_list_update pool_wf_def split: if_splits)
  moreover have "\<forall>l \<in> set ((held s)[i := ?l\<lparr>l_released := True\<rparr>]). fm_slot (l_metadata l) < slot_count (pool s)"
    using inv k set_update_subset_insert [of "held s" i "?l\<lparr>l_released := True\<rparr>"]
    by (auto simp: system_inv_def leases_ok_def)
  ultimately have "leases_ok ?s"
    using inv by (simp add: system_inv_def leases_ok_def)
  moreover have "pool_wf ?p" "writer_ok ?s" "content_ok ?s" "reader_ok ?s"
    using inv by (cases "reader s"; auto simp: system_inv_def pool_wf_def writer_ok_def
        content_ok_def reader_ok_def split: option.splits)+
  ultimately have "system_inv ?s" by (simp add: system_inv_def)
  with True k show ?thesis
    by (simp add: consumer_step_def lease_release_def release_slot_def)
next
  case False
  then have "consumer_step s (DropLease i) = s"
    by (auto simp: consumer_step_def lease_release_def)
  with inv show ?thesis by simp
qed

lemma reader_update_inv:
  "system_inv s \<Longrightarrow> reader_ok (s\<lparr>reader := r\<rparr>) \<Longrightarrow> system_inv (s\<lparr>reader := r\<rparr>)"
  by (simp add: system_inv_def leases_ok_def writer_ok_def content_ok_def)

lemma copy_start_inv:
  assumes inv: "system_inv s"
  shows "system_inv (consumer_step s (CopyStart md))"
  using reader_update_inv [OF inv] inv
  by (auto simp: consumer_step_def reader_ok_def system_inv_def pool_wf_def)

lemma copy_byte_inv:
  assumes inv: "system_inv s"
  shows "system_inv (consumer_step s CopyByte)"
proof (cases "reader s")
  case (Copying md got)
  let ?data = "slots (pool s) ! fm_slot md"
  have ok: "reader_ok s" using inv by (simp add: system_inv_def)
  show ?thesis
  proof (cases "length got < min (nat (fm_payload_bytes md)) (length ?data)")
    case True
    then have "reader_ok (s\<lparr>reader := Copying md (got @ [?data ! length got])\<rparr>)"
      using ok Copying by (auto simp: reader_ok_def take_Suc_conv_app_nth)
    with True Copying show ?thesis
      using reader_update_inv [OF inv] by (simp add: consumer_step_def)
  next
    case False
    then have "consumer_step s CopyByte = s" using Copying by (auto simp: consumer_step_def)
    with inv show ?thesis by simp
  qed
qed (use inv in \<open>simp_all add: consumer_step_def\<close>)

lemma take_prefix_min:
  "take (length got) xs = got \<Longrightarrow> length got \<le> n \<Longrightarrow> \<not> length got < min n (length xs) \<Longrightarrow> take n xs = got"
  by (metis le_less_linear le_neq_implies_less min_less_iff_conj order_trans take_all_iff)

lemma copy_end_inv:
  assumes inv: "system_inv s"
  shows "system_inv (consumer_step s CopyEnd)"
proof (cases "reader s")
  case (Copying md got)
  let ?data = "slots (pool s) ! fm_slot md"
  have ok: "reader_ok s" "content_ok s" using inv by (simp_all add: system_inv_def)
  consider (short) "length got < min (nat (fm_payload_bytes md)) (length ?data)"
    | (torn) "\<not> length got < min (nat (fm_payload_bytes md)) (length ?data)"
        "\<not> (fm_generation md = gen_of (pool s) (fm_slot md) \<and> even (gen_of (pool s) (fm_slot md)))"
    | (clean) "\<not> length got < min (nat (fm_payload_bytes md)) (length ?data)"
        "fm_generation md = gen_of (pool s) (fm_slot md)" "even (gen_of (pool s) (fm_slot md))"
    by blast
  then show ?thesis
  proof cases
    case clean
    have "take (nat (fm_payload_bytes md)) ?data = got" "fm_slot md < slot_count (pool s)"
      using ok(1) Copying clean(1,2) take_prefix_min by (auto simp: reader_ok_def)
    then have "reader_ok (s\<lparr>reader := Finished md (Some got)\<rparr>)"
      using ok(2) clean(2,3) by (auto simp: reader_ok_def content_ok_def)
    then have "system_inv (s\<lparr>reader := Finished md (Some got)\<rparr>)"
      by (rule reader_update_inv [OF inv])
    with clean Copying inv show ?thesis by (auto simp: consumer_step_def)
  next
    case short
    then have "consumer_step s CopyEnd = s" using Copying by (auto simp: consumer_step_def)
    with inv show ?thesis by simp
  next
    case torn
    then have "consumer_step s CopyEnd = s\<lparr>reader := Finished md None\<rparr>"
      using Copying by (auto simp: consumer_step_def)
    then show ?thesis using reader_update_inv [OF inv] by (simp add: reader_ok_def)
  qed
qed (use inv in \<open>simp_all add: consumer_step_def\<close>)


lemma consumer_step_inv: "system_inv s \<Longrightarrow> system_inv (consumer_step s ev)"
  by (cases ev) (simp_all add: take_lease_inv drop_lease_inv copy_start_inv copy_byte_inv copy_end_inv,
      simp_all add: consumer_step_def)

interpretation frame_system: machine system_step system_inv
  by unfold_locales (simp add: system_step_def producer_step_inv consumer_step_inv)

lemma system_start_inv:
  assumes "create_pool name w h n bpp live previous old = Inr p" and "length old = nat n"
  shows "system_inv (system_start p)"
proof -
  from assms have "0 < slot_count p" "metas p = replicate (slot_count p) zero_meta"
    "leases p = replicate (slot_count p) 0" "slots p = old" "length old = slot_count p"
    by (auto simp: create_pool_def open_pool_def Let_def slot_count_def split: if_splits)
  then show ?thesis
    by (simp add: system_inv_def system_start_def pool_wf_def leases_ok_def writer_ok_def
        content_ok_def reader_ok_def holders_def zero_meta_def)
qed


section \<open>Properties\<close>

definition example_pool :: pool where
  "example_pool = \<lparr>owner = True,
     header = \<lparr>magic = True, h_version = 1, h_slots = 3, h_width = 2, h_height = 1, h_stride = 4,
       h_frame_bytes = 4, published_sequence = 0, published_slot = 0, heartbeat = 0\<rparr>,
     metas = [zero_meta, zero_meta, zero_meta], slots = [[1, 1, 1, 1], [2, 2, 2, 2], [3, 3, 3, 3]],
     leases = [0, 0, 0], next_slot = 0, pool_sequence = 0, pool_full_drops = 0\<rparr>"

definition blank_header :: header where
  "blank_header = \<lparr>magic = False, h_version = 0, h_slots = 0, h_width = 0, h_height = 0, h_stride = 0,
     h_frame_bytes = 0, published_sequence = 0, published_slot = 0, heartbeat = 0\<rparr>"

lemma create_example:
  "create_pool ''cm2'' 2 1 3 2 False blank_header [[1, 1, 1, 1], [2, 2, 2, 2], [3, 3, 3, 3]] = Inr example_pool"
  by (simp add: create_pool_def segment_paths_def allowed_chars_def open_pool_def example_pool_def
      blank_header_def VERSION_def HEADER_BYTES_def META_BYTES_def fits_def Let_def numeral_eq_Suc)

definition example_capture :: capture where
  "example_capture = \<lparr>boottime_ns = 5, realtime_ns = 6, exposure_us = 7, analogue_gain = 1\<rparr>"

definition example_metadata :: frame_metadata where
  "example_metadata = \<lparr>fm_sequence = 1, fm_boottime_ns = 5, fm_realtime_ns = 6, fm_exposure_us = 7,
     fm_gain = 1, fm_payload_bytes = 2, fm_slot = 0, fm_generation = 2\<rparr>"

text \<open>Claim C32: whatever the interleaving of the producer's reservations and byte writes with the
  recorder's byte-by-byte copy, a copy that is not rejected is exactly the payload that was in the
  slot when that generation was published: no torn and no mixed frame is ever returned.\<close>

theorem recorder_never_sees_torn_frame:
  assumes "create_pool name w h n bpp live previous old = Inr p" and "length old = nat n"
    and "reader (foldl system_step (system_start p) evs) = Finished md (Some got)"
    and "fm_generation md \<noteq> 0"
  shows "\<exists>bs. content (foldl system_step (system_start p) evs) (fm_slot md, fm_generation md) = Some bs
    \<and> got = take (nat (fm_payload_bytes md)) bs"
proof -
  have "system_inv (foldl system_step (system_start p) evs)"
    using frame_system.run_inv system_start_inv [OF assms(1,2)] by blast
  then show ?thesis using assms(3,4) by (simp add: system_inv_def reader_ok_def)
qed

definition example_run :: "pool_event list" where
  "example_run = [BeginWrite, WriteByte 0 9, WriteByte 1 8, Commit example_capture (Some 2),
     CopyStart example_metadata, BeginWrite, CopyByte, WriteByte 0 7, CopyByte, CopyEnd]"

lemma example_run_reader:
  "reader (foldl system_step (system_start example_pool) example_run)
     = Finished example_metadata (Some [9, 8])"
  by (simp add: example_run_def system_step_def producer_step_def consumer_step_def system_start_def
      example_pool_def begin_write_def slot_count_def set_generation_def zero_meta_def
      writable_commit_def commit_slot_def frame_bytes_def fits_def example_capture_def
      example_metadata_def upt_rec Let_def)

theorem recorder_never_sees_torn_frame_witness:
  "\<exists>bs. content (foldl system_step (system_start example_pool) example_run) (0, 2) = Some bs
     \<and> [9, 8] = take 2 bs"
  using recorder_never_sees_torn_frame [OF create_example _ example_run_reader]
  by (simp add: example_metadata_def)

lemma consumer_step_memory:
  "metas (pool (consumer_step s ev)) = metas (pool s) \<and> slots (pool (consumer_step s ev)) = slots (pool s)"
proof (cases ev)
  case (TakeLease md)
  obtain r p where l: "lease md (pool s) = (r, p)" by force
  then have "metas p = metas (pool s)" "slots p = slots (pool s)"
    by (cases rule: lease_cases; simp)+
  with l TakeLease show ?thesis by (auto simp: consumer_step_def split: sum.splits bool.splits)
next
  case (DropLease i)
  then show ?thesis
    by (simp add: consumer_step_def lease_release_def release_slot_def)
next
  case CopyByte
  then show ?thesis by (cases "reader s") (simp_all add: consumer_step_def)
next
  case CopyEnd
  then show ?thesis by (cases "reader s") (simp_all add: consumer_step_def)
qed (simp_all add: consumer_step_def)

lemma producer_step_leased:
  assumes inv: "system_inv s" and k: "k < slot_count (pool s)" and held: "0 < leases (pool s) ! k"
  shows "slots (pool (producer_step s ev)) ! k = slots (pool s) ! k
    \<and> gen_of (pool (producer_step s ev)) k = gen_of (pool s) k"
proof -
  have wf: "length (metas (pool s)) = slot_count (pool s)" "length (slots (pool s)) = slot_count (pool s)"
    "0 < slot_count (pool s)"
    using inv by (simp_all add: system_inv_def pool_wf_def)
  have ev: "even (gen_of (pool s) k)" and "open_slot s \<noteq> Some k"
    using inv k held by (auto simp: system_inv_def leases_ok_def writer_ok_def)
  show ?thesis
  proof (cases ev)
    case BeginWrite
    obtain r p where bw: "begin_write (pool s) = (r, p)" by force
    from bw wf(3) have "slots p ! k = slots (pool s) ! k \<and> gen_of p k = gen_of (pool s) k"
    proof (cases rule: begin_write_cases)
      case (slot j v)
      then have "j \<noteq> k" using held by auto
      with slot wf show ?thesis
        using gen_of_set_generation [of j "(pool s)\<lparr>next_slot := (j + 1) mod slot_count (pool s)\<rparr>" v k]
        by simp
    qed simp_all
    with bw BeginWrite show ?thesis
      by (auto simp: producer_step_def split: sum.splits)
  next
    case (Commit c n)
    show ?thesis
    proof (cases "open_slot s")
      case (Some j)
      obtain m where m: "writable_commit \<lparr>w_slot = j, w_done = False\<rparr> c n (pool s) =
          (let (r, p') = commit_slot j c m (pool s) in (r, \<lparr>w_slot = j, w_done = True\<rparr>, p'))"
        using writable_commit_fresh by blast
      obtain r p where cs: "commit_slot j c m (pool s) = (r, p)" by force
      then have "slots p ! k = slots (pool s) ! k \<and> gen_of p k = gen_of (pool s) k"
        using Some \<open>open_slot s \<noteq> Some k\<close> by (cases rule: commit_slot_cases) auto
      with Some m cs Commit show ?thesis by (simp add: producer_step_def)
    qed (simp add: Commit producer_step_def)
  qed (use \<open>open_slot s \<noteq> Some k\<close> in \<open>auto simp: producer_step_def split: option.splits\<close>)
qed

text \<open>A slot somebody holds a lease on is immutable. No event of the system, the
  producer's included, changes a byte of it or its generation while its lease count is positive,
  and giving back a lease that is still held never raises.\<close>

theorem leased_slot_immutable:
  assumes "create_pool name w h n bpp live previous old = Inr p" and "length old = nat n"
    and "s = foldl system_step (system_start p) evs"
    and "i < length (held s)" and "\<not> l_released (held s ! i)"
    and "k = fm_slot (l_metadata (held s ! i))"
  shows "slots (pool (system_step s ev)) ! k = slots (pool s) ! k
    \<and> gen_of (pool (system_step s ev)) k = gen_of (pool s) k
    \<and> fst (lease_release (held s ! i) (pool s)) = Inr ()"
proof -
  have inv: "system_inv s"
    using frame_system.run_inv system_start_inv [OF assms(1,2)] assms(3) by blast
  note counted = held_lease_counted [OF inv assms(4,5)]
  then show ?thesis
    using producer_step_leased [OF inv, of k ev] consumer_step_memory [of "producer_step s ev" ev] assms(5,6)
    by (simp add: system_step_def lease_release_def release_slot_def)
qed

definition leased_run :: "pool_event list" where
  "leased_run = [BeginWrite, WriteByte 0 9, WriteByte 1 8, Commit example_capture (Some 2),
     TakeLease example_metadata, BeginWrite]"

lemma leased_run_held:
  "held (foldl system_step (system_start example_pool) leased_run)
     = [\<lparr>l_metadata = example_metadata, l_released = False\<rparr>]"
  by (simp add: leased_run_def system_step_def producer_step_def consumer_step_def system_start_def
      example_pool_def begin_write_def slot_count_def set_generation_def zero_meta_def
      writable_commit_def commit_slot_def frame_bytes_def fits_def example_capture_def
      example_metadata_def upt_rec Let_def lease_def read_meta_def)

theorem leased_slot_immutable_witness:
  "let s = foldl system_step (system_start example_pool) leased_run
   in slots (pool (system_step s (WriteByte 0 1))) ! 0 = slots (pool s) ! 0"
  using leased_slot_immutable [OF create_example _ refl,
      where evs = leased_run and i = 0 and ev = "WriteByte 0 1"]
  by (simp add: leased_run_held example_metadata_def Let_def)

text \<open>The producer is only ever refused when there is no free slot: \<open>begin_write\<close> of the
  owner returns a slot without leases, whose generation has grown to an odd value, whenever one
  exists, and otherwise drops the frame and counts it.\<close>

theorem begin_write_complete:
  assumes "pool_wf p" and "owner p"
  shows "if \<exists>k < slot_count p. leases p ! k = 0
    then \<exists>k p'. begin_write p = (Inr (Some k), p') \<and> k < slot_count p \<and> leases p ! k = 0
           \<and> odd (gen_of p' k) \<and> gen_of p k < gen_of p' k \<and> pool_full_drops p' = pool_full_drops p
    else begin_write p = (Inr None, p\<lparr>pool_full_drops := pool_full_drops p + 1\<rparr>)"
proof (cases "free_slot p [0..<slot_count p]")
  case None
  have "leases p ! k \<noteq> 0" if "k < slot_count p" for k
  proof -
    let ?n = "slot_count p" and ?off = "(k + (slot_count p - next_slot p mod slot_count p)) mod slot_count p"
    have "(next_slot p + ?off) mod ?n = (next_slot p mod ?n + (k + (?n - next_slot p mod ?n))) mod ?n"
      by (simp add: mod_add_left_eq mod_add_right_eq)
    also have "\<dots> = (k + ?n) mod ?n"
      using that mod_less_divisor [of ?n "next_slot p"]
      by (intro arg_cong [where f = "\<lambda>x. x mod ?n"]) linarith
    also have "\<dots> = k" using that by simp
    finally have "(next_slot p + ?off) mod ?n = k" .
    with free_slot_None [OF None, of ?off] that show ?thesis by simp
  qed
  with None assms(2) show ?thesis by (auto simp: begin_write_def)
next
  case (Some k)
  obtain r p' where bw: "begin_write p = (r, p')" by force
  with Some assms(2) have r: "r = Inr (Some k)" by (auto simp: begin_write_def Let_def)
  from assms(1) have "0 < slot_count p" "length (metas p) = slot_count p" by (simp_all add: pool_wf_def)
  from bw this(1) r show ?thesis
  proof (cases rule: begin_write_cases)
    case (slot j v)
    then have "gen_of p' j = v"
      using gen_of_set_generation [of j "p\<lparr>next_slot := (j + 1) mod slot_count p\<rparr>" v j]
        \<open>length (metas p) = slot_count p\<close> by simp
    moreover have "pool_full_drops p' = pool_full_drops p" by (simp add: slot(4))
    moreover have "\<exists>k < slot_count p. leases p ! k = 0" using slot(2,3) by blast
    ultimately show ?thesis using bw slot(1,2,3,5,6) by auto
  qed simp_all
qed

theorem begin_write_complete_witness:
  "\<exists>k p'. begin_write (example_pool\<lparr>leases := [1, 2, 0], next_slot := 1\<rparr>) = (Inr (Some k), p') \<and> k = 2"
proof -
  let ?p = "example_pool\<lparr>leases := [1, 2, 0], next_slot := 1\<rparr>"
  have wf: "pool_wf ?p" "owner ?p" and n: "slot_count example_pool = 3"
    by (simp_all add: pool_wf_def example_pool_def slot_count_def)
  have "k = 2" if "k < 3" "leases ?p ! k = 0" for k
    using that by (auto simp: less_Suc_eq numeral_eq_Suc)
  moreover have "\<exists>k < slot_count ?p. leases ?p ! k = 0"
    by (rule exI [of _ 2]) (simp add: n)
  ultimately show ?thesis
    using begin_write_complete [OF wf] n by auto
qed

end
