(* ===== verification/Frame_Sinks.thy ===== *)
theory Frame_Sinks
  imports Prelude
begin

text \<open>
  The bounded consumers of the sensing process (\<open>ros/sensing/sensing/frame_sinks.py\<close>). Both
  sinks share the pending queue, the worker loop and its fault containment; they differ in what
  handling a frame counts and publishes. Calling a frame's \<open>release\<close> appends it to \<open>released\<close>.
  The detector, the flow frontend and the publishers are parameters: an event says what they did.
\<close>

section \<open>Borrowed frames are conserved\<close>

text \<open>
  The contract of a consumer that borrows items: what an event hands over is afterwards either
  held or given back, and nothing else changes hands.
\<close>

locale borrower = machine step inv
  for step :: "'s \<Rightarrow> 'e \<Rightarrow> 's" and inv :: "'s \<Rightarrow> bool" +
  fixes given :: "'e \<Rightarrow> 'f multiset"
    and holding :: "'s \<Rightarrow> 'f multiset"
    and returned :: "'s \<Rightarrow> 'f multiset"
  assumes step_conserves:
    "inv s \<Longrightarrow> holding (step s e) + returned (step s e) = holding s + returned s + given e"
begin

lemma run_conserves:
  "inv s \<Longrightarrow> holding (foldl step s es) + returned (foldl step s es)
     = holding s + returned s + (\<Sum>e\<leftarrow>es. given e)"
proof (induction es arbitrary: s)
  case Nil
  show ?case by simp
next
  case (Cons e es)
  then have "holding (foldl step (step s e) es) + returned (foldl step (step s e) es)
      = holding (step s e) + returned (step s e) + (\<Sum>e\<leftarrow>es. given e)"
    by (blast intro: step_inv)
  with step_conserves [OF Cons.prems] show ?case by (simp add: ac_simps)
qed

lemma run_returns_each_once:
  assumes "inv s" "holding s = {#}" "returned s = {#}"
    and "\<forall>f. count (\<Sum>e\<leftarrow>es. given e) f \<le> 1"
  shows "count (returned (foldl step s es)) f \<le> 1"
    and "f \<in># holding (foldl step s es) \<Longrightarrow> f \<notin># returned (foldl step s es)"
proof -
  have eq: "holding (foldl step s es) + returned (foldl step s es) = (\<Sum>e\<leftarrow>es. given e)"
    using run_conserves [OF assms(1)] assms(2,3) by simp
  have sum: "count (holding (foldl step s es)) f + count (returned (foldl step s es)) f \<le> 1"
    using assms(4) by (metis eq count_union)
  then show "count (returned (foldl step s es)) f \<le> 1" by simp
  show "f \<in># holding (foldl step s es) \<Longrightarrow> f \<notin># returned (foldl step s es)"
    using sum by (auto simp flip: count_greater_zero_iff)
qed

end

section \<open>The shared part\<close>

record 'f sink =
  queue :: "'f list"
  maxlen :: nat
  stopping :: bool
  running :: bool
  current :: "'f option"
  released :: "'f list"
  submitted :: nat
  processed :: nat
  dropped :: nat
  faults :: nat

text \<open>
  \<open>submit\<close>. A full deque drops its left end on \<open>append\<close>; with \<open>maxlen\<close> 0 there is no
  \<open>_queue[0]\<close> to release and the call raises.
\<close>

definition submit :: "'f \<Rightarrow> ('f, 'x) sink_scheme \<Rightarrow> (py_error + unit) \<times> ('f, 'x) sink_scheme" where
  "submit frame s =
     (let s1 = s\<lparr>submitted := submitted s + 1\<rparr>
      in if length (queue s) = maxlen s then
           let s2 = s1\<lparr>dropped := dropped s + 1\<rparr>
           in (case queue s of
                 [] \<Rightarrow> (Inl IndexError, s2)
               | oldest # newer \<Rightarrow>
                   (Inr (), s2\<lparr>released := released s @ [oldest], queue := newer @ [frame]\<rparr>))
         else (Inr (), s1\<lparr>queue := queue s @ [frame]\<rparr>))"

definition close_sink :: "('f, 'x) sink_scheme \<Rightarrow> ('f, 'x) sink_scheme" where
  "close_sink s = s\<lparr>stopping := True\<rparr>"

text \<open>The locked part of \<open>_run\<close>: take the oldest frame, or return once stopped and drained.\<close>

definition worker_take :: "('f, 'x) sink_scheme \<Rightarrow> ('f, 'x) sink_scheme" where
  "worker_take s =
     (if \<not> running s \<or> current s \<noteq> None then s
      else case queue s of
        [] \<Rightarrow> (if stopping s then s\<lparr>running := False\<rparr> else s)
      | frame # rest \<Rightarrow> s\<lparr>queue := rest, current := Some frame\<rparr>)"

text \<open>The \<open>finally\<close> of \<open>_run\<close>.\<close>

definition worker_release :: "'f \<Rightarrow> ('f, 'x) sink_scheme \<Rightarrow> ('f, 'x) sink_scheme" where
  "worker_release frame s = s\<lparr>released := released s @ [frame], current := None\<rparr>"

definition sink_inv :: "('f, 'x) sink_scheme \<Rightarrow> bool" where
  "sink_inv s \<longleftrightarrow> 0 < maxlen s \<and> length (queue s) \<le> maxlen s
     \<and> submitted s = length (queue s) + (if current s = None then 0 else 1) + length (released s)
     \<and> dropped s \<le> length (released s) \<and> (\<not> running s \<longrightarrow> current s = None)"

definition sink_holding :: "('f, 'x) sink_scheme \<Rightarrow> 'f multiset" where
  "sink_holding s = mset (queue s) + (case current s of None \<Rightarrow> {#} | Some f \<Rightarrow> {#f#})"

definition sink_returned :: "('f, 'x) sink_scheme \<Rightarrow> 'f multiset" where
  "sink_returned s = mset (released s)"

section \<open>Detector sink\<close>

record 'f detector_sink = "'f sink" +
  has_publish :: bool
  has_debug_publish :: bool
  detections :: nat
  published_msgs :: "nat list"
  debug_msgs :: nat

text \<open>
  What happened while one frame was handled: the detector raised, or it found \<open>tags\<close> tags, with
  or without a debug message; then each publisher took what it was given or raised.
\<close>

datatype detector_run =
    DetectorRaised
  | Detected (tags: nat) (has_debug: bool) (publish_ok: bool) (debug_ok: bool)

text \<open>\<open>_handle\<close>: the flag says whether it returned, or an exception has left it.\<close>

definition detector_handle :: "detector_run \<Rightarrow> 'f detector_sink \<Rightarrow> bool \<times> 'f detector_sink" where
  "detector_handle r s =
     (case r of
        DetectorRaised \<Rightarrow> (False, s)
      | Detected n dbg pub_ok dbg_ok \<Rightarrow>
          let s1 = s\<lparr>processed := processed s + 1, detections := detections s + n\<rparr>
          in if has_publish s1 \<and> \<not> pub_ok then (False, s1)
             else
               let s2 = (if has_publish s1 then s1\<lparr>published_msgs := published_msgs s1 @ [n]\<rparr> else s1)
               in if dbg \<and> has_debug_publish s2
                  then (if dbg_ok then (True, s2\<lparr>debug_msgs := debug_msgs s2 + 1\<rparr>) else (False, s2))
                  else (True, s2))"

definition detector_finish :: "detector_run \<Rightarrow> 'f detector_sink \<Rightarrow> 'f detector_sink" where
  "detector_finish r s =
     (case current s of
        None \<Rightarrow> s
      | Some frame \<Rightarrow>
          let (ok, s1) = detector_handle r s;
              s2 = (if ok then s1 else s1\<lparr>faults := faults s1 + 1\<rparr>)
          in worker_release frame s2)"

datatype ('f, 'r) sink_event = Submit 'f | Close | Take | Finish 'r

definition detector_step :: "'f detector_sink \<Rightarrow> ('f, detector_run) sink_event \<Rightarrow> 'f detector_sink" where
  "detector_step s e =
     (case e of
        Submit f \<Rightarrow> snd (submit f s)
      | Close \<Rightarrow> close_sink s
      | Take \<Rightarrow> worker_take s
      | Finish r \<Rightarrow> detector_finish r s)"

definition detector_start :: "nat \<Rightarrow> bool \<Rightarrow> bool \<Rightarrow> 'f detector_sink" where
  "detector_start depth with_publish with_debug = \<lparr>queue = [], maxlen = depth, stopping = False, running = True,
     current = None, released = [], submitted = 0, processed = 0, dropped = 0, faults = 0,
     has_publish = with_publish, has_debug_publish = with_debug, detections = 0,
     published_msgs = [], debug_msgs = 0\<rparr>"

section \<open>Flow sink\<close>

text \<open>The fields of the frontend's result that decide what is counted and published.\<close>

record flow_result =
  sample_ns :: int
  quality :: int
  timespan_us :: int
  delta_finite :: bool

record flow_message =
  fl_timestamp_sample :: int
  fl_device_id :: nat
  fl_delta_angle_available :: bool
  fl_distance_available :: bool
  fl_timespan_us :: int
  fl_quality :: int
  fl_error_count :: nat
  fl_max_ground_distance :: nat

text \<open>The counters of the JSON debug message; the range row is None when the history has none.\<close>

record flow_debug =
  db_published :: bool
  db_sequence :: nat
  db_error_count :: nat
  db_submitted :: nat
  db_dropped :: nat
  db_distance_age_ns :: "int option"
  db_distance_quality :: int

record 'f flow_sink = "'f sink" +
  publish_enabled :: bool
  valid :: nat
  error_count :: nat
  valid_streak :: nat
  flow_sequence :: nat
  flow_published :: "flow_message list"
  flow_debugs :: "flow_debug list"

datatype flow_run =
    FrontendRaised
  | Flowed flow_result (range_row: "(int \<times> int) option") (flow_publish_ok: bool) (flow_debug_ok: bool)

definition flow_max_ground_distance_m :: nat where
  "flow_max_ground_distance_m = 8"

definition flow_count :: "flow_result \<Rightarrow> 'f flow_sink \<Rightarrow> 'f flow_sink" where
  "flow_count res s =
     (let s1 = s\<lparr>processed := processed s + 1, flow_sequence := flow_sequence s + 1\<rparr>
      in if quality res > 0
         then s1\<lparr>valid := valid s1 + 1, valid_streak := valid_streak s1 + 1\<rparr>
         else s1\<lparr>error_count := error_count s1 + 1, valid_streak := 0\<rparr>)"

definition flow_message_of :: "flow_result \<Rightarrow> 'f flow_sink \<Rightarrow> flow_message" where
  "flow_message_of res s =
     \<lparr>fl_timestamp_sample = sample_ns res div 1000, fl_device_id = 0,
      fl_delta_angle_available = delta_finite res, fl_distance_available = False,
      fl_timespan_us = max 0 (timespan_us res), fl_quality = quality res,
      fl_error_count = error_count s, fl_max_ground_distance = flow_max_ground_distance_m\<rparr>"

definition flow_debug_of :: "flow_result \<Rightarrow> (int \<times> int) option \<Rightarrow> 'f flow_sink \<Rightarrow> flow_debug" where
  "flow_debug_of res row s =
     \<lparr>db_published = publish_enabled s, db_sequence = flow_sequence s,
      db_error_count = error_count s, db_submitted = submitted s, db_dropped = dropped s,
      db_distance_age_ns = map_option (\<lambda>(t, _). \<bar>t - sample_ns res\<bar>) row,
      db_distance_quality = (case row of None \<Rightarrow> - 1 | Some (_, q) \<Rightarrow> q)\<rparr>"

definition flow_handle :: "flow_run \<Rightarrow> 'f flow_sink \<Rightarrow> bool \<times> 'f flow_sink" where
  "flow_handle r s =
     (case r of
        FrontendRaised \<Rightarrow> (False, s)
      | Flowed res row pub_ok dbg_ok \<Rightarrow>
          let s1 = flow_count res s
          in if publish_enabled s1 \<and> \<not> pub_ok then (False, s1)
             else
               let s2 = (if publish_enabled s1
                         then s1\<lparr>flow_published := flow_published s1 @ [flow_message_of res s1]\<rparr>
                         else s1)
               in if dbg_ok
                  then (True, s2\<lparr>flow_debugs := flow_debugs s2 @ [flow_debug_of res row s2]\<rparr>)
                  else (False, s2))"

definition flow_finish :: "flow_run \<Rightarrow> 'f flow_sink \<Rightarrow> 'f flow_sink" where
  "flow_finish r s =
     (case current s of
        None \<Rightarrow> s
      | Some frame \<Rightarrow>
          let (ok, s1) = flow_handle r s;
              s2 = (if ok then s1 else s1\<lparr>faults := faults s1 + 1, error_count := error_count s1 + 1\<rparr>)
          in worker_release frame s2)"

definition flow_step :: "'f flow_sink \<Rightarrow> ('f, flow_run) sink_event \<Rightarrow> 'f flow_sink" where
  "flow_step s e =
     (case e of
        Submit f \<Rightarrow> snd (submit f s)
      | Close \<Rightarrow> close_sink s
      | Take \<Rightarrow> worker_take s
      | Finish r \<Rightarrow> flow_finish r s)"

definition flow_start :: "nat \<Rightarrow> bool \<Rightarrow> 'f flow_sink" where
  "flow_start depth enabled = \<lparr>queue = [], maxlen = depth, stopping = False, running = True,
     current = None, released = [], submitted = 0, processed = 0, dropped = 0, faults = 0,
     publish_enabled = enabled, valid = 0, error_count = 0, valid_streak = 0, flow_sequence = 0,
     flow_published = [], flow_debugs = []\<rparr>"

definition given_frame :: "('f, 'r) sink_event \<Rightarrow> 'f multiset" where
  "given_frame e = (case e of Submit f \<Rightarrow> {#f#} | _ \<Rightarrow> {#})"

section \<open>Invariants and conservation\<close>

lemma submit_inv: "sink_inv s \<Longrightarrow> sink_inv (snd (submit f s))"
  by (cases "queue s") (auto simp: sink_inv_def submit_def Let_def)

lemma submit_returns: "sink_inv s \<Longrightarrow> fst (submit f s) = Inr ()"
  by (cases "queue s") (auto simp: sink_inv_def submit_def Let_def)

lemma submit_conserves:
  "sink_inv s \<Longrightarrow> sink_holding (snd (submit f s)) + sink_returned (snd (submit f s))
     = sink_holding s + sink_returned s + {#f#}"
  by (cases "queue s") (auto simp: sink_inv_def submit_def Let_def sink_holding_def sink_returned_def)

lemma close_sink_inv: "sink_inv (close_sink s) = sink_inv s"
  by (simp add: sink_inv_def close_sink_def)

lemma close_conserves [simp]:
  "sink_holding (close_sink s) = sink_holding s" "sink_returned (close_sink s) = sink_returned s"
  by (simp_all add: sink_holding_def sink_returned_def close_sink_def)

lemma worker_take_inv: "sink_inv s \<Longrightarrow> sink_inv (worker_take s)"
  by (auto simp: sink_inv_def worker_take_def split: list.splits)

lemma worker_take_conserves:
  "sink_holding (worker_take s) + sink_returned (worker_take s) = sink_holding s + sink_returned s"
  by (auto simp: sink_holding_def sink_returned_def worker_take_def split: list.splits option.splits)

text \<open>Finishing only counts, publishes and gives the frame back.\<close>

definition same_queue :: "('f, 'x) sink_scheme \<Rightarrow> ('f, 'x) sink_scheme \<Rightarrow> bool" where
  "same_queue s t \<longleftrightarrow> queue t = queue s \<and> maxlen t = maxlen s \<and> current t = current s
     \<and> running t = running s \<and> released t = released s \<and> submitted t = submitted s \<and> dropped t = dropped s"

lemma release_inv:
  "sink_inv s \<Longrightarrow> current s = Some f \<Longrightarrow> same_queue s t \<Longrightarrow> sink_inv (worker_release f t)"
  by (auto simp: sink_inv_def same_queue_def worker_release_def)

lemma release_conserves:
  "current s = Some f \<Longrightarrow> same_queue s t \<Longrightarrow>
   sink_holding (worker_release f t) + sink_returned (worker_release f t) = sink_holding s + sink_returned s"
  by (simp add: sink_holding_def sink_returned_def same_queue_def worker_release_def)

lemma same_queue_detector_handle: "same_queue s (snd (detector_handle r s))"
  by (cases r) (auto simp: detector_handle_def same_queue_def Let_def)

lemma detector_finish_release:
  assumes "current s = Some f"
  obtains t where "same_queue s t" "detector_finish r s = worker_release f t"
proof -
  obtain ok s1 where h: "detector_handle r s = (ok, s1)" by (cases "detector_handle r s")
  then have "same_queue s s1" using same_queue_detector_handle [of s r] by simp
  then have "same_queue s (if ok then s1 else s1\<lparr>faults := faults s1 + 1\<rparr>)"
    by (simp add: same_queue_def)
  then show thesis using assms h that by (simp add: detector_finish_def)
qed

lemma same_queue_flow_handle: "same_queue s (snd (flow_handle r s))"
  by (cases r) (auto simp: flow_handle_def flow_count_def same_queue_def Let_def)

lemma flow_finish_release:
  assumes "current s = Some f"
  obtains t where "same_queue s t" "flow_finish r s = worker_release f t"
proof -
  obtain ok s1 where h: "flow_handle r s = (ok, s1)" by (cases "flow_handle r s")
  then have "same_queue s s1" using same_queue_flow_handle [of s r] by simp
  then have "same_queue s (if ok then s1 else s1\<lparr>faults := faults s1 + 1, error_count := error_count s1 + 1\<rparr>)"
    by (simp add: same_queue_def)
  then show thesis using assms h that by (simp add: flow_finish_def)
qed

lemma detector_finish_idle [simp]: "current s = None \<Longrightarrow> detector_finish r s = s"
  by (simp add: detector_finish_def)

lemma flow_finish_idle [simp]: "current s = None \<Longrightarrow> flow_finish r s = s"
  by (simp add: flow_finish_def)

lemma detector_finish_inv:
  assumes "sink_inv s"
  shows "sink_inv (detector_finish r s)"
proof (cases "current s")
  case (Some f)
  then obtain t where "same_queue s t" "detector_finish r s = worker_release f t"
    by (rule detector_finish_release)
  with Some assms show ?thesis by (simp add: release_inv)
qed (use assms in simp)

lemma detector_finish_conserves:
  "sink_holding (detector_finish r s) + sink_returned (detector_finish r s) = sink_holding s + sink_returned s"
proof (cases "current s")
  case (Some f)
  then obtain t where "same_queue s t" "detector_finish r s = worker_release f t"
    by (rule detector_finish_release)
  with Some show ?thesis by (simp add: release_conserves)
qed simp

interpretation detector: borrower detector_step sink_inv given_frame sink_holding sink_returned
proof
  fix s :: "'f detector_sink" and e
  assume inv: "sink_inv s"
  show "sink_inv (detector_step s e)"
    using inv by (cases e)
      (simp_all add: detector_step_def submit_inv close_sink_inv worker_take_inv detector_finish_inv)
  show "sink_holding (detector_step s e) + sink_returned (detector_step s e)
      = sink_holding s + sink_returned s + given_frame e"
    using inv by (cases e)
      (simp_all add: detector_step_def given_frame_def submit_conserves worker_take_conserves
        detector_finish_conserves)
qed

lemma flow_finish_inv:
  assumes "sink_inv s"
  shows "sink_inv (flow_finish r s)"
proof (cases "current s")
  case (Some f)
  then obtain t where "same_queue s t" "flow_finish r s = worker_release f t"
    by (rule flow_finish_release)
  with Some assms show ?thesis by (simp add: release_inv)
qed (use assms in simp)

lemma flow_finish_conserves:
  "sink_holding (flow_finish r s) + sink_returned (flow_finish r s) = sink_holding s + sink_returned s"
proof (cases "current s")
  case (Some f)
  then obtain t where "same_queue s t" "flow_finish r s = worker_release f t"
    by (rule flow_finish_release)
  with Some show ?thesis by (simp add: release_conserves)
qed simp

interpretation flow: borrower flow_step sink_inv given_frame sink_holding sink_returned
proof
  fix s :: "'f flow_sink" and e
  assume inv: "sink_inv s"
  show "sink_inv (flow_step s e)"
    using inv by (cases e)
      (simp_all add: flow_step_def submit_inv close_sink_inv worker_take_inv flow_finish_inv)
  show "sink_holding (flow_step s e) + sink_returned (flow_step s e)
      = sink_holding s + sink_returned s + given_frame e"
    using inv by (cases e)
      (simp_all add: flow_step_def given_frame_def submit_conserves worker_take_conserves
        flow_finish_conserves)
qed

section \<open>What the sinks promise\<close>

lemma sink_start_facts:
  "0 < depth \<Longrightarrow> sink_inv (flow_start depth enabled)"
  "0 < depth \<Longrightarrow> sink_inv (detector_start depth with_publish with_debug)"
  "sink_holding (flow_start depth enabled) = {#}" "sink_returned (flow_start depth enabled) = {#}"
  "sink_holding (detector_start depth with_publish with_debug) = {#}"
  "sink_returned (detector_start depth with_publish with_debug) = {#}"
  by (simp_all add: sink_inv_def flow_start_def detector_start_def sink_holding_def sink_returned_def)

lemma maxlen_kept:
  "maxlen (foldl flow_step s es) = maxlen s"
  "maxlen (foldl detector_step s' es') = maxlen s'"
proof -
  have "maxlen (flow_step s e) = maxlen s" for s :: "'a flow_sink" and e
  proof (cases e)
    case (Finish r)
    then show ?thesis
      by (cases "current s"; use same_queue_flow_handle [of s r] in
          \<open>auto simp: flow_step_def flow_finish_def worker_release_def same_queue_def split: prod.splits\<close>)
  qed (auto simp: flow_step_def submit_def close_sink_def worker_take_def Let_def split: list.splits)
  then show "maxlen (foldl flow_step s es) = maxlen s" by (induction es arbitrary: s) auto
  have "maxlen (detector_step s e) = maxlen s" for s :: "'b detector_sink" and e
  proof (cases e)
    case (Finish r)
    then show ?thesis
      by (cases "current s"; use same_queue_detector_handle [of s r] in
          \<open>auto simp: detector_step_def detector_finish_def worker_release_def same_queue_def split: prod.splits\<close>)
  qed (auto simp: detector_step_def submit_def close_sink_def worker_take_def Let_def split: list.splits)
  then show "maxlen (foldl detector_step s' es') = maxlen s'" by (induction es' arbitrary: s') auto
qed

text \<open>
  However submissions, worker steps, publisher faults and shutdown interleave, each frame
  handed to the flow sink is either held (queued or in flight) or has been released, and is never
  released twice; the queue never exceeds its depth, and a further submission returns.
\<close>

theorem flow_sink_releases_once:
  fixes es :: "('f, flow_run) sink_event list"
    and enabled :: bool
  assumes depth: "0 < depth"
    and fresh: "\<forall>f. count (\<Sum>e\<leftarrow>es. given_frame e) f \<le> 1"
  defines "s \<equiv> foldl flow_step (flow_start depth enabled) es"
  shows "sink_holding s + sink_returned s = (\<Sum>e\<leftarrow>es. given_frame e)
    \<and> count (sink_returned s) f \<le> 1
    \<and> (f \<in># sink_holding s \<longrightarrow> f \<notin># sink_returned s)
    \<and> length (queue s) \<le> depth
    \<and> fst (submit g s) = Inr ()"
proof -
  have inv: "sink_inv s" unfolding s_def by (rule flow.run_inv) (rule sink_start_facts(1) [OF depth])
  moreover have "maxlen s = depth" unfolding s_def by (simp add: maxlen_kept flow_start_def)
  ultimately show ?thesis
    using flow.run_conserves [OF sink_start_facts(1) [OF depth], of enabled es]
      flow.run_returns_each_once [OF sink_start_facts(1) [OF depth, of enabled] sink_start_facts(3,4) fresh, of f]
    by (simp add: s_def sink_start_facts submit_returns) (simp add: sink_inv_def)
qed

theorem flow_sink_releases_once_witness:
  "let s = foldl flow_step (flow_start 1 True)
      [Submit (0::nat), Take, Submit 1, Submit 2, Finish FrontendRaised]
   in sink_holding s = {#2#} \<and> sink_returned s = {#1, 0#} \<and> count (sink_returned s) 1 \<le> 1"
proof -
  let ?es = "[Submit (0::nat), Take, Submit 1, Submit 2, Finish FrontendRaised]"
  have "\<forall>f. count (\<Sum>e\<leftarrow>?es. given_frame e) f \<le> 1" by (simp add: given_frame_def)
  from flow_sink_releases_once [OF _ this, of 1 True 1 0]
  have "count (sink_returned (foldl flow_step (flow_start 1 True) ?es)) 1 \<le> 1" by simp
  then show ?thesis
    by (simp add: flow_step_def flow_start_def submit_def worker_take_def flow_finish_def
        flow_handle_def worker_release_def sink_holding_def sink_returned_def)
qed

lemma flow_finish_counts:
  "valid s + error_count s = processed s + faults s \<Longrightarrow>
   valid (flow_finish r s) + error_count (flow_finish r s) = processed (flow_finish r s) + faults (flow_finish r s)"
  by (cases r)
    (auto simp: flow_finish_def flow_handle_def flow_count_def worker_release_def Let_def
      split: option.splits if_splits prod.splits)

lemma flow_step_counts:
  "valid s + error_count s = processed s + faults s \<Longrightarrow>
   valid (flow_step s e) + error_count (flow_step s e) = processed (flow_step s e) + faults (flow_step s e)"
  by (cases e)
    (auto simp: flow_step_def flow_finish_counts submit_def close_sink_def worker_take_def Let_def
      split: list.splits)

lemma flow_streak_step: "valid_streak s \<le> valid s \<Longrightarrow> valid_streak (flow_step s e) \<le> valid (flow_step s e)"
  by (cases e; (cases "case e of Finish r \<Rightarrow> r | _ \<Rightarrow> FrontendRaised")?)
    (auto simp: flow_step_def flow_finish_def flow_handle_def flow_count_def worker_release_def
      submit_def close_sink_def worker_take_def Let_def split: list.splits option.splits)

text \<open>
  The flow sink's counters add up in every run. Each frame it processes is counted valid
  or as an error, each worker fault adds one more error whether it came before or after the frame
  was counted, and the streak of valid frames never exceeds the valid frames.
\<close>

theorem flow_counters_balance:
  "valid (foldl flow_step (flow_start depth enabled) es)
     + error_count (foldl flow_step (flow_start depth enabled) es)
   = processed (foldl flow_step (flow_start depth enabled) es)
     + faults (foldl flow_step (flow_start depth enabled) es)
   \<and> valid_streak (foldl flow_step (flow_start depth enabled) es)
     \<le> valid (foldl flow_step (flow_start depth enabled) es)"
proof -
  have "valid s + error_count s = processed s + faults s \<and> valid_streak s \<le> valid s \<Longrightarrow>
      valid (foldl flow_step s es) + error_count (foldl flow_step s es)
        = processed (foldl flow_step s es) + faults (foldl flow_step s es)
      \<and> valid_streak (foldl flow_step s es) \<le> valid (foldl flow_step s es)" for s :: "'a flow_sink"
    by (induction es arbitrary: s) (simp_all add: flow_step_counts flow_streak_step)
  then show ?thesis by (simp add: flow_start_def)
qed

end
