(* ===== verification/Tiles.thy ===== *)
theory Tiles
  imports Prelude
begin

text \<open>
  The frame-tiling grid that training and onboard inference share
  (\<open>mission_engine/core/tiles.py\<close>): tile origins per axis, evenly spaced, first and last flush.
\<close>

definition ceil_div :: "int \<Rightarrow> int \<Rightarrow> int" where
  "ceil_div a b = - ((- a) div b)"

definition tile_count :: "int \<Rightarrow> int \<Rightarrow> int \<Rightarrow> nat" where
  "tile_count tile overlap extent = nat (1 + ceil_div (extent - tile) (tile - overlap))"

definition tile_origin :: "int \<Rightarrow> nat \<Rightarrow> nat \<Rightarrow> int" where
  "tile_origin slack n i = py_round (of_int (int i * slack) / of_int (int n - 1))"

definition tile_axis :: "int \<Rightarrow> int \<Rightarrow> int \<Rightarrow> int list" where
  "tile_axis tile overlap extent =
     (if extent \<le> tile then [0]
      else let n = tile_count tile overlap extent; slack = extent - tile
           in map (tile_origin slack n) [0..<n])"

definition tile_grid :: "int \<Rightarrow> int \<Rightarrow> int \<Rightarrow> int \<Rightarrow> py_error + (int \<times> int) list" where
  "tile_grid width height tile overlap =
     (if \<not> (0 \<le> overlap \<and> overlap < tile) then Inl (ValueError ''need 0 <= overlap < tile'')
      else if width < 1 \<or> height < 1 then Inl (ValueError ''bad frame'')
      else Inr (concat (map (\<lambda>y. map (\<lambda>x. (x, y)) (tile_axis tile overlap width))
                            (tile_axis tile overlap height))))"

section \<open>One axis\<close>

lemma ceil_div_bounds:
  assumes "0 < b"
  shows "a \<le> ceil_div a b * b" and "(ceil_div a b - 1) * b < a"
proof -
  have eq: "- a = b * ((- a) div b) + (- a) mod b" by simp
  have "0 \<le> (- a) mod b" "(- a) mod b < b" using assms by simp_all
  moreover have "ceil_div a b * b = - (b * ((- a) div b))" by (simp add: ceil_div_def)
  ultimately show "a \<le> ceil_div a b * b" "(ceil_div a b - 1) * b < a"
    using eq unfolding left_diff_distrib by linarith+
qed

lemma tile_count_bounds:
  assumes "overlap < tile" "tile < extent"
  defines "n \<equiv> tile_count tile overlap extent"
  shows "2 \<le> n" "extent - tile \<le> (int n - 1) * (tile - overlap)"
    "(int n - 2) * (tile - overlap) < extent - tile"
proof -
  have b: "extent - tile \<le> ceil_div (extent - tile) (tile - overlap) * (tile - overlap)"
    "(ceil_div (extent - tile) (tile - overlap) - 1) * (tile - overlap) < extent - tile"
    using ceil_div_bounds [of "tile - overlap" "extent - tile"] assms(1) by simp_all
  have pos: "0 < ceil_div (extent - tile) (tile - overlap)"
  proof (rule ccontr)
    assume "\<not> ?thesis"
    with assms(1) have "ceil_div (extent - tile) (tile - overlap) * (tile - overlap) \<le> 0"
      by (simp add: mult_nonpos_nonneg)
    with b(1) assms(2) show False by simp
  qed
  then have n: "int n = 1 + ceil_div (extent - tile) (tile - overlap)"
    by (simp add: n_def tile_count_def)
  show "2 \<le> n" using n pos by linarith
  show "extent - tile \<le> (int n - 1) * (tile - overlap)" "(int n - 2) * (tile - overlap) < extent - tile"
    using b n by simp_all
qed

text \<open>Rounding never widens a stride beyond \<open>tile - overlap\<close>: a stride of exactly that falls on integers.\<close>

lemma tile_stride:
  assumes n: "2 \<le> n" and slack: "slack \<le> (int n - 1) * t"
  shows "tile_origin slack n (Suc i) \<le> tile_origin slack n i + t"
proof (cases "slack = (int n - 1) * t")
  case True
  have "of_int (int j * slack) / of_int (int n - 1) = (of_int (int j * t) :: real)" for j
    using n by (simp add: True)
  then show ?thesis
    unfolding tile_origin_def by (simp only: py_round_of_int) (simp add: distrib_right)
next
  case False
  define d where "d = (of_int (int n - 1) :: real)"
  define x where "x = of_int (int i * slack) / d"
  define y where "y = of_int (int (Suc i) * slack) / d"
  have d: "0 < d" using n by (simp add: d_def)
  have "y = x + of_int slack / d" by (simp add: x_def y_def distrib_right add_divide_distrib)
  moreover have "of_int slack / d < of_int t"
  proof -
    have "slack < (int n - 1) * t" using False slack by simp
    then have "of_int slack < (of_int ((int n - 1) * t) :: real)" by (simp only: of_int_less_iff)
    then have "of_int slack < d * of_int t" by (simp add: d_def)
    then show ?thesis using d by (simp add: divide_less_eq mult.commute)
  qed
  ultimately have "of_int (py_round y) < of_int (py_round x) + (1 + of_int t :: real)"
    using py_round_near(1) [of y] py_round_near(2) [of x] by simp
  then have "py_round y \<le> py_round x + t" by linarith
  then show ?thesis by (simp add: tile_origin_def x_def y_def d_def)
qed

lemma tile_origin_ends:
  assumes "2 \<le> n"
  shows "tile_origin slack n 0 = 0" and "tile_origin slack n (n - 1) = slack"
proof -
  show "tile_origin slack n 0 = 0" by (simp add: tile_origin_def)
  have "int (n - 1) = int n - 1" using assms by simp
  then have "of_int (int (n - 1) * slack) / of_int (int n - 1) = (of_int slack :: real)"
    using assms by simp
  then show "tile_origin slack n (n - 1) = slack" unfolding tile_origin_def by simp
qed

text \<open>The last origin at or before a point is within one stride of it.\<close>

lemma last_before:
  fixes x :: "nat \<Rightarrow> int"
  assumes "x 0 \<le> a"
  obtains i where "i \<le> m" "x i \<le> a" "i < m \<Longrightarrow> a < x (Suc i)"
  using assms
proof (induction m arbitrary: thesis)
  case 0
  then show ?case by auto
next
  case (Suc m)
  then obtain i where i: "i \<le> m" "x i \<le> a" "i < m \<Longrightarrow> a < x (Suc i)" by blast
  show ?case
  proof (cases "i = m \<and> x (Suc m) \<le> a")
    case True
    then show ?thesis using Suc.prems(1) [of "Suc m"] by simp
  next
    case False
    then show ?thesis using i Suc.prems(1) [of i] by (cases "i < m") auto
  qed
qed

lemma tile_axis_covers:
  assumes "0 \<le> overlap" "overlap < tile" and seg: "0 \<le> a" "len \<le> overlap" "a + len \<le> extent"
  shows "\<exists>x \<in> set (tile_axis tile overlap extent). x \<le> a \<and> a + len \<le> x + tile"
proof (cases "extent \<le> tile")
  case True
  then show ?thesis using seg by (simp add: tile_axis_def)
next
  case False
  define n where "n = tile_count tile overlap extent"
  define x where "x = tile_origin (extent - tile) n"
  have n: "2 \<le> n" "extent - tile \<le> (int n - 1) * (tile - overlap)"
    using tile_count_bounds [of overlap tile extent] assms False by (simp_all add: n_def)
  have ends: "x 0 = 0" "x (n - 1) = extent - tile"
    using tile_origin_ends [OF n(1)] by (simp_all add: x_def)
  obtain i where i: "i \<le> n - 1" "x i \<le> a" "i < n - 1 \<Longrightarrow> a < x (Suc i)"
    using last_before [of x a "n - 1"] seg(1) ends(1) by auto
  have "a + len \<le> x i + tile"
  proof (cases "i < n - 1")
    case True
    then show ?thesis using i(3) tile_stride [OF n, of i] seg by (simp add: x_def)
  next
    case False
    then show ?thesis using i(1) ends(2) seg by simp
  qed
  moreover have "x i \<in> set (tile_axis tile overlap extent)"
    using i(1) n(1) False by (auto simp: tile_axis_def n_def [symmetric] x_def Let_def)
  ultimately show ?thesis using i(2) by blast
qed

lemma tile_axis_inside:
  assumes "0 \<le> overlap" "overlap < tile" "tile \<le> extent" "x \<in> set (tile_axis tile overlap extent)"
  shows "0 \<le> x" "x + tile \<le> extent"
proof -
  have "0 \<le> x \<and> x + tile \<le> extent"
  proof (cases "extent = tile")
    case True
    with assms show ?thesis by (simp add: tile_axis_def)
  next
    case False
    define n where "n = tile_count tile overlap extent"
    have n: "2 \<le> n" using tile_count_bounds [of overlap tile extent] assms False by (simp add: n_def)
    obtain i where i: "i < n" "x = tile_origin (extent - tile) n i"
      using assms False by (auto simp: tile_axis_def n_def Let_def)
    define q where "q = (of_int (int i * (extent - tile)) / of_int (int n - 1) :: real)"
    have "int i * (extent - tile) \<le> (int n - 1) * (extent - tile)"
      using i n assms(3) by (intro mult_right_mono) auto
    then have "of_int (int i * (extent - tile)) \<le> (of_int ((int n - 1) * (extent - tile)) :: real)"
      by (simp only: of_int_le_iff)
    then have "q \<le> of_int (extent - tile)"
      using n by (simp add: q_def divide_le_eq mult.commute)
    moreover have "0 \<le> q" using n assms(3) by (simp add: q_def)
    moreover have "x = py_round q" by (simp add: i q_def tile_origin_def)
    ultimately show ?thesis
      using py_round_near [of q] by linarith
  qed
  then show "0 \<le> x" "x + tile \<le> extent" by simp_all
qed

section \<open>The grid\<close>

text \<open>
  Every box no larger than the overlap that lies in the frame lies whole in one of the
  tiles of the grid, and on a frame at least as large as a tile every tile lies inside the frame.
\<close>

theorem tile_grid_covers_small_boxes:
  assumes grid: "tile_grid width height tile overlap = Inr g"
    and box: "0 \<le> a" "0 \<le> b" "w \<le> overlap" "h \<le> overlap" "a + w \<le> width" "b + h \<le> height"
  shows "(\<exists>(x, y) \<in> set g. x \<le> a \<and> a + w \<le> x + tile \<and> y \<le> b \<and> b + h \<le> y + tile)
    \<and> (tile \<le> width \<and> tile \<le> height \<longrightarrow>
        (\<forall>(x, y) \<in> set g. 0 \<le> x \<and> x + tile \<le> width \<and> 0 \<le> y \<and> y + tile \<le> height))"
proof -
  have ok: "0 \<le> overlap" "overlap < tile"
    and g: "set g = set (tile_axis tile overlap width) \<times> set (tile_axis tile overlap height)"
    using grid by (auto simp: tile_grid_def image_iff split: if_splits)
  obtain x where x: "x \<in> set (tile_axis tile overlap width)" "x \<le> a" "a + w \<le> x + tile"
    using tile_axis_covers [OF ok box(1,3,5)] by blast
  obtain y where y: "y \<in> set (tile_axis tile overlap height)" "y \<le> b" "b + h \<le> y + tile"
    using tile_axis_covers [OF ok box(2,4,6)] by blast
  have "(x, y) \<in> set g" using x(1) y(1) g by simp
  with x y show ?thesis
    unfolding g by (fastforce dest: tile_axis_inside [OF ok])
qed

lemma tile_axis_example: "tile_axis 640 192 1280 = [0, 320, 640]"
  by (simp add: tile_axis_def tile_count_def ceil_div_def tile_origin_def upt_rec)

theorem tile_grid_covers_small_boxes_witness:
  "\<exists>(x, y) \<in> set [(0, 0), (320, 0), (640::int, 0::int)].
     x \<le> 600 \<and> 600 + 192 \<le> x + 640 \<and> y \<le> 10 \<and> 10 + 50 \<le> y + 640"
proof -
  have "tile_grid 1280 640 640 192 = Inr [(0, 0), (320, 0), (640, 0)]"
    by (simp add: tile_grid_def tile_axis_example) (simp add: tile_axis_def)
  from tile_grid_covers_small_boxes [OF this, of 600 10 192 50] show ?thesis by simp
qed

end
