(* ===== verification/Timebase.thy ===== *)
theory Timebase
  imports Prelude
begin

text \<open>
  Clock checks of the sensing process (\<open>ros/sensing/sensing/timebase.py\<close>): mapping camera stamps
  from the boot clock to real time, and the monitor that says when PX4 and the camera share it.
  Clock readings are arguments of the operations that take them. The constant
  \<open>TimesyncStatus.SOURCE_PROTOCOL_DDS\<close> belongs to px4_msgs and is the parameter \<open>dds\<close>.
\<close>

section \<open>Clock mapping\<close>

record clock_mapper =
  step_threshold_ns :: int
  initial_offset_ns :: int
  last_offset_ns :: int
  max_offset_delta_ns :: int
  last_realtime_ns :: int
  nonmonotonic_drops :: nat
  clock_step_events :: nat
  max_clock_step_ns :: int

text \<open>One reading brackets the real-time clock between two boot-clock readings.\<close>

record clock_reading =
  rd_b0 :: int
  rd_realtime :: int
  rd_b1 :: int

definition offset_sample :: "clock_reading \<Rightarrow> int \<times> int" where
  "offset_sample r = (rd_b1 r - rd_b0 r, rd_realtime r - (rd_b0 r + rd_b1 r) div 2)"

fun best_sample :: "(int \<times> int) option \<Rightarrow> clock_reading list \<Rightarrow> (int \<times> int) option" where
  "best_sample best [] = best"
| "best_sample best (r # rs) =
     (let sample = offset_sample r
      in best_sample (case best of None \<Rightarrow> Some sample
                      | Some b \<Rightarrow> if fst sample < fst b then Some sample else Some b) rs)"

text \<open>\<open>_sample_offset\<close> takes seven readings; \<open>best[1]\<close> of no reading would raise.\<close>

definition sample_offset :: "clock_reading list \<Rightarrow> py_error + int" where
  "sample_offset rs =
     (case best_sample None (take 7 rs) of None \<Rightarrow> Inl (TypeError ''None'') | Some b \<Rightarrow> Inr (snd b))"

definition clock_start :: "int \<Rightarrow> int \<Rightarrow> clock_mapper" where
  "clock_start threshold offset =
     \<lparr>step_threshold_ns = threshold, initial_offset_ns = offset, last_offset_ns = offset,
      max_offset_delta_ns = 0, last_realtime_ns = 0, nonmonotonic_drops = 0,
      clock_step_events = 0, max_clock_step_ns = 0\<rparr>"

text \<open>\<open>map\<close>, given the offset just sampled.\<close>

definition map_stamp :: "int \<Rightarrow> int \<Rightarrow> clock_mapper \<Rightarrow> (int \<times> int) option \<times> clock_mapper" where
  "map_stamp offset sensor_ns m =
     (let jump = \<bar>offset - last_offset_ns m\<bar>;
          m1 = m\<lparr>max_clock_step_ns := max (max_clock_step_ns m) jump\<rparr>;
          m2 = (if jump > step_threshold_ns m1 then m1\<lparr>clock_step_events := clock_step_events m1 + 1\<rparr>
                else m1);
          m3 = m2\<lparr>last_offset_ns := offset,
                  max_offset_delta_ns := max (max_offset_delta_ns m2) \<bar>offset - initial_offset_ns m2\<bar>\<rparr>;
          mapped = sensor_ns + offset
      in if mapped \<le> last_realtime_ns m3
         then (None, m3\<lparr>nonmonotonic_drops := nonmonotonic_drops m3 + 1\<rparr>)
         else (Some (mapped, offset), m3\<lparr>last_realtime_ns := mapped\<rparr>))"

fun map_stamps :: "(int \<times> int) list \<Rightarrow> clock_mapper \<Rightarrow> (int \<times> int) option list \<times> clock_mapper" where
  "map_stamps [] m = ([], m)"
| "map_stamps ((offset, sensor_ns) # rest) m =
     (let (r, m1) = map_stamp offset sensor_ns m; (rs, m2) = map_stamps rest m1
      in (r # rs, m2))"

lemma best_sample_Some: "best_sample (Some b) rs \<noteq> None"
  by (induction rs arbitrary: b) (auto simp: Let_def)

lemma best_sample_least:
  assumes "best_sample best rs = Some b"
  shows "\<forall>r \<in> set rs. fst b \<le> fst (offset_sample r)"
    and "best = Some b0 \<Longrightarrow> fst b \<le> fst b0"
    and "best = Some b \<or> b \<in> offset_sample ` set rs"
proof -
  have "(\<forall>r \<in> set rs. fst b \<le> fst (offset_sample r)) \<and> (\<forall>b0. best = Some b0 \<longrightarrow> fst b \<le> fst b0)
      \<and> (best = Some b \<or> b \<in> offset_sample ` set rs)"
    using assms
  proof (induction rs arbitrary: best)
    case (Cons r rs)
    define best' where "best' = (case best of None \<Rightarrow> Some (offset_sample r)
        | Some b \<Rightarrow> if fst (offset_sample r) < fst b then Some (offset_sample r) else Some b)"
    have le: "fst b \<le> fst b1" if "best' = Some b1" for b1
      using Cons.IH [of best'] Cons.prems that by (cases b1) (auto simp: best'_def Let_def)
    have rest: "\<forall>r \<in> set rs. fst b \<le> fst (offset_sample r)" "best' = Some b \<or> b \<in> offset_sample ` set rs"
      using Cons.IH [of best'] Cons.prems by (simp_all add: best'_def Let_def)
    show ?case
    proof (cases best)
      case None
      then show ?thesis using le rest by (auto simp: best'_def)
    next
      case (Some b0)
      then show ?thesis using le rest by (cases "fst (offset_sample r) < fst b0") (auto simp: best'_def)
    qed
  qed simp
  then show "\<forall>r \<in> set rs. fst b \<le> fst (offset_sample r)"
    and "best = Some b0 \<Longrightarrow> fst b \<le> fst b0" and "best = Some b \<or> b \<in> offset_sample ` set rs" by auto
qed

lemma reading_offset_error:
  assumes "rd_b0 r \<le> t" "t \<le> rd_b1 r"
  shows "\<bar>snd (offset_sample r) - (rd_realtime r - t)\<bar> \<le> (fst (offset_sample r) + 1) div 2"
  using assms by (simp add: offset_sample_def)

text \<open>
  Seven readings always give an offset, the one of a tightest bracket, and if the two clocks
  differ by the same amount at every reading, the offset is off by at most half of that bracket.
\<close>

theorem sample_offset_accuracy:
  assumes "rs \<noteq> []"
    and instants: "\<forall>r \<in> set rs. \<exists>t. rd_b0 r \<le> t \<and> t \<le> rd_b1 r \<and> rd_realtime r - t = true_offset"
  shows "\<exists>offset. sample_offset rs = Inr offset
    \<and> (\<forall>r \<in> set (take 7 rs). \<bar>offset - true_offset\<bar> \<le> (rd_b1 r - rd_b0 r + 1) div 2)"
proof -
  obtain r0 rest where rs: "take 7 rs = r0 # rest" using assms(1) by (cases rs) auto
  then obtain b where b: "best_sample None (take 7 rs) = Some b"
    using best_sample_Some by (fastforce simp: Let_def)
  from best_sample_least [OF b] have least: "\<forall>r \<in> set (take 7 rs). fst b \<le> fst (offset_sample r)"
    and "b \<in> offset_sample ` set (take 7 rs)" by auto
  then obtain r where r: "r \<in> set rs" "b = offset_sample r" by (auto dest: in_set_takeD)
  with instants obtain t where "rd_b0 r \<le> t" "t \<le> rd_b1 r" "rd_realtime r - t = true_offset" by blast
  then have "\<bar>snd b - true_offset\<bar> \<le> (fst b + 1) div 2"
    using reading_offset_error [of r t] r(2) by simp
  moreover have "(fst b + 1) div 2 \<le> (rd_b1 q - rd_b0 q + 1) div 2" if "q \<in> set (take 7 rs)" for q
    using least that by (intro zdiv_mono1) (auto simp: offset_sample_def)
  ultimately show ?thesis using b by (fastforce simp: sample_offset_def)
qed

theorem sample_offset_accuracy_witness:
  "\<exists>offset. sample_offset [\<lparr>rd_b0 = 0, rd_realtime = 102, rd_b1 = 10\<rparr>, \<lparr>rd_b0 = 20, rd_realtime = 121, rd_b1 = 22\<rparr>]
     = Inr offset \<and> \<bar>offset - 100\<bar> \<le> 1"
  using sample_offset_accuracy
    [of "[\<lparr>rd_b0 = 0, rd_realtime = 102, rd_b1 = 10\<rparr>, \<lparr>rd_b0 = 20, rd_realtime = 121, rd_b1 = 22\<rparr>]" 100]
  by (auto intro: exI [of _ 2] exI [of _ 21])

lemma map_stamp_facts:
  assumes "map_stamp offset sensor_ns m = (r, m')"
  shows "r = Some p \<Longrightarrow> last_realtime_ns m < fst p \<and> last_realtime_ns m' = fst p"
    and "r = None \<Longrightarrow> last_realtime_ns m' = last_realtime_ns m \<and> nonmonotonic_drops m' = Suc (nonmonotonic_drops m)"
    and "r \<noteq> None \<Longrightarrow> nonmonotonic_drops m' = nonmonotonic_drops m"
  using assms by (auto simp: map_stamp_def Let_def split: if_splits)

lemma length_map_stamps: "length (fst (map_stamps inputs m)) = length inputs"
  by (induction inputs m rule: map_stamps.induct) (auto split: prod.splits)

lemma map_stamps_increase:
  "map_stamps inputs m = (outs, m') \<Longrightarrow>
   sorted_wrt (<) (last_realtime_ns m # map fst (List.map_filter id outs))
   \<and> last_realtime_ns m' = last (last_realtime_ns m # map fst (List.map_filter id outs))
   \<and> nonmonotonic_drops m' = nonmonotonic_drops m + count_list outs None"
proof (induction inputs m arbitrary: outs m' rule: map_stamps.induct)
  case (1 m)
  then show ?case by (simp add: List.map_filter_simps)
next
  case (2 offset sensor_ns rest m)
  obtain r m1 where step: "map_stamp offset sensor_ns m = (r, m1)" by (cases "map_stamp offset sensor_ns m")
  obtain rs where rest: "map_stamps rest m1 = (rs, m')" "outs = r # rs"
    using "2.prems" step by (auto split: prod.splits)
  note ih = "2.IH" [OF step [symmetric] refl rest(1)]
  show ?case
  proof (cases r)
    case None
    then show ?thesis using ih map_stamp_facts [OF step] rest(2) by (simp add: List.map_filter_simps)
  next
    case (Some p)
    then have "last_realtime_ns m < fst p" "last_realtime_ns m1 = fst p"
      "nonmonotonic_drops m1 = nonmonotonic_drops m"
      using map_stamp_facts [OF step] by auto
    with ih rest(2) Some show ?thesis by (fastforce simp: List.map_filter_simps)
  qed
qed

text \<open>
  Whatever the offsets do, the stamps a camera's mapper hands out are positive and strictly
  increasing, and exactly the stamps it withheld are counted as drops.
\<close>

theorem mapped_stamps_increase:
  "case map_stamps inputs (clock_start threshold offset) of (outs, m) \<Rightarrow>
     sorted_wrt (<) (0 # map fst (List.map_filter id outs))
     \<and> nonmonotonic_drops m + length (List.map_filter id outs) = length inputs"
proof -
  obtain outs m where run: "map_stamps inputs (clock_start threshold offset) = (outs, m)"
    by (cases "map_stamps inputs (clock_start threshold offset)")
  have "length outs = length inputs" using length_map_stamps [of inputs "clock_start threshold offset"] run by simp
  moreover have "count_list outs None + length (List.map_filter id outs) = length outs"
    for outs :: "(int \<times> int) option list"
    by (induction outs) (auto simp: List.map_filter_simps split: option.splits)
  ultimately show ?thesis
    using map_stamps_increase [OF run] unfolding run by (simp add: clock_start_def)
qed

section \<open>Synchronisation monitor\<close>

record sync_monitor =
  max_rtt_us :: int
  samples :: "(int \<times> int) list"
  source_protocol :: int
  last_sync_mono :: real
  last_imu_mono :: real
  last_imu_ns :: int

record timesync_msg =
  estimated_offset :: int
  round_trip_time :: int
  ts_source_protocol :: int

definition sync_start :: "int \<Rightarrow> sync_monitor" where
  "sync_start rtt = \<lparr>max_rtt_us = rtt, samples = [], source_protocol = 0, last_sync_mono = 0,
     last_imu_mono = 0, last_imu_ns = 0\<rparr>"

text \<open>\<open>append\<close> on a deque with \<open>maxlen\<close>: beyond it the oldest entry goes.\<close>

definition deque_append :: "nat \<Rightarrow> 'a \<Rightarrow> 'a list \<Rightarrow> 'a list" where
  "deque_append maxlen x q = (let q' = q @ [x] in drop (length q' - maxlen) q')"

definition note_timesync :: "real \<Rightarrow> timesync_msg \<Rightarrow> sync_monitor \<Rightarrow> sync_monitor" where
  "note_timesync now msg s =
     s\<lparr>samples := deque_append 5 (estimated_offset msg, round_trip_time msg) (samples s),
       source_protocol := ts_source_protocol msg, last_sync_mono := now\<rparr>"

definition note_imu :: "real \<Rightarrow> int \<Rightarrow> sync_monitor \<Rightarrow> sync_monitor" where
  "note_imu now timestamp_ns s = s\<lparr>last_imu_ns := timestamp_ns, last_imu_mono := now\<rparr>"

text \<open>The detail strings, with the numbers they print.\<close>

datatype sync_detail =
    WaitingForSamples nat
  | SourceNotDds
  | TimesyncStale
  | OffsetZero
  | RttExceeds int
  | SpreadExceeds int
  | SensorCombinedStale
  | ImuNotRealtime
  | Ready int int
  | StopRequested

definition sync_status :: "int \<Rightarrow> real \<Rightarrow> int \<Rightarrow> sync_monitor \<Rightarrow> bool \<times> sync_detail" where
  "sync_status dds now realtime s =
     (let offsets = map fst (samples s); rtts = map snd (samples s)
      in if length (samples s) < 3 then (False, WaitingForSamples (length (samples s)))
         else if source_protocol s \<noteq> dds then (False, SourceNotDds)
         else if now - last_sync_mono s > 2 then (False, TimesyncStale)
         else if \<exists>v \<in> set offsets. v = 0 then (False, OffsetZero)
         else if Max (set rtts) > max_rtt_us s then (False, RttExceeds (Max (set rtts)))
         else
           let spread = Max (set offsets) - Min (set offsets)
           in if spread > 5000 then (False, SpreadExceeds spread)
              else if last_imu_ns s = 0 \<or> now - last_imu_mono s > 1 then (False, SensorCombinedStale)
              else if \<bar>realtime - last_imu_ns s\<bar> > 2000000000 then (False, ImuNotRealtime)
              else (True, Ready (Max (set rtts)) spread))"

text \<open>
  \<open>wait_ready\<close>: each round of the loop sees whether a stop was requested, the monitor and the
  clocks. The list holds the rounds in order; None means the loop is still waiting after them.
\<close>

record wait_round =
  stop_set :: bool
  seen :: sync_monitor
  mono_now :: real
  realtime_now :: int
  mono_after :: real

fun wait_ready :: "int \<Rightarrow> real \<Rightarrow> wait_round list \<Rightarrow> (bool \<times> sync_detail) option" where
  "wait_ready dds deadline [] = None"
| "wait_ready dds deadline (w # ws) =
     (if stop_set w then Some (False, StopRequested)
      else let (ok, detail) = sync_status dds (mono_now w) (realtime_now w) (seen w)
           in if ok then Some (True, detail)
              else if deadline - mono_after w \<le> 0 then Some (False, detail)
              else wait_ready dds deadline ws)"

datatype sync_event = Timesync real timesync_msg | Imu real int

definition sync_step :: "sync_monitor \<Rightarrow> sync_event \<Rightarrow> sync_monitor" where
  "sync_step s e = (case e of Timesync now m \<Rightarrow> note_timesync now m s | Imu now t \<Rightarrow> note_imu now t s)"

definition timesyncs :: "sync_event list \<Rightarrow> timesync_msg list" where
  "timesyncs es = List.map_filter (\<lambda>e. case e of Timesync _ m \<Rightarrow> Some m | Imu _ _ \<Rightarrow> None) es"

definition last_n :: "nat \<Rightarrow> 'a list \<Rightarrow> 'a list" where
  "last_n n xs = drop (length xs - n) xs"

lemma deque_append_last_n: "deque_append n x (last_n n xs) = last_n n (xs @ [x])"
proof (cases "n \<le> length xs")
  case True
  then have "length xs - n + 1 = Suc (length xs) - n" by simp
  then have "deque_append n x (last_n n xs) = drop (Suc (length xs) - n) (xs @ [x])"
    using True
    by (cases n) (simp_all add: deque_append_def last_n_def Let_def Suc_diff_le Suc_diff_Suc)
  then show ?thesis by (simp add: last_n_def)
qed (simp add: deque_append_def last_n_def Let_def)

lemma timesyncs_snoc [simp]:
  "timesyncs (es @ [Timesync now m]) = timesyncs es @ [m]"
  "timesyncs (es @ [Imu now t]) = timesyncs es"
  by (simp_all add: timesyncs_def List.map_filter_def)

lemma sync_step_samples [simp]:
  "samples (sync_step s (Timesync now m)) = deque_append 5 (estimated_offset m, round_trip_time m) (samples s)"
  "samples (sync_step s (Imu now t)) = samples s"
  "max_rtt_us (sync_step s e) = max_rtt_us s"
  by (cases e; simp add: sync_step_def note_timesync_def note_imu_def)+

lemma sync_samples:
  "samples (foldl sync_step (sync_start rtt) es)
     = last_n 5 (map (\<lambda>m. (estimated_offset m, round_trip_time m)) (timesyncs es))
   \<and> max_rtt_us (foldl sync_step (sync_start rtt) es) = rtt"
proof (induction es rule: rev_induct)
  case Nil
  show ?case by (simp add: sync_start_def last_n_def timesyncs_def List.map_filter_simps)
next
  case (snoc e es)
  then show ?case by (cases e) (simp_all add: deque_append_last_n)
qed

lemma sync_status_ready:
  assumes "fst (sync_status dds now realtime s)"
  shows "3 \<le> length (samples s)"
    and "(a, r) \<in> set (samples s) \<Longrightarrow> a \<noteq> 0 \<and> r \<le> max_rtt_us s"
    and "(a, r) \<in> set (samples s) \<Longrightarrow> (b, r') \<in> set (samples s) \<Longrightarrow> \<bar>a - b\<bar> \<le> 5000"
    and "now - last_sync_mono s \<le> 2" "now - last_imu_mono s \<le> 1"
    and "\<bar>realtime - last_imu_ns s\<bar> \<le> 2000000000"
proof -
  note d = assms [unfolded sync_status_def Let_def]
  have *: "3 \<le> length (samples s)" "\<forall>v \<in> set (map fst (samples s)). v \<noteq> 0"
    "Max (set (map snd (samples s))) \<le> max_rtt_us s"
    "Max (set (map fst (samples s))) - Min (set (map fst (samples s))) \<le> 5000"
    "now - last_sync_mono s \<le> 2" "now - last_imu_mono s \<le> 1"
    "\<bar>realtime - last_imu_ns s\<bar> \<le> 2000000000"
    using d by (auto split: if_splits)
  show "3 \<le> length (samples s)" "now - last_sync_mono s \<le> 2" "now - last_imu_mono s \<le> 1"
    "\<bar>realtime - last_imu_ns s\<bar> \<le> 2000000000" using * by simp_all
  have mx: "snd p \<le> Max (set (map snd (samples s)))" "fst p \<le> Max (set (map fst (samples s)))"
    "Min (set (map fst (samples s))) \<le> fst p" if "p \<in> set (samples s)" for p
    using that by (auto intro!: Max_ge Min_le)
  show "a \<noteq> 0 \<and> r \<le> max_rtt_us s" if "(a, r) \<in> set (samples s)"
    using mx(1) [OF that] that *(2,3) by force
  show "\<bar>a - b\<bar> \<le> 5000" if "(a, r) \<in> set (samples s)" "(b, r') \<in> set (samples s)"
    using mx(2,3) [OF that(1)] mx(2,3) [OF that(2)] *(4) by simp
qed

text \<open>
  After any sequence of timesync and IMU messages, the monitor reports ready only if at least
  three timesync messages came and the last five (or all, if fewer) have a non-zero offset, a
  round trip within the limit, and offsets that differ pairwise by at most 5 ms.
\<close>

theorem ready_means_recent_samples_agree:
  assumes "fst (sync_status dds now realtime (foldl sync_step (sync_start rtt) es))"
  shows "3 \<le> length (timesyncs es)
    \<and> (\<forall>m \<in> set (last_n 5 (timesyncs es)). estimated_offset m \<noteq> 0 \<and> round_trip_time m \<le> rtt)
    \<and> (\<forall>m \<in> set (last_n 5 (timesyncs es)). \<forall>m' \<in> set (last_n 5 (timesyncs es)).
         \<bar>estimated_offset m - estimated_offset m'\<bar> \<le> 5000)"
proof -
  let ?s = "foldl sync_step (sync_start rtt) es"
  have "samples ?s = map (\<lambda>m. (estimated_offset m, round_trip_time m)) (last_n 5 (timesyncs es))"
    using sync_samples [of rtt es] by (simp add: last_n_def drop_map)
  then have mem: "m \<in> set (last_n 5 (timesyncs es)) \<Longrightarrow>
      (estimated_offset m, round_trip_time m) \<in> set (samples ?s)" for m by auto
  have "3 \<le> length (timesyncs es)"
    using sync_status_ready(1) [OF assms] sync_samples [of rtt es] by (simp add: last_n_def)
  moreover have "max_rtt_us ?s = rtt" using sync_samples [of rtt es] by simp
  ultimately show ?thesis
    using sync_status_ready(2) [OF assms mem] sync_status_ready(3) [OF assms mem mem] by simp
qed

theorem ready_means_recent_samples_agree_witness:
  "let msg = (\<lambda>x. \<lparr>estimated_offset = x, round_trip_time = 400, ts_source_protocol = 1\<rparr>);
       es = [Timesync 1 (msg 7), Timesync 2 (msg 9), Timesync 3 (msg 4000), Imu 3 50]
   in fst (sync_status 1 4 60 (foldl sync_step (sync_start 500) es)) \<and> 3 \<le> length (timesyncs es)"
proof -
  let ?msg = "\<lambda>x. \<lparr>estimated_offset = x, round_trip_time = 400, ts_source_protocol = 1\<rparr>"
  let ?es = "[Timesync 1 (?msg 7), Timesync 2 (?msg 9), Timesync 3 (?msg 4000), Imu 3 50]"
  have ok: "fst (sync_status 1 4 60 (foldl sync_step (sync_start 500) ?es))"
    by (simp add: sync_status_def sync_step_def sync_start_def note_timesync_def note_imu_def
        deque_append_def)
  with ready_means_recent_samples_agree [OF ok] show ?thesis by simp
qed

text \<open>
  Waiting answers in bounded time and never claims more than it saw: among any rounds that
  reach the deadline or a stop request it returns, and if it returns success then some round it
  reached found the monitor ready, before any stop request.
\<close>

theorem wait_ready_answers:
  assumes "\<exists>w \<in> set ws. stop_set w \<or> deadline \<le> mono_after w"
  shows "\<exists>ok detail. wait_ready dds deadline ws = Some (ok, detail)
    \<and> (ok \<longrightarrow> (\<exists>pre w post. ws = pre @ w # post \<and> \<not> stop_set w
          \<and> sync_status dds (mono_now w) (realtime_now w) (seen w) = (True, detail)
          \<and> (\<forall>v \<in> set pre. \<not> stop_set v \<and> mono_after v < deadline)))"
  using assms
proof (induction ws)
  case (Cons w ws)
  obtain ok detail where st: "sync_status dds (mono_now w) (realtime_now w) (seen w) = (ok, detail)"
    by (cases "sync_status dds (mono_now w) (realtime_now w) (seen w)")
  show ?case
  proof (cases "stop_set w \<or> ok \<or> deadline \<le> mono_after w")
    case True
    then show ?thesis using st by (fastforce intro: exI [of _ "[]"])
  next
    case False
    then have later_round: "\<exists>w \<in> set ws. stop_set w \<or> deadline \<le> mono_after w"
      using Cons.prems by auto
    obtain ok' detail' where r: "wait_ready dds deadline ws = Some (ok', detail')"
      and later: "ok' \<longrightarrow> (\<exists>pre w post. ws = pre @ w # post \<and> \<not> stop_set w
          \<and> sync_status dds (mono_now w) (realtime_now w) (seen w) = (True, detail')
          \<and> (\<forall>v \<in> set pre. \<not> stop_set v \<and> mono_after v < deadline))"
      using Cons.IH [OF later_round] by (elim exE conjE)
    have "wait_ready dds deadline (w # ws) = Some (ok', detail')" using False st r by simp
    moreover have "\<exists>pre u post. w # ws = pre @ u # post \<and> \<not> stop_set u
          \<and> sync_status dds (mono_now u) (realtime_now u) (seen u) = (True, detail')
          \<and> (\<forall>v \<in> set pre. \<not> stop_set v \<and> mono_after v < deadline)" if "ok'"
    proof -
      from later that obtain pre u post where "ws = pre @ u # post" "\<not> stop_set u"
        "sync_status dds (mono_now u) (realtime_now u) (seen u) = (True, detail')"
        "\<forall>v \<in> set pre. \<not> stop_set v \<and> mono_after v < deadline" by blast
      with False show ?thesis by (intro exI [of _ "w # pre"] exI [of _ u] exI [of _ post]) auto
    qed
    ultimately show ?thesis by blast
  qed
qed simp

theorem wait_ready_answers_witness:
  "\<exists>ok detail. wait_ready 1 10
     [\<lparr>stop_set = False, seen = sync_start 500, mono_now = 0, realtime_now = 0, mono_after = 0\<rparr>,
      \<lparr>stop_set = True, seen = sync_start 500, mono_now = 1, realtime_now = 1, mono_after = 1\<rparr>]
     = Some (ok, detail)"
  using wait_ready_answers
    [of "[\<lparr>stop_set = False, seen = sync_start 500, mono_now = 0, realtime_now = 0, mono_after = 0\<rparr>,
      \<lparr>stop_set = True, seen = sync_start 500, mono_now = 1, realtime_now = 1, mono_after = 1\<rparr>]" 10 1]
  by auto

end
