(* ===== verification/Geometry.thy ===== *)
theory Geometry
  imports Prelude
begin

text \<open>
  NED geometry of the mission engine (\<open>mission_engine/core/geometry.py\<close>): quaternion helpers,
  survey lanes, and the polygon that is both the field and the fence. Points are (north, east).
\<close>

type_synonym point = "real \<times> real"
type_synonym vec3 = "real \<times> real \<times> real"
type_synonym quat = "real \<times> real \<times> real \<times> real"

section \<open>Quaternions\<close>

definition quat_from_yaw :: "real \<Rightarrow> quat" where
  "quat_from_yaw yaw = (let h = yaw / 2 in (cos h, 0, 0, sin h))"

definition yaw_of :: "quat \<Rightarrow> real" where
  "yaw_of q = (case q of (w, x, y, z) \<Rightarrow> atan2 (2 * (w * z + x * y)) (1 - 2 * (y * y + z * z)))"

definition quat_conj :: "quat \<Rightarrow> quat" where
  "quat_conj q = (case q of (w, x, y, z) \<Rightarrow> (w, - x, - y, - z))"

definition quat_rotate :: "quat \<Rightarrow> vec3 \<Rightarrow> vec3" where
  "quat_rotate q v =
     (case q of (w, x, y, z) \<Rightarrow> case v of (v0, v1, v2) \<Rightarrow>
        let tx = 2 * (y * v2 - z * v1);
            ty = 2 * (z * v0 - x * v2);
            tz = 2 * (x * v1 - y * v0)
        in (v0 + w * tx + y * tz - z * ty,
            v1 + w * ty + z * tx - x * tz,
            v2 + w * tz + x * ty - y * tx))"

definition quat_norm2 :: "quat \<Rightarrow> real" where
  "quat_norm2 q = (case q of (w, x, y, z) \<Rightarrow> w * w + x * x + y * y + z * z)"

definition vec_norm2 :: "vec3 \<Rightarrow> real" where
  "vec_norm2 v = (case v of (a, b, c) \<Rightarrow> a * a + b * b + c * c)"

section \<open>Lanes\<close>

record lane =
  lane_index :: nat
  lane_start :: point
  lane_heading :: real
  lane_length :: real

definition point_at :: "lane \<Rightarrow> real \<Rightarrow> point" where
  "point_at l s = (fst (lane_start l) + s * cos (lane_heading l), snd (lane_start l) + s * sin (lane_heading l))"

definition serpentine_lane :: "point \<Rightarrow> real \<Rightarrow> real \<Rightarrow> real \<Rightarrow> nat \<Rightarrow> lane" where
  "serpentine_lane origin len spacing heading i =
     (let fwd = (cos heading, sin heading); right = (- snd fwd, fst fwd);
          base = (fst origin + of_nat i * spacing * fst right, snd origin + of_nat i * spacing * snd right)
      in if even i
         then \<lparr>lane_index = i, lane_start = base, lane_heading = heading, lane_length = len\<rparr>
         else \<lparr>lane_index = i, lane_start = (fst base + len * fst fwd, snd base + len * snd fwd),
               lane_heading = heading + pi, lane_length = len\<rparr>)"

definition serpentine :: "point \<Rightarrow> real \<Rightarrow> int \<Rightarrow> real \<Rightarrow> real \<Rightarrow> py_error + lane list" where
  "serpentine origin len n_lanes spacing heading =
     (if n_lanes < 1 then Inl (ValueError ''n_lanes must be >= 1'')
      else if len \<le> 0 \<or> spacing \<le> 0 then Inl (ValueError ''length/lane_spacing must be positive'')
      else Inr (map (serpentine_lane origin len spacing heading) [0..<nat n_lanes]))"

section \<open>Polygons\<close>

type_synonym segment = "point \<times> point"

text \<open>The edges in perimeter order: \<open>zip(polygon, polygon[1:] + polygon[:1])\<close>.\<close>

definition edges :: "point list \<Rightarrow> segment list" where
  "edges polygon = zip polygon (rotate1 polygon)"

definition cross2 :: "point \<Rightarrow> point \<Rightarrow> real" where
  "cross2 a b = fst a * snd b - snd a * fst b"

text \<open>The loop of \<open>point_in_polygon\<close>, with the parity so far.\<close>

fun crossing_loop :: "point \<Rightarrow> segment list \<Rightarrow> bool \<Rightarrow> bool" where
  "crossing_loop p [] inside = inside"
| "crossing_loop p (((n1, e1), (n2, e2)) # rest) inside =
     (let n = fst p; e = snd p; dn = n2 - n1; de = e2 - e1;
          cross = (n - n1) * de - (e - e1) * dn
      in if \<bar>cross\<bar> \<le> 1 / 10 ^ 8 \<and> min n1 n2 - 1 / 10 ^ 8 \<le> n \<and> n \<le> max n1 n2 + 1 / 10 ^ 8
            \<and> min e1 e2 - 1 / 10 ^ 8 \<le> e \<and> e \<le> max e1 e2 + 1 / 10 ^ 8
         then True
         else if (e1 > e) \<noteq> (e2 > e)
              then crossing_loop p rest
                     (if n < n1 + (n2 - n1) * (e - e1) / (e2 - e1) then \<not> inside else inside)
              else crossing_loop p rest inside)"

definition point_in_polygon :: "point \<Rightarrow> point list \<Rightarrow> bool" where
  "point_in_polygon p polygon =
     (if length polygon < 3 then False else crossing_loop p (edges polygon) False)"

definition segment_param :: "point \<Rightarrow> segment \<Rightarrow> real" where
  "segment_param p s =
     (case s of ((n1, e1), (n2, e2)) \<Rightarrow>
        let dn = n2 - n1; de = e2 - e1; denom = dn * dn + de * de
        in if denom = 0 then 0
           else max 0 (min 1 (((fst p - n1) * dn + (snd p - e1) * de) / denom)))"

definition segment_point :: "segment \<Rightarrow> real \<Rightarrow> point" where
  "segment_point s u =
     (case s of ((n1, e1), (n2, e2)) \<Rightarrow> (n1 + u * (n2 - n1), e1 + u * (e2 - e1)))"

definition dist2 :: "point \<Rightarrow> point \<Rightarrow> real" where
  "dist2 p q = hypot (fst p - fst q) (snd p - snd q)"

text \<open>\<open>best = min(best, ...)\<close> from \<open>math.inf\<close>, which is None here.\<close>

fun distance_loop :: "point \<Rightarrow> segment list \<Rightarrow> real option \<Rightarrow> real option" where
  "distance_loop p [] best = best"
| "distance_loop p (s # rest) best =
     (let d = dist2 p (segment_point s (segment_param p s))
      in distance_loop p rest (Some (case best of None \<Rightarrow> d | Some b \<Rightarrow> min b d)))"

definition distance_to_polygon :: "point \<Rightarrow> point list \<Rightarrow> real option" where
  "distance_to_polygon p polygon = distance_loop p (edges polygon) None"

text \<open>Every edge moved inward by the margin, as (point, direction).\<close>

definition inward_normal :: "real \<Rightarrow> segment \<Rightarrow> point" where
  "inward_normal side s =
     (case s of ((n1, e1), (n2, e2)) \<Rightarrow>
        let dn = n2 - n1; de = e2 - e1; len = hypot dn de
        in (- side * de / len, side * dn / len))"

definition shift_edge :: "real \<Rightarrow> real \<Rightarrow> segment \<Rightarrow> py_error + point \<times> point" where
  "shift_edge side margin s =
     (case s of ((n1, e1), (n2, e2)) \<Rightarrow>
        let dn = n2 - n1; de = e2 - e1
        in if hypot dn de \<le> 1 / 10 ^ 9 then Inl (ValueError ''polygon has duplicate adjacent corners'')
           else let inward = inward_normal side s
                in Inr ((n1 + margin * fst inward, e1 + margin * snd inward), (dn, de)))"

definition meet_edges :: "(point \<times> point) \<times> (point \<times> point) \<Rightarrow> py_error + point" where
  "meet_edges es =
     (case es of ((p1, d1), (p2, d2)) \<Rightarrow>
        let det = cross2 d1 d2
        in if \<bar>det\<bar> \<le> 1 / 10 ^ 9 then Inl (ValueError ''polygon has parallel adjacent edges'')
           else let delta = (fst p2 - fst p1, snd p2 - snd p1); t = cross2 delta d2 / det
                in Inr (fst p1 + t * fst d1, snd p1 + t * snd d1))"

definition area2 :: "point list \<Rightarrow> real" where
  "area2 polygon = sum_list (map (\<lambda>(p1, p2). cross2 p1 p2) (edges polygon))"

definition inset_convex_polygon :: "point list \<Rightarrow> real \<Rightarrow> py_error + point list" where
  "inset_convex_polygon polygon margin =
     (if length polygon < 3 then Inl (ValueError ''polygon needs at least three corners'')
      else if margin < 0 then Inl (ValueError ''polygon margin must not be negative'')
      else if margin = 0 then Inr polygon
      else if \<bar>area2 polygon\<bar> \<le> 1 / 10 ^ 9 then Inl (ValueError ''polygon area is too small'')
      else
        let side = (if area2 polygon > 0 then 1 else - 1)
        in bindE (mapE (shift_edge side margin) (edges polygon)) (\<lambda>shifted.
           bindE (mapE meet_edges (zip (last shifted # butlast shifted) shifted)) (\<lambda>result.
             if \<bar>area2 result\<bar> \<le> 1 / 10 ^ 6 then Inl (ValueError ''polygon margin collapses the field'')
             else Inr result)))"

section \<open>Lanes clipped to a polygon\<close>

definition along_axis :: "point \<Rightarrow> point \<Rightarrow> real" where
  "along_axis axis p = fst p * fst axis + snd p * snd axis"

text \<open>The hits of one edge with the line at \<open>offset\<close>.\<close>

definition edge_hits :: "point \<Rightarrow> point \<Rightarrow> real \<Rightarrow> segment \<Rightarrow> real list" where
  "edge_hits fwd right offset s =
     (case s of (p1, p2) \<Rightarrow>
        let a1 = along_axis right p1; a2 = along_axis right p2
        in if \<bar>a2 - a1\<bar> \<le> 1 / 10 ^ 9
           then (if \<bar>offset - a1\<bar> \<le> 1 / 10 ^ 8 then [along_axis fwd p1, along_axis fwd p2] else [])
           else let u = (offset - a1) / (a2 - a1)
                in if - 1 / 10 ^ 9 \<le> u \<and> u \<le> 1 + 1 / 10 ^ 9
                   then [along_axis fwd (segment_point s u)] else [])"

definition clip_lane :: "point \<Rightarrow> point \<Rightarrow> nat \<Rightarrow> real \<Rightarrow> real list \<Rightarrow> lane option" where
  "clip_lane fwd right k offset hits =
     (if length hits < 2 then None
      else let start_s = Min (set hits); end_s = Max (set hits)
           in if end_s - start_s \<le> 1 / 10 ^ 6 then None
              else let (a, b) = (if even k then (start_s, end_s) else (end_s, start_s))
                   in Some \<lparr>lane_index = k,
                            lane_start = (a * fst fwd + offset * fst right, a * snd fwd + offset * snd right),
                            lane_heading = atan2 ((b - a) * snd fwd) ((b - a) * fst fwd),
                            lane_length = \<bar>b - a\<bar>\<rparr>)"

fun lane_loop :: "point \<Rightarrow> point \<Rightarrow> segment list \<Rightarrow> real list \<Rightarrow> lane list \<Rightarrow> lane list" where
  "lane_loop fwd right es [] lanes = lanes"
| "lane_loop fwd right es (offset # offsets) lanes =
     (case clip_lane fwd right (length lanes) offset (concat (map (edge_hits fwd right offset) es)) of
        None \<Rightarrow> lane_loop fwd right es offsets lanes
      | Some l \<Rightarrow> lane_loop fwd right es offsets (lanes @ [l]))"

definition lane_offsets :: "real \<Rightarrow> real \<Rightarrow> real \<Rightarrow> real list" where
  "lane_offsets lo hi spacing =
     (let count = max 2 (nat (\<lceil>(hi - lo) / spacing\<rceil> + 1))
      in map (\<lambda>i. lo + (hi - lo) * of_nat i / (of_nat count - 1)) [0..<count])"

definition polygon_serpentine :: "point list \<Rightarrow> real \<Rightarrow> py_error + lane list" where
  "polygon_serpentine polygon spacing =
     (if length polygon < 3 \<or> spacing \<le> 0
      then Inl (ValueError ''polygon needs at least three corners and positive spacing'')
      else
        let (n0, e0) = polygon ! 0;
            dn = fst (polygon ! 1) - n0; de = snd (polygon ! 1) - e0;
            edge_len = hypot dn de
        in if edge_len \<le> 1 / 10 ^ 6 then Inl (ValueError ''the first two polygon corners must be distinct'')
           else
             let fwd = (dn / edge_len, de / edge_len); right = (- snd fwd, fst fwd);
                 across = map (along_axis right) polygon;
                 lo = Min (set across); hi = Max (set across);
                 lanes = lane_loop fwd right (edges polygon) (lane_offsets lo hi spacing) []
             in if lanes = [] then Inl (ValueError ''polygon produced no survey lanes'') else Inr lanes)"

section \<open>Rotations\<close>

lemma quat_rotate_norm:
  assumes "quat_norm2 q = 1"
  shows "vec_norm2 (quat_rotate q v) = vec_norm2 v"
proof -
  obtain w x y z where q: "q = (w, x, y, z)" by (cases q)
  obtain a b c where v: "v = (a, b, c)" by (cases v)
  have 1: "w * w + x * x + y * y + z * z = 1" using assms by (simp add: quat_norm2_def q)
  then have w: "w * w = 1 - x * x - y * y - z * z" by simp
  show ?thesis unfolding q v quat_rotate_def vec_norm2_def Let_def
    using 1 by (simp, algebra)
qed

lemma quat_rotate_conj:
  assumes "quat_norm2 q = 1"
  shows "quat_rotate (quat_conj q) (quat_rotate q v) = v"
proof -
  obtain w x y z where q: "q = (w, x, y, z)" by (cases q)
  obtain a b c where v: "v = (a, b, c)" by (cases v)
  have 1: "w * w + x * x + y * y + z * z = 1" using assms by (simp add: quat_norm2_def q)
  show ?thesis unfolding q v quat_rotate_def quat_conj_def Let_def
    using 1 by (simp, intro conjI; algebra)
qed

lemma yaw_roundtrip_norm: "quat_norm2 (quat_from_yaw yaw) = 1"
  by (simp add: quat_norm2_def quat_from_yaw_def Let_def flip: power2_eq_square)

section \<open>Distance to the boundary\<close>

lemma hypot_mono: "x * x + y * y \<le> a * a + b * b \<Longrightarrow> hypot x y \<le> hypot a b"
  by (simp add: hypot_def)

lemma clamp_minimises:
  fixes wd D u :: real
  assumes "0 < D" "0 \<le> u" "u \<le> 1"
  defines "v \<equiv> max 0 (min 1 (wd / D))"
  shows "v * v * D - 2 * v * wd \<le> u * u * D - 2 * u * wd"
proof -
  have diff: "u * u * D - 2 * u * wd - (v * v * D - 2 * v * wd) = (u - v) * ((u + v) * D - 2 * wd)"
    by (simp add: algebra_simps)
  consider "wd \<le> 0" | "D \<le> wd" | "0 < wd" "wd < D" by linarith
  then have "0 \<le> (u - v) * ((u + v) * D - 2 * wd)"
  proof cases
    case 1
    then have "wd / D \<le> 0" using assms(1) by (simp add: divide_le_0_iff)
    then have "v = 0" unfolding v_def by linarith
    moreover have "0 \<le> u * D" using assms by simp
    then have "0 \<le> u * D - 2 * wd" using 1 by linarith
    then have "0 \<le> u * (u * D - 2 * wd)" using assms(2) by simp
    ultimately show ?thesis by simp
  next
    case 2
    then have v: "v = 1" using assms(1) by (simp add: v_def)
    have "(u + 1) * D \<le> 2 * D" using assms by (intro mult_right_mono) auto
    then have "(u + 1) * D - 2 * wd \<le> 0" using 2 by linarith
    then show ?thesis unfolding v using assms(3) by (intro mult_nonpos_nonpos) simp_all
  next
    case 3
    then have "v = wd / D" using assms(1) by (simp add: v_def)
    then have "wd = v * D" using assms(1) by simp
    then have "(u - v) * ((u + v) * D - 2 * wd) = (u - v) * (u - v) * D" by (simp add: algebra_simps)
    moreover have "0 \<le> (u - v) * (u - v)" by simp
    then have "0 \<le> (u - v) * (u - v) * D" using assms(1) by (rule mult_nonneg_nonneg [OF _ less_imp_le])
    ultimately show ?thesis by linarith
  qed
  with diff show ?thesis by linarith
qed

lemma segment_param_range: "0 \<le> segment_param p s" "segment_param p s \<le> 1"
  by (cases s; simp add: segment_param_def Let_def split: prod.splits)+

lemma segment_param_nearest:
  assumes "0 \<le> u" "u \<le> 1"
  shows "dist2 p (segment_point s (segment_param p s)) \<le> dist2 p (segment_point s u)"
proof -
  obtain n1 e1 n2 e2 where s: "s = ((n1, e1), (n2, e2))" by (cases s) (metis prod.collapse)
  obtain n e where p: "p = (n, e)" by (cases p)
  define dn de where d: "dn = n2 - n1" "de = e2 - e1"
  define D where "D = dn * dn + de * de"
  define wd where "wd = (n - n1) * dn + (e - e1) * de"
  have sq: "(n - (n1 + v * dn)) * (n - (n1 + v * dn)) + (e - (e1 + v * de)) * (e - (e1 + v * de))
      = (n - n1) * (n - n1) + (e - e1) * (e - e1) + (v * v * D - 2 * v * wd)" for v
    by (simp add: D_def wd_def algebra_simps)
  show ?thesis
  proof (cases "D = 0")
    case True
    then have "dn = 0" "de = 0" by (simp_all add: D_def sum_squares_eq_zero_iff)
    then show ?thesis by (simp add: s p segment_point_def dist2_def flip: d)
  next
    case False
    then have "0 < D" by (simp add: D_def sum_squares_gt_zero_iff)
    moreover have "segment_param p s = max 0 (min 1 (wd / D))"
      using False by (simp add: s p segment_param_def Let_def d D_def wd_def)
    ultimately show ?thesis
      using clamp_minimises [of D u wd] assms
      by (simp add: s p segment_point_def dist2_def flip: d) (intro hypot_mono, simp add: sq)
  qed
qed

lemma distance_loop_Some: "distance_loop p es (Some b) \<noteq> None"
  by (induction es arbitrary: b) (simp_all add: Let_def)

lemma distance_loop_least:
  assumes "distance_loop p es best = Some d"
  shows "(\<forall>s \<in> set es. d \<le> dist2 p (segment_point s (segment_param p s))) \<and> (\<forall>b. best = Some b \<longrightarrow> d \<le> b)
    \<and> (best = Some d \<or> (\<exists>s \<in> set es. d = dist2 p (segment_point s (segment_param p s))))"
  using assms
proof (induction es arbitrary: best)
  case (Cons s es)
  let ?d = "dist2 p (segment_point s (segment_param p s))"
  let ?best = "Some (case best of None \<Rightarrow> ?d | Some b \<Rightarrow> min b ?d)"
  have "distance_loop p es ?best = Some d" using Cons.prems by (simp add: Let_def)
  note ih = Cons.IH [OF this]
  then show ?case
    by (cases best) (auto simp: min_def split: if_splits)
qed simp

text \<open>
  The fence distance is exact. For every polygon with a corner it is attained at a point of
  some edge, and no point of any edge is nearer.
\<close>

theorem distance_to_polygon_exact:
  assumes "polygon \<noteq> []"
  shows "\<exists>d. distance_to_polygon p polygon = Some d
    \<and> (\<exists>s \<in> set (edges polygon). \<exists>u. 0 \<le> u \<and> u \<le> 1 \<and> d = dist2 p (segment_point s u))
    \<and> (\<forall>s \<in> set (edges polygon). \<forall>u. 0 \<le> u \<longrightarrow> u \<le> 1 \<longrightarrow> d \<le> dist2 p (segment_point s u))"
proof -
  obtain s0 rest where es: "edges polygon = s0 # rest"
    using assms by (cases "edges polygon") (auto simp: edges_def)
  then obtain d where d: "distance_to_polygon p polygon = Some d"
    using distance_loop_Some [of p rest] by (auto simp: distance_to_polygon_def Let_def)
  have least: "\<forall>s \<in> set (edges polygon). d \<le> dist2 p (segment_point s (segment_param p s))"
    "\<exists>s \<in> set (edges polygon). d = dist2 p (segment_point s (segment_param p s))"
    using distance_loop_least [OF d [unfolded distance_to_polygon_def]] by auto
  show ?thesis
    using d least segment_param_range segment_param_nearest [of _ p] by (meson order_trans)
qed

theorem distance_to_polygon_exact_witness:
  "\<exists>d. distance_to_polygon (0, - 2) [(0, 0), (0, 4), (3, 0)] = Some d
     \<and> (\<forall>s \<in> set (edges [(0, 0), (0, 4), (3, 0)]). \<forall>u. 0 \<le> u \<longrightarrow> u \<le> 1 \<longrightarrow> d \<le> dist2 (0, - 2) (segment_point s u))"
  using distance_to_polygon_exact [of "[(0, 0), (0, 4), (3, 0)]" "(0, - 2)"] by blast

section \<open>The inset polygon\<close>

text \<open>Signed distance of a point inward from the line of an edge.\<close>

definition inward_distance :: "real \<Rightarrow> segment \<Rightarrow> point \<Rightarrow> real" where
  "inward_distance side s v =
     fst (inward_normal side s) * (fst v - fst (fst s)) + snd (inward_normal side s) * (snd v - snd (fst s))"

lemma shifted_line_distance:
  assumes "shift_edge side margin s = Inr (q, d)" "side = 1 \<or> side = - 1"
    and "cross2 (fst v - fst q, snd v - snd q) d = 0"
  shows "inward_distance side s v = margin"
proof -
  obtain n1 e1 n2 e2 where s: "s = ((n1, e1), (n2, e2))" by (cases s) (metis prod.collapse)
  define dn de where d_def: "dn = n2 - n1" "de = e2 - e1"
  define len where "len = hypot dn de"
  have ok: "\<not> len \<le> 1 / 10 ^ 9" and d: "d = (dn, de)"
    and q: "q = (n1 - margin * side * de / len, e1 + margin * side * dn / len)"
    using assms(1) by (auto simp: s shift_edge_def inward_normal_def Let_def len_def d_def split: if_splits)
  have pos: "0 < len"
  proof -
    have "(0::real) < 1 / 10 ^ 9" by simp
    with ok show ?thesis by linarith
  qed
  have len2: "dn * dn + de * de = len * len"
    by (simp add: len_def hypot_def flip: power2_eq_square)
  have side2: "side * side = 1" using assms(2) by auto
  define a where "a = fst v - n1"
  define b where "b = snd v - e1"
  have "(a + margin * side * de / len) * de - (b - margin * side * dn / len) * dn = 0"
    using assms(3) by (simp add: cross2_def q d a_def b_def algebra_simps)
  then have "a * de - b * dn + margin * side * (dn * dn + de * de) / len = 0"
    by (simp add: algebra_simps add_divide_distrib diff_divide_distrib)
  then have "b * dn - a * de = margin * side * len"
    using pos by (simp add: len2)
  moreover have "inward_distance side s v = side * (b * dn - a * de) / len"
  proof -
    have "inward_distance side s v = (- side * de / len) * a + (side * dn / len) * b"
      by (simp add: inward_distance_def inward_normal_def s Let_def a_def b_def d_def len_def)
    then show ?thesis by (simp add: algebra_simps diff_divide_distrib)
  qed
  ultimately have "inward_distance side s v = margin * (side * side) * len / len" by (simp add: mult_ac)
  then show ?thesis using pos side2 by simp
qed

lemma meet_edges_on_lines:
  assumes "meet_edges ((p1, d1), (p2, d2)) = Inr v"
  shows "cross2 (fst v - fst p1, snd v - snd p1) d1 = 0" "cross2 (fst v - fst p2, snd v - snd p2) d2 = 0"
proof -
  define det where "det = cross2 d1 d2"
  define t where "t = cross2 (fst p2 - fst p1, snd p2 - snd p1) d2 / det"
  have v: "v = (fst p1 + t * fst d1, snd p1 + t * snd d1)" and "\<not> \<bar>det\<bar> \<le> 1 / 10 ^ 9"
    using assms by (auto simp: meet_edges_def Let_def det_def t_def split: if_splits)
  moreover have "(0::real) < 1 / 10 ^ 9" by simp
  ultimately have "det \<noteq> 0" by linarith
  then have "t * det = cross2 (fst p2 - fst p1, snd p2 - snd p1) d2" by (simp add: t_def)
  then show "cross2 (fst v - fst p1, snd v - snd p1) d1 = 0" "cross2 (fst v - fst p2, snd v - snd p2) d2 = 0"
    by (simp_all add: v cross2_def det_def algebra_simps)
qed

lemma length_edges [simp]: "length (edges polygon) = length polygon"
  by (simp add: edges_def)

text \<open>
  The safety margin of the field is exact. Every corner of the inset polygon lies at the
  margin, measured inward, from the line of the original edge after the corner and from the line of
  the edge before it.
\<close>

theorem inset_corner_margin:
  assumes inset: "inset_convex_polygon polygon margin = Inr result" and "0 < margin"
    and i: "i < length polygon"
  defines "side \<equiv> (if area2 polygon > 0 then 1 else - 1)"
    and "before \<equiv> (if i = 0 then length polygon - 1 else i - 1)"
  shows "length result = length polygon
    \<and> inward_distance side (edges polygon ! i) (result ! i) = margin
    \<and> inward_distance side (edges polygon ! before) (result ! i) = margin"
proof -
  obtain shifted where sh: "mapE (shift_edge side margin) (edges polygon) = Inr shifted"
    and res: "mapE meet_edges (zip (last shifted # butlast shifted) shifted) = Inr result"
    using inset assms(2) by (auto simp: inset_convex_polygon_def side_def [symmetric] Let_def split: if_splits)
  have ls: "length shifted = length polygon"
    and si: "\<And>k. k < length polygon \<Longrightarrow> shift_edge side margin (edges polygon ! k) = Inr (shifted ! k)"
    using mapE_Inr_nth [OF sh] by auto
  have ne: "shifted \<noteq> []" using ls i by auto
  have lr: "length result = length polygon"
    and ri: "meet_edges (zip (last shifted # butlast shifted) shifted ! i) = Inr (result ! i)"
    using mapE_Inr_nth [OF res] ls i ne by auto
  have "(last shifted # butlast shifted) ! i = shifted ! before"
    using i ls ne by (cases i) (simp_all add: before_def last_conv_nth nth_butlast)
  moreover have "length (last shifted # butlast shifted) = length polygon"
    using ls ne i by (cases shifted) auto
  ultimately have ri: "meet_edges (shifted ! before, shifted ! i) = Inr (result ! i)"
    using ri i ls by (simp add: nth_zip)
  obtain p1 d1 p2 d2 where pd: "shifted ! before = (p1, d1)" "shifted ! i = (p2, d2)"
    by (cases "shifted ! before"; cases "shifted ! i")
  have b: "before < length polygon" using i by (auto simp: before_def)
  have side: "side = 1 \<or> side = - 1" by (simp add: side_def)
  show ?thesis
    using lr meet_edges_on_lines [OF ri [unfolded pd]]
      shifted_line_distance [OF _ side] si [OF i] si [OF b] pd by simp
qed

theorem inset_corner_margin_witness:
  "\<exists>result. inset_convex_polygon [(0, 0), (0, 4), (4, 4), (4, 0)] 1 = Inr result
     \<and> inward_distance (- 1) (edges [(0, 0), (0, 4), (4, 4), (4, 0)] ! 0) (result ! 0) = 1"
proof -
  let ?sq = "[(0, 0), (0, 4), (4, 4), (4::real, 0::real)]"
  have area: "area2 ?sq = - 32" by (simp add: area2_def edges_def cross2_def)
  have r: "inset_convex_polygon ?sq 1 = Inr [(1, 1), (1, 3), (3, 3), (3, 1)]"
    by (simp add: inset_convex_polygon_def area)
      (simp add: edges_def shift_edge_def inward_normal_def meet_edges_def cross2_def area2_def Let_def)
  from inset_corner_margin [OF this, of 0] show ?thesis
    using r by (simp add: area)
qed

section \<open>Survey lanes\<close>

lemma point_at_0 [simp]: "point_at l 0 = lane_start l"
  by (simp add: point_at_def)

text \<open>Consecutive lanes adjoin: the end of one is the lane spacing away from the start of the next.\<close>

lemma serpentine_adjoins:
  assumes "0 < spacing"
  shows "dist2 (point_at (serpentine_lane origin len spacing heading i) len)
           (lane_start (serpentine_lane origin len spacing heading (Suc i))) = spacing"
proof -
  have "hypot (sin heading) (cos heading) = 1" by (simp add: hypot_def flip: power2_eq_square)
  then have "hypot (spacing * sin heading) (spacing * cos heading) = spacing"
    using assms by (simp add: hypot_scale)
  moreover have "hypot (- x) y = hypot x y" "hypot x (- y) = hypot x y" for x y by (simp_all add: hypot_def)
  ultimately show ?thesis
    by (cases "even i") (simp_all add: serpentine_lane_def dist2_def point_at_def Let_def algebra_simps)
qed

definition near_boundary :: "point list \<Rightarrow> point \<Rightarrow> bool" where
  "near_boundary polygon p \<longleftrightarrow>
     (\<exists>s \<in> set (edges polygon). \<exists>u. - 1 / 10 ^ 9 \<le> u \<and> u \<le> 1 + 1 / 10 ^ 9
        \<and> dist2 p (segment_point s u) \<le> 2 / 10 ^ 8)"

definition unit2 :: "point \<Rightarrow> bool" where
  "unit2 v \<longleftrightarrow> fst v * fst v + snd v * snd v = 1"

lemma axes_recover:
  assumes "unit2 f"
  shows "(along_axis f p * fst f + along_axis (- snd f, fst f) p * fst (- snd f, fst f),
          along_axis f p * snd f + along_axis (- snd f, fst f) p * snd (- snd f, fst f)) = p"
proof -
  obtain a b where p: "p = (a, b)" by (cases p)
  obtain x y where f: "f = (x, y)" by (cases f)
  have 1: "x * x + y * y = 1" using assms by (simp add: unit2_def f)
  show ?thesis unfolding p f along_axis_def using 1 by (simp, intro conjI; algebra)
qed

lemma edge_hit_near_boundary:
  assumes f: "unit2 f" and "s \<in> set (edges polygon)"
    and hit: "h \<in> set (edge_hits f (- snd f, fst f) offset s)"
  shows "near_boundary polygon (h * fst f + offset * - snd f, h * snd f + offset * fst f)"
proof -
  let ?r = "(- snd f, fst f)"
  obtain p1 p2 where s: "s = (p1, p2)" by (cases s)
  have corner: "near_boundary polygon (along_axis f q * fst f + offset * - snd f, along_axis f q * snd f + offset * fst f)"
    if "\<bar>offset - along_axis ?r q\<bar> \<le> 2 / 10 ^ 8" "q = segment_point s u" "u = 0 \<or> u = 1" for q u
  proof -
    define a where "a = along_axis f q"
    define b where "b = along_axis ?r q"
    have q: "fst q = a * fst f + b * - snd f" "snd q = a * snd f + b * fst f"
      using axes_recover [OF f, of q] by (simp_all add: a_def b_def prod_eq_iff)
    have "dist2 (a * fst f + offset * - snd f, a * snd f + offset * fst f) q
        = hypot ((offset - b) * - snd f) ((offset - b) * fst f)"
      by (simp add: dist2_def q algebra_simps)
    also have "\<dots> = \<bar>offset - b\<bar> * hypot (- snd f) (fst f)" by (rule hypot_scale)
    also have "hypot (- snd f) (fst f) = 1" using f by (simp add: hypot_def unit2_def add.commute)
    finally have "dist2 (a * fst f + offset * - snd f, a * snd f + offset * fst f) q \<le> 2 / 10 ^ 8"
      using that(1) by (simp add: b_def)
    then show ?thesis
      using that(2,3) assms(2) unfolding near_boundary_def a_def by (intro bexI [of _ s] exI [of _ u]) auto
  qed
  show ?thesis
  proof (cases "\<bar>along_axis ?r p2 - along_axis ?r p1\<bar> \<le> 1 / 10 ^ 9")
    case True
    then have off: "\<bar>offset - along_axis ?r p1\<bar> \<le> 1 / 10 ^ 8" and h: "h = along_axis f p1 \<or> h = along_axis f p2"
      using hit by (auto simp: s edge_hits_def Let_def split: if_splits)
    have "(1 :: real) / 10 ^ 8 + 1 / 10 ^ 9 \<le> 2 / 10 ^ 8" "(1 :: real) / 10 ^ 8 \<le> 2 / 10 ^ 8" by simp_all
    then have "\<bar>offset - along_axis ?r p2\<bar> \<le> 2 / 10 ^ 8" "\<bar>offset - along_axis ?r p1\<bar> \<le> 2 / 10 ^ 8"
      using off True by linarith+
    moreover have "p1 = segment_point s 0" "p2 = segment_point s 1"
      by (simp_all add: s segment_point_def split: prod.splits)
    ultimately show ?thesis using h corner by blast
  next
    case False
    define u where "u = (offset - along_axis ?r p1) / (along_axis ?r p2 - along_axis ?r p1)"
    have h: "h = along_axis f (segment_point s u)" and u: "- 1 / 10 ^ 9 \<le> u" "u \<le> 1 + 1 / 10 ^ 9"
      using hit False by (auto simp: s edge_hits_def Let_def u_def split: if_splits)
    have ne: "along_axis ?r p2 - along_axis ?r p1 \<noteq> 0" using False by auto
    have "along_axis ?r (segment_point s u) = along_axis ?r p1 + u * (along_axis ?r p2 - along_axis ?r p1)"
      by (simp add: s segment_point_def along_axis_def algebra_simps split: prod.splits)
    also have "\<dots> = offset" using ne by (simp add: u_def)
    finally have "(h * fst f + offset * - snd f, h * snd f + offset * fst f) = segment_point s u"
      using axes_recover [OF f, of "segment_point s u"] by (simp add: h)
    then show ?thesis
      using u assms(2) unfolding near_boundary_def by (intro bexI [of _ s] exI [of _ u]) (auto simp: dist2_def)
  qed
qed

lemma clip_lane_facts:
  assumes f: "unit2 f" and clip: "clip_lane f (- snd f, fst f) k offset hits = Some l"
  obtains a b where "a \<in> set hits" "b \<in> set hits" "1 / 10 ^ 6 < lane_length l" "lane_index l = k"
    "lane_start l = (a * fst f + offset * - snd f, a * snd f + offset * fst f)"
    "point_at l (lane_length l) = (b * fst f + offset * - snd f, b * snd f + offset * fst f)"
proof -
  let ?lo = "Min (set hits)" and ?hi = "Max (set hits)"
  define a where "a = (if even k then ?lo else ?hi)"
  define b where "b = (if even k then ?hi else ?lo)"
  have two: "\<not> length hits < 2" and long: "\<not> ?hi - ?lo \<le> 1 / 10 ^ 6"
    and l: "l = \<lparr>lane_index = k, lane_start = (a * fst f + offset * - snd f, a * snd f + offset * fst f),
        lane_heading = atan2 ((b - a) * snd f) ((b - a) * fst f), lane_length = \<bar>b - a\<bar>\<rparr>"
    using clip by (auto simp: clip_lane_def Let_def a_def b_def split: if_splits)
  have "set hits \<noteq> {}" using two by auto
  then have mem: "a \<in> set hits" "b \<in> set hits" by (auto simp: a_def b_def intro: Min_in Max_in)
  have len: "1 / 10 ^ 6 < \<bar>b - a\<bar>" using long by (auto simp: a_def b_def)
  moreover have "(0 :: real) < 1 / 10 ^ 6" by simp
  ultimately have ne: "b - a \<noteq> 0" by linarith
  have "hypot (fst f) (snd f) = 1" using f by (simp add: hypot_def unit2_def)
  then have h: "hypot ((b - a) * fst f) ((b - a) * snd f) = \<bar>b - a\<bar>" by (simp add: hypot_scale)
  have "fst f \<noteq> 0 \<or> snd f \<noteq> 0" using f by (auto simp: unit2_def)
  then have "(b - a) * fst f \<noteq> 0 \<or> (b - a) * snd f \<noteq> 0" using ne by simp
  note cs = atan2_cos_sin [OF this, unfolded h]
  have "point_at l (lane_length l) = (b * fst f + offset * - snd f, b * snd f + offset * fst f)"
    by (simp only: l point_at_def lane.simps fst_conv snd_conv cs) (simp add: algebra_simps)
  then show thesis using that [OF mem] len by (simp add: l)
qed

definition field_lane :: "point list \<Rightarrow> nat \<Rightarrow> lane \<Rightarrow> bool" where
  "field_lane polygon k l \<longleftrightarrow> lane_index l = k \<and> 1 / 10 ^ 6 < lane_length l
     \<and> near_boundary polygon (lane_start l) \<and> near_boundary polygon (point_at l (lane_length l))"

lemma lane_loop_field_lanes:
  assumes "unit2 f" "\<forall>k < length lanes. field_lane polygon k (lanes ! k)"
  shows "\<forall>k < length (lane_loop f (- snd f, fst f) (edges polygon) offsets lanes).
     field_lane polygon k (lane_loop f (- snd f, fst f) (edges polygon) offsets lanes ! k)"
  using assms(2)
proof (induction offsets arbitrary: lanes)
  case (Cons offset offsets)
  let ?hits = "concat (map (edge_hits f (- snd f, fst f) offset) (edges polygon))"
  show ?case
  proof (cases "clip_lane f (- snd f, fst f) (length lanes) offset ?hits")
    case None
    then show ?thesis using Cons by simp
  next
    case (Some l)
    obtain a b where "a \<in> set ?hits" "b \<in> set ?hits" "1 / 10 ^ 6 < lane_length l" "lane_index l = length lanes"
      "lane_start l = (a * fst f + offset * - snd f, a * snd f + offset * fst f)"
      "point_at l (lane_length l) = (b * fst f + offset * - snd f, b * snd f + offset * fst f)"
      using clip_lane_facts [OF assms(1) Some] .
    then have "field_lane polygon (length lanes) l"
      using edge_hit_near_boundary [OF assms(1)] by (auto simp: field_lane_def)
    then have "\<forall>k < length (lanes @ [l]). field_lane polygon k ((lanes @ [l]) ! k)"
      using Cons.prems by (auto simp: nth_append less_Suc_eq)
    then show ?thesis using Cons.IH [of "lanes @ [l]"] Some by simp
  qed
qed simp

lemma polygon_field_lanes:
  assumes "polygon_serpentine polygon spacing = Inr lanes"
  shows "lanes \<noteq> [] \<and> (\<forall>k < length lanes. field_lane polygon k (lanes ! k))"
proof -
  obtain n0 e0 where p0: "polygon ! 0 = (n0, e0)" by (cases "polygon ! 0")
  define dn where "dn = fst (polygon ! 1) - n0"
  define de where "de = snd (polygon ! 1) - e0"
  define f where "f = (dn / hypot dn de, de / hypot dn de)"
  have long: "\<not> hypot dn de \<le> 1 / 10 ^ 6" and ne: "lanes \<noteq> []"
    and lanes: "\<exists>offsets. lanes = lane_loop f (- snd f, fst f) (edges polygon) offsets []"
    using assms by (auto simp: polygon_serpentine_def p0 Let_def dn_def de_def f_def split: if_splits)
  have pos: "0 < hypot dn de" using long by (smt (verit) zero_less_divide_1_iff zero_less_power)
  have "hypot dn de * hypot dn de = dn * dn + de * de" by (simp add: hypot_def)
  then have "(dn * dn + de * de) / (hypot dn de * hypot dn de) = 1"
    using pos by (metis divide_self_if less_irrefl mult_eq_0_iff)
  then have "unit2 f" by (simp add: unit2_def f_def add_divide_distrib)
  then show ?thesis using lane_loop_field_lanes [of f "[]" polygon] lanes ne by auto
qed

lemma field_lane_pos: "field_lane polygon k l \<Longrightarrow> lane_index l = k \<and> 0 < lane_length l"
proof -
  assume "field_lane polygon k l"
  moreover have "(0 :: real) < 1 / 10 ^ 6" by simp
  ultimately show ?thesis unfolding field_lane_def by (meson less_trans)
qed

text \<open>
  Whenever a field polygon yields survey lanes, there is at least one, they are numbered in
  order, each is longer than a micrometre, and each starts and ends on the boundary of the field
  (within 20 nanometres of an edge taken with the code's tolerance on its ends).
\<close>

theorem polygon_lanes_span_field:
  assumes "polygon_serpentine polygon spacing = Inr lanes"
  shows "lanes \<noteq> [] \<and> (\<forall>k < length lanes. field_lane polygon k (lanes ! k))"
  by (rule polygon_field_lanes [OF assms])

theorem polygon_lanes_span_field_witness:
  "\<exists>lanes. polygon_serpentine [(0, 0), (4, 0), (4, 4), (0, 4)] 4 = Inr lanes \<and> length lanes = 2
     \<and> field_lane [(0, 0), (4, 0), (4, 4), (0, 4)] 0 (lanes ! 0)"
proof -
  have "\<exists>lanes. polygon_serpentine [(0, 0), (4, 0), (4, 4), (0, 4)] 4 = Inr lanes \<and> length lanes = 2"
  proof -
    have offsets: "lane_offsets 0 4 4 = [0, 4]" by (simp add: lane_offsets_def upt_rec)
    have edges: "edges [(0, 0), (4, 0), (4, 4), (0, 4)]
        = [((0, 0), (4, 0)), ((4, 0), (4, 4)), ((4, 4), (0, 4)), ((0, 4), (0 :: real, 0 :: real))]"
      by (simp add: edges_def)
    have hits: "concat (map (edge_hits (1, 0) (0, 1) 0) (edges [(0, 0), (4, 0), (4, 4), (0, 4)])) = [0, 4, 4, 0]"
      "concat (map (edge_hits (1, 0) (0, 1) 4) (edges [(0, 0), (4, 0), (4, 4), (0, 4)])) = [4, 4, 0, 0]"
      by (simp_all add: edges edge_hits_def along_axis_def segment_point_def Let_def)
    have clip: "\<exists>l. clip_lane (1, 0) (0, 1) k offset hits = Some l"
      if "hits = [0, 4, 4, 0] \<or> hits = [4, 4, 0, 0]" for k offset hits
      using that by (auto simp: clip_lane_def Let_def)
    obtain l0 where l0: "clip_lane (1, 0) (0, 1) 0 0 [0, 4, 4, 0] = Some l0" using clip by blast
    obtain l1 where l1: "clip_lane (1, 0) (0, 1) 1 4 [4, 4, 0, 0] = Some l1" using clip by blast
    have "polygon_serpentine [(0, 0), (4, 0), (4, 4), (0, 4)] 4 = Inr [l0, l1]"
      by (simp add: polygon_serpentine_def Let_def along_axis_def offsets hits l0 l1 [simplified] del: concat.simps list.map)
    then show ?thesis by simp
  qed
  then obtain lanes where "polygon_serpentine [(0, 0), (4, 0), (4, 4), (0, 4)] 4 = Inr lanes" "length lanes = 2"
    by blast
  with polygon_lanes_span_field [OF this(1)] show ?thesis by auto
qed

end
