(* ===== verification/Minelog.thy ===== *)
theory Minelog
  imports Geometry
begin

text \<open>
  The in-memory mine log (\<open>mission_engine/core/minelog.py\<close>): gated nearest-cluster ingest with
  incremental weighted statistics, the status ladder, passes, and the queue of dip targets. A
  \<open>Cluster\<close> object is its position in the log, which never removes or reorders clusters.
\<close>

section \<open>Data\<close>

datatype mine_status = CANDIDATE | CONFIRMED | DIPPED | VERIFIED

fun status_rank :: "mine_status \<Rightarrow> nat" where
  "status_rank CANDIDATE = 0"
| "status_rank CONFIRMED = 1"
| "status_rank DIPPED = 2"
| "status_rank VERIFIED = 3"

lemma status_rank_inject [simp]: "status_rank a = status_rank b \<longleftrightarrow> a = b"
  by (cases a; cases b) simp_all

text \<open>The status ladder, as the library's order.\<close>

instantiation mine_status :: linorder
begin

definition less_eq_mine_status :: "mine_status \<Rightarrow> mine_status \<Rightarrow> bool" where
  "less_eq_mine_status a b \<longleftrightarrow> status_rank a \<le> status_rank b"

definition less_mine_status :: "mine_status \<Rightarrow> mine_status \<Rightarrow> bool" where
  "less_mine_status a b \<longleftrightarrow> status_rank a < status_rank b"

instance
  by standard (auto simp: less_eq_mine_status_def less_mine_status_def)

end

lemma ladder_simps [simp]:
  "CANDIDATE \<le> s" "s \<le> VERIFIED" "CONFIRMED \<le> DIPPED" "\<not> VERIFIED \<le> DIPPED" "\<not> DIPPED \<le> CONFIRMED"
  by (cases s; simp add: less_eq_mine_status_def)+

record observation =
  obs_t :: real
  ground_local :: point
  conf :: real
  class_id :: string
  obs_ll :: "point option"
  tag_id :: "string option"

record cluster =
  cluster_id :: nat
  centroid :: point
  weight :: real
  n_obs :: nat
  n_passes :: nat
  first_seen :: real
  last_seen :: real
  status :: mine_status
  tag_ids :: "string list"
  ll_per_pass :: "point list"
  sq_dev_sum :: real
  pass_ll_sum :: point
  pass_ll_n :: nat

definition spread_m :: "cluster \<Rightarrow> real" where
  "spread_m c = (if weight c \<le> 0 then 0 else sqrt (sq_dev_sum c / weight c))"

definition cluster_ll :: "cluster \<Rightarrow> point option" where
  "cluster_ll c =
     (if ll_per_pass c = [] then None
      else let n = of_nat (length (ll_per_pass c))
           in Some (sum_list (map fst (ll_per_pass c)) / n, sum_list (map snd (ll_per_pass c)) / n))"

record mine_log =
  gate_m :: real
  pass_gap_s :: real
  confirm_obs :: int
  confirm_passes :: int
  clusters :: "cluster list"
  n_ingested :: nat

definition new_log :: "real \<Rightarrow> real \<Rightarrow> int \<Rightarrow> int \<Rightarrow> mine_log" where
  "new_log gate gap obs passes =
     \<lparr>gate_m = gate, pass_gap_s = gap, confirm_obs = obs, confirm_passes = passes,
      clusters = [], n_ingested = 0\<rparr>"

section \<open>Operations\<close>

text \<open>\<open>_nearest\<close>: the first cluster at the least distance.\<close>

fun nearest_loop :: "point \<Rightarrow> cluster list \<Rightarrow> nat \<Rightarrow> (nat \<times> real) option \<Rightarrow> (nat \<times> real) option" where
  "nearest_loop p [] i best = best"
| "nearest_loop p (c # cs) i best =
     (let d = dist2 p (centroid c)
      in nearest_loop p cs (Suc i)
           (case best of None \<Rightarrow> Some (i, d) | Some (j, b) \<Rightarrow> if d < b then Some (i, d) else Some (j, b)))"

definition nearest_cluster :: "point \<Rightarrow> mine_log \<Rightarrow> (nat \<times> real) option" where
  "nearest_cluster p l = nearest_loop p (clusters l) 0 None"

definition close_pass :: "cluster \<Rightarrow> cluster" where
  "close_pass c =
     (let c1 = (if pass_ll_n c > 0
                then c\<lparr>ll_per_pass := ll_per_pass c
                        @ [(fst (pass_ll_sum c) / of_nat (pass_ll_n c), snd (pass_ll_sum c) / of_nat (pass_ll_n c))]\<rparr>
                else c)
      in c1\<lparr>pass_ll_sum := (0, 0), pass_ll_n := 0\<rparr>)"

definition found_cluster :: "nat \<Rightarrow> observation \<Rightarrow> cluster" where
  "found_cluster k obs =
     \<lparr>cluster_id = k, centroid = ground_local obs, weight = 0, n_obs = 0, n_passes = 1,
      first_seen = obs_t obs, last_seen = obs_t obs, status = CANDIDATE, tag_ids = [],
      ll_per_pass = [], sq_dev_sum = 0, pass_ll_sum = (0, 0), pass_ll_n = 0\<rparr>"

definition obs_weight :: "observation \<Rightarrow> real" where
  "obs_weight obs = max (conf obs) (1 / 10 ^ 6)"

definition add_statistics :: "observation \<Rightarrow> cluster \<Rightarrow> cluster" where
  "add_statistics obs c =
     (let w = obs_weight obs; new_w = weight c + w;
          dn = fst (ground_local obs) - fst (centroid c);
          de = snd (ground_local obs) - snd (centroid c)
      in c\<lparr>centroid := (fst (centroid c) + dn * w / new_w, snd (centroid c) + de * w / new_w),
           sq_dev_sum := sq_dev_sum c + w * (dn * dn + de * de) * (weight c / new_w),
           weight := new_w, n_obs := n_obs c + 1, last_seen := obs_t obs\<rparr>)"

definition add_fix :: "observation \<Rightarrow> cluster \<Rightarrow> cluster" where
  "add_fix obs c =
     (case obs_ll obs of
        None \<Rightarrow> c
      | Some p \<Rightarrow> c\<lparr>pass_ll_sum := (fst (pass_ll_sum c) + fst p, snd (pass_ll_sum c) + snd p),
                    pass_ll_n := pass_ll_n c + 1\<rparr>)"

definition climb_ladder :: "int \<Rightarrow> int \<Rightarrow> observation \<Rightarrow> cluster \<Rightarrow> cluster" where
  "climb_ladder need_obs need_passes obs c =
     (case tag_id obs of
        Some tag \<Rightarrow>
          (if tag \<in> set (tag_ids c) then c else c\<lparr>tag_ids := tag_ids c @ [tag]\<rparr>)\<lparr>status := VERIFIED\<rparr>
      | None \<Rightarrow>
          if status c = CANDIDATE \<and> int (n_obs c) \<ge> need_obs \<and> int (n_passes c) \<ge> need_passes
          then c\<lparr>status := CONFIRMED\<rparr> else c)"

text \<open>\<open>ingest\<close>, returning the index of the cluster the observation went to.\<close>

definition ingest :: "observation \<Rightarrow> mine_log \<Rightarrow> nat \<times> mine_log" where
  "ingest obs l =
     (let (k, cs) =
        (case nearest_cluster (ground_local obs) l of
           None \<Rightarrow> (length (clusters l), clusters l @ [found_cluster (length (clusters l)) obs])
         | Some (i, d) \<Rightarrow>
             if d > gate_m l
             then (length (clusters l), clusters l @ [found_cluster (length (clusters l)) obs])
             else if obs_t obs - last_seen (clusters l ! i) > pass_gap_s l
             then (i, (clusters l)[i := (close_pass (clusters l ! i))\<lparr>n_passes := n_passes (clusters l ! i) + 1\<rparr>])
             else (i, clusters l));
        c = climb_ladder (confirm_obs l) (confirm_passes l) obs (add_fix obs (add_statistics obs (cs ! k)))
      in (k, l\<lparr>n_ingested := n_ingested l + 1, clusters := cs[k := c]\<rparr>))"

definition finalize :: "mine_log \<Rightarrow> mine_log" where
  "finalize l = l\<lparr>clusters := map close_pass (clusters l)\<rparr>"

fun first_confirmed :: "nat \<Rightarrow> cluster list \<Rightarrow> nat option" where
  "first_confirmed i [] = None"
| "first_confirmed i (c # cs) = (if status c = CONFIRMED then Some i else first_confirmed (Suc i) cs)"

definition next_dip_target :: "mine_log \<Rightarrow> nat option" where
  "next_dip_target l = first_confirmed 0 (clusters l)"

fun ingest_all :: "observation list \<Rightarrow> mine_log \<Rightarrow> nat list \<times> mine_log" where
  "ingest_all [] l = ([], l)"
| "ingest_all (obs # rest) l =
     (let (k, l1) = ingest obs l; (ks, l2) = ingest_all rest l1 in (k # ks, l2))"

section \<open>Nearest cluster\<close>

lemma nearest_loop_spec:
  assumes "nearest_loop p cs i best = Some (k, d)"
  shows "(best = Some (k, d) \<or> (i \<le> k \<and> k - i < length cs \<and> d = dist2 p (centroid (cs ! (k - i)))))
    \<and> (\<forall>c \<in> set cs. d \<le> dist2 p (centroid c)) \<and> (\<forall>j b. best = Some (j, b) \<longrightarrow> d \<le> b)"
  using assms
proof (induction cs arbitrary: i best)
  case (Cons c cs)
  let ?d = "dist2 p (centroid c)"
  let ?best = "case best of None \<Rightarrow> Some (i, ?d) | Some (j, b) \<Rightarrow> if ?d < b then Some (i, ?d) else Some (j, b)"
  have "nearest_loop p cs (Suc i) ?best = Some (k, d)" using Cons.prems by (simp add: Let_def)
  note ih = Cons.IH [OF this]
  have le: "d \<le> ?d" using ih by (cases best) (auto split: if_splits)
  have old: "\<forall>j b. best = Some (j, b) \<longrightarrow> d \<le> b" using ih by (auto split: if_splits)
  have "best = Some (k, d) \<or> (i \<le> k \<and> k - i < length (c # cs) \<and> d = dist2 p (centroid ((c # cs) ! (k - i))))"
  proof (cases "?best = Some (k, d)")
    case True
    then show ?thesis by (cases best) (auto split: if_splits)
  next
    case False
    then have k: "Suc i \<le> k" "k - Suc i < length cs" "d = dist2 p (centroid (cs ! (k - Suc i)))" using ih by auto
    then have "k - i = Suc (k - Suc i)" by simp
    then show ?thesis using k by simp
  qed
  then show ?case using ih le old by simp
qed simp

lemma nearest_cluster_spec:
  assumes "nearest_cluster p l = Some (k, d)"
  shows "k < length (clusters l)" "d = dist2 p (centroid (clusters l ! k))"
    "\<forall>c \<in> set (clusters l). d \<le> dist2 p (centroid c)"
  using nearest_loop_spec [OF assms [unfolded nearest_cluster_def]] by auto

lemma nearest_loop_Some: "nearest_loop p cs i (Some b) \<noteq> None"
  by (induction cs arbitrary: i b) (auto simp: Let_def split: prod.splits)

lemma nearest_cluster_None: "nearest_cluster p l = None \<longleftrightarrow> clusters l = []"
  by (cases "clusters l") (simp_all add: nearest_cluster_def nearest_loop_Some Let_def)

text \<open>The two ways an observation is placed.\<close>

lemma ingest_cases:
  obtains (founds) "ingest obs l = (length (clusters l), l\<lparr>n_ingested := n_ingested l + 1, clusters := clusters l
        @ [climb_ladder (confirm_obs l) (confirm_passes l) obs
             (add_fix obs (add_statistics obs (found_cluster (length (clusters l)) obs)))]\<rparr>)"
      "\<forall>c \<in> set (clusters l). gate_m l < dist2 (ground_local obs) (centroid c)"
  | (joins) k c where "k < length (clusters l)"
      "dist2 (ground_local obs) (centroid (clusters l ! k)) \<le> gate_m l"
      "\<forall>c \<in> set (clusters l). dist2 (ground_local obs) (centroid (clusters l ! k)) \<le> dist2 (ground_local obs) (centroid c)"
      "c = clusters l ! k \<or> c = (close_pass (clusters l ! k))\<lparr>n_passes := n_passes (clusters l ! k) + 1\<rparr>"
      "ingest obs l = (k, l\<lparr>n_ingested := n_ingested l + 1, clusters := (clusters l)
        [k := climb_ladder (confirm_obs l) (confirm_passes l) obs (add_fix obs (add_statistics obs c))]\<rparr>)"
proof (cases "nearest_cluster (ground_local obs) l")
  case None
  then have "clusters l = []" by (simp add: nearest_cluster_None)
  then show thesis by (intro founds) (simp_all add: ingest_def None)
next
  case (Some kd)
  obtain k d where kd: "kd = (k, d)" by (cases kd)
  note near = nearest_cluster_spec [OF Some [unfolded kd]]
  show thesis
  proof (cases "gate_m l < d")
    case True
    then show thesis using near by (intro founds) (auto simp: ingest_def Some kd)
  next
    case False
    note inside = this
    show thesis
    proof (cases "pass_gap_s l < obs_t obs - last_seen (clusters l ! k)")
      case True
      show thesis
        by (rule joins [of k "(close_pass (clusters l ! k))\<lparr>n_passes := n_passes (clusters l ! k) + 1\<rparr>"])
          (use near inside True in \<open>auto simp: ingest_def Some kd\<close>)
    next
      case False
      show thesis
        by (rule joins [of k "clusters l ! k"]) (use near inside False in \<open>auto simp: ingest_def Some kd\<close>)
    qed
  qed
qed

section \<open>Batch statistics\<close>

text \<open>What the log is meant to hold: weighted sums over the observations a cluster received.\<close>

definition sum_w :: "(observation \<Rightarrow> real) \<Rightarrow> observation list \<Rightarrow> real" where
  "sum_w f os = (\<Sum>x\<leftarrow>os. obs_weight x * f x)"

definition north :: "observation \<Rightarrow> real" where "north x = fst (ground_local x)"
definition east :: "observation \<Rightarrow> real" where "east x = snd (ground_local x)"

definition assigned :: "nat \<Rightarrow> nat list \<Rightarrow> observation list \<Rightarrow> observation list" where
  "assigned k ks os = map snd (filter (\<lambda>(j, _). j = k) (zip ks os))"

definition statistics_of :: "cluster \<Rightarrow> observation list \<Rightarrow> bool" where
  "statistics_of c os \<longleftrightarrow> weight c = sum_w (\<lambda>_. 1) os \<and> n_obs c = length os
     \<and> weight c * fst (centroid c) = sum_w north os \<and> weight c * snd (centroid c) = sum_w east os
     \<and> sq_dev_sum c = sum_w (\<lambda>x. north x * north x + east x * east x) os
         - weight c * (fst (centroid c) * fst (centroid c) + snd (centroid c) * snd (centroid c))"

lemma obs_weight_pos: "0 < obs_weight x"
  by (simp add: obs_weight_def max_def)

lemma sum_w_simps [simp]:
  "sum_w f [] = 0" "sum_w f (os @ [x]) = sum_w f os + obs_weight x * f x"
  by (simp_all add: sum_w_def)

lemma sum_w_pos: "os \<noteq> [] \<Longrightarrow> 0 < sum_w (\<lambda>_. 1) os"
proof (induction os rule: rev_induct)
  case (snoc x xs)
  then show ?case using obs_weight_pos [of x] by (cases "xs = []") (auto simp del: append.simps)
qed simp

text \<open>One coordinate of the incremental update.\<close>

lemma incremental_moment:
  fixes W w c p :: real
  assumes "0 \<le> W" "0 < w"
  shows "(W + w) * (c + (p - c) * w / (W + w)) = W * c + w * p"
    and "w * ((p - c) * (p - c)) * (W / (W + w))
         = W * (c * c) + w * (p * p) - (W + w) * ((c + (p - c) * w / (W + w)) * (c + (p - c) * w / (W + w)))"
proof -
  have pos: "W + w \<noteq> 0" using assms by simp
  show first: "(W + w) * (c + (p - c) * w / (W + w)) = W * c + w * p"
    using pos by (simp add: field_simps)
  define m where "m = c + (p - c) * w / (W + w)"
  have m: "m * (W + w) = W * c + w * p" using first by (simp add: m_def mult.commute)
  have "w * ((p - c) * (p - c)) * W = (W * (c * c) + w * (p * p)) * (W + w) - (W * c + w * p) * (W * c + w * p)"
    by (simp add: algebra_simps)
  then have "w * ((p - c) * (p - c)) * W = (W * (c * c) + w * (p * p)) * (W + w) - (m * (W + w)) * (m * (W + w))"
    by (simp only: m)
  then have "w * ((p - c) * (p - c)) * W / (W + w)
      = ((W * (c * c) + w * (p * p)) * (W + w) - (m * (W + w)) * (m * (W + w))) / (W + w)" by simp
  also have "(m * (W + w)) * (m * (W + w)) = (W + w) * (m * m) * (W + w)" by (simp only: mult_ac)
  also have "((W * (c * c) + w * (p * p)) * (W + w) - (W + w) * (m * m) * (W + w)) / (W + w)
      = W * (c * c) + w * (p * p) - (W + w) * (m * m)"
    using pos by (simp add: diff_divide_distrib)
  finally show "w * ((p - c) * (p - c)) * (W / (W + w))
      = W * (c * c) + w * (p * p) - (W + w) * ((c + (p - c) * w / (W + w)) * (c + (p - c) * w / (W + w)))"
    by (simp add: m_def)
qed

lemma add_statistics_correct:
  assumes "statistics_of c os"
  shows "statistics_of (add_statistics x c) (os @ [x])"
proof -
  define W where "W = weight c"
  define w where "w = obs_weight x"
  have W: "0 \<le> W" using assms sum_w_pos [of os] by (cases "os = []") (auto simp: statistics_of_def W_def)
  have w: "0 < w" by (simp add: w_def obs_weight_pos)
  let ?n = "fst (centroid c)" and ?e = "snd (centroid c)"
  note n = incremental_moment [OF W w, where c = ?n and p = "north x"]
    and e = incremental_moment [OF W w, where c = ?e and p = "east x"]
  let ?A = "north x - ?n" and ?B = "east x - ?e"
  have s: "weight (add_statistics x c) = W + w" "n_obs (add_statistics x c) = n_obs c + 1"
    "fst (centroid (add_statistics x c)) = ?n + ?A * w / (W + w)"
    "snd (centroid (add_statistics x c)) = ?e + ?B * w / (W + w)"
    by (simp_all add: add_statistics_def Let_def W_def w_def north_def east_def)
  have "sq_dev_sum (add_statistics x c) = sq_dev_sum c + w * (?A * ?A + ?B * ?B) * (W / (W + w))"
    by (simp add: add_statistics_def Let_def W_def w_def north_def east_def)
  also have "\<dots> = sq_dev_sum c + (w * (?A * ?A) * (W / (W + w)) + w * (?B * ?B) * (W / (W + w)))"
    by (simp only: distrib_left distrib_right)
  finally have sq: "sq_dev_sum (add_statistics x c)
      = sq_dev_sum c + (w * (?A * ?A) * (W / (W + w)) + w * (?B * ?B) * (W / (W + w)))" .
  define N where "N = ?n + ?A * w / (W + w)"
  define E where "E = ?e + ?B * w / (W + w)"
  have "sq_dev_sum (add_statistics x c) = sq_dev_sum c + (W * (?n * ?n) + w * (north x * north x) - (W + w) * (N * N))
      + (W * (?e * ?e) + w * (east x * east x) - (W + w) * (E * E))"
  proof -
    have "w * (?A * ?A) * (W / (W + w)) = W * (?n * ?n) + w * (north x * north x) - (W + w) * (N * N)"
      unfolding N_def by (rule n(2))
    moreover have "w * (?B * ?B) * (W / (W + w)) = W * (?e * ?e) + w * (east x * east x) - (W + w) * (E * E)"
      unfolding E_def by (rule e(2))
    ultimately show ?thesis using sq by (simp only:)
  qed
  moreover have "sq_dev_sum c = sum_w (\<lambda>x. north x * north x + east x * east x) os - W * (?n * ?n + ?e * ?e)"
    "W = sum_w (\<lambda>_. 1) os" "n_obs c = length os" "W * ?n = sum_w north os" "W * ?e = sum_w east os"
    using assms unfolding statistics_of_def W_def by blast+
  moreover have "(W + w) * N = W * ?n + w * north x" "(W + w) * E = W * ?e + w * east x"
    using n(1) e(1) by (simp_all add: N_def E_def)
  ultimately show ?thesis
    unfolding statistics_of_def s by (fold N_def E_def w_def) (simp add: w_def [symmetric] distrib_left)
qed

lemma statistics_frame [simp]:
  "statistics_of (climb_ladder a b x c) os = statistics_of c os"
  "statistics_of (add_fix x c) os = statistics_of c os"
  "statistics_of ((close_pass c)\<lparr>n_passes := n\<rparr>) os = statistics_of c os"
  by (auto simp: statistics_of_def climb_ladder_def add_fix_def close_pass_def Let_def split: option.splits)

lemma statistics_found: "statistics_of (found_cluster k x) []"
  by (simp add: statistics_of_def found_cluster_def)

section \<open>Runs\<close>

definition log_ok :: "mine_log \<Rightarrow> nat list \<Rightarrow> observation list \<Rightarrow> bool" where
  "log_ok l ks os \<longleftrightarrow> length ks = length os \<and> (\<forall>k \<in> set ks. k < length (clusters l))
     \<and> n_ingested l = length os
     \<and> (\<forall>k < length (clusters l). assigned k ks os \<noteq> [] \<and> statistics_of (clusters l ! k) (assigned k ks os))"

lemma assigned_snoc:
  "length ks = length os \<Longrightarrow>
   assigned k (ks @ [j]) (os @ [x]) = (if j = k then assigned k ks os @ [x] else assigned k ks os)"
  by (simp add: assigned_def)

lemma assigned_fresh: "\<forall>j \<in> set ks. j < k \<Longrightarrow> assigned k ks os = []"
  by (auto simp: assigned_def filter_empty_conv dest!: set_zip_leftD)

lemma ingest_log_ok:
  assumes ok: "log_ok l ks os" and step: "ingest x l = (j, l')"
  shows "log_ok l' (ks @ [j]) (os @ [x])"
proof -
  have len: "length ks = length os" and bound: "\<forall>k \<in> set ks. k < length (clusters l)"
    using ok by (simp_all add: log_ok_def)
  show ?thesis
  proof (cases rule: ingest_cases [of x l])
    case founds
    have new: "assigned (length (clusters l)) ks os = []" using bound by (rule assigned_fresh)
    have stats: "statistics_of (add_statistics x (found_cluster k x)) [x]" for k
      using add_statistics_correct [OF statistics_found, of x k x] by simp
    show ?thesis
      using ok step founds new stats
      by (auto simp: log_ok_def assigned_snoc nth_append less_Suc_eq)
  next
    case (joins k c)
    have "statistics_of (clusters l ! k) (assigned k ks os)" using ok joins(1) by (simp add: log_ok_def)
    then have "statistics_of c (assigned k ks os)" using joins(4) by auto
    then have "statistics_of (add_statistics x c) (assigned k ks os @ [x])" by (rule add_statistics_correct)
    then show ?thesis
      using ok step joins(1,5) by (auto simp: log_ok_def assigned_snoc nth_list_update)
  qed
qed

lemma ingest_all_log_ok:
  "log_ok l ks os \<Longrightarrow> ingest_all xs l = (js, l') \<Longrightarrow> log_ok l' (ks @ js) (os @ xs)"
proof (induction xs l arbitrary: ks os js l' rule: ingest_all.induct)
  case (2 x rest l)
  obtain k l1 where 1: "ingest x l = (k, l1)" by (cases "ingest x l")
  obtain ks' where 2: "ingest_all rest l1 = (ks', l')" "js = k # ks'"
    using "2.prems"(2) 1 by (auto split: prod.splits)
  show ?case
    using "2.IH" [OF 1 [symmetric] refl ingest_log_ok [OF "2.prems"(1) 1] 2(1)] 2(2) by simp
qed simp

text \<open>The deviation about the weighted mean, from the moments.\<close>

lemma weighted_deviation:
  "sum_w (\<lambda>x. (north x - a) * (north x - a) + (east x - b) * (east x - b)) os
     = sum_w (\<lambda>x. north x * north x + east x * east x) os - 2 * a * sum_w north os - 2 * b * sum_w east os
       + (a * a + b * b) * sum_w (\<lambda>_. 1) os"
  by (induction os rule: rev_induct) (simp_all add: algebra_simps)

text \<open>
  Claim C40: the incremental mine log holds the batch statistics. After any sequence of observations,
  each cluster has received at least one; its weight is the sum of their weights, its centroid their
  weighted mean, its deviation sum exactly their weighted squared deviation about that mean, and
  its count theirs.
\<close>

theorem minelog_statistics_exact:
  assumes run: "ingest_all os (new_log gate gap need_obs need_passes) = (ks, l)"
    and k: "k < length (clusters l)"
  defines "mine \<equiv> assigned k ks os" and "c \<equiv> clusters l ! k"
  shows "mine \<noteq> [] \<and> n_obs c = length mine \<and> weight c = sum_w (\<lambda>_. 1) mine \<and> 0 < weight c
    \<and> centroid c = (sum_w north mine / weight c, sum_w east mine / weight c)
    \<and> sq_dev_sum c = sum_w (\<lambda>x. (north x - fst (centroid c)) * (north x - fst (centroid c))
        + (east x - snd (centroid c)) * (east x - snd (centroid c))) mine"
proof -
  have "log_ok (new_log gate gap need_obs need_passes) [] []"
    by (simp add: log_ok_def new_log_def)
  from ingest_all_log_ok [OF this run] have ok: "log_ok l ks os" by simp
  then have ne: "mine \<noteq> []" and st: "statistics_of c mine"
    using k by (simp_all add: log_ok_def mine_def c_def)
  have pos: "0 < weight c" using st sum_w_pos [OF ne] by (simp add: statistics_of_def)
  have first: "weight c * fst (centroid c) = sum_w north mine" "weight c * snd (centroid c) = sum_w east mine"
    and other: "weight c = sum_w (\<lambda>_. 1) mine" "n_obs c = length mine"
      "sq_dev_sum c = sum_w (\<lambda>x. north x * north x + east x * east x) mine
         - weight c * (fst (centroid c) * fst (centroid c) + snd (centroid c) * snd (centroid c))"
    using st unfolding statistics_of_def by blast+
  then have cen: "centroid c = (sum_w north mine / weight c, sum_w east mine / weight c)"
    using pos by (metis less_irrefl nonzero_mult_div_cancel_left prod.collapse)
  have "sq_dev_sum c = sum_w (\<lambda>x. (north x - fst (centroid c)) * (north x - fst (centroid c))
      + (east x - snd (centroid c)) * (east x - snd (centroid c))) mine"
    unfolding weighted_deviation other(3) first [symmetric] other(1) [symmetric] by (simp add: algebra_simps)
  with ne pos cen other(1,2) show ?thesis by blast
qed

theorem minelog_statistics_exact_witness:
  "\<exists>l. ingest_all [\<lparr>obs_t = 0, ground_local = (0, 0), conf = 1, class_id = [], obs_ll = None, tag_id = None\<rparr>]
     (new_log 1 5 5 2) = ([0], l) \<and> 0 < weight (clusters l ! 0)"
proof -
  let ?o = "\<lparr>obs_t = 0, ground_local = (0, 0), conf = 1, class_id = [], obs_ll = None, tag_id = None\<rparr>"
  have "\<exists>l. ingest_all [?o] (new_log 1 5 5 2) = ([0], l) \<and> length (clusters l) = 1"
    by (simp add: ingest_def nearest_cluster_def new_log_def)
  then obtain l where "ingest_all [?o] (new_log 1 5 5 2) = ([0], l)" "0 < length (clusters l)"
    by (metis zero_less_one)
  with minelog_statistics_exact [OF this] show ?thesis by blast
qed

section \<open>The status ladder\<close>

definition ladder_ok :: "int \<Rightarrow> int \<Rightarrow> cluster \<Rightarrow> bool" where
  "ladder_ok need_obs need_passes c \<longleftrightarrow>
     (tag_ids c \<noteq> [] \<longrightarrow> status c \<noteq> CANDIDATE \<and> status c \<noteq> CONFIRMED)
     \<and> (status c = VERIFIED \<longrightarrow> tag_ids c \<noteq> [])
     \<and> (status c = CONFIRMED \<longrightarrow> int (n_obs c) \<ge> need_obs \<and> int (n_passes c) \<ge> need_passes)
     \<and> distinct (tag_ids c)"

lemma climb_ladder_status: "status c \<le> status (climb_ladder a b x c)"
  by (cases "status c") (auto simp: climb_ladder_def less_eq_mine_status_def split: option.splits)

lemma update_status_frame [simp]:
  "status (add_statistics x c) = status c" "status (add_fix x c) = status c" "status (close_pass c) = status c"
  "tag_ids (add_statistics x c) = tag_ids c" "tag_ids (add_fix x c) = tag_ids c" "tag_ids (close_pass c) = tag_ids c"
  "n_obs (add_statistics x c) = n_obs c + 1" "n_obs (add_fix x c) = n_obs c" "n_obs (close_pass c) = n_obs c"
  "n_passes (add_statistics x c) = n_passes c" "n_passes (add_fix x c) = n_passes c"
  "n_passes (close_pass c) = n_passes c"
  by (auto simp: add_statistics_def add_fix_def close_pass_def Let_def split: option.splits)

lemma ladder_ok_climb:
  assumes "ladder_ok a b c" "n_obs c \<le> n_obs c'" "n_passes c \<le> n_passes c'"
    "status c' = status c" "tag_ids c' = tag_ids c"
  shows "ladder_ok a b (climb_ladder a b x c')"
  using assms by (auto simp: ladder_ok_def climb_ladder_def split: option.splits)

lemma ladder_ok_found: "ladder_ok a b (found_cluster k x)"
  by (simp add: ladder_ok_def found_cluster_def)

lemma ingest_ladder_ok:
  assumes "\<forall>c \<in> set (clusters l). ladder_ok (confirm_obs l) (confirm_passes l) c"
  shows "\<forall>c \<in> set (clusters (snd (ingest x l))). ladder_ok (confirm_obs l) (confirm_passes l) c"
proof (cases rule: ingest_cases [of x l])
  case founds
  have "ladder_ok (confirm_obs l) (confirm_passes l) (climb_ladder (confirm_obs l) (confirm_passes l) x
      (add_fix x (add_statistics x (found_cluster k x))))" for k
    by (rule ladder_ok_climb [OF ladder_ok_found [of _ _ k x]]) simp_all
  then show ?thesis using assms founds by auto
next
  case (joins k c)
  then have "ladder_ok (confirm_obs l) (confirm_passes l) (climb_ladder (confirm_obs l) (confirm_passes l) x
      (add_fix x (add_statistics x c)))"
    using assms by (intro ladder_ok_climb [of _ _ "clusters l ! k"]) auto
  then show ?thesis using assms joins(1,5) by (auto dest: set_update_subset_insert [THEN subsetD])
qed

lemma ingest_limits [simp]:
  "confirm_obs (snd (ingest x l)) = confirm_obs l" "confirm_passes (snd (ingest x l)) = confirm_passes l"
  "gate_m (snd (ingest x l)) = gate_m l"
  by (cases rule: ingest_cases [of x l]; simp)+

lemma ingest_all_ladder_ok:
  "\<forall>c \<in> set (clusters l). ladder_ok (confirm_obs l) (confirm_passes l) c \<Longrightarrow>
   \<forall>c \<in> set (clusters (snd (ingest_all xs l))). ladder_ok (confirm_obs l) (confirm_passes l) c"
proof (induction xs l rule: ingest_all.induct)
  case (2 x rest l)
  obtain k l1 where 1: "ingest x l = (k, l1)" by (cases "ingest x l")
  have "snd (ingest_all (x # rest) l) = snd (ingest_all rest l1)"
    by (simp add: 1 split: prod.split)
  then show ?case
    using "2.IH" [OF 1 [symmetric] refl] ingest_ladder_ok [OF "2.prems", of x]
      ingest_limits [of x l] by (simp add: 1)
qed simp

text \<open>
  One observation goes to the nearest cluster if that is within the gate and founds a new one
  otherwise; no cluster ever loses rank on the status ladder, and the cluster that saw a tag is
  VERIFIED with the tag recorded.
\<close>

theorem ingest_places_and_promotes:
  assumes "ingest x l = (k, l')"
  shows "(if \<exists>c \<in> set (clusters l). dist2 (ground_local x) (centroid c) \<le> gate_m l
          then k < length (clusters l) \<and> length (clusters l') = length (clusters l)
            \<and> (\<forall>c \<in> set (clusters l). dist2 (ground_local x) (centroid (clusters l ! k)) \<le> dist2 (ground_local x) (centroid c))
          else k = length (clusters l) \<and> length (clusters l') = Suc (length (clusters l)))
    \<and> (\<forall>j < length (clusters l). status (clusters l ! j) \<le> status (clusters l' ! j)
          \<and> (j \<noteq> k \<longrightarrow> clusters l' ! j = clusters l ! j))
    \<and> (\<forall>tag. tag_id x = Some tag \<longrightarrow> status (clusters l' ! k) = VERIFIED \<and> tag \<in> set (tag_ids (clusters l' ! k)))"
proof -
  have tagged: "tag_id x = Some tag \<Longrightarrow> status (climb_ladder a b x c) = VERIFIED \<and> tag \<in> set (tag_ids (climb_ladder a b x c))"
    for tag a b c by (auto simp: climb_ladder_def)
  show ?thesis
  proof (cases rule: ingest_cases [of x l])
    case founds
    then show ?thesis using assms tagged by (auto simp: nth_append leD)
  next
    case (joins j c)
    then have "status (clusters l ! j) \<le> status (climb_ladder (confirm_obs l) (confirm_passes l) x (add_fix x (add_statistics x c)))"
      using climb_ladder_status [of "add_fix x (add_statistics x c)"] by auto
    then show ?thesis using assms tagged joins by (auto simp: nth_list_update)
  qed
qed

theorem ingest_places_and_promotes_witness:
  "\<exists>l'. ingest \<lparr>obs_t = 0, ground_local = (0, 0), conf = 1, class_id = [], obs_ll = None, tag_id = Some ''7''\<rparr>
     (new_log 1 5 5 2) = (0, l') \<and> status (clusters l' ! 0) = VERIFIED"
proof -
  let ?o = "\<lparr>obs_t = 0, ground_local = (0, 0), conf = 1, class_id = [], obs_ll = None, tag_id = Some ''7''\<rparr>"
  obtain l' where "ingest ?o (new_log 1 5 5 2) = (0, l')"
    by (simp add: ingest_def nearest_cluster_def new_log_def)
  with ingest_places_and_promotes [OF this] show ?thesis by auto
qed

text \<open>
  The queue of dip targets holds only well-founded mines: whatever was ingested, a cluster
  offered as a dip target has the required observations and passes, carries no tag, and is the
  oldest confirmed one; if none is offered, none is confirmed.
\<close>

theorem dip_target_confirmed:
  assumes "l = snd (ingest_all xs (new_log gate gap need_obs need_passes))"
  shows "case next_dip_target l of
      None \<Rightarrow> \<forall>c \<in> set (clusters l). status c \<noteq> CONFIRMED
    | Some k \<Rightarrow> k < length (clusters l) \<and> status (clusters l ! k) = CONFIRMED
        \<and> int (n_obs (clusters l ! k)) \<ge> need_obs \<and> int (n_passes (clusters l ! k)) \<ge> need_passes
        \<and> tag_ids (clusters l ! k) = [] \<and> (\<forall>j < k. status (clusters l ! j) \<noteq> CONFIRMED)"
proof -
  have first: "case first_confirmed i cs of None \<Rightarrow> \<forall>c \<in> set cs. status c \<noteq> CONFIRMED
      | Some k \<Rightarrow> i \<le> k \<and> k - i < length cs \<and> status (cs ! (k - i)) = CONFIRMED
          \<and> (\<forall>j < k - i. status (cs ! j) \<noteq> CONFIRMED)" for i cs
  proof (induction i cs rule: first_confirmed.induct)
    case (2 i c cs)
    show ?case
    proof (cases "status c = CONFIRMED")
      case False
      show ?thesis
      proof (cases "first_confirmed (Suc i) cs")
        case (Some k)
        with 2 [OF False] have "Suc i \<le> k" "k - Suc i < length cs" "status (cs ! (k - Suc i)) = CONFIRMED"
          "\<forall>j < k - Suc i. status (cs ! j) \<noteq> CONFIRMED" by auto
        moreover from this have "k - i = Suc (k - Suc i)" by simp
        ultimately show ?thesis using False Some by (auto simp: nth_Cons split: nat.splits)
      qed (use 2 [OF False] False in simp)
    qed simp
  qed simp
  have ok: "\<forall>c \<in> set (clusters l). ladder_ok need_obs need_passes c"
    using ingest_all_ladder_ok [of "new_log gate gap need_obs need_passes" xs]
    by (simp add: assms new_log_def)
  show ?thesis
    using first [where i = 0 and cs = "clusters l"] ok
    by (cases "next_dip_target l") (auto simp: next_dip_target_def ladder_ok_def dest!: nth_mem)
qed

theorem dip_target_confirmed_witness:
  "next_dip_target (snd (ingest_all [\<lparr>obs_t = 0, ground_local = (0, 0), conf = 1, class_id = [], obs_ll = None, tag_id = None\<rparr>]
      (new_log 1 5 1 1))) = Some 0
   \<and> tag_ids (clusters (snd (ingest_all [\<lparr>obs_t = 0, ground_local = (0, 0), conf = 1, class_id = [], obs_ll = None, tag_id = None\<rparr>]
      (new_log 1 5 1 1))) ! 0) = []"
proof -
  let ?l = "snd (ingest_all [\<lparr>obs_t = 0, ground_local = (0, 0), conf = 1, class_id = [], obs_ll = None, tag_id = None\<rparr>]
      (new_log 1 5 1 1))"
  have "next_dip_target ?l = Some 0"
    by (simp add: next_dip_target_def ingest_def nearest_cluster_def new_log_def found_cluster_def
        add_statistics_def add_fix_def climb_ladder_def Let_def)
  with dip_target_confirmed [of ?l "[\<lparr>obs_t = 0, ground_local = (0, 0), conf = 1, class_id = [], obs_ll = None, tag_id = None\<rparr>]" 1 5 1 1]
  show ?thesis by auto
qed

end
