(* ===== verification/Backproject.thy ===== *)
theory Backproject
  imports Minelog
begin

text \<open>
  From a detection in an image to an observation on the ground: the camera model
  (\<open>core/config.py\<close>), projection and its inverse (\<open>core/backproject.py\<close>), and the buffer of
  flight states a detection is joined to by image time (\<open>core/ingest.py\<close>).
\<close>

section \<open>Camera\<close>

record camera_model =
  width_px :: int
  height_px :: int
  hfov_deg :: real
  tilt_deg :: real

definition check_camera :: "camera_model \<Rightarrow> py_error + unit" where
  "check_camera c =
     (if width_px c < 1 \<or> height_px c < 1 then Inl (ValueError ''bad resolution'')
      else if \<not> (0 < hfov_deg c \<and> hfov_deg c < 180) then Inl (ValueError ''bad hfov_deg'')
      else Inr ())"

definition focal_px :: "camera_model \<Rightarrow> real" where
  "focal_px c = (of_int (width_px c) / 2) / tan (radians (hfov_deg c) / 2)"

definition cam_cx :: "camera_model \<Rightarrow> real" where "cam_cx c = of_int (width_px c) / 2"

definition cam_cy :: "camera_model \<Rightarrow> real" where "cam_cy c = of_int (height_px c) / 2"

datatype projection_error = BehindCamera | AboveHorizon

text \<open>The optical axes in the body frame: right, down, forward.\<close>

definition cam_to_body :: "real \<Rightarrow> vec3 \<times> vec3 \<times> vec3" where
  "cam_to_body tilt = (let c = cos (radians tilt); s = sin (radians tilt)
                       in ((0, 1, 0), (- c, 0, s), (s, 0, c)))"

definition dot3 :: "vec3 \<Rightarrow> vec3 \<Rightarrow> real" where
  "dot3 a b = (case (a, b) of ((a0, a1, a2), (b0, b1, b2)) \<Rightarrow> a0 * b0 + a1 * b1 + a2 * b2)"

definition project_raw :: "camera_model \<Rightarrow> vec3 \<Rightarrow> quat \<Rightarrow> vec3 \<Rightarrow> projection_error + real \<times> real" where
  "project_raw cam pos q p =
     (case (pos, p) of ((x, y, z), (px, py, pz)) \<Rightarrow>
        let d_body = quat_rotate (quat_conj q) (px - x, py - y, pz - z);
            (x_ax, y_ax, z_ax) = cam_to_body (tilt_deg cam);
            x_cam = dot3 x_ax d_body; y_cam = dot3 y_ax d_body; z_cam = dot3 z_ax d_body
        in if z_cam \<le> 0 then Inl BehindCamera
           else Inr (cam_cx cam + focal_px cam * x_cam / z_cam, cam_cy cam + focal_px cam * y_cam / z_cam))"

definition pixel_ray :: "camera_model \<Rightarrow> quat \<Rightarrow> real \<times> real \<Rightarrow> vec3" where
  "pixel_ray cam q pixel =
     (let d0 = (fst pixel - cam_cx cam) / focal_px cam; d1 = (snd pixel - cam_cy cam) / focal_px cam;
          ((x0, x1, x2), (y0, y1, y2), (z0, z1, z2)) = cam_to_body (tilt_deg cam)
      in quat_rotate q (x0 * d0 + y0 * d1 + z0 * 1, x1 * d0 + y1 * d1 + z1 * 1, x2 * d0 + y2 * d1 + z2 * 1))"

definition ground_point ::
  "camera_model \<Rightarrow> vec3 \<Rightarrow> quat \<Rightarrow> real \<times> real \<Rightarrow> real \<Rightarrow> projection_error + point" where
  "ground_point cam pos q pixel ground_z =
     (case (pos, pixel_ray cam q pixel) of ((x, y, z), (d0, d1, d2)) \<Rightarrow>
        if d2 \<le> 0 then Inl AboveHorizon
        else let t = (ground_z - z) / d2
             in if t \<le> 0 then Inl AboveHorizon else Inr (x + t * d0, y + t * d1))"

lemma focal_pos: "check_camera c = Inr u \<Longrightarrow> 0 < focal_px c"
proof -
  assume "check_camera c = Inr u"
  then have w: "1 \<le> width_px c" and h: "0 < hfov_deg c" "hfov_deg c < 180"
    by (auto simp: check_camera_def split: if_splits)
  have "0 < radians (hfov_deg c) / 2" "radians (hfov_deg c) / 2 < pi / 2"
    using h by (simp_all add: radians_def)
  then have "0 < tan (radians (hfov_deg c) / 2)" by (rule tan_gt_zero)
  with w show ?thesis by (simp add: focal_px_def)
qed

text \<open>The optical axes are orthonormal: coordinates along them recover the body vector.\<close>

lemma camera_axes:
  assumes "cam_to_body tilt = ((x0, x1, x2), (y0, y1, y2), (z0, z1, z2))"
  shows "(x0 * dot3 (x0, x1, x2) d + y0 * dot3 (y0, y1, y2) d + z0 * dot3 (z0, z1, z2) d,
          x1 * dot3 (x0, x1, x2) d + y1 * dot3 (y0, y1, y2) d + z1 * dot3 (z0, z1, z2) d,
          x2 * dot3 (x0, x1, x2) d + y2 * dot3 (y0, y1, y2) d + z2 * dot3 (z0, z1, z2) d) = d"
proof -
  obtain a b c where d: "d = (a, b, c)" by (cases d)
  define C where "C = cos (radians tilt)"
  define S where "S = sin (radians tilt)"
  have 1: "C * C + S * S = 1" by (simp add: C_def S_def flip: power2_eq_square)
  have "x0 = 0" "x1 = 1" "x2 = 0" "y0 = - C" "y1 = 0" "y2 = S" "z0 = S" "z1 = 0" "z2 = C"
    using assms by (simp_all add: cam_to_body_def Let_def C_def S_def)
  then show ?thesis using 1 by (simp add: d dot3_def, intro conjI; algebra)
qed

lemma quat_rotate_scale:
  "quat_rotate q (k * a, k * b, k * c) = (case quat_rotate q (a, b, c) of (x, y, z) \<Rightarrow> (k * x, k * y, k * z))"
  by (cases q) (simp add: quat_rotate_def Let_def algebra_simps)

lemma quat_conj_conj [simp]: "quat_conj (quat_conj q) = q"
  by (simp add: quat_conj_def split: prod.splits)

lemma quat_norm2_conj [simp]: "quat_norm2 (quat_conj q) = quat_norm2 q"
  by (simp add: quat_norm2_def quat_conj_def split: prod.splits)

text \<open>The ray of a projected point is the direction to that point, scaled to unit depth.\<close>

lemma pixel_ray_of_projection:
  assumes q: "quat_norm2 q = 1" and f: "focal_px cam \<noteq> 0"
    and proj: "project_raw cam (x, y, z) q (px, py, pz) = Inr pixel"
  obtains depth where "0 < depth"
    "pixel_ray cam q pixel = ((px - x) / depth, (py - y) / depth, (pz - z) / depth)"
proof -
  obtain x0 x1 x2 y0 y1 y2 z0 z1 z2 where ax: "cam_to_body (tilt_deg cam) = ((x0, x1, x2), (y0, y1, y2), (z0, z1, z2))"
    by (metis prod.collapse)
  define d where "d = quat_rotate (quat_conj q) (px - x, py - y, pz - z)"
  define w where "w = dot3 (z0, z1, z2) d"
  have w: "0 < w" and pixel: "pixel = (cam_cx cam + focal_px cam * dot3 (x0, x1, x2) d / w,
      cam_cy cam + focal_px cam * dot3 (y0, y1, y2) d / w)"
    using proj by (auto simp: project_raw_def Let_def ax d_def w_def split: if_splits)
  obtain a b c where abc: "d = (a, b, c)" by (cases d)
  let ?X = "dot3 (x0, x1, x2) d" and ?Y = "dot3 (y0, y1, y2) d"
  have "(x0 * ?X + y0 * ?Y + z0 * w, x1 * ?X + y1 * ?Y + z1 * w, x2 * ?X + y2 * ?Y + z2 * w) = (a, b, c)"
    using camera_axes [OF ax, of d] by (simp add: w_def abc)
  then have comp: "a = x0 * ?X + y0 * ?Y + z0 * w" "b = x1 * ?X + y1 * ?Y + z1 * w" "c = x2 * ?X + y2 * ?Y + z2 * w"
    by simp_all
  have "pixel_ray cam q pixel = quat_rotate q ((1 / w) * a, (1 / w) * b, (1 / w) * c)"
    using f w by (simp add: pixel_ray_def Let_def ax pixel comp add_divide_distrib)
  also have "\<dots> = (case quat_rotate q (a, b, c) of (u, v, t) \<Rightarrow> ((1 / w) * u, (1 / w) * v, (1 / w) * t))"
    by (rule quat_rotate_scale)
  also have "quat_rotate q (a, b, c) = (px - x, py - y, pz - z)"
    using quat_rotate_conj [of "quat_conj q" "(px - x, py - y, pz - z)"] q by (simp add: d_def [symmetric] abc)
  finally show thesis using that [OF w] by simp
qed

text \<open>
  Back-projection inverts projection. For every camera that passes its checks, every unit
  attitude and every tilt, a point below the camera that projects to a pixel is exactly the ground
  point of that pixel at its height.
\<close>

theorem ground_point_inverts_projection:
  assumes "check_camera cam = Inr u" and "quat_norm2 q = 1" and "z < ground_z"
    and "project_raw cam (x, y, z) q (n, e, ground_z) = Inr pixel"
  shows "ground_point cam (x, y, z) q pixel ground_z = Inr (n, e)"
proof -
  have "focal_px cam \<noteq> 0" using focal_pos [OF assms(1)] by simp
  then obtain depth where "0 < depth"
    "pixel_ray cam q pixel = ((n - x) / depth, (e - y) / depth, (ground_z - z) / depth)"
    using pixel_ray_of_projection [OF assms(2) _ assms(4)] by blast
  then show ?thesis using assms(3) by (simp add: ground_point_def zero_less_divide_iff not_le)
qed

theorem ground_point_inverts_projection_witness:
  "let cam = \<lparr>width_px = 1640, height_px = 1232, hfov_deg = 90, tilt_deg = 0\<rparr>
   in \<exists>pixel. project_raw cam (0, 0, - 5) (1, 0, 0, 0) (1, 2, 0) = Inr pixel
        \<and> ground_point cam (0, 0, - 5) (1, 0, 0, 0) pixel 0 = Inr (1, 2)"
proof -
  let ?cam = "\<lparr>width_px = 1640, height_px = 1232, hfov_deg = 90, tilt_deg = 0\<rparr>"
  obtain pixel where "project_raw ?cam (0, 0, - 5) (1, 0, 0, 0) (1, 2, 0) = Inr pixel"
    by (simp add: project_raw_def cam_to_body_def quat_rotate_def quat_conj_def dot3_def Let_def radians_def)
  moreover from ground_point_inverts_projection [OF _ _ _ this]
  have "ground_point ?cam (0, 0, - 5) (1, 0, 0, 0) pixel 0 = Inr (1, 2)"
    by (simp add: check_camera_def quat_norm2_def)
  ultimately show ?thesis unfolding Let_def by blast
qed

section \<open>Pose history\<close>

record pose =
  pose_t :: real
  pose_pos :: vec3
  pose_q :: quat
  pose_reset_counter :: int
  pose_ll :: "point option"
  pose_agl :: "real option"

record pose_history =
  horizon_s :: real
  ts :: "real list"
  snaps :: "pose list"

text \<open>The standard library's binary search.\<close>

function bisect_between :: "real list \<Rightarrow> real \<Rightarrow> nat \<Rightarrow> nat \<Rightarrow> nat" where
  "bisect_between xs x lo hi =
     (if lo < hi
      then let mid = (lo + hi) div 2
           in if xs ! mid < x then bisect_between xs x (mid + 1) hi else bisect_between xs x lo mid
      else lo)"
  by pat_completeness auto

termination by (relation "measure (\<lambda>(xs, x, lo, hi). hi - lo)") auto

declare bisect_between.simps [simp del]

definition bisect_left :: "real list \<Rightarrow> real \<Rightarrow> nat" where
  "bisect_left xs x = bisect_between xs x 0 (length xs)"

definition append_pose :: "pose_history \<Rightarrow> pose \<Rightarrow> py_error + pose_history" where
  "append_pose h snap =
     (if ts h \<noteq> [] \<and> pose_t snap < last (ts h) then Inl (ValueError ''non-monotonic snapshot time'')
      else
        let h1 = h\<lparr>ts := ts h @ [pose_t snap], snaps := snaps h @ [snap]\<rparr>;
            n = bisect_left (ts h1) (pose_t snap - horizon_s h1)
        in Inr (if n > 0 then h1\<lparr>ts := drop n (ts h1), snaps := drop n (snaps h1)\<rparr> else h1))"

definition clear_poses :: "pose_history \<Rightarrow> pose_history" where
  "clear_poses h = h\<lparr>ts := [], snaps := []\<rparr>"

definition nearest_pose :: "real \<Rightarrow> pose_history \<Rightarrow> pose option" where
  "nearest_pose t h =
     (if ts h = [] then None
      else
        let i = bisect_left (ts h) t
        in if i = 0 then Some (snaps h ! 0)
           else if i = length (ts h) then Some (last (snaps h))
           else let before = snaps h ! (i - 1); after = snaps h ! i
                in if t - pose_t before \<le> pose_t after - t then Some before else Some after)"

definition m_per_deg_lat :: real where
  "m_per_deg_lat = 111320"

definition mine_ll :: "point \<Rightarrow> real \<Rightarrow> real \<Rightarrow> point" where
  "mine_ll drone d_north d_east =
     (fst drone + d_north / m_per_deg_lat, snd drone + d_east / (m_per_deg_lat * cos (radians (fst drone))))"

definition make_observation ::
  "camera_model \<Rightarrow> pose \<Rightarrow> real \<Rightarrow> real \<times> real \<Rightarrow> real \<Rightarrow> string \<Rightarrow> string option \<Rightarrow> observation option" where
  "make_observation cam snap t_img pixel confidence cls tag =
     (let agl = (case pose_agl snap of Some a \<Rightarrow> a | None \<Rightarrow> - snd (snd (pose_pos snap)))
      in if agl \<le> 0 then None
         else case ground_point cam (pose_pos snap) (pose_q snap) pixel (snd (snd (pose_pos snap)) + agl) of
                Inl _ \<Rightarrow> None
              | Inr (n, e) \<Rightarrow>
                  Some \<lparr>obs_t = t_img, ground_local = (n, e), conf = confidence, class_id = cls,
                        obs_ll = map_option (\<lambda>ll. mine_ll ll (n - fst (pose_pos snap)) (e - fst (snd (pose_pos snap))))
                                   (pose_ll snap),
                        tag_id = tag\<rparr>)"

lemma bisect_between_spec:
  assumes "sorted xs" "lo \<le> hi" "hi \<le> length xs"
    and "\<forall>j < lo. xs ! j < x" "\<forall>j. hi \<le> j \<longrightarrow> j < length xs \<longrightarrow> x \<le> xs ! j"
  shows "(\<forall>j < bisect_between xs x lo hi. xs ! j < x)
    \<and> (\<forall>j. bisect_between xs x lo hi \<le> j \<longrightarrow> j < length xs \<longrightarrow> x \<le> xs ! j)
    \<and> bisect_between xs x lo hi \<le> length xs"
  using assms
proof (induction xs x lo hi rule: bisect_between.induct)
  case (1 xs x lo hi)
  show ?case
  proof (cases "lo < hi")
    case False
    then have "bisect_between xs x lo hi = lo" by (subst bisect_between.simps) simp
    then show ?thesis using "1.prems" False by auto
  next
    case True
    let ?mid = "(lo + hi) div 2"
    have mid: "lo \<le> ?mid" "?mid < hi" using True by auto
    show ?thesis
    proof (cases "xs ! ?mid < x")
      case below: True
      then have eq: "bisect_between xs x lo hi = bisect_between xs x (?mid + 1) hi"
        using True by (subst bisect_between.simps) (simp add: Let_def)
      have "\<forall>j < ?mid + 1. xs ! j < x"
      proof (intro allI impI)
        fix j assume "j < ?mid + 1"
        then have "xs ! j \<le> xs ! ?mid" using "1.prems"(1,3) mid by (intro sorted_nth_mono) auto
        then show "xs ! j < x" using below by simp
      qed
      then show ?thesis
        unfolding eq by (rule "1.IH"(1) [OF True refl below "1.prems"(1) _ "1.prems"(3) _ "1.prems"(5), rotated]) (use mid in simp)
    next
      case above: False
      then have eq: "bisect_between xs x lo hi = bisect_between xs x lo ?mid"
        using True by (subst bisect_between.simps) (simp add: Let_def)
      have "\<forall>j. ?mid \<le> j \<longrightarrow> j < length xs \<longrightarrow> x \<le> xs ! j"
      proof (intro allI impI)
        fix j assume "?mid \<le> j" "j < length xs"
        then have "xs ! ?mid \<le> xs ! j" using "1.prems"(1) by (intro sorted_nth_mono) auto
        then show "x \<le> xs ! j" using above by simp
      qed
      then show ?thesis
        unfolding eq
        by (rule "1.IH"(2) [OF True refl above "1.prems"(1) mid(1) _ "1.prems"(4), rotated]) (use mid "1.prems"(3) in simp)
    qed
  qed
qed

lemma bisect_left_spec:
  assumes "sorted xs"
  shows "bisect_left xs x \<le> length xs" "j < bisect_left xs x \<Longrightarrow> xs ! j < x"
    "bisect_left xs x \<le> j \<Longrightarrow> j < length xs \<Longrightarrow> x \<le> xs ! j"
  using bisect_between_spec [of xs 0 "length xs" x] assms by (auto simp: bisect_left_def)

definition history_inv :: "pose_history \<Rightarrow> bool" where
  "history_inv h \<longleftrightarrow> ts h = map pose_t (snaps h) \<and> sorted (map pose_t (snaps h))"

lemma append_pose_inv: "history_inv h \<Longrightarrow> append_pose h snap = Inr h' \<Longrightarrow> history_inv h'"
proof -
  assume inv: "history_inv h" and app: "append_pose h snap = Inr h'"
  have last: "ts h \<noteq> [] \<Longrightarrow> last (ts h) \<le> pose_t snap" using app by (auto simp: append_pose_def split: if_splits)
  have same: "ts h = map pose_t (snaps h)" and srt: "sorted (map pose_t (snaps h))"
    using inv by (simp_all add: history_inv_def)
  have all: "sorted (map pose_t (snaps h @ [snap]))"
    using srt last same by (cases "snaps h" rule: rev_cases) (auto simp: sorted_append dest: order_trans)
  obtain n where "ts h' = drop n (ts h @ [pose_t snap])" "snaps h' = drop n (snaps h @ [snap])"
  proof
    let ?n = "bisect_left (ts h @ [pose_t snap]) (pose_t snap - horizon_s h)"
    show "ts h' = drop ?n (ts h @ [pose_t snap])" "snaps h' = drop ?n (snaps h @ [snap])"
      using app by (auto simp: append_pose_def Let_def split: if_splits)
  qed
  moreover have "sorted (drop n (map pose_t (snaps h @ [snap])))" using all by (rule sorted_wrt_drop)
  moreover have "ts h @ [pose_t snap] = map pose_t (snaps h @ [snap])" using same by simp
  ultimately show ?thesis by (simp only: history_inv_def drop_map)
qed

interpretation pose_history: fallible_machine append_pose history_inv
  by standard (rule append_pose_inv)

text \<open>
  A detection is joined to the flight state nearest its image time. After any accepted
  sequence of snapshots the lookup returns one exactly when something is buffered, it is buffered,
  and none buffered is nearer in time.
\<close>

theorem nearest_pose_is_nearest:
  assumes "foldE append_pose \<lparr>horizon_s = horizon, ts = [], snaps = []\<rparr> xs = Inr h"
  shows "case nearest_pose t h of None \<Rightarrow> snaps h = []
    | Some p \<Rightarrow> p \<in> set (snaps h) \<and> (\<forall>s \<in> set (snaps h). \<bar>t - pose_t p\<bar> \<le> \<bar>t - pose_t s\<bar>)"
proof -
  have inv: "history_inv h"
    using pose_history.run_inv [OF _ assms] by (simp add: history_inv_def)
  then have ts: "ts h = map pose_t (snaps h)" and srt: "sorted (map pose_t (snaps h))"
    by (simp_all add: history_inv_def)
  define i where "i = bisect_left (ts h) t"
  have le: "i \<le> length (snaps h)"
    and lo: "\<And>j. j < i \<Longrightarrow> pose_t (snaps h ! j) < t"
    and hi: "\<And>j. i \<le> j \<Longrightarrow> j < length (snaps h) \<Longrightarrow> t \<le> pose_t (snaps h ! j)"
    using bisect_left_spec [OF srt, where x = t] by (auto simp: i_def ts)
  have mono: "pose_t (snaps h ! j) \<le> pose_t (snaps h ! k)" if "j \<le> k" "k < length (snaps h)" for j k
    using sorted_nth_mono [OF srt that(1)] that by simp
  have near: "\<bar>t - pose_t (snaps h ! m)\<bar> \<le> \<bar>t - pose_t s\<bar>"
    if s: "s \<in> set (snaps h)" and m: "m < length (snaps h)"
      and ok: "(m < i \<longrightarrow> m = i - 1 \<and> (i < length (snaps h) \<longrightarrow> t - pose_t (snaps h ! m) \<le> pose_t (snaps h ! i) - t))
        \<and> (i \<le> m \<longrightarrow> m = i \<and> (0 < i \<longrightarrow> pose_t (snaps h ! i) - t \<le> t - pose_t (snaps h ! (i - 1))))" for s m
  proof -
    obtain j where j: "j < length (snaps h)" "s = snaps h ! j" using s by (auto simp: in_set_conv_nth)
    show ?thesis
    proof (cases "j < i")
      case True
      then have "pose_t (snaps h ! j) \<le> pose_t (snaps h ! (i - 1))" using le by (intro mono) auto
      then show ?thesis
        using True j m ok lo [OF True] lo [of "i - 1"] lo [of m] hi [of m] by (cases "m < i") auto
    next
      case False
      then have "pose_t (snaps h ! i) \<le> pose_t (snaps h ! j)" using j by (intro mono) auto
      then show ?thesis
        using False j m ok hi [of j] hi [of i] lo [of m] hi [of m] by (cases "m < i") auto
    qed
  qed
  show ?thesis
  proof (cases "snaps h = []")
    case True
    then show ?thesis by (simp add: nearest_pose_def ts)
  next
    case False
    define m where "m = (if i = 0 then 0 else if i = length (snaps h) then i - 1
      else if t - pose_t (snaps h ! (i - 1)) \<le> pose_t (snaps h ! i) - t then i - 1 else i)"
    have np: "nearest_pose t h = Some (snaps h ! m)"
      using False by (auto simp: nearest_pose_def ts i_def [unfolded ts, symmetric] m_def Let_def last_conv_nth)
    have m: "m < length (snaps h)" using False le by (auto simp: m_def)
    have ok: "(m < i \<longrightarrow> m = i - 1 \<and> (i < length (snaps h) \<longrightarrow> t - pose_t (snaps h ! m) \<le> pose_t (snaps h ! i) - t))
        \<and> (i \<le> m \<longrightarrow> m = i \<and> (0 < i \<longrightarrow> pose_t (snaps h ! i) - t \<le> t - pose_t (snaps h ! (i - 1))))"
    proof (cases "i = 0 \<or> i = length (snaps h)")
      case True
      then show ?thesis using False by (cases "snaps h"; cases "i = 0") (simp_all add: m_def)
    next
      case inner: False
      then have "\<not> i \<le> i - Suc 0" by auto
      then show ?thesis
        by (cases "t - pose_t (snaps h ! (i - 1)) \<le> pose_t (snaps h ! i) - t")
          (use inner le in \<open>simp_all add: m_def\<close>)
    qed
    show ?thesis unfolding np using m near [OF _ m ok] by simp
  qed
qed

theorem nearest_pose_is_nearest_witness:
  "let p = (\<lambda>x. \<lparr>pose_t = x, pose_pos = (0, 0, 0), pose_q = (1, 0, 0, 0), pose_reset_counter = 0,
                 pose_ll = None, pose_agl = None\<rparr>)
   in \<exists>h. foldE append_pose \<lparr>horizon_s = 5, ts = [], snaps = []\<rparr> [p 1, p 2] = Inr h
        \<and> (\<exists>s. nearest_pose (7 / 4) h = Some s \<and> s \<in> set (snaps h) \<and> \<bar>7 / 4 - pose_t s\<bar> \<le> 1 / 4)"
proof -
  let ?p = "\<lambda>x. \<lparr>pose_t = x, pose_pos = (0, 0, 0), pose_q = (1, 0, 0, 0), pose_reset_counter = 0,
                 pose_ll = None, pose_agl = None\<rparr>"
  obtain h where h: "foldE append_pose \<lparr>horizon_s = 5, ts = [], snaps = []\<rparr> [?p 1, ?p 2] = Inr h"
      "snaps h = [?p 1, ?p 2]" "\<exists>s. nearest_pose (7 / 4) h = Some s"
    by (simp add: append_pose_def bisect_left_def bisect_between.simps nearest_pose_def Let_def)
  with nearest_pose_is_nearest [OF h(1), of "7 / 4"] show ?thesis by fastforce
qed

end
