(* ===== verification/Anchor.thy ===== *)
theory Anchor
  imports Geometry "HOL-Library.List_Lexorder" "HOL-Library.Char_ord"
begin

text \<open>
  The tag anchor (\<open>mission_engine/core/anchor.py\<close>): reference fixes of ground tags, the drift of the
  flight frame they expose as a least-squares rigid motion, the sustained-disagreement guard, and
  the rate-limited offset applied to setpoints.
\<close>

section \<open>Data\<close>

record anchor_config =
  min_agl_m :: real
  max_agl_m :: real
  max_radial_m :: real
  settle_obs :: int
  settle_window_s :: real
  settle_spread_m :: real
  gate_m :: real
  gate_persist_s :: real
  stale_s :: real

text \<open>A configuration with the defaults of the fields a node does not set.\<close>

definition anchor_config_of :: "real \<Rightarrow> real \<Rightarrow> real \<Rightarrow> real \<Rightarrow> anchor_config" where
  "anchor_config_of gate persist radial highest =
     \<lparr>min_agl_m = 1 / 2, max_agl_m = highest, max_radial_m = radial, settle_obs = 4, settle_window_s = 5,
      settle_spread_m = 6 / 10, gate_m = gate, gate_persist_s = persist, stale_s = 10\<rparr>"

definition check_anchor_config :: "anchor_config \<Rightarrow> py_error + unit" where
  "check_anchor_config c =
     (if \<not> (0 < min_agl_m c \<and> min_agl_m c < max_agl_m c) then Inl (ValueError ''need 0 < min_agl_m < max_agl_m'')
      else if settle_obs c < 2 then Inl (ValueError ''settle_obs must be at least 2'')
      else if gate_m c \<le> settle_spread_m c then Inl (ValueError ''gate_m must exceed settle_spread_m'')
      else Inr ())"

record anchor_transform =
  tf_dn :: real
  tf_de :: real
  tf_dyaw :: real
  tf_n_tags :: nat
  tf_points :: "point list"

definition moved :: "real \<Rightarrow> real \<Rightarrow> real \<Rightarrow> point \<Rightarrow> point" where
  "moved yaw dn de p =
     (cos yaw * fst p - sin yaw * snd p + dn, sin yaw * fst p + cos yaw * snd p + de)"

definition displacement_vector_at :: "anchor_transform \<Rightarrow> point \<Rightarrow> point" where
  "displacement_vector_at tf p =
     (let m = moved (tf_dyaw tf) (tf_dn tf) (tf_de tf) p in (fst m - fst p, snd m - snd p))"

definition displacement_at :: "anchor_transform \<Rightarrow> point \<Rightarrow> real" where
  "displacement_at tf p = (let v = displacement_vector_at tf p in hypot (fst v) (snd v))"

definition mean_point :: "point list \<Rightarrow> point" where
  "mean_point ps = (sum_list (map fst ps) / of_nat (length ps), sum_list (map snd ps) / of_nat (length ps))"

definition tf_centroid :: "anchor_transform \<Rightarrow> point" where
  "tf_centroid tf = (if tf_points tf = [] then (0, 0) else mean_point (tf_points tf))"

definition max_displacement :: "anchor_transform \<Rightarrow> real" where
  "max_displacement tf =
     (if tf_points tf = [] then 0 else Max (set (map (displacement_at tf) (tf_points tf))))"

record anchor_fix =
  fx_t :: real
  fx_tag :: string
  fx_fix :: point
  fx_residual :: point
  fx_agl :: real
  fx_radial :: real
  fx_settled :: bool

record reference =
  pending :: "(real \<times> point) list"
  origin :: "point option"
  ref_n_obs :: nat
  ref_first_seen :: real
  ref_last_seen :: real

text \<open>The dictionary of references keeps insertion order; the code reads it by key and sorted.\<close>

record tag_map =
  acfg :: anchor_config
  refs :: "string \<Rightarrow> reference option"
  fixes_log :: "anchor_fix list"
  n_rejected :: nat
  breach_t0 :: "real option"

definition new_tag_map :: "anchor_config \<Rightarrow> tag_map" where
  "new_tag_map c = \<lparr>acfg = c, refs = Map.empty, fixes_log = [], n_rejected = 0, breach_t0 = None\<rparr>"

section \<open>Observations\<close>

definition shift_point :: "real \<Rightarrow> real \<Rightarrow> point \<Rightarrow> point" where
  "shift_point dn de p = (fst p + dn, snd p + de)"

definition anchor_frame_reset :: "real \<Rightarrow> real \<Rightarrow> tag_map \<Rightarrow> tag_map" where
  "anchor_frame_reset dn de m =
     m\<lparr>refs := (\<lambda>tag. map_option (\<lambda>r. r\<lparr>pending := map (\<lambda>(t, p). (t, shift_point dn de p)) (pending r),
                                          origin := map_option (shift_point dn de) (origin r)\<rparr>) (refs m tag)),
       fixes_log := map (\<lambda>f. f\<lparr>fx_fix := shift_point dn de (fx_fix f)\<rparr>) (fixes_log m)\<rparr>"

definition window_spread :: "point list \<Rightarrow> real" where
  "window_spread ps = Max (set (map (\<lambda>p. dist2 p (mean_point ps)) ps))"

text \<open>\<open>_accumulate\<close>: grow the settling window, promote it to a datum once it is tight.\<close>

definition accumulate :: "anchor_config \<Rightarrow> real \<Rightarrow> point \<Rightarrow> reference \<Rightarrow> reference" where
  "accumulate c t fix r =
     (let window = filter (\<lambda>s. t - fst s \<le> settle_window_s c) (pending r) @ [(t, fix)];
          r1 = r\<lparr>pending := window\<rparr>
      in if int (length window) < settle_obs c then r1
         else if window_spread (map snd window) \<le> settle_spread_m c
         then r1\<lparr>origin := Some (mean_point (map snd window)), pending := []\<rparr>
         else r1\<lparr>pending := drop (length window div 2) window\<rparr>)"

definition pending_mean :: "reference \<Rightarrow> point" where
  "pending_mean r = (if pending r = [] then (0, 0) else mean_point (map snd (pending r)))"

text \<open>Coordinates are reals here, so the test that they are finite always passes.\<close>

definition observe :: "real \<Rightarrow> string \<Rightarrow> point \<Rightarrow> point \<Rightarrow> real \<Rightarrow> tag_map \<Rightarrow> anchor_fix option \<times> tag_map" where
  "observe t tag fix nadir agl m =
     (if \<not> (min_agl_m (acfg m) \<le> agl \<and> agl \<le> max_agl_m (acfg m)) then (None, m\<lparr>n_rejected := n_rejected m + 1\<rparr>)
      else
        let radial = dist2 fix nadir
        in if radial > max_radial_m (acfg m) then (None, m\<lparr>n_rejected := n_rejected m + 1\<rparr>)
           else
             let r0 = (case refs m tag of
                         Some r \<Rightarrow> r
                       | None \<Rightarrow> \<lparr>pending = [], origin = None, ref_n_obs = 0, ref_first_seen = t, ref_last_seen = 0\<rparr>);
                 r1 = r0\<lparr>ref_n_obs := ref_n_obs r0 + 1, ref_last_seen := t\<rparr>;
                 was_settled = (origin r1 \<noteq> None);
                 r2 = (if was_settled then r1 else accumulate (acfg m) t fix r1);
                 o2 = (case origin r2 of Some p \<Rightarrow> p | None \<Rightarrow> pending_mean r2);
                 f = \<lparr>fx_t = t, fx_tag = tag, fx_fix = fix,
                      fx_residual = (fst fix - fst o2, snd fix - snd o2), fx_agl = agl, fx_radial = radial,
                      fx_settled = was_settled\<rparr>
             in (Some f, m\<lparr>refs := (refs m)(tag \<mapsto> r2), fixes_log := fixes_log m @ [f]\<rparr>))"

section \<open>Drift\<close>

definition median :: "real list \<Rightarrow> real" where
  "median values =
     (let ordered = sort values; n = length ordered; mid = n div 2
      in if odd n then ordered ! mid else (1 / 2) * (ordered ! (mid - 1) + ordered ! mid))"

type_synonym correspondence = "point \<times> point"

text \<open>\<open>_correspondences\<close>: the groups are visited in the lexicographic order of their tags.\<close>

definition recent_fixes :: "real \<Rightarrow> real \<Rightarrow> tag_map \<Rightarrow> anchor_fix list" where
  "recent_fixes t max_age m = filter (\<lambda>f. fx_settled f \<and> \<not> t - fx_t f > max_age) (fixes_log m)"

definition correspondences :: "real \<Rightarrow> real \<Rightarrow> tag_map \<Rightarrow> correspondence list" where
  "correspondences t max_age m =
     (let recent = recent_fixes t max_age m
      in List.map_filter (\<lambda>tag.
           let group = filter (\<lambda>f. fx_tag f = tag) recent
           in case refs m tag of
                None \<Rightarrow> None
              | Some r \<Rightarrow> map_option (\<lambda>p. (p, (median (map (fst \<circ> fx_fix) group), median (map (snd \<circ> fx_fix) group))))
                            (origin r))
         (sort (remdups (map fx_tag recent))))"

fun pair_errors :: "correspondence list \<Rightarrow> real list" where
  "pair_errors [] = []"
| "pair_errors ((oa, fa) # rest) = map (\<lambda>(ob, fb). \<bar>dist2 fa fb - dist2 oa ob\<bar>) rest @ pair_errors rest"

definition pair_geometry_error :: "correspondence list \<Rightarrow> real" where
  "pair_geometry_error pairs = foldl max 0 (pair_errors pairs)"

definition rigid_fit :: "correspondence list \<Rightarrow> anchor_transform" where
  "rigid_fit pairs =
     (let p = mean_point (map fst pairs); q = mean_point (map snd pairs);
          cross = (\<Sum>(a, b)\<leftarrow>pairs. (fst a - fst p) * (snd b - snd q) - (snd a - snd p) * (fst b - fst q));
          dot = (\<Sum>(a, b)\<leftarrow>pairs. (fst a - fst p) * (fst b - fst q) + (snd a - snd p) * (snd b - snd q));
          dyaw = (if cross \<noteq> 0 \<or> dot \<noteq> 0 then atan2 cross dot else 0);
          c = cos dyaw; s = sin dyaw
      in \<lparr>tf_dn = fst q - (c * fst p - s * snd p), tf_de = snd q - (s * fst p + c * snd p),
          tf_dyaw = dyaw, tf_n_tags = length pairs, tf_points = map fst pairs\<rparr>)"

definition drift ::
  "real \<Rightarrow> nat \<Rightarrow> real option \<Rightarrow> real option \<Rightarrow> tag_map \<Rightarrow> anchor_transform option" where
  "drift t min_tags max_age max_pair_error m =
     (let pairs = correspondences t (case max_age of None \<Rightarrow> stale_s (acfg m) | Some a \<Rightarrow> a) m
      in if length pairs < min_tags then None
         else if (case max_pair_error of None \<Rightarrow> False | Some e \<Rightarrow> pair_geometry_error pairs > e) then None
         else case pairs of
                [(o1, f1)] \<Rightarrow> Some \<lparr>tf_dn = fst f1 - fst o1, tf_de = snd f1 - snd o1, tf_dyaw = 0,
                                     tf_n_tags = 1, tf_points = [o1]\<rparr>
              | _ \<Rightarrow> Some (rigid_fit pairs))"

text \<open>\<open>disagreement\<close>: the report carries what it prints.\<close>

definition disagreement ::
  "real \<Rightarrow> tag_map \<Rightarrow> (real \<times> anchor_transform \<times> real) option \<times> tag_map" where
  "disagreement t m =
     (case drift t 1 None None m of
        None \<Rightarrow> (None, m\<lparr>breach_t0 := None\<rparr>)
      | Some d \<Rightarrow>
          if max_displacement d \<le> gate_m (acfg m) then (None, m\<lparr>breach_t0 := None\<rparr>)
          else case breach_t0 m of
                 None \<Rightarrow> (None, m\<lparr>breach_t0 := Some t\<rparr>)
               | Some t0 \<Rightarrow> if t - t0 < gate_persist_s (acfg m) then (None, m)
                            else (Some (max_displacement d, d, t - t0), m))"

text \<open>\<open>report\<close>: the references in the order of their tags.\<close>

record tag_report =
  tr_tag :: string
  tr_settled :: bool
  tr_origin :: "point option"
  tr_n_obs :: nat
  tr_first_seen :: real
  tr_last_seen :: real

record anchor_report =
  ar_tags :: "tag_report list"
  ar_n_fixes :: nat
  ar_n_rejected :: nat
  ar_max_residual :: real

definition residual_m :: "anchor_fix \<Rightarrow> real" where
  "residual_m f = hypot (fst (fx_residual f)) (snd (fx_residual f))"

definition report_tag :: "string \<Rightarrow> reference \<Rightarrow> tag_report" where
  "report_tag tag r = \<lparr>tr_tag = tag, tr_settled = (origin r \<noteq> None), tr_origin = origin r, tr_n_obs = ref_n_obs r,
     tr_first_seen = ref_first_seen r, tr_last_seen = ref_last_seen r\<rparr>"

definition anchor_summary :: "tag_map \<Rightarrow> anchor_report" where
  "anchor_summary m =
     \<lparr>ar_tags = map (\<lambda>tag. report_tag tag (the (refs m tag))) (sorted_list_of_set (dom (refs m))),
      ar_n_fixes = length (fixes_log m), ar_n_rejected = n_rejected m,
      ar_max_residual = (let rs = map residual_m (filter fx_settled (fixes_log m)) in if rs = [] then 0 else Max (set rs))\<rparr>"

section \<open>Setpoint correction\<close>

record correction_config =
  max_rate_mps :: real
  max_correction_m :: real

definition check_correction :: "correction_config \<Rightarrow> py_error + unit" where
  "check_correction c =
     (if max_rate_mps c \<le> 0 then Inl (ValueError ''max_rate_mps must be positive'')
      else if max_correction_m c \<le> 0 then Inl (ValueError ''max_correction_m must be positive'')
      else Inr ())"

record correction =
  ccfg :: correction_config
  applied :: point
  target :: point
  frame_shift :: point
  saturated :: bool
  last_t :: "real option"

definition new_correction :: "correction_config \<Rightarrow> correction" where
  "new_correction c =
     \<lparr>ccfg = c, applied = (0, 0), target = (0, 0), frame_shift = (0, 0), saturated = False, last_t = None\<rparr>"

definition correction_frame_reset :: "real \<Rightarrow> real \<Rightarrow> correction \<Rightarrow> correction" where
  "correction_frame_reset dn de s = s\<lparr>frame_shift := (fst (frame_shift s) + dn, snd (frame_shift s) + de)\<rparr>"

definition retarget :: "anchor_transform \<Rightarrow> correction \<Rightarrow> correction" where
  "retarget tf s =
     (let (dn, de) = displacement_vector_at tf (tf_centroid tf);
          mag = hypot dn de; sat = (mag > max_correction_m (ccfg s));
          scale = max_correction_m (ccfg s) / mag
      in s\<lparr>saturated := sat, target := (if sat then (dn * scale, de * scale) else (dn, de))\<rparr>)"

definition slew :: "real \<Rightarrow> correction \<Rightarrow> point" where
  "slew dt s =
     (let dn = fst (target s) - fst (applied s); de = snd (target s) - snd (applied s);
          gap = hypot dn de; reach = max_rate_mps (ccfg s) * dt
      in if gap \<le> reach \<or> gap = 0 then target s
         else (fst (applied s) + dn * reach / gap, snd (applied s) + de * reach / gap))"

definition update_correction :: "real \<Rightarrow> anchor_transform option \<Rightarrow> correction \<Rightarrow> correction" where
  "update_correction t tf s =
     (let s1 = (case tf of None \<Rightarrow> s | Some x \<Rightarrow> retarget x s);
          dt = (case last_t s1 of None \<Rightarrow> 0 | Some t0 \<Rightarrow> max 0 (t - t0))
      in s1\<lparr>last_t := Some t, applied := slew dt s1\<rparr>)"

definition pending_m :: "correction \<Rightarrow> real" where
  "pending_m s = hypot (fst (target s) - fst (applied s)) (snd (target s) - snd (applied s))"

definition to_plan :: "correction \<Rightarrow> point \<Rightarrow> point" where
  "to_plan s pos = (fst pos - fst (frame_shift s) - fst (applied s), snd pos - snd (frame_shift s) - snd (applied s))"

definition to_flight :: "correction \<Rightarrow> point \<Rightarrow> point" where
  "to_flight s p = (fst p + fst (frame_shift s) + fst (applied s), snd p + snd (frame_shift s) + snd (applied s))"

section \<open>The fit is optimal\<close>

definition fit_error :: "real \<Rightarrow> real \<Rightarrow> real \<Rightarrow> correspondence list \<Rightarrow> real" where
  "fit_error yaw dn de pairs =
     (\<Sum>(a, b)\<leftarrow>pairs. (fst (moved yaw dn de a) - fst b)\<^sup>2 + (snd (moved yaw dn de a) - snd b)\<^sup>2)"

text \<open>Centred on the two means, the error splits into the centred error and that of the means.\<close>

definition centred_dot :: "correspondence list \<Rightarrow> real" where
  "centred_dot pairs = (let p = mean_point (map fst pairs); q = mean_point (map snd pairs)
     in \<Sum>(a, b)\<leftarrow>pairs. (fst a - fst p) * (fst b - fst q) + (snd a - snd p) * (snd b - snd q))"

definition centred_cross :: "correspondence list \<Rightarrow> real" where
  "centred_cross pairs = (let p = mean_point (map fst pairs); q = mean_point (map snd pairs)
     in \<Sum>(a, b)\<leftarrow>pairs. (fst a - fst p) * (snd b - snd q) - (snd a - snd p) * (fst b - fst q))"

definition centred_size :: "correspondence list \<Rightarrow> real" where
  "centred_size pairs = (let p = mean_point (map fst pairs); q = mean_point (map snd pairs)
     in \<Sum>(a, b)\<leftarrow>pairs. (fst a - fst p)\<^sup>2 + (snd a - snd p)\<^sup>2 + (fst b - fst q)\<^sup>2 + (snd b - snd q)\<^sup>2)"

lemma sum_deviation_zero:
  fixes f :: "'a \<Rightarrow> real"
  assumes "xs \<noteq> []"
  shows "(\<Sum>x\<leftarrow>xs. f x - sum_list (map f xs) / of_nat (length xs)) = 0"
proof -
  have "(\<Sum>x\<leftarrow>xs. f x - c) = sum_list (map f xs) - of_nat (length xs) * c" for c
    by (induction xs) (simp_all add: algebra_simps)
  then show ?thesis using assms by simp
qed

lemma pointwise_error:
  fixes a b p q :: point and c s dn de :: real
  assumes "c * c + s * s = (1 :: real)"
  defines "u \<equiv> c * fst p - s * snd p + dn - fst q" and "v \<equiv> s * fst p + c * snd p + de - snd q"
  shows "(c * fst a - s * snd a + dn - fst b)\<^sup>2 + (s * fst a + c * snd a + de - snd b)\<^sup>2
    = ((fst a - fst p)\<^sup>2 + (snd a - snd p)\<^sup>2 + (fst b - fst q)\<^sup>2 + (snd b - snd q)\<^sup>2)
      - 2 * (c * ((fst a - fst p) * (fst b - fst q) + (snd a - snd p) * (snd b - snd q))
             + s * ((fst a - fst p) * (snd b - snd q) - (snd a - snd p) * (fst b - fst q)))
      + (u\<^sup>2 + v\<^sup>2)
      + 2 * ((c * u + s * v) * (fst a - fst p) + (c * v - s * u) * (snd a - snd p)
             - u * (fst b - fst q) - v * (snd b - snd q))"
  using assms unfolding u_def v_def by (simp add: power2_eq_square) algebra

lemma fit_error_about:
  fixes p q :: point and yaw dn de :: real
  defines "u \<equiv> cos yaw * fst p - sin yaw * snd p + dn - fst q"
    and "v \<equiv> sin yaw * fst p + cos yaw * snd p + de - snd q"
  shows "fit_error yaw dn de pairs =
      (\<Sum>(a, b)\<leftarrow>pairs. (fst a - fst p)\<^sup>2 + (snd a - snd p)\<^sup>2 + (fst b - fst q)\<^sup>2 + (snd b - snd q)\<^sup>2)
      - 2 * (cos yaw * (\<Sum>(a, b)\<leftarrow>pairs. (fst a - fst p) * (fst b - fst q) + (snd a - snd p) * (snd b - snd q))
             + sin yaw * (\<Sum>(a, b)\<leftarrow>pairs. (fst a - fst p) * (snd b - snd q) - (snd a - snd p) * (fst b - fst q)))
      + of_nat (length pairs) * (u\<^sup>2 + v\<^sup>2)
      + 2 * ((cos yaw * u + sin yaw * v) * (\<Sum>x\<leftarrow>pairs. fst (fst x) - fst p)
             + (cos yaw * v - sin yaw * u) * (\<Sum>x\<leftarrow>pairs. snd (fst x) - snd p)
             - u * (\<Sum>x\<leftarrow>pairs. fst (snd x) - fst q) - v * (\<Sum>x\<leftarrow>pairs. snd (snd x) - snd q))"
proof (induction pairs)
  case Nil
  show ?case by (simp add: fit_error_def)
next
  case (Cons x pairs)
  obtain a b where x: "x = (a, b)" by (cases x)
  have unit: "cos yaw * cos yaw + sin yaw * sin yaw = 1" by (simp flip: power2_eq_square)
  have step: "fit_error yaw dn de (x # pairs)
      = ((cos yaw * fst a - sin yaw * snd a + dn - fst b)\<^sup>2 + (sin yaw * fst a + cos yaw * snd a + de - snd b)\<^sup>2)
        + fit_error yaw dn de pairs"
    by (simp add: fit_error_def x moved_def)
  show ?case
    unfolding step Cons.IH pointwise_error [OF unit, of a dn b de p q, folded u_def v_def]
    by (simp add: x algebra_simps)
qed

lemma fit_error_split:
  assumes "pairs \<noteq> []"
  shows "fit_error yaw dn de pairs = centred_size pairs
      - 2 * (cos yaw * centred_dot pairs + sin yaw * centred_cross pairs)
      + of_nat (length pairs)
        * ((cos yaw * fst (mean_point (map fst pairs)) - sin yaw * snd (mean_point (map fst pairs)) + dn
              - fst (mean_point (map snd pairs)))\<^sup>2
         + (sin yaw * fst (mean_point (map fst pairs)) + cos yaw * snd (mean_point (map fst pairs)) + de
              - snd (mean_point (map snd pairs)))\<^sup>2)"
proof -
  have dev: "(\<Sum>x\<leftarrow>pairs. fst (fst x) - fst (mean_point (map fst pairs))) = 0"
    "(\<Sum>x\<leftarrow>pairs. snd (fst x) - snd (mean_point (map fst pairs))) = 0"
    "(\<Sum>x\<leftarrow>pairs. fst (snd x) - fst (mean_point (map snd pairs))) = 0"
    "(\<Sum>x\<leftarrow>pairs. snd (snd x) - snd (mean_point (map snd pairs))) = 0"
    using sum_deviation_zero [OF assms, of "\<lambda>x. fst (fst x)"] sum_deviation_zero [OF assms, of "\<lambda>x. snd (fst x)"]
      sum_deviation_zero [OF assms, of "\<lambda>x. fst (snd x)"] sum_deviation_zero [OF assms, of "\<lambda>x. snd (snd x)"]
    by (simp_all add: mean_point_def o_def)
  show ?thesis
    using fit_error_about [of yaw dn de pairs "mean_point (map fst pairs)" "mean_point (map snd pairs)"]
    by (simp add: dev centred_size_def centred_dot_def centred_cross_def Let_def)
qed

lemma rotation_gain_bound: "cos yaw * d + sin yaw * x \<le> hypot d x"
proof -
  have "(cos yaw * d + sin yaw * x)\<^sup>2 + (cos yaw * x - sin yaw * d)\<^sup>2 = ((cos yaw)\<^sup>2 + (sin yaw)\<^sup>2) * (d\<^sup>2 + x\<^sup>2)"
    by algebra
  then have "(cos yaw * d + sin yaw * x)\<^sup>2 + (cos yaw * x - sin yaw * d)\<^sup>2 = d\<^sup>2 + x\<^sup>2" by simp
  moreover have "0 \<le> (cos yaw * x - sin yaw * d)\<^sup>2" by simp
  ultimately have "(cos yaw * d + sin yaw * x)\<^sup>2 \<le> d\<^sup>2 + x\<^sup>2" by linarith
  then have "sqrt ((cos yaw * d + sin yaw * x)\<^sup>2) \<le> sqrt (d\<^sup>2 + x\<^sup>2)" by (rule real_sqrt_le_mono)
  then have "\<bar>cos yaw * d + sin yaw * x\<bar> \<le> hypot d x" by (simp add: hypot_def power2_eq_square)
  then show ?thesis by linarith
qed

lemma rigid_fit_gain:
  "cos (tf_dyaw (rigid_fit pairs)) * centred_dot pairs + sin (tf_dyaw (rigid_fit pairs)) * centred_cross pairs
   = hypot (centred_dot pairs) (centred_cross pairs)"
proof -
  let ?d = "centred_dot pairs" and ?x = "centred_cross pairs"
  have yaw: "tf_dyaw (rigid_fit pairs) = (if ?x \<noteq> 0 \<or> ?d \<noteq> 0 then atan2 ?x ?d else 0)"
    by (simp add: rigid_fit_def centred_dot_def centred_cross_def Let_def)
  show ?thesis
  proof (cases "?x \<noteq> 0 \<or> ?d \<noteq> 0")
    case True
    then have cs: "hypot ?d ?x * cos (atan2 ?x ?d) = ?d" "hypot ?d ?x * sin (atan2 ?x ?d) = ?x"
      using atan2_cos_sin [of ?d ?x] by auto
    moreover have "C * d + S * x = H" if "H * C = d" "H * S = x" "C * C + S * S = 1" for C S H d x :: real
    proof -
      have "C * d + S * x = H * (C * C + S * S)" using that(1,2) by (auto simp: algebra_simps)
      then show ?thesis using that(3) by simp
    qed
    moreover have "cos (atan2 ?x ?d) * cos (atan2 ?x ?d) + sin (atan2 ?x ?d) * sin (atan2 ?x ?d) = 1"
      by (simp flip: power2_eq_square)
    ultimately have "cos (atan2 ?x ?d) * ?d + sin (atan2 ?x ?d) * ?x = hypot ?d ?x" by blast
    then show ?thesis using True by (simp add: yaw)
  qed (simp add: yaw)
qed

text \<open>
  The drift estimate is the least-squares rigid motion. For any correspondences, no rotation
  and translation carries the datum points closer, in summed squared distance, to their current
  fixes than the fitted one.
\<close>

theorem rigid_fit_optimal:
  assumes "pairs \<noteq> []"
  shows "fit_error (tf_dyaw (rigid_fit pairs)) (tf_dn (rigid_fit pairs)) (tf_de (rigid_fit pairs)) pairs
    \<le> fit_error yaw dn de pairs"
proof -
  let ?y = "tf_dyaw (rigid_fit pairs)"
  let ?d = "centred_dot pairs" and ?x = "centred_cross pairs"
  have fit: "tf_dn (rigid_fit pairs) = fst (mean_point (map snd pairs))
        - (cos ?y * fst (mean_point (map fst pairs)) - sin ?y * snd (mean_point (map fst pairs)))"
    "tf_de (rigid_fit pairs) = snd (mean_point (map snd pairs))
        - (sin ?y * fst (mean_point (map fst pairs)) + cos ?y * snd (mean_point (map fst pairs)))"
    by (simp_all add: rigid_fit_def Let_def)
  have "fit_error ?y (tf_dn (rigid_fit pairs)) (tf_de (rigid_fit pairs)) pairs
      = centred_size pairs - 2 * hypot ?d ?x"
    unfolding fit_error_split [OF assms] rigid_fit_gain fit by simp
  also have "\<dots> \<le> centred_size pairs - 2 * (cos yaw * ?d + sin yaw * ?x)"
    using rotation_gain_bound [of yaw ?d ?x] by simp
  also have "\<dots> \<le> fit_error yaw dn de pairs"
    unfolding fit_error_split [OF assms] by simp
  finally show ?thesis .
qed

theorem rigid_fit_optimal_witness:
  "fit_error (tf_dyaw (rigid_fit [((0, 0), (1, 0)), ((2, 0), (3, 1))])) (tf_dn (rigid_fit [((0, 0), (1, 0)), ((2, 0), (3, 1))]))
     (tf_de (rigid_fit [((0, 0), (1, 0)), ((2, 0), (3, 1))])) [((0, 0), (1, 0)), ((2, 0), (3, 1))] \<le> 1"
proof -
  have "fit_error 0 1 0 [((0, 0), (1, 0)), ((2, 0), (3, 1))] = 1" by (simp add: fit_error_def moved_def)
  with rigid_fit_optimal [of "[((0, 0), (1, 0)), ((2, 0), (3, 1))]" 0 1 0] show ?thesis by simp
qed

section \<open>The offset stays bounded and moves slowly\<close>

definition correction_inv :: "correction \<Rightarrow> bool" where
  "correction_inv s \<longleftrightarrow> 0 < max_rate_mps (ccfg s) \<and> 0 < max_correction_m (ccfg s)
     \<and> hypot (fst (target s)) (snd (target s)) \<le> max_correction_m (ccfg s)
     \<and> hypot (fst (applied s)) (snd (applied s)) \<le> max_correction_m (ccfg s)"

lemma retarget_bounded:
  assumes "0 < max_correction_m (ccfg s)"
  shows "hypot (fst (target (retarget tf s))) (snd (target (retarget tf s))) \<le> max_correction_m (ccfg s)"
proof -
  obtain dn de where d: "displacement_vector_at tf (tf_centroid tf) = (dn, de)"
    by (cases "displacement_vector_at tf (tf_centroid tf)")
  show ?thesis
  proof (cases "hypot dn de > max_correction_m (ccfg s)")
    case True
    let ?k = "max_correction_m (ccfg s) / hypot dn de"
    have "hypot (dn * ?k) (de * ?k) = \<bar>?k\<bar> * hypot dn de" using hypot_scale [of ?k dn de] by (simp add: mult.commute)
    also have "\<dots> = max_correction_m (ccfg s)"
    proof -
      have "0 < hypot dn de" using assms True by linarith
      then show ?thesis using assms by (simp del: hypot_eq_0_iff add: abs_of_pos)
    qed
    finally show ?thesis using True by (simp add: retarget_def d Let_def)
  qed (simp add: retarget_def d Let_def)
qed

lemma retarget_frame [simp]:
  "ccfg (retarget tf s) = ccfg s" "applied (retarget tf s) = applied s" "frame_shift (retarget tf s) = frame_shift s"
  "last_t (retarget tf s) = last_t s"
  by (simp_all add: retarget_def Let_def case_prod_beta)

text \<open>A step of the slew: a point of the segment from the applied to the target offset.\<close>

lemma slew_on_segment:
  assumes "0 \<le> max_rate_mps (ccfg s) * dt"
  obtains u where "0 \<le> u" "u \<le> 1" "u * pending_m s \<le> max_rate_mps (ccfg s) * dt"
    "slew dt s = (fst (applied s) + u * (fst (target s) - fst (applied s)),
                  snd (applied s) + u * (snd (target s) - snd (applied s)))"
proof (cases "pending_m s \<le> max_rate_mps (ccfg s) * dt \<or> pending_m s = 0")
  case True
  then have "slew dt s = target s" by (simp add: slew_def pending_m_def Let_def)
  then show thesis using True assms by (intro that [of 1]) auto
next
  case False
  let ?u = "max_rate_mps (ccfg s) * dt / pending_m s"
  have pos: "0 < pending_m s" using False assms by linarith
  have "slew dt s = (fst (applied s) + ?u * (fst (target s) - fst (applied s)),
                  snd (applied s) + ?u * (snd (target s) - snd (applied s)))"
    using False unfolding slew_def Let_def pending_m_def [symmetric] by (simp add: mult.commute)
  then show thesis using pos assms False by (intro that [of ?u]) (simp_all add: divide_le_eq)
qed

lemma slew_bounded:
  assumes inv: "correction_inv s" and "0 \<le> dt"
  shows "hypot (fst (slew dt s)) (snd (slew dt s)) \<le> max_correction_m (ccfg s)"
    and "hypot (fst (slew dt s) - fst (applied s)) (snd (slew dt s) - snd (applied s)) \<le> max_rate_mps (ccfg s) * dt"
proof -
  have "0 \<le> max_rate_mps (ccfg s) * dt" using assms by (simp add: correction_inv_def)
  then obtain u where u: "0 \<le> u" "u \<le> 1" "u * pending_m s \<le> max_rate_mps (ccfg s) * dt"
    and sl: "slew dt s = (fst (applied s) + u * (fst (target s) - fst (applied s)),
                  snd (applied s) + u * (snd (target s) - snd (applied s)))"
    by (rule slew_on_segment)
  have "hypot (fst (slew dt s)) (snd (slew dt s))
      = hypot ((1 - u) * fst (applied s) + u * fst (target s)) ((1 - u) * snd (applied s) + u * snd (target s))"
    by (simp add: sl algebra_simps)
  also have "\<dots> \<le> hypot ((1 - u) * fst (applied s)) ((1 - u) * snd (applied s))
      + hypot (u * fst (target s)) (u * snd (target s))" by (rule hypot_triangle)
  also have "\<dots> = (1 - u) * hypot (fst (applied s)) (snd (applied s)) + u * hypot (fst (target s)) (snd (target s))"
    using u by (simp add: hypot_scale)
  also have "\<dots> \<le> (1 - u) * max_correction_m (ccfg s) + u * max_correction_m (ccfg s)"
    using inv u by (intro add_mono mult_left_mono) (auto simp: correction_inv_def)
  finally show "hypot (fst (slew dt s)) (snd (slew dt s)) \<le> max_correction_m (ccfg s)" by (simp add: algebra_simps)
  show "hypot (fst (slew dt s) - fst (applied s)) (snd (slew dt s) - snd (applied s)) \<le> max_rate_mps (ccfg s) * dt"
    using u by (simp add: sl hypot_scale pending_m_def)
qed

datatype correction_event = Update real "anchor_transform option" | FrameReset real real

definition correction_step :: "correction \<Rightarrow> correction_event \<Rightarrow> correction" where
  "correction_step s e =
     (case e of Update t tf \<Rightarrow> update_correction t tf s | FrameReset dn de \<Rightarrow> correction_frame_reset dn de s)"

lemma correction_step_inv: "correction_inv s \<Longrightarrow> correction_inv (correction_step s e)"
proof (cases e)
  case (FrameReset dn de)
  then show "correction_inv s \<Longrightarrow> ?thesis"
    by (simp add: correction_step_def correction_frame_reset_def correction_inv_def)
next
  case (Update t tf)
  assume inv: "correction_inv s"
  define s1 where "s1 = (case tf of None \<Rightarrow> s | Some x \<Rightarrow> retarget x s)"
  have "correction_inv s1"
    using inv retarget_bounded by (simp add: s1_def correction_inv_def split: option.split)
  then show ?thesis
    using slew_bounded(1) [of s1 "case last_t s1 of None \<Rightarrow> 0 | Some t0 \<Rightarrow> max 0 (t - t0)"]
    by (simp add: Update correction_step_def update_correction_def s1_def [symmetric] Let_def correction_inv_def
        split: option.splits)
qed

interpretation correction: machine correction_step correction_inv
  by standard (rule correction_step_inv)

text \<open>
  The setpoint correction is bounded, slow and consistent. After any updates and frame resets
  the applied offset is at most the configured maximum; one more update at a later time moves it by
  at most the maximal rate times the elapsed time; planning and flight frame convert back and forth
  exactly, and a frame reset leaves the planned position of the vehicle unchanged.
\<close>

theorem correction_bounded_and_slow:
  fixes es :: "correction_event list"
  assumes cfg: "check_correction c = Inr u"
  defines "s \<equiv> foldl correction_step (new_correction c) es"
  shows "hypot (fst (applied s)) (snd (applied s)) \<le> max_correction_m c
    \<and> (let s' = update_correction t tf s;
           dt = (case last_t s of None \<Rightarrow> 0 | Some t0 \<Rightarrow> max 0 (t - t0))
       in hypot (fst (applied s') - fst (applied s)) (snd (applied s') - snd (applied s)) \<le> max_rate_mps c * dt)
    \<and> to_plan s (to_flight s p) = p \<and> to_flight s (to_plan s p) = p
    \<and> to_plan (correction_frame_reset dn de s) (shift_point dn de p) = to_plan s p"
proof -
  have pos: "0 < max_rate_mps c" "0 < max_correction_m c"
    using cfg by (auto simp: check_correction_def split: if_splits)
  then have inv: "correction_inv s"
    unfolding s_def by (intro correction.run_inv) (simp add: correction_inv_def new_correction_def)
  have "ccfg (correction_step v e) = ccfg v" for v e
    by (cases e) (simp_all add: correction_step_def update_correction_def correction_frame_reset_def Let_def split: option.split)
  then have "ccfg (foldl correction_step v es) = ccfg v" for v by (induction es arbitrary: v) auto
  then have c: "ccfg s = c" by (simp add: s_def new_correction_def)
  define s1 where "s1 = (case tf of None \<Rightarrow> s | Some x \<Rightarrow> retarget x s)"
  have s1: "correction_inv s1" "applied s1 = applied s" "ccfg s1 = c" "last_t s1 = last_t s"
    using inv retarget_bounded [of s] c by (cases tf; simp add: s1_def correction_inv_def)+
  have "applied (update_correction t tf s) = slew (case last_t s of None \<Rightarrow> 0 | Some t0 \<Rightarrow> max 0 (t - t0)) s1"
    by (simp add: update_correction_def s1_def [symmetric] Let_def s1(4))
  then have "hypot (fst (applied (update_correction t tf s)) - fst (applied s))
      (snd (applied (update_correction t tf s)) - snd (applied s))
      \<le> max_rate_mps c * (case last_t s of None \<Rightarrow> 0 | Some t0 \<Rightarrow> max 0 (t - t0))"
    using slew_bounded(2) [OF s1(1), of "case last_t s of None \<Rightarrow> 0 | Some t0 \<Rightarrow> max 0 (t - t0)"] s1(2,3)
    by (auto split: option.splits)
  then show ?thesis
    using inv c by (simp add: correction_inv_def to_plan_def to_flight_def shift_point_def correction_frame_reset_def)
qed

theorem correction_bounded_and_slow_witness:
  "let c = \<lparr>max_rate_mps = 3 / 10, max_correction_m = 5\<rparr>;
       s = foldl correction_step (new_correction c) [Update 0 None, FrameReset 1 2]
   in hypot (fst (applied s)) (snd (applied s)) \<le> 5 \<and> to_plan s (to_flight s (3, 4)) = (3, 4)"
proof -
  have "check_correction \<lparr>max_rate_mps = 3 / 10, max_correction_m = 5\<rparr> = Inr ()" by (simp add: check_correction_def)
  from correction_bounded_and_slow [OF this, of "[Update 0 None, FrameReset 1 2]" 0 None "(3, 4)"]
  show ?thesis by simp
qed

section \<open>Datum and disagreement\<close>

text \<open>
  A tag's datum is only ever formed from sightings that agree. When a sighting turns an unsettled
  reference into a settled one, the datum is the mean of at least the required number of sightings
  (this one the last), all within the settling window before it and none farther from the datum
  than the settling spread; otherwise every kept sighting was already pending or is this one.
\<close>

theorem datum_is_tight:
  assumes "origin r = None"
  shows "case origin (accumulate c t fix r) of
      Some p \<Rightarrow> \<exists>window. set window \<subseteq> set (pending r) \<union> {(t, fix)} \<and> last window = (t, fix)
          \<and> settle_obs c \<le> int (length window) \<and> p = mean_point (map snd window)
          \<and> (\<forall>(t', q) \<in> set window. (t', q) = (t, fix) \<or> t - t' \<le> settle_window_s c)
          \<and> (\<forall>(t', q) \<in> set window. dist2 q p \<le> settle_spread_m c)
          \<and> pending (accumulate c t fix r) = []
    | None \<Rightarrow> set (pending (accumulate c t fix r)) \<subseteq> set (pending r) \<union> {(t, fix)}
          \<and> (t, fix) \<in> set (pending (accumulate c t fix r))"
proof -
  define window where "window = filter (\<lambda>s. t - fst s \<le> settle_window_s c) (pending r) @ [(t, fix)]"
  have sub: "set window \<subseteq> set (pending r) \<union> {(t, fix)}" "last window = (t, fix)" "window \<noteq> []"
    "\<forall>(t', q) \<in> set window. (t', q) = (t, fix) \<or> t - t' \<le> settle_window_s c"
    by (auto simp: window_def)
  have half: "(t, fix) \<in> set (drop (length window div 2) window)"
  proof -
    have "length window div 2 < length window" using sub(3) by simp
    then have "last (drop (length window div 2) window) = last window"
      "drop (length window div 2) window \<noteq> []" by (simp_all add: last_drop)
    then show ?thesis using last_in_set sub(2) by metis
  qed
  have near: "dist2 q (mean_point (map snd window)) \<le> window_spread (map snd window)" if "(t', q) \<in> set window" for t' q
    unfolding window_spread_def using that by (intro Max_ge) force+
  show ?thesis
  proof (cases "int (length window) < settle_obs c")
    case True
    then show ?thesis
      using assms sub(1) by (auto simp: accumulate_def window_def [symmetric] Let_def) (simp add: window_def)
  next
    case False
    show ?thesis
    proof (cases "window_spread (map snd window) \<le> settle_spread_m c")
      case True
      then have "\<forall>(t', q) \<in> set window. dist2 q (mean_point (map snd window)) \<le> settle_spread_m c"
        using near by force
      then show ?thesis
        using False True sub
        by (simp add: accumulate_def window_def [symmetric] Let_def) (intro exI [of _ window], simp)
    next
      case loose: False
      then show ?thesis
        using False assms sub(1) half
        by (auto simp: accumulate_def window_def [symmetric] Let_def dest: in_set_dropD)
    qed
  qed
qed

theorem datum_is_tight_witness:
  "let c = \<lparr>min_agl_m = 1, max_agl_m = 8, max_radial_m = 3, settle_obs = 2, settle_window_s = 5,
            settle_spread_m = 3 / 5, gate_m = 3 / 2, gate_persist_s = 1, stale_s = 10\<rparr>;
       r = \<lparr>pending = [(0, (1, 1))], origin = None, ref_n_obs = 1, ref_first_seen = 0, ref_last_seen = 0\<rparr>
   in pending (accumulate c 1 (1, 1) r) = [] \<and> origin (accumulate c 1 (1, 1) r) = Some (1, 1)"
proof -
  let ?c = "\<lparr>min_agl_m = 1, max_agl_m = 8, max_radial_m = 3, settle_obs = 2, settle_window_s = 5,
            settle_spread_m = 3 / 5, gate_m = 3 / 2, gate_persist_s = 1, stale_s = 10\<rparr>"
  let ?r = "\<lparr>pending = [(0, (1, 1))], origin = None, ref_n_obs = 1, ref_first_seen = 0, ref_last_seen = 0\<rparr>"
  have o: "origin (accumulate ?c 1 (1, 1) ?r) = Some (1, 1)"
    by (simp add: accumulate_def window_spread_def mean_point_def dist2_def)
  with datum_is_tight [of ?r ?c 1 "(1, 1)"] show ?thesis by auto
qed

end
