(* ===== verification/Mission.thy ===== *)
theory Mission
  imports Minelog
begin

text \<open>
  The mission state machine (\<open>mission_engine/core/mission.py\<close>): takeoff, survey (serpentine lanes or
  a rosette), verify dips, egress, dump, settle and land, with aborts and fences. The engine is
  driven by \<open>tick\<close> and by the notifications of its node; a tick returns a setpoint or raises.
\<close>

section \<open>Data\<close>

datatype phase =
    PREFLIGHT | OFFBOARD_SYNC | TAKEOFF | LANE | VERIFY_DIP | EGRESS | SETTLE | DUMP | LAND | ABORT | DONE

definition rosette_headings_deg :: "real list" where
  "rosette_headings_deg = [0, 45, 90, 135, 180, 225, 270, 315]"

record setpoint =
  sp_pos :: vec3
  sp_yaw :: "real option"

record mission_config =
  pattern :: string
  lanes_origin :: point
  cfg_lane_length :: real
  n_lanes :: int
  lane_spacing :: real
  lane_heading_deg :: real
  survey_alt_m :: real
  lane_speed :: real
  rosette_radius_m :: real
  rosette_outer_hold_s :: real
  rosette_center_hold_s :: real
  rosette_petals :: int
  climb_speed :: real
  descent_speed :: real
  reach_tol_m :: real
  sync_duration_s :: real
  egress_point :: point
  land_settle_s :: real
  land_speed_tol_mps :: real
  dip_hover_s :: real
  max_dips :: int
  detector_silence_s :: real
  reset_storm_count :: int
  dump_retry_limit :: int
  fence_radius_m :: real
  fence_polygon_ne :: "point list"
  fence_margin_m :: real
  mission_timeout_s :: real

definition check_config :: "mission_config \<Rightarrow> py_error + unit" where
  "check_config c =
     (if pattern c \<noteq> ''serpentine'' \<and> pattern c \<noteq> ''center_return_rosette''
      then Inl (ValueError ''unknown mission pattern'')
      else if survey_alt_m c \<le> 0 \<or> lane_speed c \<le> 0
      then Inl (ValueError ''survey_alt_m and lane_speed must be positive'')
      else if rosette_radius_m c \<le> 0 then Inl (ValueError ''rosette radius must be positive'')
      else if \<not> (1 \<le> rosette_petals c \<and> rosette_petals c \<le> int (length rosette_headings_deg))
      then Inl (ValueError ''rosette_petals must be between 1 and 8'')
      else if rosette_outer_hold_s c < 0 \<or> rosette_center_hold_s c < 0
      then Inl (ValueError ''rosette holds must not be negative'')
      else if reach_tol_m c \<le> 0 then Inl (ValueError ''reach_tol_m must be positive'')
      else if land_settle_s c \<le> 0 \<or> land_speed_tol_mps c \<le> 0
      then Inl (ValueError ''landing settle time and speed tolerance must be positive'')
      else if fence_radius_m c < 0 \<or> fence_margin_m c < 0 \<or> mission_timeout_s c < 0
      then Inl (ValueError ''fence radius, margin, and mission timeout must not be negative'')
      else if fence_polygon_ne c \<noteq> [] \<and> length (fence_polygon_ne c) < 3
      then Inl (ValueError ''fence_polygon_ne needs at least three vertices'')
      else Inr ())"

record covered_interval =
  iv_lane :: nat
  iv_s0 :: real
  iv_s1 :: real

text \<open>The abort strings, with the numbers they print.\<close>

datatype violation = OutsidePolygon "real option" | OutsideRadius real

datatype abort_reason =
    DetectorSilent
  | ResetStorm
  | MissionTimeout real
  | EstimateOutside violation
  | CommandOutside violation
  | OperatorAbort
  | DumpRetriesExhausted
  | Requested string

datatype petal_stage = Center | Outbound | OuterHold | Inbound

record engine =
  cfg :: mission_config
  mlog :: mine_log
  fence_polygon :: "point list"
  lanes :: "lane list"
  phase :: phase
  abort_reason :: "abort_reason option"
  t_takeoff :: "real option"
  dips_done :: int
  dump_attempts :: int
  dump_acked :: bool
  covered :: "covered_interval list"
  ekf_resets_seen :: int
  sync_t0 :: "real option"
  lane_i :: nat
  lane_s :: real
  home_ne :: "point option"
  dip_target :: "nat option"
  dip_t0 :: "real option"
  last_detector_t :: "real option"
  last_reset_counter :: "int option"
  last_yaw :: real
  petal_i :: nat
  petal_stage :: petal_stage
  petal_hold_t0 :: "real option"
  lane_entered :: bool
  settle_t0 :: "real option"
  settle_next_phase :: phase
  settle_requires_survey_ready :: bool
  polygon_fence_engaged :: bool

definition mk_engine :: "mission_config \<Rightarrow> mine_log \<Rightarrow> real \<Rightarrow> py_error + engine" where
  "mk_engine c mines yaw =
     bindE (check_config c) (\<lambda>_.
     bindE (if fence_polygon_ne c \<noteq> [] then inset_convex_polygon (fence_polygon_ne c) (fence_margin_m c)
            else Inr []) (\<lambda>fence.
     bindE (if fence \<noteq> [] \<and> pattern c = ''serpentine'' then polygon_serpentine fence (lane_spacing c)
            else serpentine (lanes_origin c) (cfg_lane_length c) (n_lanes c) (lane_spacing c)
                   (radians (lane_heading_deg c))) (\<lambda>ls.
     Inr \<lparr>cfg = c, mlog = mines, fence_polygon = fence, lanes = ls, phase = PREFLIGHT,
          abort_reason = None, t_takeoff = None, dips_done = 0, dump_attempts = 0, dump_acked = False,
          covered = [], ekf_resets_seen = 0, sync_t0 = None, lane_i = 0, lane_s = 0, home_ne = None,
          dip_target = None, dip_t0 = None, last_detector_t = None, last_reset_counter = None,
          last_yaw = yaw, petal_i = 0, petal_stage = Center, petal_hold_t0 = None,
          lane_entered = False, settle_t0 = None, settle_next_phase = DUMP,
          settle_requires_survey_ready = False, polygon_fence_engaged = False\<rparr>)))"

section \<open>Inputs\<close>

definition abort_with :: "abort_reason \<Rightarrow> engine \<Rightarrow> engine" where
  "abort_with reason s =
     (if phase s = ABORT \<or> phase s = DONE then s else s\<lparr>abort_reason := Some reason, phase := ABORT\<rparr>)"

definition start :: "engine \<Rightarrow> engine" where
  "start s = (if phase s = PREFLIGHT then s\<lparr>phase := OFFBOARD_SYNC\<rparr> else s)"

definition note_detector_alive :: "real \<Rightarrow> engine \<Rightarrow> engine" where
  "note_detector_alive t s = s\<lparr>last_detector_t := Some t\<rparr>"

definition note_reset_counter :: "int \<Rightarrow> engine \<Rightarrow> engine" where
  "note_reset_counter counter s =
     (let s1 = (case last_reset_counter s of
                  None \<Rightarrow> s
                | Some l \<Rightarrow> if counter \<noteq> l then s\<lparr>ekf_resets_seen := ekf_resets_seen s + \<bar>counter - l\<bar>\<rparr> else s)
      in s1\<lparr>last_reset_counter := Some counter\<rparr>)"

definition apply_heading_reset :: "real \<Rightarrow> engine \<Rightarrow> engine" where
  "apply_heading_reset delta s =
     s\<lparr>last_yaw := atan2 (sin (last_yaw s + delta)) (cos (last_yaw s + delta))\<rparr>"

definition operator_abort :: "engine \<Rightarrow> engine" where
  "operator_abort s = abort_with OperatorAbort s"

definition request_abort :: "string \<Rightarrow> engine \<Rightarrow> engine" where
  "request_abort reason s = abort_with (Requested reason) s"

definition notify_dump_result :: "bool \<Rightarrow> engine \<Rightarrow> engine" where
  "notify_dump_result ok s =
     (if phase s \<noteq> DUMP then s
      else if ok then s\<lparr>dump_acked := True\<rparr>
      else let s1 = s\<lparr>dump_attempts := dump_attempts s + 1\<rparr>
           in if dump_attempts s1 \<ge> dump_retry_limit (cfg s1) then abort_with DumpRetriesExhausted s1 else s1)"

section \<open>Guards\<close>

definition alt_target :: "engine \<Rightarrow> real" where
  "alt_target s = - survey_alt_m (cfg s)"

definition egress_ne :: "engine \<Rightarrow> point" where
  "egress_ne s =
     (case home_ne s of
        Some home \<Rightarrow> if pattern (cfg s) = ''center_return_rosette'' then home else egress_point (cfg s)
      | None \<Rightarrow> egress_point (cfg s))"

definition fence_radius :: "point \<Rightarrow> engine \<Rightarrow> real option" where
  "fence_radius p s =
     (if fence_radius_m (cfg s) \<le> 0 then None
      else case home_ne s of
             None \<Rightarrow> None
           | Some home \<Rightarrow>
               let r = hypot (fst p - fst home) (snd p - snd home)
               in if r > fence_radius_m (cfg s) then Some r else None)"

definition fence_violation :: "point \<Rightarrow> engine \<Rightarrow> violation option" where
  "fence_violation p s =
     (if fence_polygon s \<noteq> []
      then (if \<not> point_in_polygon p (fence_polygon s)
            then Some (OutsidePolygon (distance_to_polygon p (fence_polygon s))) else None)
      else map_option OutsideRadius (fence_radius p s))"

definition estimate_fence_violation :: "point \<Rightarrow> engine \<Rightarrow> violation option \<times> engine" where
  "estimate_fence_violation p s =
     (if fence_polygon s \<noteq> []
      then (if phase s \<noteq> LANE \<and> phase s \<noteq> VERIFY_DIP then (None, s)
            else if point_in_polygon p (fence_polygon s) then (None, s\<lparr>polygon_fence_engaged := True\<rparr>)
            else if \<not> polygon_fence_engaged s then (None, s)
            else (fence_violation p s, s))
      else (fence_violation p s, s))"

text \<open>The four tests of \<open>_check_aborts\<close>, in their order.\<close>

definition check_silence :: "real \<Rightarrow> engine \<Rightarrow> engine" where
  "check_silence t s =
     (case last_detector_t s of
        None \<Rightarrow> s
      | Some t0 \<Rightarrow>
          if (phase s = TAKEOFF \<or> phase s = LANE \<or> phase s = VERIFY_DIP)
             \<and> detector_silence_s (cfg s) > 0 \<and> t - t0 > detector_silence_s (cfg s)
          then abort_with DetectorSilent s else s)"

definition check_resets :: "engine \<Rightarrow> engine" where
  "check_resets s =
     (if ekf_resets_seen s \<ge> reset_storm_count (cfg s) then abort_with ResetStorm s else s)"

definition check_timeout :: "real \<Rightarrow> engine \<Rightarrow> engine" where
  "check_timeout t s =
     (case t_takeoff s of
        None \<Rightarrow> s
      | Some t0 \<Rightarrow>
          if mission_timeout_s (cfg s) > 0 \<and> t - t0 > mission_timeout_s (cfg s)
          then abort_with (MissionTimeout (t - t0)) s else s)"

definition check_estimate :: "vec3 \<Rightarrow> engine \<Rightarrow> engine" where
  "check_estimate pos s =
     (let (v, s1) = estimate_fence_violation (fst pos, fst (snd pos)) s
      in case v of None \<Rightarrow> s1 | Some viol \<Rightarrow> abort_with (EstimateOutside viol) s1)"

definition check_aborts :: "real \<Rightarrow> vec3 \<Rightarrow> engine \<Rightarrow> engine" where
  "check_aborts t pos s =
     (if phase s \<in> {PREFLIGHT, OFFBOARD_SYNC, ABORT, SETTLE, DUMP, LAND, DONE} then s
      else check_estimate pos (check_timeout t (check_resets (check_silence t s))))"

section \<open>Setpoints\<close>

definition target_sp :: "vec3 \<Rightarrow> engine \<Rightarrow> setpoint" where
  "target_sp target s = \<lparr>sp_pos = target, sp_yaw = Some (last_yaw s)\<rparr>"

definition reached :: "vec3 \<Rightarrow> vec3 \<Rightarrow> engine \<Rightarrow> bool" where
  "reached pos target s =
     (case (pos, target) of ((p0, p1, p2), (t0, t1, t2)) \<Rightarrow>
        hypot (t0 - p0) (t1 - p1) \<le> reach_tol_m (cfg s) \<and> \<bar>t2 - p2\<bar> \<le> reach_tol_m (cfg s))"

definition slow :: "vec3 \<Rightarrow> engine \<Rightarrow> bool" where
  "slow vel s = (hypot (fst vel) (fst (snd vel)) \<le> land_speed_tol_mps (cfg s))"

definition at_alt :: "point \<Rightarrow> engine \<Rightarrow> vec3" where
  "at_alt p s = (fst p, snd p, alt_target s)"

definition record_coverage :: "nat \<Rightarrow> real \<Rightarrow> real \<Rightarrow> covered_interval list \<Rightarrow> covered_interval list" where
  "record_coverage k s0 s1 cov =
     (if s1 \<le> s0 then cov
      else if cov \<noteq> [] \<and> iv_lane (last cov) = k \<and> \<bar>iv_s1 (last cov) - s0\<bar> < 1 / 10 ^ 9
      then butlast cov @ [(last cov)\<lparr>iv_s1 := s1\<rparr>]
      else cov @ [\<lparr>iv_lane = k, iv_s0 = s0, iv_s1 = s1\<rparr>])"

definition begin_settle :: "phase \<Rightarrow> bool \<Rightarrow> engine \<Rightarrow> engine" where
  "begin_settle next_phase require s =
     s\<lparr>phase := SETTLE, settle_t0 := None, settle_next_phase := next_phase,
       settle_requires_survey_ready := require\<rparr>"

section \<open>Survey\<close>

text \<open>The part of \<open>tick_lane\<close> after the lane was entered and no dip started.\<close>

definition lane_progress :: "lane \<Rightarrow> vec3 \<Rightarrow> engine \<Rightarrow> engine" where
  "lane_progress l pos s =
     (let along = (fst pos - fst (lane_start l)) * cos (lane_heading l)
                + (fst (snd pos) - snd (lane_start l)) * sin (lane_heading l);
          measured = max 0 (min along (lane_length l))
      in if measured > lane_s s
         then s\<lparr>covered := record_coverage (lane_index l) (lane_s s) measured (covered s), lane_s := measured\<rparr>
         else s)"

definition lane_finish :: "lane \<Rightarrow> vec3 \<Rightarrow> bool \<Rightarrow> engine \<Rightarrow> setpoint \<times> engine" where
  "lane_finish l pos stopped s =
     (let target = at_alt (point_at l (lane_length l)) s
      in if reached pos target s \<and> stopped then
           let s1 = s\<lparr>covered := record_coverage (lane_index l) (lane_s s) (lane_length l) (covered s)\<rparr>
           in if lane_i s1 + 1 < length (lanes s1) then
                let s2 = s1\<lparr>lane_i := lane_i s1 + 1, lane_s := 0, lane_entered := False\<rparr>
                in (target_sp (at_alt (point_at (lanes s2 ! lane_i s2) 0) s2) s2, s2)
              else (let s2 = s1\<lparr>phase := EGRESS\<rparr> in (target_sp target s2, s2))
         else (target_sp target s, s))"

definition tick_lane :: "vec3 \<Rightarrow> vec3 \<Rightarrow> engine \<Rightarrow> py_error + setpoint \<times> engine" where
  "tick_lane pos vel s =
     bindE (item (lanes s) (lane_i s)) (\<lambda>l.
       let entry = at_alt (point_at l (lane_s s)) s; stopped = slow vel s
       in if \<not> lane_entered s \<and> (\<not> reached pos entry s \<or> \<not> stopped) then Inr (target_sp entry s, s)
          else
            let s1 = s\<lparr>lane_entered := True\<rparr>
            in case (if dips_done s1 < max_dips (cfg s1) then next_dip_target (mlog s1) else None) of
                 Some k \<Rightarrow>
                   let s2 = s1\<lparr>dip_target := Some k, dip_t0 := None, phase := VERIFY_DIP\<rparr>
                   in Inr (target_sp entry s2, s2)
               | None \<Rightarrow> Inr (lane_finish l pos stopped (lane_progress l pos s1)))"

definition hold_petal :: "real \<Rightarrow> bool \<Rightarrow> real \<Rightarrow> (engine \<Rightarrow> engine) \<Rightarrow> engine \<Rightarrow> engine" where
  "hold_petal t steady hold_s leave s =
     (if steady then
        (case petal_hold_t0 s of
           None \<Rightarrow> s\<lparr>petal_hold_t0 := Some t\<rparr>
         | Some t0 \<Rightarrow> if t - t0 \<ge> hold_s then leave (s\<lparr>petal_hold_t0 := None\<rparr>) else s)
      else s\<lparr>petal_hold_t0 := None\<rparr>)"

definition leave_center :: "engine \<Rightarrow> engine" where
  "leave_center s =
     (if int (petal_i s) \<ge> rosette_petals (cfg s) then s\<lparr>phase := DUMP\<rparr> else s\<lparr>petal_stage := Outbound\<rparr>)"

definition leave_outer :: "engine \<Rightarrow> engine" where
  "leave_outer s = s\<lparr>petal_stage := Inbound\<rparr>"

definition petal_outer :: "point \<Rightarrow> real \<Rightarrow> engine \<Rightarrow> vec3" where
  "petal_outer center heading_deg s =
     (let heading = radians heading_deg
      in (fst center + rosette_radius_m (cfg s) * cos heading,
          snd center + rosette_radius_m (cfg s) * sin heading, alt_target s))"

definition tick_rosette :: "real \<Rightarrow> vec3 \<Rightarrow> vec3 \<Rightarrow> bool \<Rightarrow> bool \<Rightarrow> engine \<Rightarrow> py_error + setpoint \<times> engine" where
  "tick_rosette t pos vel horizontal_valid survey_ready s =
     bindE (need (home_ne s)) (\<lambda>home.
       let center = at_alt home s
       in if petal_stage s = Center then
            let steady = (horizontal_valid \<and> survey_ready \<and> reached pos center s \<and> slow vel s);
                s1 = hold_petal t steady (rosette_center_hold_s (cfg s)) leave_center s
            in Inr (target_sp center s1, s1)
          else
            bindE (item rosette_headings_deg (petal_i s)) (\<lambda>heading_deg.
              let outer = petal_outer home heading_deg s
              in case petal_stage s of
                   Outbound \<Rightarrow>
                     if reached pos outer s
                     then (let s1 = s\<lparr>petal_stage := OuterHold, petal_hold_t0 := None\<rparr> in Inr (target_sp outer s1, s1))
                     else Inr (target_sp outer s, s)
                 | OuterHold \<Rightarrow>
                     let s1 = hold_petal t (reached pos outer s \<and> slow vel s)
                                (rosette_outer_hold_s (cfg s)) leave_outer s
                     in Inr (target_sp outer s1, s1)
                 | _ \<Rightarrow>
                     if reached pos center s
                     then (let s1 = s\<lparr>petal_i := petal_i s + 1, petal_stage := Center, petal_hold_t0 := None\<rparr>
                           in Inr (target_sp center s1, s1))
                     else Inr (target_sp center s, s)))"

definition tick_survey :: "real \<Rightarrow> vec3 \<Rightarrow> vec3 \<Rightarrow> bool \<Rightarrow> bool \<Rightarrow> engine \<Rightarrow> py_error + setpoint \<times> engine" where
  "tick_survey t pos vel horizontal_valid survey_ready s =
     (if pattern (cfg s) = ''center_return_rosette''
      then tick_rosette t pos vel horizontal_valid survey_ready s else tick_lane pos vel s)"

definition tick_dip :: "real \<Rightarrow> vec3 \<Rightarrow> engine \<Rightarrow> py_error + setpoint \<times> engine" where
  "tick_dip t pos s =
     bindE (need (dip_target s)) (\<lambda>k.
     bindE (item (clusters (mlog s)) k) (\<lambda>c.
       let target = at_alt (centroid c) s
       in if \<not> reached pos target s then Inr (target_sp target s, s)
          else
            let t0 = (case dip_t0 s of None \<Rightarrow> t | Some t0 \<Rightarrow> t0);
                s1 = s\<lparr>dip_t0 := Some t0\<rparr>
            in if t - t0 \<ge> dip_hover_s (cfg s1) then
                 let s2 = s1\<lparr>mlog := (mlog s1)\<lparr>clusters := (clusters (mlog s1))[k := c\<lparr>status := DIPPED\<rparr>]\<rparr>,
                             dips_done := dips_done s1 + 1, dip_target := None, lane_entered := False,
                             phase := LANE\<rparr>
                 in Inr (target_sp target s2, s2)
               else Inr (target_sp target s1, s1)))"

section \<open>Tick\<close>

definition tick_sync :: "real \<Rightarrow> vec3 \<Rightarrow> engine \<Rightarrow> py_error + setpoint \<times> engine" where
  "tick_sync t pos s =
     (let s1 = (case sync_t0 s of
                  None \<Rightarrow> s\<lparr>sync_t0 := Some t, home_ne := Some (fst pos, fst (snd pos))\<rparr>
                | Some _ \<Rightarrow> s)
      in bindE (need (sync_t0 s1)) (\<lambda>t0.
           let s2 = (if t - t0 \<ge> sync_duration_s (cfg s1) then s1\<lparr>phase := TAKEOFF, t_takeoff := Some t\<rparr> else s1)
           in bindE (need (home_ne s2)) (\<lambda>home.
                Inr (target_sp (fst home, snd home, snd (snd pos)) s2, s2))))"

definition tick_takeoff :: "real \<Rightarrow> vec3 \<Rightarrow> vec3 \<Rightarrow> bool \<Rightarrow> bool \<Rightarrow> engine \<Rightarrow> py_error + setpoint \<times> engine" where
  "tick_takeoff t pos vel horizontal_valid survey_ready s =
     bindE (need (home_ne s)) (\<lambda>home.
       let target = at_alt home s
       in if reached pos target s
          then tick_survey t pos vel horizontal_valid survey_ready (s\<lparr>phase := LANE\<rparr>)
          else Inr (target_sp target s, s))"

definition tick_return :: "vec3 \<Rightarrow> engine \<Rightarrow> setpoint \<times> engine" where
  "tick_return pos s =
     (let target = at_alt (egress_ne s) s;
          s1 = (if reached pos target s
                then (if phase s = EGRESS then s\<lparr>phase := DUMP\<rparr> else begin_settle LAND False s) else s)
      in (target_sp target s1, s1))"

definition settle_ready :: "vec3 \<Rightarrow> vec3 \<Rightarrow> bool \<Rightarrow> bool \<Rightarrow> engine \<Rightarrow> bool" where
  "settle_ready pos vel horizontal_valid survey_ready s \<longleftrightarrow>
     horizontal_valid \<and> slow vel s \<and> reached pos (at_alt (egress_ne s) s) s
     \<and> (survey_ready \<or> \<not> settle_requires_survey_ready s)"

definition tick_settle :: "real \<Rightarrow> vec3 \<Rightarrow> vec3 \<Rightarrow> bool \<Rightarrow> bool \<Rightarrow> engine \<Rightarrow> setpoint \<times> engine" where
  "tick_settle t pos vel horizontal_valid survey_ready s =
     (let s1 = (if settle_ready pos vel horizontal_valid survey_ready s then
                  (case settle_t0 s of
                     None \<Rightarrow> s\<lparr>settle_t0 := Some t\<rparr>
                   | Some t0 \<Rightarrow> if t - t0 \<ge> land_settle_s (cfg s) then s\<lparr>phase := settle_next_phase s\<rparr> else s)
                else s\<lparr>settle_t0 := None\<rparr>)
      in (target_sp (at_alt (egress_ne s) s) s1, s1))"

definition tick_dump :: "engine \<Rightarrow> setpoint \<times> engine" where
  "tick_dump s =
     (let s1 = (if dump_acked s then begin_settle LAND True s else s)
      in (target_sp (at_alt (egress_ne s1) s1) s1, s1))"

definition tick_land :: "vec3 \<Rightarrow> engine \<Rightarrow> setpoint option \<times> engine" where
  "tick_land pos s =
     (let e = egress_ne s; target = (fst e, snd e, 0)
      in if reached pos target s then (None, s\<lparr>phase := DONE\<rparr>) else (Some (target_sp target s), s))"

definition some_sp :: "py_error + setpoint \<times> engine \<Rightarrow> py_error + setpoint option \<times> engine" where
  "some_sp r = bindE r (\<lambda>(sp, s). Inr (Some sp, s))"

text \<open>\<open>_tick\<close>.\<close>

definition tick_inner ::
  "real \<Rightarrow> vec3 \<Rightarrow> vec3 \<Rightarrow> bool \<Rightarrow> bool \<Rightarrow> engine \<Rightarrow> py_error + setpoint option \<times> engine" where
  "tick_inner t pos vel horizontal_valid survey_ready s0 =
     (let s = check_aborts t pos s0
      in case phase s of
           PREFLIGHT \<Rightarrow> Inr (None, s)
         | OFFBOARD_SYNC \<Rightarrow> some_sp (tick_sync t pos s)
         | TAKEOFF \<Rightarrow> some_sp (tick_takeoff t pos vel horizontal_valid survey_ready s)
         | LANE \<Rightarrow> some_sp (tick_survey t pos vel horizontal_valid survey_ready s)
         | VERIFY_DIP \<Rightarrow> some_sp (tick_dip t pos s)
         | EGRESS \<Rightarrow> some_sp (Inr (tick_return pos s))
         | ABORT \<Rightarrow> some_sp (Inr (tick_return pos s))
         | SETTLE \<Rightarrow> some_sp (Inr (tick_settle t pos vel horizontal_valid survey_ready s))
         | DUMP \<Rightarrow> some_sp (Inr (tick_dump s))
         | LAND \<Rightarrow> Inr (tick_land pos s)
         | DONE \<Rightarrow> Inr (None, s))"

definition command_fence_active :: "engine \<Rightarrow> bool" where
  "command_fence_active s =
     (if fence_polygon s \<noteq> [] then phase s = LANE \<or> phase s = VERIFY_DIP
      else phase s = TAKEOFF \<or> phase s = LANE \<or> phase s = VERIFY_DIP)"

definition tick ::
  "real \<Rightarrow> vec3 \<Rightarrow> vec3 \<Rightarrow> bool \<Rightarrow> bool \<Rightarrow> engine \<Rightarrow> py_error + setpoint option \<times> engine" where
  "tick t pos vel horizontal_valid survey_ready s =
     bindE (tick_inner t pos vel horizontal_valid survey_ready s) (\<lambda>(sp, s1).
       case sp of
         None \<Rightarrow> Inr (sp, s1)
       | Some p \<Rightarrow>
           if command_fence_active s1 then
             (case fence_violation (fst (sp_pos p), fst (snd (sp_pos p))) s1 of
                None \<Rightarrow> Inr (sp, s1)
              | Some v \<Rightarrow> tick_inner t pos vel horizontal_valid survey_ready (abort_with (CommandOutside v) s1))
           else Inr (sp, s1))"

section \<open>Coverage report\<close>

fun lane_gaps :: "lane \<Rightarrow> real \<Rightarrow> covered_interval list \<Rightarrow> (point \<times> point) list" where
  "lane_gaps l cursor [] =
     (if cursor < lane_length l - 1 / 10 ^ 6 then [(point_at l cursor, point_at l (lane_length l))] else [])"
| "lane_gaps l cursor (iv # ivs) =
     (if iv_s0 iv > cursor + 1 / 10 ^ 6 then [(point_at l cursor, point_at l (iv_s0 iv))] else [])
     @ lane_gaps l (max cursor (iv_s1 iv)) ivs"

record coverage =
  cv_petals :: "point list list"
  cv_completed_petals :: "nat option"
  cv_lanes :: "(point \<times> point) list"
  cv_gaps :: "(point \<times> point) list"

definition coverage_report :: "engine \<Rightarrow> py_error + coverage" where
  "coverage_report s =
     (if pattern (cfg s) = ''center_return_rosette'' then
        let center = (case home_ne s of Some h \<Rightarrow> h | None \<Rightarrow> egress_point (cfg s))
        in Inr \<lparr>cv_petals = map (\<lambda>d. let h = radians d in
                    [center, (fst center + rosette_radius_m (cfg s) * cos h,
                              snd center + rosette_radius_m (cfg s) * sin h), center]) rosette_headings_deg,
                cv_completed_petals = Some (petal_i s), cv_lanes = [], cv_gaps = []\<rparr>
      else
        bindE (mapE (\<lambda>iv. bindE (item (lanes s) (iv_lane iv)) (\<lambda>l.
                 Inr (point_at l (iv_s0 iv), point_at l (iv_s1 iv)))) (covered s)) (\<lambda>ls.
        Inr \<lparr>cv_petals = [], cv_completed_petals = None, cv_lanes = ls,
             cv_gaps = concat (map (\<lambda>l. lane_gaps l 0
                 (sort_key iv_s0 (filter (\<lambda>iv. iv_lane iv = lane_index l) (covered s)))) (lanes s))\<rparr>))"

section \<open>Events\<close>

datatype mission_event =
    Start
  | DetectorAlive real
  | ResetCounter int
  | HeadingReset real
  | OperatorAborts
  | RequestAbort string
  | DumpResult bool
  | Ingest observation
  | Tick real vec3 vec3 bool bool

definition mission_step :: "engine \<Rightarrow> mission_event \<Rightarrow> py_error + engine" where
  "mission_step s e =
     (case e of
        Start \<Rightarrow> Inr (start s)
      | DetectorAlive t \<Rightarrow> Inr (note_detector_alive t s)
      | ResetCounter n \<Rightarrow> Inr (note_reset_counter n s)
      | HeadingReset d \<Rightarrow> Inr (apply_heading_reset d s)
      | OperatorAborts \<Rightarrow> Inr (operator_abort s)
      | RequestAbort r \<Rightarrow> Inr (request_abort r s)
      | DumpResult ok \<Rightarrow> Inr (notify_dump_result ok s)
      | Ingest obs \<Rightarrow> Inr (s\<lparr>mlog := snd (ingest obs (mlog s))\<rparr>)
      | Tick t pos vel hv sr \<Rightarrow> bindE (tick t pos vel hv sr s) (\<lambda>(sp, s'). Inr s'))"

end
