(* ===== verification/Mission_Properties.thy ===== *)
theory Mission_Properties
  imports Mission
begin

text \<open>
  What the mission engine guarantees: no tick raises, the coverage log is exact, an abort is one-way
  and leads to landing, commanded setpoints respect the fence, and landing waits for a settled
  vehicle. One place where the code does not keep its own rule (the status ladder) is shown.
\<close>

section \<open>Exact coverage\<close>

definition cov_upto :: "lane list \<Rightarrow> nat \<Rightarrow> real \<Rightarrow> covered_interval list" where
  "cov_upto ls i s =
     map (\<lambda>k. \<lparr>iv_lane = k, iv_s0 = 0, iv_s1 = lane_length (ls ! k)\<rparr>) [0..<i]
     @ (if 0 < s then [\<lparr>iv_lane = i, iv_s0 = 0, iv_s1 = s\<rparr>] else [])"

lemma record_coverage_extends:
  assumes "0 \<le> s0" "s0 < s1"
  shows "record_coverage i s0 s1 (cov_upto ls i s0) = cov_upto ls i s1"
proof (cases "0 < s0")
  case True
  then show ?thesis using assms by (simp add: record_coverage_def cov_upto_def butlast_append)
next
  case False
  then have s0: "s0 = 0" using assms by simp
  show ?thesis
  proof (cases i)
    case 0
    then show ?thesis using s0 assms by (simp add: record_coverage_def cov_upto_def)
  next
    case (Suc j)
    then show ?thesis using s0 assms by (simp add: record_coverage_def cov_upto_def)
  qed
qed

lemma cov_upto_Suc: "0 < lane_length (ls ! i) \<Longrightarrow> cov_upto ls i (lane_length (ls ! i)) = cov_upto ls (Suc i) 0"
  by (simp add: cov_upto_def)

lemma record_coverage_completes:
  assumes "0 \<le> s0" "s0 \<le> lane_length (ls ! i)" "0 < lane_length (ls ! i)"
  shows "record_coverage i s0 (lane_length (ls ! i)) (cov_upto ls i s0) = cov_upto ls (Suc i) 0"
proof (cases "s0 = lane_length (ls ! i)")
  case True
  then show ?thesis using assms(3) by (simp add: record_coverage_def cov_upto_Suc)
next
  case False
  then show ?thesis using record_coverage_extends [of s0 "lane_length (ls ! i)" i ls] assms
    by (simp add: cov_upto_Suc)
qed

section \<open>The invariant\<close>

definition numbered_lanes :: "lane list \<Rightarrow> bool" where
  "numbered_lanes ls \<longleftrightarrow> (\<forall>k < length ls. lane_index (ls ! k) = k \<and> 0 < lane_length (ls ! k))"

definition survey_over :: "phase \<Rightarrow> bool" where
  "survey_over p \<longleftrightarrow> p \<in> {EGRESS, DUMP, SETTLE, LAND, DONE, ABORT}"

lemma survey_over_simps [simp]:
  "survey_over EGRESS" "survey_over DUMP" "survey_over SETTLE" "survey_over LAND" "survey_over DONE"
  "survey_over ABORT" "\<not> survey_over PREFLIGHT" "\<not> survey_over OFFBOARD_SYNC"
  "\<not> survey_over TAKEOFF" "\<not> survey_over LANE" "\<not> survey_over VERIFY_DIP"
  by (simp_all add: survey_over_def)

definition lane_inv :: "lane list \<Rightarrow> nat \<Rightarrow> real \<Rightarrow> bool" where
  "lane_inv ls i s \<longleftrightarrow> numbered_lanes ls \<and> i < length ls \<and> 0 \<le> s \<and> s \<le> lane_length (ls ! i)"

definition petal_inv :: "int \<Rightarrow> nat \<Rightarrow> petal_stage \<Rightarrow> bool" where
  "petal_inv petals i stage \<longleftrightarrow> petals \<le> 8 \<and> int i \<le> max 0 petals \<and> (stage \<noteq> Center \<longrightarrow> int i < petals)"

definition home_inv :: "phase \<Rightarrow> real option \<Rightarrow> point option \<Rightarrow> real option \<Rightarrow> bool" where
  "home_inv p sync home takeoff \<longleftrightarrow> (sync = None \<longleftrightarrow> home = None)
     \<and> (p \<in> {TAKEOFF, LANE, VERIFY_DIP} \<longrightarrow> home \<noteq> None)
     \<and> (p \<in> {PREFLIGHT, OFFBOARD_SYNC} \<longrightarrow> takeoff = None)"

definition dip_inv :: "phase \<Rightarrow> int \<Rightarrow> int \<Rightarrow> nat option \<Rightarrow> nat \<Rightarrow> bool" where
  "dip_inv p limit n target known \<longleftrightarrow> 0 \<le> n \<and> n \<le> max 0 limit
     \<and> (p = VERIFY_DIP \<longrightarrow> n < limit \<and> (\<exists>k. target = Some k \<and> k < known))"

definition abort_inv :: "phase \<Rightarrow> phase \<Rightarrow> abort_reason option \<Rightarrow> bool" where
  "abort_inv p next_phase reason \<longleftrightarrow> (p = SETTLE \<longrightarrow> next_phase = LAND)
     \<and> (reason \<noteq> None \<longrightarrow> p \<in> {ABORT, SETTLE, LAND, DONE}) \<and> (p = ABORT \<longrightarrow> reason \<noteq> None)"

definition cover_inv ::
  "bool \<Rightarrow> bool \<Rightarrow> lane list \<Rightarrow> nat \<Rightarrow> real \<Rightarrow> covered_interval list \<Rightarrow> bool" where
  "cover_inv over whole ls i s cov \<longleftrightarrow>
     (cov = cov_upto ls i s \<or> over \<and> cov = cov_upto ls (length ls) 0)
     \<and> (over \<and> whole \<longrightarrow> cov = cov_upto ls (length ls) 0)"

definition engine_inv :: "engine \<Rightarrow> bool" where
  "engine_inv s \<longleftrightarrow> lane_inv (lanes s) (lane_i s) (lane_s s)
     \<and> petal_inv (rosette_petals (cfg s)) (petal_i s) (petal_stage s)
     \<and> home_inv (phase s) (sync_t0 s) (home_ne s) (t_takeoff s)
     \<and> dip_inv (phase s) (max_dips (cfg s)) (dips_done s) (dip_target s) (length (clusters (mlog s)))
     \<and> abort_inv (phase s) (settle_next_phase s) (abort_reason s)
     \<and> cover_inv (survey_over (phase s)) (abort_reason s = None \<and> pattern (cfg s) \<noteq> ''center_return_rosette'')
         (lanes s) (lane_i s) (lane_s s) (covered s)"

text \<open>What no event undoes.\<close>

definition mission_ahead :: "engine \<Rightarrow> engine \<Rightarrow> bool" where
  "mission_ahead s t \<longleftrightarrow> cfg t = cfg s \<and> lanes t = lanes s \<and> fence_polygon t = fence_polygon s
     \<and> (abort_reason s \<noteq> None \<longrightarrow> abort_reason t \<noteq> None) \<and> (survey_over (phase s) \<longrightarrow> survey_over (phase t))
     \<and> dips_done s \<le> dips_done t \<and> ekf_resets_seen s \<le> ekf_resets_seen t
     \<and> (home_ne s \<noteq> None \<longrightarrow> home_ne t = home_ne s) \<and> (t_takeoff s \<noteq> None \<longrightarrow> t_takeoff t = t_takeoff s)
     \<and> length (clusters (mlog s)) \<le> length (clusters (mlog t))"

lemma mission_ahead_refl: "mission_ahead s s"
  by (simp add: mission_ahead_def)

lemma mission_ahead_trans: "mission_ahead s t \<Longrightarrow> mission_ahead t u \<Longrightarrow> mission_ahead s u"
  unfolding mission_ahead_def by (elim conjE) (intro conjI impI; simp)

definition good :: "engine \<Rightarrow> engine \<Rightarrow> bool" where
  "good s t \<longleftrightarrow> engine_inv t \<and> mission_ahead s t"

lemmas good_simps = good_def mission_ahead_def engine_inv_def

lemma good_refl: "engine_inv s \<Longrightarrow> good s s"
  by (simp add: good_def mission_ahead_refl)

lemma good_trans: "good s t \<Longrightarrow> good t u \<Longrightarrow> good s u"
  by (auto simp: good_def intro: mission_ahead_trans)

lemma good_inv: "good s t \<Longrightarrow> engine_inv t"
  by (simp add: good_def)

lemma good_then: "good s t \<Longrightarrow> (engine_inv t \<Longrightarrow> good t u) \<Longrightarrow> good s u"
  by (blast intro: good_trans good_inv)

text \<open>How the parts of the invariant follow a change of phase.\<close>

lemma over_moves:
  "home_inv p a b c \<Longrightarrow> survey_over q \<Longrightarrow> home_inv q a b c"
  "dip_inv p m n d k \<Longrightarrow> survey_over q \<Longrightarrow> dip_inv q m n d k"
  "cover_inv o1 w1 ls i s cov \<Longrightarrow> cover_inv True False ls i s cov"
  "cover_inv True w ls i s cov \<Longrightarrow> cover_inv True w ls i s cov"
  by (auto simp: home_inv_def dip_inv_def cover_inv_def survey_over_def)

lemma cover_inv_partial [simp]: "cover_inv False w ls i s cov \<longleftrightarrow> cov = cov_upto ls i s"
  by (simp add: cover_inv_def)

lemma dip_inv_grows: "dip_inv p m n d k \<Longrightarrow> k \<le> k' \<Longrightarrow> dip_inv p m n d k'"
  by (auto simp: dip_inv_def)

lemma survey_ends:
  assumes "engine_inv s" "survey_over q"
  shows "home_inv q (sync_t0 s) (home_ne s) (t_takeoff s)"
    "dip_inv q (max_dips (cfg s)) (dips_done s) (dip_target s) (length (clusters (mlog s)))"
    "cover_inv True False (lanes s) (lane_i s) (lane_s s) (covered s)"
    "survey_over (phase s) \<Longrightarrow> cover_inv True (abort_reason s = None \<and> pattern (cfg s) \<noteq> ''center_return_rosette'')
       (lanes s) (lane_i s) (lane_s s) (covered s)"
    "lane_inv (lanes s) (lane_i s) (lane_s s)"
    "petal_inv (rosette_petals (cfg s)) (petal_i s) (petal_stage s)"
    "abort_inv (phase s) (settle_next_phase s) (abort_reason s)"
  using assms unfolding engine_inv_def by (auto dest: over_moves)

section \<open>Inputs and guards keep it\<close>

lemma abort_with_good [inv_intros]: "engine_inv s \<Longrightarrow> good s (abort_with r s)"
proof -
  assume inv: "engine_inv s"
  note e = survey_ends(1-3,5,6) [OF inv, of ABORT]
  have "good s (s\<lparr>abort_reason := Some r, phase := ABORT\<rparr>)"
    using e by (simp add: good_simps abort_inv_def)
  with inv show "good s (abort_with r s)" by (simp add: abort_with_def good_refl)
qed

lemma start_good [inv_intros]: "engine_inv s \<Longrightarrow> good s (start s)"
  by (cases "phase s = PREFLIGHT")
    (simp_all add: start_def good_simps home_inv_def dip_inv_def abort_inv_def)

lemma note_detector_alive_good [inv_intros]: "engine_inv s \<Longrightarrow> good s (note_detector_alive t s)"
  by (simp add: note_detector_alive_def good_simps)

lemma note_reset_counter_good [inv_intros]: "engine_inv s \<Longrightarrow> good s (note_reset_counter n s)"
  by (cases "last_reset_counter s") (simp_all add: note_reset_counter_def good_simps)

lemma apply_heading_reset_good [inv_intros]: "engine_inv s \<Longrightarrow> good s (apply_heading_reset d s)"
  by (simp add: apply_heading_reset_def good_simps)

lemma plain_updates_good:
  "engine_inv s \<Longrightarrow> good s (s\<lparr>dump_attempts := n\<rparr>)"
  "engine_inv s \<Longrightarrow> good s (s\<lparr>dump_acked := b\<rparr>)"
  "engine_inv s \<Longrightarrow> good s (s\<lparr>polygon_fence_engaged := b\<rparr>)"
  "engine_inv s \<Longrightarrow> good s (s\<lparr>lane_entered := b\<rparr>)"
  "engine_inv s \<Longrightarrow> good s (s\<lparr>petal_hold_t0 := h\<rparr>)"
  "engine_inv s \<Longrightarrow> good s (s\<lparr>settle_t0 := h\<rparr>)"
  "engine_inv s \<Longrightarrow> good s (s\<lparr>dip_t0 := h\<rparr>)"
  by (simp_all add: good_simps)

lemma notify_dump_result_good [inv_intros]: "engine_inv s \<Longrightarrow> good s (notify_dump_result ok s)"
  unfolding notify_dump_result_def Let_def
  by (simp add: good_refl plain_updates_good)
    (intro impI good_then [OF plain_updates_good(1) abort_with_good])

lemma ingest_clusters: "length (clusters l) \<le> length (clusters (snd (ingest x l)))"
  by (cases rule: ingest_cases [of x l]) auto

lemma ingest_good [inv_intros]: "engine_inv s \<Longrightarrow> good s (s\<lparr>mlog := snd (ingest x (mlog s))\<rparr>)"
  using ingest_clusters [of "mlog s" x] by (auto simp: good_simps intro: dip_inv_grows)

lemma check_silence_good: "engine_inv s \<Longrightarrow> good s (check_silence t s)"
  by (simp add: check_silence_def good_refl abort_with_good split: option.split)

lemma check_resets_good: "engine_inv s \<Longrightarrow> good s (check_resets s)"
  by (simp add: check_resets_def good_refl abort_with_good)

lemma check_timeout_good: "engine_inv s \<Longrightarrow> good s (check_timeout t s)"
  by (simp add: check_timeout_def good_refl abort_with_good split: option.split)

lemma check_estimate_good:
  assumes "engine_inv s"
  shows "good s (check_estimate pos s)"
proof -
  obtain v s1 where e: "estimate_fence_violation (fst pos, fst (snd pos)) s = (v, s1)"
    by (cases "estimate_fence_violation (fst pos, fst (snd pos)) s")
  then have "good s s1"
    using assms by (auto simp: estimate_fence_violation_def good_refl plain_updates_good split: if_splits)
  then show ?thesis
    by (cases v) (auto simp: check_estimate_def e intro: good_then abort_with_good)
qed

lemma check_aborts_good:
  assumes "engine_inv s"
  shows "good s (check_aborts t pos s)"
proof -
  have 1: "good s (check_silence t s)" using assms by (rule check_silence_good)
  have 2: "good s (check_resets (check_silence t s))" by (rule good_then [OF 1 check_resets_good])
  have 3: "good s (check_timeout t (check_resets (check_silence t s)))" by (rule good_then [OF 2 check_timeout_good])
  have "good s (check_estimate pos (check_timeout t (check_resets (check_silence t s))))"
    by (rule good_then [OF 3 check_estimate_good])
  then show ?thesis using assms by (simp add: check_aborts_def good_refl)
qed

section \<open>Ticks keep it and return\<close>

lemma in_survey_cover:
  "engine_inv s \<Longrightarrow> \<not> survey_over (phase s) \<Longrightarrow> covered s = cov_upto (lanes s) (lane_i s) (lane_s s)"
  by (auto simp: engine_inv_def cover_inv_def)

lemma cover_inv_complete [simp]: "cover_inv True w ls i s (cov_upto ls (length ls) 0)"
  by (simp add: cover_inv_def)

lemma lane_progress_good:
  assumes inv: "engine_inv s" and "\<not> survey_over (phase s)" and l: "l = lanes s ! lane_i s"
  shows "good s (lane_progress l pos s)" "phase (lane_progress l pos s) = phase s"
    "lane_i (lane_progress l pos s) = lane_i s" "lanes (lane_progress l pos s) = lanes s"
proof -
  have 1: "lane_index l = lane_i s" "0 < lane_length l" "0 \<le> lane_s s" "lane_i s < length (lanes s)" "numbered_lanes (lanes s)"
    using inv l by (auto simp: engine_inv_def lane_inv_def numbered_lanes_def)
  show "phase (lane_progress l pos s) = phase s" "lane_i (lane_progress l pos s) = lane_i s"
    "lanes (lane_progress l pos s) = lanes s"
    by (simp_all add: lane_progress_def Let_def)
  have cov: "covered s = cov_upto (lanes s) (lane_i s) (lane_s s)" using in_survey_cover assms by blast
  have step: "good s (s\<lparr>covered := record_coverage (lane_index l) (lane_s s) m (covered s), lane_s := m\<rparr>)"
    if "lane_s s < m" "m \<le> lane_length l" for m
    using inv assms(2) that 1 l by (simp add: good_simps cov record_coverage_extends lane_inv_def)
  show "good s (lane_progress l pos s)"
    unfolding lane_progress_def Let_def using inv 1(2) step by (simp add: good_refl)
qed

lemma lane_finish_good:
  assumes inv: "engine_inv s" and p: "phase s = LANE" and l: "l = lanes s ! lane_i s"
  shows "good s (snd (lane_finish l pos stopped s))"
proof -
  have 1: "lane_index l = lane_i s" "0 < lane_length l" "0 \<le> lane_s s" "lane_s s \<le> lane_length l"
    "lane_i s < length (lanes s)" "numbered_lanes (lanes s)"
    using inv l by (auto simp: engine_inv_def lane_inv_def numbered_lanes_def)
  have "covered s = cov_upto (lanes s) (lane_i s) (lane_s s)" using in_survey_cover inv p by simp
  then have cov: "record_coverage (lane_index l) (lane_s s) (lane_length l) (covered s) = cov_upto (lanes s) (Suc (lane_i s)) 0"
    using record_coverage_completes [of "lane_s s" "lanes s" "lane_i s"] 1 l by simp
  have more: "good s (s\<lparr>covered := cov_upto (lanes s) (Suc (lane_i s)) 0, lane_i := Suc (lane_i s), lane_s := 0, lane_entered := False\<rparr>)"
    if "Suc (lane_i s) < length (lanes s)"
    using inv p that 1(6) by (simp add: good_simps lane_inv_def numbered_lanes_def less_imp_le)
  have last: "good s (s\<lparr>covered := cov_upto (lanes s) (Suc (lane_i s)) 0, phase := EGRESS\<rparr>)"
    if "\<not> Suc (lane_i s) < length (lanes s)"
  proof -
    have "Suc (lane_i s) = length (lanes s)" using that 1(5) by simp
    then show ?thesis
      using inv p by (auto simp: good_simps abort_inv_def intro: over_moves)
  qed
  show ?thesis
    using inv more last by (simp add: lane_finish_def Let_def cov good_refl)
qed

definition good_tick :: "engine \<Rightarrow> 'a \<times> engine \<Rightarrow> bool" where
  "good_tick s r \<longleftrightarrow> good s (snd r)"

lemma first_confirmed_bound: "first_confirmed i cs = Some k \<Longrightarrow> i \<le> k \<and> k < i + length cs"
  by (induction i cs rule: first_confirmed.induct) (auto split: if_splits)

lemma next_dip_target_bound: "next_dip_target l = Some k \<Longrightarrow> k < length (clusters l)"
  using first_confirmed_bound by (force simp: next_dip_target_def)

lemma tick_lane_good:
  assumes inv: "engine_inv s" and p: "phase s = LANE"
  shows "okE (good_tick s) (tick_lane pos vel s)"
proof -
  define s1 where "s1 = s\<lparr>lane_entered := True\<rparr>"
  have s1: "good s s1" "engine_inv s1" "phase s1 = LANE" "lanes s1 = lanes s" "lane_i s1 = lane_i s" "cfg s1 = cfg s" "mlog s1 = mlog s"
    using plain_updates_good(4) [OF inv, of True] p by (auto simp: s1_def intro: good_inv)
  have i: "lane_i s < length (lanes s)" using inv by (simp add: engine_inv_def lane_inv_def)
  have dip: "good s1 (s1\<lparr>dip_target := Some k, dip_t0 := None, phase := VERIFY_DIP\<rparr>)"
    if "next_dip_target (mlog s) = Some k" "dips_done s1 < max_dips (cfg s)" for k
    using s1(2,3,6,7) next_dip_target_bound [OF that(1)] that(2)
    by (simp add: good_simps home_inv_def dip_inv_def abort_inv_def)
  define l where "l = lanes s ! lane_i s"
  have prog: "good s1 (lane_progress l pos s1)" and pr: "phase (lane_progress l pos s1) = LANE"
    "lane_i (lane_progress l pos s1) = lane_i s" "lanes (lane_progress l pos s1) = lanes s"
    using lane_progress_good [OF s1(2), of l pos] s1 by (simp_all add: l_def)
  have "good s1 (snd (lane_finish l pos stopped (lane_progress l pos s1)))" for stopped
    by (rule good_then [OF prog lane_finish_good]) (simp_all only: pr l_def [symmetric])
  then show ?thesis
    using i inv dip good_trans [OF s1(1)] s1(6,7)
    by (auto simp: tick_lane_def Let_def good_tick_def good_refl s1_def [symmetric] l_def [symmetric]
        split: option.split)
qed

lemma hold_petal_good:
  assumes inv: "engine_inv s" and leave: "\<And>u. engine_inv u \<Longrightarrow> phase u = phase s \<Longrightarrow> petal_stage u = petal_stage s
      \<Longrightarrow> petal_i u = petal_i s \<Longrightarrow> cfg u = cfg s \<Longrightarrow> good u (leave u)"
  shows "good s (hold_petal t steady h leave s)"
proof -
  have u: "good s (s\<lparr>petal_hold_t0 := None\<rparr>)" using inv by (rule plain_updates_good)
  then have "good s (leave (s\<lparr>petal_hold_t0 := None\<rparr>))" by (rule good_then) (simp add: leave)
  with u inv show ?thesis
    by (auto simp: hold_petal_def good_refl plain_updates_good split: option.split)
qed

lemma leave_center_good:
  "engine_inv s \<Longrightarrow> phase s = LANE \<Longrightarrow> pattern (cfg s) = ''center_return_rosette'' \<Longrightarrow> good s (leave_center s)"
  using survey_ends(1-3,5,6) [of s DUMP]
  by (simp add: leave_center_def) (auto simp: good_simps abort_inv_def petal_inv_def)

lemma leave_outer_good: "engine_inv s \<Longrightarrow> petal_stage s \<noteq> Center \<Longrightarrow> good s (leave_outer s)"
  by (simp add: leave_outer_def good_simps petal_inv_def)

lemma petal_moves_good:
  "engine_inv s \<Longrightarrow> petal_stage s \<noteq> Center \<Longrightarrow> good s (s\<lparr>petal_stage := OuterHold, petal_hold_t0 := None\<rparr>)"
  "engine_inv s \<Longrightarrow> petal_stage s \<noteq> Center \<Longrightarrow>
     good s (s\<lparr>petal_i := Suc (petal_i s), petal_stage := Center, petal_hold_t0 := None\<rparr>)"
  by (auto simp: good_simps petal_inv_def)

lemma tick_rosette_good:
  assumes inv: "engine_inv s" and p: "phase s = LANE" and pat: "pattern (cfg s) = ''center_return_rosette''"
  shows "okE (good_tick s) (tick_rosette t pos vel hv sr s)"
proof -
  obtain home where home: "home_ne s = Some home" using inv p by (auto simp: engine_inv_def home_inv_def)
  have center: "good s (hold_petal t steady h leave_center s)" for steady h
    by (rule hold_petal_good [OF inv]) (simp add: leave_center_good p pat)
  have outer: "petal_stage s \<noteq> Center \<Longrightarrow> good s (hold_petal t steady h leave_outer s)" for steady h
    by (rule hold_petal_good [OF inv]) (simp add: leave_outer_good)
  have idx: "petal_stage s \<noteq> Center \<Longrightarrow> petal_i s < 8"
    using inv by (auto simp: engine_inv_def petal_inv_def)
  show ?thesis
    using home center outer idx inv petal_moves_good [OF inv]
    by (cases "petal_stage s")
      (simp_all add: tick_rosette_def Let_def good_tick_def good_refl rosette_headings_deg_def)
qed

lemma tick_survey_good:
  "engine_inv s \<Longrightarrow> phase s = LANE \<Longrightarrow> okE (good_tick s) (tick_survey t pos vel hv sr s)"
  by (simp add: tick_survey_def tick_lane_good tick_rosette_good)

lemma tick_takeoff_good:
  assumes inv: "engine_inv s" and p: "phase s = TAKEOFF"
  shows "okE (good_tick s) (tick_takeoff t pos vel hv sr s)"
proof -
  have l: "good s (s\<lparr>phase := LANE\<rparr>)"
    using inv p by (simp add: good_simps home_inv_def dip_inv_def abort_inv_def)
  then have "okE (good_tick (s\<lparr>phase := LANE\<rparr>)) (tick_survey t pos vel hv sr (s\<lparr>phase := LANE\<rparr>))"
    by (intro tick_survey_good) (simp_all add: good_inv)
  then have "okE (good_tick s) (tick_survey t pos vel hv sr (s\<lparr>phase := LANE\<rparr>))"
    by (rule okE_mono) (use l in \<open>auto simp: good_tick_def intro: good_trans\<close>)
  then show ?thesis
    using inv p by (auto simp: tick_takeoff_def engine_inv_def home_inv_def good_tick_def Let_def good_refl)
qed

lemma tick_sync_good:
  assumes inv: "engine_inv s" and p: "phase s = OFFBOARD_SYNC"
  shows "okE (good_tick s) (tick_sync t pos s)"
proof -
  define s1 where "s1 = (case sync_t0 s of
      None \<Rightarrow> s\<lparr>sync_t0 := Some t, home_ne := Some (fst pos, fst (snd pos))\<rparr> | Some _ \<Rightarrow> s)"
  have s1: "good s s1" and p1: "phase s1 = OFFBOARD_SYNC"
    using inv p by (auto simp: s1_def good_simps home_inv_def split: option.split)
  obtain t0 home where h: "sync_t0 s1 = Some t0" "home_ne s1 = Some home"
    using good_inv [OF s1] inv by (cases "sync_t0 s") (auto simp: s1_def engine_inv_def home_inv_def)
  have "good s1 (s1\<lparr>phase := TAKEOFF, t_takeoff := Some t\<rparr>)"
    using good_inv [OF s1] p1 h by (simp add: good_simps home_inv_def dip_inv_def abort_inv_def)
  then show ?thesis
    using s1 h good_trans [OF s1] unfolding tick_sync_def s1_def [symmetric]
    by (simp add: Let_def good_tick_def)
qed

lemma tick_dip_good:
  assumes inv: "engine_inv s" and p: "phase s = VERIFY_DIP"
  shows "okE (good_tick s) (tick_dip t pos s)"
proof -
  obtain k where k: "dip_target s = Some k" "k < length (clusters (mlog s))"
    using inv p by (auto simp: engine_inv_def dip_inv_def)
  define s1 where "s1 = s\<lparr>dip_t0 := Some (case dip_t0 s of None \<Rightarrow> t | Some t0 \<Rightarrow> t0)\<rparr>"
  have s1: "good s s1" "phase s1 = VERIFY_DIP" "cfg s1 = cfg s"
    using inv p by (simp_all add: s1_def plain_updates_good)
  have "good s1 (s1\<lparr>mlog := (mlog s1)\<lparr>clusters := (clusters (mlog s1))[k := c]\<rparr>,
      dips_done := dips_done s1 + 1, dip_target := None, lane_entered := False, phase := LANE\<rparr>)" for c
    using good_inv [OF s1(1)] s1(2)
    by (simp add: good_simps home_inv_def dip_inv_def abort_inv_def)
  then show ?thesis
    using k inv good_trans [OF s1(1)] s1(1)
    by (simp add: tick_dip_def Let_def good_tick_def good_refl s1_def [symmetric])
qed

lemma begin_settle_good:
  assumes inv: "engine_inv s" and "survey_over (phase s)" "abort_reason s = None \<or> phase s = ABORT"
  shows "good s (begin_settle LAND require s)"
  using survey_ends [OF inv, of SETTLE] assms
  by (simp add: begin_settle_def good_simps abort_inv_def)

lemma abort_reason_phase:
  "engine_inv s \<Longrightarrow> phase s \<in> {EGRESS, DUMP, PREFLIGHT, OFFBOARD_SYNC, TAKEOFF, LANE, VERIFY_DIP} \<Longrightarrow> abort_reason s = None"
  by (auto simp: engine_inv_def abort_inv_def)

lemma tick_return_good:
  assumes inv: "engine_inv s" and p: "phase s = EGRESS \<or> phase s = ABORT"
  shows "good s (snd (tick_return pos s))"
proof -
  have "phase s = EGRESS \<Longrightarrow> good s (s\<lparr>phase := DUMP\<rparr>)"
    using survey_ends [OF inv, of DUMP] by (simp add: good_simps abort_inv_def)
  then show ?thesis
    using p inv begin_settle_good [OF inv, of False]
    by (auto simp: tick_return_def Let_def good_refl)
qed

lemma tick_settle_good:
  assumes inv: "engine_inv s" and p: "phase s = SETTLE"
  shows "good s (snd (tick_settle t pos vel hv sr s))"
proof -
  have n: "settle_next_phase s = LAND" using inv p by (simp add: engine_inv_def abort_inv_def)
  have "good s (s\<lparr>phase := LAND\<rparr>)"
    using survey_ends [OF inv, of LAND] p by (simp add: good_simps abort_inv_def)
  then show ?thesis
    using inv by (auto simp: tick_settle_def Let_def n good_refl plain_updates_good split: option.split)
qed

lemma tick_dump_good:
  assumes inv: "engine_inv s" and p: "phase s = DUMP"
  shows "good s (snd (tick_dump s))"
  using assms begin_settle_good [OF inv, of True] abort_reason_phase [OF inv]
  by (simp add: tick_dump_def Let_def good_refl)

lemma tick_land_good:
  assumes inv: "engine_inv s" and p: "phase s = LAND"
  shows "good s (snd (tick_land pos s))"
proof -
  have "good s (s\<lparr>phase := DONE\<rparr>)"
    using survey_ends [OF inv, of DONE] p by (simp add: good_simps abort_inv_def)
  with inv show ?thesis by (simp add: tick_land_def Let_def good_refl)
qed

lemma okE_some_sp [simp]: "okE P (some_sp r) = okE (\<lambda>x. P (Some (fst x), snd x)) r"
  by (simp add: some_sp_def case_prod_beta)

lemma good_tick_some [simp]: "good_tick s (Some (fst x), snd x) = good_tick s x"
  by (simp add: good_tick_def)

lemma tick_inner_good:
  assumes "engine_inv s0"
  shows "okE (good_tick s0) (tick_inner t pos vel hv sr s0)"
proof -
  define s where "s = check_aborts t pos s0"
  have s: "good s0 s" using check_aborts_good [OF assms] by (simp add: s_def)
  have inv: "engine_inv s" using s by (rule good_inv)
  have "okE (good_tick s) (tick_inner t pos vel hv sr s0)"
    using tick_sync_good [OF inv] tick_takeoff_good [OF inv] tick_survey_good [OF inv] tick_dip_good [OF inv]
      tick_return_good [OF inv] tick_settle_good [OF inv] tick_dump_good [OF inv] tick_land_good [OF inv] inv
    by (cases "phase s") (simp_all add: tick_inner_def s_def [symmetric] good_refl good_tick_def [abs_def])
  then show ?thesis by (rule okE_mono) (use s in \<open>auto simp: good_tick_def intro: good_trans\<close>)
qed

lemma tick_good:
  assumes inv: "engine_inv s"
  shows "okE (good_tick s) (tick t pos vel hv sr s)"
proof -
  obtain sp s1 where r: "tick_inner t pos vel hv sr s = Inr (sp, s1)" and s1: "good s s1"
    using tick_inner_good [OF inv, of t pos vel hv sr] by (auto simp: okE_iff good_tick_def)
  have again: "okE (good_tick s) (tick_inner t pos vel hv sr (abort_with rn s1))" for rn
  proof -
    have g: "good s (abort_with rn s1)" by (rule good_then [OF s1 abort_with_good])
    show ?thesis
      by (rule okE_mono [OF tick_inner_good [OF good_inv [OF g]]])
        (use g in \<open>auto simp: good_tick_def intro: good_trans\<close>)
  qed
  show ?thesis
    using s1 again by (auto simp: tick_def r good_tick_def split: option.split)
qed

lemma mission_step_good:
  assumes inv: "engine_inv s"
  shows "okE (good s) (mission_step s e)"
  using tick_good [OF inv] inv
  by (cases e)
    (auto simp: mission_step_def operator_abort_def request_abort_def good_tick_def [abs_def] case_prod_beta
      intro: inv_intros)

lemma mission_step_Inr: "engine_inv s \<Longrightarrow> mission_step s e = Inr s' \<Longrightarrow> good s s'"
  using mission_step_good [of s e] by simp

interpretation mission: safe_machine mission_step engine_inv
  by standard (use mission_step_Inr mission_step_good in \<open>fastforce simp: okE_iff good_def\<close>)+

interpretation mission: fallible_progress mission_step engine_inv mission_ahead
  by standard
    (use mission_step_Inr in \<open>auto simp: good_def mission_ahead_refl intro: mission_ahead_trans\<close>)

section \<open>A new engine\<close>

lemma serpentine_numbered:
  "serpentine origin len n sp h = Inr ls \<Longrightarrow> numbered_lanes ls \<and> ls \<noteq> []"
  by (auto simp: serpentine_def numbered_lanes_def serpentine_lane_def Let_def split: if_splits)

lemma polygon_numbered: "polygon_serpentine polygon sp = Inr ls \<Longrightarrow> numbered_lanes ls \<and> ls \<noteq> []"
  using polygon_field_lanes [of polygon sp ls] by (auto simp: numbered_lanes_def dest: field_lane_pos)

lemma mk_engine_inv:
  assumes "mk_engine c mines yaw = Inr s"
  shows "engine_inv s \<and> cfg s = c \<and> phase s = PREFLIGHT \<and> abort_reason s = None"
proof -
  obtain u fence ls where c: "check_config c = Inr u"
    and ls: "(if fence \<noteq> [] \<and> pattern c = ''serpentine'' then polygon_serpentine fence (lane_spacing c)
            else serpentine (lanes_origin c) (cfg_lane_length c) (n_lanes c) (lane_spacing c)
                   (radians (lane_heading_deg c))) = Inr ls"
    and s: "lanes s = ls" "lane_i s = 0" "lane_s s = 0" "phase s = PREFLIGHT" "abort_reason s = None" "covered s = []"
      "cfg s = c" "petal_i s = 0" "petal_stage s = Center" "sync_t0 s = None" "home_ne s = None" "t_takeoff s = None"
      "dips_done s = 0"
    using assms unfolding mk_engine_def bindE_eq_Inr_iff by fastforce
  have "numbered_lanes ls" "ls \<noteq> []"
    using ls serpentine_numbered polygon_numbered by (auto split: if_splits)
  moreover have "rosette_petals c \<le> 8"
    using c by (auto simp: check_config_def rosette_headings_deg_def split: if_splits)
  ultimately show ?thesis
    by (auto simp: engine_inv_def s lane_inv_def petal_inv_def home_inv_def dip_inv_def abort_inv_def
        cov_upto_def numbered_lanes_def)
qed

section \<open>What the engine guarantees\<close>

text \<open>A small valid configuration for the examples.\<close>

definition example_config :: mission_config where
  "example_config = \<lparr>pattern = ''serpentine'', lanes_origin = (0, 0), cfg_lane_length = 20, n_lanes = 1,
     lane_spacing = 6, lane_heading_deg = 0, survey_alt_m = 6, lane_speed = 2, rosette_radius_m = 3 / 2,
     rosette_outer_hold_s = 1 / 2, rosette_center_hold_s = 1 / 2, rosette_petals = 8, climb_speed = 3 / 2,
     descent_speed = 4 / 5, reach_tol_m = 1 / 2, sync_duration_s = 1, egress_point = (0, 0), land_settle_s = 3,
     land_speed_tol_mps = 1 / 5, dip_hover_s = 2, max_dips = 4, detector_silence_s = 5, reset_storm_count = 3,
     dump_retry_limit = 3, fence_radius_m = 30, fence_polygon_ne = [], fence_margin_m = 0, mission_timeout_s = 0\<rparr>"

definition example_engine :: engine where
  "example_engine = (case mk_engine example_config (new_log 1 5 1 1) 0 of Inr s \<Rightarrow> s)"

definition example_lane :: lane where
  "example_lane = \<lparr>lane_index = 0, lane_start = (0, 0), lane_heading = 0, lane_length = 20\<rparr>"

lemma example_engine_fields:
  "mk_engine example_config (new_log 1 5 1 1) 0 = Inr example_engine"
  "cfg example_engine = example_config" "phase example_engine = PREFLIGHT" "fence_polygon example_engine = []"
  "lanes example_engine = [example_lane]" "mlog example_engine = new_log 1 5 1 1"
  by (simp_all add: example_engine_def mk_engine_def check_config_def example_config_def rosette_headings_deg_def
      serpentine_def serpentine_lane_def radians_def example_lane_def Let_def)

text \<open>Unfolding rules that evaluate the engine on the example.\<close>

lemmas tick_eval = mission_step_def tick_def tick_inner_def check_aborts_def check_silence_def check_resets_def
  check_timeout_def check_estimate_def estimate_fence_violation_def fence_violation_def fence_radius_def
  tick_sync_def tick_takeoff_def tick_survey_def tick_lane_def lane_progress_def lane_finish_def tick_dip_def
  tick_return_def tick_settle_def settle_ready_def some_sp_def target_sp_def at_alt_def alt_target_def reached_def
  slow_def egress_ne_def command_fence_active_def point_at_def record_coverage_def abort_with_def start_def Let_def

lemmas example_eval = tick_eval example_engine_def mk_engine_def check_config_def example_config_def
  rosette_headings_deg_def serpentine_def serpentine_lane_def radians_def new_log_def next_dip_target_def
  ingest_def nearest_cluster_def found_cluster_def add_statistics_def add_fix_def climb_ladder_def obs_weight_def
  dist2_def

text \<open>
  Claim C1: an engine that could be built never raises. Whatever notifications, detections and ticks
  arrive in whatever order, every one of them and any further tick returns, the lane and petal it
  is on exist, and it never flies more dips than its budget.
\<close>

theorem mission_never_raises:
  assumes "mk_engine c mines yaw = Inr s"
  shows "\<exists>s'. foldE mission_step s es = Inr s'
    \<and> (\<exists>r. tick t pos vel hv sr s' = Inr r)
    \<and> lane_i s' < length (lanes s')
    \<and> (petal_stage s' \<noteq> Center \<longrightarrow> petal_i s' < length rosette_headings_deg)
    \<and> 0 \<le> dips_done s' \<and> dips_done s' \<le> max 0 (max_dips c)"
proof -
  have inv: "engine_inv s" and cfg: "cfg s = c" using mk_engine_inv [OF assms] by simp_all
  obtain s' where s': "foldE mission_step s es = Inr s'" "engine_inv s'"
    using mission.run_returns [OF inv] by blast
  have "mission_ahead s s'" using mission.run_ahead [OF inv s'(1)] .
  then have "cfg s' = c" using cfg by (simp add: mission_ahead_def)
  moreover have "\<exists>r. tick t pos vel hv sr s' = Inr r"
    using tick_good [OF s'(2), of t pos vel hv sr] unfolding okE_iff by blast
  ultimately show ?thesis
    using s' by (auto simp: engine_inv_def lane_inv_def petal_inv_def dip_inv_def rosette_headings_deg_def)
qed

theorem mission_never_raises_witness:
  "\<exists>s'. foldE mission_step example_engine [Start, Tick 0 (0, 0, 0) (0, 0, 0) True True, OperatorAborts] = Inr s'
     \<and> dips_done s' \<le> 4"
proof -
  have "max 0 (max_dips example_config) = 4" by (simp add: example_config_def)
  then show ?thesis
    using mission_never_raises [OF example_engine_fields(1),
        where es = "[Start, Tick 0 (0, 0, 0) (0, 0, 0) True True, OperatorAborts]"] by metis
qed

lemma complete_lane_no_gap:
  assumes "numbered_lanes ls" "k < length ls"
  shows "lane_gaps (ls ! k) 0 (sort_key iv_s0 (filter (\<lambda>iv. iv_lane iv = lane_index (ls ! k)) (cov_upto ls (length ls) 0))) = []"
proof -
  have k: "lane_index (ls ! k) = k" "0 < lane_length (ls ! k)" using assms by (simp_all add: numbered_lanes_def)
  have "filter (\<lambda>j. j = k) [0..<n] = (if k < n then [k] else [])" for n by (induction n) auto
  then have "filter (\<lambda>iv. iv_lane iv = k) (cov_upto ls (length ls) 0) = [\<lparr>iv_lane = k, iv_s0 = 0, iv_s1 = lane_length (ls ! k)\<rparr>]"
    using assms(2) by (simp add: cov_upto_def filter_map o_def)
  then show ?thesis using k by simp
qed

text \<open>
  Claim C2: the coverage report is right when it matters. If a serpentine survey ends in egress, dump,
  settling, landing or done without an abort, the report lists every lane from its start to its
  full length exactly once, in order, and no gap.
\<close>

theorem completed_survey_has_no_gaps:
  assumes mk: "mk_engine c mines yaw = Inr s" and pat: "pattern c = ''serpentine''"
    and run: "foldE mission_step s es = Inr s'"
    and over: "phase s' \<in> {EGRESS, DUMP, SETTLE, LAND, DONE}" and ok: "abort_reason s' = None"
  shows "\<exists>r. coverage_report s' = Inr r \<and> cv_gaps r = []
    \<and> cv_lanes r = map (\<lambda>l. (point_at l 0, point_at l (lane_length l))) (lanes s')"
proof -
  have inv: "engine_inv s" and cfg: "cfg s = c" using mk_engine_inv [OF mk] by simp_all
  have inv': "engine_inv s'" using mission.run_inv [OF inv run] .
  have pat': "pattern (cfg s') = ''serpentine''"
    using mission.run_ahead [OF inv run] cfg pat by (simp add: mission_ahead_def)
  have ls: "numbered_lanes (lanes s')" using inv' by (simp add: engine_inv_def lane_inv_def)
  have cov: "covered s' = cov_upto (lanes s') (length (lanes s')) 0"
    using inv' over ok pat' by (auto simp: engine_inv_def cover_inv_def)
  have "mapE (\<lambda>iv. bindE (item (lanes s') (iv_lane iv)) (\<lambda>l. Inr (point_at l (iv_s0 iv), point_at l (iv_s1 iv))))
      (cov_upto (lanes s') n 0)
    = (Inr (map (\<lambda>l. (point_at l 0, point_at l (lane_length l))) (take n (lanes s'))) :: py_error + _)"
    if "n \<le> length (lanes s')" for n
    using that
  proof (induction n)
    case (Suc n)
    have app: "mapE f (xs @ [x]) = bindE (mapE f xs) (\<lambda>ys. bindE (f x) (\<lambda>y. Inr (ys @ [y])))"
      for f :: "covered_interval \<Rightarrow> py_error + point \<times> point" and xs x
      by (induction xs) (auto simp: bindE_def split: sum.split)
    show ?case using Suc by (simp add: cov_upto_def app take_Suc_conv_app_nth)
  qed (simp add: cov_upto_def)
  from this [of "length (lanes s')"]
  have "\<exists>r. coverage_report s' = Inr r
      \<and> cv_gaps r = concat (map (\<lambda>l. lane_gaps l 0
          (sort_key iv_s0 (filter (\<lambda>iv. iv_lane iv = lane_index l) (covered s')))) (lanes s'))
      \<and> cv_lanes r = map (\<lambda>l. (point_at l 0, point_at l (lane_length l))) (lanes s')"
    by (simp add: coverage_report_def pat' cov)
  moreover have "\<forall>l \<in> set (lanes s'). lane_gaps l 0
      (sort_key iv_s0 (filter (\<lambda>iv. iv_lane iv = lane_index l) (covered s'))) = []"
    using complete_lane_no_gap [OF ls] unfolding cov by (metis in_set_conv_nth)
  ultimately show ?thesis by auto
qed

theorem completed_survey_has_no_gaps_witness:
  "\<exists>u r. foldE mission_step example_engine [Start, Tick 0 (0, 0, 0) (0, 0, 0) True True,
       Tick 1 (0, 0, 0) (0, 0, 0) True True, Tick 2 (0, 0, - 6) (0, 0, 0) True True,
       Tick 3 (20, 0, - 6) (0, 0, 0) True True] = Inr u
     \<and> phase u = EGRESS \<and> coverage_report u = Inr r \<and> cv_gaps r = []"
proof -
  obtain u where u: "foldE mission_step example_engine [Start, Tick 0 (0, 0, 0) (0, 0, 0) True True,
       Tick 1 (0, 0, 0) (0, 0, 0) True True, Tick 2 (0, 0, - 6) (0, 0, 0) True True,
       Tick 3 (20, 0, - 6) (0, 0, 0) True True] = Inr u" "phase u = EGRESS" "abort_reason u = None"
    by (simp add: example_eval)
  have "pattern example_config = ''serpentine''" by (simp add: example_config_def)
  from completed_survey_has_no_gaps [OF example_engine_fields(1) this u(1) _ u(3)] u show ?thesis by auto
qed

text \<open>
  Claim C3: an abort is one-way. Once a mission has an abort reason, no later event clears it, and the
  engine only returns, settles, lands or is done: it never surveys, dips or dumps again.
\<close>

theorem abort_is_one_way:
  assumes mk: "mk_engine c mines yaw = Inr s" and before: "foldE mission_step s es = Inr s1"
    and aborted: "abort_reason s1 \<noteq> None" and after: "foldE mission_step s1 es' = Inr s2"
  shows "abort_reason s2 \<noteq> None \<and> phase s2 \<in> {ABORT, SETTLE, LAND, DONE} \<and> cfg s2 = c"
proof -
  have inv: "engine_inv s" and cfg: "cfg s = c" using mk_engine_inv [OF mk] by simp_all
  have 1: "engine_inv s1" using mission.run_inv [OF inv before] .
  have 2: "engine_inv s2" using mission.run_inv [OF 1 after] .
  have "abort_reason s2 \<noteq> None \<and> cfg s2 = cfg s1"
    using mission.run_ahead [OF 1 after] aborted by (simp add: mission_ahead_def)
  moreover have "cfg s1 = c" using mission.run_ahead [OF inv before] cfg by (simp add: mission_ahead_def)
  ultimately show ?thesis using 2 by (auto simp: engine_inv_def abort_inv_def)
qed

theorem abort_is_one_way_witness:
  "\<exists>s1 s2. foldE mission_step example_engine [Start, OperatorAborts] = Inr s1
     \<and> foldE mission_step s1 [Start, Tick 9 (0, 0, - 6) (0, 0, 0) True True] = Inr s2
     \<and> phase s2 \<in> {ABORT, SETTLE, LAND, DONE}"
proof -
  obtain s1 where s1: "foldE mission_step example_engine [Start, OperatorAborts] = Inr s1" "abort_reason s1 \<noteq> None"
    by (simp add: mission_step_def start_def operator_abort_def abort_with_def example_engine_fields)
  have "engine_inv s1"
    using mk_engine_inv [OF example_engine_fields(1)] mission.run_inv [OF _ s1(1)] by blast
  then obtain s2 where s2: "foldE mission_step s1 [Start, Tick 9 (0, 0, - 6) (0, 0, 0) True True] = Inr s2"
    using mission.run_returns by blast
  show ?thesis using s1(1) s2 abort_is_one_way [OF example_engine_fields(1) s1 s2] by blast
qed

lemma abort_tick_inner:
  assumes "phase s = ABORT" "tick_inner t pos vel hv sr s = Inr (sp, s')"
  shows "phase s' \<in> {ABORT, SETTLE}"
  using assms
  by (auto simp: tick_inner_def check_aborts_def tick_return_def begin_settle_def some_sp_def Let_def split: if_splits)

lemma tick_in_fence:
  assumes "tick t pos vel hv sr s = Inr (Some sp, s')"
  defines "p \<equiv> (fst (sp_pos sp), fst (snd (sp_pos sp)))"
  shows "(fence_polygon s' \<noteq> [] \<longrightarrow> phase s' \<in> {LANE, VERIFY_DIP} \<longrightarrow> point_in_polygon p (fence_polygon s'))
    \<and> (fence_polygon s' = [] \<longrightarrow> phase s' \<in> {TAKEOFF, LANE, VERIFY_DIP} \<longrightarrow> 0 < fence_radius_m (cfg s') \<longrightarrow>
         (\<forall>h. home_ne s' = Some h \<longrightarrow> dist2 p h \<le> fence_radius_m (cfg s')))"
proof (cases "command_fence_active s'")
  case False
  then show ?thesis by (auto simp: command_fence_active_def)
next
  case True
  obtain sp1 s1 where 1: "tick_inner t pos vel hv sr s = Inr (sp1, s1)"
    using assms(1) by (auto simp: tick_def)
  have "sp1 = Some sp \<and> s1 = s' \<and> fence_violation p s' = None"
  proof (cases "\<exists>q v. sp1 = Some q \<and> command_fence_active s1 \<and> fence_violation (fst (sp_pos q), fst (snd (sp_pos q))) s1 = Some v")
    case False
    then show ?thesis using assms(1) 1 True by (auto simp: tick_def p_def split: option.splits if_splits)
  next
    case violated: True
    then obtain v where again: "tick_inner t pos vel hv sr (abort_with (CommandOutside v) s1) = Inr (Some sp, s')"
      using assms(1) 1 by (auto simp: tick_def)
    have "phase (abort_with (CommandOutside v) s1) = ABORT"
      using violated by (auto simp: abort_with_def command_fence_active_def split: if_splits)
    from abort_tick_inner [OF this again] True show ?thesis
      by (auto simp: command_fence_active_def split: if_splits)
  qed
  then show ?thesis
    by (auto simp: fence_violation_def fence_radius_def dist2_def Let_def not_less split: if_splits)
qed

text \<open>
  Claim C4: a commanded setpoint respects the fence. Any setpoint a tick returns while the engine is
  still surveying or dipping after it lies in the field polygon where one is configured, and
  otherwise, takeoff included, within the fence radius of home.
\<close>

theorem tick_respects_fence:
  assumes "tick t pos vel hv sr s = Inr (Some sp, s')"
  defines "p \<equiv> (fst (sp_pos sp), fst (snd (sp_pos sp)))"
  shows "(fence_polygon s' \<noteq> [] \<longrightarrow> phase s' \<in> {LANE, VERIFY_DIP} \<longrightarrow> point_in_polygon p (fence_polygon s'))
    \<and> (fence_polygon s' = [] \<longrightarrow> phase s' \<in> {TAKEOFF, LANE, VERIFY_DIP} \<longrightarrow> 0 < fence_radius_m (cfg s') \<longrightarrow>
         (\<forall>h. home_ne s' = Some h \<longrightarrow> dist2 p h \<le> fence_radius_m (cfg s')))"
  using tick_in_fence [OF assms(1)] unfolding p_def .

theorem tick_respects_fence_witness:
  "\<exists>sp s'. tick 2 (0, 0, - 6) (0, 0, 0) True True
       (example_engine\<lparr>phase := TAKEOFF, home_ne := Some (0, 0), sync_t0 := Some 0\<rparr>) = Inr (Some sp, s')
     \<and> phase s' = LANE \<and> dist2 (fst (sp_pos sp), fst (snd (sp_pos sp))) (0, 0) \<le> 30"
proof -
  obtain sp s' where r: "tick 2 (0, 0, - 6) (0, 0, 0) True True
       (example_engine\<lparr>phase := TAKEOFF, home_ne := Some (0, 0), sync_t0 := Some 0\<rparr>) = Inr (Some sp, s')"
      "phase s' = LANE" "fence_polygon s' = []" "fence_radius_m (cfg s') = 30" "home_ne s' = Some (0, 0)"
    by (simp add: example_eval)
  from tick_respects_fence [OF r(1)] r(2-5) have "dist2 (fst (sp_pos sp), fst (snd (sp_pos sp))) (0, 0) \<le> 30" by simp
  with r show ?thesis by blast
qed

text \<open>
  The status ladder is not monotone. In a run from a new engine a mine that was verified by its
  tag while the vehicle was hovering over it is marked only dipped when the hover ends.
\<close>

theorem dip_downgrades_verified_mine:
  "\<exists>u w. foldE mission_step example_engine
     [Ingest \<lparr>obs_t = 0, ground_local = (1, 0), conf = 1, class_id = [], obs_ll = None, tag_id = None\<rparr>,
      Start, Tick 0 (0, 0, 0) (0, 0, 0) True True, Tick 1 (0, 0, 0) (0, 0, 0) True True,
      Tick 2 (0, 0, - 6) (0, 0, 0) True True, Tick 3 (1, 0, - 6) (0, 0, 0) True True,
      Ingest \<lparr>obs_t = 4, ground_local = (1, 0), conf = 1, class_id = [], obs_ll = None, tag_id = Some ''7''\<rparr>] = Inr u
   \<and> status (clusters (mlog u) ! 0) = VERIFIED
   \<and> mission_step u (Tick 5 (1, 0, - 6) (0, 0, 0) True True) = Inr w \<and> status (clusters (mlog w) ! 0) = DIPPED"
  by (simp add: example_eval)

section \<open>Landing\<close>

definition ticks :: "(real \<times> vec3 \<times> vec3 \<times> bool \<times> bool) list \<Rightarrow> mission_event list" where
  "ticks xs = map (\<lambda>(t, pos, vel, hv, sr). Tick t pos vel hv sr) xs"

definition ready_tick :: "engine \<Rightarrow> real \<times> vec3 \<times> vec3 \<times> bool \<times> bool \<Rightarrow> bool" where
  "ready_tick s x = (case x of (t, pos, vel, hv, sr) \<Rightarrow> settle_ready pos vel hv sr s)"

definition same_settling :: "engine \<Rightarrow> engine \<Rightarrow> bool" where
  "same_settling s u \<longleftrightarrow> cfg u = cfg s \<and> home_ne u = home_ne s
     \<and> settle_requires_survey_ready u = settle_requires_survey_ready s \<and> settle_next_phase u = settle_next_phase s"

lemma same_settling_ready: "same_settling s u \<Longrightarrow> ready_tick u x = ready_tick s x"
  by (auto simp: same_settling_def ready_tick_def settle_ready_def slow_def reached_def at_alt_def alt_target_def
      egress_ne_def split: prod.splits option.splits)

lemma settle_tick_step:
  assumes "phase s = SETTLE"
  shows "mission_step s (Tick t pos vel hv sr) = Inr (snd (tick_settle t pos vel hv sr s))
    \<or> command_fence_active (snd (tick_settle t pos vel hv sr s))"
  using assms
  by (auto simp: mission_step_def tick_def tick_inner_def check_aborts_def some_sp_def tick_settle_def Let_def)

lemma settle_step_cases:
  assumes p: "phase s = SETTLE" and n: "settle_next_phase s = LAND"
    and step: "mission_step s (Tick t pos vel hv sr) = Inr s'"
  shows "same_settling s s'
    \<and> (phase s' = SETTLE \<longrightarrow> settle_t0 s' = (if settle_ready pos vel hv sr s
         then (case settle_t0 s of None \<Rightarrow> Some t | Some t0 \<Rightarrow> Some t0) else None))
    \<and> (phase s' = LAND \<longrightarrow> settle_ready pos vel hv sr s
         \<and> (\<exists>t0. settle_t0 s = Some t0 \<and> t - t0 \<ge> land_settle_s (cfg s)))
    \<and> (phase s' = SETTLE \<or> phase s' = LAND)"
proof -
  have "\<not> command_fence_active (snd (tick_settle t pos vel hv sr s))"
    using p n by (auto simp: command_fence_active_def tick_settle_def Let_def split: option.splits)
  then have "s' = snd (tick_settle t pos vel hv sr s)" using settle_tick_step [OF p, of t pos vel hv sr] step by simp
  then show ?thesis
    using p n by (auto simp: tick_settle_def same_settling_def Let_def split: option.splits)
qed

lemma settle_history:
  assumes p: "phase s = SETTLE" and n: "settle_next_phase s = LAND" and t0: "settle_t0 s = None"
  shows "foldE mission_step s (ticks xs) = Inr u \<Longrightarrow> phase u = SETTLE \<Longrightarrow>
    (\<forall>ys zs v. xs = ys @ zs \<longrightarrow> foldE mission_step s (ticks ys) = Inr v \<longrightarrow> phase v = SETTLE) \<Longrightarrow>
    same_settling s u \<and> (\<forall>a. settle_t0 u = Some a \<longrightarrow>
      (\<exists>ys zs. xs = ys @ zs \<and> zs \<noteq> [] \<and> fst (hd zs) = a \<and> list_all (ready_tick s) zs))"
proof (induction xs arbitrary: u rule: rev_induct)
  case Nil
  then show ?case using t0 by (simp add: ticks_def same_settling_def)
next
  case (snoc x xs)
  obtain t pos vel hv sr where x: "x = (t, pos, vel, hv, sr)" by (cases x)
  obtain v where v: "foldE mission_step s (ticks xs) = Inr v" and step: "mission_step v (Tick t pos vel hv sr) = Inr u"
    using snoc.prems(1) by (auto simp: ticks_def x foldE_append)
  have pv: "phase v = SETTLE" using snoc.prems(3) v by blast
  have ih: "same_settling s v" "\<And>a. settle_t0 v = Some a \<Longrightarrow>
      \<exists>ys zs. xs = ys @ zs \<and> zs \<noteq> [] \<and> fst (hd zs) = a \<and> list_all (ready_tick s) zs"
    using snoc.IH [OF v pv] snoc.prems(3) by (metis append.assoc)+
  have nv: "settle_next_phase v = LAND" using ih(1) n by (simp add: same_settling_def)
  note c = settle_step_cases [OF pv nv step]
  have same: "same_settling s u" using ih(1) c by (auto simp: same_settling_def)
  have "\<exists>ys zs. xs @ [x] = ys @ zs \<and> zs \<noteq> [] \<and> fst (hd zs) = a \<and> list_all (ready_tick s) zs"
    if a: "settle_t0 u = Some a" for a
  proof -
    have "settle_ready pos vel hv sr v" using a c snoc.prems(2) by (auto split: if_splits)
    then have r: "ready_tick s x"
      using same_settling_ready [OF ih(1), of x] by (simp add: ready_tick_def x)
    show ?thesis
    proof (cases "settle_t0 v")
      case None
      then have "a = t" using a c snoc.prems(2) by (auto split: if_splits)
      then show ?thesis using r by (intro exI [of _ xs] exI [of _ "[x]"]) (simp add: x)
    next
      case (Some b)
      then have "a = b" using a c snoc.prems(2) by (auto split: if_splits)
      then obtain ys zs where "xs = ys @ zs" "zs \<noteq> []" "fst (hd zs) = a" "list_all (ready_tick s) zs"
        using ih(2) Some by blast
      then show ?thesis using r by (intro exI [of _ ys] exI [of _ "zs @ [x]"]) simp
    qed
  qed
  with same show ?case by blast
qed

text \<open>
  Claim C5: the vehicle descends only when settled. If a run of ticks that starts when settling begins
  ends with the tick that moves to LAND, then it ends with an unbroken stretch of ticks, the last one
  included, at each of which the estimate was valid, the vehicle slow and at the egress point (and
  the survey ready where required), and that stretch spans at least the settle time.
\<close>

theorem landing_waits_for_settling:
  assumes "phase s = SETTLE" "settle_next_phase s = LAND" "settle_t0 s = None"
    and "\<forall>ys zs v. xs = ys @ zs \<longrightarrow> foldE mission_step s (ticks ys) = Inr v \<longrightarrow> phase v = SETTLE"
    and "foldE mission_step s (ticks (xs @ [x])) = Inr s'" "phase s' = LAND"
  shows "\<exists>ys zs. xs = ys @ zs \<and> zs \<noteq> [] \<and> list_all (ready_tick s) (zs @ [x])
    \<and> fst x - fst (hd zs) \<ge> land_settle_s (cfg s)"
proof -
  obtain t pos vel hv sr where x: "x = (t, pos, vel, hv, sr)" by (cases x)
  obtain v where v: "foldE mission_step s (ticks xs) = Inr v" and step: "mission_step v (Tick t pos vel hv sr) = Inr s'"
    using assms(5) by (auto simp: ticks_def x foldE_append)
  have pv: "phase v = SETTLE" using assms(4) v by blast
  have h: "same_settling s v" "\<And>a. settle_t0 v = Some a \<Longrightarrow>
      \<exists>ys zs. xs = ys @ zs \<and> zs \<noteq> [] \<and> fst (hd zs) = a \<and> list_all (ready_tick s) zs"
    using settle_history [OF assms(1-3) v pv assms(4)] by auto
  have nv: "settle_next_phase v = LAND" using h(1) assms(2) by (simp add: same_settling_def)
  from settle_step_cases [OF pv nv step] assms(6)
  obtain t0 where r: "settle_ready pos vel hv sr v" "settle_t0 v = Some t0" "t - t0 \<ge> land_settle_s (cfg v)" by auto
  obtain ys zs where yz: "xs = ys @ zs" "zs \<noteq> []" "fst (hd zs) = t0" "list_all (ready_tick s) zs"
    using h(2) [OF r(2)] by blast
  have "ready_tick s x" using r(1) same_settling_ready [OF h(1), of x] by (simp add: ready_tick_def x)
  moreover have "cfg v = cfg s" using h(1) by (simp add: same_settling_def)
  ultimately show ?thesis using yz r(3) by (intro exI [of _ ys] exI [of _ zs]) (simp add: x)
qed

theorem landing_waits_for_settling_witness:
  "let s = example_engine\<lparr>phase := SETTLE, settle_next_phase := LAND, home_ne := Some (0, 0), sync_t0 := Some 0\<rparr>;
       x = (\<lambda>t. (t, (0, 0, - 6), (0, 0, 0), True, True))
   in \<exists>ys zs. [x 0, x 1] = ys @ zs \<and> zs \<noteq> [] \<and> list_all (ready_tick s) (zs @ [x 4])
        \<and> 4 - fst (hd zs) \<ge> 3"
proof -
  let ?s = "example_engine\<lparr>phase := SETTLE, settle_next_phase := LAND, home_ne := Some (0, 0), sync_t0 := Some 0\<rparr>"
  let ?x = "\<lambda>t. (t, (0, 0, - 6), (0, 0, 0), True, True)"
  have prefix: "\<forall>ys zs v. [?x 0, ?x 1] = ys @ zs \<longrightarrow> foldE mission_step ?s (ticks ys) = Inr v \<longrightarrow> phase v = SETTLE"
    by (auto simp: Cons_eq_append_conv ticks_def example_eval)
  obtain s' where "foldE mission_step ?s (ticks ([?x 0, ?x 1] @ [?x 4])) = Inr s'" "phase s' = LAND"
    by (simp add: ticks_def example_eval)
  from landing_waits_for_settling [OF _ _ _ prefix this] show ?thesis
    by (simp add: example_engine_fields example_config_def)
      (simp add: example_eval)
qed

end
