(* ===== verification/Controller.thy ===== *)
theory Controller
  imports Prelude
begin

text \<open>
  The PX4 offboard controller every flight node inherits
  (\<open>ros/px4_offboard/px4_offboard/controller.py\<close>): telemetry callbacks, the operator gates, the launch
  datum, and the state machine of its timer. What it publishes is appended to \<open>out\<close>; PX4, the clock
  and the mission's \<open>compute_setpoint\<close> are arguments of the events. Logging is left out, and the
  coordinates are reals, so tests that they are finite always pass.
\<close>

section \<open>State\<close>

datatype ctl_state =
    WAIT_LINK | WAIT_START | PRESTREAM | TAKEOFF | ENGAGE | ACTIVE | RETURNING
  | LAND_REQUESTED | LANDING | FAILSAFE | DONE

text \<open>PX4's navigation state, of which the controller compares two values.\<close>

datatype nav_state = NavOffboard | NavAutoLand | NavOther int

datatype vehicle_command =
    DoSetMode real real
  | ArmDisarm real real
  | NavTakeoff real
  | NavReturnToLaunch
  | NavLand
  | SetGpsGlobalOrigin real real real

type_synonym pose4 = "real \<times> real \<times> real \<times> real"

text \<open>
  An axis of a setpoint: \<open>None\<close> is the \<open>NaN\<close> by which a mission leaves that axis uncontrolled. It stays
  \<open>NaN\<close> under the arithmetic below.
\<close>

type_synonym axis = "real option"
type_synonym axes4 = "axis \<times> axis \<times> axis \<times> axis"

definition axes :: "pose4 \<Rightarrow> axes4" where
  "axes p = (case p of (x, y, z, yw) \<Rightarrow> (Some x, Some y, Some z, Some yw))"

lemma axes_simps [simp]: "axes (x, y, z, yw) = (Some x, Some y, Some z, Some yw)"
  by (simp add: axes_def)

datatype px4_msg =
    Heartbeat bool
  | Trajectory "axis \<times> axis \<times> axis" "(axis \<times> axis \<times> axis) option" axis real
  | Goto "axis \<times> axis \<times> axis" bool axis real "real option" "real option"
  | Command vehicle_command bool

record controller =
  rate_hz :: real
  prestream_cycles :: int
  takeoff_altitude_m :: real
  takeoff_acceptance_m :: real
  takeoff_timeout_s :: real
  force_arm :: bool
  status_stale_timeout_s :: real
  launch_stability_s :: real
  nav :: nav_state
  arm_state :: int
  px4_failsafe :: bool
  cx :: real
  cy :: real
  cz :: real
  cvx :: real
  cvy :: real
  cvz :: real
  yaw :: real
  launch_xy :: "(real \<times> real) option"
  launch_z :: real
  launch_reference_latched :: bool
  launch_z_latched :: bool
  launch_yaw :: real
  launch_yaw_latched :: bool
  xy_valid :: bool
  v_xy_valid :: bool
  z_valid :: bool
  attitude_seen :: bool
  status_seen :: bool
  last_status_us :: int
  prestream_count :: int
  start_ok :: bool
  abort_requested :: bool
  home_requested :: bool
  last_command_us :: int
  takeoff_started_us :: int
  link_acquired_fired :: bool
  heartbeat_velocity :: bool
  goto_active :: bool
  goto_max_horizontal_speed :: real
  goto_max_vertical_speed :: "real option"
  goto_max_heading_rate :: "real option"
  global_xy_valid :: bool
  global_alt_valid :: bool
  pending_origin :: "(real \<times> real \<times> real) option"
  origin_send_us :: int
  origin_start_us :: int
  origin_confirmed :: bool
  handoff_hold :: "pose4 option"
  reset_counters :: "(int \<times> int \<times> int) option"
  last_local_reset_us :: int
  ctl :: ctl_state
  out :: "px4_msg list"

record ctl_params =
  p_rate_hz :: real
  p_prestream_cycles :: int
  p_takeoff_altitude_m :: real
  p_takeoff_acceptance_m :: real
  p_takeoff_timeout_s :: real
  p_force_arm :: bool
  p_wait_for_start :: bool
  p_status_stale_timeout_s :: real
  p_launch_stability_s :: real

definition mk_controller :: "ctl_params \<Rightarrow> controller" where
  "mk_controller p = \<lparr>rate_hz = p_rate_hz p, prestream_cycles = p_prestream_cycles p,
     takeoff_altitude_m = p_takeoff_altitude_m p, takeoff_acceptance_m = p_takeoff_acceptance_m p,
     takeoff_timeout_s = p_takeoff_timeout_s p, force_arm = p_force_arm p,
     status_stale_timeout_s = p_status_stale_timeout_s p, launch_stability_s = p_launch_stability_s p,
     nav = NavOther 31, arm_state = 1, px4_failsafe = False, cx = 0, cy = 0, cz = 0, cvx = 0, cvy = 0, cvz = 0, yaw = 0,
     launch_xy = None, launch_z = 0, launch_reference_latched = False, launch_z_latched = False,
     launch_yaw = 0, launch_yaw_latched = False, xy_valid = False, v_xy_valid = False, z_valid = False,
     attitude_seen = False, status_seen = False, last_status_us = 0, prestream_count = 0,
     start_ok = (\<not> p_wait_for_start p), abort_requested = False, home_requested = False,
     last_command_us = 0, takeoff_started_us = 0, link_acquired_fired = False,
     heartbeat_velocity = False, goto_active = False, goto_max_horizontal_speed = 0,
     goto_max_vertical_speed = None, goto_max_heading_rate = None, global_xy_valid = False,
     global_alt_valid = False, pending_origin = None, origin_send_us = 0, origin_start_us = 0,
     origin_confirmed = False, handoff_hold = None, reset_counters = None, last_local_reset_us = 0,
     ctl = WAIT_LINK, out = []\<rparr>"

section \<open>Publishing\<close>

definition emit :: "px4_msg \<Rightarrow> controller \<Rightarrow> controller" where
  "emit m s = s\<lparr>out := out s @ [m]\<rparr>"

definition wrap_pi :: "real \<Rightarrow> real" where
  "wrap_pi a = atan2 (sin a) (cos a)"

definition publish_command :: "vehicle_command \<Rightarrow> bool \<Rightarrow> controller \<Rightarrow> controller" where
  "publish_command c from_external s = emit (Command c from_external) s"

definition publish_command_throttled :: "int \<Rightarrow> vehicle_command \<Rightarrow> controller \<Rightarrow> controller" where
  "publish_command_throttled now c s =
     (if now - last_command_us s \<ge> 1000000 then publish_command c True (s\<lparr>last_command_us := now\<rparr>) else s)"

definition publish_heartbeat :: "controller \<Rightarrow> controller" where
  "publish_heartbeat s = emit (Heartbeat (heartbeat_velocity s)) s"

definition publish_position_setpoint :: "axes4 \<Rightarrow> controller \<Rightarrow> controller" where
  "publish_position_setpoint p s =
     (case p of (x, y, z, yw) \<Rightarrow>
        emit (Trajectory (x, y, map_option (\<lambda>z. z + launch_z s) z) None (map_option wrap_pi yw) 0) (s\<lparr>heartbeat_velocity := False\<rparr>))"

definition publish_position_velocity_setpoint ::
  "axes4 \<Rightarrow> axis \<times> axis \<times> axis \<Rightarrow> controller \<Rightarrow> controller" where
  "publish_position_velocity_setpoint p v s =
     (case p of (x, y, z, yw) \<Rightarrow>
        emit (Trajectory (x, y, map_option (\<lambda>z. z + launch_z s) z) (Some v) (map_option wrap_pi yw) 0) (s\<lparr>heartbeat_velocity := True\<rparr>))"

definition publish_goto_setpoint :: "axes4 \<Rightarrow> controller \<Rightarrow> controller" where
  "publish_goto_setpoint p s =
     (case p of (x, y, z, yw) \<Rightarrow>
        emit (Goto (x, y, map_option (\<lambda>z. z + launch_z s) z) True (map_option wrap_pi yw) (goto_max_horizontal_speed s)
                (goto_max_vertical_speed s) (goto_max_heading_rate s)) (s\<lparr>heartbeat_velocity := False\<rparr>))"

definition command_offboard_mode :: "controller \<Rightarrow> controller" where
  "command_offboard_mode s = publish_command (DoSetMode 1 6) True s"

definition force_arm_magic :: real where
  "force_arm_magic = 21196"

definition command_arm :: "controller \<Rightarrow> controller" where
  "command_arm s = publish_command (ArmDisarm 1 (if force_arm s then force_arm_magic else 0)) (\<not> force_arm s) s"

definition command_disarm :: "bool \<Rightarrow> controller \<Rightarrow> controller" where
  "command_disarm force s = publish_command (ArmDisarm 0 (if force then force_arm_magic else 0)) True s"

definition command_takeoff :: "real option \<Rightarrow> controller \<Rightarrow> controller" where
  "command_takeoff altitude s =
     publish_command (NavTakeoff (case altitude of None \<Rightarrow> takeoff_altitude_m s | Some a \<Rightarrow> a)) True s"

definition command_return :: "controller \<Rightarrow> controller" where
  "command_return s = publish_command NavReturnToLaunch True s"

definition is_armed :: "controller \<Rightarrow> bool" where
  "is_armed s = (arm_state s = 2)"

definition link_alive :: "int \<Rightarrow> controller \<Rightarrow> bool" where
  "link_alive now s =
     (status_seen s \<and> now - last_status_us s \<le> py_int (max 1 (status_stale_timeout_s s) * 1000000))"

section \<open>Holds and the launch datum\<close>

definition takeoff_hold :: "controller \<Rightarrow> real \<times> real \<times> real" where
  "takeoff_hold s =
     (let (lx, ly) = (case launch_xy s of None \<Rightarrow> (cx s, cy s) | Some p \<Rightarrow> p)
      in (lx, ly, - \<bar>takeoff_altitude_m s\<bar>))"

definition hold_yaw :: "controller \<Rightarrow> real" where
  "hold_yaw s = (if launch_yaw_latched s then launch_yaw s else yaw s)"

definition hold_setpoint :: "controller \<Rightarrow> controller" where
  "hold_setpoint s =
     (case takeoff_hold s of (x, y, z) \<Rightarrow>
        if goto_active s then publish_goto_setpoint (axes (x, y, z, hold_yaw s)) s
        else publish_position_setpoint (axes (x, y, z, hold_yaw s)) s)"

definition takeoff_target_z :: "controller \<Rightarrow> real" where
  "takeoff_target_z s = launch_z s - \<bar>takeoff_altitude_m s\<bar>"

definition latch_launch_reference :: "int \<Rightarrow> controller \<Rightarrow> bool \<times> controller" where
  "latch_launch_reference now s =
     (if launch_reference_latched s then (True, s)
      else
        let stable_s = of_int (now - last_local_reset_us s) / 1000000
        in if stable_s \<ge> launch_stability_s s \<and> xy_valid s \<and> z_valid s \<and> attitude_seen s
           then (True, s\<lparr>launch_xy := Some (cx s, cy s), launch_z := cz s, launch_reference_latched := True,
                         launch_z_latched := True, launch_yaw := yaw s, launch_yaw_latched := True\<rparr>)
           else (False, s))"

definition capture_handoff_hold :: "controller \<Rightarrow> controller" where
  "capture_handoff_hold s =
     s\<lparr>heartbeat_velocity := False, handoff_hold := Some (cx s, cy s, cz s - launch_z s, hold_yaw s)\<rparr>"

definition publish_handoff_hold :: "controller \<Rightarrow> controller" where
  "publish_handoff_hold s =
     (let s1 = (if handoff_hold s = None then capture_handoff_hold s else s)
      in case handoff_hold s1 of
           None \<Rightarrow> s1
         | Some p \<Rightarrow> if goto_active s1 then publish_goto_setpoint (axes p) s1
                     else publish_position_setpoint (axes p) s1)"

definition begin_landing :: "int \<Rightarrow> controller \<Rightarrow> controller" where
  "begin_landing now s =
     publish_command NavLand True ((capture_handoff_hold s)\<lparr>ctl := LAND_REQUESTED, last_command_us := now\<rparr>)"

definition begin_return_inner :: "int \<Rightarrow> controller \<Rightarrow> controller" where
  "begin_return_inner now s =
     (if \<not> (global_xy_valid s \<and> global_alt_valid s) then begin_landing now s
      else command_return ((capture_handoff_hold s)\<lparr>ctl := RETURNING\<rparr>))"

text \<open>\<open>begin_return\<close>, the hook a mission calls.\<close>

definition begin_return :: "int \<Rightarrow> controller \<Rightarrow> controller" where
  "begin_return now s =
     (if ctl s \<notin> {RETURNING, LAND_REQUESTED, LANDING, DONE} then begin_return_inner now s else s)"

definition request_land :: "controller \<Rightarrow> controller" where
  "request_land s = s\<lparr>abort_requested := True\<rparr>"

definition enable_goto_setpoints :: "real \<Rightarrow> real option \<Rightarrow> real option \<Rightarrow> controller \<Rightarrow> controller" where
  "enable_goto_setpoints h v r s =
     s\<lparr>goto_active := True, heartbeat_velocity := False, goto_max_horizontal_speed := h,
       goto_max_vertical_speed := v, goto_max_heading_rate := r\<rparr>"

section \<open>Callbacks\<close>

definition status_cb :: "int \<Rightarrow> nav_state \<Rightarrow> int \<Rightarrow> bool \<Rightarrow> controller \<Rightarrow> controller" where
  "status_cb now n arming fs s =
     s\<lparr>status_seen := True, last_status_us := now, nav := n, arm_state := arming, px4_failsafe := fs\<rparr>"

record local_position =
  lp_pos :: "real \<times> real \<times> real"
  lp_vel :: "real \<times> real \<times> real"
  lp_xy_valid :: bool
  lp_v_xy_valid :: bool
  lp_z_valid :: bool
  lp_counters :: "int \<times> int \<times> int"
  lp_delta_xy :: "real \<times> real"
  lp_delta_z :: real
  lp_delta_heading :: real

definition handle_local_frame_reset :: "int \<Rightarrow> local_position \<Rightarrow> controller \<Rightarrow> controller" where
  "handle_local_frame_reset now m s =
     (case reset_counters s of
        None \<Rightarrow> s\<lparr>reset_counters := Some (lp_counters m), last_local_reset_us := now\<rparr>
      | Some (xyc, zc, hc) \<Rightarrow>
          let (nxy, nz, nh) = lp_counters m;
              (dx, dy) = (if nxy \<noteq> xyc then lp_delta_xy m else (0, 0));
              dz = (if nz \<noteq> zc then lp_delta_z m else 0);
              dh = (if nh \<noteq> hc then lp_delta_heading m else 0);
              s1 = s\<lparr>reset_counters := Some (nxy, nz, nh)\<rparr>
          in if \<not> (nxy \<noteq> xyc \<or> nz \<noteq> zc \<or> nh \<noteq> hc) then s1
             else s1\<lparr>last_local_reset_us := now,
                     launch_xy := map_option (\<lambda>(x, y). (x + dx, y + dy)) (launch_xy s1),
                     launch_z := (if launch_z_latched s1 then launch_z s1 + dz else launch_z s1),
                     launch_yaw := (if launch_yaw_latched s1 then wrap_pi (launch_yaw s1 + dh) else launch_yaw s1),
                     handoff_hold := map_option (\<lambda>(x, y, z, yw). (x + dx, y + dy, z, wrap_pi (yw + dh))) (handoff_hold s1)\<rparr>)"

definition pos_cb :: "int \<Rightarrow> local_position \<Rightarrow> controller \<Rightarrow> controller" where
  "pos_cb now m s =
     (let s1 = handle_local_frame_reset now m s;
          s2 = s1\<lparr>cx := fst (lp_pos m), cy := fst (snd (lp_pos m)), cz := snd (snd (lp_pos m)),
                  cvx := fst (lp_vel m), cvy := fst (snd (lp_vel m)), cvz := snd (snd (lp_vel m)),
                  xy_valid := lp_xy_valid m, v_xy_valid := lp_v_xy_valid m, z_valid := lp_z_valid m\<rparr>
      in if \<not> launch_reference_latched s2
         then s2\<lparr>launch_xy := Some (fst (lp_pos m), fst (snd (lp_pos m)))\<rparr> else s2)"

definition att_cb :: "pose4 \<Rightarrow> controller \<Rightarrow> controller" where
  "att_cb q s =
     (case q of (w, x, y, z) \<Rightarrow>
        if w * w + x * x + y * y + z * z > 1 / 4
        then s\<lparr>yaw := atan2 (2 * (w * z + x * y)) (1 - 2 * (y * y + z * z)), attitude_seen := True\<rparr> else s)"

definition gpos_cb :: "bool \<Rightarrow> bool \<Rightarrow> controller \<Rightarrow> controller" where
  "gpos_cb lat_lon alt s = s\<lparr>global_xy_valid := lat_lon, global_alt_valid := alt\<rparr>"

definition start_cb :: "bool \<Rightarrow> controller \<Rightarrow> controller" where
  "start_cb data s = (if data \<and> \<not> start_ok s then s\<lparr>start_ok := True\<rparr> else s)"

definition end_cb :: "bool \<Rightarrow> controller \<Rightarrow> controller" where
  "end_cb data s = (if data \<and> \<not> home_requested s then s\<lparr>home_requested := True\<rparr> else s)"

definition abort_cb :: "bool \<Rightarrow> controller \<Rightarrow> controller" where
  "abort_cb data s = (if data \<and> \<not> abort_requested s then s\<lparr>abort_requested := True\<rparr> else s)"

definition set_global_origin :: "int \<Rightarrow> real \<times> real \<times> real \<Rightarrow> controller \<Rightarrow> controller" where
  "set_global_origin now o1 s =
     s\<lparr>pending_origin := Some o1, origin_start_us := now, origin_send_us := 0, origin_confirmed := False\<rparr>"

section \<open>The timer\<close>

definition send_pending_origin :: "int \<Rightarrow> controller \<Rightarrow> py_error + controller" where
  "send_pending_origin now s =
     (case pending_origin s of
        None \<Rightarrow> Inr s
      | Some (lat, lon, alt) \<Rightarrow>
          if global_xy_valid s then Inr (s\<lparr>pending_origin := None, origin_confirmed := True\<rparr>)
          else if of_int (now - origin_start_us s) / 1000000 > (20 :: real)
          then Inl (RuntimeError ''EKF global origin not accepted'')
          else if now - origin_send_us s < 500000 then Inr s
          else Inr (publish_command (SetGpsGlobalOrigin lat lon alt) True (s\<lparr>origin_send_us := now\<rparr>)))"

definition awaiting_rtl :: "controller \<Rightarrow> bool" where
  "awaiting_rtl s = (ctl s = RETURNING \<and> nav s = NavOffboard)"

definition tick_heartbeat :: "controller \<Rightarrow> controller" where
  "tick_heartbeat s =
     (if ctl s \<in> {PRESTREAM, TAKEOFF, ENGAGE, ACTIVE, LAND_REQUESTED} \<or> awaiting_rtl s
      then publish_heartbeat s else s)"

definition tick_prestream :: "int \<Rightarrow> controller \<Rightarrow> py_error + controller" where
  "tick_prestream now s0 =
     (let s = (hold_setpoint s0)\<lparr>prestream_count := prestream_count s0 + 1\<rparr>
      in if prestream_count s < prestream_cycles s then Inr s
         else
           let (latched, s1) = latch_launch_reference now s
           in if \<not> latched then
                (if prestream_count s1 > prestream_cycles s1 + py_int (rate_hz s1 * takeoff_timeout_s s1)
                 then Inl (RuntimeError ''launch reference never became stable and valid; refusing to arm'')
                 else Inr s1)
              else
                let s2 = command_offboard_mode (s1\<lparr>takeoff_started_us := now\<rparr>)
                in Inr (s2\<lparr>last_command_us := now, ctl := ENGAGE\<rparr>))"

definition tick_takeoff_state :: "int \<Rightarrow> controller \<Rightarrow> controller" where
  "tick_takeoff_state now s0 =
     (let s = hold_setpoint s0
      in if abort_requested s then begin_landing now s
         else
           let s1 = publish_command_throttled now (NavTakeoff (takeoff_altitude_m s)) (command_arm s);
               altitude_error = \<bar>cz s1 - takeoff_target_z s1\<bar>;
               elapsed_s = of_int (now - takeoff_started_us s1) / 1000000
           in if altitude_error \<le> takeoff_acceptance_m s1 \<or> elapsed_s \<ge> takeoff_timeout_s s1
              then s1\<lparr>ctl := ENGAGE\<rparr> else s1)"

definition tick_engage :: "int \<Rightarrow> controller \<Rightarrow> controller" where
  "tick_engage now s0 =
     (let s = hold_setpoint s0
      in if abort_requested s then begin_landing now s
         else
           let s1 = command_arm (command_offboard_mode s)
           in if is_armed s1 \<and> nav s1 = NavOffboard then s1\<lparr>ctl := ACTIVE\<rparr> else s1)"

definition interlock_tripped :: "controller \<Rightarrow> bool" where
  "interlock_tripped s =
     (px4_failsafe s \<or> nav s \<noteq> NavOffboard \<or> \<not> (xy_valid s \<and> v_xy_valid s \<and> z_valid s))"

definition publish_mission_setpoint :: "axis list \<Rightarrow> controller \<Rightarrow> py_error + controller" where
  "publish_mission_setpoint sp s =
     (if goto_active s then
        (case sp of [x, y, z, yw] \<Rightarrow> Inr (publish_goto_setpoint (x, y, z, yw) s)
         | _ \<Rightarrow> Inl (ValueError ''goto setpoint must be (x, y, z, yaw)''))
      else
        (case sp of
           [x, y, z, yw] \<Rightarrow> Inr (publish_position_setpoint (x, y, z, yw) s)
         | [x, y, z, yw, vx, vy, vz] \<Rightarrow> Inr (publish_position_velocity_setpoint (x, y, z, yw) (vx, vy, vz) s)
         | _ \<Rightarrow> Inl (ValueError ''setpoint must be (x, y, z, yaw) or (x, y, z, yaw, vx, vy, vz)'')))"

text \<open>
  What a mission's \<open>compute_setpoint\<close> does: it calls some of the controller's own operations and
  answers with a setpoint or \<open>None\<close>. The state it leaves is the one the setpoint is published in.
\<close>

datatype mission_call = CallLand | CallReturn int | CallGoto real "real option" "real option"

type_synonym mission_answer = "mission_call list \<times> axis list option"

definition mission_calls :: "mission_call list \<Rightarrow> controller \<Rightarrow> controller" where
  "mission_calls cs s =
     fold (\<lambda>c. case c of CallLand \<Rightarrow> request_land | CallReturn now \<Rightarrow> begin_return now
                     | CallGoto h v r \<Rightarrow> enable_goto_setpoints h v r) cs s"

definition tick_active :: "int \<Rightarrow> mission_answer \<Rightarrow> controller \<Rightarrow> py_error + controller" where
  "tick_active now ans s =
     (if abort_requested s then Inr (begin_landing now s)
      else if interlock_tripped s then Inr (s\<lparr>ctl := FAILSAFE\<rparr>)
      else
        let s1 = mission_calls (fst ans) s
        in case snd ans of None \<Rightarrow> Inr (hold_setpoint s1) | Some p \<Rightarrow> publish_mission_setpoint p s1)"

definition tick_returning :: "int \<Rightarrow> controller \<Rightarrow> controller" where
  "tick_returning now s =
     (if abort_requested s then begin_landing now s
      else
        let s1 = (if nav s = NavOffboard then publish_handoff_hold s else s);
            s2 = publish_command_throttled now NavReturnToLaunch s1
        in if \<not> is_armed s2 then s2\<lparr>ctl := DONE\<rparr> else s2)"

definition tick_land_requested :: "int \<Rightarrow> controller \<Rightarrow> controller" where
  "tick_land_requested now s =
     (if \<not> is_armed s then s\<lparr>ctl := DONE\<rparr>
      else if nav s = NavAutoLand then s\<lparr>ctl := LANDING\<rparr>
      else publish_command_throttled now NavLand (publish_handoff_hold s))"

definition ctl_tick :: "int \<Rightarrow> mission_answer \<Rightarrow> controller \<Rightarrow> py_error + controller" where
  "ctl_tick now ans s0 =
     bindE (send_pending_origin now s0) (\<lambda>s1.
       let s = tick_heartbeat s1
       in case ctl s of
            WAIT_LINK \<Rightarrow>
              Inr (if link_alive now s
                   then s\<lparr>link_acquired_fired := True, ctl := (if \<not> start_ok s then WAIT_START else PRESTREAM)\<rparr>
                   else s)
          | WAIT_START \<Rightarrow> Inr (if start_ok s then s\<lparr>ctl := PRESTREAM\<rparr> else s)
          | PRESTREAM \<Rightarrow> tick_prestream now s
          | TAKEOFF \<Rightarrow> Inr (tick_takeoff_state now s)
          | ENGAGE \<Rightarrow> Inr (tick_engage now s)
          | ACTIVE \<Rightarrow> tick_active now ans s
          | RETURNING \<Rightarrow> Inr (tick_returning now s)
          | LAND_REQUESTED \<Rightarrow> Inr (tick_land_requested now s)
          | LANDING \<Rightarrow> Inr (if \<not> is_armed s then s\<lparr>ctl := DONE\<rparr> else s)
          | FAILSAFE \<Rightarrow> Inr (if \<not> is_armed s then s\<lparr>ctl := DONE\<rparr> else s)
          | DONE \<Rightarrow> Inr s)"

datatype ctl_event =
    Status int nav_state int bool
  | LocalPosition int local_position
  | Attitude pose4
  | GlobalPosition bool bool
  | StartGate bool
  | EndGate bool
  | AbortGate bool
  | RequestLand
  | BeginReturn int
  | EnableGoto real "real option" "real option"
  | SetOrigin int "real \<times> real \<times> real"
  | Timer int mission_answer

definition ctl_step :: "controller \<Rightarrow> ctl_event \<Rightarrow> py_error + controller" where
  "ctl_step s e =
     (case e of
        Status now n a f \<Rightarrow> Inr (status_cb now n a f s)
      | LocalPosition now m \<Rightarrow> Inr (pos_cb now m s)
      | Attitude q \<Rightarrow> Inr (att_cb q s)
      | GlobalPosition l a \<Rightarrow> Inr (gpos_cb l a s)
      | StartGate b \<Rightarrow> Inr (start_cb b s)
      | EndGate b \<Rightarrow> Inr (end_cb b s)
      | AbortGate b \<Rightarrow> Inr (abort_cb b s)
      | RequestLand \<Rightarrow> Inr (request_land s)
      | BeginReturn now \<Rightarrow> Inr (begin_return now s)
      | EnableGoto h v r \<Rightarrow> Inr (enable_goto_setpoints h v r s)
      | SetOrigin now p \<Rightarrow> Inr (set_global_origin now p s)
      | Timer now ans \<Rightarrow> ctl_tick now ans s)"

end
