(* ===== verification/Controller_Properties.thy ===== *)
theory Controller_Properties
  imports Controller
begin

text \<open>
  What the offboard controller guarantees: it never arms without a launch datum, an abort request
  ends in a landing request without arming, mission setpoints are flown only while armed in
  offboard with a valid estimate, failsafe is silent, and a frame reset does not move the pad.
  One way out of failsafe that the code leaves open is shown.
\<close>

section \<open>The state graph\<close>

inductive ctl_edge :: "ctl_state \<Rightarrow> ctl_state \<Rightarrow> bool" where
  stay: "ctl_edge a a"
| link_wait: "ctl_edge WAIT_LINK WAIT_START"
| link_go: "ctl_edge WAIT_LINK PRESTREAM"
| started: "ctl_edge WAIT_START PRESTREAM"
| streamed: "ctl_edge PRESTREAM ENGAGE"
| climbed: "ctl_edge TAKEOFF ENGAGE"
| engaged: "ctl_edge ENGAGE ACTIVE"
| tripped: "ctl_edge ACTIVE FAILSAFE"
| lands: "a \<in> {TAKEOFF, ENGAGE, ACTIVE, RETURNING} \<Longrightarrow> ctl_edge a LAND_REQUESTED"
| accepted: "ctl_edge LAND_REQUESTED LANDING"
| disarmed: "a \<in> {RETURNING, LAND_REQUESTED, LANDING, FAILSAFE} \<Longrightarrow> ctl_edge a DONE"
| returns: "a \<notin> {RETURNING, LAND_REQUESTED, LANDING, DONE} \<Longrightarrow> b \<in> {RETURNING, LAND_REQUESTED} \<Longrightarrow> ctl_edge a b"

inductive_cases edge_to_takeoff: "ctl_edge a TAKEOFF"
inductive_cases edge_to_failsafe: "ctl_edge a FAILSAFE"

lemmas publish_simps = emit_def publish_command_def publish_command_throttled_def publish_heartbeat_def
  publish_position_setpoint_def publish_position_velocity_setpoint_def publish_goto_setpoint_def
  command_offboard_mode_def command_arm_def command_return_def

text \<open>What publishing leaves alone, whatever it publishes.\<close>

definition same_core :: "controller \<Rightarrow> controller \<Rightarrow> bool" where
  "same_core s t \<longleftrightarrow> ctl t = ctl s \<and> launch_reference_latched t = launch_reference_latched s
     \<and> launch_z_latched t = launch_z_latched s \<and> launch_yaw_latched t = launch_yaw_latched s
     \<and> launch_xy t = launch_xy s \<and> (abort_requested s \<longrightarrow> abort_requested t) \<and> arm_state t = arm_state s"

lemma same_core_refl [simp]: "same_core s s"
  by (simp add: same_core_def)

lemma same_core_trans: "same_core s t \<Longrightarrow> same_core t u \<Longrightarrow> same_core s u"
  by (simp add: same_core_def)

definition is_arm :: "px4_msg \<Rightarrow> bool" where
  "is_arm m \<longleftrightarrow> (case m of Command (ArmDisarm p1 _) _ \<Rightarrow> p1 = 1 | _ \<Rightarrow> False)"

definition is_origin :: "px4_msg \<Rightarrow> bool" where
  "is_origin m \<longleftrightarrow> (case m of Command (SetGpsGlobalOrigin _ _ _) _ \<Rightarrow> True | _ \<Rightarrow> False)"

lemma is_arm_simps [simp]:
  "\<not> is_arm (Heartbeat b)" "\<not> is_arm (Trajectory pos vel yw rate)" "\<not> is_arm (Goto gpos flag gyaw h vmax rmax)"
  "\<not> is_arm (Command (DoSetMode p1 p2) e)" "\<not> is_arm (Command (NavTakeoff tz) e)"
  "\<not> is_arm (Command NavReturnToLaunch e)" "\<not> is_arm (Command NavLand e)"
  "\<not> is_arm (Command (SetGpsGlobalOrigin lat lon alt) e)" "is_arm (Command (ArmDisarm q1 q2) e) \<longleftrightarrow> q1 = 1"
  by (simp_all add: is_arm_def)

lemma is_origin_simps [simp]:
  "is_origin (Command (SetGpsGlobalOrigin lat lon alt) e)" "\<not> is_arm m \<or> \<not> is_origin m"
  by (simp_all add: is_origin_def is_arm_def split: px4_msg.split vehicle_command.split)

text \<open>\<open>t\<close> continues \<open>s\<close>: what it has published since is all permitted.\<close>

definition extends :: "(px4_msg \<Rightarrow> bool) \<Rightarrow> controller \<Rightarrow> controller \<Rightarrow> bool" where
  "extends allowed s t \<longleftrightarrow> (\<exists>new. out t = out s @ new \<and> list_all allowed new)"

abbreviation unarmed :: "px4_msg \<Rightarrow> bool" where
  "unarmed m \<equiv> \<not> is_arm m"

lemma extends_refl [simp]: "extends b s s"
  by (simp add: extends_def)

lemma extends_trans: "extends b s t \<Longrightarrow> extends b t u \<Longrightarrow> extends b s u"
  by (auto simp: extends_def)

lemma extends_same: "out t = out s \<Longrightarrow> extends b s t"
  by (simp add: extends_def)

lemma extends_one: "out t = out s @ [m] \<Longrightarrow> b m \<Longrightarrow> extends b s t"
  by (simp add: extends_def)

definition quiet :: "controller \<Rightarrow> controller \<Rightarrow> bool" where
  "quiet s t \<longleftrightarrow> same_core s t \<and> extends unarmed s t"

lemma quiet_refl [simp]: "quiet s s"
  by (simp add: quiet_def)

lemma quiet_trans: "quiet s t \<Longrightarrow> quiet t u \<Longrightarrow> quiet s u"
  unfolding quiet_def by (blast intro: same_core_trans extends_trans)

lemma quiet_one: "out t = out s @ [m] \<Longrightarrow> \<not> is_arm m \<Longrightarrow> same_core s t \<Longrightarrow> quiet s t"
  by (simp add: quiet_def extends_one)

lemma quiet_ctl: "quiet s t \<Longrightarrow> ctl t = ctl s"
  by (simp add: quiet_def same_core_def)

section \<open>Pieces of a tick\<close>

lemma publish_quiet:
  "quiet s (publish_position_setpoint p s)" "quiet s (publish_goto_setpoint q s)"
  "quiet s (publish_position_velocity_setpoint r v s)" "quiet s (publish_heartbeat s)"
  by (cases p; cases q; cases r; simp add: publish_simps quiet_one same_core_def)+

lemma command_quiet: "\<not> is_arm (Command c x) \<Longrightarrow> quiet s (publish_command c x s)"
  by (simp add: publish_simps quiet_one same_core_def)

lemma throttled_quiet: "\<not> is_arm (Command c True) \<Longrightarrow> quiet s (publish_command_throttled now c s)"
  by (simp add: publish_simps quiet_one same_core_def)

lemma hold_quiet: "quiet s (hold_setpoint s)"
  by (simp add: hold_setpoint_def publish_quiet split: prod.split)

lemma capture_quiet: "quiet s (capture_handoff_hold s)"
  by (simp add: capture_handoff_hold_def quiet_def same_core_def extends_same)

lemma publish_handoff_quiet: "quiet s (publish_handoff_hold s)"
  unfolding publish_handoff_hold_def Let_def
  by (auto split: option.split simp: publish_quiet capture_quiet intro: quiet_trans [OF capture_quiet])

lemma heartbeat_quiet: "quiet s (tick_heartbeat s)"
  by (simp add: tick_heartbeat_def publish_quiet)

lemma origin_quiet:
  assumes "send_pending_origin now s = Inr t"
  shows "same_core s t" "extends is_origin s t"
proof -
  have "same_core s t \<and> extends is_origin s t"
  proof (cases "pending_origin s")
    case None
    then show ?thesis using assms by (simp add: send_pending_origin_def)
  next
    case (Some p)
    obtain lat lon alt where "p = (lat, lon, alt)" by (cases p)
    with Some assms show ?thesis
      by (auto simp: send_pending_origin_def publish_simps same_core_def extends_def split: if_splits)
  qed
  then show "same_core s t" "extends is_origin s t" by simp_all
qed

lemma extends_mono: "extends a s t \<Longrightarrow> (\<And>m. a m \<Longrightarrow> b m) \<Longrightarrow> extends b s t"
  by (auto simp: extends_def list_all_iff)

lemma origin_unarmed: "extends is_origin s t \<Longrightarrow> extends unarmed s t"
  by (rule extends_mono) (use is_origin_simps(2) in blast)+

lemma tick_start_quiet: "send_pending_origin now s = Inr t \<Longrightarrow> quiet s (tick_heartbeat t)"
  using origin_quiet heartbeat_quiet origin_unarmed quiet_def quiet_trans by metis

lemma mission_setpoint_quiet: "publish_mission_setpoint sp s = Inr t \<Longrightarrow> quiet s t"
  by (auto simp: publish_mission_setpoint_def publish_quiet split: list.splits if_splits)

text \<open>A step that only moves the state of the machine.\<close>

definition moves_to :: "ctl_state \<Rightarrow> controller \<Rightarrow> controller \<Rightarrow> bool" where
  "moves_to q s t \<longleftrightarrow> same_core (s\<lparr>ctl := q\<rparr>) t \<and> extends unarmed s t"

lemma moves_to_here: "quiet s t \<Longrightarrow> moves_to q s (t\<lparr>ctl := q\<rparr>)"
  by (simp add: moves_to_def quiet_def same_core_def extends_def)

lemma moves_to_trans: "moves_to p s t \<Longrightarrow> moves_to q t u \<Longrightarrow> moves_to q s u"
proof -
  assume st: "moves_to p s t" and tu: "moves_to q t u"
  then have "same_core (s\<lparr>ctl := q\<rparr>) u" by (simp add: moves_to_def same_core_def)
  with st tu show ?thesis unfolding moves_to_def by (blast intro: extends_trans)
qed

lemma quiet_moves: "quiet s t \<Longrightarrow> moves_to (ctl s) s t"
  by (simp add: moves_to_def quiet_def)

lemma moves_to_ctl: "moves_to q s t \<Longrightarrow> ctl t = q"
  by (simp add: moves_to_def same_core_def)

lemma moves_quiet: "moves_to q s t \<Longrightarrow> quiet t u \<Longrightarrow> moves_to q s u"
  using moves_to_ctl quiet_moves moves_to_trans by metis

lemma landing_moves: "moves_to LAND_REQUESTED s (begin_landing now s)"
  by (simp add: begin_landing_def capture_handoff_hold_def publish_simps moves_to_def same_core_def extends_def)

lemma begin_return_moves:
  "moves_to LAND_REQUESTED s (begin_return now s) \<or> moves_to RETURNING s (begin_return now s)
     \<or> begin_return now s = s"
proof -
  have "moves_to RETURNING s (command_return ((capture_handoff_hold s)\<lparr>ctl := RETURNING\<rparr>))"
    by (simp add: capture_handoff_hold_def publish_simps moves_to_def same_core_def extends_def)
  then show ?thesis by (simp add: begin_return_def begin_return_inner_def landing_moves)
qed

lemma mission_calls_moves:
  "\<exists>q. (q = ctl s \<or> ctl s \<notin> {RETURNING, LAND_REQUESTED, LANDING, DONE} \<and> q \<in> {RETURNING, LAND_REQUESTED})
     \<and> moves_to q s (mission_calls cs s)"
proof (induction cs arbitrary: s)
  case Nil
  show ?case using quiet_moves [OF quiet_refl, of s] by (auto simp: mission_calls_def)
next
  case (Cons c cs)
  define s1 where "s1 = mission_calls [c] s"
  obtain q1 where q1: "q1 = ctl s \<or> ctl s \<notin> {RETURNING, LAND_REQUESTED, LANDING, DONE} \<and> q1 \<in> {RETURNING, LAND_REQUESTED}"
    and m1: "moves_to q1 s s1"
  proof (cases c)
    case CallLand
    have "moves_to (ctl s) s s1"
      by (simp add: s1_def CallLand mission_calls_def request_land_def moves_to_def same_core_def extends_same)
    then show ?thesis using that by blast
  next
    case (CallReturn now)
    have "s1 = begin_return now s" by (simp add: s1_def CallReturn mission_calls_def)
    then consider "moves_to LAND_REQUESTED s s1 \<and> ctl s \<notin> {RETURNING, LAND_REQUESTED, LANDING, DONE}"
      | "moves_to RETURNING s s1 \<and> ctl s \<notin> {RETURNING, LAND_REQUESTED, LANDING, DONE}" | "s1 = s"
      using begin_return_moves [of s now] by (auto simp: begin_return_def split: if_splits)
    then show ?thesis using that quiet_moves [OF quiet_refl, of s] by cases blast+
  next
    case (CallGoto h v r)
    have "moves_to (ctl s) s s1"
      by (simp add: s1_def CallGoto mission_calls_def enable_goto_setpoints_def moves_to_def same_core_def extends_same)
    then show ?thesis using that by blast
  qed
  have "mission_calls (c # cs) s = mission_calls cs s1" by (simp add: s1_def mission_calls_def)
  moreover obtain q where "q = ctl s1 \<or> ctl s1 \<notin> {RETURNING, LAND_REQUESTED, LANDING, DONE} \<and> q \<in> {RETURNING, LAND_REQUESTED}"
    and "moves_to q s1 (mission_calls cs s1)" using Cons.IH by blast
  ultimately have "moves_to q s (mission_calls (c # cs) s)" "q = q1 \<or> q1 \<notin> {RETURNING, LAND_REQUESTED, LANDING, DONE} \<and> q \<in> {RETURNING, LAND_REQUESTED}"
    using m1 moves_to_ctl [OF m1] moves_to_trans by simp_all
  with q1 show ?case by blast
qed

section \<open>What a tick can do\<close>

definition datum_latched :: "controller \<Rightarrow> bool" where
  "datum_latched s \<longleftrightarrow> launch_reference_latched s \<and> launch_xy s \<noteq> None \<and> launch_z_latched s \<and> launch_yaw_latched s"

lemma prestream_tick:
  assumes "tick_prestream now s = Inr t" "ctl s = PRESTREAM"
  shows "extends unarmed s t" "ctl t = PRESTREAM \<or> ctl t = ENGAGE"
    "abort_requested s \<Longrightarrow> abort_requested t"
    "launch_reference_latched t \<Longrightarrow> datum_latched s \<or> \<not> launch_reference_latched s \<Longrightarrow> datum_latched t"
    "ctl t = ENGAGE \<Longrightarrow> launch_reference_latched t" "launch_reference_latched s \<Longrightarrow> launch_reference_latched t"
proof -
  define u where "u = (hold_setpoint s)\<lparr>prestream_count := prestream_count s + 1\<rparr>"
  have core: "same_core s u" and ext: "extends unarmed s u"
    using hold_quiet [of s] by (simp_all add: u_def quiet_def same_core_def extends_def)
  have t: "tick_prestream now s = (if prestream_count u < prestream_cycles u then Inr u else
      let (ok, u1) = latch_launch_reference now u
      in if \<not> ok then
           (if prestream_count u1 > prestream_cycles u1 + py_int (rate_hz u1 * takeoff_timeout_s u1)
            then Inl (RuntimeError ''launch reference never became stable and valid; refusing to arm'') else Inr u1)
         else Inr ((command_offboard_mode (u1\<lparr>takeoff_started_us := now\<rparr>))\<lparr>last_command_us := now, ctl := ENGAGE\<rparr>))"
    unfolding tick_prestream_def u_def Let_def by (rule refl)
  obtain ok u1 where l: "latch_launch_reference now u = (ok, u1)" by (cases "latch_launch_reference now u")
  have u1: "out u1 = out u" "ctl u1 = ctl u" "abort_requested u1 = abort_requested u"
    "ok = launch_reference_latched u1" "launch_reference_latched u \<Longrightarrow> u1 = u"
    "launch_reference_latched u1 \<Longrightarrow> datum_latched u \<or> \<not> launch_reference_latched u \<Longrightarrow> datum_latched u1"
    using l by (auto simp: latch_launch_reference_def datum_latched_def Let_def split: if_splits)
  have same: "datum_latched u = datum_latched s" "launch_reference_latched u = launch_reference_latched s"
    using core by (simp_all add: same_core_def datum_latched_def)
  consider "t = u" | "\<not> ok" "t = u1"
    | "ok" "t = (command_offboard_mode (u1\<lparr>takeoff_started_us := now\<rparr>))\<lparr>last_command_us := now, ctl := ENGAGE\<rparr>"
    using assms(1) by (auto simp: t l split: if_splits)
  then have "extends unarmed s t \<and> (ctl t = PRESTREAM \<or> ctl t = ENGAGE) \<and> (abort_requested s \<longrightarrow> abort_requested t)
    \<and> (launch_reference_latched t \<longrightarrow> datum_latched s \<or> \<not> launch_reference_latched s \<longrightarrow> datum_latched t)
    \<and> (ctl t = ENGAGE \<longrightarrow> launch_reference_latched t) \<and> (launch_reference_latched s \<longrightarrow> launch_reference_latched t)"
  proof cases
    case 1
    show ?thesis using ext core same assms(2) unfolding 1
      by (auto simp: same_core_def)
  next
    case 2
    have "extends unarmed s u1" using ext u1(1) by (simp add: extends_def)
    then show ?thesis using core same assms(2) u1(2-) 2(1) unfolding 2(2) by (auto simp: same_core_def)
  next
    case 3
    have "extends unarmed s t" using ext u1(1) by (auto simp: 3(2) publish_simps extends_def)
    moreover have "datum_latched t = datum_latched u1" "launch_reference_latched t = launch_reference_latched u1"
      "ctl t = ENGAGE" "abort_requested t = abort_requested u1"
      by (simp_all add: 3(2) publish_simps datum_latched_def)
    ultimately show ?thesis using core same assms(2) u1(2-) 3(1) by (auto simp: same_core_def)
  qed
  then show "extends unarmed s t" "ctl t = PRESTREAM \<or> ctl t = ENGAGE"
    "abort_requested s \<Longrightarrow> abort_requested t"
    "launch_reference_latched t \<Longrightarrow> datum_latched s \<or> \<not> launch_reference_latched s \<Longrightarrow> datum_latched t"
    "ctl t = ENGAGE \<Longrightarrow> launch_reference_latched t" "launch_reference_latched s \<Longrightarrow> launch_reference_latched t"
    by blast+
qed

lemma engage_tick:
  "moves_to LAND_REQUESTED s (tick_engage now s) \<or>
   (\<not> abort_requested s \<and> (\<exists>q \<in> {ctl s, ACTIVE}. same_core (s\<lparr>ctl := q\<rparr>) (tick_engage now s)))"
proof (cases "abort_requested (hold_setpoint s)")
  case True
  then show ?thesis
    using moves_to_trans [OF quiet_moves [OF hold_quiet] landing_moves] by (simp add: tick_engage_def)
next
  case False
  have core: "same_core s (hold_setpoint s)" using hold_quiet by (simp add: quiet_def)
  define u where "u = command_arm (command_offboard_mode (hold_setpoint s))"
  have u: "same_core s u" using core by (simp add: u_def publish_simps same_core_def)
  have "\<not> abort_requested s" using core False by (auto simp: same_core_def)
  moreover have "tick_engage now s = (if is_armed u \<and> nav u = NavOffboard then u\<lparr>ctl := ACTIVE\<rparr> else u)"
    using False by (simp add: tick_engage_def u_def Let_def)
  moreover have "same_core (s\<lparr>ctl := ACTIVE\<rparr>) (u\<lparr>ctl := ACTIVE\<rparr>)" "same_core (s\<lparr>ctl := ctl s\<rparr>) u"
    using u by (simp_all add: same_core_def)
  ultimately show ?thesis by auto
qed

lemma active_tick:
  assumes "tick_active now ans s = Inr t" "ctl s = ACTIVE"
  shows "\<exists>q. ctl_edge ACTIVE q \<and> moves_to q s t"
proof -
  define u where "u = mission_calls (fst ans) s"
  consider "t = begin_landing now s" | "t = s\<lparr>ctl := FAILSAFE\<rparr>" | "quiet u t"
  proof (cases "abort_requested s \<or> interlock_tripped s")
    case True
    then show ?thesis using assms(1) that(1,2) by (simp add: tick_active_def split: if_splits)
  next
    case False
    then have "(case snd ans of None \<Rightarrow> Inr (hold_setpoint u) | Some p \<Rightarrow> publish_mission_setpoint p u) = Inr t"
      using assms(1) by (simp add: tick_active_def Let_def flip: u_def)
    then show ?thesis using that(3) hold_quiet mission_setpoint_quiet by (cases "snd ans") fastforce+
  qed
  then show ?thesis
  proof cases
    case 1
    then show ?thesis using landing_moves ctl_edge.lands by blast
  next
    case 2
    then show ?thesis using moves_to_here [OF quiet_refl] ctl_edge.tripped by blast
  next
    case 3
    obtain q where "q = ACTIVE \<or> q \<in> {RETURNING, LAND_REQUESTED}" "moves_to q s u"
      using mission_calls_moves [of s "fst ans"] assms(2) by (auto simp: u_def)
    then show ?thesis using 3 moves_quiet ctl_edge.stay ctl_edge.returns [of ACTIVE q] by blast
  qed
qed

lemma returning_tick: "\<exists>q \<in> {ctl s, LAND_REQUESTED, DONE}. moves_to q s (tick_returning now s)"
proof -
  define u where "u = publish_command_throttled now NavReturnToLaunch
    (if nav s = NavOffboard then publish_handoff_hold s else s)"
  have u: "quiet s u" unfolding u_def
    by (auto intro: quiet_trans [OF publish_handoff_quiet throttled_quiet] throttled_quiet)
  have eq: "tick_returning now s = (if abort_requested s then begin_landing now s
      else if \<not> is_armed u then u\<lparr>ctl := DONE\<rparr> else u)"
    unfolding tick_returning_def u_def Let_def by (rule refl)
  show ?thesis
    unfolding eq by (simp add: landing_moves moves_to_here [OF u] quiet_moves [OF u])
qed

lemma land_requested_tick:
  "\<exists>q \<in> {ctl s, LANDING, DONE}. moves_to q s (tick_land_requested now s)"
proof -
  have u: "quiet s (publish_command_throttled now NavLand (publish_handoff_hold s))"
    by (rule quiet_trans [OF publish_handoff_quiet throttled_quiet]) simp
  show ?thesis
    unfolding tick_land_requested_def
    by (simp add: moves_to_here [OF quiet_refl] quiet_moves [OF u])
qed

text \<open>What the timer does, in each of the states.\<close>

lemma tick_cases:
  assumes "ctl_tick now ans s = Inr t" "ctl s \<noteq> TAKEOFF"
  obtains (moves) q where "ctl_edge (ctl s) q" "moves_to q s t" "q \<noteq> ENGAGE \<or> ctl s = ENGAGE" "q = ACTIVE \<longrightarrow> ctl s = ACTIVE"
  | (prestream) u where "quiet s u" "ctl s = PRESTREAM" "tick_prestream now u = Inr t"
  | (engaged) q where "ctl s = ENGAGE" "\<not> abort_requested s" "q \<in> {ENGAGE, ACTIVE}" "same_core (s\<lparr>ctl := q\<rparr>) t"
proof -
  obtain s1 where s1: "send_pending_origin now s = Inr s1" using assms(1) by (auto simp: ctl_tick_def)
  define u where "u = tick_heartbeat s1"
  have u: "quiet s u" "ctl u = ctl s" using tick_start_quiet [OF s1] quiet_ctl by (auto simp: u_def)
  have edge: thesis if "ctl_edge (ctl s) q" "moves_to q u t" "q \<noteq> ENGAGE \<or> ctl s = ENGAGE" "q = ACTIVE \<longrightarrow> ctl s = ACTIVE" for q
    using that moves moves_to_trans [OF quiet_moves [OF u(1)]] by blast
  have here: thesis if "ctl_edge (ctl s) q" "t = (if b then u\<lparr>ctl := q\<rparr> else u)" "q \<notin> {ENGAGE, ACTIVE}" for b q
    using that edge moves_to_here [OF quiet_refl, of q u] quiet_moves [OF quiet_refl, of u] u(2) ctl_edge.stay
    by (cases b) auto
  note tick = assms(1) [unfolded ctl_tick_def s1 bindE_Inr Let_def, folded u_def]
  show thesis
  proof (cases "ctl s")
    case WAIT_LINK
    have "moves_to q s (u\<lparr>link_acquired_fired := True, ctl := q\<rparr>)" for q
      using moves_to_here [OF u(1), of q] by (simp add: moves_to_def same_core_def extends_def)
    then show thesis
      using tick u(2) WAIT_LINK moves [of WAIT_START] moves [of PRESTREAM] moves [of WAIT_LINK] quiet_moves [OF u(1)]
      by (auto intro: ctl_edge.intros split: if_splits)
  next
    case PRESTREAM
    then show thesis using tick u prestream by simp
  next
    case ENGAGE
    then consider "moves_to LAND_REQUESTED u t"
      | q where "\<not> abort_requested u" "q \<in> {ENGAGE, ACTIVE}" "same_core (u\<lparr>ctl := q\<rparr>) t"
      using tick engage_tick [of u now] u(2) by auto
    then show thesis
    proof cases
      case 1
      then show thesis using edge [of LAND_REQUESTED] ENGAGE ctl_edge.lands [of ENGAGE] by simp
    next
      case 2
      have "same_core s u" using u(1) by (simp add: quiet_def)
      then have "\<not> abort_requested s" "same_core (s\<lparr>ctl := q\<rparr>) t" using 2 by (auto simp: same_core_def)
      then show thesis using engaged ENGAGE 2(2) by blast
    qed
  next
    case ACTIVE
    then obtain q where "ctl_edge ACTIVE q" "moves_to q u t" using tick u(2) active_tick [of now ans u t] by auto
    then show thesis using edge [of q] ACTIVE by (auto elim: ctl_edge.cases)
  next
    case RETURNING
    then show thesis
      using tick u(2) returning_tick [of u now] edge ctl_edge.lands [of RETURNING] ctl_edge.disarmed [of RETURNING]
        ctl_edge.stay by auto
  next
    case LAND_REQUESTED
    then show thesis
      using tick u(2) land_requested_tick [of u now] edge ctl_edge.accepted ctl_edge.disarmed [of LAND_REQUESTED]
        ctl_edge.stay by auto
  next
    case LANDING
    then show thesis using tick u(2) here [of DONE "\<not> is_armed u"] ctl_edge.disarmed [of LANDING] by simp
  next
    case FAILSAFE
    then show thesis using tick u(2) here [of DONE "\<not> is_armed u"] ctl_edge.disarmed [of FAILSAFE] by simp
  next
    case DONE
    then show thesis using tick u(2) here [of DONE True] here [of DONE False] ctl_edge.stay by simp
  next
    case WAIT_START
    then show thesis using tick u(2) here [of PRESTREAM "start_ok u"] ctl_edge.started by simp
  qed (use assms(2) in simp)
qed

text \<open>The operations outside the timer.\<close>

lemma step_outside:
  assumes "ctl_step s e = Inr t" "\<And>now ans. e \<noteq> Timer now ans"
  shows "(\<exists>now. e = BeginReturn now \<and> t = begin_return now s) \<or>
    (ctl t = ctl s \<and> out t = out s \<and> launch_reference_latched t = launch_reference_latched s
       \<and> (datum_latched s \<longrightarrow> datum_latched t) \<and> (abort_requested s \<longrightarrow> abort_requested t))"
proof (cases e)
  case (LocalPosition now m)
  then show ?thesis
    using assms(1)
    by (auto simp: ctl_step_def pos_cb_def handle_local_frame_reset_def datum_latched_def Let_def
        split: option.splits prod.splits if_splits)
qed (use assms in \<open>auto simp: ctl_step_def status_cb_def att_cb_def gpos_cb_def start_cb_def end_cb_def abort_cb_def
    request_land_def enable_goto_setpoints_def set_global_origin_def datum_latched_def split: prod.splits if_splits\<close>)

section \<open>No arming without a datum\<close>

definition datum_inv :: "controller \<Rightarrow> bool" where
  "datum_inv s \<longleftrightarrow> ctl s \<noteq> TAKEOFF
     \<and> (ctl s \<in> {ENGAGE, ACTIVE, FAILSAFE} \<longrightarrow> launch_reference_latched s)
     \<and> (launch_reference_latched s \<longrightarrow> datum_latched s)
     \<and> (\<forall>m \<in> set (out s). is_arm m \<longrightarrow> launch_reference_latched s)"

lemma datum_moves:
  assumes "datum_inv s" "moves_to q s t" "q \<noteq> TAKEOFF" "q \<in> {ENGAGE, ACTIVE, FAILSAFE} \<Longrightarrow> launch_reference_latched s"
  shows "datum_inv t"
  using assms unfolding datum_inv_def moves_to_def same_core_def extends_def datum_latched_def list_all_iff by auto

lemma edge_cases:
  "ctl_edge a q \<Longrightarrow> a \<noteq> TAKEOFF \<Longrightarrow> q \<noteq> TAKEOFF \<and> (q = FAILSAFE \<longrightarrow> a = ACTIVE \<or> a = FAILSAFE)"
  by (blast elim: edge_to_takeoff edge_to_failsafe)

lemma datum_tick:
  assumes inv: "datum_inv s" and t: "ctl_tick now ans s = Inr t"
  shows "datum_inv t"
proof -
  have "ctl s \<noteq> TAKEOFF" using inv by (simp add: datum_inv_def)
  with t show ?thesis
  proof (cases rule: tick_cases)
    case (moves q)
    have "q \<noteq> TAKEOFF \<and> (q = FAILSAFE \<longrightarrow> ctl s = ACTIVE \<or> ctl s = FAILSAFE)"
      using edge_cases moves(1) \<open>ctl s \<noteq> TAKEOFF\<close> .
    then show ?thesis using moves inv datum_moves [OF inv moves(2)] by (auto simp: datum_inv_def)
  next
    case (prestream u)
    have u: "datum_inv u" "ctl u = PRESTREAM"
      using datum_moves [OF inv quiet_moves [OF prestream(1)]] prestream(2) quiet_ctl [OF prestream(1)] by simp_all
    show ?thesis
      using prestream_tick [OF prestream(3) u(2)] u unfolding datum_inv_def extends_def list_all_iff by auto
  next
    case (engaged q)
    then have "launch_reference_latched s" "datum_latched s" using inv by (simp_all add: datum_inv_def)
    then show ?thesis using engaged(3,4) by (auto simp: datum_inv_def same_core_def datum_latched_def)
  qed
qed

lemma datum_step:
  assumes inv: "datum_inv s" and t: "ctl_step s e = Inr t"
  shows "datum_inv t"
proof (cases "\<exists>now ans. e = Timer now ans")
  case True
  then show ?thesis using datum_tick [OF inv] t by (auto simp: ctl_step_def)
next
  case False
  consider now where "t = begin_return now s"
    | "ctl t = ctl s" "out t = out s" "launch_reference_latched t = launch_reference_latched s"
      "datum_latched s \<longrightarrow> datum_latched t"
    using step_outside [OF t] False by blast
  then show ?thesis
  proof cases
    case 1
    then show ?thesis using begin_return_moves [of s now] inv datum_moves [OF inv] by auto
  qed (use inv in \<open>auto simp: datum_inv_def\<close>)
qed

interpretation datum: fallible_machine ctl_step datum_inv
  by standard (rule datum_step)

text \<open>
  Claim C11: the controller never arms without a launch datum. In every run from start-up, if an arm command
  has been published, the pad position, altitude and heading have been latched; being engaged or
  active implies it too, and the takeoff state of the code is never entered.
\<close>

theorem never_arms_without_datum:
  assumes "foldE ctl_step (mk_controller p) es = Inr s"
  shows "((\<exists>m \<in> set (out s). is_arm m) \<or> ctl s = ENGAGE \<or> ctl s = ACTIVE \<longrightarrow>
      launch_reference_latched s \<and> launch_xy s \<noteq> None \<and> launch_z_latched s \<and> launch_yaw_latched s)
    \<and> ctl s \<noteq> TAKEOFF"
proof -
  have "datum_inv (mk_controller p)" by (simp add: datum_inv_def mk_controller_def)
  from datum.run_inv [OF this assms] show ?thesis by (auto simp: datum_inv_def datum_latched_def)
qed

text \<open>A flight that gets engaged, for the examples.\<close>

definition example_params :: ctl_params where
  "example_params = \<lparr>p_rate_hz = 20, p_prestream_cycles = 1, p_takeoff_altitude_m = 5,
     p_takeoff_acceptance_m = 2 / 5, p_takeoff_timeout_s = 30, p_force_arm = False, p_wait_for_start = False,
     p_status_stale_timeout_s = 5, p_launch_stability_s = 3\<rparr>"

definition example_position :: local_position where
  "example_position = \<lparr>lp_pos = (1, 2, 0), lp_vel = (0, 0, 0), lp_xy_valid = True, lp_v_xy_valid = True, lp_z_valid = True,
     lp_counters = (0, 0, 0), lp_delta_xy = (0, 0), lp_delta_z = 0, lp_delta_heading = 0\<rparr>"

definition engaging :: "ctl_event list" where
  "engaging = [Status 0 (NavOther 4) 1 False, LocalPosition 0 example_position, Attitude (1, 0, 0, 0),
     Timer 1000 ([], None), Timer 5000000 ([], None), Timer 5050000 ([], None), Status 5060000 NavOffboard 2 False,
     Timer 5100000 ([], None)]"

lemmas ctl_eval = ctl_step_def ctl_tick_def send_pending_origin_def tick_heartbeat_def awaiting_rtl_def
  link_alive_def tick_prestream_def latch_launch_reference_def tick_engage_def tick_active_def
  interlock_tripped_def tick_returning_def tick_land_requested_def begin_landing_def begin_return_def
  begin_return_inner_def capture_handoff_hold_def publish_handoff_hold_def hold_setpoint_def takeoff_hold_def
  hold_yaw_def is_armed_def mission_calls_def status_cb_def pos_cb_def handle_local_frame_reset_def att_cb_def gpos_cb_def
  start_cb_def end_cb_def abort_cb_def publish_simps mk_controller_def py_int_def Let_def

lemma engaging_run:
  "\<exists>s. foldE ctl_step (mk_controller example_params) engaging = Inr s \<and> ctl s = ACTIVE"
proof -
  define s0 where "s0 = mk_controller example_params"
  have s0: "rate_hz s0 = 20" "prestream_cycles s0 = 1" "takeoff_altitude_m s0 = 5" "force_arm s0 = False"
    "status_stale_timeout_s s0 = 5" "launch_stability_s s0 = 3" "launch_reference_latched s0 = False"
    "launch_yaw_latched s0 = False" "goto_active s0 = False" "start_ok s0 = True" "pending_origin s0 = None"
    "prestream_count s0 = 0" "abort_requested s0 = False" "ctl s0 = WAIT_LINK" "reset_counters s0 = None"
    by (simp_all add: s0_def mk_controller_def example_params_def)
  define s1 where "s1 = status_cb 0 (NavOther 4) 1 False s0"
  define s2 where "s2 = att_cb (1, 0, 0, 0) (pos_cb 0 example_position s1)"
  define s3 where "s3 = s2\<lparr>link_acquired_fired := True, ctl := PRESTREAM\<rparr>"
  define s4 where "s4 = (hold_setpoint (publish_heartbeat s3))\<lparr>prestream_count := 1\<rparr>"
  define sl where "sl = snd (latch_launch_reference 5000000 s4)"
  define s5 where "s5 = (command_offboard_mode (sl
    \<lparr>takeoff_started_us := 5000000\<rparr>))\<lparr>last_command_us := 5000000, ctl := ENGAGE\<rparr>"
  define s6 where "s6 = command_arm (command_offboard_mode (hold_setpoint (publish_heartbeat s5)))"
  define s7 where "s7 = status_cb 5060000 NavOffboard 2 False s6"
  define s8 where "s8 = (command_arm (command_offboard_mode (hold_setpoint (publish_heartbeat s7))))\<lparr>ctl := ACTIVE\<rparr>"
  note hold = hold_setpoint_def takeoff_hold_def hold_yaw_def publish_simps
  have "launch_reference_latched s2 = False" "xy_valid s2" "z_valid s2" "attitude_seen s2" "status_seen s2"
    "last_status_us s2 = 0" "last_local_reset_us s2 = 0" "launch_xy s2 = Some (1, 2)" "pending_origin s2 = None"
    "ctl s2 = WAIT_LINK" "start_ok s2" "abort_requested s2 = False" "status_stale_timeout_s s2 = 5" "goto_active s2 = False"
    "prestream_count s2 = 0" "prestream_cycles s2 = 1" "launch_stability_s s2 = 3" "nav s2 = NavOther 4" "arm_state s2 = 1"
    by (simp_all add: s2_def s1_def s0 att_cb_def pos_cb_def handle_local_frame_reset_def status_cb_def example_position_def
        split: prod.split)
  note s2 = this
  have "pending_origin s4 = None" "ctl s4 = PRESTREAM" "prestream_count s4 = 1" "prestream_cycles s4 = 1"
    "launch_reference_latched s4 = False" "xy_valid s4" "z_valid s4" "attitude_seen s4" "launch_stability_s s4 = 3"
    "last_local_reset_us s4 = 0" "goto_active s4 = False" "abort_requested s4 = False" "nav s4 = NavOther 4" "arm_state s4 = 1"
    by (simp_all add: s4_def s3_def hold s2)
  note s4 = this
  have "latch_launch_reference 5000000 s4 = (True, sl)"
    by (simp add: sl_def latch_launch_reference_def s4)
  note latch = this
  have "pending_origin s5 = None" "ctl s5 = ENGAGE" "goto_active s5 = False" "abort_requested s5 = False"
    "nav s5 = NavOther 4" "arm_state s5 = 1" "force_arm s5 = force_arm s4"
    by (simp_all add: s5_def sl_def publish_simps latch_launch_reference_def s4)
  note s5 = this
  have "pending_origin s7 = None" "ctl s7 = ENGAGE" "goto_active s7 = False" "abort_requested s7 = False"
    "nav s7 = NavOffboard" "arm_state s7 = 2"
    by (simp_all add: s7_def s6_def status_cb_def hold s5 split: prod.split)
  note s7 = this
  have beat: "tick_heartbeat s = publish_heartbeat s" if "ctl s \<in> {PRESTREAM, ENGAGE}" for s
    using that by (auto simp: tick_heartbeat_def)
  have origin: "send_pending_origin now s = Inr s" if "pending_origin s = None" for now s
    using that by (simp add: send_pending_origin_def)
  have waiting: "tick_heartbeat s2 = s2" by (simp add: tick_heartbeat_def awaiting_rtl_def s2)
  have ab: "abort_requested (hold_setpoint s) = abort_requested s" "ctl (hold_setpoint s) = ctl s" for s
    by (simp_all add: hold split: prod.split)
  have hb: "ctl (publish_heartbeat s) = ctl s" "abort_requested (publish_heartbeat s) = abort_requested s" for s
    by (simp_all add: publish_simps)
  have s3: "ctl s3 = PRESTREAM" "pending_origin s3 = None" "prestream_count s3 = 0" by (simp_all add: s3_def s2)
  have t3: "ctl_step s2 (Timer 1000 ([], None)) = Inr s3"
    by (simp add: ctl_step_def ctl_tick_def origin s2 waiting link_alive_def py_int_def s3_def)
  have c: "prestream_count (publish_heartbeat s3) = 0" by (simp add: publish_simps s3)
  have t5: "ctl_step s3 (Timer 5000000 ([], None)) = Inr s5"
    by (simp add: ctl_step_def ctl_tick_def origin s3 beat hb tick_prestream_def c s5_def latch s4 flip: s4_def)
  have n6: "\<not> is_armed s6" by (simp add: s6_def is_armed_def hold s5 split: prod.split)
  have t6: "ctl_step s5 (Timer 5050000 ([], None)) = Inr s6"
    using n6 by (simp add: ctl_step_def ctl_tick_def origin s5 beat hb tick_engage_def ab Let_def flip: s6_def)
  have t7: "ctl_step s6 (Status 5060000 NavOffboard 2 False) = Inr s7" by (simp add: ctl_step_def s7_def)
  have "is_armed (command_arm (command_offboard_mode (hold_setpoint (publish_heartbeat s7))))"
    "nav (command_arm (command_offboard_mode (hold_setpoint (publish_heartbeat s7)))) = NavOffboard"
    by (simp_all add: is_armed_def hold s7 split: prod.split)
  then have t8: "ctl_step s7 (Timer 5100000 ([], None)) = Inr s8"
    by (simp add: ctl_step_def ctl_tick_def origin s7 beat hb tick_engage_def ab Let_def s8_def)
  have t0: "ctl_step s0 (Status 0 (NavOther 4) 1 False) = Inr s1" by (simp add: ctl_step_def s1_def)
  have t1: "ctl_step s1 (LocalPosition 0 example_position) = Inr (pos_cb 0 example_position s1)" by (simp add: ctl_step_def)
  have t2: "ctl_step (pos_cb 0 example_position s1) (Attitude (1, 0, 0, 0)) = Inr s2" by (simp add: ctl_step_def s2_def)
  have "foldE ctl_step s0 engaging = Inr s8" by (simp add: engaging_def t0 t1 t2 t3 t5 t6 t7 t8)
  moreover have "ctl s8 = ACTIVE" by (simp add: s8_def)
  ultimately show ?thesis by (auto simp: s0_def)
qed

theorem never_arms_without_datum_witness:
  "\<exists>s. foldE ctl_step (mk_controller example_params) engaging = Inr s \<and> ctl s = ACTIVE \<and> launch_reference_latched s"
proof -
  obtain s where "foldE ctl_step (mk_controller example_params) engaging = Inr s" "ctl s = ACTIVE"
    using engaging_run by blast
  with never_arms_without_datum [OF this(1)] show ?thesis by blast
qed

section \<open>Aborting\<close>

lemma aborted_tick:
  assumes "abort_requested s" "ctl s \<noteq> TAKEOFF" "ctl_tick now ans s = Inr t"
  shows "abort_requested t \<and> ctl t \<noteq> TAKEOFF \<and> extends unarmed s t"
  using assms(3,2)
proof (cases rule: tick_cases)
  case (moves q)
  then show ?thesis
    using assms(1,2) edge_cases [OF moves(1)] moves_to_ctl [OF moves(2)] by (simp add: moves_to_def same_core_def)
next
  case (prestream u)
  then show ?thesis
    using prestream_tick [OF prestream(3)] quiet_ctl [OF prestream(1)] assms(1)
    by (auto simp: quiet_def same_core_def intro: extends_trans)
qed (use assms(1) in blast)

lemma aborted_step:
  assumes "abort_requested s \<and> ctl s \<noteq> TAKEOFF" "ctl_step s e = Inr t"
  shows "abort_requested t \<and> ctl t \<noteq> TAKEOFF \<and> extends unarmed s t"
proof (cases "\<exists>now ans. e = Timer now ans")
  case True
  then obtain now ans where "e = Timer now ans" by blast
  with assms(2) have "ctl_tick now ans s = Inr t" by (simp add: ctl_step_def)
  with assms(1) show ?thesis using aborted_tick [of s now ans t] by blast
next
  case False
  consider now where "t = begin_return now s" | "ctl t = ctl s" "out t = out s" "abort_requested t"
    using step_outside [OF assms(2)] False assms(1) by blast
  then show ?thesis
  proof cases
    case 1
    then show ?thesis using begin_return_moves [of s now] assms(1) by (auto simp: moves_to_def same_core_def)
  qed (use assms(1) in \<open>simp add: extends_same\<close>)
qed

interpretation aborting: fallible_progress ctl_step "\<lambda>s. abort_requested s \<and> ctl s \<noteq> TAKEOFF" "extends unarmed"
  by standard (use aborted_step in \<open>blast intro: extends_trans extends_refl\<close>)+

lemma abort_lands:
  assumes "abort_requested s" "ctl s \<in> {ENGAGE, ACTIVE, RETURNING}" "ctl_tick now ans s = Inr t"
  shows "ctl t = LAND_REQUESTED \<and> (\<exists>new. out t = out s @ new \<and> Command NavLand True \<in> set new)"
proof -
  obtain s1 where s1: "send_pending_origin now s = Inr s1" using assms(3) by (auto simp: ctl_tick_def)
  define u where "u = tick_heartbeat s1"
  have u: "quiet s u" using tick_start_quiet [OF s1] by (simp add: u_def)
  then have ctl: "ctl u = ctl s" and ab: "abort_requested u" using assms(1) by (simp_all add: quiet_def same_core_def)
  have ab': "abort_requested (hold_setpoint u)" using hold_quiet [of u] ab by (simp add: quiet_def same_core_def)
  note tick = assms(3) [unfolded ctl_tick_def s1 bindE_Inr Let_def, folded u_def]
  have hold: "quiet s (hold_setpoint u)" by (rule quiet_trans [OF u hold_quiet])
  consider "ctl u = ENGAGE" | "ctl u = ACTIVE" | "ctl u = RETURNING" using ctl assms(2) by auto
  then have "t = begin_landing now (hold_setpoint u) \<or> t = begin_landing now u"
  proof cases
    case 1
    with tick ab' show ?thesis by (simp add: tick_engage_def)
  next
    case 2
    with tick ab show ?thesis by (simp add: tick_active_def)
  next
    case 3
    with tick ab show ?thesis by (simp add: tick_returning_def)
  qed
  then obtain v where v: "quiet s v" "t = begin_landing now v" using u hold by blast
  have "ctl t = LAND_REQUESTED" "out t = out v @ [Command NavLand True]"
    by (simp_all add: v(2) begin_landing_def capture_handoff_hold_def publish_simps)
  then show ?thesis using v(1) by (auto simp: quiet_def extends_def)
qed

text \<open>
  Claim C12: an abort request is final. From the moment it stands, no run publishes an arm command again, and
  whenever the controller is engaging, active or returning its next tick leaves for the landing
  request and publishes the land command, whatever the mission answers.
\<close>

theorem abort_never_arms_and_lands:
  assumes "foldE ctl_step (mk_controller p) es = Inr s" "abort_requested s" "foldE ctl_step s es' = Inr t"
  shows "(\<exists>new. out t = out s @ new \<and> list_all (\<lambda>m. \<not> is_arm m) new) \<and>
    (ctl t \<in> {ENGAGE, ACTIVE, RETURNING} \<longrightarrow> (\<forall>now ans u. ctl_tick now ans t = Inr u \<longrightarrow>
      ctl u = LAND_REQUESTED \<and> (\<exists>new. out u = out t @ new \<and> Command NavLand True \<in> set new)))"
proof -
  have "datum_inv (mk_controller p)" by (simp add: datum_inv_def mk_controller_def)
  then have "abort_requested s \<and> ctl s \<noteq> TAKEOFF"
    using datum.run_inv [OF _ assms(1)] assms(2) by (simp add: datum_inv_def)
  from aborting.run_ahead [OF this assms(3)] aborting.run_inv [OF this assms(3)]
  have "extends unarmed s t" "abort_requested t" by simp_all
  then show ?thesis using abort_lands unfolding extends_def by blast
qed

lemma aborting_run:
  "\<exists>s. foldE ctl_step (mk_controller example_params) (engaging @ [AbortGate True]) = Inr s \<and> ctl s = ACTIVE
     \<and> abort_requested s"
  using engaging_run by (auto simp: foldE_append ctl_step_def abort_cb_def)

theorem abort_never_arms_and_lands_witness:
  "\<exists>s. foldE ctl_step (mk_controller example_params) (engaging @ [AbortGate True]) = Inr s \<and> ctl s = ACTIVE
     \<and> (\<forall>u. ctl_tick 6000000 ([], None) s = Inr u \<longrightarrow> ctl u = LAND_REQUESTED)"
proof -
  obtain s where s: "foldE ctl_step (mk_controller example_params) (engaging @ [AbortGate True]) = Inr s"
    "ctl s = ACTIVE" "abort_requested s" using aborting_run by blast
  have "foldE ctl_step s [] = Inr s" by simp
  from abort_never_arms_and_lands [OF s(1,3) this] s(2) have
    "\<forall>u. ctl_tick 6000000 ([], None) s = Inr u \<longrightarrow> ctl u = LAND_REQUESTED" by blast
  with s show ?thesis by blast
qed

section \<open>The interlock\<close>

lemma silent_tick:
  assumes "ctl s \<in> {FAILSAFE, DONE}" "ctl_tick now ans s = Inr t"
  shows "ctl t \<in> {FAILSAFE, DONE} \<and> extends is_origin s t"
proof -
  obtain s1 where s1: "send_pending_origin now s = Inr s1" using assms(2) by (auto simp: ctl_tick_def)
  have "ctl s1 = ctl s" "extends is_origin s s1" using origin_quiet [OF s1] by (simp_all add: same_core_def)
  moreover have "tick_heartbeat s1 = s1" using calculation(1) assms(1) by (auto simp: tick_heartbeat_def awaiting_rtl_def)
  ultimately show ?thesis
    using assms s1 by (auto simp: ctl_tick_def extends_def split: if_splits)
qed

lemma silent_step:
  assumes "ctl s \<in> {FAILSAFE, DONE}" "ctl_step s e = Inr t" "\<And>now. e \<noteq> BeginReturn now"
  shows "ctl t \<in> {FAILSAFE, DONE} \<and> extends is_origin s t"
proof (cases "\<exists>now ans. e = Timer now ans")
  case True
  then obtain now ans where "e = Timer now ans" by blast
  then show ?thesis using silent_tick [OF assms(1), of now ans t] assms(2) by (simp add: ctl_step_def)
next
  case False
  then show ?thesis using step_outside [OF assms(2)] assms(1,3) by (auto intro: extends_same)
qed

text \<open>
  Claim C13: failsafe is silent. Once the interlock has tripped, unless a mission calls \<open>begin_return\<close>, the
  controller stays in failsafe or ends, and publishes neither heartbeats nor setpoints nor mode, arm
  or land commands: only the retries of a pending global origin.
\<close>

theorem failsafe_is_silent:
  assumes "ctl s = FAILSAFE" "foldE ctl_step s es = Inr t" "\<forall>e \<in> set es. \<forall>now. e \<noteq> BeginReturn now"
  shows "ctl t \<in> {FAILSAFE, DONE} \<and> (\<exists>new. out t = out s @ new \<and> list_all is_origin new)"
proof -
  have "ctl s \<in> {FAILSAFE, DONE}" using assms(1) by simp
  then have "ctl t \<in> {FAILSAFE, DONE} \<and> extends is_origin s t" using assms(2,3)
  proof (induction es arbitrary: s)
    case (Cons e es)
    then obtain u where "ctl_step s e = Inr u" "foldE ctl_step u es = Inr t" by auto
    with Cons silent_step [of s e u] show ?case by (auto intro: extends_trans)
  qed simp
  then show ?thesis by (simp add: extends_def)
qed

theorem failsafe_is_silent_witness:
  "\<exists>s t. ctl s = FAILSAFE \<and> foldE ctl_step s [AbortGate True, StartGate True] = Inr t \<and> ctl t \<in> {FAILSAFE, DONE}"
proof -
  define s where "s = (mk_controller example_params)\<lparr>ctl := FAILSAFE\<rparr>"
  obtain t where "foldE ctl_step s [AbortGate True, StartGate True] = Inr t" by (simp add: ctl_step_def)
  moreover have "ctl s = FAILSAFE" by (simp add: s_def)
  ultimately show ?thesis
    using failsafe_is_silent [of s "[AbortGate True, StartGate True]" t] by auto
qed

text \<open>
  \<open>begin_return\<close> leaves failsafe. Its guard does not name that state, so a mission that calls it (the
  hooks for \<open>/end_mission\<close> do) takes the vehicle back from PX4: it commands a return or a landing
  and, in the landing request, streams heartbeats again.
\<close>

theorem begin_return_leaves_failsafe:
  "let s' = begin_return now (s\<lparr>ctl := FAILSAFE\<rparr>); global = (global_xy_valid s \<and> global_alt_valid s)
   in ctl s' = (if global then RETURNING else LAND_REQUESTED)
      \<and> out s' = out s @ [Command (if global then NavReturnToLaunch else NavLand) True]
      \<and> (global \<or> out (tick_heartbeat s') = out s' @ [Heartbeat False])"
  by (simp add: begin_return_def begin_return_inner_def begin_landing_def capture_handoff_hold_def publish_simps
      tick_heartbeat_def)

lemma tick_start_same:
  assumes "send_pending_origin now s = Inr s1"
  shows "abort_requested (tick_heartbeat s1) = abort_requested s" "interlock_tripped (tick_heartbeat s1) = interlock_tripped s"
    "ctl (tick_heartbeat s1) = ctl s"
  using assms
  by (auto simp: send_pending_origin_def tick_heartbeat_def publish_simps interlock_tripped_def split: option.splits if_splits)

text \<open>
  A mission reaches the vehicle only through the interlock. If what the mission answers to
  \<open>compute_setpoint\<close> makes any difference to a tick, then the controller is active, no abort is
  requested, and PX4 reports offboard mode, no failsafe and valid position and velocity.
\<close>

theorem mission_setpoints_gated:
  assumes "ctl_tick now ans s \<noteq> ctl_tick now ans' s"
  shows "ctl s = ACTIVE \<and> \<not> abort_requested s \<and> nav s = NavOffboard \<and> \<not> px4_failsafe s
    \<and> xy_valid s \<and> v_xy_valid s \<and> z_valid s"
proof -
  obtain s1 where s1: "send_pending_origin now s = Inr s1"
    using assms by (cases "send_pending_origin now s") (auto simp: ctl_tick_def)
  define u where "u = tick_heartbeat s1"
  note same = tick_start_same [OF s1, folded u_def]
  have differ: "ctl u = ACTIVE \<and> tick_active now ans u \<noteq> tick_active now ans' u"
    using assms by (cases "ctl u") (simp_all add: ctl_tick_def s1 u_def [symmetric])
  moreover have "tick_active now ans u = tick_active now ans' u" if "abort_requested u \<or> interlock_tripped u"
    using that by (cases "abort_requested u") (simp_all add: tick_active_def)
  ultimately have "\<not> abort_requested u" "\<not> interlock_tripped u" by blast+
  then show ?thesis using same differ by (auto simp: interlock_tripped_def)
qed

theorem mission_setpoints_gated_witness:
  "\<exists>s. ctl_tick 6000000 ([], None) s \<noteq> ctl_tick 6000000 ([], Some []) s \<and> ctl s = ACTIVE \<and> \<not> abort_requested s"
proof -
  define s where "s = (mk_controller example_params)
    \<lparr>ctl := ACTIVE, nav := NavOffboard, xy_valid := True, v_xy_valid := True, z_valid := True\<rparr>"
  have "ctl_tick 6000000 ([], None) s \<noteq> ctl_tick 6000000 ([], Some []) s"
    by (simp add: s_def ctl_eval publish_mission_setpoint_def)
  from mission_setpoints_gated [OF this] this show ?thesis by blast
qed

section \<open>Frame resets\<close>

lemma wrap_pi_cos_sin [simp]: "cos (wrap_pi a) = cos a" "sin (wrap_pi a) = sin a"
proof -
  have ne: "cos a \<noteq> 0 \<or> sin a \<noteq> 0" using sin_zero_abs_cos_one [of a] by auto
  have h: "hypot (cos a) (sin a) = 1" by (simp add: hypot_def)
  show "cos (wrap_pi a) = cos a" "sin (wrap_pi a) = sin a"
    using atan2_cos_sin [of "cos a" "sin a"] ne by (simp_all add: wrap_pi_def h)
qed

lemma wrap_pi_idem: "wrap_pi (wrap_pi a) = wrap_pi a"
  by (simp add: wrap_pi_def [of "wrap_pi a"] wrap_pi_def [of a, symmetric])

text \<open>The deltas a message carries, for the counters that moved.\<close>

definition reset_delta :: "local_position \<Rightarrow> controller \<Rightarrow> real \<times> real \<times> real \<times> real" where
  "reset_delta m s =
     (case (reset_counters s, lp_counters m) of
        (Some (xyc, zc, hc), (nxy, nz, nh)) \<Rightarrow>
          (if nxy \<noteq> xyc then fst (lp_delta_xy m) else 0, if nxy \<noteq> xyc then snd (lp_delta_xy m) else 0,
           if nz \<noteq> zc then lp_delta_z m else 0, if nh \<noteq> hc then lp_delta_heading m else 0)
      | _ \<Rightarrow> (0, 0, 0, 0))"

text \<open>
  An estimator reset does not move the vehicle. With the datum latched, after a position message
  that announces resets the take-off hold and the hand-off hold command exactly the old targets
  shifted by the deltas of the counters that changed, in position, altitude and heading.
\<close>

theorem frame_reset_moves_holds_with_frame:
  assumes "launch_reference_latched s" "launch_xy s = Some (lx, ly)" "launch_z_latched s" "launch_yaw_latched s"
    "handoff_hold s = Some (hx, hy, hz, hyaw)" "\<not> goto_active s" "reset_delta m s = (dx, dy, dz, dh)"
  shows "out (hold_setpoint (pos_cb now m s)) = out s @
      [Trajectory (Some (lx + dx), Some (ly + dy), Some (launch_z s - \<bar>takeoff_altitude_m s\<bar> + dz)) None (Some (wrap_pi (launch_yaw s + dh))) 0]
    \<and> out (publish_handoff_hold (pos_cb now m s)) = out s @
      [Trajectory (Some (hx + dx), Some (hy + dy), Some (hz + launch_z s + dz)) None (Some (wrap_pi (hyaw + dh))) 0]"
proof -
  define t where "t = pos_cb now m s"
  have t: "launch_xy t = Some (lx + dx, ly + dy) \<and> launch_z t = launch_z s + dz \<and> launch_yaw_latched t
    \<and> wrap_pi (launch_yaw t) = wrap_pi (launch_yaw s + dh)
    \<and> (\<exists>yw. handoff_hold t = Some (hx + dx, hy + dy, hz, yw) \<and> wrap_pi yw = wrap_pi (hyaw + dh))
    \<and> \<not> goto_active t \<and> takeoff_altitude_m t = takeoff_altitude_m s \<and> out t = out s"
    using assms
    by (auto simp: t_def pos_cb_def handle_local_frame_reset_def reset_delta_def Let_def wrap_pi_idem
        split: option.splits prod.splits if_splits)
  then show ?thesis
    unfolding t_def [symmetric]
    by (auto simp: hold_setpoint_def takeoff_hold_def hold_yaw_def publish_handoff_hold_def publish_simps)
qed

theorem frame_reset_moves_holds_with_frame_witness:
  "\<exists>s m now. reset_delta m s = (1, 0, 0, 0) \<and>
     out (hold_setpoint (pos_cb now m s)) = [Trajectory (Some 1, Some 0, Some (- 5)) None (Some (wrap_pi 0)) 0]"
proof -
  define s where "s = (mk_controller example_params)
    \<lparr>launch_reference_latched := True, launch_xy := Some (0, 0), launch_z_latched := True, launch_yaw_latched := True,
     handoff_hold := Some (0, 0, 0, 0), reset_counters := Some (0, 0, 0)\<rparr>"
  define m where "m = example_position\<lparr>lp_counters := (1, 0, 0), lp_delta_xy := (1, 0)\<rparr>"
  have "reset_delta m s = (1, 0, 0, 0)" by (simp add: s_def m_def reset_delta_def)
  moreover from this have "out (hold_setpoint (pos_cb 0 m s)) =
      out s @ [Trajectory (Some (0 + 1), Some (0 + 0), Some (launch_z s - \<bar>takeoff_altitude_m s\<bar> + 0)) None (Some (wrap_pi (launch_yaw s + 0))) 0]"
    by (intro conjunct1 [OF frame_reset_moves_holds_with_frame [where hx = 0 and hy = 0 and hz = 0 and hyaw = 0]])
      (simp_all add: s_def mk_controller_def)
  ultimately show ?thesis by (intro exI [of _ s] exI [of _ m] exI [of _ 0]) (simp add: s_def mk_controller_def example_params_def)
qed

end
