(* ===== verification/Search.thy ===== *)
theory Search
  imports Prelude
begin

text \<open>
  Breadth-first search as the grid planners write it: a map of the nodes found so far, a FIFO queue,
  and an inner loop over the neighbours of the node taken from the queue. The locale holds the
  invariant such a loop keeps, whatever it records for a node, and what follows when the queue is
  empty or a goal is taken.
\<close>

section \<open>Walks\<close>

text \<open>Nodes at the end of a walk of a given length from some source.\<close>

inductive walk :: "('v \<Rightarrow> 'v list) \<Rightarrow> 'v set \<Rightarrow> nat \<Rightarrow> 'v \<Rightarrow> bool" for succs srcs where
  walk_source: "v \<in> srcs \<Longrightarrow> walk succs srcs 0 v"
| walk_step: "walk succs srcs k u \<Longrightarrow> v \<in> set (succs u) \<Longrightarrow> walk succs srcs (Suc k) v"

inductive_cases walk_0: "walk succs srcs 0 v"
inductive_cases walk_Suc: "walk succs srcs (Suc k) v"

section \<open>The inner loop\<close>

text \<open>\<open>if neighbor in found: continue; found[neighbor] = d; queue.append(neighbor)\<close>.\<close>

definition discover :: "'d \<Rightarrow> ('v \<rightharpoonup> 'd) \<times> 'v list \<Rightarrow> 'v \<Rightarrow> ('v \<rightharpoonup> 'd) \<times> 'v list" where
  "discover d s n = (case s of (m, q) \<Rightarrow> if m n = None then (m(n \<mapsto> d), q @ [n]) else (m, q))"

definition discover_all :: "'d \<Rightarrow> ('v \<rightharpoonup> 'd) \<Rightarrow> 'v list \<Rightarrow> 'v list \<Rightarrow> ('v \<rightharpoonup> 'd) \<times> 'v list" where
  "discover_all d m q ns = foldl (discover d) (m, q) ns"

text \<open>What it does: the nodes not found yet, without repetitions, are recorded and queued.\<close>

fun fresh :: "'v set \<Rightarrow> 'v list \<Rightarrow> 'v list" where
  "fresh S [] = []"
| "fresh S (n # ns) = (if n \<in> S then fresh S ns else n # fresh (insert n S) ns)"

lemma set_fresh [simp]: "set (fresh S ns) = set ns - S"
  by (induction S ns rule: fresh.induct) auto

lemma distinct_fresh [simp]: "distinct (fresh S ns)"
  by (induction S ns rule: fresh.induct) auto

lemma discover_all_eq:
  "discover_all d m q ns = (\<lambda>n. if n \<in> set ns - dom m then Some d else m n, q @ fresh (dom m) ns)"
proof (induction ns arbitrary: m q)
  case Nil
  then show ?case by (simp add: discover_all_def)
next
  case (Cons n ns)
  have step: "discover_all d m q (n # ns) =
      (if m n = None then discover_all d (m(n \<mapsto> d)) (q @ [n]) ns else discover_all d m q ns)"
    by (simp add: discover_all_def discover_def)
  show ?case
  proof (cases "m n = None")
    case True
    then show ?thesis by (auto simp: step Cons.IH fun_eq_iff dom_def insert_Collect)
  next
    case False
    then have "n \<in> dom m" by auto
    with False show ?thesis by (auto simp: step Cons.IH fun_eq_iff)
  qed
qed

lemma discover_all_dom: "discover_all d m q ns = (m', q') \<Longrightarrow> dom m' = dom m \<union> set ns"
  by (auto simp: discover_all_eq split: if_splits)

text \<open>Taking one node and discovering its neighbours uses up nodes of a finite graph.\<close>

lemma discover_all_decreases:
  assumes "finite graph" "set ns \<subseteq> graph" "discover_all d m q ns = (m', q')"
  shows "2 * card (graph - dom m') + length q' < 2 * card (graph - dom m) + length (c # q)"
proof -
  have q': "length q' = length q + card (set ns - dom m)"
    using assms(3) distinct_card [OF distinct_fresh, of "dom m" ns] by (auto simp: discover_all_eq)
  have "graph - dom m' = (graph - dom m) - (set ns - dom m)"
    using discover_all_dom [OF assms(3)] by auto
  then have "card (graph - dom m') = card (graph - dom m) - card (set ns - dom m)"
    using assms(1,2) by (simp add: card_Diff_subset Diff_mono finite_subset)
  moreover have "card (set ns - dom m) \<le> card (graph - dom m)"
    using assms(1,2) by (intro card_mono) auto
  ultimately show ?thesis using q' by simp
qed

section \<open>The invariant\<close>

locale breadth_first =
  fixes graph :: "'v set" and succs :: "'v \<Rightarrow> 'v list" and srcs :: "'v set"
  assumes srcs_in: "srcs \<subseteq> graph"
    and succs_in: "v \<in> graph \<Longrightarrow> set (succs v) \<subseteq> graph"
begin

text \<open>\<open>depth\<close> is the depth at which a node was found; \<open>q\<close> is the queue.\<close>

definition frontier_inv :: "('v \<rightharpoonup> nat) \<Rightarrow> 'v list \<Rightarrow> bool" where
  "frontier_inv depth q \<longleftrightarrow>
     (\<forall>v k. depth v = Some k \<longrightarrow> walk succs srcs k v)
     \<and> (\<forall>v \<in> srcs. depth v = Some 0)
     \<and> set q \<subseteq> dom depth
     \<and> sorted (map (\<lambda>v. the (depth v)) q)
     \<and> (\<forall>v \<in> set q. the (depth v) \<le> Suc (the (depth (hd q))))
     \<and> (\<forall>v \<in> dom depth - set q. (\<forall>u \<in> set q. the (depth v) \<le> the (depth u))
          \<and> (\<forall>w \<in> set (succs v). w \<in> dom depth \<and> the (depth w) \<le> Suc (the (depth v))))"

lemma walk_in: "walk succs srcs k v \<Longrightarrow> v \<in> graph"
  by (induction rule: walk.induct) (use srcs_in succs_in in auto)

lemma frontier_start: "set q = srcs \<Longrightarrow> frontier_inv (\<lambda>v. if v \<in> srcs then Some 0 else None) q"
proof -
  assume q: "set q = srcs"
  let ?d = "\<lambda>v. if v \<in> srcs then Some (0 :: nat) else None"
  have "map (\<lambda>v. the (?d v)) q = replicate (length q) 0"
    using q by (simp add: map_replicate_const [symmetric])
  then have "sorted (map (\<lambda>v. the (?d v)) q)" by (simp only: sorted_replicate)
  then show "frontier_inv ?d q"
    unfolding frontier_inv_def using q by (auto simp: walk_source split: if_splits)
qed

lemma frontier_step:
  assumes inv: "frontier_inv depth (c # q)" and k: "depth c = Some k"
    and step: "discover_all (Suc k) depth q (succs c) = (depth', q')"
  shows "frontier_inv depth' q'"
proof -
  have depth': "depth' = (\<lambda>n. if n \<in> set (succs c) - dom depth then Some (Suc k) else depth n)"
    and q': "q' = q @ fresh (dom depth) (succs c)"
    using step by (auto simp: discover_all_eq)
  have walks: "\<And>v j. depth v = Some j \<Longrightarrow> walk succs srcs j v" and srcs: "\<And>v. v \<in> srcs \<Longrightarrow> depth v = Some 0"
    and q: "set q \<subseteq> dom depth" and sorted: "sorted (map (\<lambda>v. the (depth v)) q)"
    and ck: "\<And>v. v \<in> set q \<Longrightarrow> k \<le> the (depth v)" and near: "\<And>v. v \<in> set q \<Longrightarrow> the (depth v) \<le> Suc k"
    using inv k by (auto simp: frontier_inv_def)
  have passed: "\<And>v u. v \<in> dom depth - set (c # q) \<Longrightarrow> u \<in> set (c # q) \<Longrightarrow> the (depth v) \<le> the (depth u)"
    and closed: "\<And>v w. v \<in> dom depth - set (c # q) \<Longrightarrow> w \<in> set (succs v) \<Longrightarrow> w \<in> dom depth \<and> the (depth w) \<le> Suc (the (depth v))"
    using inv unfolding frontier_inv_def by blast+
  have old: "the (depth' v) = the (depth v)" if "v \<in> dom depth" for v using that by (simp add: depth')
  have new: "the (depth' v) = Suc k" if "v \<in> set (succs c) - dom depth" for v using that by (simp add: depth')
  have dom': "dom depth' = dom depth \<union> set (succs c)" using discover_all_dom [OF step] .
  have done_k: "the (depth v) \<le> k" if "v \<in> dom depth - set (c # q)" for v using passed [OF that, of c] k by simp
  have max_q: "the (depth v) \<le> Suc k" if v: "v \<in> dom depth" for v
  proof -
    consider "v = c" | "v \<in> set q" | "v \<in> dom depth - set (c # q)" using v by (metis DiffI set_ConsD)
    then show ?thesis by cases (use k near done_k [of v] in auto)
  qed
  have d: "the (depth' v) \<le> Suc k" if "v \<in> dom depth'" for v
    by (cases "v \<in> dom depth") (use that max_q [of v] old [of v] new [of v] in \<open>simp_all add: dom'\<close>)
  have q_ge: "k \<le> the (depth' v)" if "v \<in> set q'" for v
  proof (cases "v \<in> set q")
    case True
    then show ?thesis using ck [of v] old [of v] q by (simp add: subset_iff)
  next
    case False
    then show ?thesis using that new [of v] by (simp add: q')
  qed
  show ?thesis
    unfolding frontier_inv_def
  proof (intro conjI allI ballI impI)
    fix v j assume "depth' v = Some j"
    then show "walk succs srcs j v"
      using walks [of v j] walk_step [OF walks [OF k], of v] by (auto simp: depth' split: if_splits)
  next
    fix v assume "v \<in> srcs"
    then show "depth' v = Some 0" using srcs [of v] by (auto simp: depth')
  next
    show "set q' \<subseteq> dom depth'" using q by (auto simp: q' dom')
  next
    have "map (\<lambda>v. the (depth' v)) q' =
        map (\<lambda>v. the (depth v)) q @ replicate (length (fresh (dom depth) (succs c))) (Suc k)"
      using q old new by (auto simp: q' subset_iff simp flip: map_replicate_const)
    moreover have "sorted (map (\<lambda>v. the (depth v)) q @ replicate n (Suc k))" for n
      using sorted near by (auto simp: sorted_append)
    ultimately show "sorted (map (\<lambda>v. the (depth' v)) q')" by simp
  next
    fix v assume v: "v \<in> set q'"
    then have "hd q' \<in> set q'" by (cases q') auto
    then have "k \<le> the (depth' (hd q'))" by (rule q_ge)
    moreover have "v \<in> dom depth'" using v q unfolding q' dom' by (auto intro: subsetD)
    then have "the (depth' v) \<le> Suc k" by (rule d)
    ultimately show "the (depth' v) \<le> Suc (the (depth' (hd q')))" by simp
  next
    fix v u assume v: "v \<in> dom depth' - set q'" and u: "u \<in> set q'"
    have "v \<in> dom depth - set q" using v by (auto simp: q' dom')
    then have "the (depth' v) \<le> k" using k done_k [of v] old [of v] by (cases "v = c") auto
    then show "the (depth' v) \<le> the (depth' u)" using q_ge [OF u] by simp
  next
    fix v w assume v: "v \<in> dom depth' - set q'" and w: "w \<in> set (succs v)"
    have vq: "v \<in> dom depth - set q" using v by (auto simp: q' dom')
    show "w \<in> dom depth'"
      using vq w closed [of v w] by (cases "v = c") (auto simp: dom')
    show "the (depth' w) \<le> Suc (the (depth' v))"
    proof (cases "v = c")
      case True
      then have "the (depth' v) = k" using k by (simp add: depth' domI)
      then show ?thesis using d [of w] w True by (simp add: dom')
    next
      case False
      then have "w \<in> dom depth \<and> the (depth w) \<le> Suc (the (depth v))" using closed [of v w] vq w by simp
      then show ?thesis using old vq by simp
    qed
  qed
qed

lemma frontier_reaches:
  assumes inv: "frontier_inv depth q" and "walk succs srcs k v"
  shows "(v \<in> dom depth \<and> the (depth v) \<le> k) \<or> (\<exists>u \<in> set q. the (depth u) < k)"
  using assms(2)
proof (induction rule: walk.induct)
  case (walk_source v)
  then show ?case using inv by (auto simp: frontier_inv_def)
next
  case (walk_step k u v)
  from walk_step.IH show ?case
  proof
    assume u: "u \<in> dom depth \<and> the (depth u) \<le> k"
    show ?thesis
    proof (cases "u \<in> set q")
      case True
      with u show ?thesis by (metis le_imp_less_Suc)
    next
      case False
      then have "v \<in> dom depth \<and> the (depth v) \<le> Suc (the (depth u))"
        using inv u walk_step.hyps by (auto simp: frontier_inv_def)
      with u show ?thesis by auto
    qed
  next
    assume "\<exists>u \<in> set q. the (depth u) < k"
    then show ?thesis by (meson less_Suc_eq)
  qed
qed

text \<open>When the queue has run empty the distances are exact.\<close>

lemma frontier_exhausted:
  assumes "frontier_inv depth []"
  shows "depth v = Some k \<longleftrightarrow> walk succs srcs k v \<and> (\<forall>j < k. \<not> walk succs srcs j v)"
proof -
  have sound: "depth v = Some j \<Longrightarrow> walk succs srcs j v" for j using assms by (simp add: frontier_inv_def)
  have complete: "walk succs srcs j v \<Longrightarrow> \<exists>i \<le> j. depth v = Some i" for j
    using frontier_reaches [OF assms, of j v] by auto
  show ?thesis
  proof
    assume d: "depth v = Some k"
    then have "\<not> walk succs srcs j v" if "j < k" for j using complete [of j] that by auto
    with sound d show "walk succs srcs k v \<and> (\<forall>j < k. \<not> walk succs srcs j v)" by blast
  next
    assume "walk succs srcs k v \<and> (\<forall>j < k. \<not> walk succs srcs j v)"
    then show "depth v = Some k" using complete [of k] sound by (metis le_neq_implies_less)
  qed
qed

text \<open>A goal taken from the queue is a nearest goal, if none was taken before it.\<close>

lemma frontier_goal:
  assumes inv: "frontier_inv depth (c # q)" and "depth c = Some k"
    and none: "\<forall>v \<in> dom depth - set (c # q). \<not> goal v" and "goal v" "walk succs srcs j v"
  shows "k \<le> j"
proof -
  have head: "k \<le> the (depth u)" if "u \<in> set (c # q)" for u
    using inv that assms(2) by (auto simp: frontier_inv_def)
  from frontier_reaches [OF inv assms(5)] show ?thesis
    using head none assms(4) by (metis DiffI le_trans less_imp_le)
qed

lemma frontier_none:
  assumes inv: "frontier_inv depth []" and "\<forall>v \<in> dom depth. \<not> goal v" and "goal v"
  shows "\<not> walk succs srcs j v"
  using frontier_reaches [OF inv, of j v] assms(2,3) by auto

end

end
