(* ===== verification/Pathfinder.thy ===== *)
theory Pathfinder
  imports Search
begin

text \<open>
  The minefield planner (\<open>drones/iarc_pathfinder.py\<close>): mines on a grid, the clearance map, the shortest
  corridor of a given half-width, the search for the best-scoring one, scoring, and the command text.
  A Python set is given by the list of its elements in iteration order, whatever that order is; the
  clearance map handed to the path search covers the whole grid and is read as a function. Fetching
  mines from a web page, drawing and the command line are left out.
\<close>

section \<open>The grid\<close>

type_synonym cell = "int \<times> int"

definition COLS :: int where "COLS = 40"
definition ROWS :: int where "ROWS = 150"
definition CELL_FT :: int where "CELL_FT = 2"

definition in_grid :: "cell \<Rightarrow> bool" where
  "in_grid c \<longleftrightarrow> 0 \<le> fst c \<and> fst c < COLS \<and> 0 \<le> snd c \<and> snd c < ROWS"

definition grid_cells :: "cell list" where
  "grid_cells = [(x, y). x \<leftarrow> [0..COLS - 1], y \<leftarrow> [0..ROWS - 1]]"

definition grid_index :: "real \<Rightarrow> real \<Rightarrow> real \<Rightarrow> int \<Rightarrow> py_error + int" where
  "grid_index value lower_bound cell_size cell_count =
     (if cell_size = 0 then Inl ZeroDivisionError
      else
        let raw_index = py_int ((value - lower_bound) / cell_size)
        in Inr (min (max raw_index 0) (cell_count - 1)))"

text \<open>\<open>bounds\<close> is what the corner file holds, one \<open>(lat, lon)\<close> per line.\<close>

definition generate_minefield :: "(real \<times> real) list \<Rightarrow> (real \<times> real) list \<Rightarrow> py_error + cell set" where
  "generate_minefield bounds mine_locations =
     (if bounds = [] then Inl (ValueError ''min() iterable argument is empty'')
      else
        let lats = map fst bounds; lons = map snd bounds;
            min_lat = Min (set lats); max_lat = Max (set lats);
            min_lon = Min (set lons); max_lon = Max (set lons);
            delta_lat = (max_lat - min_lat) / of_int COLS;
            delta_lon = (max_lon - min_lon) / of_int ROWS
        in bindE (mapE (\<lambda>(lat, lon).
              bindE (grid_index lat min_lat delta_lat COLS) (\<lambda>idx.
              bindE (grid_index lon min_lon delta_lon ROWS) (\<lambda>idy. Inr (idx, idy)))) mine_locations)
            (\<lambda>cells. Inr (set cells)))"

section \<open>Clearance\<close>

definition neighbours8 :: "cell \<Rightarrow> cell list" where
  "neighbours8 c =
     filter in_grid [(fst c + dx, snd c + dy). dx \<leftarrow> [-1, 0, 1], dy \<leftarrow> [-1, 0, 1], \<not> (dx = 0 \<and> dy = 0)]"

lemma set_grid_cells [simp]: "set grid_cells = {c. in_grid c}"
  by (auto simp: grid_cells_def in_grid_def)

lemma finite_grid [simp]: "finite {c. in_grid c}"
  by (metis List.finite_set set_grid_cells)

lemma neighbours8_grid: "set (neighbours8 c) \<subseteq> {c. in_grid c}"
  by (simp add: neighbours8_def del: filter.simps) blast

text \<open>\<open>while queue\<close>.\<close>

function clearance_loop :: "(cell \<rightharpoonup> nat) \<Rightarrow> cell list \<Rightarrow> py_error + (cell \<rightharpoonup> nat)" where
  "clearance_loop clearance [] = Inr clearance"
| "clearance_loop clearance (c # queue) =
     (case clearance c of
        None \<Rightarrow> Inl KeyError
      | Some k \<Rightarrow>
          let (clearance', queue') = discover_all (k + 1) clearance queue (neighbours8 c)
          in clearance_loop clearance' queue')"
  by pat_completeness auto

termination
proof (relation "measure (\<lambda>(m, q). 2 * card ({c. in_grid c} - dom m) + length q)", goal_cases)
  case (2 m c q k s m' q')
  then have "discover_all (k + 1) m q (neighbours8 c) = (m', q')" by simp
  from discover_all_decreases [OF finite_grid neighbours8_grid this, of c] show ?case by simp
qed simp

definition no_mine_distance :: nat where
  "no_mine_distance = nat (max COLS ROWS + 1)"

definition compute_clearance_map :: "cell list \<Rightarrow> py_error + (cell \<rightharpoonup> nat)" where
  "compute_clearance_map mines =
     (if \<not> list_all in_grid mines then Inl (ValueError ''mine cells outside the grid'')
      else if mines = [] then Inr (\<lambda>c. if in_grid c then Some no_mine_distance else None)
      else
        bindE (clearance_loop (\<lambda>c. if c \<in> set mines then Some 0 else None) mines) (\<lambda>clearance.
          if length (filter (\<lambda>c. clearance c \<noteq> None) grid_cells) \<noteq> nat (COLS * ROWS)
          then Inl (AssertionError ''clearance map does not cover the complete grid'')
          else Inr clearance))"

section \<open>Commands\<close>

definition direction_for_delta :: "cell \<Rightarrow> char option" where
  "direction_for_delta d =
     (if d = (0, 1) then Some (CHR ''U'') else if d = (0, -1) then Some (CHR ''D'')
      else if d = (1, 0) then Some (CHR ''R'') else if d = (-1, 0) then Some (CHR ''L'') else None)"

definition move_between :: "cell \<times> cell \<Rightarrow> py_error + char" where
  "move_between step =
     (case direction_for_delta (fst (snd step) - fst (fst step), snd (snd step) - snd (fst step)) of
        None \<Rightarrow> Inl (ValueError ''path contains a non-adjacent move'')
      | Some d \<Rightarrow> Inr d)"

definition add_run :: "(char \<times> nat) list \<Rightarrow> char \<Rightarrow> (char \<times> nat) list" where
  "add_run runs d =
     (if runs \<noteq> [] \<and> fst (last runs) = d then butlast runs @ [(d, snd (last runs) + 1)] else runs @ [(d, 1)])"

fun join_lines :: "string list \<Rightarrow> string" where
  "join_lines [] = []"
| "join_lines [l] = l"
| "join_lines (l # ls) = l @ CHR 0x0A # join_lines ls"

definition command_text :: "int \<Rightarrow> nat \<Rightarrow> (char \<times> nat) list \<Rightarrow> string" where
  "command_text start_x G runs =
     join_lines ((''S,'' @ show_int start_x @ '','' @ show_nat G)
                 # map (\<lambda>(d, n). d # CHR '','' # show_nat n) runs)"

definition grid_path_to_commands :: "cell list \<Rightarrow> nat \<Rightarrow> py_error + string" where
  "grid_path_to_commands path G =
     (if path = [] then Inr []
      else if length path = 1 then Inl (ValueError ''path must contain at least one move'')
      else
        bindE (mapE move_between (zip path (tl path))) (\<lambda>moves.
          if moves \<noteq> [] \<and> (hd moves \<noteq> CHR ''U'' \<or> last moves \<noteq> CHR ''U'')
          then Inl (ValueError ''path must begin and end with an upward move'')
          else Inr (command_text (fst (hd path)) G (foldl add_run [] moves))))"

section \<open>Scoring\<close>

definition compute_green_zone :: "cell list \<Rightarrow> nat \<Rightarrow> cell set" where
  "compute_green_zone path G =
     (if G = 0 then {}
      else set [c. p \<leftarrow> path, dx \<leftarrow> [- int G..int G], dy \<leftarrow> [- int G..int G],
                   c \<leftarrow> [(fst p + dx, snd p + dy)], in_grid c \<and> c \<notin> set path])"

definition official_score :: "int \<Rightarrow> int \<Rightarrow> int \<Rightarrow> int \<Rightarrow> int \<Rightarrow> real" where
  "official_score width_ft length_ft missed_mines scan_time overweight =
     (let denominator = (1 + missed_mines) * length_ft * (1 + 7 * scan_time + 100 * overweight)
      in if denominator > 0 then 150000 * of_int width_ft / of_int denominator else 0)"

record path_score =
  score :: real
  path_length_ft :: int
  path_width_ft :: int
  n_cells :: int
  mines_on_path :: int
  mines_in_green :: int
  scan_time :: int
  dead :: bool

definition score_path :: "cell list \<Rightarrow> nat \<Rightarrow> cell list \<Rightarrow> int \<Rightarrow> int \<Rightarrow> path_score" where
  "score_path path G mines scan_time_A overweight_N =
     (let on_path = set path \<inter> set mines; in_green = compute_green_zone path G \<inter> set mines;
          B = int (card in_green); L = int (length path) * CELL_FT; W = (1 + 2 * int G) * CELL_FT
      in \<lparr>score = (if on_path \<noteq> {} then 0 else official_score W L B scan_time_A overweight_N),
          path_length_ft = L, path_width_ft = W, n_cells = int (length path),
          mines_on_path = int (card on_path), mines_in_green = B, scan_time = scan_time_A, dead = (on_path \<noteq> {})\<rparr>)"

section \<open>The shortest corridor\<close>

definition in_corridor :: "nat \<Rightarrow> (cell \<Rightarrow> nat) \<Rightarrow> cell \<Rightarrow> bool" where
  "in_corridor G clear c \<longleftrightarrow> int G \<le> fst c \<and> fst c \<le> COLS - int G - 1 \<and> 0 \<le> snd c \<and> snd c < ROWS \<and> G < clear c"

definition neighbours4 :: "nat \<Rightarrow> (cell \<Rightarrow> nat) \<Rightarrow> cell \<Rightarrow> cell list" where
  "neighbours4 G clear c =
     filter (in_corridor G clear)
       (map (\<lambda>(dx, dy). (fst c + dx, snd c + dy)) [(0, 1), (- 1, 0), (1, 0), (0, - 1)])"

definition entrances :: "nat \<Rightarrow> (cell \<Rightarrow> nat) \<Rightarrow> cell list" where
  "entrances G clear = [(x, 0). x \<leftarrow> [int G..COLS - int G - 1], G < clear (x, 0)]"

lemma in_corridor_grid: "in_corridor G clear c \<Longrightarrow> in_grid c"
  by (simp add: in_corridor_def in_grid_def)

lemma neighbours4_grid: "set (neighbours4 G clear c) \<subseteq> {c. in_grid c}"
  using in_corridor_grid by (fastforce simp: neighbours4_def simp del: filter.simps)

text \<open>\<open>came_from\<close> maps a cell to the cell it was found from, an entrance to \<open>None\<close>.\<close>

type_synonym came_from = "cell \<rightharpoonup> cell option"

function path_loop :: "nat \<Rightarrow> (cell \<Rightarrow> nat) \<Rightarrow> came_from \<Rightarrow> cell list \<Rightarrow> (cell \<times> came_from) option" where
  "path_loop G clear came [] = None"
| "path_loop G clear came (c # queue) =
     (if snd c = ROWS - 1 then Some (c, came)
      else
        let (came', queue') = discover_all (Some c) came queue (neighbours4 G clear c)
        in path_loop G clear came' queue')"
  by pat_completeness auto

termination
proof (relation "measure (\<lambda>(G, clear, m, q). 2 * card ({c. in_grid c} - dom m) + length q)", goal_cases)
  case (2 G clear m c q s m' q')
  then have "discover_all (Some c) m q (neighbours4 G clear c) = (m', q')" by simp
  from discover_all_decreases [OF finite_grid neighbours4_grid this, of c] show ?case by simp
qed simp

text \<open>\<open>while current is not None\<close>; \<open>None\<close> stands for a loop that does not end or a missing key.\<close>

partial_function (option) trace_back :: "came_from \<Rightarrow> cell \<Rightarrow> cell list \<Rightarrow> cell list option" where
  "trace_back came current path =
     (case came current of
        None \<Rightarrow> None
      | Some None \<Rightarrow> Some (current # path)
      | Some (Some p) \<Rightarrow> trace_back came p (current # path))"

text \<open>The outer option says whether the search returns, the inner one is what it returns.\<close>

definition shortest_safe_path :: "(cell \<Rightarrow> nat) \<Rightarrow> nat \<Rightarrow> cell list option option" where
  "shortest_safe_path clear G =
     (if int G > COLS - int G - 1 then Some None
      else if entrances G clear = [] then Some None
      else
        case path_loop G clear (\<lambda>c. if c \<in> set (entrances G clear) then Some None else None) (entrances G clear) of
          None \<Rightarrow> Some None
        | Some (c, came) \<Rightarrow> map_option Some (trace_back came c []))"

section \<open>The best corridor\<close>

record best =
  best_score :: real
  best_path :: "cell list option"
  best_G :: nat
  best_clearance :: nat

definition candidate_score :: "nat \<Rightarrow> cell list \<Rightarrow> int \<Rightarrow> real" where
  "candidate_score G path minutes =
     official_score ((1 + 2 * int G) * CELL_FT) (int (length path) * CELL_FT) 0 minutes 0"

fun best_loop :: "(cell \<Rightarrow> nat) \<Rightarrow> int \<Rightarrow> nat list \<Rightarrow> best \<Rightarrow> best option" where
  "best_loop clear minutes [] b = Some b"
| "best_loop clear minutes (G # Gs) b =
     (case shortest_safe_path clear G of
        None \<Rightarrow> None
      | Some None \<Rightarrow> best_loop clear minutes Gs b
      | Some (Some path) \<Rightarrow>
          best_loop clear minutes Gs
            (if candidate_score G path minutes > best_score b
             then \<lparr>best_score = candidate_score G path minutes, best_path = Some path, best_G = G,
                   best_clearance = Min (set (map clear path))\<rparr>
             else b))"

definition find_best_path :: "cell list \<Rightarrow> int \<Rightarrow> py_error + best option" where
  "find_best_path mines minutes =
     bindE (compute_clearance_map mines) (\<lambda>clearance.
       Inr (best_loop (\<lambda>c. the (clearance c)) minutes [0..<nat ((COLS - 1) div 2 + 1)]
         \<lparr>best_score = 0, best_path = None, best_G = 0, best_clearance = 0\<rparr>))"

end
