(* ===== verification/Pathfinder_Properties.thy ===== *)
theory Pathfinder_Properties
  imports Pathfinder
begin

text \<open>
  What the planner guarantees: the clearance map is the Chebyshev distance to the nearest mine, a corridor
  search is sound, complete and shortest, the chosen plan has the best score of all corridors, and
  its command text flies exactly the planned cells.
\<close>

section \<open>The clearance map\<close>

definition cheb :: "cell \<Rightarrow> cell \<Rightarrow> int" where
  "cheb a b = max \<bar>fst a - fst b\<bar> \<bar>snd a - snd b\<bar>"

lemma neighbours8_iff: "v \<in> set (neighbours8 u) \<longleftrightarrow> in_grid v \<and> cheb u v = 1"
proof -
  have "v \<in> set (neighbours8 u) \<longleftrightarrow> in_grid v \<and>
      (\<exists>dx \<in> {-1, 0, 1}. \<exists>dy \<in> {-1, 0, 1}. \<not> (dx = 0 \<and> dy = 0) \<and> v = (fst u + dx, snd u + dy))"
    by (simp add: neighbours8_def del: filter.simps) blast
  also have "\<dots> \<longleftrightarrow> in_grid v \<and> cheb u v = 1"
  proof (intro conj_cong refl iffI)
    assume "\<exists>dx \<in> {-1, 0, 1}. \<exists>dy \<in> {-1, 0, 1}. \<not> (dx = 0 \<and> dy = 0) \<and> v = (fst u + dx, snd u + dy)"
    then show "cheb u v = 1" by (auto simp: cheb_def)
  next
    assume one: "cheb u v = 1"
    let ?dx = "fst v - fst u" and ?dy = "snd v - snd u"
    have unit: "z \<in> {-1, 0, 1}" if "\<bar>z\<bar> \<le> 1" for z :: int using that by auto
    have "?dx \<in> {-1, 0, 1}" "?dy \<in> {-1, 0, 1}" using one by (intro unit; simp add: cheb_def)+
    moreover have "\<not> (?dx = 0 \<and> ?dy = 0)" using one by (auto simp: cheb_def)
    ultimately show "\<exists>dx \<in> {-1, 0, 1}. \<exists>dy \<in> {-1, 0, 1}. \<not> (dx = 0 \<and> dy = 0) \<and> v = (fst u + dx, snd u + dy)"
      by (intro bexI [of _ ?dx] bexI [of _ ?dy]) simp_all
  qed
  finally show ?thesis .
qed

lemma cheb_0_iff: "cheb a b = 0 \<longleftrightarrow> a = b"
  by (cases a; cases b) (auto simp: cheb_def)

lemma cheb_nonneg [simp]: "0 \<le> cheb a b"
  by (simp add: cheb_def)

lemma cheb_triangle: "cheb a c \<le> cheb a b + cheb b c"
  by (simp add: cheb_def) linarith

interpretation clearance: breadth_first "{c. in_grid c}" neighbours8 "srcs \<inter> {c. in_grid c}" for srcs
  by standard (use neighbours8_grid in auto)

lemma walk8_bound: "walk neighbours8 srcs k v \<Longrightarrow> \<exists>m \<in> srcs. cheb m v \<le> int k"
proof (induction rule: walk.induct)
  case (walk_source v)
  then show ?case by (auto intro!: bexI [of _ v] simp: cheb_0_iff [THEN iffD2])
next
  case (walk_step k u v)
  then obtain m where "m \<in> srcs" "cheb m u \<le> int k" "cheb u v = 1" by (auto simp: neighbours8_iff)
  then show ?case using cheb_triangle [of m v u] by force
qed

lemma step_towards:
  assumes "in_grid m" "in_grid v" "cheb m v = int (Suc k)"
  shows "\<exists>u. in_grid u \<and> cheb m u = int k \<and> v \<in> set (neighbours8 u)"
proof -
  obtain mx my vx vy where m: "m = (mx, my)" and v: "v = (vx, vy)" by (cases m, cases v)
  let ?u = "(vx - sgn (vx - mx), vy - sgn (vy - my))"
  have "in_grid ?u" using assms by (auto simp: m v in_grid_def sgn_if split: if_splits)
  moreover have "cheb m ?u = int k" using assms by (auto simp: m v cheb_def sgn_if max_def split: if_splits)
  moreover have "cheb ?u v = 1" using assms by (auto simp: m v cheb_def sgn_if max_def split: if_splits)
  ultimately show ?thesis using assms(2) neighbours8_iff by blast
qed

lemma walk8_exists:
  "m \<in> srcs \<Longrightarrow> in_grid m \<Longrightarrow> in_grid v \<Longrightarrow> cheb m v = int k \<Longrightarrow> walk neighbours8 srcs k v"
proof (induction k arbitrary: v)
  case 0
  then have "m = v" by (simp add: cheb_0_iff)
  with 0 show ?case by (auto intro: walk_source)
next
  case (Suc k)
  then obtain u where "in_grid u" "cheb m u = int k" "v \<in> set (neighbours8 u)" using step_towards by blast
  with Suc show ?case by (blast intro: walk_step)
qed

text \<open>The loop never misses a key, and leaves the exact depths.\<close>

lemma clearance_loop_exact:
  assumes "clearance.frontier_inv srcs m q"
  shows "\<exists>m'. clearance_loop m q = Inr m' \<and> clearance.frontier_inv srcs m' []"
  using assms
proof (induction m q rule: clearance_loop.induct)
  case (1 m)
  then show ?case by simp
next
  case (2 m c q)
  then obtain k where k: "m c = Some k" by (auto simp: clearance.frontier_inv_def)
  obtain m' q' where step: "discover_all (Suc k) m q (neighbours8 c) = (m', q')" by (cases "discover_all (Suc k) m q (neighbours8 c)")
  have "clearance.frontier_inv srcs m' q'" using clearance.frontier_step [OF 2(2) k step] .
  with 2(1) k step show ?case by simp
qed

definition clearance_of :: "cell list \<Rightarrow> cell \<Rightarrow> nat \<Rightarrow> bool" where
  "clearance_of mines c k \<longleftrightarrow>
     (if mines = [] then k = no_mine_distance
      else (\<exists>m \<in> set mines. cheb m c = int k) \<and> (\<forall>m \<in> set mines. int k \<le> cheb m c))"

lemma length_grid_cells: "length grid_cells = nat (COLS * ROWS)"
proof -
  have "length grid_cells = sum_list (map (\<lambda>x. length [0..ROWS - 1]) [0..COLS - 1])"
    by (simp add: grid_cells_def length_concat comp_def)
  also have "\<dots> = nat (COLS * ROWS)" by (simp add: COLS_def ROWS_def sum_list_triv)
  finally show ?thesis .
qed

lemma clearance_map_correct:
  assumes "list_all in_grid mines"
  shows "\<exists>D. compute_clearance_map mines = Inr D \<and> (\<forall>c. in_grid c \<longrightarrow> (\<exists>k. D c = Some k \<and> clearance_of mines c k))"
proof (cases "mines = []")
  case True
  then show ?thesis by (simp add: compute_clearance_map_def clearance_of_def)
next
  case False
  let ?S = "set mines"
  have grid: "?S \<inter> {c. in_grid c} = ?S" using assms by (auto simp: list_all_iff)
  have "clearance.frontier_inv ?S (\<lambda>c. if c \<in> ?S then Some 0 else None) mines"
    using clearance.frontier_start [of mines ?S] by (simp add: grid)
  then obtain D where D: "clearance_loop (\<lambda>c. if c \<in> ?S then Some 0 else None) mines = Inr D"
    and inv: "clearance.frontier_inv ?S D []" using clearance_loop_exact by blast
  have exact: "D c = Some k \<longleftrightarrow> walk neighbours8 ?S k c \<and> (\<forall>j < k. \<not> walk neighbours8 ?S j c)" for c k
    using clearance.frontier_exhausted [OF inv, of c k] by (simp add: grid)
  have all: "\<exists>k. D c = Some k \<and> clearance_of mines c k" if c: "in_grid c" for c
  proof -
    define k where "k = nat (Min ((\<lambda>m. cheb m c) ` ?S))"
    have fin: "finite ((\<lambda>m. cheb m c) ` ?S)" "(\<lambda>m. cheb m c) ` ?S \<noteq> {}" using False by auto
    obtain m where m: "m \<in> ?S" "cheb m c = Min ((\<lambda>m. cheb m c) ` ?S)" using Min_in [OF fin] by auto
    then have mk: "cheb m c = int k" using cheb_nonneg [of m c] by (simp add: k_def)
    have low: "int k \<le> cheb x c" if "x \<in> ?S" for x using Min_le [OF fin(1), of "cheb x c"] that m mk by auto
    have "walk neighbours8 ?S k c" using walk8_exists [OF m(1) _ c mk] m(1) assms by (auto simp: list_all_iff)
    moreover have "\<not> walk neighbours8 ?S j c" if "j < k" for j
      using walk8_bound [of ?S j c] low that by fastforce
    ultimately have "D c = Some k" using exact by blast
    then show ?thesis using m mk low False by (auto simp: clearance_of_def)
  qed
  then have "filter (\<lambda>c. D c \<noteq> None) grid_cells = grid_cells" by (intro filter_True) auto
  then have "compute_clearance_map mines = Inr D"
    using assms False D by (simp add: compute_clearance_map_def length_grid_cells)
  with all show ?thesis by blast
qed

text \<open>
  The clearance map is exact. Whatever the order in which the mines are listed, mines off the grid
  are refused, and otherwise the search ends, misses no cell (its assertion never fires) and gives
  every cell of the grid its Chebyshev distance to the nearest mine, or the out-of-range value when
  there is no mine.
\<close>

theorem clearance_map_exact:
  "if list_all in_grid mines
   then \<exists>D. compute_clearance_map mines = Inr D
          \<and> (\<forall>x \<in> {0..<COLS}. \<forall>y \<in> {0..<ROWS}. \<exists>k. D (x, y) = Some k \<and>
                (if mines = [] then k = nat (ROWS + 1)
                 else (\<exists>m \<in> set mines. cheb m (x, y) = int k) \<and> (\<forall>m \<in> set mines. int k \<le> cheb m (x, y))))
   else \<exists>e. compute_clearance_map mines = Inl (ValueError e)"
proof (cases "list_all in_grid mines")
  case True
  from clearance_map_correct [OF this] obtain D where "compute_clearance_map mines = Inr D"
    and D: "\<forall>c. in_grid c \<longrightarrow> (\<exists>k. D c = Some k \<and> clearance_of mines c k)" by blast
  moreover have "\<forall>x \<in> {0..<COLS}. \<forall>y \<in> {0..<ROWS}. \<exists>k. D (x, y) = Some k \<and>
      (if mines = [] then k = nat (ROWS + 1)
       else (\<exists>m \<in> set mines. cheb m (x, y) = int k) \<and> (\<forall>m \<in> set mines. int k \<le> cheb m (x, y)))"
  proof (intro ballI)
    fix x y assume "x \<in> {0..<COLS}" "y \<in> {0..<ROWS}"
    then have "in_grid (x, y)" by (simp add: in_grid_def)
    then obtain k where "D (x, y) = Some k" "clearance_of mines (x, y) k" using D by blast
    moreover have "no_mine_distance = nat (ROWS + 1)" by (simp add: no_mine_distance_def COLS_def ROWS_def)
    ultimately show "\<exists>k. D (x, y) = Some k \<and>
      (if mines = [] then k = nat (ROWS + 1)
       else (\<exists>m \<in> set mines. cheb m (x, y) = int k) \<and> (\<forall>m \<in> set mines. int k \<le> cheb m (x, y)))"
      by (intro exI [of _ k]) (simp add: clearance_of_def)
  qed
  ultimately show ?thesis using True by auto
next
  case False
  then show ?thesis by (simp add: compute_clearance_map_def)
qed

theorem clearance_map_exact_witness:
  "\<exists>D k. compute_clearance_map [(3, 4), (10, 4)] = Inr D \<and> D (5, 4) = Some k \<and> int k \<le> 2"
proof -
  have "list_all in_grid [(3, 4), (10, 4)]" by (simp add: in_grid_def COLS_def ROWS_def)
  then obtain D where D: "compute_clearance_map [(3, 4), (10, 4)] = Inr D"
    "\<forall>x \<in> {0..<COLS}. \<forall>y \<in> {0..<ROWS}. \<exists>k. D (x, y) = Some k \<and> (\<forall>m \<in> set [(3, 4), (10, 4)]. int k \<le> cheb m (x, y))"
    using clearance_map_exact [of "[(3, 4), (10, 4)]"] by fastforce
  then obtain k where "D (5, 4) = Some k" "int k \<le> cheb (3, 4) (5, 4)" by (force simp: COLS_def ROWS_def)
  then show ?thesis using D(1) by (auto simp: cheb_def)
qed

section \<open>Corridors\<close>

definition beside :: "cell \<Rightarrow> cell \<Rightarrow> bool" where
  "beside a b \<longleftrightarrow> \<bar>fst a - fst b\<bar> + \<bar>snd a - snd b\<bar> = 1"

text \<open>A route of half-width \<open>G\<close> from the bottom row to the top row.\<close>

definition trail :: "nat \<Rightarrow> (cell \<Rightarrow> nat) \<Rightarrow> cell list \<Rightarrow> bool" where
  "trail G clear p \<longleftrightarrow> p \<noteq> [] \<and> snd (hd p) = 0 \<and> list_all (in_corridor G clear) p \<and> successively beside p"

definition route :: "nat \<Rightarrow> (cell \<Rightarrow> nat) \<Rightarrow> cell list \<Rightarrow> bool" where
  "route G clear p \<longleftrightarrow> trail G clear p \<and> snd (last p) = ROWS - 1"

lemma neighbours4_iff: "v \<in> set (neighbours4 G clear u) \<longleftrightarrow> in_corridor G clear v \<and> beside u v"
proof -
  have "v \<in> set (neighbours4 G clear u) \<longleftrightarrow> in_corridor G clear v \<and>
      v \<in> {(fst u, snd u + 1), (fst u - 1, snd u), (fst u + 1, snd u), (fst u, snd u - 1)}"
    by (auto simp: neighbours4_def simp del: filter.simps)
  also have "v \<in> {(fst u, snd u + 1), (fst u - 1, snd u), (fst u + 1, snd u), (fst u, snd u - 1)} \<longleftrightarrow> beside u v"
    by (cases u; cases v) (simp add: beside_def; arith)
  finally show ?thesis .
qed

lemma entrances_iff: "c \<in> set (entrances G clear) \<longleftrightarrow> in_corridor G clear c \<and> snd c = 0"
  by (cases c) (auto simp: entrances_def in_corridor_def ROWS_def)

interpretation corridor: breadth_first "{c. in_grid c}" "neighbours4 G clear" "set (entrances G clear)" for G clear
  by standard (use neighbours4_grid in_corridor_grid in \<open>auto simp: entrances_iff\<close>)

abbreviation corridor_walk :: "nat \<Rightarrow> (cell \<Rightarrow> nat) \<Rightarrow> nat \<Rightarrow> cell \<Rightarrow> bool" where
  "corridor_walk G clear \<equiv> walk (neighbours4 G clear) (set (entrances G clear))"

lemma trail_snoc:
  "trail G clear (p @ [v]) \<longleftrightarrow>
     (if p = [] then v \<in> set (entrances G clear) else trail G clear p \<and> v \<in> set (neighbours4 G clear (last p)))"
  by (auto simp: trail_def entrances_iff neighbours4_iff successively_append_iff hd_append)

lemma trail_walk: "trail G clear p \<Longrightarrow> corridor_walk G clear (length p - 1) (last p)"
proof (induction p rule: rev_induct)
  case Nil
  then show ?case by (simp add: trail_def)
next
  case (snoc v p)
  show ?case
  proof (cases "p = []")
    case True
    then show ?thesis using snoc.prems trail_snoc [of G clear p v] by (auto intro: walk_source)
  next
    case False
    with snoc have "corridor_walk G clear (length p - 1) (last p)" "v \<in> set (neighbours4 G clear (last p))"
      using trail_snoc [of G clear p v] by auto
    then have "corridor_walk G clear (Suc (length p - 1)) v" by (rule walk_step)
    then show ?thesis using False by (cases p) simp_all
  qed
qed

text \<open>\<open>came_from\<close> holds a parent one step closer for every cell found.\<close>

definition parents_ok :: "nat \<Rightarrow> (cell \<Rightarrow> nat) \<Rightarrow> came_from \<Rightarrow> (cell \<rightharpoonup> nat) \<Rightarrow> bool" where
  "parents_ok G clear came depth \<longleftrightarrow> dom came = dom depth
     \<and> (\<forall>v. came v = Some None \<longrightarrow> v \<in> set (entrances G clear) \<and> depth v = Some 0)
     \<and> (\<forall>v p. came v = Some (Some p) \<longrightarrow> v \<in> set (neighbours4 G clear p) \<and>
          (\<exists>k. depth p = Some k \<and> depth v = Some (Suc k)))"

lemma parents_found:
  assumes "parents_ok G clear came depth" "depth v = Some k"
  obtains (source) "came v = Some None" "v \<in> set (entrances G clear)" "k = 0"
  | (found) p j where "came v = Some (Some p)" "v \<in> set (neighbours4 G clear p)" "depth p = Some j" "k = Suc j"
proof -
  have "v \<in> dom came" using assms by (simp add: parents_ok_def domI)
  then obtain o1 where o1: "came v = Some o1" by blast
  show thesis
  proof (cases o1)
    case None
    then have "v \<in> set (entrances G clear) \<and> depth v = Some 0" using assms(1) o1 unfolding parents_ok_def by blast
    then show thesis using source None o1 assms(2) by simp
  next
    case (Some p)
    then have "v \<in> set (neighbours4 G clear p) \<and> (\<exists>j. depth p = Some j \<and> depth v = Some (Suc j))"
      using assms(1) o1 unfolding parents_ok_def by blast
    then obtain j where "v \<in> set (neighbours4 G clear p)" "depth p = Some j" "depth v = Some (Suc j)" by blast
    then show thesis using found [of p j] Some o1 assms(2) by simp
  qed
qed

lemma parents_step:
  assumes ok: "parents_ok G clear came depth" and k: "depth c = Some k"
    and came: "discover_all (Some c) came q (neighbours4 G clear c) = (came', q')"
    and depth: "discover_all (Suc k) depth q (neighbours4 G clear c) = (depth', q'')"
  shows "parents_ok G clear came' depth'" "q'' = q'"
proof -
  have dom: "dom came = dom depth" using ok by (simp add: parents_ok_def)
  then show "q'' = q'" using came depth by (simp add: discover_all_eq)
  have came': "came' = (\<lambda>n. if n \<in> set (neighbours4 G clear c) - dom depth then Some (Some c) else came n)"
    and depth': "depth' = (\<lambda>n. if n \<in> set (neighbours4 G clear c) - dom depth then Some (Suc k) else depth n)"
    using came depth dom by (auto simp: discover_all_eq)
  have keep: "depth' p = Some j" if "depth p = Some j" for p j using that by (simp add: depth' domI)
  show "parents_ok G clear came' depth'"
    unfolding parents_ok_def
  proof (intro conjI allI impI)
    show "dom came' = dom depth'" using dom by (auto simp: came' depth' dom_def)
  next
    fix v assume "came' v = Some None"
    then have "came v = Some None" by (simp add: came' split: if_splits)
    then have "v \<in> set (entrances G clear) \<and> depth v = Some 0" using ok unfolding parents_ok_def by blast
    then show "v \<in> set (entrances G clear)" "depth' v = Some 0" using keep by simp_all
  next
    fix v p assume v: "came' v = Some (Some p)"
    show "v \<in> set (neighbours4 G clear p)"
    proof (cases "v \<in> set (neighbours4 G clear c) - dom depth")
      case True
      then show ?thesis using v by (simp add: came')
    next
      case False
      then have "came v = Some (Some p)" using v by (simp only: came' if_False)
      then show ?thesis using ok unfolding parents_ok_def by blast
    qed
    show "\<exists>j. depth' p = Some j \<and> depth' v = Some (Suc j)"
    proof (cases "v \<in> set (neighbours4 G clear c) - dom depth")
      case True
      then have "p = c" using v by (simp add: came')
      then show ?thesis using True k keep [of c k] by (auto simp: depth')
    next
      case False
      then have "came v = Some (Some p)" using v by (simp only: came' if_False)
      then show ?thesis using ok keep unfolding parents_ok_def by blast
    qed
  qed
qed

lemma trace_back_trail:
  assumes "parents_ok G clear came depth"
  shows "depth c = Some k \<Longrightarrow>
    \<exists>p. trace_back came c acc = Some (p @ acc) \<and> trail G clear p \<and> last p = c \<and> length p = Suc k"
proof (induction k arbitrary: c acc)
  case (0 c acc)
  with assms have c: "came c = Some None" "c \<in> set (entrances G clear)" by (auto elim: parents_found)
  then have "trail G clear [c]" using trail_snoc [of G clear "[]" c] by simp
  then show ?case by (intro exI [of _ "[c]"]) (simp add: trace_back.simps [of came c] c)
next
  case (Suc k c acc)
  from assms Suc.prems obtain u where c: "came c = Some (Some u)" and u: "c \<in> set (neighbours4 G clear u)" "depth u = Some k"
    by (auto elim: parents_found)
  from Suc.IH [OF u(2), of "c # acc"] obtain p where p: "trace_back came u (c # acc) = Some (p @ c # acc)"
    "trail G clear p" "last p = u" "length p = Suc k" by blast
  then have "trail G clear (p @ [c])" using u(1) trail_snoc [of G clear p c] by (auto simp: trail_def)
  then show ?case using p c by (intro exI [of _ "p @ [c]"]) (simp add: trace_back.simps [of came c])
qed

lemma path_loop_correct:
  assumes "corridor.frontier_inv G clear depth q" "parents_ok G clear came depth"
    and "\<forall>v \<in> dom depth - set q. snd v \<noteq> ROWS - 1"
  shows "case path_loop G clear came q of
      None \<Rightarrow> \<forall>v j. snd v = ROWS - 1 \<longrightarrow> \<not> corridor_walk G clear j v
    | Some (c, came') \<Rightarrow> snd c = ROWS - 1 \<and> (\<exists>depth' k. parents_ok G clear came' depth' \<and> depth' c = Some k
        \<and> (\<forall>v j. snd v = ROWS - 1 \<longrightarrow> corridor_walk G clear j v \<longrightarrow> k \<le> j))"
  using assms
proof (induction G clear came q arbitrary: depth rule: path_loop.induct)
  case (1 G clear came)
  then show ?case using corridor.frontier_none [OF 1(1), of "\<lambda>v. snd v = ROWS - 1"] by auto
next
  case (2 G clear came c q)
  obtain k where k: "depth c = Some k" using 2(2) by (auto simp: corridor.frontier_inv_def)
  show ?case
  proof (cases "snd c = ROWS - 1")
    case True
    have "\<forall>v j. snd v = ROWS - 1 \<longrightarrow> corridor_walk G clear j v \<longrightarrow> k \<le> j"
      using corridor.frontier_goal [OF 2(2) k, of "\<lambda>v. snd v = ROWS - 1"] 2(4) by auto
    with True 2(3) k show ?thesis by auto
  next
    case False
    obtain came' q' where came: "discover_all (Some c) came q (neighbours4 G clear c) = (came', q')"
      by (cases "discover_all (Some c) came q (neighbours4 G clear c)")
    obtain depth' q'' where depth: "discover_all (Suc k) depth q (neighbours4 G clear c) = (depth', q'')"
      by (cases "discover_all (Suc k) depth q (neighbours4 G clear c)")
    note next_ok = parents_step [OF 2(3) k came depth]
    have inv: "corridor.frontier_inv G clear depth' q'"
      using corridor.frontier_step [OF 2(2) k depth] next_ok(2) by simp
    have dom: "dom came = dom depth" using 2(3) by (simp add: parents_ok_def)
    have "v \<noteq> c \<longrightarrow> v \<in> dom depth - set (c # q)" if "v \<in> dom depth' - set q'" for v
      using that came discover_all_dom [OF depth] dom by (auto simp: discover_all_eq)
    then have "\<forall>v \<in> dom depth' - set q'. snd v \<noteq> ROWS - 1" using 2(4) False by blast
    from 2(1) [OF False came [symmetric] _ inv next_ok(1) this] show ?thesis
      using False came by simp
  qed
qed

lemma corridor_parts: "in_corridor G clear c \<Longrightarrow> int G \<le> COLS - int G - 1"
  by (simp add: in_corridor_def)

lemma shortest_path_correct:
  "\<exists>r. shortest_safe_path clear G = Some r \<and>
     (case r of None \<Rightarrow> \<forall>p. \<not> route G clear p
      | Some p \<Rightarrow> route G clear p \<and> (\<forall>p'. route G clear p' \<longrightarrow> length p \<le> length p'))"
proof (cases "int G > COLS - int G - 1 \<or> entrances G clear = []")
  case True
  have "\<not> trail G clear p" for p
  proof
    assume p: "trail G clear p"
    then have "hd p \<in> set p" "in_corridor G clear (hd p)" by (auto simp: trail_def list_all_iff)
    then have "hd p \<in> set (entrances G clear)" "int G \<le> COLS - int G - 1"
      using p corridor_parts by (auto simp: entrances_iff trail_def)
    with True show False by auto
  qed
  then show ?thesis using True by (auto simp: shortest_safe_path_def route_def)
next
  case False
  let ?E = "entrances G clear"
  let ?came = "\<lambda>c. if c \<in> set ?E then Some None else None"
  let ?depth = "\<lambda>c. if c \<in> set ?E then Some (0 :: nat) else None"
  have start: "corridor.frontier_inv G clear ?depth ?E" by (rule corridor.frontier_start) simp
  have "parents_ok G clear ?came ?depth" by (auto simp: parents_ok_def split: if_splits)
  moreover have "\<forall>v \<in> dom ?depth - set ?E. snd v \<noteq> ROWS - 1" by (auto split: if_splits)
  ultimately have loop: "case path_loop G clear ?came ?E of
      None \<Rightarrow> \<forall>v j. snd v = ROWS - 1 \<longrightarrow> \<not> corridor_walk G clear j v
    | Some (c, came') \<Rightarrow> snd c = ROWS - 1 \<and> (\<exists>depth' k. parents_ok G clear came' depth' \<and> depth' c = Some k
        \<and> (\<forall>v j. snd v = ROWS - 1 \<longrightarrow> corridor_walk G clear j v \<longrightarrow> k \<le> j))"
    using path_loop_correct [OF start, of ?came] by blast
  have walks: "corridor_walk G clear (length p' - 1) (last p') \<and> snd (last p') = ROWS - 1 \<and> p' \<noteq> []"
    if "route G clear p'" for p'
    using that trail_walk [of G clear p'] by (auto simp: route_def trail_def)
  show ?thesis
  proof (cases "path_loop G clear ?came ?E")
    case None
    then have "shortest_safe_path clear G = Some None" using False by (simp add: shortest_safe_path_def)
    moreover have "\<forall>v j. snd v = ROWS - 1 \<longrightarrow> \<not> corridor_walk G clear j v" using loop None by (simp only: option.case)
    then have "\<not> route G clear p" for p using walks by blast
    ultimately show ?thesis by (intro exI [of _ None]) simp
  next
    case (Some r)
    then obtain c came' where r: "path_loop G clear ?came ?E = Some (c, came')" by (cases r) simp
    with loop obtain depth' k where c: "snd c = ROWS - 1" and ok: "parents_ok G clear came' depth'" "depth' c = Some k"
      and least: "\<And>v j. snd v = ROWS - 1 \<Longrightarrow> corridor_walk G clear j v \<Longrightarrow> k \<le> j" by auto
    from trace_back_trail [OF ok, of "[]"] obtain p where p: "trace_back came' c [] = Some p" "trail G clear p"
      "last p = c" "length p = Suc k" by auto
    have "length p \<le> length p'" if "route G clear p'" for p'
      using walks [OF that] least [of "last p'" "length p' - 1"] p(4) by (cases p') auto
    moreover have "shortest_safe_path clear G = Some (Some p)" using False r p(1) by (simp add: shortest_safe_path_def)
    ultimately show ?thesis using p c by (intro exI [of _ "Some p"]) (auto simp: route_def)
  qed
qed

lemma straight_route:
  assumes "int G \<le> x" "x \<le> COLS - int G - 1" "\<And>y. 0 \<le> y \<Longrightarrow> y < ROWS \<Longrightarrow> G < clear (x, y)"
  shows "route G clear (map (\<lambda>y. (x, int y)) [0..<nat ROWS])" (is "route G clear ?q")
proof -
  have "successively beside ?q" by (auto simp: successively_conv_nth beside_def)
  moreover have "hd ?q = (x, 0)" "last ?q = (x, ROWS - 1)" by (simp_all add: ROWS_def hd_map last_map)
  moreover have "list_all (in_corridor G clear) ?q" using assms by (auto simp: list_all_iff in_corridor_def)
  moreover have "?q \<noteq> []" by (simp add: ROWS_def)
  ultimately show ?thesis by (simp add: route_def trail_def)
qed

text \<open>
  The corridor search is sound, complete and optimal. For every clearance map and half-width it ends:
  with a path exactly if some route exists that goes step by step from the bottom to the top row
  inside the margins and clear of mines, and the path it returns is such a route of least length.
\<close>

theorem shortest_safe_path_optimal:
  "case shortest_safe_path clear G of
     None \<Rightarrow> False
   | Some None \<Rightarrow> \<forall>p. \<not> route G clear p
   | Some (Some p) \<Rightarrow> route G clear p \<and> (\<forall>p'. route G clear p' \<longrightarrow> length p \<le> length p')"
  using shortest_path_correct [of clear G] by (auto split: option.splits)

theorem shortest_safe_path_optimal_witness:
  "\<exists>p. shortest_safe_path (\<lambda>c. 5) 2 = Some (Some p) \<and> length p \<le> nat ROWS"
proof -
  have q: "route 2 (\<lambda>c. 5) (map (\<lambda>y. (10, int y)) [0..<nat ROWS])"
    by (rule straight_route) (simp_all add: COLS_def)
  obtain r where r: "shortest_safe_path (\<lambda>c. 5) 2 = Some r"
    using shortest_safe_path_optimal [where G = 2 and clear = "\<lambda>c. 5"] by (cases "shortest_safe_path (\<lambda>c. 5) 2") auto
  then obtain p where "r = Some p" "\<forall>p'. route 2 (\<lambda>c. 5) p' \<longrightarrow> length p \<le> length p'"
    using q shortest_safe_path_optimal [where G = 2 and clear = "\<lambda>c. 5"] by (cases r) auto
  with r q show ?thesis by force
qed

section \<open>The best plan\<close>

definition plan_safe :: "cell list \<Rightarrow> nat \<Rightarrow> cell list \<Rightarrow> bool" where
  "plan_safe mines G p \<longleftrightarrow> p \<noteq> [] \<and> snd (hd p) = 0 \<and> snd (last p) = ROWS - 1 \<and> successively beside p
     \<and> (\<forall>c \<in> set p. int G \<le> fst c \<and> fst c \<le> COLS - int G - 1 \<and> 0 \<le> snd c \<and> snd c < ROWS
          \<and> (\<forall>m \<in> set mines. int G < cheb m c))"

lemma route_iff_plan_safe:
  assumes clear: "\<And>c. in_grid c \<Longrightarrow> clearance_of mines c (clear c)"
  shows "route G clear p \<longleftrightarrow> plan_safe mines G p"
proof -
  have "in_corridor G clear c \<longleftrightarrow> int G \<le> fst c \<and> fst c \<le> COLS - int G - 1 \<and> 0 \<le> snd c \<and> snd c < ROWS
      \<and> (\<forall>m \<in> set mines. int G < cheb m c)" (is "?L = ?R") for c
  proof (cases "int G \<le> fst c \<and> fst c \<le> COLS - int G - 1 \<and> 0 \<le> snd c \<and> snd c < ROWS")
    case True
    then have "clearance_of mines c (clear c)" by (intro clear) (simp add: in_grid_def)
    moreover have "G < no_mine_distance" using True by (simp add: no_mine_distance_def COLS_def ROWS_def)
    ultimately have "G < clear c \<longleftrightarrow> (\<forall>m \<in> set mines. int G < cheb m c)"
      by (auto simp: clearance_of_def split: if_splits)
    with True show ?thesis by (simp add: in_corridor_def)
  next
    case False
    then show ?thesis by (auto simp: in_corridor_def)
  qed
  then show ?thesis by (auto simp: route_def trail_def plan_safe_def list_all_iff)
qed

lemma plan_safe_score:
  assumes "plan_safe mines G p"
  shows "score_path p G mines A 0 =
    \<lparr>score = candidate_score G p A, path_length_ft = int (length p) * CELL_FT, path_width_ft = (1 + 2 * int G) * CELL_FT,
     n_cells = int (length p), mines_on_path = 0, mines_in_green = 0, scan_time = A, dead = False\<rparr>"
proof -
  have far: "int G < cheb m c" if "c \<in> set p" "m \<in> set mines" for c m using assms that by (simp add: plan_safe_def)
  have on: "set p \<inter> set mines = {}" using far [of c c for c] cheb_0_iff [of c c for c] by fastforce
  have near: "\<exists>p' \<in> set p. cheb c p' \<le> int G" if "c \<in> compute_green_zone p G" for c
    using that by (auto simp: compute_green_zone_def cheb_def split: if_splits intro!: bexI)
  have green: "compute_green_zone p G \<inter> set mines = {}" using near far by force
  show ?thesis by (simp add: score_path_def on green candidate_score_def Let_def)
qed

lemma candidate_score_eq:
  assumes "0 \<le> A" "p \<noteq> []"
  shows "candidate_score G p A = 150000 * (1 + 2 * real G) / (real (length p) * (1 + 7 * of_int A))"
proof -
  have "0 < int (length p) * CELL_FT * (1 + 7 * A)" using assms by (simp add: CELL_FT_def)
  then have "candidate_score G p A =
      150000 * of_int ((1 + 2 * int G) * CELL_FT) / of_int (int (length p) * CELL_FT * (1 + 7 * A))"
    by (simp add: candidate_score_def official_score_def)
  also have "\<dots> = (2 * (150000 * (1 + 2 * real G))) / (2 * (real (length p) * (1 + 7 * of_int A)))"
    by (simp add: CELL_FT_def algebra_simps)
  also have "\<dots> = 150000 * (1 + 2 * real G) / (real (length p) * (1 + 7 * of_int A))"
    by (rule mult_divide_mult_cancel_left) simp
  finally show ?thesis .
qed

lemma candidate_score_pos: "0 \<le> A \<Longrightarrow> p \<noteq> [] \<Longrightarrow> 0 < candidate_score G p A"
  by (simp add: candidate_score_eq)

lemma candidate_score_mono:
  assumes "0 \<le> A" "p \<noteq> []" "length p \<le> length p'"
  shows "candidate_score G p' A \<le> candidate_score G p A"
proof -
  have "p' \<noteq> []" using assms by auto
  moreover have "0 < real (length p) * (1 + 7 * of_int A)" using assms by simp
  moreover have "real (length p) * (1 + 7 * of_int A) \<le> real (length p') * (1 + 7 * of_int A)"
    using assms by (intro mult_right_mono) auto
  ultimately show ?thesis using assms by (simp add: candidate_score_eq frac_le)
qed

definition best_ok :: "(cell \<Rightarrow> nat) \<Rightarrow> int \<Rightarrow> best \<Rightarrow> bool" where
  "best_ok clear A b \<longleftrightarrow>
     (case best_path b of
        None \<Rightarrow> best_score b = 0
      | Some p \<Rightarrow> route (best_G b) clear p \<and> (\<forall>p'. route (best_G b) clear p' \<longrightarrow> length p \<le> length p')
          \<and> best_score b = candidate_score (best_G b) p A \<and> best_clearance b = Min (clear ` set p))"

lemma route_nonempty: "route G clear p \<Longrightarrow> p \<noteq> []"
  by (simp add: route_def trail_def)

lemma best_loop_correct:
  assumes "0 \<le> A" "best_ok clear A b"
  shows "\<exists>b'. best_loop clear A Gs b = Some b' \<and> best_ok clear A b' \<and> best_score b \<le> best_score b'
    \<and> (\<forall>G \<in> set Gs. \<forall>p. route G clear p \<longrightarrow> candidate_score G p A \<le> best_score b')"
  using assms(2)
proof (induction Gs arbitrary: b)
  case Nil
  then show ?case by simp
next
  case (Cons G Gs)
  obtain r where r: "shortest_safe_path clear G = Some r" and
    opt: "case r of None \<Rightarrow> \<forall>p. \<not> route G clear p
      | Some p \<Rightarrow> route G clear p \<and> (\<forall>p'. route G clear p' \<longrightarrow> length p \<le> length p')"
    using shortest_path_correct [of clear G] by blast
  show ?case
  proof (cases r)
    case None
    then show ?thesis using r opt Cons.IH [OF Cons.prems] by simp
  next
    case (Some p)
    with opt have p: "route G clear p" "\<And>p'. route G clear p' \<Longrightarrow> length p \<le> length p'" by auto
    define b1 where "b1 = (if candidate_score G p A > best_score b
      then \<lparr>best_score = candidate_score G p A, best_path = Some p, best_G = G, best_clearance = Min (set (map clear p))\<rparr>
      else b)"
    have "best_ok clear A b1" using Cons.prems p by (simp add: b1_def best_ok_def)
    from Cons.IH [OF this] obtain b' where b': "best_loop clear A Gs b1 = Some b'" "best_ok clear A b'"
      "best_score b1 \<le> best_score b'" "\<forall>G \<in> set Gs. \<forall>p. route G clear p \<longrightarrow> candidate_score G p A \<le> best_score b'"
      by blast
    have b1: "best_score b \<le> best_score b1" "candidate_score G p A \<le> best_score b1" by (simp_all add: b1_def)
    have "candidate_score G p' A \<le> best_score b'" if "route G clear p'" for p'
      using candidate_score_mono [OF assms(1) route_nonempty [OF p(1)] p(2) [OF that], of G] b1(2) b'(3) by linarith
    moreover have "best_loop clear A (G # Gs) b = Some b'" using r Some b'(1) by (simp add: b1_def)
    ultimately show ?thesis using b' b1(1) by (intro exI [of _ b']) auto
  qed
qed

lemma find_best_correct:
  assumes mines: "list_all in_grid mines" and A: "0 \<le> A"
  obtains b clear where "find_best_path mines A = Inr (Some b)" "best_ok clear A b"
    "\<And>c. in_grid c \<Longrightarrow> clearance_of mines c (clear c)"
    "\<And>G p. route G clear p \<Longrightarrow> candidate_score G p A \<le> best_score b"
proof -
  obtain D where D: "compute_clearance_map mines = Inr D"
    "\<forall>c. in_grid c \<longrightarrow> (\<exists>k. D c = Some k \<and> clearance_of mines c k)"
    using clearance_map_correct [OF mines] by blast
  define clear where "clear = (\<lambda>c. the (D c))"
  let ?b0 = "\<lparr>best_score = 0, best_path = None, best_G = 0, best_clearance = 0\<rparr>"
  have "best_ok clear A ?b0" by (simp add: best_ok_def)
  from best_loop_correct [OF A this] obtain b where b: "best_loop clear A [0..<nat ((COLS - 1) div 2 + 1)] ?b0 = Some b"
    "best_ok clear A b" "\<forall>G \<in> set [0..<nat ((COLS - 1) div 2 + 1)]. \<forall>p. route G clear p \<longrightarrow> candidate_score G p A \<le> best_score b"
    by blast
  show thesis
  proof (rule that)
    show "find_best_path mines A = Inr (Some b)" using D(1) b(1) by (simp add: find_best_path_def clear_def)
    show "best_ok clear A b" by fact
    show "clearance_of mines c (clear c)" if c: "in_grid c" for c
    proof -
      obtain k where "D c = Some k" "clearance_of mines c k" using D(2) c by blast
      then show ?thesis by (simp add: clear_def)
    qed
    show "candidate_score G p A \<le> best_score b" if p: "route G clear p" for G p
    proof -
      have "in_corridor G clear (hd p)" using p by (simp add: route_def trail_def list_all_iff)
      then have "G < nat ((COLS - 1) div 2 + 1)" using corridor_parts [of G clear "hd p"] by (simp add: COLS_def)
      then show ?thesis using b(3) p by simp
    qed
  qed
qed

text \<open>
  Claim C36: the planner finds the best plan. For every set of mines on the grid it returns; it returns no path
  only if no corridor of any width exists; otherwise the path goes from the bottom to the top row, no
  mine lies on it or in its green zone, the score it was chosen for is the official score of that
  path, and no safe path of any width, of any shape, scores higher.
\<close>

theorem find_best_path_optimal:
  assumes "list_all in_grid mines" and "0 \<le> A"
  shows "\<exists>b. find_best_path mines A = Inr (Some b) \<and>
    (case best_path b of
       None \<Rightarrow> \<forall>G p. \<not> plan_safe mines G p
     | Some p \<Rightarrow> plan_safe mines (best_G b) p \<and> best_G b < best_clearance b
         \<and> score_path p (best_G b) mines A 0 =
             \<lparr>score = best_score b, path_length_ft = int (length p) * CELL_FT,
              path_width_ft = (1 + 2 * int (best_G b)) * CELL_FT, n_cells = int (length p),
              mines_on_path = 0, mines_in_green = 0, scan_time = A, dead = False\<rparr>
         \<and> (\<forall>G p'. plan_safe mines G p' \<longrightarrow> score (score_path p' G mines A 0) \<le> best_score b))"
proof -
  obtain b clear where b: "find_best_path mines A = Inr (Some b)" "best_ok clear A b"
    and clear: "\<And>c. in_grid c \<Longrightarrow> clearance_of mines c (clear c)"
    and best: "\<And>G p. route G clear p \<Longrightarrow> candidate_score G p A \<le> best_score b"
    using find_best_correct [OF assms] by blast
  note iff = route_iff_plan_safe [OF clear]
  have best': "score (score_path p' G mines A 0) \<le> best_score b" if "plan_safe mines G p'" for G p'
    using best [of G p'] iff [of G p'] plan_safe_score [OF that, of A] that by simp
  show ?thesis
  proof (cases "best_path b")
    case None
    have "\<not> plan_safe mines G p" for G p
    proof
      assume p: "plan_safe mines G p"
      then have "candidate_score G p A \<le> 0" using best [of G p] iff [of G p] b(2) None by (simp add: best_ok_def)
      moreover have "0 < candidate_score G p A" using candidate_score_pos [OF assms(2), of p G] p by (simp add: plan_safe_def)
      ultimately show False by simp
    qed
    then show ?thesis using b(1) None by (intro exI [of _ b]) simp
  next
    case (Some p)
    then have p: "route (best_G b) clear p" "best_score b = candidate_score (best_G b) p A"
      "best_clearance b = Min (clear ` set p)" using b(2) by (simp_all add: best_ok_def)
    then have safe: "plan_safe mines (best_G b) p" using iff by blast
    have "best_G b < Min (clear ` set p)"
      using p(1) by (simp add: route_def trail_def list_all_iff in_corridor_def)
    then show ?thesis using b(1) Some safe p(2,3) plan_safe_score [OF safe, of A] best'
      by (intro exI [of _ b]) simp
  qed
qed

theorem find_best_path_optimal_witness:
  "\<exists>b. find_best_path [(3, 4), (10, 4)] 7 = Inr (Some b)"
proof -
  have "list_all in_grid [(3, 4), (10, 4)]" by (simp add: in_grid_def COLS_def ROWS_def)
  from find_best_path_optimal [OF this, of 7] show ?thesis by force
qed

section \<open>The command text\<close>

definition go :: "char \<Rightarrow> cell \<Rightarrow> cell" where
  "go d c = (if d = CHR ''U'' then (fst c, snd c + 1) else if d = CHR ''D'' then (fst c, snd c - 1)
     else if d = CHR ''R'' then (fst c + 1, snd c) else (fst c - 1, snd c))"

fun follow :: "cell \<Rightarrow> char list \<Rightarrow> cell list" where
  "follow c [] = [c]"
| "follow c (d # ds) = c # follow (go d c) ds"

definition expand :: "(char \<times> nat) list \<Rightarrow> char list" where
  "expand runs = concat (map (\<lambda>(d, n). replicate n d) runs)"

lemma expand_Nil [simp]: "expand [] = []"
  by (simp add: expand_def)

lemma expand_add_run: "expand (add_run runs d) = expand runs @ [d]"
proof (cases runs rule: rev_cases)
  case Nil
  then show ?thesis by (simp add: add_run_def expand_def)
next
  case (snoc rs r)
  then show ?thesis by (cases r) (auto simp: add_run_def expand_def replicate_append_same [symmetric])
qed

lemma expand_runs: "expand (foldl add_run runs ms) = expand runs @ ms"
  by (induction ms arbitrary: runs) (simp_all add: expand_add_run)

lemma add_run_alternates:
  "successively (\<lambda>a b. fst a \<noteq> fst b) runs \<Longrightarrow> successively (\<lambda>a b. fst a \<noteq> fst b) (add_run runs d)"
  by (cases runs rule: rev_cases) (auto simp: add_run_def successively_append_iff)

lemma runs_alternate:
  "successively (\<lambda>a b. fst a \<noteq> fst b) runs \<Longrightarrow> successively (\<lambda>a b. fst a \<noteq> fst b) (foldl add_run runs ms)"
  by (induction ms arbitrary: runs) (simp_all add: add_run_alternates)

lemma move_between_Inr: "move_between (a, b) = Inr d \<Longrightarrow> go d a = b"
  by (cases a; cases b) (auto simp: move_between_def direction_for_delta_def go_def split: if_splits)

lemma moves_follow:
  "p \<noteq> [] \<Longrightarrow> mapE move_between (zip p (tl p)) = Inr moves \<Longrightarrow> follow (hd p) moves = p"
proof (induction p arbitrary: moves)
  case (Cons a p)
  show ?case
  proof (cases p)
    case Nil
    then show ?thesis using Cons.prems by simp
  next
    case (Cons b p')
    then obtain d ds where "move_between (a, b) = Inr d" "mapE move_between (zip p (tl p)) = Inr ds" "moves = d # ds"
      using Cons.prems by auto
    then show ?thesis using Cons.IH [of ds] Cons move_between_Inr by simp
  qed
qed simp

lemma beside_moves: "beside a b \<Longrightarrow> \<exists>d. move_between (a, b) = Inr d \<and> (d = CHR ''U'' \<longleftrightarrow> snd b = snd a + 1)"
  by (cases a; cases b) (auto simp: beside_def move_between_def direction_for_delta_def; arith)

lemma path_moves:
  "successively beside p \<Longrightarrow> 2 \<le> length p \<Longrightarrow> \<exists>moves. mapE move_between (zip p (tl p)) = Inr moves \<and> moves \<noteq> []
     \<and> (hd moves = CHR ''U'' \<longleftrightarrow> snd (p ! 1) = snd (hd p) + 1)
     \<and> (last moves = CHR ''U'' \<longleftrightarrow> snd (last p) = snd (last (butlast p)) + 1)"
proof (induction p rule: induct_list012)
  case (3 a b p)
  then obtain d where d: "move_between (a, b) = Inr d" "d = CHR ''U'' \<longleftrightarrow> snd b = snd a + 1"
    using beside_moves [of a b] by auto
  show ?case
  proof (cases p)
    case Nil
    then show ?thesis using d by simp
  next
    case (Cons c p')
    then obtain moves where m: "mapE move_between (zip (b # p) (tl (b # p))) = Inr moves" "moves \<noteq> []"
      "last moves = CHR ''U'' \<longleftrightarrow> snd (last (b # p)) = snd (last (butlast (b # p))) + 1"
      using 3 by auto
    then show ?thesis using d Cons by simp
  qed
qed simp_all

text \<open>A shortest route leaves the bottom row at once and enters the top row only at its end.\<close>

lemma shortest_ends_upward:
  assumes p: "route G clear p" and least: "\<And>p'. route G clear p' \<Longrightarrow> length p \<le> length p'"
  shows "2 \<le> length p" "snd (p ! 1) = snd (hd p) + 1" "snd (last p) = snd (last (butlast p)) + 1"
proof -
  have ne: "p \<noteq> []" and ends: "snd (hd p) = 0" "snd (last p) = ROWS - 1"
    and corr: "list_all (in_corridor G clear) p" and steps: "successively beside p"
    using p by (auto simp: route_def trail_def)
  obtain a p1 where p1: "p = a # p1" using ne by (cases p) auto
  have "p1 \<noteq> []" using ends p1 by (auto simp: ROWS_def)
  then obtain b p2 where p2: "p1 = b # p2" by (cases p1) auto
  show "2 \<le> length p" by (simp add: p1 p2)
  obtain z q where q: "p = q @ [z]" using ne by (cases p rule: rev_cases) auto
  have "q \<noteq> []" using q p1 p2 by auto
  then obtain y r where r: "q = r @ [y]" by (cases q rule: rev_cases) auto
  have row: "0 \<le> snd c \<and> snd c \<le> ROWS - 1" if "c \<in> set p" for c
    using corr that by (auto simp: list_all_iff in_corridor_def)
  have "snd b \<noteq> 0"
  proof
    assume "snd b = 0"
    then have "route G clear p1" using p p1 p2 by (auto simp: route_def trail_def)
    from least [OF this] show False by (simp add: p1)
  qed
  moreover have "beside a b" using steps p1 p2 by simp
  ultimately show "snd (p ! 1) = snd (hd p) + 1"
    using ends row [of b] p1 p2 by (auto simp: beside_def)
  have "snd y \<noteq> ROWS - 1"
  proof
    assume "snd y = ROWS - 1"
    moreover have "trail G clear q" using p q \<open>q \<noteq> []\<close> by (auto simp: route_def trail_def successively_append_iff)
    ultimately have "route G clear q" using r by (simp add: route_def)
    from least [OF this] show False by (simp add: q)
  qed
  moreover have "beside y z" using steps by (simp add: q r successively_append_iff)
  moreover have "last (butlast p) = y" unfolding q r by (simp only: butlast_snoc last_snoc)
  ultimately show "snd (last p) = snd (last (butlast p)) + 1"
    using ends row [of y] by (auto simp: beside_def q r)
qed

text \<open>
  The command text flies the plan. Every plan the planner returns passes the checks of the command
  encoder, and the text is the start line followed by runs of single letters, no two neighbouring
  ones alike, which from the start cell visit exactly the cells of the plan, in order.
\<close>

theorem planned_commands_fly_plan:
  assumes "list_all in_grid mines" and "0 \<le> A"
    and "find_best_path mines A = Inr (Some b)" and "best_path b = Some p"
  shows "\<exists>runs. grid_path_to_commands p (best_G b) = Inr (command_text (fst (hd p)) (best_G b) runs)
    \<and> follow (hd p) (expand runs) = p \<and> successively (\<lambda>a b. fst a \<noteq> fst b) runs"
proof -
  obtain clear where "best_ok clear A b"
    using find_best_correct [OF assms(1,2)] assms(3) by (metis Inr_inject option.inject)
  then have p: "route (best_G b) clear p" "\<And>p'. route (best_G b) clear p' \<Longrightarrow> length p \<le> length p'"
    using assms(4) by (auto simp: best_ok_def)
  note up = shortest_ends_upward [OF p]
  have "successively beside p" using p(1) by (simp add: route_def trail_def)
  from path_moves [OF this up(1)] up obtain moves where m: "mapE move_between (zip p (tl p)) = Inr moves" "moves \<noteq> []"
    "hd moves = CHR ''U''" "last moves = CHR ''U''" by auto
  have "grid_path_to_commands p (best_G b) = Inr (command_text (fst (hd p)) (best_G b) (foldl add_run [] moves))"
    using m up(1) by (auto simp: grid_path_to_commands_def)
  moreover have "follow (hd p) (expand (foldl add_run [] moves)) = p"
    using moves_follow [OF route_nonempty [OF p(1)] m(1)] by (simp add: expand_runs)
  ultimately show ?thesis using runs_alternate [of "[]" moves] by auto
qed

theorem planned_commands_fly_plan_witness:
  "\<exists>b p runs. find_best_path [] 7 = Inr (Some b) \<and> best_path b = Some p \<and> follow (hd p) (expand runs) = p"
proof -
  have mines: "list_all in_grid []" by simp
  obtain b clear where b: "find_best_path [] 7 = Inr (Some b)" "best_ok clear 7 b"
    and clear: "\<And>c. in_grid c \<Longrightarrow> clearance_of [] c (clear c)"
    and best: "\<And>G p. route G clear p \<Longrightarrow> candidate_score G p 7 \<le> best_score b"
    using find_best_correct [OF mines, of 7] by auto
  have "0 < clear (10, y)" if "0 \<le> y" "y < ROWS" for y
    using clear [of "(10, y)"] that by (simp add: in_grid_def COLS_def clearance_of_def no_mine_distance_def)
  then have "route 0 clear (map (\<lambda>y. (10, int y)) [0..<nat ROWS])"
    by (intro straight_route) (auto simp: COLS_def)
  then have "0 < best_score b" using best candidate_score_pos [of 7] route_nonempty by (meson less_le_trans zero_le_numeral)
  then obtain p where "best_path b = Some p" using b(2) by (cases "best_path b") (auto simp: best_ok_def)
  then show ?thesis using planned_commands_fly_plan [OF mines _ b(1), of p] b(1) by auto
qed

end
