(* ===== verification/Orbit.thy ===== *)
theory Orbit
  imports Geometry
begin

text \<open>
  The choreography geometry of the fleet (\<open>flight_lib/orbit.py\<close>, \<open>flight_lib/phased_orbits.py\<close>): one
  shared ring, overlapping circles with locked phases, the spiral insertion, the staggered peel-off,
  and the closed-form separations. Positions are (east, north, up); an array of positions is a list
  of them.
\<close>

section \<open>The shared ring (\<open>orbit.py\<close>)\<close>

definition wrap_angle :: "real \<Rightarrow> real" where
  "wrap_angle a = py_fmod (a + pi) (2 * pi) - pi"

lemma wrap_angle_shift: "\<exists>k :: int. wrap_angle a = a - 2 * pi * of_int k"
  by (intro exI [of _ "\<lfloor>(a + pi) / (2 * pi)\<rfloor>"]) (simp add: wrap_angle_def py_fmod_def)

lemma wrap_angle_range: "- pi \<le> wrap_angle a" "wrap_angle a < pi"
  using py_fmod_range [of "2 * pi" "a + pi"] pi_gt_zero by (simp_all add: wrap_angle_def)

text \<open>The interval is closed below and open above, so a heading of exactly \<open>pi\<close> comes out as \<open>- pi\<close>.\<close>

lemma wrap_angle_pi: "wrap_angle pi = - pi"
  by (simp add: wrap_angle_def py_fmod_def)

lemma wrap_angle_id: "- pi \<le> a \<Longrightarrow> a < pi \<Longrightarrow> wrap_angle a = a"
proof -
  assume "- pi \<le> a" "a < pi"
  then have "\<lfloor>(a + pi) / (2 * pi)\<rfloor> = 0" by (intro floor_unique) (simp_all add: field_simps)
  then show ?thesis by (simp add: wrap_angle_def py_fmod_def)
qed

definition min_separation :: "int \<Rightarrow> real \<Rightarrow> py_error + real" where
  "min_separation n radius =
     (if n < 2 then Inl (ValueError ''need at least 2 drones for a separation'')
      else Inr (2 * radius * sin (pi / of_int n)))"

definition radius_for_separation :: "int \<Rightarrow> real \<Rightarrow> py_error + real" where
  "radius_for_separation n d_min =
     (if n < 2 then Inl (ValueError ''need at least 2 drones for a separation'')
      else Inr (d_min / (2 * sin (pi / of_int n))))"

definition yaw_for :: "real \<Rightarrow> string \<Rightarrow> real \<Rightarrow> py_error + real" where
  "yaw_for theta yaw_mode fixed_yaw =
     (if yaw_mode = ''tangent'' then Inr (wrap_angle (theta + pi / 2))
      else if yaw_mode = ''inward'' then Inr (wrap_angle (theta + pi))
      else if yaw_mode = ''outward'' then Inr (wrap_angle theta)
      else if yaw_mode = ''fixed'' then Inr (wrap_angle fixed_yaw)
      else Inl (ValueError ''unknown yaw_mode''))"

text \<open>A point at a polar position about a centre.\<close>

definition around :: "point \<Rightarrow> real \<Rightarrow> real \<Rightarrow> real \<Rightarrow> vec3" where
  "around c r theta z = (fst c + r * cos theta, snd c + r * sin theta, z)"

definition with_yaw :: "vec3 \<Rightarrow> py_error + real \<Rightarrow> py_error + (vec3 \<times> real)" where
  "with_yaw pos yaw = bindE yaw (\<lambda>y. Inr (pos, y))"

record ring_kw =
  ring_center :: point
  ring_altitude :: real
  ring_yaw_mode :: string
  ring_fixed_yaw :: real
  ring_phase0 :: real

definition orbit_setpoint :: "real \<Rightarrow> int \<Rightarrow> int \<Rightarrow> real \<Rightarrow> real \<Rightarrow> ring_kw \<Rightarrow> py_error + (vec3 \<times> real)" where
  "orbit_setpoint t index n radius omega kw =
     (if \<not> (0 \<le> index \<and> index < n) then Inl (ValueError ''index out of range'')
      else
        let phase = ring_phase0 kw + 2 * pi * of_int index / of_int n;
            theta = omega * t + phase
        in with_yaw (around (ring_center kw) radius theta (ring_altitude kw))
             (yaw_for theta (ring_yaw_mode kw) (ring_fixed_yaw kw)))"

definition ring_positions :: "real \<Rightarrow> nat \<Rightarrow> real \<Rightarrow> real \<Rightarrow> ring_kw \<Rightarrow> vec3 list" where
  "ring_positions t n radius omega kw =
     map (\<lambda>i. around (ring_center kw) radius (omega * t + ring_phase0 kw + 2 * pi * of_nat i / of_nat n) (ring_altitude kw))
       [0..<n]"

section \<open>Phased orbits (\<open>phased_orbits.py\<close>)\<close>

text \<open>The keyword arguments the functions share.\<close>

record orbit_kw =
  spacing :: real
  downrange :: real
  base :: point
  altitude :: real
  phase_step :: real
  phase0 :: real
  phases :: "real list option"
  yaw_mode :: string
  fixed_yaw :: real

definition default_kw :: orbit_kw where
  "default_kw = \<lparr>spacing = 3, downrange = 4.6, base = (0, 0), altitude = 0, phase_step = pi / 2,
     phase0 = - pi / 2, phases = None, yaw_mode = ''inward'', fixed_yaw = 0\<rparr>"

definition phased_orbit_phases :: "int \<Rightarrow> orbit_kw \<Rightarrow> py_error + real list" where
  "phased_orbit_phases n kw =
     (case phases kw of
        Some ph \<Rightarrow>
          if int (length ph) \<noteq> n then Inl (ValueError ''phases must have length n'') else Inr ph
      | None \<Rightarrow> Inr (map (\<lambda>i. phase0 kw + phase_step kw * of_nat i) [0..<nat n]))"

definition phased_orbit_centers :: "int \<Rightarrow> orbit_kw \<Rightarrow> py_error + point list" where
  "phased_orbit_centers n kw =
     (if n < 1 then Inl (ValueError ''need at least 1 drone'')
      else Inr (map (\<lambda>i. (fst (base kw) + spacing kw * of_nat i, snd (base kw) + downrange kw)) [0..<nat n]))"

definition circle_center :: "orbit_kw \<Rightarrow> int \<Rightarrow> point" where
  "circle_center kw index = (fst (base kw) + spacing kw * of_int index, snd (base kw) + downrange kw)"

text \<open>The index guard and the phase lookup that open every per-drone function.\<close>

definition drone_phase :: "int \<Rightarrow> int \<Rightarrow> orbit_kw \<Rightarrow> py_error + real" where
  "drone_phase index n kw =
     (if \<not> (0 \<le> index \<and> index < n) then Inl (ValueError ''index out of range'')
      else bindE (phased_orbit_phases n kw) (\<lambda>ph. item ph (nat index)))"

definition phased_orbit_setpoint ::
    "real \<Rightarrow> int \<Rightarrow> int \<Rightarrow> real \<Rightarrow> real \<Rightarrow> orbit_kw \<Rightarrow> real \<Rightarrow> real \<Rightarrow> py_error + (vec3 \<times> real)" where
  "phased_orbit_setpoint t index n radius omega kw mod_amp mod_phase =
     bindE (drone_phase index n kw) (\<lambda>phase.
       let theta = omega * t + phase + mod_amp * (sin (omega * t + mod_phase) - sin mod_phase)
       in with_yaw (around (circle_center kw index) radius theta (altitude kw))
            (yaw_for theta (yaw_mode kw) (fixed_yaw kw)))"

definition phased_orbit_velocity :: "real \<Rightarrow> int \<Rightarrow> int \<Rightarrow> real \<Rightarrow> real \<Rightarrow> orbit_kw \<Rightarrow> py_error + vec3" where
  "phased_orbit_velocity t index n radius omega kw =
     bindE (drone_phase index n kw) (\<lambda>phase.
       let theta = omega * t + phase
       in Inr (- radius * omega * sin theta, radius * omega * cos theta, 0))"

definition phased_orbit_insertion ::
    "real \<Rightarrow> int \<Rightarrow> int \<Rightarrow> real \<Rightarrow> real \<Rightarrow> orbit_kw \<Rightarrow> py_error + (vec3 \<times> real)" where
  "phased_orbit_insertion s index n radius spin kw =
     bindE (drone_phase index n kw) (\<lambda>phi.
       let u = np_clip s 0 1; theta = phi - spin * (1 - u); r = radius * u
       in with_yaw (around (circle_center kw index) r theta (altitude kw))
            (yaw_for theta (yaw_mode kw) (fixed_yaw kw)))"

definition phased_orbit_insertion_velocity ::
    "real \<Rightarrow> int \<Rightarrow> int \<Rightarrow> real \<Rightarrow> real \<Rightarrow> real \<Rightarrow> orbit_kw \<Rightarrow> py_error + vec3" where
  "phased_orbit_insertion_velocity s index n radius s_dot spin kw =
     bindE (drone_phase index n kw) (\<lambda>phi.
       let u = np_clip s 0 1; theta = phi - spin * (1 - u); r = radius * u; theta_dot = spin * s_dot
       in Inr (radius * s_dot * cos theta - r * sin theta * theta_dot,
               radius * s_dot * sin theta + r * cos theta * theta_dot, 0))"

subsection \<open>Peel-off\<close>

record peel_kw =
  peel_order :: "int list option"
  lead_in :: real
  stagger :: real
  peel_duration :: real
  peel_spin :: real

definition peeloff_duration :: "int \<Rightarrow> peel_kw \<Rightarrow> real" where
  "peeloff_duration n pk = lead_in pk + of_int (n - 1) * stagger pk + peel_duration pk"

definition order_of :: "int \<Rightarrow> peel_kw \<Rightarrow> int list" where
  "order_of n pk = (case peel_order pk of None \<Rightarrow> rev [0..n - 1] | Some ord \<Rightarrow> ord)"

text \<open>\<open>order.index(index)\<close> of an element that occurs.\<close>

definition list_index :: "'a list \<Rightarrow> 'a \<Rightarrow> nat" where
  "list_index xs x = length (takeWhile (\<lambda>y. y \<noteq> x) xs)"

definition smoothstep :: "real \<Rightarrow> real" where
  "smoothstep u = u * u * (3 - 2 * u)"

definition peel_time :: "int \<Rightarrow> int \<Rightarrow> peel_kw \<Rightarrow> real" where
  "peel_time index n pk = lead_in pk + of_nat (list_index (order_of n pk) index) * stagger pk"

definition phased_orbit_peeloff ::
    "real \<Rightarrow> int \<Rightarrow> int \<Rightarrow> real \<Rightarrow> real \<Rightarrow> peel_kw \<Rightarrow> orbit_kw \<Rightarrow> py_error + (vec3 \<times> real)" where
  "phased_orbit_peeloff t index n radius omega pk kw =
     (if \<not> (0 \<le> index \<and> index < n) then Inl (ValueError ''index out of range'')
      else if sort (order_of n pk) \<noteq> [0..n - 1] then Inl (ValueError ''peel_order must be a permutation'')
      else
        bindE (drone_phase index n kw) (\<lambda>phi.
          let t_peel = peel_time index n pk;
              u = np_clip ((t - t_peel) / max (1 / 1000000) (peel_duration pk)) 0 1;
              s = smoothstep u;
              theta = (if t < t_peel then phi + omega * t else phi + omega * t_peel + peel_spin pk * s);
              r = (if t < t_peel then radius else radius * (1 - s))
          in with_yaw (around (circle_center kw index) r theta (altitude kw))
               (yaw_for theta (yaw_mode kw) (fixed_yaw kw))))"

definition phased_orbit_positions :: "real \<Rightarrow> int \<Rightarrow> real \<Rightarrow> real \<Rightarrow> orbit_kw \<Rightarrow> py_error + vec3 list" where
  "phased_orbit_positions t n radius omega kw =
     (if n < 1 then Inl (ValueError ''need at least 1 drone'')
      else
        bindE (phased_orbit_phases n kw) (\<lambda>ph.
          Inr (map (\<lambda>i. around (circle_center kw (int i)) radius (omega * t + ph ! i) (altitude kw)) [0..<nat n])))"

subsection \<open>Separation\<close>

definition separation_bounds :: "real \<Rightarrow> real \<Rightarrow> real \<Rightarrow> real \<times> real" where
  "separation_bounds a radius dphi =
     (let m = 2 * radius * \<bar>sin (dphi / 2)\<bar> in (\<bar>a - m\<bar>, a + m))"

text \<open>An array element; negative indices count from the end.\<close>

definition np_item :: "'a list \<Rightarrow> int \<Rightarrow> py_error + 'a" where
  "np_item xs i =
     (if - int (length xs) \<le> i \<and> i < int (length xs) then Inr (xs ! nat (i mod int (length xs)))
      else Inl IndexError)"

definition pair_dphi :: "int \<Rightarrow> int \<Rightarrow> orbit_kw \<Rightarrow> py_error + real" where
  "pair_dphi i j kw =
     (case phases kw of
        Some ph \<Rightarrow> bindE (np_item ph i) (\<lambda>a. bindE (np_item ph j) (\<lambda>b. Inr (a - b)))
      | None \<Rightarrow> Inr (phase_step kw * of_int (i - j)))"

definition pair_separation_bounds :: "int \<Rightarrow> int \<Rightarrow> real \<Rightarrow> orbit_kw \<Rightarrow> py_error + (real \<times> real)" where
  "pair_separation_bounds i j radius kw =
     (if i = j then Inl (ValueError ''need two distinct drones for a separation'')
      else bindE (pair_dphi i j kw) (\<lambda>dphi. Inr (separation_bounds (spacing kw * of_int \<bar>i - j\<bar>) radius dphi)))"

definition pair_min_separation :: "int \<Rightarrow> int \<Rightarrow> real \<Rightarrow> orbit_kw \<Rightarrow> py_error + real" where
  "pair_min_separation i j radius kw = bindE (pair_separation_bounds i j radius kw) (\<lambda>b. Inr (fst b))"

definition pair_separation_swing :: "int \<Rightarrow> int \<Rightarrow> real \<Rightarrow> orbit_kw \<Rightarrow> py_error + real" where
  "pair_separation_swing i j radius kw = bindE (pair_separation_bounds i j radius kw) (\<lambda>b. Inr (snd b - fst b))"

text \<open>\<open>for i in range(n) for j in range(i + 1, n)\<close>.\<close>

definition pairs_below :: "nat \<Rightarrow> (nat \<times> nat) list" where
  "pairs_below n = [(i, j). i \<leftarrow> [0..<n], j \<leftarrow> [i + 1..<n]]"

definition schedule_min_separation :: "int \<Rightarrow> real \<Rightarrow> orbit_kw \<Rightarrow> py_error + real" where
  "schedule_min_separation n radius kw =
     (if n < 2 then Inl (ValueError ''need at least 2 drones for a separation'')
      else
        bindE (mapE (\<lambda>(i, j). pair_min_separation (int i) (int j) radius kw) (pairs_below (nat n))) (\<lambda>ds.
          Inr (Min (set ds))))"

text \<open>The running minimum, from infinity.\<close>

fun min_from :: "real option \<Rightarrow> real list \<Rightarrow> real option" where
  "min_from best [] = best"
| "min_from best (d # ds) = min_from (Some (case best of None \<Rightarrow> d | Some b \<Rightarrow> min b d)) ds"

definition xy_distance :: "vec3 \<Rightarrow> vec3 \<Rightarrow> real" where
  "xy_distance p q = hypot (fst p - fst q) (fst (snd p) - fst (snd q))"

definition min_pairwise_separation :: "vec3 list \<Rightarrow> py_error + real option" where
  "min_pairwise_separation p =
     (if length p < 2 then Inl (ValueError ''need at least 2 positions for a separation'')
      else Inr (min_from None (map (\<lambda>(i, j). xy_distance (p ! i) (p ! j)) (pairs_below (length p)))))"

end
