(* ===== verification/Deconflict.thy ===== *)
theory Deconflict
  imports Orbit
begin

text \<open>
  Pairwise deconfliction (\<open>flight_lib/deconflict.py\<close>), the phase guard (\<open>flight_lib/phase_guard.py\<close>) and
  buffered Voronoi cells (\<open>flight_lib/bvc.py\<close>): what each computes, and what it guarantees.
\<close>

section \<open>Vectors\<close>

definition dot2 :: "point \<Rightarrow> point \<Rightarrow> real" where
  "dot2 a b = fst a * fst b + snd a * snd b"

definition add2 :: "point \<Rightarrow> point \<Rightarrow> point" where
  "add2 a b = (fst a + fst b, snd a + snd b)"

definition sub2 :: "point \<Rightarrow> point \<Rightarrow> point" where
  "sub2 a b = (fst a - fst b, snd a - snd b)"

definition scale2 :: "real \<Rightarrow> point \<Rightarrow> point" where
  "scale2 k a = (k * fst a, k * snd a)"

definition norm2 :: "point \<Rightarrow> real" where
  "norm2 a = sqrt (dot2 a a)"

definition dot3 :: "vec3 \<Rightarrow> vec3 \<Rightarrow> real" where
  "dot3 a b = fst a * fst b + fst (snd a) * fst (snd b) + snd (snd a) * snd (snd b)"

definition add3 :: "vec3 \<Rightarrow> vec3 \<Rightarrow> vec3" where
  "add3 a b = (fst a + fst b, fst (snd a) + fst (snd b), snd (snd a) + snd (snd b))"

definition scale3 :: "real \<Rightarrow> vec3 \<Rightarrow> vec3" where
  "scale3 k a = (k * fst a, k * fst (snd a), k * snd (snd a))"

definition norm3 :: "vec3 \<Rightarrow> real" where
  "norm3 a = sqrt (dot3 a a)"

lemmas vec2_simps = dot2_def add2_def sub2_def scale2_def
lemmas vec3_simps = dot3_def add3_def scale3_def

lemma dot2_square_nonneg [simp]: "0 \<le> dot2 a a"
  by (simp add: dot2_def)

lemma dot3_square_nonneg [simp]: "0 \<le> dot3 a a"
  by (simp add: dot3_def)

lemma norm2_square: "norm2 a * norm2 a = dot2 a a"
  by (simp add: norm2_def)

lemma norm2_hypot: "norm2 a = hypot (fst a) (snd a)"
  by (simp add: norm2_def dot2_def hypot_def)

lemma norm2_nonneg [simp]: "0 \<le> norm2 a"
  by (simp add: norm2_def)

lemma cauchy_schwarz2: "dot2 a b \<le> norm2 a * norm2 b"
proof -
  have "(dot2 a b)\<^sup>2 + (fst a * snd b - snd a * fst b)\<^sup>2 = dot2 a a * dot2 b b"
    by (simp add: dot2_def power2_eq_square algebra_simps)
  then have "(dot2 a b)\<^sup>2 \<le> dot2 a a * dot2 b b" by (metis le_add_same_cancel1 zero_le_power2)
  then have "sqrt ((dot2 a b)\<^sup>2) \<le> sqrt (dot2 a a * dot2 b b)" by (rule real_sqrt_le_mono)
  then show ?thesis by (simp add: norm2_def real_sqrt_mult)
qed

lemma unit_projection: "dot2 n n = 1 \<Longrightarrow> dot2 n x \<le> norm2 x"
  using cauchy_schwarz2 [of n x] by (simp add: norm2_def)

section \<open>\<open>deconflict.py\<close>\<close>

definition closest_point_of_approach :: "vec3 \<Rightarrow> vec3 \<Rightarrow> real \<times> real" where
  "closest_point_of_approach p v =
     (let speed_sq = dot3 v v
      in if speed_sq \<le> 1 / 10 ^ 9 then (0, norm3 p)
         else let t_cpa = max 0 (- dot3 p v / speed_sq) in (t_cpa, norm3 (add3 p (scale3 t_cpa v))))"

definition follower_phase_rate ::
    "radians \<Rightarrow> radians \<Rightarrow> rad_per_s \<Rightarrow> radians \<Rightarrow> rad_per_s \<Rightarrow> rad_per_s \<Rightarrow> real \<Rightarrow> real \<Rightarrow> real \<Rightarrow> rad_per_s \<times> radians" where
  "follower_phase_rate phase peer_phase peer_rate desired_offset desired_offset_rate nominal_rate kp min_scale max_scale =
     (let error = wrap_angle (phase - peer_phase - desired_offset);
          rate = peer_rate + desired_offset_rate - kp * error
      in (np_clip rate (min_scale * nominal_rate) (max_scale * nominal_rate), error))"

record deconflict_kw =
  clearance_m :: real
  horizon_s :: real
  max_scale :: real
  min_scale :: real

definition is_ahead :: "real \<Rightarrow> real \<Rightarrow> int \<Rightarrow> int \<Rightarrow> bool" where
  "is_ahead own_phase peer_phase vehicle_id peer_id =
     (let gap = wrap_angle (own_phase - peer_phase)
      in if \<bar>gap\<bar> > 1 / 10 ^ 6 then gap > 0 else vehicle_id < peer_id)"

definition phase_deconflict_rate ::
    "radians \<Rightarrow> radians \<Rightarrow> rad_per_s \<Rightarrow> seconds \<Rightarrow> metres \<Rightarrow> int \<Rightarrow> int \<Rightarrow> deconflict_kw \<Rightarrow> py_error + (rad_per_s \<times> real)" where
  "phase_deconflict_rate own_phase peer_phase nominal_rate t_cpa d_cpa vehicle_id peer_id kw =
     (if t_cpa > horizon_s kw \<or> d_cpa \<ge> clearance_m kw then Inr (nominal_rate, 0)
      else if clearance_m kw = 0 \<or> horizon_s kw = 0 then Inl ZeroDivisionError
      else
        let severity = np_clip ((clearance_m kw - d_cpa) / clearance_m kw * (1 - t_cpa / horizon_s kw)) 0 1;
            rate = (if is_ahead own_phase peer_phase vehicle_id peer_id
                    then nominal_rate * (1 + (max_scale kw - 1) * severity)
                    else nominal_rate * (1 - (1 - min_scale kw) * severity))
        in Inr (np_clip rate (min_scale kw * nominal_rate) (max_scale kw * nominal_rate), severity))"

record reflex_kw =
  d_reflex :: real
  slow_scale :: real
  right_veer_mps :: real
  repel_gain :: real
  max_repel_mps :: real

definition reflex_velocity :: "vec3 \<Rightarrow> vec3 \<Rightarrow> vec3 \<Rightarrow> real \<Rightarrow> reflex_kw \<Rightarrow> vec3" where
  "reflex_velocity nominal own peer range_m kw =
     (let out0 = scale3 (slow_scale kw) nominal;
          horizontal_speed = norm2 (fst nominal, fst (snd nominal));
          out1 = (if horizontal_speed > 1 / 10 ^ 6
                  then add3 out0 (scale3 (right_veer_mps kw)
                         (fst (snd nominal) / horizontal_speed, - fst nominal / horizontal_speed, 0))
                  else out0);
          away = (fst own - fst peer, fst (snd own) - fst (snd peer), 0);
          n = norm3 away
      in if n > 1 / 10 ^ 6
         then add3 out1 (scale3 (min (max_repel_mps kw) (repel_gain kw * max 0 (d_reflex kw - range_m))) (scale3 (1 / n) away))
         else out1)"

section \<open>\<open>phase_guard.py\<close>\<close>

record guard_kw =
  protected_distance :: real
  barrier_gamma :: real
  min_rate :: real
  max_rate :: real

record guard_solution =
  guard_rate :: real
  feasible :: bool
  active_constraints :: nat
  min_slack :: real

text \<open>One barrier: the angular rate must satisfy \<open>row * rate >= bound\<close>.\<close>

definition barrier :: "point \<Rightarrow> point \<Rightarrow> guard_kw \<Rightarrow> point \<times> point \<Rightarrow> real \<times> real" where
  "barrier own radial kw peer =
     (let separation = sub2 own (fst peer);
          h = dot2 separation separation - protected_distance kw ^ 2;
          tangent = (- snd radial, fst radial)
      in (2 * dot2 separation tangent, - barrier_gamma kw * h + 2 * dot2 separation (snd peer)))"

text \<open>One round of the loop over the barriers, on \<open>(lower, upper, feasible)\<close>.\<close>

definition narrow :: "real \<times> real \<times> bool \<Rightarrow> real \<times> real \<Rightarrow> real \<times> real \<times> bool" where
  "narrow acc rb =
     (case acc of (lower, upper, ok) \<Rightarrow> case rb of (row, bound) \<Rightarrow>
        if \<bar>row\<bar> \<le> 1 / 10 ^ 9 then (lower, upper, ok \<and> bound \<le> 0)
        else if row > 0 then (max lower (bound / row), upper, ok)
        else (lower, min upper (bound / row), ok))"

definition guard_slacks :: "(real \<times> real) list \<Rightarrow> guard_kw \<Rightarrow> real \<Rightarrow> real list" where
  "guard_slacks barriers kw rate =
     map (\<lambda>(row, bound). row * rate - bound) barriers @ [rate - min_rate kw, max_rate kw - rate]"

text \<open>The positions and velocities are lists of pairs, so of the shape checks only the two below can fail.\<close>

definition phase_guard_rate ::
    "point \<Rightarrow> point \<Rightarrow> real \<Rightarrow> point list \<Rightarrow> point list \<Rightarrow> guard_kw \<Rightarrow> py_error + guard_solution" where
  "phase_guard_rate own radial desired peer_positions peer_velocities kw =
     (if peer_positions = [] then Inl (ValueError ''peer_positions must have shape (n, 2)'')
      else if length peer_velocities \<noteq> length peer_positions
      then Inl (ValueError ''peer_velocities must match peer_positions'')
      else
        let barriers = map (barrier own radial kw) (zip peer_positions peer_velocities)
        in case foldl narrow (min_rate kw, max_rate kw, min_rate kw \<le> max_rate kw) barriers of
             (lower, upper, ok) \<Rightarrow>
               let fe = (ok \<and> lower \<le> upper);
                   rate = (if fe then np_clip desired lower upper else np_clip desired (min_rate kw) (max_rate kw));
                   slacks = guard_slacks barriers kw rate
               in Inr \<lparr>guard_rate = rate, feasible = fe,
                       active_constraints = length (filter (\<lambda>x. \<bar>x\<bar> \<le> 1 / 10 ^ 7) slacks),
                       min_slack = Min (set slacks)\<rparr>)"

section \<open>\<open>bvc.py\<close>\<close>

type_synonym halfspace = "point \<times> real"
type_synonym cov2 = "point \<times> point"

text \<open>
  The inner loop of Dykstra's projection over the half-spaces and their corrections; what comes back are
  the new point and the new corrections.
\<close>

fun dykstra_sweep :: "point \<Rightarrow> (halfspace \<times> point) list \<Rightarrow> point \<times> point list" where
  "dykstra_sweep x [] = (x, [])"
| "dykstra_sweep x (((n, b), c) # rest) =
     (let y_in = add2 x c; slack = dot2 n y_in - b;
          y = (if slack > 0 then sub2 y_in (scale2 slack n) else y_in);
          (x', cs) = dykstra_sweep y rest
      in (x', sub2 y_in y # cs))"

fun dykstra :: "nat \<Rightarrow> halfspace list \<Rightarrow> point \<Rightarrow> point list \<Rightarrow> point" where
  "dykstra 0 hs x cs = x"
| "dykstra (Suc k) hs x cs = (let (x', cs') = dykstra_sweep x (zip hs cs) in dykstra k hs x' cs')"

definition project_to_halfspaces :: "point \<Rightarrow> halfspace list \<Rightarrow> nat \<Rightarrow> point" where
  "project_to_halfspaces goal hs iters =
     (if hs = [] \<or> list_all (\<lambda>(n, b). dot2 n goal \<le> b + 1 / 10 ^ 9) hs then goal
      else dykstra iters hs goal (replicate (length hs) (0, 0)))"

text \<open>
  \<open>inv_cdf\<close> is the quantile function of the standard normal distribution
  (\<open>statistics.NormalDist().inv_cdf\<close>), which raises outside the open unit interval.
\<close>

definition normal_uncertainty_buffer :: "(real \<Rightarrow> py_error + real) \<Rightarrow> point \<Rightarrow> cov2 \<Rightarrow> real \<Rightarrow> py_error + real" where
  "normal_uncertainty_buffer inv_cdf n cov delta =
     (let var = dot2 n (dot2 (fst cov) n, dot2 (snd cov) n)
      in if var \<le> 0 then Inr 0 else bindE (inv_cdf (1 - delta)) (\<lambda>q. Inr (sqrt var * q)))"

definition voronoi_halfspace ::
    "(real \<Rightarrow> py_error + real) \<Rightarrow> point \<Rightarrow> real \<Rightarrow> real \<Rightarrow> point \<times> cov2 option \<Rightarrow> py_error + halfspace list" where
  "voronoi_halfspace inv_cdf own safety_radius delta peer =
     (let d = sub2 (fst peer) own; len = norm2 d
      in if len < 1 / 10 ^ 6 then Inr []
         else
           let n = scale2 (1 / len) d
           in bindE (case snd peer of
                       Some cov \<Rightarrow> if delta > 0 then normal_uncertainty_buffer inv_cdf n cov delta else Inr 0
                     | None \<Rightarrow> Inr 0)
                (\<lambda>extra. Inr [(n, dot2 n own + len / 2 - (safety_radius + extra))]))"

definition voronoi_halfspaces ::
    "(real \<Rightarrow> py_error + real) \<Rightarrow> point \<Rightarrow> (point \<times> cov2 option) list \<Rightarrow> real \<Rightarrow> real \<Rightarrow> py_error + halfspace list" where
  "voronoi_halfspaces inv_cdf own peers safety_radius delta =
     bindE (mapE (voronoi_halfspace inv_cdf own safety_radius delta) peers) (\<lambda>rows. Inr (concat rows))"

definition buffered_voronoi_halfspaces :: "(real \<Rightarrow> py_error + real) \<Rightarrow> point \<Rightarrow> point list \<Rightarrow> real \<Rightarrow> py_error + halfspace list" where
  "buffered_voronoi_halfspaces inv_cdf own peers safety_radius =
     voronoi_halfspaces inv_cdf own (map (\<lambda>p. (p, None)) peers) safety_radius 0"

definition buffered_voronoi_clip :: "(real \<Rightarrow> py_error + real) \<Rightarrow> point \<Rightarrow> point \<Rightarrow> point list \<Rightarrow> real \<Rightarrow> nat \<Rightarrow> py_error + point" where
  "buffered_voronoi_clip inv_cdf own goal peers safety_radius iters =
     bindE (buffered_voronoi_halfspaces inv_cdf own peers safety_radius) (\<lambda>hs.
       Inr (project_to_halfspaces goal hs iters))"

definition buffered_uncertainty_voronoi_clip ::
    "(real \<Rightarrow> py_error + real) \<Rightarrow> point \<Rightarrow> point \<Rightarrow> (point \<times> cov2 option) list \<Rightarrow> real \<Rightarrow> real \<Rightarrow> nat \<Rightarrow> py_error + point" where
  "buffered_uncertainty_voronoi_clip inv_cdf own goal peers safety_radius delta iters =
     bindE (voronoi_halfspaces inv_cdf own peers safety_radius delta) (\<lambda>hs.
       Inr (project_to_halfspaces goal hs iters))"

end
