(* ===== verification/Orca.thy ===== *)
theory Orca
  imports Deconflict
begin

text \<open>
  Reciprocal collision avoidance (\<open>flight_lib/orca.py\<close>): the half-plane of velocities each drone allows
  itself for one peer, and the incremental linear program over them. Only the horizontal components of
  positions and velocities are read.
\<close>

record orca_peer =
  peer_position :: point
  peer_velocity :: point
  combined_radius :: real

record orca_result =
  velocity :: point
  lp_feasible :: bool
  lp_active :: nat
  max_violation :: real

definition det2 :: "point \<Rightarrow> point \<Rightarrow> real" where
  "det2 a b = fst a * snd b - snd a * fst b"

definition across :: "point \<Rightarrow> point" where
  "across u = (snd u, - fst u)"

text \<open>The leg of the velocity obstacle on the side the relative velocity is.\<close>

definition leg_direction :: "point \<Rightarrow> point \<Rightarrow> real \<Rightarrow> real \<Rightarrow> point" where
  "leg_direction p w leg radius =
     (if det2 p w > 0
      then scale2 (1 / dot2 p p) (fst p * leg - snd p * radius, fst p * radius + snd p * leg)
      else scale2 (- 1 / dot2 p p) (fst p * leg + snd p * radius, - fst p * radius + snd p * leg))"

text \<open>The direction of the boundary line and the change of relative velocity it asks for.\<close>

definition orca_line :: "point \<Rightarrow> point \<Rightarrow> real \<Rightarrow> real \<Rightarrow> real \<Rightarrow> point \<times> point" where
  "orca_line p rel radius time_horizon time_step =
     (let dist_sq = dot2 p p; radius_sq = radius * radius
      in if dist_sq > radius_sq
         then
           let inv_horizon = 1 / max (1 / 1000) time_horizon;
               w = sub2 rel (scale2 inv_horizon p);
               w_sq = dot2 w w; dp = dot2 w p
           in if dp < 0 \<and> dp * dp > radius_sq * w_sq
              then
                let w_len = sqrt (max w_sq (1 / 10 ^ 12)); unit_w = scale2 (1 / w_len) w
                in (across unit_w, scale2 (radius * inv_horizon - w_len) unit_w)
              else
                let leg = sqrt (max 0 (dist_sq - radius_sq));
                    d = leg_direction p w leg radius
                in (d, sub2 (scale2 (dot2 rel d) d) rel)
         else
           let inv_step = 1 / max (1 / 1000) time_step;
               w = sub2 rel (scale2 inv_step p);
               w_len = norm2 w;
               unit_w = (if w_len \<le> 1 / 10 ^ 9 then scale2 (- 1 / max (sqrt dist_sq) (1 / 10 ^ 9)) p
                         else scale2 (1 / w_len) w)
           in (across unit_w, scale2 (radius * inv_step - w_len) unit_w))"

definition orca_halfplane :: "point \<Rightarrow> orca_peer \<Rightarrow> real \<Rightarrow> real \<Rightarrow> halfspace" where
  "orca_halfplane own_velocity peer time_horizon time_step =
     (let (d, u) = orca_line (peer_position peer) (sub2 own_velocity (peer_velocity peer)) (combined_radius peer)
                     time_horizon time_step;
          pt = add2 own_velocity (scale2 (1 / 2) u);
          normal = (- snd d, fst d)
      in (normal, dot2 normal pt))"

definition clip_speed :: "point \<Rightarrow> real \<Rightarrow> point" where
  "clip_speed v max_speed = (let speed = norm2 v in if speed \<le> max_speed then v else scale2 (max_speed / speed) v)"

text \<open>The loop over the preceding constraints, on \<open>(lower, upper)\<close>; \<open>None\<close> is the early return.\<close>

fun line_interval :: "point \<Rightarrow> point \<Rightarrow> real \<Rightarrow> real \<Rightarrow> halfspace list \<Rightarrow> (real \<times> real) option" where
  "line_interval pt d lower upper [] = Some (lower, upper)"
| "line_interval pt d lower upper ((n, b) # rest) =
     (let coefficient = dot2 n d; required = b - dot2 n pt
      in if \<bar>coefficient\<bar> \<le> 1 / 10 ^ 12
         then (if required > 1 / 10 ^ 9 then None else line_interval pt d lower upper rest)
         else
           let limit = required / coefficient;
               lower' = (if coefficient > 0 then max lower limit else lower);
               upper' = (if coefficient > 0 then upper else min upper limit)
           in if lower' > upper' + 1 / 10 ^ 10 then None else line_interval pt d lower' upper' rest)"

definition line_candidate :: "point \<Rightarrow> halfspace \<Rightarrow> halfspace list \<Rightarrow> real \<Rightarrow> point option" where
  "line_candidate preferred constraint preceding max_speed =
     (let normal = fst constraint; pt = scale2 (snd constraint) normal;
          radius_sq = max_speed * max_speed - dot2 pt pt
      in if radius_sq < - 1 / 10 ^ 10 then None
         else
           let extent = sqrt (max 0 radius_sq); d = (- snd normal, fst normal)
           in map_option (\<lambda>(lower, upper).
                let target = dot2 d (sub2 preferred pt) in add2 pt (scale2 (min upper (max lower target)) d))
                (line_interval pt d (- extent) extent preceding))"

definition violations :: "halfspace list \<Rightarrow> point \<Rightarrow> real list" where
  "violations constraints v = map (\<lambda>(n, b). max 0 (b - dot2 n v)) constraints"

definition worst :: "real list \<Rightarrow> real" where
  "worst vs = (if vs = [] then 0 else Max (set vs))"

text \<open>The loop over the constraints; \<open>seen\<close> are \<open>constraints[:index]\<close>.\<close>

fun lp_loop :: "point \<Rightarrow> real \<Rightarrow> halfspace list \<Rightarrow> halfspace list \<Rightarrow> halfspace list \<Rightarrow> point \<Rightarrow> nat \<Rightarrow> orca_result" where
  "lp_loop preferred max_speed constraints seen [] result solved =
     \<lparr>velocity = result, lp_feasible = True,
      lp_active = length (filter (\<lambda>(n, b). \<bar>dot2 n result - b\<bar> \<le> 1 / 10 ^ 7) constraints),
      max_violation = worst (violations constraints result)\<rparr>"
| "lp_loop preferred max_speed constraints seen (c # rest) result solved =
     (if dot2 (fst c) result \<ge> snd c - 1 / 10 ^ 9
      then lp_loop preferred max_speed constraints (seen @ [c]) rest result (solved + 1)
      else
        case line_candidate preferred c seen max_speed of
          None \<Rightarrow> \<lparr>velocity = result, lp_feasible = False, lp_active = solved,
                  max_violation = worst (violations constraints result)\<rparr>
        | Some candidate \<Rightarrow> lp_loop preferred max_speed constraints (seen @ [c]) rest candidate (solved + 1))"

definition linear_program :: "point \<Rightarrow> halfspace list \<Rightarrow> real \<Rightarrow> orca_result" where
  "linear_program preferred constraints max_speed =
     lp_loop preferred max_speed constraints [] constraints (clip_speed preferred max_speed) 0"

definition orca_solution :: "point \<Rightarrow> point \<Rightarrow> orca_peer list \<Rightarrow> real \<Rightarrow> real \<Rightarrow> real \<Rightarrow> orca_result" where
  "orca_solution preferred own_velocity peers time_horizon time_step max_speed =
     linear_program preferred (map (\<lambda>p. orca_halfplane own_velocity p time_horizon time_step) peers) max_speed"

text \<open>The range rate is a number or not finite (\<open>None\<close>).\<close>

definition orca_effective_radius :: "real \<Rightarrow> real \<Rightarrow> real option \<Rightarrow> real \<Rightarrow> real \<Rightarrow> real" where
  "orca_effective_radius protected_radius uncertainty range_rate response_time max_closing =
     protected_radius + uncertainty
       + (case range_rate of None \<Rightarrow> 0 | Some r \<Rightarrow> max 0 (min max_closing (- r))) * response_time"

end
