(* ===== verification/Deconflict_Properties.thy ===== *)
theory Deconflict_Properties
  imports Deconflict
begin

text \<open>
  Guarantees of the deconfliction primitives: the closest point of approach is the closest, two drones
  that deconflict by phase take opposite sides, the phase guard's rate respects every barrier and is
  the nearest that does, and reciprocal Voronoi cells keep two drones apart.
\<close>

section \<open>Closest point of approach\<close>

lemma norm3_along:
  "norm3 (add3 p (scale3 t v)) = sqrt (dot3 p p + 2 * t * dot3 p v + t * t * dot3 v v)"
  by (simp add: norm3_def vec3_simps algebra_simps)

lemma quadratic_least:
  fixes b s t u :: real
  assumes "0 < s" "t = max 0 (- b / s)" "0 \<le> u"
  shows "2 * t * b + t * t * s \<le> 2 * u * b + u * u * s"
proof (cases "b \<le> 0")
  case True
  then have "t * s = - b" using assms(1,2) by (simp add: max_def divide_le_0_iff)
  have "2 * u * b + u * u * s - (2 * t * b + t * t * s) = s * ((u - t) * (u - t))"
    using \<open>t * s = - b\<close> by algebra
  moreover have "0 \<le> s * ((u - t) * (u - t))" using assms(1) by simp
  ultimately show ?thesis by linarith
next
  case False
  then have "t = 0" using assms(1,2) by (simp add: max_def divide_le_0_iff)
  then show ?thesis using False assms by simp
qed

text \<open>
  The closest point of approach is the closest. Unless the relative speed is negligible, the
  predicted distance is the distance at the predicted time, and at no later time from now on is the
  peer nearer.
\<close>

theorem cpa_is_closest:
  assumes "1 / 10 ^ 9 < dot3 v v" "closest_point_of_approach p v = (t, d)"
  shows "0 \<le> t \<and> d = norm3 (add3 p (scale3 t v)) \<and> (\<forall>u \<ge> 0. d \<le> norm3 (add3 p (scale3 u v)))"
proof -
  have t: "t = max 0 (- dot3 p v / dot3 v v)" "d = norm3 (add3 p (scale3 t v))"
    using assms by (auto simp: closest_point_of_approach_def Let_def)
  have "d \<le> norm3 (add3 p (scale3 u v))" if "0 \<le> u" for u
    unfolding t(2) norm3_along using quadratic_least [OF _ t(1) that] assms(1) by simp
  then show ?thesis using t by simp
qed

theorem cpa_is_closest_witness:
  "closest_point_of_approach (3, 4, 0) (- 1, 0, 0) = (3, 4) \<and> 4 \<le> norm3 (add3 (3, 4, 0) (scale3 5 (- 1, 0, 0)))"
proof -
  have c: "closest_point_of_approach (3, 4, 0) (- 1, 0, 0) = (3, 4)"
    by (simp add: closest_point_of_approach_def vec3_simps norm3_def)
  show ?thesis using cpa_is_closest [OF _ c] c by (simp add: dot3_def)
qed

section \<open>Phase deconfliction\<close>

lemma wrap_angle_unique:
  assumes "- pi \<le> y" "y < pi" "y = x - 2 * pi * of_int k"
  shows "wrap_angle x = y"
proof -
  have "(x + pi) / (2 * pi) = (y + pi) / (2 * pi) + of_int k" using assms(3) by (simp add: field_simps)
  moreover have "0 \<le> (y + pi) / (2 * pi)" "(y + pi) / (2 * pi) < 1" using assms(1,2) by (simp_all add: field_simps)
  ultimately have "\<lfloor>(x + pi) / (2 * pi)\<rfloor> = k" by (intro floor_unique) simp_all
  then show ?thesis using assms(3) by (simp add: wrap_angle_def py_fmod_def)
qed

lemma wrap_angle_minus:
  assumes "wrap_angle x \<noteq> - pi"
  shows "wrap_angle (- x) = - wrap_angle x"
proof -
  obtain k :: int where k: "wrap_angle x = x - 2 * pi * of_int k" using wrap_angle_shift by blast
  show ?thesis
    by (rule wrap_angle_unique [of _ _ "- k"]) (use k wrap_angle_range [of x] assms in \<open>auto simp: less_le\<close>)
qed

lemma wrap_angle_minus_pi:
  assumes "wrap_angle x = - pi"
  shows "wrap_angle (- x) = - pi"
proof -
  obtain k :: int where k: "wrap_angle x = x - 2 * pi * of_int k" using wrap_angle_shift by blast
  show ?thesis
    by (rule wrap_angle_unique [of _ _ "1 - k"]) (use k assms in \<open>auto simp: algebra_simps\<close>)
qed

lemma ahead_exclusive:
  assumes "i \<noteq> j" "wrap_angle (a - b) \<noteq> - pi"
  shows "is_ahead b a j i \<longleftrightarrow> \<not> is_ahead a b i j"
proof -
  have "wrap_angle (b - a) = - wrap_angle (a - b)" using wrap_angle_minus [OF assms(2)] by simp
  then show ?thesis using assms(1) by (auto simp: is_ahead_def Let_def)
qed

lemma opposite_both_behind:
  assumes "wrap_angle (a - b) = - pi"
  shows "\<not> is_ahead a b i j" "\<not> is_ahead b a k l"
proof -
  have "wrap_angle (b - a) = - pi" using wrap_angle_minus_pi [OF assms] by simp
  moreover have "1 / 10 ^ 6 < \<bar>- pi\<bar>" using pi_ge_two by simp
  ultimately show "\<not> is_ahead a b i j" "\<not> is_ahead b a k l" using assms by (simp_all add: is_ahead_def Let_def)
qed

definition alert_severity :: "real \<Rightarrow> real \<Rightarrow> deconflict_kw \<Rightarrow> real" where
  "alert_severity t_cpa d_cpa kw =
     (if t_cpa > horizon_s kw \<or> d_cpa \<ge> clearance_m kw then 0
      else np_clip ((clearance_m kw - d_cpa) / clearance_m kw * (1 - t_cpa / horizon_s kw)) 0 1)"

lemma alert_severity_range: "0 \<le> alert_severity t d kw" "alert_severity t d kw \<le> 1"
  by (simp_all add: alert_severity_def np_clip_def)

lemma scaled_rate_range:
  fixes s :: real
  assumes "0 \<le> s" "s \<le> 1" "lo \<le> 1" "1 \<le> hi" "0 \<le> w"
  shows "np_clip (w * (1 + (hi - 1) * s)) (lo * w) (hi * w) = w * (1 + (hi - 1) * s)"
    and "np_clip (w * (1 - (1 - lo) * s)) (lo * w) (hi * w) = w * (1 - (1 - lo) * s)"
proof -
  have "0 \<le> (hi - 1) * s" "(hi - 1) * s \<le> hi - 1" "0 \<le> (1 - lo) * s" "(1 - lo) * s \<le> 1 - lo"
    using assms by (simp_all add: mult_left_le)
  then have "lo \<le> 1 + (hi - 1) * s" "1 + (hi - 1) * s \<le> hi" "lo \<le> 1 - (1 - lo) * s" "1 - (1 - lo) * s \<le> hi"
    using assms by linarith+
  then show "np_clip (w * (1 + (hi - 1) * s)) (lo * w) (hi * w) = w * (1 + (hi - 1) * s)"
    "np_clip (w * (1 - (1 - lo) * s)) (lo * w) (hi * w) = w * (1 - (1 - lo) * s)"
    using assms(5) by (simp_all add: np_clip_id mult.commute [of w] mult_right_mono)
qed

lemma deconflict_rate_value:
  fixes t d :: real
  assumes "0 < clearance_m kw" "0 < horizon_s kw" "0 \<le> w" "min_scale kw \<le> 1" "1 \<le> max_scale kw"
  shows "phase_deconflict_rate a b w t d i j kw
    = Inr (if is_ahead a b i j then w * (1 + (max_scale kw - 1) * alert_severity t d kw)
           else w * (1 - (1 - min_scale kw) * alert_severity t d kw), alert_severity t d kw)"
  using assms(1,2) scaled_rate_range [OF alert_severity_range assms(4,5,3), of t d kw]
  by (auto simp: phase_deconflict_rate_def alert_severity_def Let_def)

text \<open>
  Phase deconfliction is reciprocal. Two drones that predict the same approach, each computing on
  its own, get the same severity, and exactly one of them speeds up while the other slows down,
  unless they are exactly half a turn apart: then both slow down, because \<open>wrap_angle\<close> sends both
  phase gaps to minus pi.
\<close>

theorem phase_deconflict_reciprocal:
  assumes "0 < clearance_m kw" "0 < horizon_s kw" "0 \<le> w" "min_scale kw \<le> 1" "1 \<le> max_scale kw" "i \<noteq> j"
  shows "\<exists>s. 0 \<le> s \<and> s \<le> 1 \<and>
    (let fast = w * (1 + (max_scale kw - 1) * s); slow = w * (1 - (1 - min_scale kw) * s);
         mine = phase_deconflict_rate a b w t d i j kw; theirs = phase_deconflict_rate b a w t d j i kw
     in if wrap_angle (a - b) = - pi then mine = Inr (slow, s) \<and> theirs = Inr (slow, s)
        else mine = Inr (fast, s) \<and> theirs = Inr (slow, s) \<or> mine = Inr (slow, s) \<and> theirs = Inr (fast, s))"
  using ahead_exclusive [OF assms(6), of a b] opposite_both_behind(1) [of a b i j] opposite_both_behind(2) [of a b j i] alert_severity_range
  by (intro exI [of _ "alert_severity t d kw"]) (simp add: deconflict_rate_value [OF assms(1-5)] Let_def)

definition default_deconflict :: deconflict_kw where
  "default_deconflict = \<lparr>clearance_m = 5 / 2, horizon_s = 7 / 2, max_scale = 3 / 2, min_scale = 1 / 2\<rparr>"

theorem phase_deconflict_reciprocal_witness:
  "phase_deconflict_rate (pi / 2) (- (pi / 2)) 2 0 0 1 2 default_deconflict = Inr (1, 1)
   \<and> phase_deconflict_rate (- (pi / 2)) (pi / 2) 2 0 0 2 1 default_deconflict = Inr (1, 1)"
proof -
  obtain s where s: "phase_deconflict_rate (pi / 2) (- (pi / 2)) 2 0 0 1 2 default_deconflict = Inr (2 * (1 - (1 - 1 / 2) * s), s)"
    "phase_deconflict_rate (- (pi / 2)) (pi / 2) 2 0 0 2 1 default_deconflict = Inr (2 * (1 - (1 - 1 / 2) * s), s)"
    using phase_deconflict_reciprocal [of default_deconflict 2 1 2 "pi / 2" "- (pi / 2)" 0 0] wrap_angle_pi
    by (auto simp: default_deconflict_def Let_def)
  have "phase_deconflict_rate (pi / 2) (- (pi / 2)) 2 0 0 1 2 default_deconflict
      = Inr (2 * (1 - (1 - 1 / 2) * alert_severity 0 0 default_deconflict), alert_severity 0 0 default_deconflict)"
    by (simp add: deconflict_rate_value opposite_both_behind wrap_angle_pi default_deconflict_def)
  moreover have "alert_severity 0 0 default_deconflict = 1" by (simp add: alert_severity_def default_deconflict_def np_clip_def)
  ultimately show ?thesis using s by simp
qed

section \<open>The phase guard\<close>

text \<open>The rates an own-rate interval admits.\<close>

definition admits :: "real \<times> real \<times> bool \<Rightarrow> real \<Rightarrow> bool" where
  "admits acc r \<longleftrightarrow> (case acc of (lower, upper, ok) \<Rightarrow> ok \<and> lower \<le> r \<and> r \<le> upper)"

definition meets :: "real \<times> real \<Rightarrow> real \<Rightarrow> bool" where
  "meets rb r \<longleftrightarrow> (if \<bar>fst rb\<bar> \<le> 1 / 10 ^ 9 then snd rb \<le> 0 else snd rb \<le> fst rb * r)"

lemma narrow_admits: "admits (narrow acc rb) r \<longleftrightarrow> admits acc r \<and> meets rb r"
  by (cases acc; cases rb) (auto simp: admits_def narrow_def meets_def pos_divide_le_eq neg_le_divide_eq mult.commute)

lemma narrows_admit: "admits (foldl narrow acc bs) r \<longleftrightarrow> admits acc r \<and> list_all (\<lambda>b. meets b r) bs"
  by (induction bs arbitrary: acc) (auto simp: narrow_admits)

lemma clip_nearest:
  fixes x r :: real
  assumes "lower \<le> r" "r \<le> upper"
  shows "\<bar>np_clip x lower upper - x\<bar> \<le> \<bar>r - x\<bar>"
  using assms by (auto simp: np_clip_def min_def max_def)

definition guard_barriers :: "point \<Rightarrow> point \<Rightarrow> guard_kw \<Rightarrow> point list \<Rightarrow> point list \<Rightarrow> (real \<times> real) list" where
  "guard_barriers own radial kw ps vs = map (barrier own radial kw) (zip ps vs)"

definition allowed_rate :: "point \<Rightarrow> point \<Rightarrow> guard_kw \<Rightarrow> point list \<Rightarrow> point list \<Rightarrow> real \<Rightarrow> bool" where
  "allowed_rate own radial kw ps vs r \<longleftrightarrow> min_rate kw \<le> r \<and> r \<le> max_rate kw
     \<and> list_all (\<lambda>b. meets b r) (guard_barriers own radial kw ps vs)"

lemma guard_interval:
  "foldl narrow (min_rate kw, max_rate kw, min_rate kw \<le> max_rate kw) (guard_barriers own radial kw ps vs) = (lo, hi, ok)
    \<Longrightarrow> ok \<and> lo \<le> r \<and> r \<le> hi \<longleftrightarrow> allowed_rate own radial kw ps vs r"
  using narrows_admit [of "(min_rate kw, max_rate kw, min_rate kw \<le> max_rate kw)" "guard_barriers own radial kw ps vs" r]
  by (auto simp: admits_def allowed_rate_def)

lemma guard_parts:
  assumes "phase_guard_rate own radial desired ps vs kw = Inr sol"
  obtains lo hi ok where
    "foldl narrow (min_rate kw, max_rate kw, min_rate kw \<le> max_rate kw) (guard_barriers own radial kw ps vs) = (lo, hi, ok)"
    and "feasible sol \<longleftrightarrow> ok \<and> lo \<le> hi"
    and "guard_rate sol = (if feasible sol then np_clip desired lo hi else np_clip desired (min_rate kw) (max_rate kw))"
  using assms by (auto simp: phase_guard_rate_def guard_barriers_def Let_def split: if_splits prod.splits)

lemma phase_guard_rate_allowed:
  assumes "phase_guard_rate own radial desired ps vs kw = Inr sol" "feasible sol"
  shows "allowed_rate own radial kw ps vs (guard_rate sol)"
proof -
  obtain lo hi ok where f: "foldl narrow (min_rate kw, max_rate kw, min_rate kw \<le> max_rate kw)
      (guard_barriers own radial kw ps vs) = (lo, hi, ok)"
    and "ok" "lo \<le> hi" "guard_rate sol = np_clip desired lo hi"
    using assms(2) by (rule_tac guard_parts [OF assms(1)]) simp
  then show ?thesis using np_clip_range [of lo hi desired] by (simp flip: guard_interval [OF f])
qed

text \<open>
  The phase guard is exact. It reports a feasible rate exactly when some rate within the limits
  respects every barrier, its rate then does so and no other such rate is closer to the desired one;
  otherwise its rate still stays within the limits.
\<close>

theorem phase_guard_exact:
  assumes "phase_guard_rate own radial desired ps vs kw = Inr sol"
  shows "(feasible sol \<longleftrightarrow> (\<exists>r. allowed_rate own radial kw ps vs r))
    \<and> (feasible sol \<longrightarrow> allowed_rate own radial kw ps vs (guard_rate sol)
         \<and> (\<forall>r. allowed_rate own radial kw ps vs r \<longrightarrow> \<bar>guard_rate sol - desired\<bar> \<le> \<bar>r - desired\<bar>))
    \<and> (min_rate kw \<le> max_rate kw \<longrightarrow> min_rate kw \<le> guard_rate sol \<and> guard_rate sol \<le> max_rate kw)"
proof -
  obtain lo hi ok where f: "foldl narrow (min_rate kw, max_rate kw, min_rate kw \<le> max_rate kw)
      (guard_barriers own radial kw ps vs) = (lo, hi, ok)"
    and fe: "feasible sol \<longleftrightarrow> ok \<and> lo \<le> hi"
    and r: "guard_rate sol = (if feasible sol then np_clip desired lo hi else np_clip desired (min_rate kw) (max_rate kw))"
    by (rule guard_parts [OF assms])
  note iff = guard_interval [OF f]
  have exist: "feasible sol \<longleftrightarrow> (\<exists>r. allowed_rate own radial kw ps vs r)"
    unfolding fe iff [symmetric] by (meson order_refl order_trans)
  note ok = phase_guard_rate_allowed [OF assms]
  have near: "\<bar>guard_rate sol - desired\<bar> \<le> \<bar>r - desired\<bar>" if "feasible sol" "allowed_rate own radial kw ps vs r" for r
    using that iff [of r] clip_nearest [of lo r hi desired] by (simp add: \<open>guard_rate sol = _\<close>)
  have "min_rate kw \<le> guard_rate sol \<and> guard_rate sol \<le> max_rate kw" if "min_rate kw \<le> max_rate kw"
    using ok np_clip_range [OF that, of desired] by (cases "feasible sol") (simp_all add: allowed_rate_def r)
  then show ?thesis using exist ok near by blast
qed

definition real_guard :: guard_kw where
  "real_guard = \<lparr>protected_distance = 2, barrier_gamma = 1, min_rate = 0, max_rate = 1\<rparr>"

theorem phase_guard_exact_witness:
  "\<exists>sol. phase_guard_rate (4, 0) (4, 0) 1 [(4, 3)] [(0, 0)] real_guard = Inr sol
    \<and> guard_rate sol = 5 / 24 \<and> allowed_rate (4, 0) (4, 0) real_guard [(4, 3)] [(0, 0)] (5 / 24)"
proof -
  have v: "\<exists>sol. phase_guard_rate (4, 0) (4, 0) 1 [(4, 3)] [(0, 0)] real_guard = Inr sol
      \<and> guard_rate sol = 5 / 24 \<and> feasible sol"
    by (simp add: phase_guard_rate_def real_guard_def barrier_def vec2_simps narrow_def np_clip_def Let_def)
  then show ?thesis using phase_guard_exact by metis
qed

text \<open>The drone turning at a constant rate about the centre its radial is measured from.\<close>

definition turned :: "point \<Rightarrow> point \<Rightarrow> real \<Rightarrow> point" where
  "turned centre radial angle = add2 centre
     (cos angle * fst radial - sin angle * snd radial, sin angle * fst radial + cos angle * snd radial)"

definition barrier_value :: "real \<Rightarrow> point \<Rightarrow> point \<Rightarrow> real" where
  "barrier_value distance own peer = dot2 (sub2 own peer) (sub2 own peer) - distance ^ 2"

lemma turned_0 [simp]: "turned centre radial 0 = add2 centre radial"
  by (simp add: turned_def)

lemma barrier_motion:
  "((\<lambda>t. barrier_value D (turned centre radial (rate * t)) (add2 pp (scale2 t pv)))
     has_real_derivative 2 * dot2 (sub2 (add2 centre radial) pp) (sub2 (- snd radial * rate, fst radial * rate) pv)) (at 0)"
  unfolding barrier_value_def turned_def vec2_simps
  by (auto intro!: derivative_eq_intros simp: algebra_simps)

lemma barrier_derivative:
  assumes "barrier (add2 centre radial) radial kw (pp, pv) = (row, bound)"
  shows "((\<lambda>t. barrier_value (protected_distance kw) (turned centre radial (rate * t)) (add2 pp (scale2 t pv)))
      has_real_derivative row * rate - bound
        - barrier_gamma kw * barrier_value (protected_distance kw) (add2 centre radial) pp) (at 0)"
proof -
  define sep where "sep = sub2 (add2 centre radial) pp"
  have "row = 2 * dot2 sep (- snd radial, fst radial)"
    "bound = - barrier_gamma kw * (dot2 sep sep - protected_distance kw ^ 2) + 2 * dot2 sep pv"
    using assms by (auto simp: barrier_def sep_def Let_def)
  then have "2 * dot2 sep (sub2 (- snd radial * rate, fst radial * rate) pv)
      = row * rate - bound - barrier_gamma kw * barrier_value (protected_distance kw) (add2 centre radial) pp"
    by (simp add: barrier_value_def flip: sep_def) (simp add: dot2_def sub2_def algebra_simps)
  then show ?thesis using barrier_motion [of "protected_distance kw" centre radial rate pp pv] by (simp add: sep_def)
qed



section \<open>Buffered Voronoi cells\<close>

definition in_cell :: "halfspace list \<Rightarrow> point \<Rightarrow> bool" where
  "in_cell hs x \<longleftrightarrow> list_all (\<lambda>(n, b). dot2 n x \<le> b) hs"

lemma dot2_linear:
  "dot2 n (add2 x y) = dot2 n x + dot2 n y" "dot2 n (sub2 x y) = dot2 n x - dot2 n y" "dot2 n (scale2 k x) = k * dot2 n x"
  "dot2 (scale2 k n) x = k * dot2 n x"
  by (simp_all add: vec2_simps algebra_simps)

lemma normalised:
  assumes "0 < norm2 d"
  shows "dot2 (scale2 (1 / norm2 d) d) (scale2 (1 / norm2 d) d) = 1"
proof -
  have "1 / norm2 d * (1 / norm2 d * dot2 d d) = 1" using assms by (simp add: field_simps flip: norm2_square)
  then show ?thesis by (simp only: dot2_linear)
qed

lemma norm2_scale: "norm2 (scale2 k a) = \<bar>k\<bar> * norm2 a"
  using hypot_scale [of k "fst a" "snd a"] by (simp add: norm2_hypot scale2_def)

text \<open>Without covariances every peer that is not on top of the drone contributes its buffered bisector.\<close>

lemma bvc_row:
  assumes "buffered_voronoi_halfspaces q own peers r = Inr hs" "peer \<in> set peers" "1 / 10 ^ 6 \<le> norm2 (sub2 peer own)"
  defines "n \<equiv> scale2 (1 / norm2 (sub2 peer own)) (sub2 peer own)"
  shows "(n, dot2 n own + norm2 (sub2 peer own) / 2 - r) \<in> set hs"
proof -
  obtain rows where rows: "mapE (voronoi_halfspace q own r 0) (map (\<lambda>p. (p, None)) peers) = Inr rows" "hs = concat rows"
    using assms(1) by (auto simp: buffered_voronoi_halfspaces_def voronoi_halfspaces_def)
  obtain i where i: "i < length peers" "peers ! i = peer" using assms(2) by (metis in_set_conv_nth)
  have "voronoi_halfspace q own r 0 (peer, None) = Inr (rows ! i)" "i < length rows"
    using mapE_Inr_nth [OF rows(1)] i by auto
  moreover have "voronoi_halfspace q own r 0 (peer, None) = Inr [(n, dot2 n own + norm2 (sub2 peer own) / 2 - r)]"
    using assms(3) by (simp add: voronoi_halfspace_def n_def Let_def)
  ultimately have "[(n, dot2 n own + norm2 (sub2 peer own) / 2 - r)] \<in> set rows" by simp
  then show ?thesis unfolding rows(2) set_concat by (rule UN_I) (rule list.set_intros)
qed

text \<open>
  Reciprocal cells keep two drones apart. If two drones clip against each other's position, then
  any point of the one's cell is at least twice the safety radius from any point of the other's,
  wherever the remaining peers are.
\<close>

theorem bvc_cells_apart:
  assumes "buffered_voronoi_halfspaces q a ps r = Inr hs" "b \<in> set ps"
    and "buffered_voronoi_halfspaces q b ps' r = Inr hs'" "a \<in> set ps'"
    and "1 / 10 ^ 6 \<le> norm2 (sub2 b a)" "in_cell hs x" "in_cell hs' y"
  shows "2 * r \<le> norm2 (sub2 y x)"
proof -
  define len where "len = norm2 (sub2 b a)"
  define n where "n = scale2 (1 / len) (sub2 b a)"
  have len: "0 < len" using assms(5) by (simp add: len_def)
  have sym: "norm2 (sub2 a b) = len" by (simp add: len_def norm2_def vec2_simps algebra_simps)
  have opp: "scale2 (1 / len) (sub2 a b) = scale2 (- 1) n" by (simp add: n_def vec2_simps algebra_simps)
  have unit: "dot2 n n = 1" using normalised [of "sub2 b a"] len by (simp add: n_def len_def)
  have "(n, dot2 n a + len / 2 - r) \<in> set hs"
    using bvc_row [OF assms(1,2,5)] by (simp add: n_def len_def)
  then have x: "dot2 n x \<le> dot2 n a + len / 2 - r" using assms(6) by (auto simp: in_cell_def list_all_iff)
  have "(scale2 (- 1) n, dot2 (scale2 (- 1) n) b + len / 2 - r) \<in> set hs'"
    using bvc_row [OF assms(3,4)] assms(5) unfolding sym opp len_def [symmetric] by blast
  then have y: "- dot2 n y \<le> - dot2 n b + len / 2 - r"
    using assms(7) by (force simp: in_cell_def list_all_iff dot2_linear(4))
  have "dot2 n (sub2 b a) = 1 / len * (len * len)" by (simp add: n_def dot2_linear(4) len_def norm2_square)
  then have "dot2 n b - dot2 n a = len" using len by (simp add: dot2_linear(2))
  then have "2 * r \<le> dot2 n (sub2 y x)" using x y by (simp add: dot2_linear(2))
  also have "\<dots> \<le> norm2 (sub2 y x)" by (rule unit_projection [OF unit])
  finally show ?thesis .
qed

theorem bvc_cells_apart_witness:
  "in_cell [((1, 0), 1)] (1, 5) \<and> in_cell [((- 1, 0), - 3)] (3, 0) \<and> 2 * 1 \<le> norm2 (sub2 (3, 0) (1, 5))"
proof -
  let ?q = "\<lambda>_. Inr 0"
  have "buffered_voronoi_halfspaces ?q (0, 0) [(4, 0)] 1 = Inr [((1, 0), 1)]"
    "buffered_voronoi_halfspaces ?q (4, 0) [(0, 0)] 1 = Inr [((- 1, 0), - 3)]"
    by (simp_all add: buffered_voronoi_halfspaces_def voronoi_halfspaces_def voronoi_halfspace_def norm2_def vec2_simps)
  moreover have "in_cell [((1, 0), 1)] (1, 5)" "in_cell [((- 1, 0), - 3)] (3, 0)" by (simp_all add: in_cell_def vec2_simps)
  moreover have "1 / 10 ^ 6 \<le> norm2 (sub2 (4, 0) (0, 0))" by (simp add: norm2_def vec2_simps)
  ultimately show ?thesis
    using bvc_cells_apart [of ?q "(0, 0)" "[(4, 0)]" 1 _ "(4, 0)" "[(0, 0)]" _ "(1, 5)" "(3, 0)"] by fastforce
qed

lemma dykstra_single:
  assumes "dot2 n n = 1" "b < dot2 n goal"
  shows "dykstra (Suc k) [(n, b)] goal [(0, 0)] = sub2 goal (scale2 (dot2 n goal - b) n)"
proof -
  let ?y = "sub2 goal (scale2 (dot2 n goal - b) n)"
  have first: "dykstra_sweep goal [((n, b), (0, 0))] = (?y, [sub2 goal ?y])"
    using assms(2) by (simp add: Let_def add2_def)
  have again: "dykstra_sweep ?y [((n, b), sub2 goal ?y)] = (?y, [sub2 goal ?y])"
  proof -
    have "add2 ?y (sub2 goal ?y) = goal" by (simp add: vec2_simps prod_eq_iff)
    then show ?thesis using assms(2) by (simp add: Let_def)
  qed
  have "dykstra k [(n, b)] ?y [sub2 goal ?y] = ?y" by (induction k) (simp_all add: again del: dykstra_sweep.simps)
  then show ?thesis by (simp add: first del: dykstra_sweep.simps)
qed

text \<open>
  With one peer the clip is the projection. The clipped goal lies in the drone's cell (up to the
  tolerance of the feasibility test, a goal already in the cell is returned unchanged), and no point of
  the cell is closer to the goal.
\<close>

theorem bvc_clip_single_peer:
  assumes "buffered_voronoi_halfspaces q own [peer] r = Inr hs" "1 / 10 ^ 6 \<le> norm2 (sub2 peer own)" "0 < iters"
    and "buffered_voronoi_clip q own goal [peer] r iters = Inr x"
  shows "list_all (\<lambda>(n, b). dot2 n x \<le> b + 1 / 10 ^ 9) hs
    \<and> (in_cell hs goal \<longrightarrow> x = goal)
    \<and> (\<forall>z. in_cell hs z \<longrightarrow> norm2 (sub2 goal x) \<le> norm2 (sub2 goal z))"
proof -
  define n where "n = scale2 (1 / norm2 (sub2 peer own)) (sub2 peer own)"
  obtain b where hs: "hs = [(n, b)]"
    using assms(1,2)
    by (auto simp: n_def buffered_voronoi_halfspaces_def voronoi_halfspaces_def voronoi_halfspace_def Let_def)
  have unit: "dot2 n n = 1" using assms(2) unfolding n_def by (intro normalised) simp
  have x: "x = project_to_halfspaces goal hs iters" using assms(1,4) by (simp add: buffered_voronoi_clip_def)
  show ?thesis
  proof (cases "dot2 n goal \<le> b + 1 / 10 ^ 9")
    case True
    then have "x = goal" by (simp add: x hs project_to_halfspaces_def)
    moreover have "norm2 (sub2 goal goal) = 0" by (simp add: norm2_def vec2_simps)
    ultimately show ?thesis using True by (simp add: hs)
  next
    case False
    define s where "s = dot2 n goal - b"
    have s: "0 < s" using False by (simp add: s_def)
    obtain k where k: "iters = Suc k" using assms(3) by (cases iters) auto
    have xv: "x = sub2 goal (scale2 s n)"
      using False dykstra_single [OF unit, of b goal k] by (simp add: x hs k project_to_halfspaces_def s_def)
    have "sub2 goal x = scale2 s n" by (simp add: xv vec2_simps prod_eq_iff)
    then have "norm2 (sub2 goal x) = s" using s unit by (simp add: norm2_scale) (simp add: norm2_def)
    moreover have "s \<le> norm2 (sub2 goal z)" if "in_cell hs z" for z
      using that unit_projection [OF unit, of "sub2 goal z"] by (simp add: hs in_cell_def dot2_linear(2) s_def)
    moreover have "dot2 n x = b" unfolding xv by (simp add: dot2_linear(2,3) unit s_def)
    ultimately show ?thesis using False by (simp add: hs in_cell_def)
  qed
qed

theorem bvc_clip_single_peer_witness:
  "\<exists>x. buffered_voronoi_clip q (0, 0) (4, 0) [(4, 0)] 1 30 = Inr x \<and> norm2 (sub2 (4, 0) x) \<le> 3"
proof -
  obtain hs where hs: "buffered_voronoi_halfspaces q (0, 0) [(4, 0)] 1 = Inr hs" "hs = [((1, 0), 1)]"
    by (simp add: buffered_voronoi_halfspaces_def voronoi_halfspaces_def voronoi_halfspace_def norm2_def vec2_simps)
  moreover obtain x where "buffered_voronoi_clip q (0, 0) (4, 0) [(4, 0)] 1 30 = Inr x"
    using hs(1) by (simp add: buffered_voronoi_clip_def)
  moreover have "in_cell hs (1, 0)" "norm2 (sub2 (4, 0) (1, 0)) = 3"
    by (simp_all add: hs(2) in_cell_def norm2_def vec2_simps)
  moreover have "1 / 10 ^ 6 \<le> norm2 (sub2 (4, 0) (0, 0))" by (simp add: norm2_def vec2_simps)
  ultimately show ?thesis
    using bvc_clip_single_peer [of q "(0, 0)" "(4, 0)" 1 hs 30 "(4, 0)" x] by fastforce
qed

end
