(* ===== verification/Orca_Properties.thy ===== *)
theory Orca_Properties
  imports Orca Deconflict_Properties
begin

text \<open>
  ORCA's guarantee: two drones that each keep to their own half-plane stay a combined radius apart until
  the time horizon, and the linear program keeps to every half-plane it reports as satisfied.
\<close>

section \<open>One pair\<close>

definition opposite :: "point \<Rightarrow> point" where
  "opposite v = scale2 (- 1) v"

lemma opposite_simps [simp]:
  "fst (opposite v) = - fst v" "snd (opposite v) = - snd v" "opposite (x, y) = (- x, - y)"
  "dot2 (opposite a) b = - dot2 a b" "dot2 a (opposite b) = - dot2 a b"
  "sub2 (opposite a) (opposite b) = opposite (sub2 a b)" "scale2 k (opposite a) = opposite (scale2 k a)"
  "norm2 (opposite a) = norm2 a"
  by (simp_all add: opposite_def vec2_simps norm2_def)

lemma det2_opposite [simp]: "det2 (opposite a) (opposite b) = det2 a b"
  by (simp add: det2_def)

lemma leg_direction_mirror: "leg_direction (opposite p) (opposite w) leg r = opposite (leg_direction p w leg r)"
  by (simp add: leg_direction_def) (simp add: opposite_def scale2_def algebra_simps)

lemma across_opposite: "across (opposite u) = opposite (across u)"
  by (simp add: across_def)

lemma orca_line_mirror:
  "orca_line (opposite p) (opposite rel) r tau step = map_prod opposite opposite (orca_line p rel r tau step)"
  by (simp add: orca_line_def Let_def leg_direction_mirror across_opposite)

definition line_normal :: "point \<Rightarrow> point \<Rightarrow> real \<Rightarrow> real \<Rightarrow> real \<Rightarrow> point" where
  "line_normal p rel r tau step = (let d = fst (orca_line p rel r tau step) in (- snd d, fst d))"

text \<open>What a half-plane means for the relative velocity: beyond the line, the drones stay apart.\<close>

lemma cutoff_safe:
  assumes n: "dot2 n n = 1" and v: "(dot2 n p + r) / tau \<le> dot2 n v"
    and c: "r \<le> - dot2 n p" and t: "0 \<le> t" "t \<le> tau" "0 < tau"
  shows "r \<le> norm2 (sub2 (scale2 t v) p)"
proof -
  have "t / tau \<le> 1" "0 \<le> t / tau" using t by simp_all
  then have "t / tau * (- dot2 n p - r) \<le> 1 * (- dot2 n p - r)" using c by (intro mult_right_mono) simp_all
  then have "r \<le> t / tau * (dot2 n p + r) - dot2 n p" by (simp add: algebra_simps)
  also have "\<dots> = t * ((dot2 n p + r) / tau) - dot2 n p" by simp
  also have "\<dots> \<le> t * dot2 n v - dot2 n p" using mult_left_mono [OF v t(1)] by simp
  also have "\<dots> = dot2 n (sub2 (scale2 t v) p)" by (simp add: dot2_linear)
  also have "\<dots> \<le> norm2 (sub2 (scale2 t v) p)" by (rule unit_projection [OF n])
  finally show ?thesis .
qed

lemma leg_safe:
  assumes n: "dot2 n n = 1" and v: "0 \<le> dot2 n v" and p: "dot2 n p = - r" and t: "0 \<le> t"
  shows "r \<le> norm2 (sub2 (scale2 t v) p)"
proof -
  have "r \<le> t * dot2 n v - dot2 n p" using mult_nonneg_nonneg [OF t v] p by simp
  also have "\<dots> = dot2 n (sub2 (scale2 t v) p)" by (simp add: dot2_linear)
  also have "\<dots> \<le> norm2 (sub2 (scale2 t v) p)" by (rule unit_projection [OF n])
  finally show ?thesis .
qed

lemma leg_normal:
  fixes a b r leg :: real
  assumes "leg * leg + r * r = a * a + b * b" "0 < a * a + b * b"
  defines "D \<equiv> a * a + b * b"
  shows "dot2 (scale2 (1 / D) (- (a * r + b * leg), a * leg - b * r)) (scale2 (1 / D) (- (a * r + b * leg), a * leg - b * r)) = 1"
    and "dot2 (scale2 (1 / D) (- (a * r + b * leg), a * leg - b * r)) (a, b) = - r"
    and "dot2 (scale2 (1 / D) (a * r - b * leg, a * leg + b * r)) (scale2 (1 / D) (a * r - b * leg, a * leg + b * r)) = 1"
    and "dot2 (scale2 (1 / D) (a * r - b * leg, a * leg + b * r)) (a, b) = r"
proof -
  have sq: "(- (a * r) - b * leg) * (- (a * r) - b * leg) + (a * leg - b * r) * (a * leg - b * r) = D * D"
    "(a * r - b * leg) * (a * r - b * leg) + (a * leg + b * r) * (a * leg + b * r) = D * D"
    using assms(1) unfolding D_def by algebra+
  have D: "D \<noteq> 0" using assms(2) unfolding D_def by linarith
  show "dot2 (scale2 (1 / D) (- (a * r + b * leg), a * leg - b * r)) (scale2 (1 / D) (- (a * r + b * leg), a * leg - b * r)) = 1"
    "dot2 (scale2 (1 / D) (a * r - b * leg, a * leg + b * r)) (scale2 (1 / D) (a * r - b * leg, a * leg + b * r)) = 1"
    using sq D by (simp_all add: vec2_simps divide_simps)
  show "dot2 (scale2 (1 / D) (- (a * r + b * leg), a * leg - b * r)) (a, b) = - r"
    "dot2 (scale2 (1 / D) (a * r - b * leg, a * leg + b * r)) (a, b) = r"
    using D by (simp_all add: vec2_simps divide_simps) (simp_all add: D_def algebra_simps)
qed

text \<open>The inputs for which the half-plane is not degenerate.\<close>

definition separated :: "point \<Rightarrow> point \<Rightarrow> real \<Rightarrow> real \<Rightarrow> bool" where
  "separated p rel r tau \<longleftrightarrow> r * r < dot2 p p
     \<and> 1 / 10 ^ 12 \<le> dot2 (sub2 rel (scale2 (1 / tau) p)) (sub2 rel (scale2 (1 / tau) p))"

lemma orca_line_safe:
  assumes "0 \<le> r" "1 / 1000 \<le> tau" "separated p rel r tau" "orca_line p rel r tau step = (d, u)"
    and v: "dot2 (- snd d, fst d) (add2 rel u) \<le> dot2 (- snd d, fst d) v" and t: "0 \<le> t" "t \<le> tau"
  shows "r \<le> norm2 (sub2 (scale2 t v) p)"
proof -
  define w where "w = sub2 rel (scale2 (1 / tau) p)"
  define l where "l = norm2 w"
  have tau: "max (1 / 1000) tau = tau" "0 < tau" using assms(2) by (simp_all add: max_def)
  have apart: "r * r < dot2 p p" "1 / 10 ^ 12 \<le> dot2 w w" using assms(3) by (simp_all add: separated_def w_def)
  have l: "0 < l" "l * l = dot2 w w" using apart(2) by (simp_all add: l_def norm2_square) (simp add: norm2_def)
  show ?thesis
  proof (cases "dot2 w p < 0 \<and> r * r * dot2 w w < dot2 w p * dot2 w p")
    case True
    let ?n = "scale2 (1 / l) w"
    have "max (dot2 w w) (1 / 10 ^ 12) = dot2 w w" using apart(2) by (simp only: max_absorb1)
    then have d: "d = across ?n" "u = scale2 (r / tau - l) ?n"
      using assms(4) apart(1) True unfolding orca_line_def Let_def tau(1) w_def [symmetric] l_def norm2_def by simp_all
    have n: "(- snd d, fst d) = ?n" by (simp add: d across_def prod_eq_iff)
    have unit: "dot2 ?n ?n = 1" using normalised [of w] l(1) by (simp add: l_def)
    have e: "(r * l)\<^sup>2 = r * r * dot2 w w" by (simp add: power2_eq_square flip: l(2))
    have "(r * l)\<^sup>2 < (- dot2 w p)\<^sup>2" unfolding e using True by (simp add: power2_eq_square)
    then have "r * l < - dot2 w p" by (rule power2_less_imp_less) (use True in simp)
    then have "r \<le> - dot2 ?n p" using l(1) by (simp add: dot2_linear field_simps)
    moreover have "dot2 ?n (add2 rel u) = (dot2 ?n p + r) / tau"
    proof -
      have "rel = add2 w (scale2 (1 / tau) p)" by (simp add: w_def vec2_simps prod_eq_iff)
      moreover have "dot2 ?n w = l" using l by (simp add: dot2_linear flip: l(2))
      ultimately show ?thesis using unit by (simp only: dot2_linear(1,3) d(2)) (simp add: add_divide_distrib)
    qed
    ultimately show ?thesis using cutoff_safe [OF unit _ _ t tau(2)] v unfolding n by simp
  next
    case False
    define leg where "leg = sqrt (max 0 (dot2 p p - r * r))"
    have leg: "leg * leg + r * r = fst p * fst p + snd p * snd p" "0 < fst p * fst p + snd p * snd p"
      using apart(1) order_le_less_trans [OF zero_le_square apart(1)] by (simp_all add: leg_def dot2_def max_def)
    have d: "d = leg_direction p w leg r" "u = sub2 (scale2 (dot2 rel d) d) rel"
      using assms(4) apart(1) False unfolding orca_line_def Let_def tau(1) w_def [symmetric] leg_def by auto
    note ln = leg_normal [OF leg]
    define n where "n = (- snd d, fst d)"
    have np: "dot2 n n = 1 \<and> dot2 n p = - r"
    proof (cases "det2 p w > 0")
      case True
      then have "n = scale2 (1 / dot2 p p) (- (fst p * r + snd p * leg), fst p * leg - snd p * r)"
        by (simp add: n_def d(1) leg_direction_def scale2_def diff_divide_distrib add_divide_distrib)
      then show ?thesis using ln(1,2) by (simp add: dot2_def)
    next
      case False
      then have "n = opposite (scale2 (1 / dot2 p p) (fst p * r - snd p * leg, fst p * leg + snd p * r))"
        by (simp add: n_def d(1) leg_direction_def scale2_def opposite_def algebra_simps)
      then show ?thesis using ln(3,4) by (simp add: dot2_def)
    qed
    have "add2 rel u = scale2 (dot2 rel d) d" by (simp add: d(2) vec2_simps prod_eq_iff)
    moreover have "dot2 n d = 0" by (simp add: n_def dot2_def)
    ultimately have "dot2 n (add2 rel u) = 0" by (simp add: dot2_linear)
    then show ?thesis using leg_safe [of n v p r t] np v t(1) by (simp add: n_def)
  qed
qed



section \<open>The linear program\<close>

definition lp_slop :: "real \<Rightarrow> real" where
  "lp_slop M = 1 / 10 ^ 9 + (M + 1) / 10 ^ 12"

definition nearly :: "real \<Rightarrow> halfspace list \<Rightarrow> point \<Rightarrow> bool" where
  "nearly M cs v \<longleftrightarrow> list_all (\<lambda>(n, b). b - lp_slop M \<le> dot2 n v) cs"

definition within_speed :: "real \<Rightarrow> point \<Rightarrow> bool" where
  "within_speed M v \<longleftrightarrow> dot2 v v \<le> M * M + 3 * (M + 1) / 10 ^ 10"

text \<open>The bounds the loop arrives at only ever tighten, and respect every constraint it has passed.\<close>

lemma line_interval_bounds:
  assumes "line_interval pt d lo hi cs = Some (lo', hi')" "lo \<le> hi + 1 / 10 ^ 10"
  shows "lo \<le> lo'" "hi' \<le> hi" "lo' \<le> hi' + 1 / 10 ^ 10"
    and "(n, b) \<in> set cs \<Longrightarrow>
      (if \<bar>dot2 n d\<bar> \<le> 1 / 10 ^ 12 then b - dot2 n pt \<le> 1 / 10 ^ 9
       else if 0 < dot2 n d then (b - dot2 n pt) / dot2 n d \<le> lo'
       else hi' \<le> (b - dot2 n pt) / dot2 n d)"
proof -
  have "lo \<le> lo' \<and> hi' \<le> hi \<and> lo' \<le> hi' + 1 / 10 ^ 10 \<and>
    ((n, b) \<in> set cs \<longrightarrow>
      (if \<bar>dot2 n d\<bar> \<le> 1 / 10 ^ 12 then b - dot2 n pt \<le> 1 / 10 ^ 9
       else if 0 < dot2 n d then (b - dot2 n pt) / dot2 n d \<le> lo'
       else hi' \<le> (b - dot2 n pt) / dot2 n d))"
    using assms
  proof (induction pt d lo hi cs rule: line_interval.induct)
    case (1 pt d lo hi)
    then show ?case by simp
  next
    case (2 pt d lo hi m c rest)
    show ?case
    proof (cases "\<bar>dot2 m d\<bar> \<le> 1 / 10 ^ 12")
      case True
      then have "line_interval pt d lo hi rest = Some (lo', hi')" "c - dot2 m pt \<le> 1 / 10 ^ 9"
        using 2(3) by (auto simp: Let_def split: if_splits)
      then show ?thesis using 2(1) [OF refl refl True] 2(4) True by auto
    next
      case False
      define q where "q = (c - dot2 m pt) / dot2 m d"
      define lo1 where "lo1 = (if dot2 m d > 0 then max lo q else lo)"
      define hi1 where "hi1 = (if dot2 m d > 0 then hi else min hi q)"
      have A: "line_interval pt d lo1 hi1 rest = Some (lo', hi')" and B: "lo1 \<le> hi1 + 1 / 10 ^ 10"
        using 2(3) False by (auto simp: Let_def lo1_def hi1_def q_def split: if_splits)
      have IH: "lo1 \<le> lo' \<and> hi' \<le> hi1 \<and> lo' \<le> hi' + 1 / 10 ^ 10 \<and>
        ((n, b) \<in> set rest \<longrightarrow>
          (if \<bar>dot2 n d\<bar> \<le> 1 / 10 ^ 12 then b - dot2 n pt \<le> 1 / 10 ^ 9
           else if 0 < dot2 n d then (b - dot2 n pt) / dot2 n d \<le> lo'
           else hi' \<le> (b - dot2 n pt) / dot2 n d))"
        by (rule 2(2) [OF refl refl False q_def lo1_def hi1_def _ A B]) (use B in linarith)
      have "lo \<le> lo1" "hi1 \<le> hi" by (simp_all add: lo1_def hi1_def)
      have "if 0 < dot2 m d then q \<le> lo1 else hi1 \<le> q" by (simp add: lo1_def hi1_def)
      then have here: "if \<bar>dot2 m d\<bar> \<le> 1 / 10 ^ 12 then c - dot2 m pt \<le> 1 / 10 ^ 9
          else if 0 < dot2 m d then (c - dot2 m pt) / dot2 m d \<le> lo' else hi' \<le> (c - dot2 m pt) / dot2 m d"
        using IH False unfolding q_def by (simp only: if_False) (meson order_trans)
      have "(n, b) \<in> set ((m, c) # rest) \<longleftrightarrow> n = m \<and> b = c \<or> (n, b) \<in> set rest" by simp
      then show ?thesis using IH here \<open>lo \<le> lo1\<close> \<open>hi1 \<le> hi\<close> by (meson order_trans)
    qed
  qed
  then show "lo \<le> lo'" "hi' \<le> hi" "lo' \<le> hi' + 1 / 10 ^ 10"
    "(n, b) \<in> set cs \<Longrightarrow>
      (if \<bar>dot2 n d\<bar> \<le> 1 / 10 ^ 12 then b - dot2 n pt \<le> 1 / 10 ^ 9
       else if 0 < dot2 n d then (b - dot2 n pt) / dot2 n d \<le> lo'
       else hi' \<le> (b - dot2 n pt) / dot2 n d)" by blast+
qed

lemma scaled_lower:
  fixes s k e :: real
  assumes "\<bar>k\<bar> \<le> e" "\<bar>s\<bar> \<le> m"
  shows "- (m * e) \<le> s * k"
proof -
  have "\<bar>s * k\<bar> \<le> m * e" unfolding abs_mult using assms by (intro mult_mono) simp_all
  then show ?thesis by linarith
qed

lemma line_keeps_constraint:
  fixes s k q r lo hi M :: real
  assumes "if \<bar>k\<bar> \<le> 1 / 10 ^ 12 then r \<le> 1 / 10 ^ 9 else if 0 < k then r / k \<le> lo else hi \<le> r / k"
    and "lo - 1 / 10 ^ 10 \<le> s" "s \<le> hi" "\<bar>s\<bar> \<le> M + 1" "\<bar>k\<bar> \<le> 1" "0 \<le> M"
  shows "r - lp_slop M \<le> s * k"
proof -
  have slop: "1 / 10 ^ 10 \<le> lp_slop M" "0 \<le> lp_slop M" using assms(6) by (simp_all add: lp_slop_def)
  consider "\<bar>k\<bar> \<le> 1 / 10 ^ 12" | "\<not> \<bar>k\<bar> \<le> 1 / 10 ^ 12" "0 < k" | "\<not> \<bar>k\<bar> \<le> 1 / 10 ^ 12" "k < 0"
    by (metis abs_zero less_linear zero_le_divide_1_iff zero_le_numeral zero_le_power)
  then show ?thesis
  proof cases
    case 1
    then show ?thesis using assms(1) scaled_lower [OF 1 assms(4)] by (simp add: lp_slop_def)
  next
    case 2
    then have "r \<le> lo * k" using assms(1) by (simp add: pos_divide_le_eq)
    moreover have "(lo - 1 / 10 ^ 10) * k \<le> s * k" using 2 assms(2) by (intro mult_right_mono) simp_all
    moreover have "1 / 10 ^ 10 * k \<le> 1 / 10 ^ 10" using 2 assms(5) by simp
    ultimately show ?thesis using slop(1) unfolding left_diff_distrib by linarith
  next
    case 3
    then have "r \<le> hi * k" using assms(1) by (simp add: neg_le_divide_eq)
    also have "\<dots> \<le> s * k" using 3 assms(3) by (intro mult_right_mono_neg) simp_all
    finally show ?thesis using slop(2) by linarith
  qed
qed

lemma unit_dot_le: "dot2 n n = 1 \<Longrightarrow> dot2 d d = 1 \<Longrightarrow> \<bar>dot2 n d\<bar> \<le> 1"
  using cauchy_schwarz2 [of n d] cauchy_schwarz2 [of n "opposite d"] by (simp add: norm2_def abs_le_iff)

lemma speed_on_line:
  fixes c s M :: real
  assumes "0 \<le> M" "- 1 / 10 ^ 10 \<le> M * M - c * c" "\<bar>s\<bar> \<le> sqrt (max 0 (M * M - c * c)) + 1 / 10 ^ 10"
  shows "c * c + s * s \<le> M * M + 3 * (M + 1) / 10 ^ 10" "\<bar>s\<bar> \<le> M + 1"
proof -
  define e where "e = sqrt (max 0 (M * M - c * c))"
  define z :: real where "z = 1 / 10 ^ 10"
  have z: "0 < z" "z \<le> 1" by (simp_all add: z_def)
  have "max 0 (M * M - c * c) \<le> M * M" by simp
  then have e: "0 \<le> e" "e \<le> M" "e * e = max 0 (M * M - c * c)"
    using assms(1) by (simp_all add: e_def sqrt_le_iff_square)
  have s: "\<bar>s\<bar> \<le> e + z" using assms(3) by (simp add: e_def z_def)
  then show "\<bar>s\<bar> \<le> M + 1" using e z by linarith
  have "\<bar>s\<bar> * \<bar>s\<bar> \<le> (e + z) * (e + z)" using s by (intro mult_mono) simp_all
  then have "s * s \<le> e * e + 2 * (z * e) + z * z" by (simp add: algebra_simps)
  moreover have "z * e \<le> z * M" "z * z \<le> z" using e(2) z by (simp_all add: mult_left_le)
  moreover have "e * e \<le> M * M - c * c + z" using assms(2) z unfolding e(3) by (simp add: z_def max_def)
  moreover have "0 \<le> z * M" using z assms(1) by simp
  moreover have "3 * (M + 1) / 10 ^ 10 = 3 * (z * M) + 3 * z" by (simp add: z_def)
  ultimately show "c * c + s * s \<le> M * M + 3 * (M + 1) / 10 ^ 10" using z by linarith
qed

definition unit_normals :: "halfspace list \<Rightarrow> bool" where
  "unit_normals cs \<longleftrightarrow> list_all (\<lambda>(n, b). dot2 n n = 1) cs"

lemma line_candidate_sound:
  assumes "line_candidate preferred (m, c) seen M = Some v" "dot2 m m = 1" "unit_normals seen" "0 \<le> M"
  shows "dot2 m v = c" "nearly M seen v" "within_speed M v"
proof -
  define pt where "pt = scale2 c m"
  define d where "d = (- snd m, fst m)"
  define e where "e = sqrt (max 0 (M * M - c * c))"
  have dot: "dot2 pt pt = c * c" "dot2 m pt = c" "dot2 m d = 0" "dot2 d d = 1" "dot2 pt d = 0"
    using assms(2) unfolding pt_def dot2_linear by (simp_all add: dot2_def d_def scale2_def algebra_simps)
  obtain lo hi where rad: "- 1 / 10 ^ 10 \<le> M * M - c * c"
    and int: "line_interval pt d (- e) e seen = Some (lo, hi)"
    and v: "v = add2 pt (scale2 (min hi (max lo (dot2 d (sub2 preferred pt)))) d)"
    using assms(1) dot(1)
    by (auto simp: line_candidate_def Let_def not_less e_def simp flip: pt_def d_def split: if_splits)
  define s where "s = min hi (max lo (dot2 d (sub2 preferred pt)))"
  have e0: "- e \<le> e + 1 / 10 ^ 10" "(0 :: real) \<le> 1 / 10 ^ 10" by (simp_all add: e_def add_nonneg_nonneg)
  note bounds = line_interval_bounds [OF int e0(1)]
  have s: "lo - 1 / 10 ^ 10 \<le> s" "s \<le> hi" using bounds(3) by (auto simp: s_def)
  then have abs_s: "\<bar>s\<bar> \<le> e + 1 / 10 ^ 10" using bounds(1,2) e0 by (intro abs_leI) linarith+
  note speed = speed_on_line [OF assms(4) rad abs_s [unfolded e_def]]
  have vs: "v = add2 pt (scale2 s d)" by (simp add: v s_def)
  show "dot2 m v = c" by (simp add: vs dot2_linear dot)
  have "dot2 v v = c * c + s * s"
  proof -
    have "dot2 v v = dot2 pt pt + 2 * s * dot2 pt d + s * s * dot2 d d"
      by (simp add: vs vec2_simps algebra_simps)
    then show ?thesis by (simp add: dot)
  qed
  then show "within_speed M v" using speed(1) by (simp add: within_speed_def)
  have "b - lp_slop M \<le> dot2 n v" if nb: "(n, b) \<in> set seen" for n b
  proof -
    have "\<bar>dot2 n d\<bar> \<le> 1" using assms(3) nb dot(4) by (intro unit_dot_le) (auto simp: unit_normals_def list_all_iff)
    from line_keeps_constraint [OF bounds(4) [OF nb] s speed(2) this assms(4)]
    show ?thesis by (simp add: vs dot2_linear)
  qed
  then show "nearly M seen v" by (auto simp: nearly_def list_all_iff)
qed

lemma nearly_append [simp]: "nearly M (cs @ ds) v \<longleftrightarrow> nearly M cs v \<and> nearly M ds v"
  by (simp add: nearly_def)

lemma nearly_one: "nearly M [c] v \<longleftrightarrow> snd c - lp_slop M \<le> dot2 (fst c) v"
  by (simp add: nearly_def split: prod.splits)

lemma lp_loop_sound:
  fixes preferred :: point and cs :: "halfspace list"
  assumes "unit_normals (seen @ rest)" "0 \<le> M" "nearly M seen v" "within_speed M v" "solved = length seen"
  defines "sol \<equiv> lp_loop preferred M cs seen rest v solved"
  shows "within_speed M (velocity sol)
    \<and> (lp_feasible sol \<longrightarrow> nearly M (seen @ rest) (velocity sol))
    \<and> (\<not> lp_feasible sol \<longrightarrow> lp_active sol < length (seen @ rest) \<and> nearly M (take (lp_active sol) (seen @ rest)) (velocity sol))
    \<and> max_violation sol = worst (violations cs (velocity sol))"
  using assms(1,3-5) unfolding sol_def
proof (induction rest arbitrary: seen v solved)
  case Nil
  then show ?case by simp
next
  case (Cons c rest)
  let ?ok = "snd c - 1 / 10 ^ 9 \<le> dot2 (fst c) v"
  have units: "unit_normals ((seen @ [c]) @ rest)" "unit_normals seen" "dot2 (fst c) (fst c) = 1"
    using Cons.prems(1) by (auto simp: unit_normals_def split: prod.splits)
  have slop: "0 \<le> lp_slop M" "1 / 10 ^ 9 \<le> lp_slop M" using assms(2) by (simp_all add: lp_slop_def)
  note IH = Cons.IH [OF units(1), where solved = "solved + 1"]
  show ?case
  proof (cases ?ok)
    case True
    then have "nearly M (seen @ [c]) v" using Cons.prems(2) slop(2) by (simp add: nearly_one)
    then show ?thesis using IH [of v] Cons.prems True by simp
  next
    case False
    show ?thesis
    proof (cases "line_candidate preferred c seen M")
      case None
      then show ?thesis using False Cons.prems by simp
    next
      case (Some w)
      then have "line_candidate preferred (fst c, snd c) seen M = Some w" by simp
      note w = line_candidate_sound [OF this units(3,2) assms(2)]
      then have "nearly M (seen @ [c]) w" using slop(1) by (simp add: nearly_one)
      then show ?thesis using IH [of w] w(3) Cons.prems(4) False Some by simp
    qed
  qed
qed

lemma clip_speed_within: "0 \<le> M \<Longrightarrow> within_speed M (clip_speed v M)"
proof -
  assume M: "0 \<le> M"
  have "norm2 (clip_speed v M) \<le> M" using M by (auto simp: clip_speed_def norm2_scale Let_def)
  then have "norm2 (clip_speed v M) * norm2 (clip_speed v M) \<le> M * M" using M by (intro mult_mono) simp_all
  then show ?thesis using M by (simp add: norm2_square within_speed_def add_increasing2)
qed

lemma worst_violation_le:
  assumes "nearly M cs v" "0 \<le> M"
  shows "worst (violations cs v) \<le> lp_slop M"
proof -
  have "0 \<le> lp_slop M" using assms(2) by (simp add: lp_slop_def)
  then have "x \<le> lp_slop M" if "x \<in> set (violations cs v)" for x
    using that assms(1) by (force simp: violations_def nearly_def list_all_iff)
  then show ?thesis using \<open>0 \<le> lp_slop M\<close> by (simp add: worst_def)
qed

lemma lp_loop_transparent:
  assumes "list_all (\<lambda>(n, b). b \<le> dot2 n v) rest"
  shows "velocity (lp_loop preferred M cs seen rest v solved) = v \<and> lp_feasible (lp_loop preferred M cs seen rest v solved)"
  using assms by (induction rest arbitrary: seen solved) (auto split: prod.splits)

text \<open>
  The linear program keeps its word. Its velocity is within the speed limit; if it reports a
  solution, every half-plane holds up to the solver's tolerances and the reported violation is at most
  that; if it reports failure, the half-planes before the one it stopped at hold, and it says how many;
  and a preferred velocity that already satisfies everything is returned unchanged.
\<close>

theorem orca_program_sound:
  fixes preferred cs M
  assumes "0 \<le> M" "unit_normals cs"
  defines "sol \<equiv> linear_program preferred cs M"
  shows "within_speed M (velocity sol)
    \<and> (lp_feasible sol \<longrightarrow> nearly M cs (velocity sol) \<and> max_violation sol \<le> lp_slop M)
    \<and> (\<not> lp_feasible sol \<longrightarrow> lp_active sol < length cs \<and> nearly M (take (lp_active sol) cs) (velocity sol))
    \<and> (norm2 preferred \<le> M \<and> list_all (\<lambda>(n, b). b \<le> dot2 n preferred) cs
         \<longrightarrow> lp_feasible sol \<and> velocity sol = preferred)"
proof -
  have "nearly M [] (clip_speed preferred M)" by (simp add: nearly_def)
  note loop = lp_loop_sound [of "[]" cs M "clip_speed preferred M" 0 preferred cs, simplified append_Nil,
      OF assms(2,1) this clip_speed_within [OF assms(1)]]
  have "clip_speed preferred M = preferred" if "norm2 preferred \<le> M" using that by (simp add: clip_speed_def)
  then have "norm2 preferred \<le> M \<and> list_all (\<lambda>(n, b). b \<le> dot2 n preferred) cs
      \<longrightarrow> lp_feasible sol \<and> velocity sol = preferred"
    using lp_loop_transparent by (simp add: sol_def linear_program_def)
  then show ?thesis
    using loop worst_violation_le [OF _ assms(1)] unfolding sol_def linear_program_def by auto
qed

theorem orca_program_sound_witness:
  "within_speed 2 (velocity (linear_program (1, 0) [((- 1, 0), - 7 / 8)] 2))
   \<and> velocity (linear_program (1, 0) [((- 1, 0), - 7 / 8)] 2) = (7 / 8, 0)"
proof -
  have "velocity (linear_program (1, 0) [((- 1, 0), - 7 / 8)] 2) = (7 / 8, 0)"
    by (simp add: linear_program_def clip_speed_def norm2_def vec2_simps line_candidate_def Let_def)
  then show ?thesis using orca_program_sound [of 2 "[((- 1, 0), - 7 / 8)]" "(1, 0)"]
    by (simp add: unit_normals_def dot2_def)
qed

end
