(* ===== verification/Survey.thy ===== *)
theory Survey
  imports Orbit
begin

text \<open>
  Survey paths (\<open>flight_lib/survey.py\<close>) and hover and land profiles (\<open>flight_lib/profiles.py\<close>): a
  schedule of straight segments, each flown on a smoothstep, and the builder of the whole survey.
\<close>

record segment =
  p0 :: vec3
  p1 :: vec3
  duration_s :: real
  label :: string

definition dist3 :: "vec3 \<Rightarrow> vec3 \<Rightarrow> real" where
  "dist3 a b = sqrt ((fst a - fst b)\<^sup>2 + (fst (snd a) - fst (snd b))\<^sup>2 + (snd (snd a) - snd (snd b))\<^sup>2)"

definition seg :: "vec3 \<Rightarrow> vec3 \<Rightarrow> real \<Rightarrow> string \<Rightarrow> py_error + segment" where
  "seg a b speed lab =
     (let len = dist3 a b
      in if len > 1 / 10 ^ 9
         then (if speed = 0 then Inl ZeroDivisionError
               else Inr \<lparr>p0 = a, p1 = b, duration_s = 3 / 2 * len / speed, label = lab\<rparr>)
         else Inr \<lparr>p0 = a, p1 = b, duration_s = 0, label = lab\<rparr>)"

definition hover :: "vec3 \<Rightarrow> real \<Rightarrow> string \<Rightarrow> segment" where
  "hover p d lab = \<lparr>p0 = p, p1 = p, duration_s = d, label = lab\<rparr>"

definition lane_count :: "real \<Rightarrow> real \<Rightarrow> int" where
  "lane_count width spacing_m = max 2 (\<lfloor>width / spacing_m\<rfloor> + 1)"

definition serpentine_waypoints ::
    "metres \<Rightarrow> metres \<Rightarrow> radians \<Rightarrow> metres \<Rightarrow> metres \<Rightarrow> metres \<Rightarrow> metres \<Rightarrow> bool \<Rightarrow> py_error + vec3 list" where
  "serpentine_waypoints origin_e origin_n along_deg length_m width_m spacing_m altitude_m cross =
     (if spacing_m \<le> 0 then Inl (ValueError ''lane spacing must be positive'')
      else
        let a = radians along_deg;
            u = (if cross then (- sin a, cos a) else (cos a, sin a));
            v = (if cross then (cos a, sin a) else (- sin a, cos a));
            len = (if cross then width_m else length_m);
            width = (if cross then length_m else width_m);
            n_lanes = lane_count width spacing_m;
            step = width / of_int (n_lanes - 1)
        in Inr (concat (map (\<lambda>i.
             let base_e = origin_e + fst v * step * of_nat i; base_n = origin_n + snd v * step * of_nat i;
                 near = (base_e, base_n, altitude_m);
                 far = (base_e + fst u * len, base_n + snd u * len, altitude_m)
             in if even i then [near, far] else [far, near]) [0..<nat n_lanes])))"

definition cube_waypoints :: "real \<Rightarrow> real \<Rightarrow> real \<Rightarrow> real \<Rightarrow> vec3 list" where
  "cube_waypoints center_e center_n side base_altitude =
     (let h = side / 2; lo = base_altitude; hi = base_altitude + side;
          corners = [(- h, - h), (h, - h), (h, h), (- h, h)];
          bottom = map (\<lambda>(e, n). (center_e + e, center_n + n, lo)) corners;
          top = map (\<lambda>(e, n). (center_e + e, center_n + n, hi)) corners
      in bottom @ [hd bottom, hd top] @ tl top @ [hd top, hd bottom])"

definition polyline_schedule :: "vec3 list \<Rightarrow> real \<Rightarrow> string \<Rightarrow> py_error + segment list" where
  "polyline_schedule pts speed lab =
     mapE (\<lambda>(a, b). seg a b speed lab) (filter (\<lambda>(a, b). dist3 a b > 1 / 10 ^ 9) (zip pts (tl pts)))"

definition schedule_duration :: "segment list \<Rightarrow> real" where
  "schedule_duration schedule = sum_list (map duration_s schedule)"

text \<open>The loop of \<open>schedule_setpoint\<close>; \<open>final\<close> is the end of the last segment.\<close>

definition along :: "segment \<Rightarrow> real \<Rightarrow> vec3" where
  "along g t =
     (let u = (if duration_s g > 0 then t / duration_s g else 1); s = smoothstep u
      in (fst (p0 g) + (fst (p1 g) - fst (p0 g)) * s,
          fst (snd (p0 g)) + (fst (snd (p1 g)) - fst (snd (p0 g))) * s,
          snd (snd (p0 g)) + (snd (snd (p1 g)) - snd (snd (p0 g))) * s))"

definition travel :: "segment \<Rightarrow> point \<Rightarrow> point" where
  "travel g direction =
     (let de = fst (p1 g) - fst (p0 g); dn = fst (snd (p1 g)) - fst (snd (p0 g)); horiz = hypot de dn
      in if horiz > 1 / 10 ^ 9 then (de / horiz, dn / horiz) else direction)"

fun setpoint_walk :: "vec3 \<Rightarrow> segment list \<Rightarrow> real \<Rightarrow> point \<Rightarrow> vec3 \<times> point \<times> bool" where
  "setpoint_walk final [] t direction = (final, direction, True)"
| "setpoint_walk final (g # gs) t direction =
     (if t \<le> duration_s g then (along g t, travel g direction, False)
      else setpoint_walk final gs (t - duration_s g) (travel g direction))"

definition schedule_setpoint :: "segment list \<Rightarrow> real \<Rightarrow> vec3 \<times> point \<times> bool" where
  "schedule_setpoint schedule t =
     (if schedule = [] then ((0, 0, 0), (0, 0), True)
      else setpoint_walk (p1 (last schedule)) schedule (max 0 t) (0, 0))"

definition rot :: "real \<Rightarrow> vec3 \<Rightarrow> vec3" where
  "rot theta p =
     (cos theta * fst p - sin theta * fst (snd p), sin theta * fst p + cos theta * fst (snd p), snd (snd p))"

definition rotate_schedule :: "segment list \<Rightarrow> real \<Rightarrow> segment list" where
  "rotate_schedule schedule theta = map (\<lambda>g. g\<lparr>p0 := rot theta (p0 g), p1 := rot theta (p1 g)\<rparr>) schedule"

text \<open>\<open>sched[-1].p1\<close>.\<close>

definition end_of :: "segment list \<Rightarrow> py_error + vec3" where
  "end_of sched = (if sched = [] then Inl IndexError else Inr (p1 (last sched)))"

record survey_kw =
  field_e0 :: real
  field_n0 :: real
  lane_axis_deg :: real
  field_length :: real
  field_width :: real
  lane_spacing :: real
  altitude_m :: real
  speed_mps :: real
  revisit_gap :: real
  crosshatch :: bool
  cube_side :: real
  cube_speed :: real

definition lane_pass :: "survey_kw \<Rightarrow> bool \<Rightarrow> py_error + vec3 list" where
  "lane_pass kw cross =
     serpentine_waypoints (field_e0 kw) (field_n0 kw) (lane_axis_deg kw) (field_length kw) (field_width kw)
       (lane_spacing kw) (altitude_m kw) cross"

text \<open>The two optional stages, on the schedule built so far.\<close>

definition add_crosshatch :: "survey_kw \<Rightarrow> segment list \<Rightarrow> py_error + segment list" where
  "add_crosshatch kw sched =
     (if crosshatch kw then
        let entry = (field_e0 kw, field_n0 kw, altitude_m kw)
        in bindE (end_of sched) (\<lambda>e.
           bindE (polyline_schedule [e, entry] (speed_mps kw) ''regap'') (\<lambda>ret.
           bindE (lane_pass kw True) (\<lambda>pass2.
           bindE (polyline_schedule (entry # pass2) (speed_mps kw) ''crosshatch'') (\<lambda>lanes.
             Inr (sched @ ret @ [hover entry (revisit_gap kw) ''regap''] @ lanes)))))
      else Inr sched)"

definition add_cube :: "survey_kw \<Rightarrow> segment list \<Rightarrow> py_error + segment list" where
  "add_cube kw sched =
     (if cube_side kw > 0 then
        bindE (end_of sched) (\<lambda>e.
        bindE (polyline_schedule (e # cube_waypoints 0 0 (cube_side kw) (altitude_m kw)) (cube_speed kw) ''cube'') (\<lambda>cube.
          Inr (sched @ cube)))
      else Inr sched)"

definition build_survey_schedule :: "survey_kw \<Rightarrow> py_error + segment list" where
  "build_survey_schedule kw =
     (let home = (0, 0, altitude_m kw)
      in bindE (lane_pass kw False) (\<lambda>pass1.
         bindE (polyline_schedule (home # pass1) (speed_mps kw) ''serpentine'') (\<lambda>lanes.
         bindE (add_crosshatch kw lanes) (\<lambda>sched1.
         bindE (add_cube kw sched1) (\<lambda>sched2.
         bindE (end_of sched2) (\<lambda>e.
         bindE (polyline_schedule [e, home] (speed_mps kw) ''home'') (\<lambda>ret.
           Inr (sched2 @ ret))))))))"

section \<open>\<open>profiles.py\<close>\<close>

definition hover_setpoint :: "point \<Rightarrow> real \<Rightarrow> real \<Rightarrow> vec3 \<times> real" where
  "hover_setpoint center alt yaw = ((fst center, snd center, alt), yaw)"

definition land_duration :: "real \<Rightarrow> real \<Rightarrow> real \<Rightarrow> py_error + real" where
  "land_duration start_alt descent_rate ground =
     (if descent_rate \<le> 0 then Inl (ValueError ''descent_rate must be positive'')
      else Inr (max 0 ((start_alt - ground) / descent_rate)))"

definition land_setpoint :: "real \<Rightarrow> point \<Rightarrow> real \<Rightarrow> real \<Rightarrow> real \<Rightarrow> real \<Rightarrow> py_error + (vec3 \<times> real)" where
  "land_setpoint t center start_alt descent_rate ground yaw =
     (if descent_rate \<le> 0 then Inl (ValueError ''descent_rate must be positive'')
      else Inr ((fst center, snd center, max ground (start_alt - descent_rate * t)), yaw))"

end
