(* ===== verification/Orbit_Properties.thy ===== *)
theory Orbit_Properties
  imports Orbit
begin

text \<open>
  What the choreography promises: the closed-form separations are the exact extremes of the distances
  actually flown, and the insertion, the orbit and the peel-off are one continuous path.
\<close>

section \<open>Two drones on equal circles\<close>

lemma two_circles:
  fixes a r \<theta>\<^sub>1 \<theta>\<^sub>2 :: real
  defines "m \<equiv> 2 * r * sin ((\<theta>\<^sub>1 - \<theta>\<^sub>2) / 2)" and "\<sigma> \<equiv> (\<theta>\<^sub>1 + \<theta>\<^sub>2) / 2"
  shows "hypot (a + r * cos \<theta>\<^sub>1 - r * cos \<theta>\<^sub>2) (r * sin \<theta>\<^sub>1 - r * sin \<theta>\<^sub>2)
    = sqrt (a\<^sup>2 + m\<^sup>2 - 2 * a * m * sin \<sigma>)"
proof -
  have x: "r * cos \<theta>\<^sub>1 - r * cos \<theta>\<^sub>2 = - (m * sin \<sigma>)"
  proof -
    have "cos \<theta>\<^sub>1 - cos \<theta>\<^sub>2 = 2 * sin \<sigma> * sin ((\<theta>\<^sub>2 - \<theta>\<^sub>1) / 2)" by (simp add: cos_diff_cos \<sigma>_def)
    also have "sin ((\<theta>\<^sub>2 - \<theta>\<^sub>1) / 2) = - sin ((\<theta>\<^sub>1 - \<theta>\<^sub>2) / 2)"
      by (metis minus_diff_eq minus_divide_left sin_minus)
    finally show ?thesis by (simp add: m_def flip: right_diff_distrib)
  qed
  have y: "r * sin \<theta>\<^sub>1 - r * sin \<theta>\<^sub>2 = m * cos \<sigma>"
    by (simp add: sin_diff_sin m_def \<sigma>_def flip: right_diff_distrib)
  have sq: "(a - m * sin \<sigma>) * (a - m * sin \<sigma>) + m * cos \<sigma> * (m * cos \<sigma>)
      = a\<^sup>2 + m\<^sup>2 * ((sin \<sigma>)\<^sup>2 + (cos \<sigma>)\<^sup>2) - 2 * a * m * sin \<sigma>" by algebra
  have "a + r * cos \<theta>\<^sub>1 - r * cos \<theta>\<^sub>2 = a - m * sin \<sigma>" using x by linarith
  then show ?thesis unfolding y hypot_def by (simp only: sq sin_cos_squared_add mult_1_right)
qed

lemma separation_range:
  fixes a r \<theta>\<^sub>1 \<theta>\<^sub>2 :: real
  assumes "0 \<le> a" "0 \<le> r"
  defines "d \<equiv> hypot (a + r * cos \<theta>\<^sub>1 - r * cos \<theta>\<^sub>2) (r * sin \<theta>\<^sub>1 - r * sin \<theta>\<^sub>2)"
    and "b \<equiv> separation_bounds a r (\<theta>\<^sub>1 - \<theta>\<^sub>2)"
  shows "fst b \<le> d" "d \<le> snd b"
    and "sin ((\<theta>\<^sub>1 + \<theta>\<^sub>2) / 2) = (if 0 \<le> sin ((\<theta>\<^sub>1 - \<theta>\<^sub>2) / 2) then 1 else - 1) \<Longrightarrow> d = fst b"
    and "sin ((\<theta>\<^sub>1 + \<theta>\<^sub>2) / 2) = (if 0 \<le> sin ((\<theta>\<^sub>1 - \<theta>\<^sub>2) / 2) then - 1 else 1) \<Longrightarrow> d = snd b"
proof -
  define m where "m = 2 * r * sin ((\<theta>\<^sub>1 - \<theta>\<^sub>2) / 2)"
  define \<sigma> where "\<sigma> = (\<theta>\<^sub>1 + \<theta>\<^sub>2) / 2"
  have m: "\<bar>m\<bar> = 2 * r * \<bar>sin ((\<theta>\<^sub>1 - \<theta>\<^sub>2) / 2)\<bar>" using assms by (simp add: m_def abs_mult)
  have sgn: "0 \<le> sin ((\<theta>\<^sub>1 - \<theta>\<^sub>2) / 2) \<Longrightarrow> 0 \<le> m" "\<not> 0 \<le> sin ((\<theta>\<^sub>1 - \<theta>\<^sub>2) / 2) \<Longrightarrow> m \<le> 0"
    using assms by (simp_all add: m_def mult_nonneg_nonpos)
  have d: "d = sqrt (a\<^sup>2 + m\<^sup>2 - 2 * a * m * sin \<sigma>)" unfolding d_def m_def \<sigma>_def by (rule two_circles)
  have b: "b = (\<bar>a - \<bar>m\<bar>\<bar>, a + \<bar>m\<bar>)" by (simp add: b_def separation_bounds_def Let_def m)
  have "\<bar>m * sin \<sigma>\<bar> \<le> \<bar>m\<bar>" using abs_sin_le_one [of \<sigma>] by (simp add: abs_mult mult_left_le)
  then have "a * (m * sin \<sigma>) \<le> a * \<bar>m\<bar>" "- (a * \<bar>m\<bar>) \<le> a * (m * sin \<sigma>)"
    using assms(1) by (auto simp: abs_le_iff mult_left_mono simp flip: mult_minus_right intro!: mult_left_mono)
  moreover have sq: "(a - \<bar>m\<bar>)\<^sup>2 = a\<^sup>2 + m\<^sup>2 - 2 * (a * \<bar>m\<bar>)" "(a + \<bar>m\<bar>)\<^sup>2 = a\<^sup>2 + m\<^sup>2 + 2 * (a * \<bar>m\<bar>)"
    by (simp_all add: power2_diff power2_sum)
  ultimately have "(a - \<bar>m\<bar>)\<^sup>2 \<le> a\<^sup>2 + m\<^sup>2 - 2 * a * m * sin \<sigma>" "a\<^sup>2 + m\<^sup>2 - 2 * a * m * sin \<sigma> \<le> (a + \<bar>m\<bar>)\<^sup>2"
    by (simp_all add: mult.assoc)
  then have "sqrt ((a - \<bar>m\<bar>)\<^sup>2) \<le> d" "d \<le> sqrt ((a + \<bar>m\<bar>)\<^sup>2)" unfolding d by (blast intro: real_sqrt_le_mono)+
  then show "fst b \<le> d" "d \<le> snd b" using assms(1) by (simp_all add: b abs_of_nonneg)
  show "d = fst b" if "sin ((\<theta>\<^sub>1 + \<theta>\<^sub>2) / 2) = (if 0 \<le> sin ((\<theta>\<^sub>1 - \<theta>\<^sub>2) / 2) then 1 else - 1)"
  proof -
    have "m * sin \<sigma> = \<bar>m\<bar>" using that sgn by (auto simp: \<sigma>_def split: if_splits)
    then have "d = sqrt ((a - \<bar>m\<bar>)\<^sup>2)" unfolding d sq by (simp add: mult.assoc)
    then show ?thesis by (simp add: b)
  qed
  show "d = snd b" if "sin ((\<theta>\<^sub>1 + \<theta>\<^sub>2) / 2) = (if 0 \<le> sin ((\<theta>\<^sub>1 - \<theta>\<^sub>2) / 2) then - 1 else 1)"
  proof -
    have "m * sin \<sigma> = - \<bar>m\<bar>" using that sgn by (auto simp: \<sigma>_def split: if_splits)
    then have "d = sqrt ((a + \<bar>m\<bar>)\<^sup>2)" unfolding d sq by (simp add: mult.assoc)
    then show ?thesis using assms(1) by (simp add: b)
  qed
qed

section \<open>The schedule\<close>

definition gap :: "orbit_kw \<Rightarrow> real list \<Rightarrow> real \<Rightarrow> real \<Rightarrow> real \<Rightarrow> nat \<Rightarrow> nat \<Rightarrow> real" where
  "gap kw ph radius omega t i j =
     xy_distance (around (circle_center kw (int i)) radius (omega * t + ph ! i) (altitude kw))
                 (around (circle_center kw (int j)) radius (omega * t + ph ! j) (altitude kw))"

definition gap_bounds :: "orbit_kw \<Rightarrow> real list \<Rightarrow> real \<Rightarrow> nat \<Rightarrow> nat \<Rightarrow> real \<times> real" where
  "gap_bounds kw ph radius i j = separation_bounds (spacing kw * of_int \<bar>int i - int j\<bar>) radius (ph ! i - ph ! j)"

lemma gap_as_circles:
  assumes "i < j"
  shows "gap kw ph radius omega t i j =
    hypot (spacing kw * of_int \<bar>int i - int j\<bar> + radius * cos (omega * t + ph ! j) - radius * cos (omega * t + ph ! i))
          (radius * sin (omega * t + ph ! j) - radius * sin (omega * t + ph ! i))"
proof -
  have "real_of_int \<bar>int i - int j\<bar> = real j - real i" using assms by simp
  then show ?thesis unfolding gap_def xy_distance_def around_def circle_center_def
    by (subst hypot_commute_diff) (simp add: algebra_simps)
qed

lemma gap_bounds_swap:
  "gap_bounds kw ph radius i j = separation_bounds (spacing kw * of_int \<bar>int i - int j\<bar>) radius (ph ! j - ph ! i)"
proof -
  have "sin ((ph ! i - ph ! j) / 2) = - sin ((ph ! j - ph ! i) / 2)" by (metis minus_diff_eq minus_divide_left sin_minus)
  then show ?thesis by (simp add: gap_bounds_def separation_bounds_def)
qed

lemma gap_range:
  assumes "i < j" "0 \<le> radius" "0 \<le> spacing kw"
  shows "fst (gap_bounds kw ph radius i j) \<le> gap kw ph radius omega t i j"
    and "gap kw ph radius omega t i j \<le> snd (gap_bounds kw ph radius i j)"
proof -
  have a: "0 \<le> spacing kw * of_int \<bar>int i - int j\<bar>" using assms(3) by simp
  show "fst (gap_bounds kw ph radius i j) \<le> gap kw ph radius omega t i j"
    "gap kw ph radius omega t i j \<le> snd (gap_bounds kw ph radius i j)"
    using separation_range(1,2) [OF a assms(2), where \<theta>\<^sub>1 = "omega * t + ph ! j" and \<theta>\<^sub>2 = "omega * t + ph ! i"]
    by (simp_all add: gap_as_circles [OF assms(1)] gap_bounds_swap)
qed

lemma gap_attained:
  assumes "i < j" "0 \<le> radius" "0 \<le> spacing kw" "omega \<noteq> 0"
  shows "\<exists>t. gap kw ph radius omega t i j = fst (gap_bounds kw ph radius i j)"
    and "\<exists>t. gap kw ph radius omega t i j = snd (gap_bounds kw ph radius i j)"
proof -
  have a: "0 \<le> spacing kw * of_int \<bar>int i - int j\<bar>" using assms(3) by simp
  have reach: "\<exists>t. sin ((omega * t + ph ! j + (omega * t + ph ! i)) / 2) = s" if s: "s = 1 \<or> s = - 1" for s :: real
  proof -
    let ?t = "(s * pi / 2 - (ph ! j + ph ! i) / 2) / omega"
    have "omega * ?t = s * pi / 2 - (ph ! j + ph ! i) / 2" using assms(4) by simp
    then have "(omega * ?t + ph ! j + (omega * ?t + ph ! i)) / 2 = s * pi / 2" by argo
    moreover have "sin (s * pi / 2) = s" using s by auto
    ultimately show ?thesis by metis
  qed
  note r = separation_range [OF a assms(2)]
  obtain t where t: "sin ((omega * t + ph ! j + (omega * t + ph ! i)) / 2) = (if 0 \<le> sin ((ph ! j - ph ! i) / 2) then 1 else - 1)"
    by (rule exE [OF reach [of "if 0 \<le> sin ((ph ! j - ph ! i) / 2) then 1 else - 1"]]) simp_all
  show "\<exists>t. gap kw ph radius omega t i j = fst (gap_bounds kw ph radius i j)"
    using r(3) [where \<theta>\<^sub>1 = "omega * t + ph ! j" and \<theta>\<^sub>2 = "omega * t + ph ! i"] t
    by (auto simp: gap_as_circles [OF assms(1)] gap_bounds_swap)
  obtain t where t: "sin ((omega * t + ph ! j + (omega * t + ph ! i)) / 2) = (if 0 \<le> sin ((ph ! j - ph ! i) / 2) then - 1 else 1)"
    by (rule exE [OF reach [of "if 0 \<le> sin ((ph ! j - ph ! i) / 2) then - 1 else 1"]]) simp_all
  show "\<exists>t. gap kw ph radius omega t i j = snd (gap_bounds kw ph radius i j)"
    using r(4) [where \<theta>\<^sub>1 = "omega * t + ph ! j" and \<theta>\<^sub>2 = "omega * t + ph ! i"] t
    by (auto simp: gap_as_circles [OF assms(1)] gap_bounds_swap)
qed


lemma pairs_below_iff: "p \<in> set (pairs_below n) \<longleftrightarrow> fst p < snd p \<and> snd p < n"
  by (cases p) (fastforce simp: pairs_below_def image_iff)

lemma pairs_below_nonempty: "2 \<le> n \<Longrightarrow> pairs_below n \<noteq> []"
  using pairs_below_iff [of "(0, 1)" n] by auto

lemma min_from_Some: "min_from (Some b) ds = Some (Min (set (b # ds)))"
proof -
  have "min_from (Some b) ds = Some (fold min ds b)"
    by (induction ds arbitrary: b) (simp_all add: min.commute)
  then show ?thesis by (simp only: Min.set_eq_fold)
qed

lemma min_from_None: "ds \<noteq> [] \<Longrightarrow> min_from None ds = Some (Min (set ds))"
  by (cases ds) (simp_all add: min_from_Some)

lemma phases_length: "phased_orbit_phases n kw = Inr ph \<Longrightarrow> 0 \<le> n \<Longrightarrow> length ph = nat n"
  by (auto simp: phased_orbit_phases_def split: option.splits if_splits)

lemma pair_dphi_value:
  assumes "phased_orbit_phases n kw = Inr ph" "i < nat n" "j < nat n"
  shows "pair_dphi (int i) (int j) kw = Inr (ph ! i - ph ! j)"
proof (cases "phases kw")
  case None
  then have ph: "ph = map (\<lambda>i. phase0 kw + phase_step kw * of_nat i) [0..<nat n]"
    using assms(1) by (simp add: phased_orbit_phases_def)
  show ?thesis using None assms(2,3) by (simp add: pair_dphi_def ph algebra_simps)
next
  case (Some p)
  then have "p = ph" "length ph = nat n"
    using assms(1) by (auto simp: phased_orbit_phases_def split: if_splits)
  then show ?thesis using Some assms(2,3) by (simp add: pair_dphi_def np_item_def zless_nat_eq_int_zless)
qed

lemma pair_bounds_value:
  assumes "phased_orbit_phases n kw = Inr ph" "i < nat n" "j < nat n" "i \<noteq> j"
  shows "pair_separation_bounds (int i) (int j) radius kw = Inr (gap_bounds kw ph radius i j)"
  using assms(4) by (simp add: pair_separation_bounds_def pair_dphi_value [OF assms(1-3)] gap_bounds_def)

lemma positions_value:
  assumes "phased_orbit_phases n kw = Inr ph" "1 \<le> n"
  shows "phased_orbit_positions t n radius omega kw =
    Inr (map (\<lambda>i. around (circle_center kw (int i)) radius (omega * t + ph ! i) (altitude kw)) [0..<nat n])"
  using assms by (simp add: phased_orbit_positions_def)

lemma mapE_Inr_map: "(\<And>x. x \<in> set xs \<Longrightarrow> f x = Inr (g x)) \<Longrightarrow> mapE f xs = Inr (map g xs)"
  by (induction xs) auto

lemma schedule_value:
  assumes "phased_orbit_phases n kw = Inr ph" "2 \<le> n"
  shows "schedule_min_separation n radius kw =
    Inr (Min ((\<lambda>p. fst (gap_bounds kw ph radius (fst p) (snd p))) ` set (pairs_below (nat n))))"
proof -
  have "mapE (\<lambda>(i, j). pair_min_separation (int i) (int j) radius kw) (pairs_below (nat n))
      = Inr (map (\<lambda>p. fst (gap_bounds kw ph radius (fst p) (snd p))) (pairs_below (nat n)))"
    by (rule mapE_Inr_map)
      (auto simp: pairs_below_iff pair_min_separation_def pair_bounds_value [OF assms(1)] split: prod.splits)
  then show ?thesis using assms(2) by (simp add: schedule_min_separation_def)
qed

lemma nearest_pair_value:
  assumes "phased_orbit_phases n kw = Inr ph" "2 \<le> n"
  obtains ps where "phased_orbit_positions t n radius omega kw = Inr ps"
    and "min_pairwise_separation ps =
      Inr (Some (Min ((\<lambda>p. gap kw ph radius omega t (fst p) (snd p)) ` set (pairs_below (nat n)))))"
proof
  let ?ps = "map (\<lambda>i. around (circle_center kw (int i)) radius (omega * t + ph ! i) (altitude kw)) [0..<nat n]"
  show "phased_orbit_positions t n radius omega kw = Inr ?ps" using positions_value [OF assms(1)] assms(2) by simp
  have "map (\<lambda>(i, j). xy_distance (?ps ! i) (?ps ! j)) (pairs_below (nat n))
      = map (\<lambda>p. gap kw ph radius omega t (fst p) (snd p)) (pairs_below (nat n))"
    by (rule map_cong [OF refl]) (auto simp: pairs_below_iff gap_def split: prod.splits)
  then show "min_pairwise_separation ?ps =
      Inr (Some (Min ((\<lambda>p. gap kw ph radius omega t (fst p) (snd p)) ` set (pairs_below (nat n)))))"
    using assms(2) pairs_below_nonempty [of "nat n"] by (simp add: min_pairwise_separation_def min_from_None)
qed

text \<open>
  Claim C34: the separation budget of a schedule is exact. For any number of drones on equal circles, any
  phases and any turning rate, the closed form is the least distance between any two of them ever:
  at every instant the brute-force minimum over the flown positions is at least that, and at some
  instant it is that.
\<close>

theorem schedule_min_separation_exact:
  assumes "2 \<le> n" "phased_orbit_phases n kw = Inr ph" "0 \<le> radius" "0 \<le> spacing kw" "omega \<noteq> 0"
  shows "\<exists>d. schedule_min_separation n radius kw = Inr d
    \<and> (\<forall>t. \<exists>ps m. phased_orbit_positions t n radius omega kw = Inr ps
          \<and> min_pairwise_separation ps = Inr (Some m) \<and> d \<le> m)
    \<and> (\<exists>t ps. phased_orbit_positions t n radius omega kw = Inr ps
          \<and> min_pairwise_separation ps = Inr (Some d))"
proof -
  let ?P = "set (pairs_below (nat n))"
  let ?lo = "\<lambda>p. fst (gap_bounds kw ph radius (fst p) (snd p))"
  let ?gap = "\<lambda>t p. gap kw ph radius omega t (fst p) (snd p)"
  define d where "d = Min (?lo ` ?P)"
  have P: "finite ?P" "?P \<noteq> {}" using pairs_below_nonempty [of "nat n"] assms(1) by auto
  have above: "d \<le> ?gap t p" if "p \<in> ?P" for t p
  proof -
    have "d \<le> ?lo p" unfolding d_def using P that by simp
    also have "\<dots> \<le> ?gap t p" using that by (intro gap_range assms) (simp add: pairs_below_iff)
    finally show ?thesis .
  qed
  have "d \<in> ?lo ` ?P" unfolding d_def using P by (intro Min_in) simp_all
  then obtain p where p: "p \<in> ?P" "d = ?lo p" by blast
  then obtain t\<^sub>0 where t0: "?gap t\<^sub>0 p = d"
    using gap_attained(1) [OF _ assms(3-5)] by (metis pairs_below_iff)
  have least: "Min (?gap t\<^sub>0 ` ?P) = d"
    using P p(1) above t0 by (intro Min_eqI) (auto intro: rev_image_eqI)
  have lowest: "d \<le> Min (?gap t ` ?P)" for t using P above by (intro Min.boundedI) auto
  have "\<exists>ps m. phased_orbit_positions t n radius omega kw = Inr ps
      \<and> min_pairwise_separation ps = Inr (Some m) \<and> d \<le> m" for t
    by (rule nearest_pair_value [OF assms(2,1), of t radius omega]) (use lowest [of t] in blast)
  moreover have "\<exists>t ps. phased_orbit_positions t n radius omega kw = Inr ps \<and> min_pairwise_separation ps = Inr (Some d)"
    by (rule nearest_pair_value [OF assms(2,1), of t\<^sub>0 radius omega]) (unfold least, blast)
  ultimately show ?thesis using schedule_value [OF assms(2,1), of radius] by (auto simp: d_def)
qed

theorem schedule_min_separation_exact_witness:
  "\<exists>d. schedule_min_separation 2 1 default_kw = Inr d \<and> d = 3 - sqrt 2"
proof -
  have ph: "phased_orbit_phases 2 default_kw = Inr [- pi / 2, - pi / 2 + pi / 2]"
    by (simp add: phased_orbit_phases_def default_kw_def numeral_2_eq_2)
  obtain d where d: "schedule_min_separation 2 1 default_kw = Inr d"
    using schedule_min_separation_exact [OF _ ph, of 1 1] by (auto simp: default_kw_def)
  have "schedule_min_separation 2 1 default_kw = Inr (3 - sqrt 2)"
    using sqrt2_less_2 by (simp add: schedule_min_separation_def pairs_below_def pair_min_separation_def
        pair_separation_bounds_def pair_dphi_def default_kw_def separation_bounds_def Let_def sin_45 upt_rec)
  with d show ?thesis by simp
qed

section \<open>Headings\<close>

abbreviation yaw_modes :: "string set" where
  "yaw_modes \<equiv> {''tangent'', ''inward'', ''outward'', ''fixed''}"

lemma yaw_for_valid: "m \<in> yaw_modes \<Longrightarrow> \<exists>y. yaw_for theta m f = Inr y"
  by (auto simp: yaw_for_def)

lemma with_yaw_valid:
  assumes "m \<in> yaw_modes"
  shows "\<exists>y. with_yaw p (yaw_for theta m f) = Inr (p, y)"
proof -
  obtain y where "yaw_for theta m f = Inr y" using yaw_for_valid [OF assms] by blast
  then show ?thesis by (simp add: with_yaw_def)
qed

section \<open>One shared ring\<close>

lemma sin_pi_fraction_least:
  assumes "1 \<le> k" "k < n"
  shows "sin (pi / real n) \<le> sin (pi * real k / real n)"
proof -
  have half: "sin (pi / real n) \<le> sin (pi * real j / real n)" if "1 \<le> j" "2 * j \<le> n" for j
  proof (rule sin_monotone_2pi_le)
    have n: "0 < real n" using assms by simp
    show "- (pi / 2) \<le> pi / real n" using n by (simp add: order_trans [of _ 0])
    show "pi / real n \<le> pi * real j / real n" using that n by (simp add: divide_right_mono)
    have "real (2 * j) \<le> real n" using that by (simp only: of_nat_le_iff)
    then have "pi * (real j * 2) \<le> pi * real n" using pi_gt_zero by (intro mult_left_mono) simp_all
    then show "pi * real j / real n \<le> pi / 2" using n by (simp add: field_simps)
  qed
  show ?thesis
  proof (cases "2 * k \<le> n")
    case True
    then show ?thesis using half assms by simp
  next
    case False
    have "pi * real k / real n = pi - pi * real (n - k) / real n"
      using assms by (simp add: of_nat_diff field_simps)
    then have "sin (pi * real k / real n) = sin (pi * real (n - k) / real n)" by simp
    then show ?thesis using half [of "n - k"] False assms by simp
  qed
qed

lemma chord: "0 \<le> r \<Longrightarrow> xy_distance (around c r a z) (around c r b z) = 2 * r * \<bar>sin ((a - b) / 2)\<bar>"
  using two_circles [of 0 r a b] by (simp add: xy_distance_def around_def abs_mult)

lemma ring_gap:
  assumes "i < j" "0 \<le> r"
  shows "xy_distance (around c r (w + p + 2 * pi * real i / real n) z) (around c r (w + p + 2 * pi * real j / real n) z)
    = 2 * r * \<bar>sin (pi * real (j - i) / real n)\<bar>"
proof -
  have "(w + p + 2 * pi * real i / real n - (w + p + 2 * pi * real j / real n)) / 2 = - (pi * real (j - i) / real n)"
    using assms(1) by (simp add: of_nat_diff diff_divide_distrib right_diff_distrib)
  then show ?thesis using assms(2) by (simp add: chord)
qed

text \<open>
  The ring keeps the separation it is sized for. At every instant the least distance between any
  two of \<open>n\<close> evenly phased drones is exactly the adjacent chord \<open>min_separation\<close>, and on a ring of the
  radius \<open>radius_for_separation\<close> gives, it is exactly the distance asked for.
\<close>

theorem ring_separation_exact:
  assumes "2 \<le> n" "0 \<le> radius"
  shows "\<exists>d. min_separation (int n) radius = Inr d
    \<and> min_pairwise_separation (ring_positions t n radius omega kw) = Inr (Some d)
    \<and> radius_for_separation (int n) d = Inr radius"
proof -
  let ?f = "\<lambda>i. around (ring_center kw) radius (omega * t + ring_phase0 kw + 2 * pi * of_nat i / of_nat n) (ring_altitude kw)"
  let ?g = "\<lambda>p. 2 * radius * \<bar>sin (pi * real (snd p - fst p) / real n)\<bar>"
  let ?P = "set (pairs_below n)"
  have sin_pos: "0 < sin (pi * real k / real n)" if "1 \<le> k" "k < n" for k
    using that by (intro sin_gt_zero) (simp_all add: field_simps)
  have dists: "map (\<lambda>(i, j). xy_distance (ring_positions t n radius omega kw ! i) (ring_positions t n radius omega kw ! j))
      (pairs_below n) = map ?g (pairs_below n)"
    using assms(2) by (intro map_cong [OF refl]) (auto simp: pairs_below_iff ring_positions_def ring_gap split: prod.splits)
  have "Min (?g ` ?P) = 2 * radius * sin (pi / real n)"
  proof (rule Min_eqI)
    show "2 * radius * sin (pi / real n) \<in> ?g ` ?P"
      using assms(1) sin_pos [of 1] by (intro image_eqI [where x = "(0, 1)"]) (auto simp: pairs_below_iff)
    fix d assume "d \<in> ?g ` ?P"
    then obtain p where p: "fst p < snd p" "snd p < n" "d = ?g p" by (auto simp: pairs_below_iff)
    have "sin (pi / real n) \<le> sin (pi * real (snd p - fst p) / real n)" using p by (intro sin_pi_fraction_least) auto
    also have "\<dots> \<le> \<bar>sin (pi * real (snd p - fst p) / real n)\<bar>" by simp
    finally show "2 * radius * sin (pi / real n) \<le> d" unfolding p(3) using assms(2) by (intro mult_left_mono) simp_all
  qed simp
  moreover have "length (ring_positions t n radius omega kw) = n" by (simp add: ring_positions_def)
  moreover have "sin (pi / real n) \<noteq> 0" using sin_pos [of 1] assms(1) by simp
  ultimately show ?thesis
    using assms(1) pairs_below_nonempty [OF assms(1)]
    by (simp add: min_separation_def radius_for_separation_def min_pairwise_separation_def dists min_from_None)
qed

theorem ring_separation_exact_witness:
  "min_pairwise_separation (ring_positions 5 2 3 1 \<lparr>ring_center = (0, 0), ring_altitude = 2,
      ring_yaw_mode = ''inward'', ring_fixed_yaw = 0, ring_phase0 = 0\<rparr>) = Inr (Some 6)"
  using ring_separation_exact [of 2 3] by (simp add: min_separation_def)

section \<open>One continuous path\<close>

lemma drone_phase_value:
  assumes "0 \<le> index" "index < n" "phased_orbit_phases n kw = Inr ph"
  shows "drone_phase index n kw = Inr (ph ! nat index)"
  using assms phases_length [OF assms(3)] by (simp add: drone_phase_def)

lemma around_centre: "xy_distance (around c r theta z) (fst c, snd c, z) = \<bar>r\<bar>"
  by (simp add: xy_distance_def around_def)

lemma smoothstep_ends [simp]: "smoothstep 0 = 0" "smoothstep 1 = 1"
  by (simp_all add: smoothstep_def)

lemma smoothstep_mono: "0 \<le> u \<Longrightarrow> u \<le> v \<Longrightarrow> v \<le> 1 \<Longrightarrow> smoothstep u \<le> smoothstep v"
proof -
  assume uv: "0 \<le> u" "u \<le> v" "v \<le> 1"
  have eq: "smoothstep v - smoothstep u = (v - u) * (3 * (u + v) - 2 * (u * u + u * v + v * v))"
    by (simp add: smoothstep_def algebra_simps)
  have "u * u \<le> u" "v * v \<le> v" "u * v \<le> u" "u * v \<le> v"
    using uv by (auto simp: mult_left_le mult_left_le_one_le mult_le_one)
  then have "0 \<le> v - u" "0 \<le> 3 * (u + v) - 2 * (u * u + u * v + v * v)"
    using uv unfolding distrib_left by linarith+
  then have "0 \<le> smoothstep v - smoothstep u" unfolding eq by (rule mult_nonneg_nonneg)
  then show ?thesis by simp
qed

lemma smoothstep_range: "0 \<le> u \<Longrightarrow> u \<le> 1 \<Longrightarrow> 0 \<le> smoothstep u \<and> smoothstep u \<le> 1"
  using smoothstep_mono [of 0 u] smoothstep_mono [of u 1] by simp

lemma continuous_around [continuous_intros]:
  fixes S :: "real set"
  shows "continuous_on S r \<Longrightarrow> continuous_on S \<theta> \<Longrightarrow> continuous_on S (\<lambda>t. around c (r t) (\<theta> t) z)"
  unfolding around_def by (intro continuous_intros)

lemma continuous_np_clip [continuous_intros]:
  "continuous_on S f \<Longrightarrow> continuous_on S (\<lambda>t. np_clip (f t) lo hi :: real)"
  unfolding np_clip_def by (intro continuous_intros)

subsection \<open>Insertion\<close>

definition insertion_at :: "orbit_kw \<Rightarrow> int \<Rightarrow> real \<Rightarrow> real \<Rightarrow> real \<Rightarrow> real \<Rightarrow> vec3" where
  "insertion_at kw index phi radius spin s =
     (let u = np_clip s 0 1 in around (circle_center kw index) (radius * u) (phi - spin * (1 - u)) (altitude kw))"

abbreviation centre_of :: "orbit_kw \<Rightarrow> int \<Rightarrow> vec3" where
  "centre_of kw index \<equiv> (fst (circle_center kw index), snd (circle_center kw index), altitude kw)"

lemma insertion_value:
  assumes "0 \<le> index" "index < n" "phased_orbit_phases n kw = Inr ph" "yaw_mode kw \<in> yaw_modes"
  shows "\<exists>y. phased_orbit_insertion s index n radius spin kw
    = Inr (insertion_at kw index (ph ! nat index) radius spin s, y)"
  unfolding phased_orbit_insertion_def drone_phase_value [OF assms(1-3)] insertion_at_def
  using with_yaw_valid [OF assms(4)] by (simp add: Let_def)

lemma setpoint_value:
  assumes "0 \<le> index" "index < n" "phased_orbit_phases n kw = Inr ph" "yaw_mode kw \<in> yaw_modes"
  shows "\<exists>y. phased_orbit_setpoint t index n radius omega kw a b = Inr (around (circle_center kw index) radius
    (omega * t + ph ! nat index + a * (sin (omega * t + b) - sin b)) (altitude kw), y)"
  unfolding phased_orbit_setpoint_def drone_phase_value [OF assms(1-3)]
  using with_yaw_valid [OF assms(4)] by (simp add: Let_def)

lemma around_derivative:
  assumes "(r has_real_derivative r') (at t)" "(\<theta> has_real_derivative \<theta>') (at t)"
  shows "((\<lambda>t. fst (around c (r t) (\<theta> t) z)) has_real_derivative r' * cos (\<theta> t) - r t * sin (\<theta> t) * \<theta>') (at t)"
    and "((\<lambda>t. fst (snd (around c (r t) (\<theta> t) z))) has_real_derivative r' * sin (\<theta> t) + r t * cos (\<theta> t) * \<theta>') (at t)"
  unfolding around_def using assms by (auto intro!: derivative_eq_intros simp: algebra_simps)

text \<open>A function that has the derivative \<open>v\<close> in the horizontal plane.\<close>

definition moves_with :: "(real \<Rightarrow> vec3) \<Rightarrow> real \<Rightarrow> vec3 \<Rightarrow> bool" where
  "moves_with p t v \<longleftrightarrow> ((\<lambda>t. fst (p t)) has_real_derivative fst v) (at t)
     \<and> ((\<lambda>t. fst (snd (p t))) has_real_derivative fst (snd v)) (at t)
     \<and> ((\<lambda>t. snd (snd (p t))) has_real_derivative snd (snd v)) (at t)"

lemma moves_with_around:
  assumes "(r has_real_derivative r') (at t)" "(\<theta> has_real_derivative \<theta>') (at t)"
    and "v = (r' * cos (\<theta> t) - r t * sin (\<theta> t) * \<theta>', r' * sin (\<theta> t) + r t * cos (\<theta> t) * \<theta>', 0)"
  shows "moves_with (\<lambda>t. around c (r t) (\<theta> t) z) t v"
  using around_derivative [OF assms(1,2)] by (simp add: moves_with_def assms(3)) (simp add: around_def)

lemma moves_with_cong:
  assumes "eventually (\<lambda>t. p t = q t) (nhds x)" "moves_with q x v"
  shows "moves_with p x v"
proof -
  have "eventually (\<lambda>t. f (p t) = f (q t)) (nhds x)" for f :: "vec3 \<Rightarrow> real"
    using assms(1) by (rule eventually_mono) simp
  from DERIV_cong_ev [OF refl this [of fst] refl] DERIV_cong_ev [OF refl this [of "\<lambda>p. fst (snd p)"] refl]
    DERIV_cong_ev [OF refl this [of "\<lambda>p. snd (snd p)"] refl]
  show ?thesis using assms(2) by (simp add: moves_with_def)
qed

lemma eventually_inside:
  fixes s :: real
  assumes "0 < s" "s < 1"
  shows "eventually (\<lambda>\<tau>. 0 < s + k * \<tau> \<and> s + k * \<tau> < 1) (nhds 0)"
proof -
  have "((\<lambda>\<tau>. s + k * \<tau>) \<longlongrightarrow> s + k * 0) (at 0)" by (intro tendsto_intros)
  then have "((\<lambda>\<tau>. s + k * \<tau>) \<longlongrightarrow> s + k * 0) (nhds 0)"
    using tendsto_at_iff_tendsto_nhds [of "\<lambda>\<tau>. s + k * \<tau>" 0] by simp
  from topological_tendstoD [OF this, of "{0<..<1}"] show ?thesis using assms by simp
qed

lemma orbit_moves:
  "moves_with (\<lambda>t. around c radius (omega * t + phi) z) t
     (- radius * omega * sin (omega * t + phi), radius * omega * cos (omega * t + phi), 0)"
  by (rule moves_with_around [where r' = 0 and \<theta>' = omega]) (auto intro!: derivative_eq_intros)

lemma insertion_moves:
  assumes "0 < s" "s < 1" "drone_phase index n kw = Inr phi"
  shows "\<exists>v. phased_orbit_insertion_velocity s index n radius s_dot spin kw = Inr v
    \<and> moves_with (\<lambda>\<tau>. insertion_at kw index phi radius spin (s + s_dot * \<tau>)) 0 v"
proof -
  let ?th = "\<lambda>\<tau>. phi - spin * (1 - (s + s_dot * \<tau>))"
  let ?v = "(radius * s_dot * cos (?th 0) - radius * (s + s_dot * 0) * sin (?th 0) * (spin * s_dot),
             radius * s_dot * sin (?th 0) + radius * (s + s_dot * 0) * cos (?th 0) * (spin * s_dot), 0)"
  have "moves_with (\<lambda>\<tau>. around (circle_center kw index) (radius * (s + s_dot * \<tau>)) (?th \<tau>) (altitude kw)) 0 ?v"
    by (rule moves_with_around [where r' = "radius * s_dot" and \<theta>' = "spin * s_dot"]) (auto intro!: derivative_eq_intros)
  moreover have "eventually (\<lambda>\<tau>. insertion_at kw index phi radius spin (s + s_dot * \<tau>)
      = around (circle_center kw index) (radius * (s + s_dot * \<tau>)) (?th \<tau>) (altitude kw)) (nhds 0)"
    using eventually_inside [OF assms(1,2), of s_dot] by (rule eventually_mono) (simp add: insertion_at_def np_clip_id Let_def)
  ultimately have "moves_with (\<lambda>\<tau>. insertion_at kw index phi radius spin (s + s_dot * \<tau>)) 0 ?v" by (rule moves_with_cong [rotated])
  then show ?thesis using assms by (simp add: phased_orbit_insertion_velocity_def np_clip_id Let_def)
qed

text \<open>
  The commanded velocities are the derivatives of the commanded positions, on the orbit at every
  time, and on the insertion spiral at every progress strictly inside it and every progress rate.
\<close>

theorem velocities_are_derivatives:
  assumes "0 \<le> index" "index < n" "phased_orbit_phases n kw = Inr ph" "yaw_mode kw \<in> yaw_modes"
  shows "\<exists>p q. (\<forall>t. (\<exists>y. phased_orbit_setpoint t index n radius omega kw 0 0 = Inr (p t, y))
        \<and> (\<exists>v. phased_orbit_velocity t index n radius omega kw = Inr v \<and> moves_with p t v))
    \<and> (\<forall>s. (\<exists>y. phased_orbit_insertion s index n radius spin kw = Inr (q s, y))
        \<and> (0 < s \<and> s < 1 \<longrightarrow> (\<exists>v. phased_orbit_insertion_velocity s index n radius s_dot spin kw = Inr v
            \<and> moves_with (\<lambda>\<tau>. q (s + s_dot * \<tau>)) 0 v)))"
proof -
  let ?p = "\<lambda>t. around (circle_center kw index) radius (omega * t + ph ! nat index) (altitude kw)"
  note phase = drone_phase_value [OF assms(1-3)]
  have "(\<exists>y. phased_orbit_setpoint t index n radius omega kw 0 0 = Inr (?p t, y))
      \<and> (\<exists>v. phased_orbit_velocity t index n radius omega kw = Inr v \<and> moves_with ?p t v)" for t
    using setpoint_value [OF assms, of t radius omega 0 0] orbit_moves by (simp add: phased_orbit_velocity_def phase Let_def)
  moreover note insertion_value [OF assms] insertion_moves [OF _ _ phase]
  ultimately show ?thesis
    by (intro exI [of _ ?p] exI [of _ "insertion_at kw index (ph ! nat index) radius spin"]) blast
qed

theorem velocities_are_derivatives_witness:
  "\<exists>p. (\<forall>t. \<exists>y. phased_orbit_setpoint t 1 4 4.6 0.5 default_kw 0 0 = Inr (p t, y))
     \<and> (\<exists>v. phased_orbit_velocity 0 1 4 4.6 0.5 default_kw = Inr v \<and> moves_with p 0 v)"
proof -
  have "phased_orbit_phases 4 default_kw = Inr (map (\<lambda>i. - pi / 2 + pi / 2 * real i) [0..<4])"
    by (simp add: phased_orbit_phases_def default_kw_def)
  from velocities_are_derivatives [OF _ _ this, of 1 "4.6" "0.5" 0 0] show ?thesis
    by (simp add: default_kw_def) blast
qed

subsection \<open>Insertion and peel-off join the orbit\<close>

definition peel_progress :: "int \<Rightarrow> int \<Rightarrow> peel_kw \<Rightarrow> real \<Rightarrow> real" where
  "peel_progress index n pk t =
     smoothstep (np_clip ((t - peel_time index n pk) / max (1 / 1000000) (peel_duration pk)) 0 1)"

definition peel_at :: "orbit_kw \<Rightarrow> peel_kw \<Rightarrow> int \<Rightarrow> int \<Rightarrow> real \<Rightarrow> real \<Rightarrow> real \<Rightarrow> real \<Rightarrow> vec3" where
  "peel_at kw pk index n phi radius omega t =
     around (circle_center kw index) (radius * (1 - peel_progress index n pk t))
       (phi + omega * min t (peel_time index n pk) + peel_spin pk * peel_progress index n pk t) (altitude kw)"

lemma peel_progress_before: "t \<le> peel_time index n pk \<Longrightarrow> peel_progress index n pk t = 0"
  by (simp add: peel_progress_def np_clip_def divide_nonpos_pos max_def)

lemma peel_progress_after:
  assumes "peel_time index n pk + peel_duration pk \<le> t" "1 / 1000000 \<le> peel_duration pk"
  shows "peel_progress index n pk t = 1"
proof -
  have "1 \<le> (t - peel_time index n pk) / max (1 / 1000000) (peel_duration pk)"
    using assms by (simp add: max_def le_divide_eq)
  then show ?thesis by (simp add: peel_progress_def np_clip_def)
qed

lemma peel_progress_range: "0 \<le> peel_progress index n pk t" "peel_progress index n pk t \<le> 1"
  using smoothstep_range [OF conjunct1 [OF np_clip_range] conjunct2 [OF np_clip_range]] by (simp_all add: peel_progress_def)

lemma np_clip_mono: "x \<le> y \<Longrightarrow> np_clip x lo hi \<le> np_clip y lo hi"
  unfolding np_clip_def by (intro min.mono max.mono) simp_all

lemma peel_progress_mono: "t \<le> t' \<Longrightarrow> peel_progress index n pk t \<le> peel_progress index n pk t'"
  unfolding peel_progress_def
  by (intro smoothstep_mono np_clip_mono divide_right_mono) (simp_all add: np_clip_def)

lemma continuous_peel_progress: "continuous_on UNIV (peel_progress index n pk)"
  unfolding peel_progress_def smoothstep_def by (intro continuous_intros) auto

lemma continuous_peel_at: "continuous_on UNIV (peel_at kw pk index n phi radius omega)"
  unfolding peel_at_def by (intro continuous_intros continuous_peel_progress)

lemma peeloff_value:
  assumes "0 \<le> index" "index < n" "phased_orbit_phases n kw = Inr ph" "yaw_mode kw \<in> yaw_modes"
    and "sort (order_of n pk) = [0..n - 1]"
  shows "\<exists>y. phased_orbit_peeloff t index n radius omega pk kw
    = Inr (peel_at kw pk index n (ph ! nat index) radius omega t, y)"
proof -
  let ?pos = "peel_at kw pk index n (ph ! nat index) radius omega t"
  obtain theta where "phased_orbit_peeloff t index n radius omega pk kw
      = with_yaw ?pos (yaw_for theta (yaw_mode kw) (fixed_yaw kw))"
  proof (cases "t < peel_time index n pk")
    case True
    then have "peel_progress index n pk t = 0" by (simp add: peel_progress_before)
    then show thesis using True assms(1,2,5)
      by (intro that [of "ph ! nat index + omega * t"])
        (simp add: phased_orbit_peeloff_def drone_phase_value [OF assms(1-3)] peel_at_def Let_def)
  next
    case False
    then show thesis using assms(1,2,5)
      by (intro that [of "ph ! nat index + omega * peel_time index n pk + peel_spin pk * peel_progress index n pk t"])
        (simp add: phased_orbit_peeloff_def drone_phase_value [OF assms(1-3)] peel_at_def peel_progress_def Let_def)
  qed
  then show ?thesis using with_yaw_valid [OF assms(4)] by metis
qed

lemma list_index_less: "x \<in> set xs \<Longrightarrow> list_index xs x < length xs"
  by (induction xs) (auto simp: list_index_def)

lemma peel_time_bounds:
  assumes "0 \<le> index" "index < n" "sort (order_of n pk) = [0..n - 1]" "0 \<le> stagger pk"
  shows "lead_in pk \<le> peel_time index n pk"
    and "peel_time index n pk + peel_duration pk \<le> peeloff_duration n pk"
proof -
  have "set (order_of n pk) = {0..n - 1}" "length (order_of n pk) = nat n"
    using assms(3) by (metis set_sort set_upto) (metis assms(3) length_sort length_upto diff_add_cancel diff_0_right)
  then have "list_index (order_of n pk) index < nat n" using list_index_less [of index "order_of n pk"] assms by auto
  then have "real (list_index (order_of n pk) index) \<le> of_int (n - 1)" by linarith
  then have "real (list_index (order_of n pk) index) * stagger pk \<le> of_int (n - 1) * stagger pk"
    using assms(4) by (rule mult_right_mono)
  then show "lead_in pk \<le> peel_time index n pk" "peel_time index n pk + peel_duration pk \<le> peeloff_duration n pk"
    using assms(4) by (simp_all add: peel_time_def peeloff_duration_def)
qed

text \<open>
  The spiral insertion leads from the centre onto the orbit. It is one continuous path that starts
  at the centre of the drone's circle, is at distance radius times progress from it all the way, and
  ends, with its heading, exactly at the orbit's first setpoint, whatever speed modulation the orbit has.
\<close>

theorem insertion_joins_orbit:
  assumes "0 \<le> index" "index < n" "phased_orbit_phases n kw = Inr ph" "yaw_mode kw \<in> yaw_modes"
  shows "phased_orbit_insertion 1 index n radius spin kw = phased_orbit_setpoint 0 index n radius omega kw a b
    \<and> (\<exists>p. continuous_on UNIV p \<and> (\<forall>s. \<exists>y. phased_orbit_insertion s index n radius spin kw = Inr (p s, y))
        \<and> p 0 = centre_of kw index
        \<and> (\<forall>s. 0 \<le> s \<and> s \<le> 1 \<longrightarrow> xy_distance (p s) (p 0) = \<bar>radius\<bar> * s))"
proof -
  let ?p = "insertion_at kw index (ph ! nat index) radius spin"
  have "phased_orbit_insertion 1 index n radius spin kw = phased_orbit_setpoint 0 index n radius omega kw a b"
    by (simp add: phased_orbit_insertion_def phased_orbit_setpoint_def drone_phase_value [OF assms(1-3)] np_clip_def)
  moreover have "continuous_on UNIV ?p"
    unfolding insertion_at_def Let_def by (intro continuous_intros)
  moreover have start: "?p 0 = centre_of kw index"
    by (simp add: insertion_at_def np_clip_def around_def)
  moreover have "xy_distance (?p s) (?p 0) = \<bar>radius\<bar> * s" if "0 \<le> s" "s \<le> 1" for s
    unfolding start using that by (simp add: insertion_at_def np_clip_id Let_def around_centre abs_mult)
  ultimately show ?thesis using insertion_value [OF assms] by blast
qed

theorem insertion_joins_orbit_witness:
  "phased_orbit_insertion 1 3 4 4.6 (radians 235) default_kw = phased_orbit_setpoint 0 3 4 4.6 0.5 default_kw 0.3 1"
proof -
  have "phased_orbit_phases 4 default_kw = Inr (map (\<lambda>i. - pi / 2 + pi / 2 * real i) [0..<4])"
    by (simp add: phased_orbit_phases_def default_kw_def)
  from insertion_joins_orbit [OF _ _ this, of 3 "4.6" "radians 235" "0.5" "0.3" 1] show ?thesis
    by (simp add: default_kw_def)
qed

text \<open>
  The peel-off is a continuous return to the centre. Up to the drone's own peel time it flies the
  steady orbit, it never moves away from the centre of its circle, the whole path is continuous, and
  when \<open>peeloff_duration\<close> is over it is at the centre, whatever its rank in the peel order.
\<close>

theorem peeloff_returns_to_center:
  assumes "0 \<le> index" "index < n" "phased_orbit_phases n kw = Inr ph" "yaw_mode kw \<in> yaw_modes"
    and "sort (order_of n pk) = [0..n - 1]" "0 \<le> stagger pk" "1 / 1000000 \<le> peel_duration pk"
  shows "\<exists>p. continuous_on UNIV p
    \<and> (\<forall>t. \<exists>y. phased_orbit_peeloff t index n radius omega pk kw = Inr (p t, y))
    \<and> (\<forall>t \<le> peel_time index n pk. \<exists>y. phased_orbit_setpoint t index n radius omega kw 0 0 = Inr (p t, y))
    \<and> lead_in pk \<le> peel_time index n pk
    \<and> (\<forall>t t'. t \<le> t' \<longrightarrow> xy_distance (p t') (centre_of kw index) \<le> xy_distance (p t) (centre_of kw index))
    \<and> (\<forall>t \<ge> peeloff_duration n pk. p t = centre_of kw index)"
proof -
  let ?p = "peel_at kw pk index n (ph ! nat index) radius omega"
  let ?centre = "centre_of kw index"
  note bounds = peel_time_bounds [OF assms(1,2,5,6)]
  have "\<exists>y. phased_orbit_setpoint t index n radius omega kw 0 0 = Inr (?p t, y)" if "t \<le> peel_time index n pk" for t
    using setpoint_value [OF assms(1-4), of t radius omega 0 0] peel_progress_before [OF that] that
    by (simp add: peel_at_def min_def add.commute)
  moreover have "xy_distance (?p t) ?centre = \<bar>radius\<bar> * (1 - peel_progress index n pk t)" for t
    using peel_progress_range(2) [of index n pk t] by (simp add: peel_at_def around_centre abs_mult)
  then have "xy_distance (?p t') ?centre \<le> xy_distance (?p t) ?centre" if "t \<le> t'" for t t'
    using peel_progress_mono [OF that, of index n pk] by (simp add: mult_left_mono)
  moreover have "?p t = ?centre" if "peeloff_duration n pk \<le> t" for t
    using peel_progress_after [OF order_trans [OF bounds(2) that] assms(7)] by (simp add: peel_at_def around_def)
  ultimately show ?thesis
    using continuous_peel_at peeloff_value [OF assms(1-5)] bounds(1) by (intro exI [of _ ?p]) blast
qed

definition mission_peel :: peel_kw where
  "mission_peel = \<lparr>peel_order = None, lead_in = 1 / 2, stagger = 3, peel_duration = 4, peel_spin = pi / 2\<rparr>"

theorem peeloff_returns_to_center_witness:
  "\<exists>y. phased_orbit_peeloff 14 1 4 4.6 0.5 mission_peel default_kw = Inr ((3, 4.6, 0), y)"
proof -
  have ph: "phased_orbit_phases 4 default_kw = Inr (map (\<lambda>i. - pi / 2 + pi / 2 * real i) [0..<4])"
    by (simp add: phased_orbit_phases_def default_kw_def)
  have "sort (order_of 4 mission_peel) = [0..4 - 1]"
    by (simp add: order_of_def mission_peel_def upto.simps)
  from peeloff_returns_to_center [OF _ _ ph _ this, of 1 "4.6" "0.5"]
  obtain p where "\<forall>t. \<exists>y. phased_orbit_peeloff t 1 4 4.6 0.5 mission_peel default_kw = Inr (p t, y)"
    "\<forall>t \<ge> peeloff_duration 4 mission_peel. p t = centre_of default_kw 1"
    by (auto simp: default_kw_def mission_peel_def)
  moreover have "peeloff_duration 4 mission_peel \<le> 14" by (simp add: peeloff_duration_def mission_peel_def)
  ultimately have "\<exists>y. phased_orbit_peeloff 14 1 4 4.6 0.5 mission_peel default_kw = Inr (centre_of default_kw 1, y)" by metis
  then show ?thesis by (simp add: circle_center_def default_kw_def)
qed

text \<open>
  Modulation never stops or reverses a drone. With an amplitude below one the angle commanded on
  the circle increases strictly with time, and after every full revolution the drone is back on the
  same point of the circle.
\<close>

theorem modulated_orbit_keeps_turning:
  assumes "0 \<le> index" "index < n" "phased_orbit_phases n kw = Inr ph" "yaw_mode kw \<in> yaw_modes"
    and "0 < omega" "\<bar>amp\<bar> < 1"
  shows "\<exists>theta. strict_mono theta \<and> (\<forall>t. theta (t + 2 * pi / omega) = theta t + 2 * pi)
    \<and> (\<forall>t. \<exists>y. phased_orbit_setpoint t index n radius omega kw amp mphase
          = Inr (around (circle_center kw index) radius (theta t) (altitude kw), y))"
proof -
  let ?th = "\<lambda>t. omega * t + ph ! nat index + amp * (sin (omega * t + mphase) - sin mphase)"
  have "0 < 1 + amp * cos x" for x
    using assms(6) abs_cos_le_one [of x] mult_left_le [of "\<bar>cos x\<bar>" "\<bar>amp\<bar>"] abs_mult [of amp "cos x"] by linarith
  then have rate: "0 < omega * (1 + amp * cos x)" for x using assms(5) by simp
  have "strict_mono ?th"
  proof (rule strict_monoI)
    fix s t :: real
    assume "s < t"
    then show "?th s < ?th t"
    proof (rule DERIV_pos_imp_increasing)
      fix x
      have "(?th has_real_derivative omega + amp * (cos (omega * x + mphase) * omega)) (at x)"
        by (auto intro!: derivative_eq_intros)
      then show "\<exists>y. (?th has_real_derivative y) (at x) \<and> 0 < y"
        using rate [of "omega * x + mphase"] by (intro exI) (auto simp: algebra_simps)
    qed
  qed
  moreover have "?th (t + 2 * pi / omega) = ?th t + 2 * pi" for t
  proof -
    have "omega * (t + 2 * pi / omega) = omega * t + 2 * pi" using assms(5) by (simp add: distrib_left)
    moreover have "sin (omega * t + 2 * pi + mphase) = sin (omega * t + mphase)"
      using sin_periodic [of "omega * t + mphase"] by (simp add: ac_simps)
    ultimately show ?thesis by (simp add: algebra_simps)
  qed
  ultimately show ?thesis using setpoint_value [OF assms(1-4)] by (intro exI [of _ ?th]) blast
qed

theorem modulated_orbit_keeps_turning_witness:
  "\<exists>theta. strict_mono theta \<and> (\<forall>t. \<exists>y. phased_orbit_setpoint t 2 4 4.6 0.5 default_kw 0.3 1
    = Inr (around (6, 4.6) 4.6 (theta t) 0, y))"
proof -
  have "phased_orbit_phases 4 default_kw = Inr (map (\<lambda>i. - pi / 2 + pi / 2 * real i) [0..<4])"
    by (simp add: phased_orbit_phases_def default_kw_def)
  from modulated_orbit_keeps_turning [OF _ _ this, of 2 "0.5" "0.3" "4.6" 1] show ?thesis
    by (simp add: default_kw_def circle_center_def) blast
qed

end
