(* ===== verification/Survey_Properties.thy ===== *)
theory Survey_Properties
  imports Survey Orbit_Properties
begin

text \<open>
  The survey path: where its lanes are, that it is flown without jumps and within the requested speed from
  home back to home, and that rotating it rotates every setpoint.
\<close>

section \<open>Distances\<close>

definition diff3 :: "vec3 \<Rightarrow> vec3 \<Rightarrow> vec3" where
  "diff3 a b = (fst a - fst b, fst (snd a) - fst (snd b), snd (snd a) - snd (snd b))"

lemma dist3_hypot: "dist3 a b = hypot (hypot (fst a - fst b) (fst (snd a) - fst (snd b))) (snd (snd a) - snd (snd b))"
proof -
  have "hypot x y * hypot x y = x\<^sup>2 + y\<^sup>2" for x y :: real by (simp add: hypot_def power2_eq_square)
  then show ?thesis by (simp add: dist3_def hypot_def [of "hypot _ _"] power2_eq_square)
qed

lemma dist3_nonneg [simp]: "0 \<le> dist3 a b"
  by (simp add: dist3_def)

lemma dist3_self [simp]: "dist3 a a = 0"
  by (simp add: dist3_def)

lemma dist3_commute: "dist3 a b = dist3 b a"
  by (simp add: dist3_def power2_commute)

lemma dist3_eq_0: "dist3 a b = 0 \<longleftrightarrow> a = b"
  by (auto simp: dist3_hypot prod_eq_iff)

lemma hypot_mono_left: "0 \<le> x \<Longrightarrow> x \<le> x' \<Longrightarrow> hypot x y \<le> hypot x' y"
  by (simp add: hypot_def mult_mono)

lemma dist3_triangle: "dist3 a c \<le> dist3 a b + dist3 b c"
proof -
  let ?x = "\<lambda>a b. fst a - fst b" and ?y = "\<lambda>a b. fst (snd a) - fst (snd b)" and ?z = "\<lambda>a b. snd (snd a) - snd (snd b)"
  have "hypot (?x a c) (?y a c) \<le> hypot (?x a b) (?y a b) + hypot (?x b c) (?y b c)"
    using hypot_triangle [of "?x a b" "?x b c" "?y a b" "?y b c"] by simp
  then have "dist3 a c \<le> hypot (hypot (?x a b) (?y a b) + hypot (?x b c) (?y b c)) (?z a c)"
    unfolding dist3_hypot by (intro hypot_mono_left) simp_all
  also have "\<dots> \<le> dist3 a b + dist3 b c"
    using hypot_triangle [of "hypot (?x a b) (?y a b)" "hypot (?x b c) (?y b c)" "?z a b" "?z b c"] by (simp add: dist3_hypot)
  finally show ?thesis .
qed

section \<open>Flying a schedule\<close>

definition position_at :: "segment list \<Rightarrow> real \<Rightarrow> vec3" where
  "position_at sched t = fst (schedule_setpoint sched t)"

fun walk_position :: "vec3 \<Rightarrow> segment list \<Rightarrow> real \<Rightarrow> vec3" where
  "walk_position final [] t = final"
| "walk_position final (g # gs) t = (if t \<le> duration_s g then along g t else walk_position final gs (t - duration_s g))"

lemma setpoint_walk_position: "fst (setpoint_walk final gs t direction) = walk_position final gs t"
  by (induction gs arbitrary: t direction) auto

lemma setpoint_walk_done: "snd (snd (setpoint_walk final gs t direction)) \<longleftrightarrow> (\<forall>k < length gs. schedule_duration (take (Suc k) gs) < t)"
proof (induction gs arbitrary: t direction)
  case (Cons g gs)
  show ?case
  proof (cases "t \<le> duration_s g")
    case True
    then show ?thesis by (auto simp: schedule_duration_def intro!: exI [of _ 0])
  next
    case False
    have "(\<forall>k < length (g # gs). schedule_duration (take (Suc k) (g # gs)) < t)
        \<longleftrightarrow> (\<forall>k < length gs. schedule_duration (take (Suc k) gs) < t - duration_s g)"
      using False by (auto simp: schedule_duration_def All_less_Suc2 algebra_simps)
    then show ?thesis using False Cons.IH by simp
  qed
qed simp

text \<open>A segment whose duration is enough for its length at peak speed \<open>v\<close>.\<close>

definition paced :: "real \<Rightarrow> segment \<Rightarrow> bool" where
  "paced v g \<longleftrightarrow> 0 \<le> duration_s g \<and> 3 / 2 * dist3 (p0 g) (p1 g) \<le> v * duration_s g"

lemma smoothstep_slope:
  assumes "0 \<le> u" "u \<le> w" "w \<le> 1"
  shows "smoothstep w - smoothstep u \<le> 3 / 2 * (w - u)"
proof -
  have "3 / 2 * (w - u) - (smoothstep w - smoothstep u) = (w - u) * (3 / 2 * (u + w - 1)\<^sup>2 + (u - w)\<^sup>2 / 2)"
    by (simp add: smoothstep_def power2_eq_square algebra_simps) (simp add: field_simps)
  moreover have "0 \<le> (w - u) * (3 / 2 * (u + w - 1)\<^sup>2 + (u - w)\<^sup>2 / 2)" using assms by simp
  ultimately show ?thesis by linarith
qed

lemma lerp_distance:
  "dist3 (fst a + (fst b - fst a) * s, fst (snd a) + (fst (snd b) - fst (snd a)) * s, snd (snd a) + (snd (snd b) - snd (snd a)) * s)
         (fst a + (fst b - fst a) * s', fst (snd a) + (fst (snd b) - fst (snd a)) * s', snd (snd a) + (snd (snd b) - snd (snd a)) * s')
    = \<bar>s - s'\<bar> * dist3 a b"
proof -
  let ?x = "fst a - fst b" and ?y = "fst (snd a) - fst (snd b)" and ?z = "snd (snd a) - snd (snd b)"
  have "((s' - s) * ?x)\<^sup>2 + ((s' - s) * ?y)\<^sup>2 + ((s' - s) * ?z)\<^sup>2 = (s - s')\<^sup>2 * (?x\<^sup>2 + ?y\<^sup>2 + ?z\<^sup>2)"
    by (simp only: power_mult_distrib distrib_left power2_commute [of s])
  then have "sqrt (((s' - s) * ?x)\<^sup>2 + ((s' - s) * ?y)\<^sup>2 + ((s' - s) * ?z)\<^sup>2) = \<bar>s - s'\<bar> * dist3 a b"
    by (simp add: real_sqrt_mult dist3_def)
  moreover have "fst a + (fst b - fst a) * s - (fst a + (fst b - fst a) * s') = (s' - s) * ?x"
    "fst (snd a) + (fst (snd b) - fst (snd a)) * s - (fst (snd a) + (fst (snd b) - fst (snd a)) * s') = (s' - s) * ?y"
    "snd (snd a) + (snd (snd b) - snd (snd a)) * s - (snd (snd a) + (snd (snd b) - snd (snd a)) * s') = (s' - s) * ?z"
    by (simp_all add: algebra_simps)
  ultimately show ?thesis by (simp add: dist3_def [of "(_, _)"])
qed

lemma along_start: "paced v g \<Longrightarrow> along g 0 = p0 g"
proof (cases "duration_s g > 0")
  case False
  assume "paced v g"
  then have "dist3 (p0 g) (p1 g) \<le> 0" using False by (auto simp: paced_def)
  then have "dist3 (p0 g) (p1 g) = 0" using dist3_nonneg order_antisym by blast
  then show ?thesis by (simp add: dist3_eq_0 along_def Let_def)
qed (simp add: along_def)

lemma along_end: "along g (duration_s g) = p1 g"
  by (simp add: along_def Let_def)

lemma along_speed:
  assumes "paced v g" "0 \<le> t" "t \<le> t'" "t' \<le> duration_s g"
  shows "dist3 (along g t) (along g t') \<le> v * (t' - t)"
proof (cases "duration_s g > 0")
  case False
  then have "t = 0" "t' = 0" using assms by auto
  then show ?thesis by simp
next
  case True
  let ?u = "t / duration_s g" and ?w = "t' / duration_s g"
  have u: "0 \<le> ?u" "?u \<le> ?w" "?w \<le> 1" using assms True by (simp_all add: divide_right_mono)
  have "dist3 (along g t) (along g t') = \<bar>smoothstep ?u - smoothstep ?w\<bar> * dist3 (p0 g) (p1 g)"
    using True by (simp add: along_def Let_def lerp_distance)
  also have "\<dots> \<le> 3 / 2 * (?w - ?u) * dist3 (p0 g) (p1 g)"
    using smoothstep_slope [OF u] smoothstep_mono [OF u] by (intro mult_right_mono) simp_all
  also have "\<dots> = (t' - t) / duration_s g * (3 / 2 * dist3 (p0 g) (p1 g))"
    by (simp only: diff_divide_distrib mult.assoc mult.left_commute [of "3 / 2"])
  also have "\<dots> \<le> (t' - t) / duration_s g * (v * duration_s g)"
    using assms True by (intro mult_left_mono) (simp_all add: paced_def)
  also have "\<dots> = v * (t' - t)" using True by simp
  finally show ?thesis .
qed

text \<open>The total length of the jumps on the way from \<open>a\<close> through a schedule to \<open>b\<close>.\<close>

fun slop :: "vec3 \<Rightarrow> segment list \<Rightarrow> vec3 \<Rightarrow> real" where
  "slop a [] b = dist3 a b"
| "slop a (g # gs) b = dist3 a (p0 g) + slop (p1 g) gs b"

lemma slop_nonneg [simp]: "0 \<le> slop a gs b"
  by (induction gs arbitrary: a) auto

lemma slop_triangle_left: "slop a gs b \<le> dist3 a a' + slop a' gs b"
  using dist3_triangle by (cases gs) (simp_all add: add_increasing add.assoc [symmetric] add_right_mono)

lemma slop_append: "slop a (gs @ hs) c \<le> slop a gs b + slop b hs c"
proof (induction gs arbitrary: a)
  case Nil
  then show ?case using slop_triangle_left by simp
next
  case (Cons g gs)
  then show ?case using Cons.IH [of "p1 g"] by simp
qed

lemma slop_own_end: "gs \<noteq> [] \<Longrightarrow> slop a gs (p1 (last gs)) \<le> slop a gs b"
  by (induction gs arbitrary: a) auto

lemma slop_end: "gs \<noteq> [] \<Longrightarrow> dist3 (p1 (last gs)) b \<le> slop a gs b"
  by (induction gs arbitrary: a) (auto simp: add_increasing)

lemma walk_start: "\<forall>g \<in> set gs. paced v g \<Longrightarrow> dist3 a (walk_position final gs 0) \<le> slop a gs final"
  by (cases gs) (auto simp: along_start paced_def)

lemma walk_from_start:
  assumes "\<forall>g \<in> set gs. paced v g" "0 \<le> v" "0 \<le> t"
  shows "dist3 a (walk_position final gs t) \<le> v * t + slop a gs final"
  using assms(1,3)
proof (induction gs arbitrary: a t)
  case Nil
  then show ?case using assms(2) by simp
next
  case (Cons g gs)
  have g: "paced v g" "0 \<le> duration_s g" using Cons.prems(1) by (simp_all add: paced_def)
  note tri = dist3_triangle [of a "walk_position final (g # gs) t" "p0 g"]
  have rest: "0 \<le> slop (p1 g) gs final" by simp
  show ?case
  proof (cases "t \<le> duration_s g")
    case True
    then have "dist3 (p0 g) (along g t) \<le> v * t"
      using along_speed [OF g(1) _ Cons.prems(2)] along_start [OF g(1)] by simp
    then show ?thesis using True tri rest by (simp del: slop_nonneg)
  next
    case False
    then have "dist3 (p0 g) (p1 g) \<le> v * duration_s g"
      using along_speed [OF g(1) _ g(2)] along_start [OF g(1)] along_end [of g] by simp
    moreover have "dist3 (p1 g) (walk_position final gs (t - duration_s g)) \<le> v * (t - duration_s g) + slop (p1 g) gs final"
      using False Cons.IH [of "t - duration_s g" "p1 g"] Cons.prems(1) by simp
    moreover have "v * t = v * duration_s g + v * (t - duration_s g)" by (simp add: algebra_simps)
    ultimately show ?thesis
      using False tri dist3_triangle [of "p0 g" "walk_position final gs (t - duration_s g)" "p1 g"] by simp
  qed
qed

lemma walk_speed:
  assumes "\<forall>g \<in> set gs. paced v g" "0 \<le> v" "0 \<le> t" "t \<le> t'"
  shows "dist3 (walk_position final gs t) (walk_position final gs t') \<le> v * (t' - t) + slop a gs final"
  using assms(1,3,4)
proof (induction gs arbitrary: a t t')
  case Nil
  then show ?case using assms(2) by simp
next
  case (Cons g gs)
  have g: "paced v g" "0 \<le> duration_s g" using Cons.prems(1) by (simp_all add: paced_def)
  have cut: "0 \<le> slop (p1 g) gs final" "slop a (g # gs) final = dist3 a (p0 g) + slop (p1 g) gs final"
    "0 \<le> dist3 a (p0 g)" by simp_all
  consider "t' \<le> duration_s g" | "t \<le> duration_s g" "duration_s g < t'" | "duration_s g < t"
    using Cons.prems(3) by linarith
  then show ?case
  proof cases
    case 1
    then have "dist3 (walk_position final (g # gs) t) (walk_position final (g # gs) t') \<le> v * (t' - t)"
      using along_speed [OF g(1) Cons.prems(2,3)] Cons.prems(3) by simp
    then show ?thesis using cut by linarith
  next
    case 2
    let ?r = "t' - duration_s g"
    have "dist3 (along g t) (p1 g) \<le> v * (duration_s g - t)"
      using along_speed [OF g(1) Cons.prems(2) 2(1)] by (simp add: along_end)
    moreover have "dist3 (p1 g) (walk_position final gs ?r) \<le> v * ?r + slop (p1 g) gs final"
      using Cons.prems(1) 2(2) assms(2) by (intro walk_from_start) simp_all
    moreover have "v * (t' - t) = v * (duration_s g - t) + v * ?r" by (simp add: algebra_simps)
    ultimately show ?thesis
      using 2 cut dist3_triangle [of "along g t" "walk_position final gs ?r" "p1 g"]
      by (simp del: slop_nonneg dist3_nonneg)
  next
    case 3
    then have "dist3 (walk_position final (g # gs) t) (walk_position final (g # gs) t')
        \<le> v * (t' - t) + slop (p1 g) gs final"
      using Cons.IH [of "t - duration_s g" "t' - duration_s g" "p1 g"] Cons.prems by simp
    then show ?thesis using cut by linarith
  qed
qed

lemma walk_done:
  assumes "\<forall>g \<in> set gs. 0 \<le> duration_s g" "schedule_duration gs < t"
  shows "setpoint_walk final gs t direction = (final, snd (setpoint_walk final gs t direction))"
    and "snd (snd (setpoint_walk final gs t direction))"
proof -
  have "fst (setpoint_walk final gs t direction) = final \<and> snd (snd (setpoint_walk final gs t direction))"
    using assms
  proof (induction gs arbitrary: t direction)
    case (Cons g gs)
    have "0 \<le> schedule_duration gs"
      using Cons.prems(1) unfolding schedule_duration_def by (intro sum_list_nonneg) auto
    then show ?case using Cons by (simp add: schedule_duration_def)
  qed simp
  then show "setpoint_walk final gs t direction = (final, snd (setpoint_walk final gs t direction))"
    "snd (snd (setpoint_walk final gs t direction))" by (simp_all add: prod_eq_iff)
qed

section \<open>Building the survey\<close>

lemma polyline_step:
  "polyline_schedule (a # b # pts) speed lab =
    (if dist3 a b > 1 / 10 ^ 9 then bindE (seg a b speed lab) (\<lambda>g. bindE (polyline_schedule (b # pts) speed lab) (\<lambda>gs. Inr (g # gs)))
     else polyline_schedule (b # pts) speed lab)"
  by (simp add: polyline_schedule_def)

lemma polyline_slop:
  assumes "polyline_schedule (a # pts) speed lab = Inr gs"
  shows "slop a gs (last (a # pts)) \<le> real (length pts) / 10 ^ 9"
  using assms
proof (induction pts arbitrary: a gs)
  case Nil
  then show ?case by (simp add: polyline_schedule_def)
next
  case (Cons b pts)
  have last: "last (a # b # pts) = last (b # pts)" by simp
  show ?case
  proof (cases "dist3 a b > 1 / 10 ^ 9")
    case True
    then obtain g hs where g: "seg a b speed lab = Inr g" "polyline_schedule (b # pts) speed lab = Inr hs" "gs = g # hs"
      using Cons.prems by (auto simp: polyline_step)
    then have "p0 g = a" "p1 g = b" by (auto simp: seg_def Let_def split: if_splits)
    then show ?thesis using Cons.IH [OF g(2)] unfolding g(3) last by simp
  next
    case False
    then have gs: "polyline_schedule (b # pts) speed lab = Inr gs" using Cons.prems by (simp add: polyline_step)
    have "slop a gs (last (b # pts)) \<le> dist3 a b + slop b gs (last (b # pts))" by (rule slop_triangle_left)
    also have "\<dots> \<le> 1 / 10 ^ 9 + real (length pts) / 10 ^ 9" using False Cons.IH [OF gs] by linarith
    finally show ?thesis unfolding last by (simp add: add_divide_distrib)
  qed
qed

lemma polyline_paced:
  assumes "polyline_schedule pts speed lab = Inr gs" "0 < speed" "speed \<le> v"
  shows "\<forall>g \<in> set gs. paced v g"
proof -
  have g: "paced v g" if "seg a b speed lab = Inr g" "1 / 10 ^ 9 < dist3 a b" for a b g
  proof -
    have "speed * duration_s g \<le> v * duration_s g" if "0 \<le> duration_s g" using that assms(3) by (rule mult_right_mono [rotated])
    then show ?thesis using that assms(2) by (auto simp: seg_def paced_def Let_def split: if_splits)
  qed
  show ?thesis
  proof
    fix g assume "g \<in> set gs"
    then obtain i where i: "i < length gs" "gs ! i = g" by (metis in_set_conv_nth)
    let ?ps = "filter (\<lambda>(a, b). dist3 a b > 1 / 10 ^ 9) (zip pts (tl pts))"
    have m: "i < length ?ps" "(\<lambda>(a, b). seg a b speed lab) (?ps ! i) = Inr g"
      using mapE_Inr_nth [OF assms(1) [unfolded polyline_schedule_def]] i by auto
    moreover have "1 / 10 ^ 9 < dist3 (fst (?ps ! i)) (snd (?ps ! i))" using nth_mem [OF m(1)] by (auto split: prod.splits)
    ultimately show "paced v g" using g [of "fst (?ps ! i)" "snd (?ps ! i)"] by (simp add: case_prod_unfold)
  qed
qed

lemma lane_pass_length: "lane_pass kw cross = Inr pts \<Longrightarrow>
  length pts = 2 * nat (lane_count (if cross then field_length kw else field_width kw) (lane_spacing kw))"
proof -
  have "length (concat (map (\<lambda>i. if even i then [f i, g i] else [g i, f i]) [0..<n])) = 2 * n" for f g :: "nat \<Rightarrow> vec3" and n
    by (induction n) simp_all
  then show "lane_pass kw cross = Inr pts \<Longrightarrow> ?thesis"
    by (auto simp: lane_pass_def serpentine_waypoints_def Let_def split: if_splits)
qed

text \<open>A schedule built so far: from home, loosely, and paced.\<close>

definition built :: "vec3 \<Rightarrow> real \<Rightarrow> real \<Rightarrow> segment list \<Rightarrow> bool" where
  "built home v e sched \<longleftrightarrow> sched \<noteq> [] \<and> slop home sched (p1 (last sched)) \<le> e \<and> (\<forall>g \<in> set sched. paced v g)"

lemma built_append:
  assumes "built home v e sched" "end_of sched = Inr b" "slop b extra c \<le> e'" "\<forall>g \<in> set extra. paced v g"
  shows "built home v (e + e') (sched @ extra)" "slop home (sched @ extra) c \<le> e + e'"
proof -
  have b: "p1 (last sched) = b" using assms(1,2) by (auto simp: end_of_def built_def)
  show le: "slop home (sched @ extra) c \<le> e + e'"
    using slop_append [of home sched extra c b] assms(1,3) b by (simp add: built_def)
  then show "built home v (e + e') (sched @ extra)"
    using assms(1,4) slop_own_end [of "sched @ extra" home c] by (auto simp: built_def)
qed

lemma polyline_more:
  assumes "polyline_schedule (a # pts) speed lab = Inr gs" "0 < speed" "speed \<le> v"
  shows "slop a gs (last (a # pts)) \<le> real (length pts) / 10 ^ 9" "\<forall>g \<in> set gs. paced v g"
  using polyline_slop [OF assms(1)] polyline_paced [OF assms] by auto

lemma end_of_Inr: "sched \<noteq> [] \<Longrightarrow> end_of sched = Inr (p1 (last sched))"
  by (simp add: end_of_def)

lemma crosshatch_built:
  assumes "built home v e sched" "add_crosshatch kw sched = Inr sched'" "0 < speed_mps kw" "speed_mps kw \<le> v" "0 \<le> revisit_gap kw"
  shows "built home v (e + real (1 + 2 * nat (lane_count (field_length kw) (lane_spacing kw))) / 10 ^ 9) sched'"
proof (cases "crosshatch kw")
  case False
  then show ?thesis using assms(1,2) by (auto simp: add_crosshatch_def built_def add_increasing2)
next
  case True
  define entry where "entry = (field_e0 kw, field_n0 kw, altitude_m kw)"
  obtain b ret pass2 lanes where parts: "end_of sched = Inr b"
    "polyline_schedule [b, entry] (speed_mps kw) ''regap'' = Inr ret" "lane_pass kw True = Inr pass2"
    "polyline_schedule (entry # pass2) (speed_mps kw) ''crosshatch'' = Inr lanes"
    and sched': "sched' = sched @ ret @ [hover entry (revisit_gap kw) ''regap''] @ lanes"
    using assms(2) True by (auto simp: add_crosshatch_def Let_def simp flip: entry_def)
  note ret = polyline_more [OF parts(2) assms(3,4)]
  note lanes = polyline_more [OF parts(4) assms(3,4)]
  have "slop b (ret @ [hover entry (revisit_gap kw) ''regap''] @ lanes) (last (entry # pass2))
      \<le> slop b ret entry + slop entry ([hover entry (revisit_gap kw) ''regap''] @ lanes) (last (entry # pass2))"
    by (rule slop_append)
  also have "slop entry ([hover entry (revisit_gap kw) ''regap''] @ lanes) (last (entry # pass2))
      = slop entry lanes (last (entry # pass2))" by (simp add: hover_def)
  finally have "slop b (ret @ [hover entry (revisit_gap kw) ''regap''] @ lanes) (last (entry # pass2))
      \<le> real (1 + 2 * nat (lane_count (field_length kw) (lane_spacing kw))) / 10 ^ 9"
    using ret(1) lanes(1) lane_pass_length [OF parts(3)] by (simp add: add_divide_distrib)
  moreover have "paced v (hover entry (revisit_gap kw) ''regap'')"
    using assms(3-5) by (simp add: paced_def hover_def)
  ultimately show ?thesis unfolding sched' using ret(2) lanes(2)
    by (intro built_append(1) [OF assms(1) parts(1)]) auto
qed

lemma cube_built:
  assumes "built home v e sched" "add_cube kw sched = Inr sched'" "0 < cube_speed kw" "cube_speed kw \<le> v"
  shows "built home v (e + 11 / 10 ^ 9) sched'"
proof (cases "cube_side kw > 0")
  case False
  then show ?thesis using assms(1,2) by (auto simp: add_cube_def built_def)
next
  case True
  obtain b cube where parts: "end_of sched = Inr b"
    "polyline_schedule (b # cube_waypoints 0 0 (cube_side kw) (altitude_m kw)) (cube_speed kw) ''cube'' = Inr cube"
    "sched' = sched @ cube"
    using assms(2) True by (auto simp: add_cube_def)
  have "length (cube_waypoints 0 0 (cube_side kw) (altitude_m kw)) = 11" by (simp add: cube_waypoints_def Let_def)
  then show ?thesis unfolding parts(3)
    using polyline_more [OF parts(2) assms(3,4)] by (intro built_append(1) [OF assms(1) parts(1)]) auto
qed

definition survey_tolerance :: "survey_kw \<Rightarrow> real" where
  "survey_tolerance kw = real (2 * nat (lane_count (field_width kw) (lane_spacing kw))
     + 2 * nat (lane_count (field_length kw) (lane_spacing kw)) + 13) / 10 ^ 9"

lemma survey_built:
  assumes "build_survey_schedule kw = Inr sched" "0 < speed_mps kw" "0 < cube_speed kw" "0 \<le> revisit_gap kw"
  defines "v \<equiv> max (speed_mps kw) (cube_speed kw)"
  shows "built (0, 0, altitude_m kw) v (survey_tolerance kw) sched"
    and "slop (0, 0, altitude_m kw) sched (0, 0, altitude_m kw) \<le> survey_tolerance kw"
proof -
  define home where "home = (0 :: real, 0 :: real, altitude_m kw)"
  obtain pass1 lanes sched1 sched2 b ret where parts: "lane_pass kw False = Inr pass1"
    "polyline_schedule (home # pass1) (speed_mps kw) ''serpentine'' = Inr lanes"
    "add_crosshatch kw lanes = Inr sched1" "add_cube kw sched1 = Inr sched2" "end_of sched2 = Inr b"
    "polyline_schedule [b, home] (speed_mps kw) ''home'' = Inr ret" and sched: "sched = sched2 @ ret"
    using assms(1) by (auto simp: build_survey_schedule_def Let_def simp flip: home_def)
  have v: "speed_mps kw \<le> v" "cube_speed kw \<le> v" by (simp_all add: v_def)
  have "lanes \<noteq> []"
  proof
    assume "lanes = []"
    then have "sched2 = []" using parts(3,4) by (auto simp: add_crosshatch_def add_cube_def end_of_def Let_def split: if_splits)
    then show False using parts(5) by (simp add: end_of_def)
  qed
  then have "slop home lanes (p1 (last lanes)) \<le> slop home lanes (last (home # pass1))" by (rule slop_own_end)
  then have "built home v (real (2 * nat (lane_count (field_width kw) (lane_spacing kw))) / 10 ^ 9) lanes"
    using polyline_more [OF parts(2) assms(2) v(1)] lane_pass_length [OF parts(1)] \<open>lanes \<noteq> []\<close> by (simp add: built_def)
  note cube = cube_built [OF crosshatch_built [OF this parts(3) assms(2) v(1) assms(4)] parts(4) assms(3) v(2)]
  note home = polyline_more [OF parts(6) assms(2) v(1)]
  have "slop b ret home \<le> 1 / 10 ^ 9" using home(1) by simp
  from built_append [OF cube parts(5) this home(2)]
  show "built (0, 0, altitude_m kw) v (survey_tolerance kw) sched"
    "slop (0, 0, altitude_m kw) sched (0, 0, altitude_m kw) \<le> survey_tolerance kw"
    by (simp_all add: sched survey_tolerance_def add_divide_distrib ac_simps flip: home_def)
qed

lemma schedule_position: "sched \<noteq> [] \<Longrightarrow> position_at sched t = walk_position (p1 (last sched)) sched (max 0 t)"
  by (simp add: position_at_def schedule_setpoint_def setpoint_walk_position)

lemma built_survey_flies_home:
  assumes "build_survey_schedule kw = Inr sched" "0 < speed_mps kw" "0 < cube_speed kw" "0 \<le> revisit_gap kw"
  shows "(\<forall>t t'. dist3 (position_at sched t) (position_at sched t')
        \<le> max (speed_mps kw) (cube_speed kw) * \<bar>t' - t\<bar> + survey_tolerance kw)
    \<and> dist3 (0, 0, altitude_m kw) (position_at sched 0) \<le> survey_tolerance kw
    \<and> (\<forall>t. schedule_duration sched < t \<longrightarrow> snd (snd (schedule_setpoint sched t))
          \<and> dist3 (0, 0, altitude_m kw) (position_at sched t) \<le> survey_tolerance kw)"
proof -
  define v where "v = max (speed_mps kw) (cube_speed kw)"
  let ?home = "(0, 0, altitude_m kw)" and ?fin = "p1 (last sched)"
  have b: "sched \<noteq> []" "slop ?home sched ?fin \<le> survey_tolerance kw" "\<forall>g \<in> set sched. paced v g"
    and home: "dist3 ?fin ?home \<le> survey_tolerance kw"
    using survey_built [OF assms] slop_end [of sched ?home ?home] by (auto simp: built_def v_def)
  have v: "0 \<le> v" using assms(2) by (simp add: v_def)
  note pos = schedule_position [OF b(1)]
  have ordered: "dist3 (position_at sched t) (position_at sched t') \<le> v * \<bar>t' - t\<bar> + survey_tolerance kw" if "t \<le> t'" for t t'
  proof -
    have "dist3 (position_at sched t) (position_at sched t') \<le> v * (max 0 t' - max 0 t) + slop ?home sched ?fin"
      unfolding pos using that by (intro walk_speed [OF b(3) v]) auto
    moreover have "v * (max 0 t' - max 0 t) \<le> v * \<bar>t' - t\<bar>" using v that by (intro mult_left_mono) auto
    ultimately show ?thesis using b(2) by linarith
  qed
  then have any: "dist3 (position_at sched t) (position_at sched t') \<le> v * \<bar>t' - t\<bar> + survey_tolerance kw" for t t'
    using ordered [of t t'] ordered [of t' t] dist3_commute [of "position_at sched t" "position_at sched t'"]
    by (cases "t \<le> t'") (simp_all add: abs_minus_commute)
  have start: "dist3 ?home (position_at sched 0) \<le> survey_tolerance kw"
    using walk_start [OF b(3), of ?home ?fin] b(2) by (simp add: pos)
  have "snd (snd (schedule_setpoint sched t)) \<and> position_at sched t = ?fin" if "schedule_duration sched < t" for t
  proof -
    have pac: "\<forall>g \<in> set sched. 0 \<le> duration_s g" using b(3) by (simp add: paced_def)
    then have "0 \<le> schedule_duration sched" unfolding schedule_duration_def by (intro sum_list_nonneg) auto
    then have "max 0 t = t" using that by simp
    then show ?thesis using walk_done [OF pac that, of ?fin "(0, 0)"] b(1)
      by (metis fst_conv position_at_def schedule_setpoint_def)
  qed
  then show ?thesis using any start home unfolding v_def by (simp add: dist3_commute [of ?home])
qed

lemma polyline_total:
  assumes "speed \<noteq> 0"
  shows "\<exists>gs. polyline_schedule pts speed lab = Inr gs \<and> length gs = length (filter (\<lambda>(a, b). dist3 a b > 1 / 10 ^ 9) (zip pts (tl pts)))"
proof -
  have "\<exists>gs. mapE (\<lambda>(a, b). seg a b speed lab) ps = Inr gs \<and> length gs = length ps" for ps
    using assms by (induction ps) (auto simp: seg_def Let_def)
  then show ?thesis unfolding polyline_schedule_def by blast
qed

lemma first_lane:
  assumes "0 < lane_spacing kw" "1 / 10 ^ 9 < field_length kw"
  shows "\<exists>near far pts. lane_pass kw False = Inr (near # far # pts) \<and> 1 / 10 ^ 9 < dist3 near far"
proof -
  define n where "n = nat (lane_count (field_width kw) (lane_spacing kw))"
  have "[0..<n] = 0 # [1..<n]" using upt_conv_Cons [of 0 n] by (simp add: n_def lane_count_def)
  moreover have "dist3 (x, y, z) (x + c * l, y + s * l, z) = \<bar>l\<bar>" if "c * c + s * s = 1" for x y z c s l :: real
  proof -
    have "(c * l)\<^sup>2 + (s * l)\<^sup>2 = l\<^sup>2 * (c * c + s * s)" by (simp add: power2_eq_square algebra_simps)
    then show ?thesis using that by (simp add: dist3_def)
  qed
  moreover have "cos a * cos a + sin a * sin a = 1" for a :: real
    using sin_cos_squared_add [of a] by (simp add: power2_eq_square)
  ultimately show ?thesis using assms by (simp add: lane_pass_def serpentine_waypoints_def Let_def flip: n_def)
qed

lemma survey_total:
  assumes "0 < lane_spacing kw" "1 / 10 ^ 9 < field_length kw" "0 < speed_mps kw" "0 < cube_speed kw"
  shows "\<exists>sched. build_survey_schedule kw = Inr sched"
proof -
  define home where "home = (0 :: real, 0 :: real, altitude_m kw)"
  have poly: "\<exists>gs. polyline_schedule pts (speed_mps kw) lab = Inr gs" "\<exists>gs. polyline_schedule pts (cube_speed kw) lab = Inr gs" for pts lab
    using polyline_total [of "speed_mps kw" pts lab] polyline_total [of "cube_speed kw" pts lab] assms(3,4) by auto
  obtain near far pts where pass1: "lane_pass kw False = Inr (near # far # pts)" "1 / 10 ^ 9 < dist3 near far"
    using first_lane [OF assms(1,2)] by blast
  obtain pass2 where pass2: "lane_pass kw True = Inr pass2" using assms(1) by (simp add: lane_pass_def serpentine_waypoints_def Let_def)
  obtain lanes where lanes: "polyline_schedule (home # near # far # pts) (speed_mps kw) ''serpentine'' = Inr lanes" "lanes \<noteq> []"
  proof -
    obtain gs where gs: "polyline_schedule (home # near # far # pts) (speed_mps kw) ''serpentine'' = Inr gs"
      "length gs = length (filter (\<lambda>(a, b). dist3 a b > 1 / 10 ^ 9) (zip (home # near # far # pts) (near # far # pts)))"
      using polyline_total [of "speed_mps kw" "home # near # far # pts" "''serpentine''"] assms(3) by auto
    have "(near, far) \<in> set (filter (\<lambda>(a, b). dist3 a b > 1 / 10 ^ 9) (zip (home # near # far # pts) (near # far # pts)))"
      using pass1(2) by simp
    then have "0 < length gs" unfolding gs(2) by (rule length_pos_if_in_set)
    then show thesis using gs(1) that by blast
  qed
  obtain s1 where s1: "add_crosshatch kw lanes = Inr s1" "s1 \<noteq> []"
  proof (cases "crosshatch kw")
    case True
    define entry where "entry = (field_e0 kw, field_n0 kw, altitude_m kw)"
    obtain g h where "polyline_schedule [p1 (last lanes), entry] (speed_mps kw) ''regap'' = Inr g"
      "polyline_schedule (entry # pass2) (speed_mps kw) ''crosshatch'' = Inr h" using poly by metis
    then show thesis using True lanes(2) pass2
      by (intro that [of "lanes @ g @ [hover entry (revisit_gap kw) ''regap''] @ h"])
        (simp_all add: add_crosshatch_def end_of_Inr flip: entry_def)
  qed (use lanes(2) in \<open>simp add: add_crosshatch_def that\<close>)
  obtain s2 where s2: "add_cube kw s1 = Inr s2" "s2 \<noteq> []"
  proof (cases "cube_side kw > 0")
    case True
    obtain g where "polyline_schedule (p1 (last s1) # cube_waypoints 0 0 (cube_side kw) (altitude_m kw)) (cube_speed kw) ''cube'' = Inr g"
      using poly by metis
    then show thesis using True s1(2) by (intro that [of "s1 @ g"]) (simp_all add: add_cube_def end_of_Inr)
  qed (use s1(2) in \<open>simp add: add_cube_def that\<close>)
  obtain g where "polyline_schedule [p1 (last s2), home] (speed_mps kw) ''home'' = Inr g" using poly by metis
  then show ?thesis using pass1(1) lanes(1) s1(1) s2 by (simp add: build_survey_schedule_def end_of_Inr flip: home_def)
qed

text \<open>
  The survey is flown without jumps, within its speed, and home. Every survey over a real field
  can be built, with any cross-hatch and cube; between any two instants the commanded position moves
  no further than the faster of the two requested speeds times the time between them, it starts at
  the launch anchor at survey altitude and, when its duration is over, it is back there and says so;
  all up to a billionth of a metre per waypoint, the length below which the builder drops a leg.
\<close>

theorem survey_flies_home_without_jumps:
  assumes "0 < lane_spacing kw" "1 / 10 ^ 9 < field_length kw" "0 < speed_mps kw" "0 < cube_speed kw" "0 \<le> revisit_gap kw"
  shows "\<exists>sched. build_survey_schedule kw = Inr sched
    \<and> (\<forall>t t'. dist3 (position_at sched t) (position_at sched t')
        \<le> max (speed_mps kw) (cube_speed kw) * \<bar>t' - t\<bar> + survey_tolerance kw)
    \<and> dist3 (0, 0, altitude_m kw) (position_at sched 0) \<le> survey_tolerance kw
    \<and> (\<forall>t. schedule_duration sched < t \<longrightarrow> snd (snd (schedule_setpoint sched t))
          \<and> dist3 (0, 0, altitude_m kw) (position_at sched t) \<le> survey_tolerance kw)"
  using survey_total [OF assms(1-4)] built_survey_flies_home [OF _ assms(3-5)] by blast

definition default_survey :: survey_kw where
  "default_survey = \<lparr>field_e0 = 2, field_n0 = 2, lane_axis_deg = 0, field_length = 10, field_width = 6, lane_spacing = 2,
     altitude_m = 4, speed_mps = 3 / 2, revisit_gap = 8, crosshatch = True, cube_side = 2, cube_speed = 1\<rparr>"

theorem survey_flies_home_without_jumps_witness:
  "\<exists>sched. build_survey_schedule default_survey = Inr sched
    \<and> dist3 (position_at sched 1) (position_at sched 2) \<le> 3 / 2 + survey_tolerance default_survey"
proof -
  obtain sched where "build_survey_schedule default_survey = Inr sched"
    "\<forall>t t'. dist3 (position_at sched t) (position_at sched t') \<le> 3 / 2 * \<bar>t' - t\<bar> + survey_tolerance default_survey"
    using survey_flies_home_without_jumps [of default_survey] by (auto simp: default_survey_def)
  then show ?thesis by (metis abs_one diff_add_cancel mult.right_neutral one_add_one add_diff_cancel)
qed

section \<open>Rotation\<close>

lemma rot_hypot: "hypot (cos a * x - sin a * y) (sin a * x + cos a * y) = hypot x y"
proof -
  have "(cos a * x - sin a * y) * (cos a * x - sin a * y) + (sin a * x + cos a * y) * (sin a * x + cos a * y)
      = ((sin a)\<^sup>2 + (cos a)\<^sup>2) * (x * x + y * y)" by algebra
  then show ?thesis by (simp add: hypot_def)
qed

definition rot2 :: "real \<Rightarrow> point \<Rightarrow> point" where
  "rot2 theta d = (cos theta * fst d - sin theta * snd d, sin theta * fst d + cos theta * snd d)"

definition rotated :: "real \<Rightarrow> segment \<Rightarrow> segment" where
  "rotated theta g = g\<lparr>p0 := rot theta (p0 g), p1 := rot theta (p1 g)\<rparr>"

lemma rotated_along: "along (rotated theta g) t = rot theta (along g t)"
  by (simp add: rotated_def along_def rot_def Let_def algebra_simps)

lemma rot2_scaled: "rot2 theta (x / h, y / h) = ((cos theta * x - sin theta * y) / h, (sin theta * x + cos theta * y) / h)"
  by (simp add: rot2_def diff_divide_distrib add_divide_distrib)

lemma rotated_travel: "travel (rotated theta g) (rot2 theta d) = rot2 theta (travel g d)"
proof -
  let ?de = "fst (p1 g) - fst (p0 g)" and ?dn = "fst (snd (p1 g)) - fst (snd (p0 g))"
  have "fst (p1 (rotated theta g)) - fst (p0 (rotated theta g)) = cos theta * ?de - sin theta * ?dn"
    "fst (snd (p1 (rotated theta g))) - fst (snd (p0 (rotated theta g))) = sin theta * ?de + cos theta * ?dn"
    by (simp_all add: rotated_def rot_def algebra_simps)
  then show ?thesis
    unfolding travel_def by (simp only: Let_def rot_hypot rot2_scaled if_distrib [of "rot2 theta"])
qed

lemma rotated_walk:
  "setpoint_walk (rot theta final) (map (rotated theta) gs) t (rot2 theta d)
    = (case setpoint_walk final gs t d of (p, dir, fin) \<Rightarrow> (rot theta p, rot2 theta dir, fin))"
proof (induction gs arbitrary: t d)
  case (Cons g gs)
  have "duration_s (rotated theta g) = duration_s g" by (simp add: rotated_def)
  then show ?case using Cons.IH by (simp add: rotated_along rotated_travel)
qed simp

text \<open>
  Rotating a survey rotates its flight. Aligning a schedule with a heading commutes with flying
  it: at every instant the position and the direction of travel of the rotated schedule are those of
  the original one rotated, and both are over at the same time.
\<close>

theorem rotation_commutes_with_flight:
  "schedule_setpoint (rotate_schedule sched theta) t
    = (case schedule_setpoint sched t of (p, dir, fin) \<Rightarrow> (rot theta p, rot2 theta dir, fin))"
proof (cases "sched = []")
  case True
  then show ?thesis by (simp add: schedule_setpoint_def rotate_schedule_def rot_def rot2_def)
next
  case False
  have "rotate_schedule sched theta = map (rotated theta) sched" by (simp add: rotate_schedule_def rotated_def)
  moreover have "p1 (last (map (rotated theta) sched)) = rot theta (p1 (last sched))"
    using False by (simp add: last_map rotated_def)
  moreover have "rot2 theta (0, 0) = (0, 0)" by (simp add: rot2_def)
  ultimately show ?thesis
    using False rotated_walk [of theta "p1 (last sched)" sched "max 0 t" "(0, 0)"] by (simp add: schedule_setpoint_def)
qed

section \<open>Lane spacing\<close>

text \<open>
  The lanes are spread evenly over the width, so they are at least the requested spacing apart, not at
  most: up to twice that far.
\<close>

lemma lanes_wider_than_asked:
  assumes "0 < spacing_m" "spacing_m \<le> width"
  defines "step \<equiv> width / of_int (lane_count width spacing_m - 1)"
  shows "spacing_m \<le> step" "step < 2 * spacing_m" "step = spacing_m \<longleftrightarrow> width / spacing_m \<in> \<int>"
proof -
  define k where "k = \<lfloor>width / spacing_m\<rfloor>"
  have one: "1 \<le> width / spacing_m" using assms(1,2) by simp
  then have k: "1 \<le> k" by (simp add: k_def le_floor_iff)
  then have step: "step = width / of_int k" by (simp add: step_def lane_count_def k_def)
  have "of_int k \<le> width / spacing_m" "width / spacing_m < of_int k + 1" by (simp_all add: k_def)
  then have "of_int k * spacing_m \<le> width" "width < (of_int k + 1) * spacing_m"
    using assms(1) by (simp_all add: le_divide_eq divide_less_eq)
  then show "spacing_m \<le> step" using k by (simp add: step le_divide_eq mult.commute)
  have "(of_int k + 1) * spacing_m \<le> 2 * spacing_m * of_int k" using k assms(1) by (simp add: algebra_simps)
  then have "width < 2 * spacing_m * of_int k" using \<open>width < (of_int k + 1) * spacing_m\<close> by linarith
  then show "step < 2 * spacing_m" using k by (simp add: step divide_less_eq)
  have "step = spacing_m \<longleftrightarrow> width / spacing_m = of_int k"
    using k assms(1) by (auto simp: step field_simps)
  also have "\<dots> \<longleftrightarrow> width / spacing_m \<in> \<int>" by (metis Ints_cases Ints_of_int floor_of_int k_def)
  finally show "step = spacing_m \<longleftrightarrow> width / spacing_m \<in> \<int>" .
qed

end
