(* ===== verification/Mission_Node.thy ===== *)
theory Mission_Node
  imports Controller
begin

text \<open>
  A flight node: the offboard controller with a mission on top. The hooks a mission overrides
  (\<open>compute_setpoint\<close>, \<open>on_link_acquired\<close>, \<open>on_active_start\<close>, \<open>on_return_home\<close> and
  \<open>on_local_frame_reset\<close>) are the fields of a record; the functions below are the places of
  \<open>controller.py\<close> that call them. The mission's state is beside the controller's, and its \<open>compute_setpoint\<close> is
  asked exactly when the controller is active and neither aborts nor yields.
\<close>

record 'm hooks =
  hk_compute :: "int \<Rightarrow> controller \<Rightarrow> 'm \<Rightarrow> py_error + (mission_answer \<times> 'm)"
  hk_link_acquired :: "int \<Rightarrow> 'm \<Rightarrow> controller \<Rightarrow> controller"
  hk_active_start :: "int \<Rightarrow> controller \<Rightarrow> 'm \<Rightarrow> 'm"
  hk_return_home :: "int \<Rightarrow> 'm \<Rightarrow> py_error + (mission_call list \<times> 'm)"
  hk_frame_reset :: "real \<times> real \<Rightarrow> real \<Rightarrow> 'm \<Rightarrow> 'm"

text \<open>The subscriptions of the base class that call no hook.\<close>

fun is_callback :: "ctl_event \<Rightarrow> bool" where
  "is_callback (Status now n a f) = True"
| "is_callback (Attitude q) = True"
| "is_callback (GlobalPosition l a) = True"
| "is_callback (StartGate b) = True"
| "is_callback (AbortGate b) = True"
| "is_callback _ = False"

definition asks_mission :: "controller \<Rightarrow> bool" where
  "asks_mission s = (ctl s = ACTIVE \<and> \<not> abort_requested s \<and> \<not> interlock_tripped s)"

text \<open>The horizontal and heading arguments of \<open>on_local_frame_reset\<close>; no mission reads the vertical one.\<close>

definition frame_reset_delta :: "local_position \<Rightarrow> controller \<Rightarrow> ((real \<times> real) \<times> real) option" where
  "frame_reset_delta msg s =
     (case reset_counters s of
        None \<Rightarrow> None
      | Some (xyc, zc, hc) \<Rightarrow>
          let (nxy, nz, nh) = lp_counters msg
          in if nxy \<noteq> xyc \<or> nz \<noteq> zc \<or> nh \<noteq> hc
             then Some (if nxy \<noteq> xyc then lp_delta_xy msg else (0, 0), if nh \<noteq> hc then lp_delta_heading msg else 0)
             else None)"

definition hosted_tick :: "'m hooks \<Rightarrow> int \<Rightarrow> controller \<times> 'm \<Rightarrow> py_error + (controller \<times> 'm)" where
  "hosted_tick hk now n =
     (case n of (s, m) \<Rightarrow>
        bindE (send_pending_origin now s) (\<lambda>_.
        bindE (if asks_mission s then hk_compute hk now s m else Inr (([], None), m)) (\<lambda>(ans, m1).
        bindE (ctl_tick now ans s) (\<lambda>s1.
          let linked = (\<not> link_acquired_fired s \<and> link_acquired_fired s1);
              activated = (ctl s = ENGAGE \<and> ctl s1 = ACTIVE)
          in Inr (if linked then hk_link_acquired hk now m1 s1 else s1,
                  if activated then hk_active_start hk now s1 m1 else m1)))))"

definition hosted_end :: "'m hooks \<Rightarrow> int \<Rightarrow> bool \<Rightarrow> controller \<times> 'm \<Rightarrow> py_error + (controller \<times> 'm)" where
  "hosted_end hk now data n =
     (case n of (s, m) \<Rightarrow>
        if data \<and> \<not> home_requested s
        then bindE (hk_return_home hk now m) (\<lambda>(calls, m1). Inr (mission_calls calls (end_cb data s), m1))
        else Inr (s, m))"

definition hosted_callback :: "'m hooks \<Rightarrow> ctl_event \<Rightarrow> controller \<times> 'm \<Rightarrow> py_error + (controller \<times> 'm)" where
  "hosted_callback hk e n =
     (case n of (s, m) \<Rightarrow>
        case e of
          LocalPosition now msg \<Rightarrow>
            Inr (pos_cb now msg s, case frame_reset_delta msg s of None \<Rightarrow> m | Some (d, dh) \<Rightarrow> hk_frame_reset hk d dh m)
        | b \<Rightarrow> if is_callback b then bindE (ctl_step s b) (\<lambda>s1. Inr (s1, m)) else Inr (s, m))"

end
