(* ===== verification/Phased.thy ===== *)
theory Phased
  imports Mission_Node Orca
begin

text \<open>
  The phased-orbits mission (\<open>flight_intelligent/phased_orbits_mission.py\<close>), which inherits the offboard
  controller: climb, staging, transit to the circle centre, insertion, the guarded orbit, peel-off,
  the way home and the landing request. The state below is what the node keeps beyond the
  controller's; a callback reads the clock once (\<open>now\<close>, in microseconds), and what it publishes is
  appended to \<open>sent\<close>. Flags that only decide what is logged are left out.
\<close>

section \<open>Parameters\<close>

text \<open>The ROS parameters, in the units they are declared in; in a phase list \<open>None\<close> is NaN.\<close>

record orbits_params =
  op_index :: int
  op_count :: int
  op_center :: point
  op_radius :: metres
  op_speed :: m_per_s
  op_phase_step_deg :: real
  op_phase0_deg :: real
  op_phase_deg :: "axis list"
  op_mod_amp :: "real list"
  op_mod_phase_deg :: "real list"
  op_spin_deg :: real
  op_to_center_time :: seconds
  op_spiral_time :: seconds
  op_lead_in :: seconds
  op_stagger :: seconds
  op_peel_duration :: seconds
  op_peel_spin_deg :: real
  op_peel_order :: string
  op_auto_start :: bool
  op_yaw_mode :: string
  op_excite_enabled :: bool
  op_pre_excite_hover :: seconds
  op_excite_amp :: metres
  op_excite_freq :: real
  op_excite_cycles :: real
  op_land_xy :: metres
  op_land_vxy :: m_per_s
  op_land_settle :: seconds
  op_protected_radius :: metres
  op_response_time :: seconds
  op_horizon :: seconds
  op_max_speed :: m_per_s
  op_guard_enabled :: bool
  op_protected_separation :: metres
  op_barrier_gamma :: real
  op_tracking_gain :: real
  op_deadband_deg :: real
  op_min_rate_scale :: real
  op_max_rate_scale :: real
  op_peer_timeout :: seconds
  op_spawn :: point
  op_shared_slot :: point
  op_stage :: point
  op_staging_enabled :: bool
  op_staging_speed :: m_per_s
  op_staging_acceptance :: metres
  op_trim_enabled :: bool
  op_line_spacing :: metres
  op_trim_speed :: m_per_s
  op_trim_tolerance :: metres
  op_trim_settle :: seconds
  op_line_direction :: point
  op_peers :: "string list"
  op_origin :: "real \<times> real \<times> real"
  op_set_origin :: bool
  op_anchor_after_climb :: bool
  op_interfaces :: bool

text \<open>The declared defaults.\<close>

definition declared_parameters :: orbits_params where
  "declared_parameters =
     \<lparr>op_index = 0, op_count = 4, op_center = (0, 23 / 5), op_radius = 23 / 5, op_speed = 2,
      op_phase_step_deg = 90, op_phase0_deg = - 90, op_phase_deg = [None], op_mod_amp = [0, 0, 0, 0],
      op_mod_phase_deg = [0, 0, 0, 0], op_spin_deg = 235, op_to_center_time = 3, op_spiral_time = 10,
      op_lead_in = 1 / 2, op_stagger = 3, op_peel_duration = 4, op_peel_spin_deg = 90, op_peel_order = [],
      op_auto_start = False, op_yaw_mode = ''inward'', op_excite_enabled = False, op_pre_excite_hover = 0,
      op_excite_amp = 1, op_excite_freq = 2 / 5, op_excite_cycles = 4, op_land_xy = 7 / 20, op_land_vxy = 1 / 5,
      op_land_settle = 1, op_protected_radius = 5 / 4, op_response_time = 3 / 5, op_horizon = 5, op_max_speed = 3,
      op_guard_enabled = True, op_protected_separation = 14 / 5, op_barrier_gamma = 1, op_tracking_gain = 4 / 5,
      op_deadband_deg = 3, op_min_rate_scale = 2 / 5, op_max_rate_scale = 3 / 2, op_peer_timeout = 1 / 2,
      op_spawn = (0, 0), op_shared_slot = (0, 0), op_stage = (0, 0), op_staging_enabled = False, op_staging_speed = 2,
      op_staging_acceptance = 7 / 20, op_trim_enabled = False, op_line_spacing = 3, op_trim_speed = 3 / 4,
      op_trim_tolerance = 1 / 5, op_trim_settle = 1 / 2, op_line_direction = (0, - 1), op_peers = [[]],
      op_origin = (422658783 / 10 ^ 7, - 837487304 / 10 ^ 7, 0), op_set_origin = True, op_anchor_after_climb = True,
      op_interfaces = True\<rparr>"

text \<open>
  \<open>op_interfaces\<close> says whether the import of the generated message types succeeded; without them
  \<open>UwbState\<close> is \<open>None\<close>.

  The token grammar of \<open>int(tok)\<close>: an optional sign and decimal digits, single underscores between them.
\<close>

definition py_space :: "char \<Rightarrow> bool" where
  "py_space c = (let n = of_char c :: nat in n \<in> {9, 10, 11, 12, 13, 28, 29, 30, 31, 32})"

fun py_split :: "string \<Rightarrow> string \<Rightarrow> string list" where
  "py_split cur [] = (if cur = [] then [] else [cur])"
| "py_split cur (c # cs) =
     (if py_space c then (if cur = [] then py_split [] cs else cur # py_split [] cs) else py_split (cur @ [c]) cs)"

definition digit_value :: "char \<Rightarrow> nat option" where
  "digit_value c = (let n = of_char c :: nat in if 48 \<le> n \<and> n \<le> 57 then Some (n - 48) else None)"

fun digits_value :: "nat \<Rightarrow> bool \<Rightarrow> string \<Rightarrow> nat option" where
  "digits_value acc after_digit [] = (if after_digit then Some acc else None)"
| "digits_value acc after_digit (c # cs) =
     (if c = CHR ''_'' then (if after_digit then digits_value acc False cs else None)
      else case digit_value c of None \<Rightarrow> None | Some d \<Rightarrow> digits_value (10 * acc + d) True cs)"

definition py_parse_int :: "string \<Rightarrow> py_error + int" where
  "py_parse_int tok =
     (let (sgn, digits) = (case tok of c # cs \<Rightarrow> if c = CHR ''-'' then (- 1, cs) else if c = CHR ''+'' then (1, cs) else (1, tok)
                                     | [] \<Rightarrow> (1, []))
      in case digits_value 0 False digits of
           None \<Rightarrow> Inl (ValueError ''invalid literal for int()'')
         | Some n \<Rightarrow> Inr (sgn * int n))"

definition parse_order :: "string \<Rightarrow> py_error + int list option" where
  "parse_order raw =
     (if py_split [] raw = [] then Inr None
      else bindE (mapE py_parse_int (py_split [] (map (\<lambda>c. if c = CHR '','' then CHR '' '' else c) raw)))
             (\<lambda>xs. Inr (Some xs)))"

definition phase_list_of :: "orbits_params \<Rightarrow> py_error + real list option" where
  "phase_list_of p =
     (if op_phase_deg p = [None] then Inr None
      else if int (length (op_phase_deg p)) \<noteq> op_count p \<or> \<not> list_all (\<lambda>d. d \<noteq> None) (op_phase_deg p)
      then Inl (ValueError ''orbit_phase_deg must contain one finite phase per drone'')
      else Inr (Some (map (\<lambda>d. radians (the d)) (op_phase_deg p))))"

definition mod_for_index :: "orbits_params \<Rightarrow> py_error + (real \<times> real)" where
  "mod_for_index p =
     (if op_mod_amp p = [] then Inr (0, 0)
      else if int (length (op_mod_amp p)) < op_count p \<or> int (length (op_mod_phase_deg p)) < op_count p
      then Inl (ValueError ''orbit_mod_amp/phase need at least drone_count entries'')
      else bindE (np_item (op_mod_amp p) (op_index p)) (\<lambda>a.
           bindE (np_item (op_mod_phase_deg p) (op_index p)) (\<lambda>ph. Inr (a, radians ph))))"

definition omega :: "orbits_params \<Rightarrow> rad_per_s" where
  "omega p = op_speed p / op_radius p"

definition guard_settings :: "orbits_params \<Rightarrow> guard_kw" where
  "guard_settings p =
     \<lparr>protected_distance = op_protected_separation p, barrier_gamma = op_barrier_gamma p,
      min_rate = omega p * op_min_rate_scale p, max_rate = omega p * op_max_rate_scale p\<rparr>"

definition timeout_us :: "orbits_params \<Rightarrow> int" where
  "timeout_us p = py_int (1000000 * op_peer_timeout p)"

definition line_direction :: "orbits_params \<Rightarrow> point" where
  "line_direction p =
     (let d = op_line_direction p; n = norm2 d in if n > 1 / 10 ^ 6 then scale2 (1 / n) d else (0, - 1))"

definition trim_settings_ok :: "orbits_params \<Rightarrow> bool" where
  "trim_settings_ok p =
     (\<not> (op_trim_enabled p
         \<and> (\<not> op_staging_enabled p \<or> op_line_spacing p \<le> 0 \<or> op_trim_speed p \<le> 0 \<or> op_trim_tolerance p \<le> 0
            \<or> op_trim_settle p < 0)))"

section \<open>State\<close>

text \<open>What the radio and the estimator report of a peer; a reading that is not finite is \<open>None\<close>.\<close>

record peer_report =
  pr_validity :: int
  pr_position :: point
  pr_velocity :: point
  pr_mode :: int

record relative_report =
  rr_observer :: int
  rr_status :: int
  rr_position :: point
  rr_velocity :: point
  rr_range :: axis
  rr_range_rate :: axis
  rr_radius_95 :: axis

record world_state =
  ws_sequence :: int
  ws_vehicle_id :: int
  ws_frame_epoch :: int
  ws_yaw :: radians
  ws_position :: vec3
  ws_velocity :: vec3
  ws_validity :: int
  ws_phase :: real
  ws_phase_rate :: real
  ws_mode :: int

record decision =
  de_vehicle_id :: int
  de_controller :: int
  de_nominal :: point
  de_safe :: point
  de_usable :: bool
  de_feasible :: bool
  de_active :: nat
  de_slack :: real
  de_range_alert :: bool
  de_limiting_peer :: int
  de_limiting_range :: axis
  de_limiting_closing :: real
  de_limiting_radius :: axis
  de_cpa :: "(real \<times> real) option"

datatype mission_msg = WorldState world_state | Decision decision

abbreviation (input) MODE_NOMINAL :: int where "MODE_NOMINAL \<equiv> 0"
abbreviation (input) MODE_PHASE :: int where "MODE_PHASE \<equiv> 1"
abbreviation (input) MODE_DECONFLICT :: int where "MODE_DECONFLICT \<equiv> 3"
abbreviation (input) STATUS_TRACKING :: int where "STATUS_TRACKING \<equiv> 2"
abbreviation (input) VALID_PHASE :: int where "VALID_PHASE \<equiv> 1"
abbreviation (input) VALID_YAW :: int where "VALID_YAW \<equiv> 2"
abbreviation (input) VALID_POSITION :: int where "VALID_POSITION \<equiv> 4"
abbreviation (input) VALID_VELOCITY :: int where "VALID_VELOCITY \<equiv> 8"

text \<open>
  A dictionary keyed by vehicle, kept in the order of its keys, in which the code iterates over it; the time
  of arrival is stored with the message.
\<close>

type_synonym 'a inbox = "(int \<times> 'a \<times> int) list"

fun inbox_put :: "int \<Rightarrow> 'a \<Rightarrow> int \<Rightarrow> 'a inbox \<Rightarrow> 'a inbox" where
  "inbox_put k v now [] = [(k, v, now)]"
| "inbox_put k v now ((k', v', t') # rest) =
     (if k < k' then (k, v, now) # (k', v', t') # rest
      else if k = k' then (k, v, now) # rest
      else (k', v', t') # inbox_put k v now rest)"

definition is_fresh :: "int \<Rightarrow> int \<Rightarrow> int \<Rightarrow> bool" where
  "is_fresh now stamp timeout = (now - stamp \<le> timeout)"

text \<open>
  \<open>orbit_duration\<close> is \<open>math.inf\<close> when \<open>None\<close>; a time of 0 means the clock is not running, as in the code.
\<close>

record orbits =
  par :: orbits_params
  phase_list :: "real list option"
  order_list :: "int list option"
  anchor :: point
  orbit_duration :: "seconds option"
  orbit_gate_us :: int
  climbed :: bool
  transit_us :: int
  staging_complete :: bool
  stage_start_us :: int
  line_trim_us :: int
  line_trim_settle_us :: int
  line_trim_offset :: real
  line_trim_ready :: bool
  home_offset :: point
  center_logged :: bool
  pre_excite_hover_us :: int
  excite_us :: int
  excited :: bool
  hold_yaw_enu :: "radians option"
  land_settle_us :: int
  land_requested :: bool
  home_us :: int
  home_from :: "(vec3 \<times> radians) option"
  last_nominal :: "(vec3 \<times> radians) option"
  last_goal :: "(point \<times> int) option"
  frame_epoch :: int
  phase_cmd :: "radians option"
  phase_cmd_us :: int
  phase_offset :: radians
  phase_rate_cmd :: rad_per_s
  phase_solution :: "guard_solution option"
  peel_phase :: "radians option"
  seq :: int
  peer_state :: "peer_report inbox"
  relative_state :: "relative_report inbox"
  avoidance_mode :: int
  active_ticks :: nat
  total_ticks :: nat
  max_delta :: real
  sent :: "mission_msg list"

definition initial_orbits :: "orbits_params \<Rightarrow> real list option \<Rightarrow> int list option \<Rightarrow> orbits" where
  "initial_orbits p phs ord =
     \<lparr>par = p, phase_list = phs, order_list = ord, anchor = (0, 0), orbit_duration = None,
      orbit_gate_us = 0, climbed = False, transit_us = 0, staging_complete = (\<not> op_staging_enabled p),
      stage_start_us = 0, line_trim_us = 0, line_trim_settle_us = 0, line_trim_offset = 0,
      line_trim_ready = False, home_offset = (0, 0), center_logged = False, pre_excite_hover_us = 0,
      excite_us = 0, excited = (\<not> op_excite_enabled p), hold_yaw_enu = None, land_settle_us = 0,
      land_requested = False, home_us = 0, home_from = None, last_nominal = None, last_goal = None,
      frame_epoch = 0, phase_cmd = None, phase_cmd_us = 0, phase_offset = 0, phase_rate_cmd = omega p,
      phase_solution = None, peel_phase = None, seq = 0, peer_state = [], relative_state = [],
      avoidance_mode = MODE_NOMINAL, active_ticks = 0, total_ticks = 0, max_delta = 0, sent = []\<rparr>"

text \<open>\<open>__init__\<close>, with its checks in their order.\<close>

definition new_orbits :: "orbits_params \<Rightarrow> py_error + orbits" where
  "new_orbits p =
     bindE (phase_list_of p) (\<lambda>phs.
     bindE (mod_for_index p) (\<lambda>_.
     bindE (parse_order (op_peel_order p)) (\<lambda>ord.
     bindE (guardE (\<not> (op_excite_enabled p \<and> (op_excite_freq p \<le> 0 \<or> op_excite_cycles p \<le> 0)))
              (ValueError ''enabled excitation requires positive frequency and cycle count'')) (\<lambda>_.
     bindE (guardE (op_radius p \<noteq> 0) ZeroDivisionError) (\<lambda>_.
     bindE (guardE (\<not> (op_protected_radius p \<le> 0 \<or> op_response_time p < 0))
              (ValueError ''ORCA protected radius must be positive and response time nonnegative'')) (\<lambda>_.
     bindE (guardE (\<not> op_staging_speed p \<le> 0) (ValueError ''staging_speed_mps must be positive'')) (\<lambda>_.
     bindE (guardE (trim_settings_ok p)
              (ValueError ''line trim requires staging and positive spacing/speed/tolerance'')) (\<lambda>_.
     bindE (case phs of None \<Rightarrow> Inr 0 | Some xs \<Rightarrow> np_item xs (op_index p)) (\<lambda>_.
     bindE (guardE (op_interfaces p \<or> filter (\<lambda>s. s \<noteq> []) (op_peers p) = [])
              (RuntimeError ''flight_interfaces is unavailable; peers require relative localization'')) (\<lambda>_.
     Inr (initial_orbits p phs ord)))))))))))"

section \<open>Frames, times and phases\<close>

definition secs :: "int \<Rightarrow> seconds" where
  "secs us = of_int us / 1000000"

definition has_peers :: "orbits \<Rightarrow> bool" where
  "has_peers m = (filter (\<lambda>s. s \<noteq> []) (op_peers (par m)) \<noteq> [])"

definition peel_settings :: "orbits \<Rightarrow> peel_kw" where
  "peel_settings m =
     \<lparr>peel_order = order_list m, lead_in = op_lead_in (par m), stagger = op_stagger (par m),
      peel_duration = op_peel_duration (par m), peel_spin = radians (op_peel_spin_deg (par m))\<rparr>"

definition return_duration :: "orbits \<Rightarrow> seconds" where
  "return_duration m = peeloff_duration (op_count (par m)) (peel_settings m)"

text \<open>Positions are reported in a frame the launch point is fixed in.\<close>

definition to_world :: "controller \<Rightarrow> orbits \<Rightarrow> point \<Rightarrow> point" where
  "to_world s m local =
     (case launch_xy s of
        None \<Rightarrow> op_shared_slot (par m)
      | Some (launch_n, launch_e) \<Rightarrow>
          (fst (op_shared_slot (par m)) + fst local - launch_e, snd (op_shared_slot (par m)) + snd local - launch_n))"

definition world_xy :: "controller \<Rightarrow> orbits \<Rightarrow> point" where
  "world_xy s m = to_world s m (cy s, cx s)"

definition anchor_world_xy :: "controller \<Rightarrow> orbits \<Rightarrow> point" where
  "anchor_world_xy s m = to_world s m (anchor m)"

definition tau :: "int \<Rightarrow> orbits \<Rightarrow> seconds" where
  "tau now m = max 0 (secs (now - orbit_gate_us m))"

definition orbiting_at :: "orbits \<Rightarrow> seconds \<Rightarrow> bool" where
  "orbiting_at m orbit_t = (case orbit_duration m of None \<Rightarrow> True | Some d \<Rightarrow> orbit_t < d)"

definition locked_orbit_time :: "int \<Rightarrow> orbits \<Rightarrow> seconds option" where
  "locked_orbit_time now m =
     (if orbit_gate_us m = 0 then None
      else let orbit_t = tau now m - op_spiral_time (par m)
           in if 0 \<le> orbit_t \<and> orbiting_at m orbit_t then Some orbit_t else None)"

definition radial_of :: "controller \<Rightarrow> orbits \<Rightarrow> point" where
  "radial_of s m = sub2 (sub2 (world_xy s m) (anchor_world_xy s m)) (op_center (par m))"

definition actual_phase :: "int \<Rightarrow> controller \<Rightarrow> orbits \<Rightarrow> radians option" where
  "actual_phase now s m =
     (case locked_orbit_time now m of
        None \<Rightarrow> None
      | Some _ \<Rightarrow> let radial = radial_of s m
                   in if norm2 radial < 1 / 2 * op_radius (par m) then None else Some (atan2 (snd radial) (fst radial)))"

definition world_state_of :: "int \<Rightarrow> controller \<Rightarrow> orbits \<Rightarrow> world_state" where
  "world_state_of now s m =
     (let w = world_xy s m; ph = actual_phase now s m
      in \<lparr>ws_sequence = seq m, ws_vehicle_id = op_index (par m), ws_frame_epoch = frame_epoch m,
          ws_yaw = wrap_pi (pi / 2 - yaw s),
          ws_position = (fst w, snd w, if launch_z_latched s then - (cz s - launch_z s) else - cz s),
          ws_velocity = (cvy s, cvx s, - cvz s),
          ws_validity = (if attitude_seen s then VALID_YAW else 0)
            + (if xy_valid s \<and> z_valid s then VALID_POSITION else 0)
            + (if v_xy_valid s then VALID_VELOCITY else 0)
            + (if ph = None then 0 else VALID_PHASE),
          ws_phase = (case ph of None \<Rightarrow> 0 | Some a \<Rightarrow> a),
          ws_phase_rate = (case ph of None \<Rightarrow> 0
                           | Some a \<Rightarrow> (cvy s * (- sin a) + cvx s * cos a) / op_radius (par m)),
          ws_mode = avoidance_mode m\<rparr>)"

definition publish_world_state :: "int \<Rightarrow> controller \<Rightarrow> orbits \<Rightarrow> orbits" where
  "publish_world_state now s m =
     (if \<not> op_interfaces (par m) then m
      else m\<lparr>seq := seq m + 1, sent := sent m @ [WorldState (world_state_of now s m)]\<rparr>)"

section \<open>Callbacks and hooks\<close>

definition orbit_gate_cb :: "int \<Rightarrow> bool \<Rightarrow> controller \<Rightarrow> orbits \<Rightarrow> orbits" where
  "orbit_gate_cb now data s m =
     (if data \<and> orbit_gate_us m = 0 \<and> \<not> home_requested s \<and> \<not> center_logged m then m
      else if data \<and> orbit_gate_us m = 0 \<and> \<not> home_requested s then m\<lparr>orbit_gate_us := now\<rparr>
      else m)"

definition peer_state_cb :: "int \<Rightarrow> int \<Rightarrow> peer_report \<Rightarrow> orbits \<Rightarrow> orbits" where
  "peer_state_cb now peer_id r m = m\<lparr>peer_state := inbox_put peer_id r now (peer_state m)\<rparr>"

definition relative_state_cb :: "int \<Rightarrow> int \<Rightarrow> relative_report \<Rightarrow> orbits \<Rightarrow> orbits" where
  "relative_state_cb now peer_id r m =
     (if rr_observer r = op_index (par m) then m\<lparr>relative_state := inbox_put peer_id r now (relative_state m)\<rparr> else m)"

text \<open>\<open>on_local_frame_reset\<close>; the deltas come in the controller's order (north, east).\<close>

definition on_local_frame_reset :: "real \<times> real \<Rightarrow> orbits \<Rightarrow> orbits" where
  "on_local_frame_reset delta_xy m =
     (let d = (snd delta_xy, fst delta_xy)
      in m\<lparr>anchor := add2 (anchor m) d, last_goal := map_option (\<lambda>(g, t). (add2 g d, t)) (last_goal m),
           frame_epoch := (frame_epoch m + 1) mod 65536\<rparr>)"

definition on_link_acquired :: "int \<Rightarrow> orbits_params \<Rightarrow> controller \<Rightarrow> controller" where
  "on_link_acquired now p s = (if op_set_origin p then set_global_origin now (op_origin p) s else s)"

definition on_active_start :: "int \<Rightarrow> controller \<Rightarrow> orbits \<Rightarrow> orbits" where
  "on_active_start now s m =
     m\<lparr>hold_yaw_enu := Some (wrap_pi (pi / 2 - hold_yaw s)),
       avoidance_mode := (if op_trim_enabled (par m) \<and> op_index (par m) > 0 then MODE_DECONFLICT else avoidance_mode m),
       orbit_gate_us := (if op_auto_start (par m) \<and> orbit_gate_us m = 0 then now else orbit_gate_us m)\<rparr>"

text \<open>Come home: which of the controller's operations the mission calls, and what it remembers.\<close>

definition on_return_home :: "int \<Rightarrow> orbits \<Rightarrow> py_error + (mission_call list \<times> orbits)" where
  "on_return_home now m =
     (if orbit_gate_us m \<noteq> 0 then
        (if omega (par m) = 0 then Inl ZeroDivisionError
         else
           let rev_s = 2 * pi / omega (par m);
               orbit_t = max 0 (tau now m - op_spiral_time (par m))
           in Inr ([], m\<lparr>orbit_duration := Some (rev_s * of_int \<lceil>orbit_t / rev_s - 1 / 10 ^ 9\<rceil>)\<rparr>))
      else if \<not> climbed m then Inr ([CallLand], m)
      else
        bindE (case last_nominal m of None \<Rightarrow> Inl (TypeError ''cannot unpack NoneType'') | Some x \<Rightarrow> Inr x)
          (\<lambda>nominal. Inr ([], m\<lparr>excited := True, home_from := Some nominal, home_us := now\<rparr>)))"

section \<open>Avoidance while staging\<close>

definition feed_forward :: "point \<Rightarrow> int \<Rightarrow> orbits \<Rightarrow> point" where
  "feed_forward goal now m =
     (case last_goal m of
        None \<Rightarrow> (0, 0)
      | Some (g, t) \<Rightarrow> let dt = secs (now - t)
                       in if now > t \<and> dt \<le> 1 / 4 then scale2 (1 / dt) (sub2 goal g) else (0, 0))"

definition preferred_velocity :: "point \<Rightarrow> int \<Rightarrow> controller \<Rightarrow> orbits \<Rightarrow> py_error + (point \<times> orbits)" where
  "preferred_velocity goal now s m =
     (let preferred = add2 (feed_forward goal now m) (sub2 goal (cy s, cx s));
          speed = norm2 preferred
      in if speed > op_max_speed (par m) \<and> speed = 0 then Inl ZeroDivisionError
         else Inr (if speed > op_max_speed (par m) then scale2 (op_max_speed (par m) / speed) preferred else preferred,
                   m\<lparr>last_goal := Some (goal, now)\<rparr>))"

record limiting =
  lim_peer :: int
  lim_range :: real
  lim_closing :: real
  lim_radius :: real
  lim_clearance :: real
  lim_cpa :: "real \<times> real"

text \<open>Whether the loop considers a peer at all.\<close>

definition usable :: "int \<Rightarrow> orbits \<Rightarrow> relative_report \<Rightarrow> int \<Rightarrow> bool" where
  "usable now m r stamp =
     (is_fresh now stamp (timeout_us (par m)) \<and> rr_status r = STATUS_TRACKING \<and> rr_radius_95 r \<noteq> None)"

definition effective_radius :: "orbits \<Rightarrow> relative_report \<Rightarrow> metres" where
  "effective_radius m r =
     orca_effective_radius (op_protected_radius (par m)) (the (rr_radius_95 r)) (rr_range_rate r)
       (op_response_time (par m)) (2 * op_max_speed (par m))"

definition closing_speed :: "orbits \<Rightarrow> relative_report \<Rightarrow> m_per_s" where
  "closing_speed m r =
     (case rr_range_rate r of None \<Rightarrow> 0 | Some v \<Rightarrow> max 0 (min (2 * op_max_speed (par m)) (- v)))"

text \<open>The clearance that limits most so far; \<open>None\<close> is the initial infinity, and so is a range that is not finite.\<close>

definition more_limiting :: "orbits \<Rightarrow> int \<Rightarrow> relative_report \<Rightarrow> limiting option \<Rightarrow> limiting option" where
  "more_limiting m peer_id r best =
     (case rr_range r of
        None \<Rightarrow> best
      | Some range_m \<Rightarrow>
          let clearance = range_m - effective_radius m r
          in if (case best of None \<Rightarrow> True | Some b \<Rightarrow> clearance < lim_clearance b)
             then Some \<lparr>lim_peer = peer_id, lim_range = range_m, lim_closing = closing_speed m r,
                        lim_radius = effective_radius m r, lim_clearance = clearance,
                        lim_cpa = closest_point_of_approach (fst (rr_position r), snd (rr_position r), 0)
                                    (fst (rr_velocity r), snd (rr_velocity r), 0)\<rparr>
             else best)"

definition consider_peer :: "int \<Rightarrow> controller \<Rightarrow> orbits \<Rightarrow> int \<times> relative_report \<times> int \<Rightarrow>
    limiting option \<times> orca_peer list \<Rightarrow> limiting option \<times> orca_peer list" where
  "consider_peer now s m entry acc =
     (case entry of (peer_id, r, stamp) \<Rightarrow>
        if \<not> usable now m r stamp then acc
        else (more_limiting m peer_id r (fst acc),
              snd acc @ [\<lparr>peer_position = rr_position r, peer_velocity = add2 (cvy s, cvx s) (rr_velocity r),
                          combined_radius = effective_radius m r\<rparr>]))"

definition orca_decision :: "orbits \<Rightarrow> point \<Rightarrow> point \<Rightarrow> limiting option \<Rightarrow> orca_result option \<Rightarrow> decision" where
  "orca_decision m preferred safe nearest solution =
     \<lparr>de_vehicle_id = op_index (par m), de_controller = 1, de_nominal = preferred, de_safe = safe,
      de_usable = (solution \<noteq> None), de_feasible = (case solution of None \<Rightarrow> True | Some r \<Rightarrow> lp_feasible r),
      de_active = (case solution of None \<Rightarrow> 0 | Some r \<Rightarrow> min 255 (lp_active r)),
      de_slack = (case solution of None \<Rightarrow> 0 | Some r \<Rightarrow> - max_violation r),
      de_range_alert = (case nearest of None \<Rightarrow> False | Some l \<Rightarrow> lim_clearance l \<le> 0),
      de_limiting_peer = (case nearest of None \<Rightarrow> 255 | Some l \<Rightarrow> lim_peer l),
      de_limiting_range = map_option lim_range nearest,
      de_limiting_closing = (case nearest of None \<Rightarrow> 0 | Some l \<Rightarrow> lim_closing l),
      de_limiting_radius = map_option lim_radius nearest, de_cpa = map_option lim_cpa nearest\<rparr>"

definition plan_avoidance :: "point \<Rightarrow> int \<Rightarrow> controller \<Rightarrow> orbits \<Rightarrow> limiting option \<times> orca_result option" where
  "plan_avoidance preferred now s m =
     (let (nearest, peers) = fold (consider_peer now s m) (relative_state m) (None, [])
      in (nearest,
          if peers = [] then None
          else Some (orca_solution preferred (cvy s, cvx s) peers (op_horizon (par m)) (1 / 20) (op_max_speed (par m)))))"

definition note_avoidance :: "real \<Rightarrow> orbits \<Rightarrow> orbits" where
  "note_avoidance delta m =
     (let is_active = (delta > 1 / 50)
      in m\<lparr>total_ticks := total_ticks m + 1,
           avoidance_mode := (if is_active then MODE_DECONFLICT else MODE_NOMINAL),
           active_ticks := (if is_active then active_ticks m + 1 else active_ticks m),
           max_delta := (if is_active then max (max_delta m) delta else max_delta m)\<rparr>)"

definition publish_decision :: "decision \<Rightarrow> orbits \<Rightarrow> orbits" where
  "publish_decision d m = (if has_peers m \<and> op_interfaces (par m) then m\<lparr>sent := sent m @ [Decision d]\<rparr> else m)"

definition avoidance_velocity :: "point \<Rightarrow> int \<Rightarrow> controller \<Rightarrow> orbits \<Rightarrow> py_error + (point \<times> orbits)" where
  "avoidance_velocity goal now s m =
     bindE (preferred_velocity goal now s m) (\<lambda>(preferred, m1).
       let (nearest, solution) = plan_avoidance preferred now s m1;
           safe = (case solution of None \<Rightarrow> preferred | Some r \<Rightarrow> velocity r);
           m2 = note_avoidance (norm2 (sub2 safe preferred)) m1
       in Inr (safe, publish_decision (orca_decision m2 preferred safe nearest solution) m2))"

section \<open>The orbit\<close>

definition scheduled_phase :: "int \<Rightarrow> seconds \<Rightarrow> orbits \<Rightarrow> py_error + radians" where
  "scheduled_phase index orbit_t m =
     bindE (case phase_list m of
              None \<Rightarrow> Inr (radians (op_phase0_deg (par m)) + radians (op_phase_step_deg (par m)) * of_int index)
            | Some xs \<Rightarrow> np_item xs index) (\<lambda>phase.
     bindE (np_item (op_mod_amp (par m)) index) (\<lambda>amp.
     bindE (np_item (op_mod_phase_deg (par m)) index) (\<lambda>mp.
       Inr (omega (par m) * orbit_t + phase
            + amp * (sin (omega (par m) * orbit_t + radians mp) - sin (radians mp))))))"

definition scheduled_rate :: "int \<Rightarrow> seconds \<Rightarrow> orbits \<Rightarrow> py_error + rad_per_s" where
  "scheduled_rate index orbit_t m =
     bindE (np_item (op_mod_amp (par m)) index) (\<lambda>amp.
     bindE (np_item (op_mod_phase_deg (par m)) index) (\<lambda>mp.
       Inr (omega (par m) * (1 + amp * cos (omega (par m) * orbit_t + radians mp)))))"

definition mission_yaw :: "radians \<Rightarrow> orbits \<Rightarrow> radians" where
  "mission_yaw fallback m =
     (if op_yaw_mode (par m) = ''hold'' then (case hold_yaw_enu m of Some y \<Rightarrow> y | None \<Rightarrow> fallback) else fallback)"

definition phase_yaw :: "radians \<Rightarrow> orbits \<Rightarrow> radians" where
  "phase_yaw phase m =
     (if op_yaw_mode (par m) = ''hold'' then mission_yaw 0 m
      else if op_yaw_mode (par m) = ''tangent'' then wrap_pi (phase + pi / 2)
      else wrap_pi (phase + pi))"

text \<open>The peers the guard sees: fresh reports with a valid position and velocity.\<close>

definition guard_peers :: "int \<Rightarrow> orbits \<Rightarrow> peer_report list" where
  "guard_peers now m =
     map (\<lambda>(k, r, t). r)
       (filter (\<lambda>(k, r, t). is_fresh now t (timeout_us (par m))
                  \<and> and (pr_validity r) (VALID_POSITION + VALID_VELOCITY) = VALID_POSITION + VALID_VELOCITY)
          (peer_state m))"

definition guard_solve :: "int \<Rightarrow> controller \<Rightarrow> orbits \<Rightarrow> rad_per_s \<Rightarrow> py_error + guard_solution option" where
  "guard_solve now s m nominal_rate =
     (let peers = guard_peers now m
      in if op_guard_enabled (par m) \<and> actual_phase now s m \<noteq> None \<and> peers \<noteq> []
         then bindE (phase_guard_rate (world_xy s m) (sub2 (world_xy s m) (add2 (anchor_world_xy s m) (op_center (par m))))
                       nominal_rate (map pr_position peers) (map pr_velocity peers) (guard_settings (par m)))
                (\<lambda>sol. Inr (Some sol))
         else Inr None)"

text \<open>The offset the drone keeps to its scheduled phase, from one tick to the next.\<close>

definition next_offset :: "orbits_params \<Rightarrow> real \<Rightarrow> seconds \<Rightarrow> rad_per_s \<Rightarrow> rad_per_s \<Rightarrow> guard_solution option \<Rightarrow> real" where
  "next_offset p offset dt rate nominal_rate sol =
     (let o1 = (if 0 < dt \<and> dt \<le> 1 / 4 then offset + (rate - nominal_rate - op_tracking_gain p * offset) * dt
                else if dt > 1 / 4 then 0 else offset)
      in if (case sol of None \<Rightarrow> True | Some g \<Rightarrow> active_constraints g = 0) \<and> \<bar>o1\<bar> \<le> radians (op_deadband_deg p)
         then 0 else o1)"

definition phase_decision :: "orbits \<Rightarrow> radians \<Rightarrow> rad_per_s \<Rightarrow> rad_per_s \<Rightarrow> guard_solution option \<Rightarrow> decision" where
  "phase_decision m phase nominal_rate rate sol =
     (let tangent = (- sin phase, cos phase)
      in \<lparr>de_vehicle_id = op_index (par m), de_controller = 2,
          de_nominal = scale2 (op_radius (par m) * nominal_rate) tangent,
          de_safe = scale2 (op_radius (par m) * rate) tangent,
          de_usable = (sol \<noteq> None), de_feasible = (case sol of None \<Rightarrow> True | Some g \<Rightarrow> feasible g),
          de_active = (case sol of None \<Rightarrow> 0 | Some g \<Rightarrow> min 255 (active_constraints g)),
          de_slack = (case sol of None \<Rightarrow> 0 | Some g \<Rightarrow> min_slack g), de_range_alert = False,
          de_limiting_peer = 255, de_limiting_range = None, de_limiting_closing = 0,
          de_limiting_radius = Some (op_protected_separation (par m)), de_cpa = None\<rparr>)"

definition altitude_up :: "controller \<Rightarrow> metres" where
  "altitude_up s = takeoff_altitude_m s"

text \<open>The phase commanded next; the first command of an orbit starts without an offset.\<close>

definition guard_command :: "int \<Rightarrow> radians \<Rightarrow> rad_per_s \<Rightarrow> guard_solution option \<Rightarrow> orbits \<Rightarrow> orbits" where
  "guard_command now desired nominal_rate sol m =
     (let (cmd_us, offset) = (if phase_cmd m = None then (now, 0) else (phase_cmd_us m, phase_offset m));
          rate = (case sol of None \<Rightarrow> nominal_rate | Some g \<Rightarrow> guard_rate g);
          offset' = next_offset (par m) offset (secs (now - cmd_us)) rate nominal_rate sol
      in m\<lparr>phase_cmd := Some (desired + offset'), phase_cmd_us := now, phase_offset := offset', phase_rate_cmd := rate,
           phase_solution := sol, avoidance_mode := MODE_PHASE\<rparr>)"

definition phase_guard_setpoint :: "int \<Rightarrow> controller \<Rightarrow> orbits \<Rightarrow> seconds \<Rightarrow> py_error + ((vec3 \<times> radians) \<times> orbits)" where
  "phase_guard_setpoint now s m orbit_t =
     bindE (scheduled_phase (op_index (par m)) orbit_t m) (\<lambda>desired.
     bindE (scheduled_rate (op_index (par m)) orbit_t m) (\<lambda>nominal_rate.
     bindE (guardE (op_interfaces (par m)) (AttributeError ''VALID_POSITION'')) (\<lambda>_.
     bindE (guard_solve now s m nominal_rate) (\<lambda>sol.
       let m1 = guard_command now desired nominal_rate sol m; phase = the (phase_cmd m1)
       in Inr ((around (op_center (par m)) (op_radius (par m)) phase (altitude_up s), phase_yaw phase m),
               publish_decision (phase_decision m1 phase nominal_rate (phase_rate_cmd m1) sol) m1)))))"

text \<open>The keyword arguments for the choreography of the flight library.\<close>

definition mission_orbit_kw :: "controller \<Rightarrow> orbits \<Rightarrow> orbit_kw" where
  "mission_orbit_kw s m =
     \<lparr>spacing = 0, downrange = snd (op_center (par m)), base = (fst (op_center (par m)), 0), altitude = altitude_up s,
      phase_step = radians (op_phase_step_deg (par m)), phase0 = radians (op_phase0_deg (par m)),
      phases = phase_list m,
      yaw_mode = (if op_yaw_mode (par m) = ''hold'' then ''fixed'' else op_yaw_mode (par m)),
      fixed_yaw = mission_yaw 0 m\<rparr>"

definition hold_at :: "real \<Rightarrow> real \<Rightarrow> radians \<Rightarrow> controller \<Rightarrow> orbits \<Rightarrow> vec3 \<times> radians" where
  "hold_at east north yaw_enu s m = ((east, north, altitude_up s), mission_yaw yaw_enu m)"

section \<open>Staging\<close>

definition line_release :: "int \<Rightarrow> orbits \<Rightarrow> bool" where
  "line_release now m =
     (op_index (par m) = op_count (par m) - 1
      \<or> (case map_of (peer_state m) (op_count (par m) - 1) of
           None \<Rightarrow> False
         | Some (r, stamp) \<Rightarrow> is_fresh now stamp (timeout_us (par m)) \<and> pr_mode r = MODE_NOMINAL))"

definition predecessor_range :: "int \<Rightarrow> orbits \<Rightarrow> axis" where
  "predecessor_range now m =
     (case map_of (relative_state m) (op_index (par m) - 1) of
        None \<Rightarrow> None
      | Some (r, stamp) \<Rightarrow> if is_fresh now stamp (timeout_us (par m)) then rr_range r else None)"

definition predecessor_ready :: "int \<Rightarrow> orbits \<Rightarrow> bool" where
  "predecessor_ready now m =
     (case map_of (peer_state m) (op_index (par m) - 1) of
        None \<Rightarrow> False
      | Some (r, stamp) \<Rightarrow> is_fresh now stamp (timeout_us (par m)) \<and> pr_mode r = MODE_NOMINAL)"

text \<open>The gap to the predecessor has stayed settled for this long (0 when it is not settled).\<close>

definition dwell_s :: "int \<Rightarrow> int \<Rightarrow> seconds" where
  "dwell_s now since = (if since \<noteq> 0 then secs (now - since) else 0)"

definition reanchor :: "point \<Rightarrow> orbits \<Rightarrow> orbits" where
  "reanchor a m = m\<lparr>anchor := a, home_offset := sub2 (anchor m) a\<rparr>"

definition trim_follow :: "int \<Rightarrow> radians \<Rightarrow> controller \<Rightarrow> orbits \<Rightarrow> (vec3 \<times> radians) \<times> orbits" where
  "trim_follow now yaw_enu s m0 =
     (let dt = secs (now - line_trim_us m0);
          m = m0\<lparr>line_trim_us := now\<rparr>;
          held = (\<lambda>m. let offset = scale2 (line_trim_offset m) (line_direction (par m))
                      in (hold_at (fst offset) (snd offset) yaw_enu s m, m))
      in case predecessor_range now m of
           None \<Rightarrow> held m
         | Some range_m \<Rightarrow>
             if now - stage_start_us m \<ge> 1000000 \<and> predecessor_ready now m \<and> range_m > 0 \<and> 0 < dt \<and> dt \<le> 1 / 4
             then
               let err = op_line_spacing (par m) - range_m;
                   speed = np_clip (4 / 5 * err) (- op_trim_speed (par m)) (op_trim_speed (par m));
                   line_speed = dot2 (cvy s, cvx s) (line_direction (par m));
                   settled = (\<bar>err\<bar> \<le> op_trim_tolerance (par m) \<and> \<bar>line_speed\<bar> \<le> 1 / 4);
                   since = (if settled then (if line_trim_settle_us m \<noteq> 0 then line_trim_settle_us m else now) else 0);
                   m1 = m\<lparr>line_trim_offset := line_trim_offset m + speed * dt, line_trim_settle_us := since\<rparr>
               in if dwell_s now since \<ge> op_trim_settle (par m1)
                  then let m2 = (reanchor (cy s, cx s) m1)\<lparr>line_trim_ready := True, avoidance_mode := MODE_NOMINAL\<rparr>
                       in (hold_at 0 0 yaw_enu s m2, m2)
                  else held m1
             else held m)"

definition line_trim_setpoint :: "int \<Rightarrow> radians \<Rightarrow> controller \<Rightarrow> orbits \<Rightarrow> (vec3 \<times> radians) \<times> orbits" where
  "line_trim_setpoint now yaw_enu s m =
     (let m1 = (if stage_start_us m = 0 then m\<lparr>stage_start_us := now, line_trim_us := now\<rparr> else m);
          m2 = (if \<not> line_trim_ready m1 \<and> op_index (par m1) = 0
                then m1\<lparr>line_trim_ready := True, avoidance_mode := MODE_NOMINAL\<rparr> else m1)
      in if \<not> line_trim_ready m2 \<and> op_index (par m2) > 0 then trim_follow now yaw_enu s m2
         else
           let m3 = (if line_release now m2 then m2\<lparr>staging_complete := True, transit_us := now\<rparr> else m2)
           in (hold_at 0 0 yaw_enu s m3, m3))"

definition staging_target :: "orbits_params \<Rightarrow> point" where
  "staging_target p = sub2 (op_stage p) (op_spawn p)"

definition staging_setpoint :: "int \<Rightarrow> radians \<Rightarrow> controller \<Rightarrow> orbits \<Rightarrow> py_error + ((vec3 \<times> radians) \<times> orbits)" where
  "staging_setpoint now yaw_enu s m0 =
     (if op_trim_enabled (par m0) then Inr (line_trim_setpoint now yaw_enu s m0)
      else
        let m = (if stage_start_us m0 = 0 then m0\<lparr>stage_start_us := now\<rparr> else m0);
            delta = sub2 (staging_target (par m)) (anchor m);
            distance = hypot (fst delta) (snd delta);
            duration = max (op_to_center_time (par m)) (3 / 2 * distance / op_staging_speed (par m));
            u = min 1 (max 0 (secs (now - stage_start_us m)) / duration);
            own = world_xy s m;
            error = hypot (fst own - fst (op_stage (par m))) (snd own - snd (op_stage (par m)))
        in if duration = 0 then Inl ZeroDivisionError
           else if u \<ge> 1 \<and> error \<le> op_staging_acceptance (par m)
           then let m1 = (reanchor (staging_target (par m)) m)\<lparr>staging_complete := True, transit_us := now\<rparr>
                in Inr (hold_at 0 0 yaw_enu s m1, m1)
           else Inr (hold_at (fst delta * smoothstep u) (snd delta * smoothstep u) yaw_enu s m, m))"

section \<open>Climb, transit and excitation\<close>

definition face_center :: "orbits \<Rightarrow> radians" where
  "face_center m = atan2 (snd (op_center (par m))) (fst (op_center (par m)))"

definition climb_setpoint :: "int \<Rightarrow> controller \<Rightarrow> orbits \<Rightarrow> (vec3 \<times> radians) \<times> orbits" where
  "climb_setpoint now s m0 =
     (let target_yaw_ned = wrap_pi (pi / 2 - mission_yaw (face_center m0) m0);
          m = (if op_anchor_after_climb (par m0) then m0\<lparr>anchor := (cy s, cx s)\<rparr> else m0);
          alt_ok = (\<bar>cz s - takeoff_target_z s\<bar> \<le> takeoff_acceptance_m s);
          yaw_ok = (\<bar>wrap_pi (yaw s - target_yaw_ned)\<bar> \<le> radians 10);
          m1 = (if alt_ok \<and> yaw_ok
                then (if op_staging_enabled (par m) then m\<lparr>climbed := True, stage_start_us := 0\<rparr>
                      else m\<lparr>climbed := True, transit_us := now\<rparr>)
                else m)
      in (hold_at 0 0 (face_center m1) s m1, m1))"

text \<open>The transit is over and the vehicle is inside the acceptance circle of the centre.\<close>

definition transit_progress :: "int \<Rightarrow> orbits \<Rightarrow> real" where
  "transit_progress now m = min 1 (max 0 (secs (now - transit_us m)) / max (1 / 1000) (op_to_center_time (par m)))"

definition at_center :: "int \<Rightarrow> controller \<Rightarrow> orbits \<Rightarrow> bool" where
  "at_center now s m =
     (transit_progress now m \<ge> 1
      \<and> hypot (cx s - (snd (anchor m) + snd (op_center (par m)))) (cy s - (fst (anchor m) + fst (op_center (par m))))
          \<le> takeoff_acceptance_m s)"

text \<open>The rest of \<open>_pre_orbit_setpoint\<close>, once there is no more excitation to do.\<close>

definition ready_setpoint :: "int \<Rightarrow> controller \<Rightarrow> orbits \<Rightarrow> (vec3 \<times> radians) \<times> orbits" where
  "ready_setpoint now s m0 =
     (let k = smoothstep (transit_progress now m0);
          m = (if at_center now s m0 \<and> \<not> center_logged m0 then m0\<lparr>center_logged := True\<rparr> else m0)
      in (hold_at (fst (op_center (par m)) * k) (snd (op_center (par m)) * k) (face_center m) s m, m))"

definition excitation_setpoint :: "int \<Rightarrow> controller \<Rightarrow> orbits \<Rightarrow> (vec3 \<times> radians) \<times> orbits" where
  "excitation_setpoint now s m0 =
     (let c = op_center (par m0);
          m = (if pre_excite_hover_us m0 = 0 then m0\<lparr>pre_excite_hover_us := now\<rparr> else m0)
      in if secs (now - pre_excite_hover_us m) < max 0 (op_pre_excite_hover (par m))
         then (hold_at (fst c) (snd c) (face_center m) s m, m)
         else
           let m1 = (if excite_us m = 0 then m\<lparr>excite_us := now\<rparr> else m);
               te = secs (now - excite_us m1);
               dz = 1 / 2 * op_excite_amp (par m1) * (1 - cos (2 * pi * op_excite_freq (par m1) * te))
           in if te < op_excite_cycles (par m1) / op_excite_freq (par m1)
              then (((fst c, snd c, altitude_up s + dz), mission_yaw (face_center m1) m1), m1)
              else ready_setpoint now s (m1\<lparr>excited := True\<rparr>))"

definition pre_orbit_setpoint :: "int \<Rightarrow> controller \<Rightarrow> orbits \<Rightarrow> py_error + ((vec3 \<times> radians) \<times> orbits)" where
  "pre_orbit_setpoint now s m =
     (if \<not> climbed m then Inr (climb_setpoint now s m)
      else if \<not> staging_complete m then staging_setpoint now (face_center m) s m
      else if at_center now s m \<and> \<not> excited m then Inr (excitation_setpoint now s m)
      else Inr (ready_setpoint now s (if \<not> at_center now s m \<and> \<not> excited m then m\<lparr>pre_excite_hover_us := 0\<rparr> else m)))"

section \<open>Home and landing\<close>

definition landing_settled :: "controller \<Rightarrow> orbits \<Rightarrow> bool" where
  "landing_settled s m =
     (hypot (cx s - (snd (anchor m) + snd (home_offset m))) (cy s - (fst (anchor m) + fst (home_offset m))) \<le> op_land_xy (par m)
      \<and> hypot (cvx s) (cvy s) \<le> op_land_vxy (par m))"

definition home_progress :: "seconds \<Rightarrow> orbits \<Rightarrow> real" where
  "home_progress home_t m = min 1 (max 0 home_t / max (1 / 1000) (op_to_center_time (par m)))"

definition home_blend :: "vec3 \<Rightarrow> real \<Rightarrow> controller \<Rightarrow> orbits \<Rightarrow> vec3" where
  "home_blend from k s m =
     (fst from * (1 - k) + fst (home_offset m) * k,
      fst (snd from) * (1 - k) + snd (home_offset m) * k,
      snd (snd from) + (altitude_up s - snd (snd from)) * k)"

definition home_setpoint ::
    "int \<Rightarrow> vec3 \<Rightarrow> radians \<Rightarrow> seconds \<Rightarrow> controller \<Rightarrow> orbits \<Rightarrow> mission_call list \<times> (vec3 \<times> radians) \<times> orbits" where
  "home_setpoint now from yaw_enu home_t s m =
     (let u = home_progress home_t m; sp = (home_blend from (smoothstep u) s m, yaw_enu)
      in if u < 1 then ([], sp, m\<lparr>land_settle_us := 0\<rparr>)
         else
           let since = (if landing_settled s m then (if land_settle_us m = 0 then now else land_settle_us m) else 0);
               dwell = (if landing_settled s m then secs (now - since) else 0);
               m1 = m\<lparr>land_settle_us := since\<rparr>
           in if dwell \<ge> op_land_settle (par m1) \<and> \<not> land_requested m1
              then ([CallLand], sp, m1\<lparr>land_requested := True\<rparr>)
              else ([], sp, m1))"

section \<open>The setpoint of a tick\<close>

text \<open>The peel-off starts from the phase last commanded, guard offset included.\<close>

definition peel_phase_of :: "orbits \<Rightarrow> seconds \<Rightarrow> py_error + radians" where
  "peel_phase_of m d =
     (case peel_phase m of
        Some ph \<Rightarrow> Inr ph
      | None \<Rightarrow> (case phase_cmd m of Some ph \<Rightarrow> Inr ph | None \<Rightarrow> scheduled_phase (op_index (par m)) d m))"

definition peel_orbit_kw :: "controller \<Rightarrow> orbits \<Rightarrow> radians \<Rightarrow> py_error + orbit_kw" where
  "peel_orbit_kw s m ph =
     (case phase_list m of
        None \<Rightarrow> Inr ((mission_orbit_kw s m)\<lparr>phase0 := ph - radians (op_phase_step_deg (par m)) * of_int (op_index (par m))\<rparr>)
      | Some xs \<Rightarrow> bindE (np_item xs (op_index (par m))) (\<lambda>own.
          Inr ((mission_orbit_kw s m)\<lparr>phases := Some (map (\<lambda>x. x + (ph - own)) xs)\<rparr>)))"

definition return_setpoint ::
    "int \<Rightarrow> seconds \<Rightarrow> seconds \<Rightarrow> controller \<Rightarrow> orbits \<Rightarrow> py_error + (mission_call list \<times> (vec3 \<times> radians) \<times> orbits)" where
  "return_setpoint now rt d s m0 =
     bindE (peel_phase_of m0 d) (\<lambda>ph.
       let m = m0\<lparr>avoidance_mode := MODE_NOMINAL, peel_phase := Some ph\<rparr>;
           peel = (\<lambda>t kw. phased_orbit_peeloff t (op_index (par m)) (op_count (par m)) (op_radius (par m)) (omega (par m))
                            (peel_settings m) kw)
       in bindE (peel_orbit_kw s m ph) (\<lambda>kw.
            if rt < return_duration m then bindE (peel rt kw) (\<lambda>sp. Inr ([], sp, m))
            else
              bindE (peel (return_duration m) kw) (\<lambda>(_, final_yaw).
                Inr (home_setpoint now (fst (op_center (par m)), snd (op_center (par m)), altitude_up s) final_yaw
                       (rt - return_duration m) s m))))"

definition nominal_setpoint :: "int \<Rightarrow> controller \<Rightarrow> orbits \<Rightarrow> py_error + (mission_call list \<times> (vec3 \<times> radians) \<times> orbits)" where
  "nominal_setpoint now s m =
     (if home_us m \<noteq> 0 then
        bindE (need (home_from m)) (\<lambda>(from, yaw_enu).
          Inr (home_setpoint now from yaw_enu (secs (now - home_us m)) s m))
      else if orbit_gate_us m = 0 then
        bindE (pre_orbit_setpoint now s m) (\<lambda>(sp, m1). Inr ([], sp, m1))
      else if tau now m < op_spiral_time (par m) then
        bindE (phased_orbit_insertion (tau now m / max (1 / 1000) (op_spiral_time (par m))) (op_index (par m))
                 (op_count (par m)) (op_radius (par m)) (radians (op_spin_deg (par m))) (mission_orbit_kw s m))
          (\<lambda>sp. Inr ([], sp, m))
      else
        let orbit_t = tau now m - op_spiral_time (par m)
        in case orbit_duration m of
             None \<Rightarrow> bindE (phase_guard_setpoint now s m orbit_t) (\<lambda>(sp, m1). Inr ([], sp, m1))
           | Some d \<Rightarrow>
               if orbit_t < d then bindE (phase_guard_setpoint now s m orbit_t) (\<lambda>(sp, m1). Inr ([], sp, m1))
               else return_setpoint now (orbit_t - d) d s m)"

definition enu_to_ned_setpoint :: "vec3 \<Rightarrow> radians \<Rightarrow> axis list" where
  "enu_to_ned_setpoint pos yaw_enu =
     map Some [fst (snd pos), fst pos, - snd (snd pos), wrap_pi (pi / 2 - yaw_enu)]"

definition in_anchor_frame :: "orbits \<Rightarrow> vec3 \<Rightarrow> vec3" where
  "in_anchor_frame m pos = (fst pos + fst (anchor m), fst (snd pos) + snd (anchor m), snd (snd pos))"

text \<open>In random staging ORCA commands the horizontal velocity, and \<open>None\<close> leaves the horizontal position free.\<close>

definition random_staging :: "orbits \<Rightarrow> bool" where
  "random_staging m = (op_staging_enabled (par m) \<and> \<not> op_trim_enabled (par m) \<and> \<not> staging_complete m)"

definition compute_setpoint :: "int \<Rightarrow> controller \<Rightarrow> orbits \<Rightarrow> py_error + (mission_answer \<times> orbits)" where
  "compute_setpoint now s m0 =
     bindE (nominal_setpoint now s (publish_world_state now s m0)) (\<lambda>(calls, sp, m1).
       let m = m1\<lparr>last_nominal := Some sp\<rparr>;
           pos = in_anchor_frame m (fst sp)
       in if has_peers m \<and> climbed m \<and> random_staging m
          then
            bindE (avoidance_velocity (fst pos, fst (snd pos)) now s m) (\<lambda>(safe, m2).
              Inr ((calls, Some [None, None, Some (- snd (snd pos)), Some (wrap_pi (pi / 2 - snd sp)),
                                 Some (snd safe), Some (fst safe), None]), m2))
          else Inr ((calls, Some (enu_to_ned_setpoint pos (snd sp))), m))"

section \<open>The node\<close>

text \<open>
  The node is the controller with the mission's state. A timer tick asks the mission for a setpoint when the
  controller is active and neither aborts nor yields; the hooks run where the controller calls them.
\<close>

type_synonym node = "controller \<times> orbits"

datatype node_event =
    Base ctl_event
  | OrbitGate int bool
  | EndMission int bool
  | PeerState int int peer_report
  | RelativeState int int relative_report
  | Tick int

definition orbit_hooks :: "orbits hooks" where
  "orbit_hooks = \<lparr>hk_compute = compute_setpoint, hk_link_acquired = (\<lambda>now m. on_link_acquired now (par m)),
     hk_active_start = on_active_start, hk_return_home = on_return_home, hk_frame_reset = (\<lambda>d dh. on_local_frame_reset d)\<rparr>"

definition node_step :: "node \<Rightarrow> node_event \<Rightarrow> py_error + node" where
  "node_step n e =
     (case n of (s, m) \<Rightarrow>
        case e of
          Base b \<Rightarrow> hosted_callback orbit_hooks b n
        | OrbitGate now b \<Rightarrow> Inr (s, orbit_gate_cb now b s m)
        | EndMission now b \<Rightarrow> hosted_end orbit_hooks now b n
        | PeerState now k r \<Rightarrow> Inr (s, peer_state_cb now k r m)
        | RelativeState now k r \<Rightarrow> Inr (s, relative_state_cb now k r m)
        | Tick now \<Rightarrow> hosted_tick orbit_hooks now n)"

end
