(* ===== verification/Phased_Frames.thy ===== *)
theory Phased_Frames
  imports Phased Controller_Properties
begin

text \<open>
  An estimator reset moves the whole choreography with the frame: every setpoint function commutes with a
  shift of the controller's position and launch point and the mission's anchor. Random staging does not.
\<close>

section \<open>Frame resets\<close>

text \<open>An estimator reset by \<open>d\<close> (east, north), as it appears to the controller and to the mission.\<close>

definition shift_ctl :: "point \<Rightarrow> controller \<Rightarrow> controller" where
  "shift_ctl d s = s\<lparr>cx := cx s + snd d, cy := cy s + fst d,
                    launch_xy := map_option (\<lambda>(n, e). (n + snd d, e + fst d)) (launch_xy s)\<rparr>"

definition shift_orb :: "point \<Rightarrow> orbits \<Rightarrow> orbits" where
  "shift_orb d m = m\<lparr>anchor := add2 (anchor m) d, last_goal := map_option (\<lambda>(g, t). (add2 g d, t)) (last_goal m)\<rparr>"

lemma shift_ctl_simps [simp]:
  "cx (shift_ctl d s) = cx s + snd d" "cy (shift_ctl d s) = cy s + fst d" "cz (shift_ctl d s) = cz s"
  "cvx (shift_ctl d s) = cvx s" "cvy (shift_ctl d s) = cvy s" "cvz (shift_ctl d s) = cvz s" "yaw (shift_ctl d s) = yaw s"
  "launch_z (shift_ctl d s) = launch_z s" "launch_z_latched (shift_ctl d s) = launch_z_latched s"
  "attitude_seen (shift_ctl d s) = attitude_seen s" "xy_valid (shift_ctl d s) = xy_valid s" "z_valid (shift_ctl d s) = z_valid s"
  "v_xy_valid (shift_ctl d s) = v_xy_valid s" "takeoff_acceptance_m (shift_ctl d s) = takeoff_acceptance_m s"
  "takeoff_target_z (shift_ctl d s) = takeoff_target_z s" "altitude_up (shift_ctl d s) = altitude_up s"
  by (simp_all add: shift_ctl_def takeoff_target_z_def altitude_up_def)

lemma shift_orb_simps [simp]:
  "par (shift_orb d m) = par m" "phase_list (shift_orb d m) = phase_list m" "order_list (shift_orb d m) = order_list m"
  "orbit_duration (shift_orb d m) = orbit_duration m" "orbit_gate_us (shift_orb d m) = orbit_gate_us m" "climbed (shift_orb d m) = climbed m"
  "transit_us (shift_orb d m) = transit_us m" "staging_complete (shift_orb d m) = staging_complete m" "stage_start_us (shift_orb d m) = stage_start_us m"
  "line_trim_us (shift_orb d m) = line_trim_us m" "line_trim_settle_us (shift_orb d m) = line_trim_settle_us m" "line_trim_offset (shift_orb d m) = line_trim_offset m"
  "line_trim_ready (shift_orb d m) = line_trim_ready m" "home_offset (shift_orb d m) = home_offset m" "center_logged (shift_orb d m) = center_logged m"
  "pre_excite_hover_us (shift_orb d m) = pre_excite_hover_us m" "excite_us (shift_orb d m) = excite_us m" "excited (shift_orb d m) = excited m"
  "hold_yaw_enu (shift_orb d m) = hold_yaw_enu m" "land_settle_us (shift_orb d m) = land_settle_us m" "land_requested (shift_orb d m) = land_requested m"
  "home_us (shift_orb d m) = home_us m" "home_from (shift_orb d m) = home_from m" "last_nominal (shift_orb d m) = last_nominal m"
  "frame_epoch (shift_orb d m) = frame_epoch m" "phase_cmd (shift_orb d m) = phase_cmd m" "phase_cmd_us (shift_orb d m) = phase_cmd_us m"
  "phase_offset (shift_orb d m) = phase_offset m" "phase_rate_cmd (shift_orb d m) = phase_rate_cmd m" "phase_solution (shift_orb d m) = phase_solution m"
  "peel_phase (shift_orb d m) = peel_phase m" "seq (shift_orb d m) = seq m" "peer_state (shift_orb d m) = peer_state m"
  "relative_state (shift_orb d m) = relative_state m" "avoidance_mode (shift_orb d m) = avoidance_mode m" "active_ticks (shift_orb d m) = active_ticks m"
  "total_ticks (shift_orb d m) = total_ticks m" "max_delta (shift_orb d m) = max_delta m" "sent (shift_orb d m) = sent m"
  "anchor (shift_orb d m) = add2 (anchor m) d" "last_goal (shift_orb d m) = map_option (\<lambda>(g, t). (add2 g d, t)) (last_goal m)"
  by (simp_all add: shift_orb_def)

text \<open>What the two callbacks of a reset by \<open>d\<close> do to the mission's part of the state, apart from counting it.\<close>

lemma reset_is_shift:
  "on_local_frame_reset (snd d, fst d) m = (shift_orb d m)\<lparr>frame_epoch := (frame_epoch m + 1) mod 65536\<rparr>"
  by (simp add: on_local_frame_reset_def shift_orb_def add2_def Let_def)

text \<open>Every other update commutes with the shift.\<close>

lemma shift_orb_updates [simp]:
  "shift_orb d m\<lparr>climbed := x0\<rparr> = shift_orb d (m\<lparr>climbed := x0\<rparr>)"
  "shift_orb d m\<lparr>transit_us := x1\<rparr> = shift_orb d (m\<lparr>transit_us := x1\<rparr>)"
  "shift_orb d m\<lparr>staging_complete := x2\<rparr> = shift_orb d (m\<lparr>staging_complete := x2\<rparr>)"
  "shift_orb d m\<lparr>stage_start_us := x3\<rparr> = shift_orb d (m\<lparr>stage_start_us := x3\<rparr>)"
  "shift_orb d m\<lparr>line_trim_us := x4\<rparr> = shift_orb d (m\<lparr>line_trim_us := x4\<rparr>)"
  "shift_orb d m\<lparr>line_trim_settle_us := x5\<rparr> = shift_orb d (m\<lparr>line_trim_settle_us := x5\<rparr>)"
  "shift_orb d m\<lparr>line_trim_offset := x6\<rparr> = shift_orb d (m\<lparr>line_trim_offset := x6\<rparr>)"
  "shift_orb d m\<lparr>line_trim_ready := x7\<rparr> = shift_orb d (m\<lparr>line_trim_ready := x7\<rparr>)"
  "shift_orb d m\<lparr>home_offset := x8\<rparr> = shift_orb d (m\<lparr>home_offset := x8\<rparr>)"
  "shift_orb d m\<lparr>center_logged := x9\<rparr> = shift_orb d (m\<lparr>center_logged := x9\<rparr>)"
  "shift_orb d m\<lparr>pre_excite_hover_us := x10\<rparr> = shift_orb d (m\<lparr>pre_excite_hover_us := x10\<rparr>)"
  "shift_orb d m\<lparr>excite_us := x11\<rparr> = shift_orb d (m\<lparr>excite_us := x11\<rparr>)"
  "shift_orb d m\<lparr>excited := x12\<rparr> = shift_orb d (m\<lparr>excited := x12\<rparr>)"
  "shift_orb d m\<lparr>land_settle_us := x13\<rparr> = shift_orb d (m\<lparr>land_settle_us := x13\<rparr>)"
  "shift_orb d m\<lparr>land_requested := x14\<rparr> = shift_orb d (m\<lparr>land_requested := x14\<rparr>)"
  "shift_orb d m\<lparr>last_nominal := x15\<rparr> = shift_orb d (m\<lparr>last_nominal := x15\<rparr>)"
  "shift_orb d m\<lparr>phase_cmd := x16\<rparr> = shift_orb d (m\<lparr>phase_cmd := x16\<rparr>)"
  "shift_orb d m\<lparr>phase_cmd_us := x17\<rparr> = shift_orb d (m\<lparr>phase_cmd_us := x17\<rparr>)"
  "shift_orb d m\<lparr>phase_offset := x18\<rparr> = shift_orb d (m\<lparr>phase_offset := x18\<rparr>)"
  "shift_orb d m\<lparr>phase_rate_cmd := x19\<rparr> = shift_orb d (m\<lparr>phase_rate_cmd := x19\<rparr>)"
  "shift_orb d m\<lparr>phase_solution := x20\<rparr> = shift_orb d (m\<lparr>phase_solution := x20\<rparr>)"
  "shift_orb d m\<lparr>peel_phase := x21\<rparr> = shift_orb d (m\<lparr>peel_phase := x21\<rparr>)"
  "shift_orb d m\<lparr>seq := x22\<rparr> = shift_orb d (m\<lparr>seq := x22\<rparr>)"
  "shift_orb d m\<lparr>avoidance_mode := x23\<rparr> = shift_orb d (m\<lparr>avoidance_mode := x23\<rparr>)"
  "shift_orb d m\<lparr>active_ticks := x24\<rparr> = shift_orb d (m\<lparr>active_ticks := x24\<rparr>)"
  "shift_orb d m\<lparr>total_ticks := x25\<rparr> = shift_orb d (m\<lparr>total_ticks := x25\<rparr>)"
  "shift_orb d m\<lparr>max_delta := x26\<rparr> = shift_orb d (m\<lparr>max_delta := x26\<rparr>)"
  "shift_orb d m\<lparr>sent := x27\<rparr> = shift_orb d (m\<lparr>sent := x27\<rparr>)"
  by (simp_all add: shift_orb_def)

lemma shift_orb_anchor [simp]:
  "shift_orb d m\<lparr>anchor := (cy s + fst d, cx s + snd d)\<rparr> = shift_orb d (m\<lparr>anchor := (cy s, cx s)\<rparr>)"
  by (simp add: shift_orb_def add2_def)

lemma shift_orb_if [simp]: "(if b then shift_orb d m else shift_orb d m') = shift_orb d (if b then m else m')"
  by simp

lemma shift_readings [simp]:
  "world_xy (shift_ctl d s) (shift_orb d m) = world_xy s m"
  "anchor_world_xy (shift_ctl d s) (shift_orb d m) = anchor_world_xy s m"
  by (auto simp: world_xy_def anchor_world_xy_def to_world_def shift_ctl_def add2_def split: option.splits)

lemma shift_frames [simp]:
  "radial_of (shift_ctl d s) (shift_orb d m) = radial_of s m"
  "tau now (shift_orb d m) = tau now m"
  "mission_yaw y (shift_orb d m) = mission_yaw y m"
  "phase_yaw y (shift_orb d m) = phase_yaw y m"
  "hold_at e n y (shift_ctl d s) (shift_orb d m) = hold_at e n y s m"
  "peel_settings (shift_orb d m) = peel_settings m"
  "return_duration (shift_orb d m) = return_duration m"
  "has_peers (shift_orb d m) = has_peers m"
  "random_staging (shift_orb d m) = random_staging m"
  "face_center (shift_orb d m) = face_center m"
  "transit_progress now (shift_orb d m) = transit_progress now m"
  "at_center now (shift_ctl d s) (shift_orb d m) = at_center now s m"
  "landing_settled (shift_ctl d s) (shift_orb d m) = landing_settled s m"
  "home_progress t (shift_orb d m) = home_progress t m"
  "home_blend from k (shift_ctl d s) (shift_orb d m) = home_blend from k s m"
  by (simp_all add: radial_of_def tau_def mission_yaw_def phase_yaw_def hold_at_def peel_settings_def return_duration_def
        has_peers_def random_staging_def face_center_def transit_progress_def at_center_def landing_settled_def add2_def home_progress_def home_blend_def
        algebra_simps)

lemma shift_orbit_time [simp]: "locked_orbit_time now (shift_orb d m) = locked_orbit_time now m"
  by (simp add: locked_orbit_time_def orbiting_at_def)

lemma shift_phase [simp]:
  "actual_phase now (shift_ctl d s) (shift_orb d m) = actual_phase now s m"
  "mission_orbit_kw (shift_ctl d s) (shift_orb d m) = mission_orbit_kw s m"
  "scheduled_phase i t (shift_orb d m) = scheduled_phase i t m"
  "scheduled_rate i t (shift_orb d m) = scheduled_rate i t m"
  "guard_peers now (shift_orb d m) = guard_peers now m"
  "phase_decision (shift_orb d m) = phase_decision m"
  "orca_decision (shift_orb d m) = orca_decision m"
  by (simp_all add: actual_phase_def mission_orbit_kw_def scheduled_phase_def scheduled_rate_def guard_peers_def fun_eq_iff
        phase_decision_def orca_decision_def cong: option.case_cong)

lemma shift_publications [simp]:
  "world_state_of now (shift_ctl d s) (shift_orb d m) = world_state_of now s m"
  "guard_solve now (shift_ctl d s) (shift_orb d m) = guard_solve now s m"
  by (simp_all add: world_state_of_def guard_solve_def Let_def fun_eq_iff cong: if_cong option.case_cong)

lemma shift_publish: "publish_world_state now (shift_ctl d s) (shift_orb d m) = shift_orb d (publish_world_state now s m)"
  by (simp add: publish_world_state_def)

lemma shift_guard_command:
  "guard_command now w r sol (shift_orb d m) = shift_orb d (guard_command now w r sol m)"
  "publish_decision de (shift_orb d m) = shift_orb d (publish_decision de m)"
  "par (guard_command now w r sol m) = par m"
  by (simp_all add: guard_command_def publish_decision_def Let_def)

definition shift_sp :: "point \<Rightarrow> (vec3 \<times> radians) \<times> orbits \<Rightarrow> (vec3 \<times> radians) \<times> orbits" where
  "shift_sp d r = (fst r, shift_orb d (snd r))"

lemma shift_sp_simps [simp]: "shift_sp d (a, m) = (a, shift_orb d m)" "(if b then shift_sp d x else shift_sp d y) = shift_sp d (if b then x else y)"
  by (simp_all add: shift_sp_def)

lemma shift_reanchor:
  "reanchor (add2 a d) (shift_orb d m) = shift_orb d (reanchor a m)"
  by (simp add: reanchor_def shift_orb_def sub2_def add2_def)

lemma shift_guard:
  "phase_guard_setpoint now (shift_ctl d s) (shift_orb d m) t = bindE (phase_guard_setpoint now s m t) (\<lambda>r. Inr (shift_sp d r))"
  unfolding phase_guard_setpoint_def bindE_assoc
  by (simp add: Let_def shift_guard_command cong: bindE_cong)

lemma shift_climb: "climb_setpoint now (shift_ctl d s) (shift_orb d m) = shift_sp d (climb_setpoint now s m)"
  by (simp add: climb_setpoint_def Let_def)

lemma shift_line [simp]:
  "line_release now (shift_orb d m) = line_release now m"
  "predecessor_range now (shift_orb d m) = predecessor_range now m"
  "predecessor_ready now (shift_orb d m) = predecessor_ready now m"
  by (simp_all add: line_release_def predecessor_range_def predecessor_ready_def cong: option.case_cong)

lemma shift_follow: "trim_follow now y (shift_ctl d s) (shift_orb d m) = shift_sp d (trim_follow now y s m)"
proof -
  have "(cy s + fst d, cx s + snd d) = add2 (cy s, cx s) d" by (simp add: add2_def)
  then show ?thesis by (simp add: trim_follow_def Let_def shift_reanchor split: option.split)
qed

lemma shift_trim: "line_trim_setpoint now y (shift_ctl d s) (shift_orb d m) = shift_sp d (line_trim_setpoint now y s m)"
  by (simp add: line_trim_setpoint_def shift_follow Let_def)

lemma shift_ready: "ready_setpoint now (shift_ctl d s) (shift_orb d m) = shift_sp d (ready_setpoint now s m)"
  by (simp add: ready_setpoint_def Let_def)

lemma shift_excitation: "excitation_setpoint now (shift_ctl d s) (shift_orb d m) = shift_sp d (excitation_setpoint now s m)"
  by (simp add: excitation_setpoint_def Let_def shift_ready)

text \<open>The target of random staging is the one point that does not ride on the anchor.\<close>

definition flies_to_slot :: "orbits \<Rightarrow> bool" where
  "flies_to_slot m \<longleftrightarrow> climbed m \<and> random_staging m \<and> orbit_gate_us m = 0 \<and> home_us m = 0"

definition shift_orbE :: "point \<Rightarrow> py_error + ((vec3 \<times> radians) \<times> orbits) \<Rightarrow> py_error + ((vec3 \<times> radians) \<times> orbits)" where
  "shift_orbE d r = bindE r (\<lambda>x. Inr (shift_sp d x))"

lemma shift_pre_orbit:
  assumes "\<not> (climbed m \<and> random_staging m)" "op_staging_enabled (par m) \<or> staging_complete m"
  shows "pre_orbit_setpoint now (shift_ctl d s) (shift_orb d m) = bindE (pre_orbit_setpoint now s m) (\<lambda>r. Inr (shift_sp d r))"
proof (cases "climbed m")
  case False
  then show ?thesis by (simp add: pre_orbit_setpoint_def shift_climb)
next
  case c: True
  show ?thesis
  proof (cases "staging_complete m")
    case False
    then have "op_trim_enabled (par m)" using assms c by (simp add: random_staging_def)
    then show ?thesis using c False by (simp add: pre_orbit_setpoint_def staging_setpoint_def shift_trim)
  next
    case True
    then show ?thesis
      using c unfolding pre_orbit_setpoint_def
      by (cases "at_center now s m"; cases "excited m") (simp_all add: shift_excitation shift_ready)
  qed
qed

definition shift_result where
  "shift_result d r = (case r of (calls, sp, m) \<Rightarrow> (calls, sp, shift_orb d m))"

lemma shift_result_simps [simp]:
  "shift_result d (calls, sp, m) = (calls, sp, shift_orb d m)"
  "(if b then shift_result d x else shift_result d y) = shift_result d (if b then x else y)"
  by (simp_all add: shift_result_def)

lemma shift_home: "home_setpoint now from y t (shift_ctl d s) (shift_orb d m) = shift_result d (home_setpoint now from y t s m)"
  by (simp add: home_setpoint_def Let_def)

lemma shift_return:
  "return_setpoint now rt t (shift_ctl d s) (shift_orb d m) = bindE (return_setpoint now rt t s m) (\<lambda>r. Inr (shift_result d r))"
proof -
  have p: "peel_phase_of (shift_orb d m) = peel_phase_of m" for m
    by (simp add: peel_phase_of_def fun_eq_iff cong: option.case_cong)
  have k: "peel_orbit_kw (shift_ctl d s) (shift_orb d m) ph = peel_orbit_kw s m ph" for m ph
    by (simp add: peel_orbit_kw_def cong: option.case_cong)
  show ?thesis
    unfolding return_setpoint_def bindE_assoc
    by (simp add: p k Let_def shift_home bindE_assoc bindE_if split_def cong: bindE_cong if_cong)
qed

lemma shift_nominal:
  assumes "\<not> flies_to_slot m" "op_staging_enabled (par m) \<or> staging_complete m"
  shows "nominal_setpoint now (shift_ctl d s) (shift_orb d m) = bindE (nominal_setpoint now s m) (\<lambda>r. Inr (shift_result d r))"
proof (cases "home_us m = 0 \<and> orbit_gate_us m = 0")
  case True
  then have "\<not> (climbed m \<and> random_staging m)" using assms(1) by (simp add: flies_to_slot_def)
  from shift_pre_orbit [OF this assms(2), of now d s] True show ?thesis
    by (auto simp: nominal_setpoint_def bindE_assoc intro!: bindE_cong)
next
  case False
  then show ?thesis
    by (auto simp: nominal_setpoint_def bindE_assoc shift_home shift_return shift_guard Let_def orbiting_at_def
        split: option.split intro!: bindE_cong)
qed

lemma shift_feed_forward: "feed_forward (add2 g d) now (shift_orb d m) = feed_forward g now m"
  by (cases "last_goal m") (auto simp: feed_forward_def Let_def sub2_def add2_def)

lemma shift_preferred:
  "preferred_velocity (add2 g d) now (shift_ctl d s) (shift_orb d m)
     = bindE (preferred_velocity g now s m) (\<lambda>(v, m). Inr (v, shift_orb d m))"
proof -
  have "sub2 (add2 g d) (cy s + fst d, cx s + snd d) = sub2 g (cy s, cx s)" by (simp add: sub2_def add2_def)
  moreover have "shift_orb d m\<lparr>last_goal := Some (add2 g d, now)\<rparr> = shift_orb d (m\<lparr>last_goal := Some (g, now)\<rparr>)"
    by (simp add: shift_orb_def)
  ultimately show ?thesis by (simp add: preferred_velocity_def Let_def shift_feed_forward)
qed

lemma shift_estimates [simp]:
  "usable now (shift_orb d m) = usable now m"
  "effective_radius (shift_orb d m) = effective_radius m"
  "closing_speed (shift_orb d m) = closing_speed m"
  by (simp_all add: usable_def effective_radius_def closing_speed_def fun_eq_iff cong: option.case_cong)

lemma shift_consider: "consider_peer now (shift_ctl d s) (shift_orb d m) = consider_peer now s m"
proof -
  have "more_limiting (shift_orb d m) = more_limiting m"
    by (simp add: more_limiting_def fun_eq_iff Let_def cong: option.case_cong if_cong)
  then show ?thesis by (simp add: consider_peer_def fun_eq_iff)
qed

lemma shift_plan: "plan_avoidance v now (shift_ctl d s) (shift_orb d m) = plan_avoidance v now s m"
  by (simp add: plan_avoidance_def shift_consider cong: if_cong)

lemma shift_avoidance:
  "avoidance_velocity (add2 g d) now (shift_ctl d s) (shift_orb d m)
     = bindE (avoidance_velocity g now s m) (\<lambda>(v, m). Inr (v, shift_orb d m))"
proof -
  have n: "note_avoidance x (shift_orb d m) = shift_orb d (note_avoidance x m)" for x m
    by (simp add: note_avoidance_def Let_def)
  show ?thesis
    unfolding avoidance_velocity_def shift_preferred bindE_assoc
    by (simp add: Let_def split_def shift_plan n shift_guard_command cong: bindE_cong option.case_cong)
qed

lemma publish_keeps [simp]:
  "flies_to_slot (publish_world_state now s m) = flies_to_slot m"
  "par (publish_world_state now s m) = par m" "staging_complete (publish_world_state now s m) = staging_complete m"
  by (simp_all add: publish_world_state_def flies_to_slot_def random_staging_def)

lemma shift_in_frame:
  "in_anchor_frame (shift_orb d m) p
     = (fst (in_anchor_frame m p) + fst d, fst (snd (in_anchor_frame m p)) + snd d, snd (snd (in_anchor_frame m p)))"
  by (simp add: in_anchor_frame_def add2_def)

definition shift_setpoint :: "point \<Rightarrow> axis list \<Rightarrow> axis list" where
  "shift_setpoint d xs =
     (case xs of n # e # rest \<Rightarrow> map_option (\<lambda>x. x + snd d) n # map_option (\<lambda>x. x + fst d) e # rest | _ \<Rightarrow> xs)"

text \<open>The setpoint of a tick, given what the nominal path answered.\<close>

definition finish_setpoint where
  "finish_setpoint now s r =
     (case r of (calls, sp, m1) \<Rightarrow>
        let m = m1\<lparr>last_nominal := Some sp\<rparr>; pos = in_anchor_frame m (fst sp)
        in if has_peers m \<and> climbed m \<and> random_staging m
           then bindE (avoidance_velocity (fst pos, fst (snd pos)) now s m) (\<lambda>(safe, m2).
                  Inr ((calls, Some [None, None, Some (- snd (snd pos)), Some (wrap_pi (pi / 2 - snd sp)),
                                     Some (snd safe), Some (fst safe), None]), m2))
           else Inr ((calls, Some (enu_to_ned_setpoint pos (snd sp))), m))"

lemma compute_setpoint_split:
  "compute_setpoint now s m = bindE (nominal_setpoint now s (publish_world_state now s m)) (finish_setpoint now s)"
  by (simp add: compute_setpoint_def finish_setpoint_def [abs_def])

definition shift_answer :: "point \<Rightarrow> mission_answer \<times> orbits \<Rightarrow> mission_answer \<times> orbits" where
  "shift_answer d r = ((fst (fst r), map_option (shift_setpoint d) (snd (fst r))), shift_orb d (snd r))"

lemma shift_finish:
  "finish_setpoint now (shift_ctl d s) (shift_result d r) = bindE (finish_setpoint now s r) (\<lambda>a. Inr (shift_answer d a))"
proof -
  obtain calls sp m1 where r: "r = (calls, sp, m1)" by (metis surj_pair)
  define m where "m = m1\<lparr>last_nominal := Some sp\<rparr>"
  define pos where "pos = in_anchor_frame m (fst sp)"
  have p: "in_anchor_frame (shift_orb d m) (fst sp) = (fst pos + fst d, fst (snd pos) + snd d, snd (snd pos))"
    by (simp add: shift_in_frame pos_def)
  have g: "(fst pos + fst d, fst (snd pos) + snd d) = add2 (fst pos, fst (snd pos)) d" by (simp add: add2_def)
  show ?thesis
    unfolding r finish_setpoint_def
    by (simp add: m_def [symmetric] pos_def [symmetric] p g Let_def shift_avoidance bindE_assoc split_def shift_answer_def
        shift_setpoint_def enu_to_ned_setpoint_def cong: bindE_cong)
qed

text \<open>
  Claim C17: an estimator reset never moves the choreography. When the position, the launch point and the
  mission's anchor jump together by \<open>d\<close>, the tick commands the same calls and the same setpoint moved
  by exactly \<open>d\<close> (a velocity setpoint is unchanged), raises exactly when it did before, publishes the same messages, and
  leaves the same state, shifted: in the climb, line trim, transit, excitation, insertion, guarded
  orbit, peel-off and on the way home. The one exception is the flight to a random-staging slot.
\<close>

theorem frame_reset_moves_choreography:
  assumes "\<not> flies_to_slot m" "op_staging_enabled (par m) \<or> staging_complete m"
  shows "compute_setpoint now (shift_ctl d s) (shift_orb d m) = bindE (compute_setpoint now s m) (\<lambda>r. Inr (shift_answer d r))"
  using shift_nominal [of "publish_world_state now s m" now d s] assms
  by (simp add: compute_setpoint_split shift_publish bindE_assoc shift_finish cong: bindE_cong)

theorem frame_reset_moves_choreography_witness:
  "compute_setpoint 5 (shift_ctl (2, 1) (mk_controller example_params)) (shift_orb (2, 1) (initial_orbits declared_parameters None None))
     = bindE (compute_setpoint 5 (mk_controller example_params) (initial_orbits declared_parameters None None))
         (\<lambda>r. Inr (shift_answer (2, 1) r))"
  by (rule frame_reset_moves_choreography) (simp_all add: flies_to_slot_def initial_orbits_def declared_parameters_def)

text \<open>
  The exception. After a reset by \<open>d\<close> the slot keeps its old coordinates, so a vehicle that flies to them
  exactly is \<open>d\<close> away from the slot, and staging never completes if that is more than the acceptance.
\<close>

lemma staging_stalls_after_reset:
  assumes "\<not> op_trim_enabled (par m)" "\<not> staging_complete m"
    and "(cy s, cx s) = staging_target (par m)" "launch_xy s = Some (north, east)"
    and "sub2 (add2 (op_shared_slot (par m)) (staging_target (par m))) (east, north) = sub2 (op_stage (par m)) d"
    and "op_staging_acceptance (par m) < norm2 d"
  shows "staging_setpoint now y s m = Inr (sp, m') \<Longrightarrow> \<not> staging_complete m'"
proof -
  have "sub2 (world_xy s m) (op_stage (par m)) = scale2 (- 1) d"
    using assms(3-5) by (auto simp: world_xy_def to_world_def sub2_def add2_def scale2_def prod_eq_iff)
  then have "hypot (fst (world_xy s m) - fst (op_stage (par m))) (snd (world_xy s m) - snd (op_stage (par m))) = norm2 d"
    by (simp add: hypot_def norm2_def dot2_def sub2_def scale2_def)
  moreover have "world_xy s (m\<lparr>stage_start_us := t\<rparr>) = world_xy s m" for t
    by (simp add: world_xy_def to_world_def split: option.split)
  ultimately show "staging_setpoint now y s m = Inr (sp, m') \<Longrightarrow> \<not> staging_complete m'"
    using assms(1,2,6) by (auto simp: staging_setpoint_def Let_def split: if_splits)
qed

end
