(* ===== verification/Mission_Node_Properties.thy ===== *)
theory Mission_Node_Properties
  imports Mission_Node Controller_Properties
begin

text \<open>
  What every flight node inherits: the controller's own exceptions are the only ones if its mission keeps its
  invariant, and every run of the node is a run of the controller.
\<close>

section \<open>The controller under a mission\<close>

text \<open>The controller's settings the mission relies on, and the exceptions only the controller itself raises.\<close>

definition same_settings :: "controller \<Rightarrow> controller \<Rightarrow> bool" where
  "same_settings s t \<longleftrightarrow> takeoff_altitude_m t = takeoff_altitude_m s \<and> goto_active t = goto_active s
     \<and> home_requested t = home_requested s"

definition base_error :: "py_error \<Rightarrow> bool" where
  "base_error e \<longleftrightarrow> e \<in> {RuntimeError ''EKF global origin not accepted'',
     RuntimeError ''launch reference never became stable and valid; refusing to arm''}"

lemma callback_returns:
  assumes "is_callback e"
  shows "okE (same_settings s) (ctl_step s e)"
  using assms
  by (cases e) (auto simp: same_settings_def ctl_step_def status_cb_def att_cb_def gpos_cb_def start_cb_def abort_cb_def split: prod.split)

lemma land_calls: "set cs \<subseteq> {CallLand} \<Longrightarrow> mission_calls cs s = (if cs = [] then s else request_land s)"
proof (induction cs arbitrary: s)
  case Nil
  show ?case unfolding mission_calls_def by simp
next
  case (Cons c cs)
  have "mission_calls (c # cs) s = mission_calls cs (request_land s)"
    using Cons.prems unfolding mission_calls_def by simp
  then show ?case using Cons.IH [of "request_land s"] Cons.prems by (simp add: request_land_def)
qed

lemma origin_cases:
  "case send_pending_origin now s of Inl e \<Rightarrow> base_error e | Inr t \<Rightarrow> same_settings s t \<and> ctl t = ctl s
     \<and> abort_requested t = abort_requested s \<and> interlock_tripped t = interlock_tripped s"
  by (auto simp: send_pending_origin_def base_error_def same_settings_def publish_simps interlock_tripped_def split: option.split)

lemmas publish_all = publish_simps hold_setpoint_def takeoff_hold_def begin_landing_def capture_handoff_hold_def
  publish_handoff_hold_def

lemma same_settings_refl [simp]: "same_settings s s"
  by (simp add: same_settings_def)

lemma same_settings_trans: "same_settings s t \<Longrightarrow> same_settings t u \<Longrightarrow> same_settings s u"
  by (simp add: same_settings_def)

lemma settings_kept:
  "same_settings s (hold_setpoint s)" "same_settings s (begin_landing now s)" "same_settings s (tick_heartbeat s)"
  "same_settings s (publish_handoff_hold s)" "same_settings s (publish_command_throttled now c s)" "same_settings s (command_arm s)"
  "same_settings s (command_offboard_mode s)" "same_settings s (request_land s)"
  by (simp_all add: same_settings_def publish_all tick_heartbeat_def request_land_def Let_def split: prod.split option.split)

lemma settings_updates [simp]:
  "same_settings s (t\<lparr>ctl := q\<rparr>) = same_settings s t" "same_settings s (t\<lparr>prestream_count := n\<rparr>) = same_settings s t"
  "same_settings s (t\<lparr>last_command_us := i\<rparr>) = same_settings s t" "same_settings s (t\<lparr>takeoff_started_us := i\<rparr>) = same_settings s t"
  "same_settings s (t\<lparr>link_acquired_fired := b\<rparr>) = same_settings s t"
  by (simp_all add: same_settings_def)

lemma latch_settings: "latch_launch_reference now s = (b, t) \<Longrightarrow> same_settings s t"
  by (auto simp: latch_launch_reference_def Let_def same_settings_def split: if_splits)

definition fine :: "controller \<Rightarrow> py_error + controller \<Rightarrow> bool" where
  "fine s r \<longleftrightarrow> (case r of Inl e \<Rightarrow> base_error e | Inr t \<Rightarrow> same_settings s t)"

lemma fine_simps [simp]: "fine s (Inl e) = base_error e" "fine s (Inr t) = same_settings s t"
  by (simp_all add: fine_def)

lemma prestream_fine: "fine s (tick_prestream now s)"
proof -
  define s1 where "s1 = (hold_setpoint s)\<lparr>prestream_count := prestream_count s + 1\<rparr>"
  have s1: "same_settings s s1" using settings_kept(1) by (simp add: s1_def)
  obtain b t where l: "latch_launch_reference now s1 = (b, t)" by (metis surj_pair)
  have t: "same_settings s t" by (rule same_settings_trans [OF s1 latch_settings [OF l]])
  have "same_settings s (command_offboard_mode (t\<lparr>takeoff_started_us := now\<rparr>))"
    by (rule same_settings_trans [OF _ settings_kept(7)]) (use t in simp)
  then show ?thesis
    using s1 t by (simp add: tick_prestream_def s1_def [symmetric] l Let_def base_error_def)
qed

lemma takeoff_fine: "same_settings s (tick_takeoff_state now s)"
proof -
  define s1 where "s1 = hold_setpoint s"
  have s1: "same_settings s s1" by (simp add: s1_def settings_kept)
  have "same_settings s (publish_command_throttled now c (command_arm s1))" for c
    by (intro same_settings_trans [OF _ settings_kept(5)] same_settings_trans [OF s1 settings_kept(6)])
  moreover have "same_settings s (begin_landing now s1)" by (rule same_settings_trans [OF s1 settings_kept(2)])
  ultimately show ?thesis by (simp add: tick_takeoff_state_def s1_def [symmetric] Let_def)
qed

lemma engage_fine: "same_settings s (tick_engage now s)"
proof -
  define s1 where "s1 = hold_setpoint s"
  have s1: "same_settings s s1" by (simp add: s1_def settings_kept)
  have "same_settings s (command_arm (command_offboard_mode s1))"
    by (intro same_settings_trans [OF _ settings_kept(6)] same_settings_trans [OF s1 settings_kept(7)])
  moreover have "same_settings s (begin_landing now s1)" by (rule same_settings_trans [OF s1 settings_kept(2)])
  ultimately show ?thesis by (simp add: tick_engage_def s1_def [symmetric] Let_def)
qed

lemma returning_fine: "same_settings s (tick_returning now s)" "same_settings s (tick_land_requested now s)"
  by (simp_all add: tick_returning_def tick_land_requested_def Let_def settings_kept
      same_settings_trans [OF settings_kept(4) settings_kept(5)])

text \<open>An answer the controller can publish in its present setpoint mode.\<close>

definition plain_answer :: "controller \<Rightarrow> mission_answer \<Rightarrow> bool" where
  "plain_answer s ans \<longleftrightarrow> set (fst ans) \<subseteq> {CallLand}
     \<and> (\<forall>xs. snd ans = Some xs \<longrightarrow> length xs = 4 \<or> length xs = 7 \<and> \<not> goto_active s)"

lemma list_4_or_7:
  assumes "length xs = 4 \<or> length xs = 7 \<and> ok"
  obtains x y z w where "xs = [x, y, z, w]" | x y z w a b c where "xs = [x, y, z, w, a, b, c]" "ok"
  using assms by (auto simp: length_Suc_conv eval_nat_numeral)

lemma active_fine:
  assumes ans: "plain_answer s ans"
  shows "fine s (tick_active now ans s)"
proof -
  define s1 where "s1 = mission_calls (fst ans) s"
  have s1: "same_settings s s1"
    using ans land_calls [of "fst ans" s] settings_kept(8) [of s] by (simp add: plain_answer_def s1_def same_settings_def)
  have "same_settings s (hold_setpoint s1)" by (rule same_settings_trans [OF s1 settings_kept(1)])
  moreover have "fine s (publish_mission_setpoint xs s1)" if "snd ans = Some xs" for xs
  proof -
    have "length xs = 4 \<or> length xs = 7 \<and> \<not> goto_active s" using ans that by (simp add: plain_answer_def)
    then show ?thesis
      using s1 by (cases rule: list_4_or_7) (auto simp: publish_mission_setpoint_def same_settings_def publish_simps)
  qed
  ultimately show ?thesis
    by (simp add: tick_active_def s1_def [symmetric] settings_kept Let_def split: option.split)
qed

lemma tick_fine:
  assumes ans: "plain_answer s ans"
  shows "fine s (ctl_tick now ans s)"
proof (cases "send_pending_origin now s")
  case (Inl e)
  then show ?thesis using origin_cases [where now = now and s = s] by (simp add: ctl_tick_def)
next
  case (Inr t)
  define u where "u = tick_heartbeat t"
  have u: "same_settings s u"
    using origin_cases [where now = now and s = s] Inr same_settings_trans [OF _ settings_kept(3)] by (simp add: u_def)
  have "fine s r" if "fine u r" for r
    using that same_settings_trans [OF u] by (auto simp: fine_def split: sum.splits)
  moreover have "plain_answer u ans" using u ans by (simp add: same_settings_def plain_answer_def)
  ultimately show ?thesis
    using active_fine [of u ans] prestream_fine [of u] same_settings_trans [OF u takeoff_fine]
      same_settings_trans [OF u engage_fine] same_settings_trans [OF u returning_fine(1)] same_settings_trans [OF u returning_fine(2)] u
    by (simp add: ctl_tick_def Inr u_def [symmetric] Let_def split: ctl_state.split)
qed

lemma reset_settings: "same_settings s (handle_local_frame_reset now msg s)"
  unfolding handle_local_frame_reset_def same_settings_def
  by (simp add: Let_def split: option.split prod.split)

lemma callback_settings: "same_settings s (pos_cb now msg s)"
  using reset_settings [of s now msg] by (simp add: pos_cb_def same_settings_def Let_def)

lemma set_origin_settings [simp]: "same_settings s (set_global_origin now o1 t) = same_settings s t"
  by (simp add: set_global_origin_def same_settings_def)

text \<open>A tick of a node: the answer, the controller's tick on it, and the hooks of what happened in it.\<close>

lemma hosted_tick_parts:
  assumes "hosted_tick hk now (s, m) = Inr (t, m')"
  obtains ans m1 s1 where
    "(if asks_mission s then hk_compute hk now s m else Inr (([], None), m)) = Inr (ans, m1)"
    "ctl_tick now ans s = Inr s1"
    "t = (if \<not> link_acquired_fired s \<and> link_acquired_fired s1 then hk_link_acquired hk now m1 s1 else s1)"
    "m' = (if ctl s = ENGAGE \<and> ctl s1 = ACTIVE then hk_active_start hk now s1 m1 else m1)"
proof -
  obtain x m1 where x: "(if asks_mission s then hk_compute hk now s m else Inr (([], None), m)) = Inr (x, m1)"
    using assms by (cases "(if asks_mission s then hk_compute hk now s m else Inr (([], None), m))")
      (auto simp: hosted_tick_def bindE_eq_Inr_iff simp del: if_split)
  with assms obtain s1 where s1: "ctl_tick now x s = Inr s1"
    by (cases "ctl_tick now x s") (auto simp: hosted_tick_def bindE_eq_Inr_iff simp del: if_split)
  obtain u where u: "send_pending_origin now s = Inr u"
    using assms by (cases "send_pending_origin now s") (auto simp: hosted_tick_def)
  define linked where "linked = (if \<not> link_acquired_fired s \<and> link_acquired_fired s1 then hk_link_acquired hk now m1 s1 else s1)"
  have "Inr (linked, if ctl s = ENGAGE \<and> ctl s1 = ACTIVE then hk_active_start hk now s1 m1 else m1) = Inr (t, m')"
    using assms x s1 by (cases x) (simp add: hosted_tick_def u Let_def linked_def [symmetric] del: if_split)
  then show thesis by (intro that [OF x s1]) (auto simp: linked_def)
qed

section \<open>A mission that keeps its invariant\<close>

text \<open>
  The contract of a mission: in its invariant, which the controller's settings cannot break, it answers with a
  position setpoint or, unless the node flies by goto setpoints, a mixed one, at most asks to land, and its hooks keep
  the invariant.
\<close>

locale hosted_mission =
  fixes hk :: "'m hooks"
    and inv :: "controller \<Rightarrow> 'm \<Rightarrow> bool"
  assumes compute: "inv s m \<Longrightarrow> okE (\<lambda>(ans, m'). plain_answer s ans \<and> inv s m') (hk_compute hk now s m)"
    and link: "hk_link_acquired hk now m s = s \<or> (\<exists>o1. hk_link_acquired hk now m s = set_global_origin now o1 s)"
    and start: "inv s m \<Longrightarrow> inv s (hk_active_start hk now t m)"
    and home: "inv s m \<Longrightarrow> okE (\<lambda>(calls, m'). set calls \<subseteq> {CallLand} \<and> inv (end_cb True s) m') (hk_return_home hk now m)"
    and reset: "inv s m \<Longrightarrow> inv s (hk_frame_reset hk d dh m)"
    and settings: "inv s m \<Longrightarrow> same_settings s t \<Longrightarrow> inv t m"
begin

lemma tick_hosted:
  assumes inv: "inv s m"
  shows "case hosted_tick hk now (s, m) of Inl e \<Rightarrow> base_error e | Inr (t, m') \<Rightarrow> inv t m'"
proof (cases "send_pending_origin now s")
  case (Inl e)
  then show ?thesis using origin_cases [where now = now and s = s] by (simp add: hosted_tick_def)
next
  case (Inr u)
  have "okE (\<lambda>(ans, m1). plain_answer s ans \<and> inv s m1) (if asks_mission s then hk_compute hk now s m else Inr (([], None), m))"
    using compute [OF inv, of now] inv by (simp add: plain_answer_def)
  then obtain ans m1 where a: "(if asks_mission s then hk_compute hk now s m else Inr (([], None), m)) = Inr (ans, m1)"
    "plain_answer s ans" "inv s m1"
    unfolding okE_iff by auto
  have f: "fine s (ctl_tick now ans s)" by (rule tick_fine [OF a(2)])
  show ?thesis
  proof (cases "ctl_tick now ans s")
    case (Inl e)
    then show ?thesis using f by (simp add: hosted_tick_def Inr a(1))
  next
    case tick: (Inr t)
    have t: "inv (if b then hk_link_acquired hk now m1 t else t) m1" for b
      using settings [OF a(3)] f link [of now m1 t] by (auto simp: tick)
    then show ?thesis
      using start [OF t] by (simp add: hosted_tick_def Inr a(1) tick Let_def)
  qed
qed

lemma end_hosted:
  assumes inv: "inv s m"
  shows "case hosted_end hk now data (s, m) of Inl e \<Rightarrow> base_error e | Inr (t, m') \<Rightarrow> inv t m'"
proof (cases "data \<and> \<not> home_requested s")
  case True
  obtain calls m1 where h: "hk_return_home hk now m = Inr (calls, m1)" "set calls \<subseteq> {CallLand}" "inv (end_cb True s) m1"
    using home [OF inv, of now] unfolding okE_iff by auto
  then have "inv (mission_calls calls (end_cb True s)) m1"
    using settings [OF h(3) settings_kept(8)] by (simp add: land_calls)
  then show ?thesis using True h(1) by (simp add: hosted_end_def)
qed (use inv in \<open>auto simp: hosted_end_def\<close>)

lemma callback_hosted:
  assumes inv: "inv s m"
  shows "case hosted_callback hk e (s, m) of Inl x \<Rightarrow> base_error x | Inr (t, m') \<Rightarrow> inv t m'"
proof -
  have cb: "case bindE (ctl_step s b) (\<lambda>s1. Inr (s1, m)) of Inl x \<Rightarrow> base_error x | Inr (t, m') \<Rightarrow> inv t m'" if "is_callback b" for b
    using callback_returns [OF that, of s] settings [OF inv] by (auto simp: okE_iff)
  have "inv (pos_cb now msg s) (case frame_reset_delta msg s of None \<Rightarrow> m | Some (d, dh) \<Rightarrow> hk_frame_reset hk d dh m)" for now msg
    using settings [OF reset [OF inv] callback_settings] settings [OF inv callback_settings] by (simp split: option.split)
  then show ?thesis using cb inv by (cases e) (simp_all add: hosted_callback_def)
qed

end

section \<open>A node refines the controller\<close>

text \<open>A mission that, outside \<open>compute_setpoint\<close>, at most asks to land and sets the global origin.\<close>

locale modest_hooks =
  fixes hk :: "'m hooks"
  assumes link: "hk_link_acquired hk now m s = s \<or> (\<exists>o1. hk_link_acquired hk now m s = set_global_origin now o1 s)"
    and home_calls: "hk_return_home hk now m = Inr (calls, m') \<Longrightarrow> set calls \<subseteq> {CallLand}"
begin

lemma tick_refines:
  assumes "hosted_tick hk now (s, m) = Inr (t, m')"
  shows "\<exists>ces. foldE ctl_step s ces = Inr t"
proof -
  obtain x m1 s1 where s1: "ctl_tick now x s = Inr s1"
      and "t = (if \<not> link_acquired_fired s \<and> link_acquired_fired s1 then hk_link_acquired hk now m1 s1 else s1)"
    by (rule hosted_tick_parts [OF assms])
  then consider "t = s1" | o1 where "t = set_global_origin now o1 s1" using link [of now m1 s1] by metis
  then have "foldE ctl_step s [Timer now x] = Inr t \<or> (\<exists>o1. foldE ctl_step s [Timer now x, SetOrigin now o1] = Inr t)"
    by cases (use s1 in \<open>auto simp: ctl_step_def\<close>)
  then show ?thesis by blast
qed

lemma end_refines:
  assumes "hosted_end hk now data (s, m) = Inr (t, m')"
  shows "\<exists>ces. foldE ctl_step s ces = Inr t"
proof (cases "data \<and> \<not> home_requested s")
  case True
  then obtain calls where c: "hk_return_home hk now m = Inr (calls, m')" "t = mission_calls calls (end_cb data s)"
    using assms by (auto simp: hosted_end_def)
  have "mission_calls calls (end_cb data s) = (if calls = [] then end_cb data s else request_land (end_cb data s))"
    by (rule land_calls [OF home_calls [OF c(1)]])
  then have "foldE ctl_step s (if calls = [] then [EndGate data] else [EndGate data, RequestLand]) = Inr t"
    by (simp add: c(2) ctl_step_def)
  then show ?thesis by blast
next
  case False
  then have "foldE ctl_step s [] = Inr t" using assms by (auto simp: hosted_end_def)
  then show ?thesis by blast
qed

lemma callback_refines:
  assumes "hosted_callback hk e (s, m) = Inr (t, m')"
  shows "\<exists>ces. foldE ctl_step s ces = Inr t"
proof -
  have "foldE ctl_step s [e] = Inr t \<or> foldE ctl_step s [] = Inr t"
    using assms by (cases e) (auto simp: hosted_callback_def ctl_step_def)
  then show ?thesis by blast
qed

end

section \<open>What a mission leaves alone\<close>

text \<open>A part of the mission's state that none of its hooks writes is untouched by everything the controller calls.\<close>

locale untouched_view =
  fixes hk :: "'m hooks"
    and view :: "'m \<Rightarrow> 'a"
  assumes compute_view: "hk_compute hk now s m = Inr (ans, m') \<Longrightarrow> view m' = view m"
    and start_view: "view (hk_active_start hk now s m) = view m"
    and home_view: "hk_return_home hk now m = Inr (calls, m') \<Longrightarrow> view m' = view m"
    and reset_view: "view (hk_frame_reset hk d dh m) = view m"
begin

lemma tick_view:
  assumes "hosted_tick hk now (s, m) = Inr (t, m')"
  shows "view m' = view m"
proof -
  obtain x m1 s1 where 1: "(if asks_mission s then hk_compute hk now s m else Inr (([], None), m)) = Inr (x, m1)"
      and 2: "m' = (if ctl s = ENGAGE \<and> ctl s1 = ACTIVE then hk_active_start hk now s1 m1 else m1)"
    by (rule hosted_tick_parts [OF assms]) (rule that)
  have "view m1 = view m" using 1 compute_view by (auto split: if_splits)
  then show ?thesis using 2 start_view by simp
qed

lemma end_view: "hosted_end hk now data (s, m) = Inr (t, m') \<Longrightarrow> view m' = view m"
  by (cases "data \<and> \<not> home_requested s") (auto simp: hosted_end_def dest: home_view)

lemma callback_view: "hosted_callback hk e (s, m) = Inr (t, m') \<Longrightarrow> view m' = view m"
  by (cases e) (auto simp: hosted_callback_def reset_view split: option.splits)

end

end
