(* ===== verification/Phased_Properties.thy ===== *)
theory Phased_Properties
  imports Phased_Frames Mission_Node_Properties Orbit_Properties Deconflict_Properties
begin

text \<open>
  What the phased-orbits mission guarantees: a well-formed node never raises in flight, stays in its altitude
  band and orbits only from its centre; it refines the controller; the guard's offset is bounded; and
  the seams between staging, orbit, peel-off and return are continuous. The parameters the node does
  not check itself are collected in \<open>flyable\<close>.
\<close>

section \<open>What a tick returns\<close>

text \<open>
  The parameters the node does not check when it is built, but relies on in flight: message types, a
  modulation entry per drone, a peel order that is a permutation and a yaw mode the flight library knows.
\<close>

definition flyable :: "orbits_params \<Rightarrow> bool" where
  "flyable p \<longleftrightarrow> 0 \<le> op_index p \<and> op_index p < op_count p \<and> op_mod_amp p \<noteq> [] \<and> op_interfaces p
     \<and> op_yaw_mode p \<in> {''inward'', ''tangent'', ''outward'', ''fixed'', ''hold''} \<and> op_speed p \<noteq> 0
     \<and> 0 < op_to_center_time p \<and> 0 \<le> op_max_speed p"

definition order_ok :: "orbits \<Rightarrow> bool" where
  "order_ok m \<longleftrightarrow> sort (order_of (op_count (par m)) (peel_settings m)) = [0..op_count (par m) - 1]"

text \<open>
  How far the commanded phase may run from the schedule. Under a guard whose rate interval is not empty and a
  tracking gain that does not overshoot in the longest tick it integrates (a quarter of a second), the
  offset stays below the largest rate deviation divided by the gain.
\<close>

definition steady :: "orbits_params \<Rightarrow> bool" where
  "steady p \<longleftrightarrow> 0 < op_tracking_gain p \<and> op_tracking_gain p \<le> 4 \<and> 0 < omega p
     \<and> op_min_rate_scale p \<le> op_max_rate_scale p"

definition own_amp :: "orbits_params \<Rightarrow> real" where
  "own_amp p = \<bar>op_mod_amp p ! nat (op_index p)\<bar>"

definition max_offset :: "orbits_params \<Rightarrow> radians" where
  "max_offset p = omega p * max (op_max_rate_scale p - 1 + own_amp p) (1 + own_amp p - op_min_rate_scale p) / op_tracking_gain p"

definition offset_ok :: "orbits_params \<Rightarrow> radians \<Rightarrow> bool" where
  "offset_ok p x \<longleftrightarrow> (steady p \<longrightarrow> \<bar>x\<bar> \<le> max_offset p)"

lemma max_offset_nonneg: "steady p \<Longrightarrow> 0 \<le> max_offset p"
  by (auto simp: steady_def max_offset_def own_amp_def max_def divide_nonneg_pos mult_nonneg_nonneg)

lemma next_offset_bounded:
  assumes st: "steady p" and o: "\<bar>x\<bar> \<le> max_offset p" and r: "\<bar>rate - nominal\<bar> \<le> max_offset p * op_tracking_gain p"
  shows "\<bar>next_offset p x dt rate nominal sol\<bar> \<le> max_offset p"
proof -
  define k B where "k = op_tracking_gain p" and "B = max_offset p"
  have k: "0 < k" "k \<le> 4" using st by (simp_all add: steady_def k_def)
  have B: "0 \<le> B" using max_offset_nonneg [OF st] by (simp add: B_def)
  have "\<bar>x + (rate - nominal - k * x) * dt\<bar> \<le> B" if dt: "0 < dt" "dt \<le> 1 / 4"
  proof -
    have kd: "0 \<le> 1 - k * dt" using mult_mono [of k 4 dt "1 / 4"] k dt by simp
    have "x + (rate - nominal - k * x) * dt = (1 - k * dt) * x + (rate - nominal) * dt" by (simp add: algebra_simps)
    then have "\<bar>x + (rate - nominal - k * x) * dt\<bar> \<le> \<bar>(1 - k * dt) * x\<bar> + \<bar>(rate - nominal) * dt\<bar>" by simp
    also have "\<dots> = (1 - k * dt) * \<bar>x\<bar> + \<bar>rate - nominal\<bar> * dt" using kd dt by (simp add: abs_mult)
    also have "\<dots> \<le> (1 - k * dt) * B + (B * k) * dt"
    proof (rule add_mono)
      show "(1 - k * dt) * \<bar>x\<bar> \<le> (1 - k * dt) * B" using o kd by (intro mult_left_mono) (simp_all add: B_def)
      show "\<bar>rate - nominal\<bar> * dt \<le> (B * k) * dt" using r dt by (intro mult_right_mono) (simp_all add: B_def k_def)
    qed
    finally show ?thesis by (simp add: algebra_simps)
  qed
  then show ?thesis using B o by (auto simp: next_offset_def Let_def B_def k_def)
qed

text \<open>What a well-formed node keeps.\<close>

definition orbits_inv :: "orbits_params \<Rightarrow> orbits \<Rightarrow> bool" where
  "orbits_inv p m \<longleftrightarrow> par m = p \<and> flyable p \<and> order_ok m \<and> op_radius p \<noteq> 0
     \<and> (case phase_list m of None \<Rightarrow> True | Some xs \<Rightarrow> int (length xs) = op_count p)
     \<and> op_count p \<le> int (length (op_mod_amp p)) \<and> op_count p \<le> int (length (op_mod_phase_deg p))
     \<and> (climbed m \<longrightarrow> last_nominal m \<noteq> None) \<and> (home_us m \<noteq> 0 \<longrightarrow> home_from m \<noteq> None)
     \<and> offset_ok p (phase_offset m)"

lemma orbits_invD: "orbits_inv p m \<Longrightarrow> par m = p" "orbits_inv p m \<Longrightarrow> flyable p" "orbits_inv p m \<Longrightarrow> order_ok m"
  by (simp_all add: orbits_inv_def)

text \<open>What a tick leaves alone.\<close>

definition same_mission :: "orbits \<Rightarrow> orbits \<Rightarrow> bool" where
  "same_mission m m' \<longleftrightarrow> par m' = par m \<and> phase_list m' = phase_list m \<and> order_list m' = order_list m
     \<and> home_us m' = home_us m \<and> home_from m' = home_from m \<and> orbit_gate_us m' = orbit_gate_us m
     \<and> orbit_duration m' = orbit_duration m \<and> (center_logged m \<longrightarrow> center_logged m') \<and> (climbed m \<longrightarrow> climbed m')
     \<and> (offset_ok (par m) (phase_offset m) \<longrightarrow> offset_ok (par m) (phase_offset m'))"

lemma same_mission_refl [simp]: "same_mission m m"
  by (simp add: same_mission_def)

lemma same_mission_trans: "same_mission a b \<Longrightarrow> same_mission b c \<Longrightarrow> same_mission a c"
  by (simp add: same_mission_def)

lemma orbits_inv_same:
  assumes "orbits_inv p m" "same_mission m m'"
    and "last_nominal m' \<noteq> None \<or> climbed m' = climbed m \<and> last_nominal m' = last_nominal m"
  shows "orbits_inv p m'"
  using assms by (auto simp: orbits_inv_def same_mission_def order_ok_def peel_settings_def order_of_def)

lemma np_item_in: "0 \<le> i \<Longrightarrow> i < int (length xs) \<Longrightarrow> np_item xs i = Inr (xs ! nat i)"
  by (simp add: np_item_def)

lemma scheduled_returns:
  assumes "orbits_inv p m"
  shows "\<exists>w. scheduled_phase (op_index p) t m = Inr w" "\<exists>r. scheduled_rate (op_index p) t m = Inr r"
  using assms
  by (auto simp: scheduled_phase_def scheduled_rate_def orbits_inv_def flyable_def np_item_in split: option.split)

text \<open>Commanded altitudes lie between the take-off altitude and the top of the excitation bob.\<close>

definition in_band :: "orbits_params \<Rightarrow> controller \<Rightarrow> vec3 \<times> radians \<Rightarrow> bool" where
  "in_band p s sp \<longleftrightarrow> altitude_up s + min 0 (op_excite_amp p) \<le> snd (snd (fst sp))
     \<and> snd (snd (fst sp)) \<le> altitude_up s + max 0 (op_excite_amp p)"

lemma guard_rate_within:
  assumes "phase_guard_rate own radial desired ps vs kw = Inr g" "min_rate kw \<le> max_rate kw"
  shows "min_rate kw \<le> guard_rate g \<and> guard_rate g \<le> max_rate kw"
proof (cases "feasible g")
  case True
  then show ?thesis using phase_guard_rate_allowed [OF assms(1)] by (simp add: allowed_rate_def)
next
  case False
  then show ?thesis
    using np_clip_range [OF assms(2), of desired] by (rule_tac guard_parts [OF assms(1)]) (auto split: if_splits)
qed

lemma guard_rate_deviation:
  assumes inv: "orbits_inv p m" and st: "steady p"
    and r: "scheduled_rate (op_index p) t m = Inr nominal" and sol: "guard_solve now s m nominal = Inr sol"
  shows "\<bar>(case sol of None \<Rightarrow> nominal | Some g \<Rightarrow> guard_rate g) - nominal\<bar> \<le> max_offset p * op_tracking_gain p"
proof -
  define amp where "amp = op_mod_amp p ! nat (op_index p)"
  define w where "w = omega p"
  have w: "0 < w" and k: "0 < op_tracking_gain p" and lim: "op_min_rate_scale p \<le> op_max_rate_scale p"
    using st by (simp_all add: steady_def w_def)
  obtain c where c: "nominal = w * (1 + amp * cos c)"
    using r inv by (auto simp: scheduled_rate_def orbits_inv_def flyable_def np_item_in amp_def w_def)
  have a: "\<bar>amp * cos c\<bar> \<le> own_amp p"
    using mult_left_le [of "\<bar>cos c\<bar>" "\<bar>amp\<bar>"] abs_cos_le_one [of c] by (simp add: abs_mult own_amp_def amp_def)
  have e: "max_offset p * op_tracking_gain p = w * max (op_max_rate_scale p - 1 + own_amp p) (1 + own_amp p - op_min_rate_scale p)"
    using k by (simp add: max_offset_def w_def)
  have dev: "\<bar>w * x - nominal\<bar> \<le> max_offset p * op_tracking_gain p"
    if x: "op_min_rate_scale p \<le> x" "x \<le> op_max_rate_scale p" for x
  proof -
    have "\<bar>x - (1 + amp * cos c)\<bar> \<le> max (op_max_rate_scale p - 1 + own_amp p) (1 + own_amp p - op_min_rate_scale p)"
      using x a by (auto simp: abs_le_iff max_def)
    then have "w * \<bar>x - (1 + amp * cos c)\<bar> \<le> max_offset p * op_tracking_gain p"
      using w by (simp add: e mult_left_mono)
    moreover have "\<bar>w * x - nominal\<bar> = w * \<bar>x - (1 + amp * cos c)\<bar>"
      using w by (simp add: c abs_mult right_diff_distrib [symmetric])
    ultimately show ?thesis by simp
  qed
  show ?thesis
  proof (cases sol)
    case None
    have "0 \<le> max_offset p * op_tracking_gain p" using max_offset_nonneg [OF st] k by simp
    then show ?thesis by (simp add: None)
  next
    case (Some g)
    have "phase_guard_rate (world_xy s m) (sub2 (world_xy s m) (add2 (anchor_world_xy s m) (op_center p))) nominal
        (map pr_position (guard_peers now m)) (map pr_velocity (guard_peers now m)) (guard_settings p) = Inr g"
      using sol orbits_invD(1) [OF inv] by (auto simp: Some guard_solve_def Let_def split: if_splits)
    then have "min_rate (guard_settings p) \<le> guard_rate g \<and> guard_rate g \<le> max_rate (guard_settings p)"
      using w lim by (intro guard_rate_within) (simp_all add: guard_settings_def w_def)
    then have "op_min_rate_scale p \<le> guard_rate g / w" "guard_rate g / w \<le> op_max_rate_scale p"
      using w by (simp_all add: guard_settings_def w_def field_simps)
    from dev [OF this] w show ?thesis by (simp add: Some)
  qed
qed

lemma guard_returns:
  assumes inv: "orbits_inv p m"
  shows "okE (\<lambda>(sp, m'). same_mission m m' \<and> in_band (par m) s sp) (phase_guard_setpoint now s m t)"
proof -
  obtain w r where w: "scheduled_phase (op_index p) t m = Inr w" "scheduled_rate (op_index p) t m = Inr r"
    using scheduled_returns [OF assms] by blast
  have "\<exists>sol. guard_solve now s m r = Inr sol"
    by (auto simp: guard_solve_def phase_guard_rate_def Let_def split: prod.split)
  then obtain sol where sol: "guard_solve now s m r = Inr sol" by blast
  have "offset_ok p (phase_offset (guard_command now w r sol m))"
    using guard_rate_deviation [OF inv _ w(2) sol] inv max_offset_nonneg [of p]
    by (auto simp: offset_ok_def guard_command_def orbits_inv_def Let_def intro!: next_offset_bounded)
  then have "same_mission m (publish_decision d (guard_command now w r sol m))" for d
    using orbits_invD(1) [OF inv] by (simp add: same_mission_def guard_command_def publish_decision_def Let_def)
  then show ?thesis
    using assms w sol by (simp add: phase_guard_setpoint_def orbits_inv_def flyable_def Let_def around_def in_band_def)
qed

lemma hold_up [simp]: "snd (snd (fst (hold_at e n y s m))) = altitude_up s"
  by (simp add: hold_at_def)

lemma hold_in_band [simp]: "in_band p s (hold_at e n y s m)"
  by (simp add: in_band_def hold_at_def)

lemma reanchor_same [simp]: "same_mission m (reanchor a m)"
  by (simp add: same_mission_def reanchor_def)

lemmas same_mission_simps = same_mission_def reanchor_def Let_def

lemma climb_returns: "(\<lambda>(sp, m'). same_mission m m' \<and> in_band p s sp) (climb_setpoint now s m)"
  by (simp add: climb_setpoint_def same_mission_simps)

lemma follow_returns: "(\<lambda>(sp, m'). same_mission m m' \<and> in_band p s sp) (trim_follow now y s m)"
  by (simp add: trim_follow_def same_mission_simps split: option.split)

lemma trim_returns: "(\<lambda>(sp, m'). same_mission m m' \<and> in_band p s sp) (line_trim_setpoint now y s m)"
proof -
  have "(\<lambda>(sp, m'). same_mission m m' \<and> in_band p s sp) (trim_follow now y s m1)" if "same_mission m m1" for m1
    using follow_returns [of m1 p s now y] that same_mission_trans by (auto split: prod.splits)
  then show ?thesis
    by (simp add: line_trim_setpoint_def Let_def) (simp add: same_mission_def)
qed

lemma staging_returns:
  assumes "0 < op_to_center_time (par m)"
  shows "okE (\<lambda>(sp, m'). same_mission m m' \<and> in_band p s sp) (staging_setpoint now y s m)"
proof -
  have "max (op_to_center_time (par m)) x \<noteq> 0" for x using assms by (simp add: max_def)
  then show ?thesis
    using trim_returns [of m p s now y] by (simp add: staging_setpoint_def Let_def) (simp add: same_mission_def reanchor_def)
qed

lemma ready_returns: "(\<lambda>(sp, m'). same_mission m m' \<and> in_band p s sp) (ready_setpoint now s m)"
  by (simp add: ready_setpoint_def same_mission_simps)

lemma bob_in_band: "min 0 a \<le> 1 / 2 * a * (1 - cos x) \<and> 1 / 2 * a * (1 - cos x) \<le> max 0 (a::real)"
proof -
  have c: "0 \<le> (1 - cos x) / 2" "(1 - cos x) / 2 \<le> 1" using cos_le_one [of x] cos_ge_minus_one [of x] by simp_all
  have e: "1 / 2 * a * (1 - cos x) = a * ((1 - cos x) / 2)" by simp
  show ?thesis
    unfolding e using c mult_left_le [of "(1 - cos x) / 2" a] mult_left_le [of "(1 - cos x) / 2" "- a"]
    by (cases "0 \<le> a") (auto simp: min_def max_def mult_nonneg_nonneg mult_nonpos_nonneg)
qed

lemma excitation_returns: "(\<lambda>(sp, m'). same_mission m m' \<and> in_band (par m) s sp) (excitation_setpoint now s m)"
proof -
  have "(\<lambda>(sp, m'). same_mission m m' \<and> in_band (par m) s sp) (ready_setpoint now s m1)" if "same_mission m m1" for m1
    using ready_returns [of m1 "par m" s now] that same_mission_trans by (auto split: prod.splits)
  moreover have "same_mission m (m\<lparr>pre_excite_hover_us := a\<rparr>)" "same_mission m (m\<lparr>excite_us := b\<rparr>)"
    "same_mission m (m\<lparr>pre_excite_hover_us := a, excite_us := b\<rparr>)" "same_mission m (m\<lparr>excited := c\<rparr>)"
    "same_mission m (m\<lparr>excite_us := b, excited := c\<rparr>)" "same_mission m (m\<lparr>pre_excite_hover_us := a, excited := c\<rparr>)"
    "same_mission m (m\<lparr>pre_excite_hover_us := a, excite_us := b, excited := c\<rparr>)" for a b c
    by (simp_all add: same_mission_def)
  ultimately show ?thesis
    using bob_in_band by (simp add: excitation_setpoint_def Let_def in_band_def)
qed

lemma pre_orbit_returns:
  assumes "0 < op_to_center_time (par m)"
  shows "okE (\<lambda>(sp, m'). same_mission m m' \<and> in_band (par m) s sp) (pre_orbit_setpoint now s m)"
proof -
  have "same_mission m (m\<lparr>pre_excite_hover_us := a\<rparr>)" for a by (simp add: same_mission_def)
  then have "(\<lambda>(sp, m'). same_mission m m' \<and> in_band (par m) s sp) (ready_setpoint now s (m\<lparr>pre_excite_hover_us := a\<rparr>))" for a
    using ready_returns [of "m\<lparr>pre_excite_hover_us := a\<rparr>" "par m" s now] same_mission_trans by (auto split: prod.splits)
  then show ?thesis
    using climb_returns [of m "par m" s now] staging_returns [OF assms, of "par m" s now] excitation_returns [of m s now]
      ready_returns [of m "par m" s now]
    by (simp add: pre_orbit_setpoint_def)
qed

lemma mission_altitude [simp]: "altitude (mission_orbit_kw s m) = altitude_up s"
  by (simp add: mission_orbit_kw_def)

lemma valid_yaw_mode:
  "flyable (par m) \<Longrightarrow> \<exists>y. yaw_for theta (yaw_mode (mission_orbit_kw s m)) f = Inr y"
  by (intro yaw_for_valid) (auto simp: flyable_def mission_orbit_kw_def)

text \<open>The phase the flight library uses for this drone.\<close>

lemma own_phase:
  assumes "orbits_inv p m"
  obtains phi where "drone_phase (op_index p) (op_count p) (mission_orbit_kw s m) = Inr phi"
  using assms
  by (cases "phase_list m") (auto simp: drone_phase_def phased_orbit_phases_def orbits_inv_def flyable_def mission_orbit_kw_def
      okE_iff [symmetric])

lemma insertion_returns:
  assumes inv: "orbits_inv p m"
  shows "okE (\<lambda>sp. in_band p s sp) (phased_orbit_insertion u (op_index p) (op_count p) r spin (mission_orbit_kw s m))"
proof -
  obtain phi where phi: "drone_phase (op_index p) (op_count p) (mission_orbit_kw s m) = Inr phi"
    using own_phase [OF inv] .
  obtain y where "yaw_for (phi - spin * (1 - np_clip u 0 1)) (yaw_mode (mission_orbit_kw s m)) (fixed_yaw (mission_orbit_kw s m)) = Inr y"
    using valid_yaw_mode [of m] orbits_invD(1,2) [OF inv] by blast
  then show ?thesis
    by (simp add: phased_orbit_insertion_def phi Let_def with_yaw_def around_def in_band_def)
qed

lemma peel_kw_returns:
  assumes inv: "orbits_inv p m"
  obtains kw where "peel_orbit_kw s m ph = Inr kw" "altitude kw = altitude_up s" "circle_center kw (op_index p) = op_center p"
    "drone_phase (op_index p) (op_count p) kw = Inr ph" "yaw_mode kw = yaw_mode (mission_orbit_kw s m)"
proof (cases "phase_list m")
  case None
  then show ?thesis
    using that [of "(mission_orbit_kw s m)\<lparr>phase0 := ph - radians (op_phase_step_deg p) * of_int (op_index p)\<rparr>"] inv
    by (simp add: peel_orbit_kw_def orbits_inv_def flyable_def mission_orbit_kw_def circle_center_def drone_phase_def
        phased_orbit_phases_def)
next
  case (Some xs)
  then show ?thesis
    using that [of "(mission_orbit_kw s m)\<lparr>phases := Some (map (\<lambda>x. x + (ph - xs ! nat (op_index p))) xs)\<rparr>"] inv
    by (simp add: peel_orbit_kw_def orbits_inv_def flyable_def mission_orbit_kw_def circle_center_def drone_phase_def
        phased_orbit_phases_def np_item_in nat_less_iff)
qed

lemma peel_returns:
  assumes "order_ok m" "flyable (par m)" "drone_phase (op_index (par m)) (op_count (par m)) kw = Inr ph"
    "yaw_mode kw = yaw_mode (mission_orbit_kw s m)" "altitude kw = altitude_up s"
  shows "okE (in_band q s) (phased_orbit_peeloff t (op_index (par m)) (op_count (par m)) r w (peel_settings m) kw)"
proof -
  have y: "\<exists>y. yaw_for theta (yaw_mode kw) (fixed_yaw kw) = Inr y" for theta
    using valid_yaw_mode [OF assms(2)] by (simp add: assms(4))
  then have "okE (in_band q s) (with_yaw (around c a theta (altitude kw)) (yaw_for theta (yaw_mode kw) (fixed_yaw kw)))" for c a theta
  proof -
    obtain y where "yaw_for theta (yaw_mode kw) (fixed_yaw kw) = Inr y" using y by blast
    then show ?thesis using assms(5) by (simp add: with_yaw_def around_def in_band_def)
  qed
  then show ?thesis using assms by (simp add: phased_orbit_peeloff_def Let_def order_ok_def flyable_def)
qed

lemma home_returns:
  assumes "in_band (par m) s (from, y)"
  shows "(\<lambda>(calls, sp, m'). same_mission m m' \<and> in_band (par m) s sp) (home_setpoint now from y' t s m)"
proof -
  define z a lo hi where "z = snd (snd from)" and "a = altitude_up s" and "lo = altitude_up s + min 0 (op_excite_amp (par m))"
    and "hi = altitude_up s + max 0 (op_excite_amp (par m))"
  have z: "lo \<le> z" "z \<le> hi" "lo \<le> a" "a \<le> hi" using assms by (auto simp: in_band_def z_def a_def lo_def hi_def)
  have "0 \<le> smoothstep (home_progress t m) \<and> smoothstep (home_progress t m) \<le> 1"
    by (rule smoothstep_range) (auto simp: home_progress_def max_def)
  then have k: "lo \<le> z + (a - z) * k \<and> z + (a - z) * k \<le> hi" if "k = smoothstep (home_progress t m)" for k
    using that z convex_bound_le [of z hi a "1 - k" k] convex_bound_le [of "- z" "- lo" "- a" "1 - k" k]
    by (simp add: algebra_simps)
  have "in_band (par m) s (home_blend from (smoothstep (home_progress t m)) s m, y')"
    using k [OF refl] by (simp add: in_band_def home_blend_def z_def a_def lo_def hi_def)
  then show ?thesis by (simp add: home_setpoint_def Let_def) (simp add: same_mission_def)
qed

lemma return_returns:
  assumes inv: "orbits_inv p m"
  shows "okE (\<lambda>(calls, sp, m'). same_mission m m' \<and> in_band p s sp) (return_setpoint now rt d s m)"
proof -
  note D = orbits_invD [OF inv]
  obtain ph where ph: "peel_phase_of m d = Inr ph"
    using scheduled_returns(1) [OF inv] D(1) by (cases "peel_phase m"; cases "phase_cmd m") (auto simp: peel_phase_of_def)
  define m1 where "m1 = m\<lparr>avoidance_mode := MODE_NOMINAL, peel_phase := Some ph\<rparr>"
  have s1: "same_mission m m1" by (simp add: m1_def same_mission_def)
  have inv1: "orbits_inv p m1" by (rule orbits_inv_same [OF inv s1]) (simp add: m1_def)
  note D1 = orbits_invD [OF inv1]
  obtain kw where kw: "peel_orbit_kw s m1 ph = Inr kw" "altitude kw = altitude_up s" "circle_center kw (op_index p) = op_center p"
    "drone_phase (op_index p) (op_count p) kw = Inr ph" "yaw_mode kw = yaw_mode (mission_orbit_kw s m1)"
    using peel_kw_returns [OF inv1] .
  define peel where "peel t = phased_orbit_peeloff t (op_index p) (op_count p) (op_radius p) (omega p) (peel_settings m1) kw" for t
  have peel: "okE (in_band p s) (peel t)" for t
    unfolding peel_def using peel_returns [of m1 kw ph s p t] D1 kw by simp
  have home: "(\<lambda>(calls, sp, m'). same_mission m m' \<and> in_band p s sp) (home_setpoint now (e, n, altitude_up s) y t s m1)" for e n y t
    using home_returns [of m1 s "(e, n, altitude_up s)" y now y t] same_mission_trans [OF s1] D1(1)
    by (auto simp: in_band_def split: prod.splits)
  have "return_setpoint now rt d s m =
      (if rt < return_duration m1 then bindE (peel rt) (\<lambda>sp. Inr ([], sp, m1))
       else bindE (peel (return_duration m1)) (\<lambda>(_, y). Inr (home_setpoint now (fst (op_center p), snd (op_center p), altitude_up s) y
                       (rt - return_duration m1) s m1)))"
    using kw(1) D1(1) by (simp add: return_setpoint_def ph m1_def [symmetric] peel_def Let_def)
  moreover obtain sp1 sp2 where "peel rt = Inr sp1" "in_band p s sp1" "peel (return_duration m1) = Inr sp2" "in_band p s sp2"
    using peel [of rt] peel [of "return_duration m1"] unfolding okE_iff by blast
  ultimately show ?thesis using s1 home by (simp add: split_def)
qed

text \<open>A tick returns, keeps the mission's state in order and stays within the altitude band.\<close>

definition home_in_band :: "orbits_params \<Rightarrow> controller \<Rightarrow> orbits \<Rightarrow> bool" where
  "home_in_band p s m \<longleftrightarrow> (case home_from m of None \<Rightarrow> True | Some sp \<Rightarrow> in_band p s sp)
     \<and> (case last_nominal m of None \<Rightarrow> True | Some sp \<Rightarrow> in_band p s sp)"

lemma nominal_returns:
  assumes inv: "orbits_inv p m" and band: "home_in_band p s m"
  shows "okE (\<lambda>(calls, sp, m'). same_mission m m' \<and> in_band p s sp) (nominal_setpoint now s m)"
proof (cases "home_us m = 0")
  case False
  then obtain start y where h: "home_from m = Some (start, y)" using inv by (auto simp: orbits_inv_def)
  then have "in_band p s (start, y)" using band by (simp add: home_in_band_def)
  with home_returns [of m s start y now y "secs (now - home_us m)"] False h orbits_invD(1) [OF inv] show ?thesis
    by (simp add: nominal_setpoint_def)
next
  case home: True
  note D = orbits_invD [OF inv]
  show ?thesis
  proof (cases "orbit_gate_us m = 0")
    case True
    have "0 < op_to_center_time (par m)" using D(1,2) by (simp add: flyable_def)
    from pre_orbit_returns [OF this, of s now] home True D(1) show ?thesis
      by (simp add: nominal_setpoint_def split_def)
  next
    case gate: False
    show ?thesis
    proof (cases "tau now m < op_spiral_time (par m)")
      case True
      then show ?thesis
        using home gate D(1) insertion_returns [OF inv, of s] by (simp add: nominal_setpoint_def)
    next
      case False
      then show ?thesis
        using home gate D(1) guard_returns [OF inv, of s now] return_returns [OF inv, of s now]
        by (simp add: nominal_setpoint_def Let_def split_def split: option.split)
    qed
  qed
qed

lemma avoidance_returns:
  assumes "0 \<le> op_max_speed (par m)"
  shows "okE (\<lambda>(v, m'). same_mission m m' \<and> last_nominal m' = last_nominal m) (avoidance_velocity g now s m)"
proof -
  have p: "okE (\<lambda>(v, m'). m' = m\<lparr>last_goal := Some (g, now)\<rparr>) (preferred_velocity g now s m)"
    using assms by (simp add: preferred_velocity_def Let_def)
  have n: "same_mission m (publish_decision de (note_avoidance x (m\<lparr>last_goal := y\<rparr>)))"
    "last_nominal (publish_decision de (note_avoidance x (m\<lparr>last_goal := y\<rparr>))) = last_nominal m" for de x y
    by (simp_all add: same_mission_def publish_decision_def note_avoidance_def Let_def)
  from p show ?thesis
    by (auto simp: avoidance_velocity_def okE_iff Let_def n split: prod.split)
qed

lemma nominal_calls:
  assumes "nominal_setpoint now s m = Inr (calls, sp, m')"
  shows "set calls \<subseteq> {CallLand}"
proof -
  have h: "set (fst (home_setpoint now start y t s m)) \<subseteq> {CallLand}" for start y t m
    by (simp add: home_setpoint_def Let_def)
  have r: "set calls \<subseteq> {CallLand}" if "return_setpoint now rt d s m = Inr (calls, sp, m')" for rt d
    using that by (auto simp: return_setpoint_def Let_def split_def split: if_splits)
      (metis fst_conv h insertE singletonD subsetD)+
  show ?thesis
    using assms h [of _ _ _ m]
    by (auto simp: nominal_setpoint_def Let_def split_def split: if_splits option.splits dest!: r)
      (metis fst_conv singletonD subsetD)+
qed

text \<open>The answers the controller gets: four coordinates, or seven with a free horizontal position.\<close>

definition answer_ok :: "orbits_params \<Rightarrow> controller \<Rightarrow> mission_answer \<Rightarrow> bool" where
  "answer_ok p s ans \<longleftrightarrow> set (fst ans) \<subseteq> {CallLand}
     \<and> (\<exists>x y z w rest. snd ans = Some (x # y # Some z # w # rest) \<and> length rest \<in> {0, 3}
          \<and> altitude_up s + min 0 (op_excite_amp p) \<le> - z \<and> - z \<le> altitude_up s + max 0 (op_excite_amp p))"

lemma compute_returns:
  assumes inv: "orbits_inv p m" and band: "home_in_band p s m"
  shows "okE (\<lambda>(ans, m'). orbits_inv p m' \<and> home_in_band p s m' \<and> answer_ok p s ans \<and> same_mission m m')
    (compute_setpoint now s m)"
proof -
  define m0 where "m0 = publish_world_state now s m"
  have s0: "same_mission m m0" "last_nominal m0 = last_nominal m" "home_from m0 = home_from m" "climbed m0 = climbed m"
    by (simp_all add: m0_def publish_world_state_def same_mission_def)
  have inv0: "orbits_inv p m0" using orbits_inv_same [OF inv s0(1)] s0 by simp
  have "home_in_band p s m0" using band s0 by (simp add: home_in_band_def)
  from nominal_returns [OF inv0 this, of now] obtain calls sp m1
    where n: "nominal_setpoint now s m0 = Inr (calls, sp, m1)" "same_mission m0 m1" "in_band p s sp"
    unfolding okE_iff by auto
  define m2 where "m2 = m1\<lparr>last_nominal := Some sp\<rparr>"
  have s2: "same_mission m m2"
    using same_mission_trans [OF s0(1) n(2)] by (simp add: m2_def same_mission_def)
  have inv2: "orbits_inv p m2" by (rule orbits_inv_same [OF inv s2]) (simp add: m2_def)
  have b2: "home_in_band p s m2"
    using band n(3) s2 by (simp add: home_in_band_def same_mission_def m2_def)
  have up: "snd (snd (in_anchor_frame m2 (fst sp))) = snd (snd (fst sp))" by (simp add: in_anchor_frame_def)
  have "okE (\<lambda>(v, m'). same_mission m2 m' \<and> last_nominal m' = last_nominal m2) (avoidance_velocity g now s m2)" for g
    using avoidance_returns [of m2] orbits_invD(1,2) [OF inv2] by (simp add: flyable_def)
  then obtain safe m3 where v: "avoidance_velocity (fst (in_anchor_frame m2 (fst sp)), fst (snd (in_anchor_frame m2 (fst sp)))) now s m2
      = Inr (safe, m3)" "same_mission m2 m3" "last_nominal m3 = last_nominal m2"
    unfolding okE_iff by fast
  have "orbits_inv p m3 \<and> home_in_band p s m3 \<and> same_mission m m3"
    using v b2 orbits_inv_same [OF inv2 v(2)] same_mission_trans [OF s2 v(2)]
    by (simp add: home_in_band_def same_mission_def m2_def)
  then show ?thesis
    using n(3) inv2 b2 s2 nominal_calls [OF n(1)]
    by (simp add: compute_setpoint_def m0_def [symmetric] n(1) m2_def [symmetric] Let_def v(1) answer_ok_def
        enu_to_ned_setpoint_def up in_band_def)
qed

section \<open>The node\<close>

text \<open>
  The invariant of a node: well-formed, in the altitude band, and with an orbit clock that was started at the
  centre (or at once, when the parameters say so).
\<close>

definition node_inv :: "orbits_params \<Rightarrow> metres \<Rightarrow> bool \<Rightarrow> node \<Rightarrow> bool" where
  "node_inv p alt late n \<longleftrightarrow> orbits_inv p (snd n) \<and> home_in_band p (fst n) (snd n) \<and> \<not> goto_active (fst n)
     \<and> altitude_up (fst n) = alt \<and> (orbit_gate_us (snd n) \<noteq> 0 \<longrightarrow> center_logged (snd n) \<or> op_auto_start p)
     \<and> (late \<longrightarrow> home_requested (fst n) \<and> orbit_gate_us (snd n) = 0 \<and> \<not> op_auto_start p)"

lemma in_band_settings: "same_settings s t \<Longrightarrow> in_band p t sp = in_band p s sp"
  by (simp add: in_band_def same_settings_def altitude_up_def)

lemma node_inv_settings: "node_inv p alt late (s, m) \<Longrightarrow> same_settings s t \<Longrightarrow> node_inv p alt late (t, m)"
  by (simp add: node_inv_def home_in_band_def in_band_settings cong: option.case_cong)
    (simp add: same_settings_def altitude_up_def)

text \<open>Changes of the mission's state between ticks.\<close>

lemma node_inv_mission:
  assumes "node_inv p alt late (s, m)" "same_mission m m'" "last_nominal m' = last_nominal m" "climbed m' = climbed m"
  shows "node_inv p alt late (s, m')"
  using assms orbits_inv_same [of p m m']
  by (auto simp: node_inv_def home_in_band_def same_mission_def)

lemma reset_same: "same_mission m (on_local_frame_reset d m)" "last_nominal (on_local_frame_reset d m) = last_nominal m"
  "climbed (on_local_frame_reset d m) = climbed m"
  by (simp_all add: on_local_frame_reset_def same_mission_def Let_def)

lemma report_same: "same_mission m (peer_state_cb now k r m)" "last_nominal (peer_state_cb now k r m) = last_nominal m"
  "climbed (peer_state_cb now k r m) = climbed m"
  "same_mission m (relative_state_cb now k rr m)" "last_nominal (relative_state_cb now k rr m) = last_nominal m"
  "climbed (relative_state_cb now k rr m) = climbed m"
  by (simp_all add: peer_state_cb_def relative_state_cb_def same_mission_def)

lemma home_step:
  assumes inv: "node_inv p alt late (s, m)"
  shows "okE (\<lambda>(calls, m'). set calls \<subseteq> {CallLand} \<and> node_inv p alt late (s, m')) (on_return_home now m)"
proof -
  have p: "omega (par m) \<noteq> 0" and climbed: "climbed m \<Longrightarrow> \<exists>x. last_nominal m = Some x"
    using inv by (auto simp: node_inv_def orbits_inv_def flyable_def omega_def)
  have "node_inv p alt late (s, m\<lparr>orbit_duration := x\<rparr>)" for x
    using inv by (auto simp: node_inv_def orbits_inv_def order_ok_def peel_settings_def home_in_band_def)
  moreover have "node_inv p alt late (s, m\<lparr>excited := b, home_from := Some x, home_us := t\<rparr>)" if "last_nominal m = Some x" for b x t
    using inv that by (auto simp: node_inv_def orbits_inv_def order_ok_def peel_settings_def home_in_band_def)
  ultimately show ?thesis
    using inv p climbed by (auto simp: on_return_home_def Let_def)
qed

lemma active_start_inv: "node_inv p alt late (s, m) \<Longrightarrow> node_inv p alt late (s, on_active_start now t m)"
  by (auto simp: node_inv_def orbits_inv_def order_ok_def peel_settings_def home_in_band_def on_active_start_def)

lemma answer_plain: "answer_ok p s ans \<Longrightarrow> \<not> goto_active s \<Longrightarrow> plain_answer s ans"
  by (auto simp: answer_ok_def plain_answer_def)

lemma node_inv_end: "node_inv p alt late (s, m) \<Longrightarrow> node_inv p alt late (end_cb b s, m)"
  by (auto simp: end_cb_def node_inv_def home_in_band_def in_band_def altitude_up_def split: option.splits)

lemma link_cases: "on_link_acquired now p s = s \<or> (\<exists>o1. on_link_acquired now p s = set_global_origin now o1 s)"
  by (cases "op_set_origin p") (auto simp: on_link_acquired_def simp del: split_paired_Ex)

lemma orbit_hooks_simps [simp]:
  "hk_compute orbit_hooks = compute_setpoint" "hk_link_acquired orbit_hooks now m s = on_link_acquired now (par m) s"
  "hk_active_start orbit_hooks = on_active_start" "hk_return_home orbit_hooks = on_return_home"
  "hk_frame_reset orbit_hooks d dh = on_local_frame_reset d"
  by (simp_all add: orbit_hooks_def)

interpretation orbits: hosted_mission orbit_hooks "\<lambda>s m. node_inv p alt late (s, m)" for p alt late
proof
  show "okE (\<lambda>(ans, m'). plain_answer s ans \<and> node_inv p alt late (s, m')) (hk_compute orbit_hooks now s m)"
    if "node_inv p alt late (s, m)" for s m now
    using compute_returns [of p m s now] that answer_plain [of p s] by (auto simp: node_inv_def okE_iff same_mission_def)
  show "okE (\<lambda>(calls, m'). set calls \<subseteq> {CallLand} \<and> node_inv p alt late (end_cb True s, m')) (hk_return_home orbit_hooks now m)"
    if "node_inv p alt late (s, m)" for s m now
    using okE_mono [OF home_step [OF that, of now], of "\<lambda>(calls, m'). set calls \<subseteq> {CallLand} \<and> node_inv p alt late (end_cb True s, m')"]
    by (auto simp: node_inv_end)
  show "node_inv p alt late (s, hk_frame_reset orbit_hooks d dh m)" if "node_inv p alt late (s, m)" for s m d dh
    using node_inv_mission [OF that reset_same] by simp
qed (simp_all add: node_inv_settings active_start_inv link_cases del: split_paired_Ex)

interpretation orbits_base: modest_hooks orbit_hooks
  by unfold_locales (simp add: link_cases del: split_paired_Ex, auto simp: on_return_home_def Let_def split: if_splits)

lemma node_step_inv:
  assumes inv: "node_inv p alt late n"
  shows "case node_step n e of Inl x \<Rightarrow> base_error x | Inr t \<Rightarrow> node_inv p alt late t"
proof -
  obtain s m where n: "n = (s, m)" by fastforce
  note inv = inv [unfolded n]
  show ?thesis
  proof (cases e)
    case (Base b)
    then show ?thesis using orbits.callback_hosted [OF inv, of b] by (auto simp: n node_step_def split: sum.splits)
  next
    case (OrbitGate now b)
    then show ?thesis
      using inv by (auto simp: n node_step_def orbit_gate_cb_def node_inv_def orbits_inv_def order_ok_def peel_settings_def home_in_band_def)
  next
    case (EndMission now b)
    then show ?thesis using orbits.end_hosted [OF inv, of now b] by (auto simp: n node_step_def split: sum.splits)
  next
    case (Tick now)
    then show ?thesis using orbits.tick_hosted [OF inv, of now] by (auto simp: n node_step_def split: sum.splits)
  qed (use inv node_inv_mission [OF inv] report_same in \<open>simp_all add: n node_step_def\<close>)
qed

interpretation node: guarded_machine node_step "node_inv p alt late" base_error
  by unfold_locales (rule node_step_inv)

lemma new_orbits_inv:
  assumes new: "new_orbits p = Inr m0" and fly: "flyable p" "order_ok m0"
  shows "node_inv p (p_takeoff_altitude_m cp) False (mk_controller cp, m0)"
proof -
  obtain phs ord where m0: "m0 = initial_orbits p phs ord" and phs: "phase_list_of p = Inr phs"
    and md: "\<exists>x. mod_for_index p = Inr x" and r: "op_radius p \<noteq> 0"
    using new by (auto simp: new_orbits_def)
  have "case phs of None \<Rightarrow> True | Some xs \<Rightarrow> int (length xs) = op_count p"
    using phs by (auto simp: phase_list_of_def split: if_splits)
  moreover have "op_count p \<le> int (length (op_mod_amp p)) \<and> op_count p \<le> int (length (op_mod_phase_deg p))"
    using md fly(1) by (auto simp: mod_for_index_def flyable_def split: if_splits)
  ultimately show ?thesis
    using fly r max_offset_nonneg [of p] by (simp add: m0 offset_ok_def node_inv_def orbits_inv_def home_in_band_def initial_orbits_def mk_controller_def altitude_up_def)
qed


lemma declared_new: "new_orbits declared_parameters = Inr (initial_orbits declared_parameters None None)"
  by (simp add: new_orbits_def declared_parameters_def phase_list_of_def mod_for_index_def np_item_def parse_order_def
      trim_settings_ok_def)

lemma declared_fly: "flyable declared_parameters" "order_ok (initial_orbits declared_parameters None None)"
proof -
  have "[0..3 :: int] = [0, 1, 2, 3]" by (simp add: upto.simps)
  then show "flyable declared_parameters" "order_ok (initial_orbits declared_parameters None None)"
    by (simp_all add: flyable_def declared_parameters_def order_ok_def order_of_def peel_settings_def initial_orbits_def)
qed


text \<open>
  The choreography is flown at one altitude. In every reachable state the setpoint of a tick keeps the up
  coordinate between the take-off altitude and the top of the excitation bob (which may be negative), in
  every phase including the way home, so with no excitation it is exactly the take-off altitude.
\<close>

theorem phased_altitude_band:
  assumes "new_orbits p = Inr m0" "flyable p" "order_ok m0"
    and "foldE node_step (mk_controller cp, m0) es = Inr (s, m)" "compute_setpoint now s m = Inr ((calls, Some xs), m')"
  shows "\<exists>up. xs ! 2 = Some (- up) \<and> p_takeoff_altitude_m cp + min 0 (op_excite_amp p) \<le> up
    \<and> up \<le> p_takeoff_altitude_m cp + max 0 (op_excite_amp p)"
proof -
  have "node_inv p (p_takeoff_altitude_m cp) False (s, m)"
    using node.run_guarded [OF new_orbits_inv [OF assms(1-3), of cp], of es] assms(4) by simp
  then show ?thesis
    using compute_returns [of p m s now] assms(5)
    by (auto simp: node_inv_def answer_ok_def intro: exI [of _ "- z" for z])
qed

theorem phased_altitude_band_witness:
  "\<exists>calls xs m' up. compute_setpoint 5 (mk_controller example_params) (initial_orbits declared_parameters None None)
       = Inr ((calls, Some xs), m') \<and> xs ! 2 = Some (- up)
     \<and> p_takeoff_altitude_m example_params + min 0 (op_excite_amp declared_parameters) \<le> up
     \<and> up \<le> p_takeoff_altitude_m example_params + max 0 (op_excite_amp declared_parameters)"
proof -
  let ?s = "mk_controller example_params" and ?m = "initial_orbits declared_parameters None None"
  obtain calls xs m' where c: "compute_setpoint 5 ?s ?m = Inr ((calls, Some xs), m')"
    using compute_returns [of declared_parameters ?m ?s 5] new_orbits_inv [OF declared_new declared_fly, of example_params]
    by (fastforce simp: node_inv_def okE_iff answer_ok_def)
  have "foldE node_step (?s, ?m) [] = Inr (?s, ?m)" by simp
  from phased_altitude_band [OF declared_new declared_fly this c] c show ?thesis by blast
qed



section \<open>Refinement of the controller\<close>

lemma node_step_refines:
  assumes "node_step (s, m) e = Inr (t, m')"
  shows "\<exists>ces. foldE ctl_step s ces = Inr t"
proof -
  have none: "\<exists>ces. foldE ctl_step s ces = Inr s" by (intro exI [of _ "[]"]) simp
  show ?thesis
  proof (cases e)
    case (Base b)
    then show ?thesis using assms orbits_base.callback_refines [of b s m t m'] by (simp add: node_step_def)
  next
    case (EndMission now b)
    then show ?thesis using assms orbits_base.end_refines [of now b s m t m'] by (simp add: node_step_def)
  next
    case (Tick now)
    then show ?thesis using assms orbits_base.tick_refines [of now s m t m'] by (simp add: node_step_def)
  qed (use assms none in \<open>auto simp: node_step_def\<close>)
qed

interpretation base: refinement node_step ctl_step fst
  by unfold_locales (use node_step_refines in fastforce)

text \<open>
  Claim C15: the mission node refines the controller. Whatever the mission computes and whatever its hooks do, every
  run of the node is, on the controller's part of the state, a run of the controller alone; so the
  node inherits the controller's guarantees, such as that an arm command is only ever published with the
  launch datum latched, and that after an abort request no arm command follows.
\<close>

theorem phased_node_refines_controller:
  assumes "foldE node_step (mk_controller cp, m0) es = Inr (s, m)" "foldE node_step (s, m) es' = Inr (s', m')"
  shows "(\<exists>ces. foldE ctl_step (mk_controller cp) ces = Inr s)
    \<and> ((\<exists>msg \<in> set (out s). is_arm msg) \<longrightarrow> launch_reference_latched s \<and> launch_xy s \<noteq> None)
    \<and> (abort_requested s \<longrightarrow> (\<exists>new. out s' = out s @ new \<and> list_all (\<lambda>msg. \<not> is_arm msg) new))"
proof -
  obtain ces ces' where c: "foldE ctl_step (mk_controller cp) ces = Inr s" "foldE ctl_step s ces' = Inr s'"
    using base.run_refines [OF assms(1)] base.run_refines [OF assms(2)] by auto
  have "datum_inv (mk_controller cp)" by (simp add: datum_inv_def mk_controller_def)
  from datum.run_inv [OF this c(1)] have d: "datum_inv s" .
  have "extends unarmed s s'" if "abort_requested s"
    using aborting.run_ahead [OF _ c(2)] that d by (simp add: datum_inv_def)
  then show ?thesis using c(1) d by (auto simp: datum_inv_def datum_latched_def extends_def)
qed

theorem phased_node_refines_controller_witness:
  "\<exists>s' m'. foldE node_step (mk_controller example_params, initial_orbits declared_parameters None None)
       [Base (AbortGate True), OrbitGate 7 True] = Inr (s', m') \<and> list_all (\<lambda>msg. \<not> is_arm msg) (out s')"
proof -
  let ?s = "(mk_controller example_params)\<lparr>abort_requested := True\<rparr>" and ?m = "initial_orbits declared_parameters None None"
  have 1: "foldE node_step (mk_controller example_params, ?m) [Base (AbortGate True)] = Inr (?s, ?m)"
    by (simp add: node_step_def hosted_callback_def ctl_step_def abort_cb_def mk_controller_def)
  have 2: "foldE node_step (?s, ?m) [OrbitGate 7 True] = Inr (?s, ?m)"
    by (simp add: node_step_def orbit_gate_cb_def initial_orbits_def)
  have "out ?s = []" by (simp add: mk_controller_def)
  with phased_node_refines_controller [OF 1 2] have "list_all (\<lambda>msg. \<not> is_arm msg) (out ?s)" by simp
  moreover have "foldE node_step (mk_controller example_params, ?m) [Base (AbortGate True), OrbitGate 7 True] = Inr (?s, ?m)"
    using 1 2 by (auto elim!: bindE_eq_InrE)
  ultimately show ?thesis by blast
qed

section \<open>Seams of the choreography\<close>

text \<open>
  Claim C18: the guard cannot push a drone off its slot for good. With a tracking gain the tick can integrate and a
  non-empty rate interval, in every reachable state the guarded orbit commands the point of the circle
  at the scheduled phase plus an offset of at most the largest rate deviation over the gain,
  whatever the peers did before and however the ticks were timed.
\<close>

theorem guard_offset_bounded:
  assumes "new_orbits p = Inr m0" "flyable p" "order_ok m0" "steady p"
    and "foldE node_step (mk_controller cp, m0) es = Inr (s, m)"
    and "phase_guard_setpoint now s m t = Inr ((pos, y), m')" "scheduled_phase (op_index p) t m = Inr w"
  shows "\<exists>x. \<bar>x\<bar> \<le> max_offset p \<and> pos = around (op_center p) (op_radius p) (w + x) (altitude_up s)"
proof -
  have inv: "orbits_inv p m"
    using node.run_inv [OF new_orbits_inv [OF assms(1-3), of cp] assms(5)] by (simp add: node_inv_def)
  have "offset_ok p (phase_offset m')"
    using guard_returns [OF inv, of s now t] assms(6) inv by (simp add: same_mission_def orbits_inv_def)
  moreover have "pos = around (op_center p) (op_radius p) (w + phase_offset m') (altitude_up s)"
    using assms(6,7) orbits_invD(1) [OF inv]
    by (auto simp: phase_guard_setpoint_def Let_def guard_command_def publish_decision_def split: prod.splits if_splits)
  ultimately show ?thesis using assms(4) by (auto simp: offset_ok_def)
qed

lemma declared_inv: "orbits_inv declared_parameters (initial_orbits declared_parameters None None)"
  using new_orbits_inv [OF declared_new declared_fly, of example_params] by (simp add: node_inv_def)

lemma declared_steady: "steady declared_parameters" "omega declared_parameters = 10 / 23"
  by (simp_all add: steady_def omega_def declared_parameters_def)

theorem guard_offset_bounded_witness:
  "\<exists>pos y m' w x. phase_guard_setpoint 5 (mk_controller example_params) (initial_orbits declared_parameters None None) 1
       = Inr ((pos, y), m') \<and> \<bar>x\<bar> \<le> max_offset declared_parameters
     \<and> pos = around (op_center declared_parameters) (op_radius declared_parameters) (w + x) (altitude_up (mk_controller example_params))"
proof -
  let ?s = "mk_controller example_params" and ?m = "initial_orbits declared_parameters None None"
  obtain pos y m' where g: "phase_guard_setpoint 5 ?s ?m 1 = Inr ((pos, y), m')"
    using guard_returns [OF declared_inv, of ?s 5 1] unfolding okE_iff by auto
  obtain w where w: "scheduled_phase (op_index declared_parameters) 1 ?m = Inr w"
    using scheduled_returns(1) [OF declared_inv] by blast
  have "foldE node_step (?s, ?m) [] = Inr (?s, ?m)" by simp
  from guard_offset_bounded [OF declared_new declared_fly declared_steady(1) this g w] g show ?thesis by blast
qed

text \<open>
  The peel-off starts where the orbit was left. The first tick after the last whole revolution flies on
  from the phase last commanded, whatever offset the guard had given it, so while the drone waits for its
  turn the commanded point moves at the orbit rate and is at most \<open>R * omega\<close> times the
  elapsed time away from the last commanded point; and the phase it started from is kept.
\<close>

theorem peel_joins_guarded_orbit:
  assumes inv: "orbits_inv p m" "0 \<le> op_radius p" and cmd: "phase_cmd m = Some w" "peel_phase m = None"
    and rt: "0 \<le> rt" "rt < return_duration m" "rt \<le> peel_time (op_index p) (op_count p) (peel_settings m)"
    and ret: "return_setpoint now rt d s m = Inr (calls, (pos, y), m')"
  shows "pos = around (op_center p) (op_radius p) (w + omega p * rt) (altitude_up s)
    \<and> xy_distance pos (around (op_center p) (op_radius p) w (altitude_up s)) \<le> op_radius p * \<bar>omega p\<bar> * rt
    \<and> peel_phase m' = Some w"
proof -
  define m1 where "m1 = m\<lparr>avoidance_mode := MODE_NOMINAL, peel_phase := Some w\<rparr>"
  have s1: "same_mission m m1" by (simp add: m1_def same_mission_def)
  have inv1: "orbits_inv p m1" by (rule orbits_inv_same [OF inv(1) s1]) (simp add: m1_def)
  note D = orbits_invD [OF inv1]
  obtain kw where kw: "peel_orbit_kw s m1 w = Inr kw" "altitude kw = altitude_up s" "circle_center kw (op_index p) = op_center p"
    "drone_phase (op_index p) (op_count p) kw = Inr w"
    using peel_kw_returns [OF inv1] by metis
  have ps: "peel_settings m1 = peel_settings m" "return_duration m1 = return_duration m"
    by (simp_all add: m1_def peel_settings_def return_duration_def)
  have ph: "peel_phase_of m d = Inr w" using cmd by (simp add: peel_phase_of_def)
  have "phased_orbit_peeloff rt (op_index p) (op_count p) (op_radius p) (omega p) (peel_settings m) kw = Inr (pos, y) \<and> m' = m1"
    using ret kw(1) rt(2) D(1) by (auto simp: return_setpoint_def ph m1_def [symmetric] ps Let_def)
  moreover have "np_clip ((rt - peel_time (op_index p) (op_count p) (peel_settings m)) / max (1 / 1000000) z) 0 1 = 0" for z
    using rt(3) by (auto simp: np_clip_def divide_le_0_iff)
  ultimately have pos: "pos = around (op_center p) (op_radius p) (w + omega p * rt) (altitude_up s)" and m': "peel_phase m' = Some w"
    using kw rt(3) by (auto simp: phased_orbit_peeloff_def with_yaw_def Let_def m1_def split: if_splits)
  have "op_radius p * \<bar>sin (omega p * rt / 2)\<bar> \<le> op_radius p * \<bar>omega p * rt / 2\<bar>"
    by (rule mult_left_mono [OF abs_sin_x_le_abs_x inv(2)])
  then have "2 * op_radius p * \<bar>sin (omega p * rt / 2)\<bar> \<le> op_radius p * \<bar>omega p\<bar> * rt" using rt(1) by (simp add: abs_mult)
  then show ?thesis using pos m' by (simp add: chord [OF inv(2)])
qed

theorem peel_joins_guarded_orbit_witness:
  "\<exists>calls pos y m'. return_setpoint 5 (1 / 4) 0 (mk_controller example_params)
        ((initial_orbits declared_parameters None None)\<lparr>phase_cmd := Some 1\<rparr>) = Inr (calls, (pos, y), m')
     \<and> xy_distance pos (around (op_center declared_parameters) (op_radius declared_parameters) 1 (altitude_up (mk_controller example_params)))
         \<le> 1 / 2 \<and> peel_phase m' = Some 1"
proof -
  let ?s = "mk_controller example_params" and ?m = "(initial_orbits declared_parameters None None)\<lparr>phase_cmd := Some 1\<rparr>"
  have inv: "orbits_inv declared_parameters ?m"
    by (rule orbits_inv_same [OF declared_inv]) (simp_all add: same_mission_def)
  obtain calls pos y m' where r: "return_setpoint 5 (1 / 4) 0 ?s ?m = Inr (calls, (pos, y), m')"
    using return_returns [OF inv, of ?s 5 "1 / 4" 0] unfolding okE_iff by auto
  have "0 \<le> op_radius declared_parameters" "phase_cmd ?m = Some 1" "peel_phase ?m = None" "(0::real) \<le> 1 / 4"
    "1 / 4 < return_duration ?m"
    "1 / 4 \<le> peel_time (op_index declared_parameters) (op_count declared_parameters) (peel_settings ?m)"
    by (simp_all add: declared_parameters_def initial_orbits_def return_duration_def peeloff_duration_def peel_settings_def peel_time_def)
  from peel_joins_guarded_orbit [OF inv this r] r show ?thesis
    by (auto simp: declared_steady(2)) (auto simp: declared_parameters_def)
qed

text \<open>
  A come-home ends the orbit on the next whole revolution. With the orbit running forwards, its duration
  becomes a whole number of revolutions, not before the time flown so far (to a billionth of a revolution) and
  less than one revolution after it; and there every drone's schedule, speed modulation included,
  is back at its starting phase.
\<close>

theorem home_ends_on_revolution:
  assumes gate: "orbit_gate_us m \<noteq> 0" and w: "0 < omega (par m)" and h: "on_return_home now m = Inr (calls, m')"
  shows "\<exists>k. orbit_duration m' = Some (2 * pi / omega (par m) * of_int k) \<and> 0 \<le> k
    \<and> max 0 (tau now m - op_spiral_time (par m)) \<le> 2 * pi / omega (par m) * (of_int k + 1 / 10 ^ 9)
    \<and> 2 * pi / omega (par m) * of_int k < max 0 (tau now m - op_spiral_time (par m)) + 2 * pi / omega (par m)
    \<and> scheduled_phase i (2 * pi / omega (par m) * of_int k) m = bindE (scheduled_phase i 0 m) (\<lambda>a. Inr (a + 2 * pi * of_int k))"
proof -
  define rev_s t where "rev_s = 2 * pi / omega (par m)" and "t = max 0 (tau now m - op_spiral_time (par m))"
  define k where "k = \<lceil>t / rev_s - 1 / 10 ^ 9\<rceil>"
  have r: "0 < rev_s" using w by (simp add: rev_s_def)
  have t: "0 \<le> t" by (simp add: t_def)
  have d: "orbit_duration m' = Some (rev_s * of_int k)"
    using h gate w by (auto simp: on_return_home_def Let_def rev_s_def t_def k_def)
  have c: "t / rev_s - 1 / 10 ^ 9 \<le> of_int k" "of_int k < t / rev_s - 1 / 10 ^ 9 + 1"
    unfolding k_def by linarith+
  have "0 \<le> t / rev_s" using t r by simp
  moreover have eps: "0 \<le> (1 :: real) / 10 ^ 9" "(1 :: real) / 10 ^ 9 < 1" by simp_all
  ultimately have "- 1 < (of_int k :: real)" using c(1) by linarith
  then have k: "0 \<le> k" by linarith
  have "t = rev_s * (t / rev_s)" using r by simp
  also have "\<dots> \<le> rev_s * (of_int k + 1 / 10 ^ 9)" using c(1) r by (intro mult_left_mono) simp_all
  finally have le: "t \<le> rev_s * (of_int k + 1 / 10 ^ 9)" .
  have "of_int k < t / rev_s + 1" using c(2) eps by linarith
  then have "rev_s * of_int k < rev_s * (t / rev_s + 1)" using r by (intro mult_strict_left_mono)
  also have "\<dots> = t + rev_s" using r by (simp add: field_simps)
  finally have less: "rev_s * of_int k < t + rev_s" .
  have turn: "omega (par m) * (rev_s * of_int k) = 2 * pi * of_int k" using w by (simp add: rev_s_def)
  have per: "sin (2 * pi * of_int k + x) = sin x" for x
    by (simp add: sin_add sin_int_2pin cos_int_2pin)
  have "scheduled_phase i (rev_s * of_int k) m = bindE (scheduled_phase i 0 m) (\<lambda>a. Inr (a + 2 * pi * of_int k))"
    unfolding scheduled_phase_def turn per by (simp add: bindE_assoc add.commute add.left_commute cong: bindE_cong)
  then show ?thesis using d k le less unfolding rev_s_def [symmetric] t_def [symmetric] by blast
qed

theorem home_ends_on_revolution_witness:
  "\<exists>calls m' k. on_return_home 15000001 ((initial_orbits declared_parameters None None)\<lparr>orbit_gate_us := 1\<rparr>) = Inr (calls, m')
     \<and> orbit_duration m' = Some (2 * pi / (10 / 23) * of_int k) \<and> 0 \<le> k \<and> 5 \<le> 2 * pi / (10 / 23) * (of_int k + 1 / 10 ^ 9)"
proof -
  let ?m = "(initial_orbits declared_parameters None None)\<lparr>orbit_gate_us := 1\<rparr>"
  have p: "par ?m = declared_parameters" "op_spiral_time declared_parameters = 10" and g: "orbit_gate_us ?m \<noteq> 0"
    by (simp_all add: initial_orbits_def declared_parameters_def)
  have w: "0 < omega (par ?m)" by (simp add: p declared_steady(2))
  obtain calls m' where h: "on_return_home 15000001 ?m = Inr (calls, m')"
    using w by (simp add: on_return_home_def Let_def)
  have t: "tau 15000001 ?m = 15" by (simp add: tau_def secs_def)
  from home_ends_on_revolution [OF g w h, of 0] h show ?thesis by (auto simp: t p declared_steady(2))
qed

text \<open>
  Joining the line slot does not move the drone. When random staging completes, the vehicle is inside
  the acceptance circle of its slot, the commanded point is exactly the slot, as it was in the last
  tick of the approach, although the anchor moves there, and home still is the old launch anchor.
\<close>

theorem staging_switch_is_continuous:
  assumes "staging_setpoint now y s m = Inr (sp, m')" "\<not> op_trim_enabled (par m)" "\<not> staging_complete m" "staging_complete m'"
  shows "anchor m' = staging_target (par m)
    \<and> in_anchor_frame m' (fst sp) = (fst (staging_target (par m)), snd (staging_target (par m)), altitude_up s)
    \<and> add2 (anchor m') (home_offset m') = anchor m
    \<and> norm2 (sub2 (world_xy s m) (op_stage (par m))) \<le> op_staging_acceptance (par m)
    \<and> transit_us m' = now"
proof -
  have w: "world_xy s (m\<lparr>stage_start_us := t\<rparr>) = world_xy s m" for t
    by (simp add: world_xy_def to_world_def split: option.split)
  show ?thesis
    using assms
    by (auto simp: staging_setpoint_def Let_def w reanchor_def in_anchor_frame_def hold_at_def add2_def sub2_def norm2_def dot2_def
        hypot_def split: if_splits)
qed

theorem staging_switch_is_continuous_witness:
  "\<exists>sp m'. staging_setpoint 10000000 0 ((mk_controller example_params)\<lparr>cy := 1, launch_xy := Some (0, 0)\<rparr>)
        ((initial_orbits (declared_parameters\<lparr>op_staging_enabled := True, op_stage := (1, 0)\<rparr>) None None)
           \<lparr>stage_start_us := 1, climbed := True\<rparr>) = Inr (sp, m')
     \<and> anchor m' = (1, 0) \<and> home_offset m' = (- 1, 0) \<and> transit_us m' = 10000000"
proof -
  define p where "p = declared_parameters\<lparr>op_staging_enabled := True, op_stage := (1, 0)\<rparr>"
  let ?s = "(mk_controller example_params)\<lparr>cy := 1, launch_xy := Some (0, 0)\<rparr>"
    and ?m = "(initial_orbits p None None)\<lparr>stage_start_us := 1, climbed := True\<rparr>"
  have "\<exists>sp m'. staging_setpoint 10000000 0 ?s ?m = Inr (sp, m') \<and> staging_complete m'"
    by (simp add: p_def staging_setpoint_def Let_def initial_orbits_def declared_parameters_def staging_target_def sub2_def world_xy_def
        to_world_def mk_controller_def secs_def reanchor_def)
  then obtain sp m' where r: "staging_setpoint 10000000 0 ?s ?m = Inr (sp, m')" "staging_complete m'" by blast
  have c: "\<not> op_trim_enabled (par ?m)" "\<not> staging_complete ?m" "staging_target (par ?m) = (1, 0)" "anchor ?m = (0, 0)"
    by (simp_all add: p_def initial_orbits_def declared_parameters_def staging_target_def sub2_def)
  from staging_switch_is_continuous [OF r(1) c(1,2) r(2)] r(1) c(3,4) show ?thesis
    by (auto simp: p_def [symmetric] add2_def prod_eq_iff intro!: exI)
qed

text \<open>With a settle time of 0, which the node accepts, the landing is requested without any settling.\<close>

lemma zero_settle_lands_unsettled:
  assumes "op_land_settle (par m) = 0" "\<not> landing_settled s m" "\<not> land_requested m" "1 \<le> home_progress t m"
  shows "fst (home_setpoint now start y t s m) = [CallLand]"
  using assms by (simp add: home_setpoint_def Let_def)

text \<open>
  In yaw mode \<open>outward\<close> the insertion ends facing away from the centre and the guarded orbit starts facing it.
\<close>

lemma outward_yaw_flips:
  assumes "op_yaw_mode (par m) = ''outward''"
  shows "yaw_for phase (yaw_mode (mission_orbit_kw s m)) f = Inr (wrap_angle phase) \<and> phase_yaw phase m = wrap_pi (phase + pi)"
  using assms by (simp add: mission_orbit_kw_def yaw_for_def phase_yaw_def)

end
