(* ===== verification/Survey_Mission.thy ===== *)
theory Survey_Mission
  imports Mission_Node Survey
begin

text \<open>
  The survey mission (\<open>flight_intelligent/survey_mission.py\<close>) on the offboard controller: climb, align the
  yaw if asked, wait for the gate, fly the schedule of \<open>flight_lib/survey.py\<close>, come home and land. One clock reading
  per callback; the flags that only keep a log line from repeating are left out.
\<close>

section \<open>Parameters and state\<close>

record survey_params =
  sp_survey :: survey_kw
  sp_yaw_mode :: string
  sp_yaw_rate_dps :: real
  sp_to_home_s :: seconds
  sp_land_xy :: metres
  sp_land_vxy :: m_per_s
  sp_land_settle_s :: seconds
  sp_auto_start :: bool
  sp_align_launch_yaw :: bool
  sp_align_yaw :: bool
  sp_yaw_deg :: real
  sp_yaw_tolerance_deg :: real
  sp_yaw_settle_s :: seconds
  sp_origin :: "real \<times> real \<times> real"
  sp_set_origin :: bool
  sp_anchor_after_climb :: bool

definition declared_survey :: "metres \<Rightarrow> survey_params" where
  "declared_survey alt = \<lparr>sp_survey = \<lparr>field_e0 = 2, field_n0 = 2, lane_axis_deg = 0, field_length = 10, field_width = 6,
       lane_spacing = 2, altitude_m = alt, speed_mps = 3 / 2, revisit_gap = 8, crosshatch = True, cube_side = 2, cube_speed = 1\<rparr>,
     sp_yaw_mode = ''track'', sp_yaw_rate_dps = 45, sp_to_home_s = 4, sp_land_xy = 35 / 100, sp_land_vxy = 20 / 100,
     sp_land_settle_s = 1, sp_auto_start = False, sp_align_launch_yaw = False, sp_align_yaw = False, sp_yaw_deg = 180,
     sp_yaw_tolerance_deg = 5, sp_yaw_settle_s = 1, sp_origin = (422658783 / 10 ^ 7, - 837487304 / 10 ^ 7, 0),
     sp_set_origin = True, sp_anchor_after_climb = True\<rparr>"

record survey =
  spar :: survey_params
  salt :: metres
  schedule :: "segment list"
  s_anchor :: point
  s_climbed :: bool
  yaw_aligned :: bool
  align_settle_us :: int
  gate_us :: int
  hold_yaw_enu :: "radians option"
  yaw_cmd_enu :: "radians option"
  last_tick_us :: int
  s_home_us :: int
  s_home_from :: "vec3 option"
  s_settle_us :: int
  s_land_requested :: bool

definition new_survey :: "metres \<Rightarrow> survey_params \<Rightarrow> py_error + survey" where
  "new_survey alt p =
     bindE (build_survey_schedule ((sp_survey p)\<lparr>altitude_m := alt\<rparr>)) (\<lambda>sched.
       Inr \<lparr>spar = p, salt = alt, schedule = sched, s_anchor = (0, 0), s_climbed = False, yaw_aligned = (\<not> sp_align_yaw p),
            align_settle_us = 0, gate_us = 0, hold_yaw_enu = None, yaw_cmd_enu = None, last_tick_us = 0, s_home_us = 0,
            s_home_from = None, s_settle_us = 0, s_land_requested = False\<rparr>)"

definition yaw_rate_max :: "survey_params \<Rightarrow> rad_per_s" where
  "yaw_rate_max p = radians (sp_yaw_rate_dps p)"

definition align_yaw_ned :: "survey_params \<Rightarrow> radians" where
  "align_yaw_ned p = wrap_pi (radians (sp_yaw_deg p))"

definition align_yaw_enu :: "survey_params \<Rightarrow> radians" where
  "align_yaw_enu p = wrap_pi (pi / 2 - align_yaw_ned p)"

definition us_seconds :: "int \<Rightarrow> seconds" where
  "us_seconds us = of_int us / 1000000"

section \<open>Yaw and position\<close>

text \<open>\<open>self._hold_yaw_enu or 0.0\<close>.\<close>

definition hold_or_zero :: "survey \<Rightarrow> radians" where
  "hold_or_zero m = (case hold_yaw_enu m of None \<Rightarrow> 0 | Some y \<Rightarrow> y)"

definition slew_step :: "int \<Rightarrow> survey \<Rightarrow> radians" where
  "slew_step now m =
     yaw_rate_max (spar m) * min (max (if last_tick_us m \<noteq> 0 then us_seconds (now - last_tick_us m) else 0) 0) (1 / 4)"

definition slewed_yaw :: "radians \<Rightarrow> int \<Rightarrow> bool \<Rightarrow> survey \<Rightarrow> radians \<times> survey" where
  "slewed_yaw target now force_target m =
     (if sp_yaw_mode (spar m) = ''hold'' \<and> hold_yaw_enu m \<noteq> None \<and> \<not> force_target then (the (hold_yaw_enu m), m)
      else
        let cmd = (case yaw_cmd_enu m of None \<Rightarrow> target | Some y \<Rightarrow> y);
            err = wrap_pi (target - cmd);
            lim = slew_step now m;
            cmd' = wrap_pi (cmd + max (- lim) (min lim err))
        in (cmd', m\<lparr>yaw_cmd_enu := Some cmd'\<rparr>))"

definition ned_setpoint :: "vec3 \<Rightarrow> radians \<Rightarrow> axis list" where
  "ned_setpoint p y = [Some (fst (snd p)), Some (fst p), Some (- snd (snd p)), Some (wrap_pi (pi / 2 - y))]"

definition emit_setpoint :: "vec3 \<Rightarrow> radians \<Rightarrow> bool \<Rightarrow> int \<Rightarrow> survey \<Rightarrow> axis list \<times> survey" where
  "emit_setpoint pos yaw_target force_target now m =
     (let (y, m1) = slewed_yaw yaw_target now force_target m
      in (ned_setpoint (fst pos + fst (s_anchor m1), fst (snd pos) + snd (s_anchor m1), snd (snd pos)) y, m1))"

definition schedule_elapsed_s :: "int \<Rightarrow> survey \<Rightarrow> seconds" where
  "schedule_elapsed_s now m = max 0 (us_seconds (now - gate_us m))"

definition current_nominal :: "int \<Rightarrow> survey \<Rightarrow> vec3 \<times> radians \<times> bool" where
  "current_nominal now m =
     (case schedule_setpoint (schedule m) (schedule_elapsed_s now m) of
        (pos, direction, fin) \<Rightarrow>
          (pos, if direction \<noteq> (0, 0) then atan2 (snd direction) (fst direction) else hold_or_zero m, fin))"

section \<open>The hooks\<close>

definition survey_link_acquired :: "int \<Rightarrow> survey_params \<Rightarrow> controller \<Rightarrow> controller" where
  "survey_link_acquired now p s = (if sp_set_origin p then set_global_origin now (sp_origin p) s else s)"

definition survey_gate_cb :: "int \<Rightarrow> bool \<Rightarrow> controller \<Rightarrow> survey \<Rightarrow> survey" where
  "survey_gate_cb now data s m =
     (if \<not> data \<or> gate_us m \<noteq> 0 \<or> home_requested s then m
      else if \<not> s_climbed m \<or> \<not> yaw_aligned m then m
      else m\<lparr>gate_us := now\<rparr>)"

definition survey_active_start :: "int \<Rightarrow> controller \<Rightarrow> survey \<Rightarrow> survey" where
  "survey_active_start now s m =
     (let hold = wrap_pi (pi / 2 - (if launch_yaw_latched s then launch_yaw s else yaw s));
          m1 = m\<lparr>hold_yaw_enu := Some hold, yaw_cmd_enu := Some hold\<rparr>
      in if sp_align_yaw (spar m1) then m1\<lparr>schedule := rotate_schedule (schedule m1) (align_yaw_enu (spar m1))\<rparr>
         else if sp_align_launch_yaw (spar m1) then m1\<lparr>schedule := rotate_schedule (schedule m1) hold\<rparr>
         else m1)"

definition survey_return_home :: "int \<Rightarrow> survey \<Rightarrow> py_error + (mission_call list \<times> survey)" where
  "survey_return_home now m =
     Inr (if \<not> s_climbed m then ([CallLand], m)
          else if s_home_us m = 0 then ([], m\<lparr>s_home_from := Some (fst (current_nominal now m)), s_home_us := now\<rparr>)
          else ([], m))"

section \<open>The setpoint of a tick\<close>

definition survey_settled :: "controller \<Rightarrow> survey \<Rightarrow> bool" where
  "survey_settled s m =
     (hypot (cx s - snd (s_anchor m)) (cy s - fst (s_anchor m)) \<le> sp_land_xy (spar m)
      \<and> hypot (cvx s) (cvy s) \<le> sp_land_vxy (spar m))"

definition settle_and_land :: "int \<Rightarrow> controller \<Rightarrow> survey \<Rightarrow> mission_call list \<times> survey" where
  "settle_and_land now s m =
     (let since = (if survey_settled s m then (if s_settle_us m = 0 then now else s_settle_us m) else 0);
          dwell = (if survey_settled s m then us_seconds (now - since) else 0);
          m1 = m\<lparr>s_settle_us := since\<rparr>
      in if dwell \<ge> sp_land_settle_s (spar m1) \<and> \<not> s_land_requested m1
         then ([CallLand], m1\<lparr>s_land_requested := True\<rparr>) else ([], m1))"

definition survey_home_progress :: "int \<Rightarrow> survey \<Rightarrow> real" where
  "survey_home_progress now m = min 1 (max 0 (us_seconds (now - s_home_us m)) / max (1 / 1000) (sp_to_home_s (spar m)))"

definition survey_home_pos :: "vec3 \<Rightarrow> int \<Rightarrow> survey \<Rightarrow> vec3" where
  "survey_home_pos from now m =
     (let u = survey_home_progress now m; k = u * u * (3 - 2 * u)
      in (fst from * (1 - k), fst (snd from) * (1 - k), snd (snd from) + (salt m - snd (snd from)) * k))"

definition survey_home_setpoint :: "int \<Rightarrow> controller \<Rightarrow> survey \<Rightarrow> py_error + (mission_call list \<times> (vec3 \<times> radians) \<times> survey)" where
  "survey_home_setpoint now s m =
     bindE (need (s_home_from m)) (\<lambda>h.
       let sp = (survey_home_pos h now m, case yaw_cmd_enu m of None \<Rightarrow> 0 | Some y \<Rightarrow> y)
       in Inr (if survey_home_progress now m \<ge> 1
               then (case settle_and_land now s m of (calls, m1) \<Rightarrow> (calls, sp, m1))
               else ([], sp, m)))"

definition survey_climb :: "int \<Rightarrow> controller \<Rightarrow> survey \<Rightarrow> survey" where
  "survey_climb now s m0 =
     (let m = (if sp_anchor_after_climb (spar m0) then m0\<lparr>s_anchor := (cy s, cx s)\<rparr> else m0)
      in if \<bar>cz s - takeoff_target_z s\<bar> \<le> takeoff_acceptance_m s
         then (if sp_auto_start (spar m) \<and> yaw_aligned m \<and> gate_us m = 0
               then m\<lparr>s_climbed := True, gate_us := now\<rparr> else m\<lparr>s_climbed := True\<rparr>)
         else m)"

definition yaw_alignment :: "int \<Rightarrow> controller \<Rightarrow> survey \<Rightarrow> survey" where
  "yaw_alignment now s m =
     (let yaw_error = wrap_pi (align_yaw_ned (spar m) - yaw s);
          near = (\<bar>yaw_error\<bar> \<le> radians (sp_yaw_tolerance_deg (spar m)));
          since = (if near then (if align_settle_us m = 0 then now else align_settle_us m) else 0);
          settled_s = (if near then us_seconds (now - since) else 0);
          m1 = m\<lparr>align_settle_us := since\<rparr>
      in if settled_s \<ge> sp_yaw_settle_s (spar m1)
         then
           let m2 = m1\<lparr>yaw_aligned := True, hold_yaw_enu := Some (align_yaw_enu (spar m1)),
                       yaw_cmd_enu := Some (align_yaw_enu (spar m1))\<rparr>
           in if sp_auto_start (spar m2) \<and> gate_us m2 = 0 then m2\<lparr>gate_us := now\<rparr> else m2
         else m1)"

definition answer_with :: "mission_call list \<Rightarrow> axis list \<times> survey \<Rightarrow> mission_answer \<times> survey" where
  "answer_with calls r = ((calls, Some (fst r)), snd r)"

definition survey_pad :: "survey \<Rightarrow> vec3" where
  "survey_pad m = (0, 0, salt m)"

definition survey_flight :: "int \<Rightarrow> controller \<Rightarrow> survey \<Rightarrow> mission_answer \<times> survey" where
  "survey_flight now s m =
     (case current_nominal now m of
        (pos, yaw_target, fin) \<Rightarrow>
          if fin then (case settle_and_land now s m of (calls, m1) \<Rightarrow> answer_with calls (emit_setpoint pos yaw_target False now m1))
          else answer_with [] (emit_setpoint pos yaw_target False now m))"

definition survey_nominal :: "int \<Rightarrow> controller \<Rightarrow> survey \<Rightarrow> py_error + (mission_answer \<times> survey)" where
  "survey_nominal now s m =
     (if \<not> s_climbed m then
        let m1 = survey_climb now s m
        in Inr (answer_with [] (emit_setpoint (survey_pad m1) (hold_or_zero m1) False now m1))
      else if \<not> yaw_aligned m then
        let m1 = yaw_alignment now s m
        in Inr (answer_with [] (emit_setpoint (survey_pad m1) (align_yaw_enu (spar m1)) True now m1))
      else if s_home_us m \<noteq> 0 then
        bindE (survey_home_setpoint now s m) (\<lambda>(calls, sp, m1).
          Inr (answer_with calls (emit_setpoint (fst sp) (snd sp) False now m1)))
      else if gate_us m = 0 then Inr (answer_with [] (emit_setpoint (survey_pad m) (hold_or_zero m) False now m))
      else Inr (survey_flight now s m))"

text \<open>The \<open>finally\<close> clause notes the time of the tick.\<close>

definition survey_setpoint :: "int \<Rightarrow> controller \<Rightarrow> survey \<Rightarrow> py_error + (mission_answer \<times> survey)" where
  "survey_setpoint now s m = bindE (survey_nominal now s m) (\<lambda>(ans, m1). Inr (ans, m1\<lparr>last_tick_us := now\<rparr>))"

section \<open>The node\<close>

text \<open>The mission does not override \<open>on_local_frame_reset\<close>.\<close>

definition survey_hooks :: "survey hooks" where
  "survey_hooks = \<lparr>hk_compute = survey_setpoint, hk_link_acquired = (\<lambda>now m. survey_link_acquired now (spar m)),
     hk_active_start = survey_active_start, hk_return_home = survey_return_home, hk_frame_reset = (\<lambda>d dh m. m)\<rparr>"

datatype survey_event =
    SurveyBase ctl_event
  | SurveyGate int bool
  | SurveyEnd int bool
  | SurveyTick int

type_synonym survey_node = "controller \<times> survey"

definition survey_step :: "survey_node \<Rightarrow> survey_event \<Rightarrow> py_error + survey_node" where
  "survey_step n e =
     (case e of
        SurveyBase b \<Rightarrow> hosted_callback survey_hooks b n
      | SurveyGate now b \<Rightarrow> Inr (fst n, survey_gate_cb now b (fst n) (snd n))
      | SurveyEnd now b \<Rightarrow> hosted_end survey_hooks now b n
      | SurveyTick now \<Rightarrow> hosted_tick survey_hooks now n)"

end
