(* ===== verification/Survey_Mission_Properties.thy ===== *)
theory Survey_Mission_Properties
  imports Survey_Mission Mission_Node_Properties Survey_Properties
begin

text \<open>
  The survey mission never raises in flight, starts only when it may, follows its schedule without jumps in position
  or yaw, and refines the offboard controller like every flight node.
\<close>

section \<open>Well-formed missions\<close>

definition rotations :: "segment list \<Rightarrow> segment list \<Rightarrow> bool" where
  "rotations sched sched' \<longleftrightarrow> (\<exists>ths. sched' = fold (\<lambda>th gs. rotate_schedule gs th) ths sched)"

lemma rotations_refl [simp]: "rotations sched sched"
  unfolding rotations_def by (intro exI [of _ "[]"]) simp

lemma rotations_more: "rotations sched sched' \<Longrightarrow> rotations sched (rotate_schedule sched' th)"
  unfolding rotations_def
proof (elim exE)
  fix ths assume "sched' = fold (\<lambda>th gs. rotate_schedule gs th) ths sched"
  then show "\<exists>ths. rotate_schedule sched' th = fold (\<lambda>th gs. rotate_schedule gs th) ths sched"
    by (intro exI [of _ "ths @ [th]"]) simp
qed

definition survey_inv :: "survey_params \<Rightarrow> metres \<Rightarrow> segment list \<Rightarrow> controller \<Rightarrow> survey \<Rightarrow> bool" where
  "survey_inv p alt sched s m \<longleftrightarrow> \<not> goto_active s \<and> takeoff_altitude_m s = alt
     \<and> spar m = p \<and> salt m = alt \<and> rotations sched (schedule m)
     \<and> (s_home_us m \<noteq> 0 \<longrightarrow> s_home_from m \<noteq> None \<and> home_requested s) \<and> (gate_us m \<noteq> 0 \<longrightarrow> s_climbed m \<and> yaw_aligned m)"

text \<open>What a tick leaves alone.\<close>

definition same_survey :: "survey \<Rightarrow> survey \<Rightarrow> bool" where
  "same_survey m m' \<longleftrightarrow> spar m' = spar m \<and> salt m' = salt m \<and> schedule m' = schedule m \<and> s_home_us m' = s_home_us m
     \<and> s_home_from m' = s_home_from m"

definition same_flight :: "survey \<Rightarrow> survey \<Rightarrow> bool" where
  "same_flight m m' \<longleftrightarrow> same_survey m m' \<and> s_anchor m' = s_anchor m \<and> s_climbed m' = s_climbed m \<and> yaw_aligned m' = yaw_aligned m
     \<and> gate_us m' = gate_us m"

lemmas same_defs = same_flight_def same_survey_def

lemma same_flight_trans: "same_flight a b \<Longrightarrow> same_flight b c \<Longrightarrow> same_flight a c"
  by (simp add: same_defs)

lemma slewed_same: "slewed_yaw y now f m = (y', m') \<Longrightarrow> same_flight m m'"
  by (auto simp: slewed_yaw_def Let_def same_defs split: if_splits)

lemma emit_same: "same_flight m (snd (emit_setpoint pos y f now m))"
  using slewed_same [of y now f m] by (cases "slewed_yaw y now f m") (simp add: emit_setpoint_def)

lemma emit_position:
  "\<exists>yw. fst (emit_setpoint pos y f now m) =
     [Some (fst (snd pos) + snd (s_anchor m)), Some (fst pos + fst (s_anchor m)), Some (- snd (snd pos)), Some yw]"
  using slewed_same [of y now f m]
  by (cases "slewed_yaw y now f m") (auto simp: emit_setpoint_def ned_setpoint_def same_defs)

lemma settle_same: "settle_and_land now s m = (calls, m') \<Longrightarrow> same_flight m m' \<and> set calls \<subseteq> {CallLand}"
  by (auto simp: settle_and_land_def Let_def same_defs split: if_splits)

lemma climb_keeps:
  "same_survey m (survey_climb now s m) \<and> yaw_aligned (survey_climb now s m) = yaw_aligned m
    \<and> (gate_us (survey_climb now s m) = gate_us m \<or> s_climbed (survey_climb now s m) \<and> yaw_aligned m)
    \<and> (s_climbed m \<longrightarrow> s_climbed (survey_climb now s m))"
  by (simp add: survey_climb_def Let_def same_defs)

lemma alignment_keeps:
  "same_survey m (yaw_alignment now s m) \<and> s_climbed (yaw_alignment now s m) = s_climbed m
    \<and> (gate_us (yaw_alignment now s m) = gate_us m \<or> yaw_aligned (yaw_alignment now s m))
    \<and> (yaw_aligned m \<longrightarrow> yaw_aligned (yaw_alignment now s m))"
  by (simp add: yaw_alignment_def Let_def same_defs)

lemma answer_with_simps [simp]: "fst (answer_with calls r) = (calls, Some (fst r))" "snd (answer_with calls r) = snd r"
  by (simp_all add: answer_with_def)

definition survey_ok :: "survey_params \<Rightarrow> metres \<Rightarrow> segment list \<Rightarrow> controller \<Rightarrow> mission_answer \<times> survey \<Rightarrow> bool" where
  "survey_ok p alt sched s r \<longleftrightarrow> set (fst (fst r)) \<subseteq> {CallLand} \<and> (\<exists>xs. snd (fst r) = Some xs \<and> length xs = 4)
     \<and> survey_inv p alt sched s (snd r)"

lemma emit_ok:
  assumes "survey_inv p alt sched s m" "set calls \<subseteq> {CallLand}"
  shows "survey_ok p alt sched s (answer_with calls (emit_setpoint pos y f now m))"
  using assms emit_position [of pos y f now m] emit_same [of m pos y f now]
  by (auto simp: survey_ok_def survey_inv_def same_defs)

lemma inv_same: "survey_inv p alt sched s m \<Longrightarrow> same_flight m m' \<Longrightarrow> survey_inv p alt sched s m'"
  by (simp add: survey_inv_def same_defs)

lemma nominal_ok:
  assumes inv: "survey_inv p alt sched s m"
  shows "okE (survey_ok p alt sched s) (survey_nominal now s m)"
proof -
  have settle: "survey_inv p alt sched s m' \<and> set calls \<subseteq> {CallLand}" if "settle_and_land now s m = (calls, m')" for calls m'
    using settle_same [OF that] inv_same [OF inv] by blast
  consider "\<not> s_climbed m" | "s_climbed m" "\<not> yaw_aligned m" | "s_climbed m" "yaw_aligned m" "s_home_us m \<noteq> 0"
    | "s_climbed m" "yaw_aligned m" "s_home_us m = 0"
    by blast
  then show ?thesis
  proof cases
    case 1
    have "survey_inv p alt sched s (survey_climb now s m)"
      using inv 1 climb_keeps [of m now s] by (auto simp: survey_inv_def same_survey_def)
    then show ?thesis using 1 emit_ok by (simp add: survey_nominal_def Let_def)
  next
    case 2
    have "survey_inv p alt sched s (yaw_alignment now s m)"
      using inv 2 alignment_keeps [of m now s] by (auto simp: survey_inv_def same_survey_def)
    then show ?thesis using 2 emit_ok by (simp add: survey_nominal_def Let_def)
  next
    case 3
    obtain calls m' where sl: "settle_and_land now s m = (calls, m')" by (cases "settle_and_land now s m")
    obtain h where "s_home_from m = Some h" using inv 3(3) by (auto simp: survey_inv_def)
    then show ?thesis
      using 3 settle [OF sl] inv by (auto simp: survey_nominal_def survey_home_setpoint_def Let_def sl intro!: emit_ok)
  next
    case 4
    obtain calls m' where sl: "settle_and_land now s m = (calls, m')" by (cases "settle_and_land now s m")
    show ?thesis
      using 4 settle [OF sl] inv
      by (auto simp: survey_nominal_def survey_flight_def sl intro!: emit_ok split: prod.split)
  qed
qed

lemma setpoint_ok:
  assumes "survey_inv p alt sched s m"
  shows "okE (survey_ok p alt sched s) (survey_setpoint now s m)"
  using nominal_ok [OF assms, of now] by (auto simp: survey_setpoint_def okE_iff survey_ok_def survey_inv_def)

section \<open>The node\<close>

lemma survey_hooks_simps [simp]:
  "hk_compute survey_hooks = survey_setpoint" "hk_link_acquired survey_hooks now m s = survey_link_acquired now (spar m) s"
  "hk_active_start survey_hooks = survey_active_start" "hk_return_home survey_hooks = survey_return_home"
  "hk_frame_reset survey_hooks d dh m = m"
  by (simp_all add: survey_hooks_def)

lemma survey_link_cases: "survey_link_acquired now p s = s \<or> (\<exists>o1. survey_link_acquired now p s = set_global_origin now o1 s)"
  by (cases "sp_set_origin p") (auto simp: survey_link_acquired_def simp del: split_paired_Ex)

lemma home_ok:
  assumes "survey_inv p alt sched s m"
  shows "okE (\<lambda>(calls, m'). set calls \<subseteq> {CallLand} \<and> survey_inv p alt sched (end_cb True s) m') (survey_return_home now m)"
  using assms by (auto simp: survey_return_home_def survey_inv_def end_cb_def simp del: split_paired_Ex)

interpretation survey: hosted_mission survey_hooks "survey_inv p alt sched" for p alt sched
proof
  show "okE (\<lambda>(ans, m'). plain_answer s ans \<and> survey_inv p alt sched s m') (hk_compute survey_hooks now s m)"
    if "survey_inv p alt sched s m" for s m now
    using okE_mono [OF setpoint_ok [OF that, of now], of "\<lambda>(ans, m'). plain_answer s ans \<and> survey_inv p alt sched s m'"]
    by (fastforce simp: survey_ok_def plain_answer_def)
  show "survey_inv p alt sched s (hk_active_start survey_hooks now t m)" if "survey_inv p alt sched s m" for s m now t
    using that rotations_more by (simp add: survey_active_start_def Let_def survey_inv_def)
  show "survey_inv p alt sched t m" if "survey_inv p alt sched s m" "same_settings s t" for s t m
    using that by (auto simp: survey_inv_def same_settings_def)
qed (use home_ok in \<open>simp_all add: survey_link_cases del: split_paired_Ex\<close>)

interpretation survey_base: modest_hooks survey_hooks
  by unfold_locales (simp add: survey_link_cases del: split_paired_Ex, auto simp: survey_return_home_def split: if_splits)

lemma survey_step_inv:
  assumes inv: "case n of (s, m) \<Rightarrow> survey_inv p alt sched s m"
  shows "case survey_step n e of Inl x \<Rightarrow> base_error x | Inr n' \<Rightarrow> (case n' of (t, m') \<Rightarrow> survey_inv p alt sched t m')"
proof -
  obtain s m where n: "n = (s, m)" by (cases n)
  with inv have i: "survey_inv p alt sched s m" by simp
  have "survey_inv p alt sched s (survey_gate_cb now b s m)" for now b
    using i by (auto simp: survey_gate_cb_def survey_inv_def)
  then show ?thesis
    using survey.callback_hosted [OF i] survey.end_hosted [OF i] survey.tick_hosted [OF i]
    by (cases e) (simp_all add: n survey_step_def)
qed

interpretation survey_node: guarded_machine survey_step "\<lambda>n. case n of (s, m) \<Rightarrow> survey_inv p alt sched s m" base_error
  by unfold_locales (rule survey_step_inv)

lemma new_survey_inv:
  assumes "new_survey (p_takeoff_altitude_m cp) p = Inr m0"
  shows "survey_inv p (p_takeoff_altitude_m cp) (schedule m0) (mk_controller cp) m0"
  using assms by (auto simp: new_survey_def survey_inv_def mk_controller_def)


lemma declared_survey_new: "\<exists>m0. new_survey alt (declared_survey alt) = Inr m0"
proof -
  have "\<exists>sched. build_survey_schedule ((sp_survey (declared_survey alt))\<lparr>altitude_m := alt\<rparr>) = Inr sched"
    by (rule survey_total) (simp_all add: declared_survey_def)
  then show ?thesis by (auto simp: new_survey_def)
qed


section \<open>In flight\<close>

text \<open>The survey is being flown.\<close>

definition surveying :: "survey \<Rightarrow> bool" where
  "surveying m \<longleftrightarrow> s_climbed m \<and> yaw_aligned m \<and> s_home_us m = 0 \<and> gate_us m \<noteq> 0"

lemma flight_tick:
  assumes "surveying m" "survey_setpoint now s m = Inr ((calls, Some xs), m')"
  shows "\<exists>yw. xs = [Some (fst (snd (position_at (schedule m) (schedule_elapsed_s now m))) + snd (s_anchor m)),
      Some (fst (position_at (schedule m) (schedule_elapsed_s now m)) + fst (s_anchor m)),
      Some (- snd (snd (position_at (schedule m) (schedule_elapsed_s now m)))), Some yw]"
    "same_flight m m'"
proof -
  obtain pos yt fin where nom: "current_nominal now m = (pos, yt, fin)" by (cases "current_nominal now m")
  then have pos: "pos = position_at (schedule m) (schedule_elapsed_s now m)"
    by (auto simp: current_nominal_def position_at_def split: prod.splits)
  obtain cs ml where sl: "settle_and_land now s m = (cs, ml)" by (cases "settle_and_land now s m")
  note same = settle_same [OF sl]
  define mf where "mf = (if fin then ml else m)"
  have mf: "same_flight m mf" using same by (simp add: mf_def same_defs)
  have r: "xs = fst (emit_setpoint pos yt False now mf)" "m' = (snd (emit_setpoint pos yt False now mf))\<lparr>last_tick_us := now\<rparr>"
    using assms by (auto simp: survey_setpoint_def survey_nominal_def surveying_def survey_flight_def nom sl answer_with_def mf_def split: if_splits)
  show "\<exists>yw. xs = [Some (fst (snd (position_at (schedule m) (schedule_elapsed_s now m))) + snd (s_anchor m)),
      Some (fst (position_at (schedule m) (schedule_elapsed_s now m)) + fst (s_anchor m)),
      Some (- snd (snd (position_at (schedule m) (schedule_elapsed_s now m)))), Some yw]"
    using emit_position [of pos yt False now mf] mf by (simp add: r(1) same_flight_def flip: pos)
  show "same_flight m m'" using same_flight_trans [OF mf emit_same [of mf pos yt False now]] by (simp add: r(2) same_defs)
qed

lemma position_rotations:
  assumes "rotations sched sched'"
  shows "dist3 (position_at sched' t) (position_at sched' t') = dist3 (position_at sched t) (position_at sched t')"
proof -
  have rot: "dist3 (rot th a) (rot th b) = dist3 a b" for th a b
    using rot_hypot [of th "fst a - fst b" "fst (snd a) - fst (snd b)"] by (simp add: dist3_hypot rot_def algebra_simps)
  have one: "dist3 (position_at (rotate_schedule gs th) t) (position_at (rotate_schedule gs th) t') = dist3 (position_at gs t) (position_at gs t')" for gs th
    by (simp add: position_at_def rotation_commutes_with_flight case_prod_unfold rot)
  obtain ths where "sched' = fold (\<lambda>th gs. rotate_schedule gs th) ths sched" using assms by (auto simp: rotations_def)
  then show ?thesis
  proof (induction ths arbitrary: sched)
    case (Cons th ths)
    then show ?case using Cons.IH [of "rotate_schedule sched th"] one by simp
  qed simp
qed

text \<open>The distance of two position setpoints.\<close>

definition setpoint_distance :: "axis list \<Rightarrow> axis list \<Rightarrow> metres" where
  "setpoint_distance xs ys = dist3 (the (xs ! 0), the (xs ! 1), the (xs ! 2)) (the (ys ! 0), the (ys ! 1), the (ys ! 2))"

text \<open>In every run the schedule is the one that was built, rotated at most.\<close>

lemma reachable_rotations:
  assumes "new_survey (p_takeoff_altitude_m cp) p = Inr m0" "foldE survey_step (mk_controller cp, m0) es = Inr (s, m)"
  shows "rotations (schedule m0) (schedule m)"
  using survey_node.run_inv [of p "p_takeoff_altitude_m cp" "schedule m0" "(mk_controller cp, m0)" es "(s, m)"] new_survey_inv [OF assms(1)]
    assms(2) by (simp add: survey_inv_def)

text \<open>
  Claim C20: the survey is flown without jumps by the node. Whenever the survey that was built is under way, the
  setpoints of two ticks, the second in the state the first one left and whatever the vehicle did in between, are
  no further apart than the faster of the two requested speeds times the time between them, up to the builder's
  tolerance; also when the field has been rotated to the launch heading.
\<close>

theorem survey_setpoints_continuous:
  assumes new: "new_survey alt p = Inr m0"
    and "0 < lane_spacing (sp_survey p)" "1 / 10 ^ 9 < field_length (sp_survey p)" "0 < speed_mps (sp_survey p)"
      "0 < cube_speed (sp_survey p)" "0 \<le> revisit_gap (sp_survey p)"
    and run: "rotations (schedule m0) (schedule m)" "surveying m"
    and ticks: "survey_setpoint now s m = Inr ((calls, Some xs), m1)" "survey_setpoint now' s' m1 = Inr ((calls', Some ys), m2)"
  shows "setpoint_distance xs ys
    \<le> max (speed_mps (sp_survey p)) (cube_speed (sp_survey p)) * \<bar>us_seconds (now' - now)\<bar> + survey_tolerance (sp_survey p)"
proof -
  let ?kw = "(sp_survey p)\<lparr>altitude_m := alt\<rparr>" and ?v = "max (speed_mps (sp_survey p)) (cube_speed (sp_survey p))"
  have "build_survey_schedule ?kw = Inr (schedule m0)" using new by (auto simp: new_survey_def)
  from built_survey_flies_home [OF this]
  have paced: "dist3 (position_at (schedule m0) t) (position_at (schedule m0) t') \<le> ?v * \<bar>t' - t\<bar> + survey_tolerance (sp_survey p)" for t t'
    using assms(2-6) by (simp add: survey_tolerance_def)
  note rots = run(1)
  obtain yw where xs: "xs = [Some (fst (snd (position_at (schedule m) (schedule_elapsed_s now m))) + snd (s_anchor m)),
      Some (fst (position_at (schedule m) (schedule_elapsed_s now m)) + fst (s_anchor m)),
      Some (- snd (snd (position_at (schedule m) (schedule_elapsed_s now m)))), Some yw]"
    using flight_tick(1) [OF run(2) ticks(1)] by blast
  have same: "same_flight m m1" by (rule flight_tick(2) [OF run(2) ticks(1)])
  then have "surveying m1" using run(2) by (simp add: surveying_def same_defs)
  from flight_tick(1) [OF this ticks(2)] same
  obtain yw' where ys: "ys = [Some (fst (snd (position_at (schedule m) (schedule_elapsed_s now' m))) + snd (s_anchor m)),
      Some (fst (position_at (schedule m) (schedule_elapsed_s now' m)) + fst (s_anchor m)),
      Some (- snd (snd (position_at (schedule m) (schedule_elapsed_s now' m)))), Some yw']"
    by (auto simp: same_defs schedule_elapsed_s_def)
  have "setpoint_distance xs ys = dist3 (position_at (schedule m) (schedule_elapsed_s now m)) (position_at (schedule m) (schedule_elapsed_s now' m))"
    by (simp add: xs ys setpoint_distance_def dist3_def power2_commute ac_simps)
  also have "\<dots> \<le> ?v * \<bar>schedule_elapsed_s now' m - schedule_elapsed_s now m\<bar> + survey_tolerance (sp_survey p)"
    using paced by (simp add: position_rotations [OF rots])
  also have "?v * \<bar>schedule_elapsed_s now' m - schedule_elapsed_s now m\<bar> \<le> ?v * \<bar>us_seconds (now' - now)\<bar>"
    using assms(4) by (intro mult_left_mono) (auto simp: schedule_elapsed_s_def us_seconds_def diff_divide_distrib)
  finally show ?thesis by simp
qed

theorem survey_setpoints_continuous_witness:
  "\<exists>m0 xs ys. new_survey 4 (declared_survey 4) = Inr m0 \<and> length xs = 4
     \<and> setpoint_distance xs ys \<le> 3 / 2 * (1 / 50) + survey_tolerance (sp_survey (declared_survey 4))"
proof -
  obtain m0 where m0: "new_survey 4 (declared_survey 4) = Inr m0" using declared_survey_new by blast
  define m where "m = m0\<lparr>s_climbed := True, yaw_aligned := True, gate_us := 5\<rparr>"
  define s where "s = (mk_controller example_params)\<lparr>takeoff_altitude_m := 4\<rparr>"
  have inv: "survey_inv (declared_survey 4) 4 (schedule m0) s m"
    using m0 by (auto simp: survey_inv_def m_def s_def mk_controller_def new_survey_def)
  obtain calls xs m1 where 1: "survey_setpoint 20005 s m = Inr ((calls, Some xs), m1)" "length xs = 4"
      and "survey_inv (declared_survey 4) 4 (schedule m0) s m1"
    using setpoint_ok [OF inv, of 20005] by (auto simp: okE_iff survey_ok_def)
  then obtain calls' ys m2 where 2: "survey_setpoint 40005 s m1 = Inr ((calls', Some ys), m2)"
    using setpoint_ok [of "declared_survey 4" 4 "schedule m0" s m1 40005] by (auto simp: okE_iff survey_ok_def)
  have "surveying m" "rotations (schedule m0) (schedule m)" using m0 by (auto simp: surveying_def m_def new_survey_def)
  from survey_setpoints_continuous [OF m0 _ _ _ _ _ this(2,1) 1(1) 2] have
    "setpoint_distance xs ys \<le> 3 / 2 * (1 / 50) + survey_tolerance (sp_survey (declared_survey 4))"
    by (simp add: declared_survey_def us_seconds_def)
  then show ?thesis using m0 1(2) by blast
qed

section \<open>Yaw\<close>

lemma wrap_pi_turns: "\<exists>k. wrap_pi x = x + 2 * pi * of_int k"
  using sin_cos_eq_iff [of "wrap_pi x" x] by simp

lemma slewed_bound:
  assumes "slewed_yaw target now False m = (y', m')" "yaw_cmd_enu m = Some y" "0 \<le> slew_step now m"
    and "\<not> (sp_yaw_mode (spar m) = ''hold'' \<and> hold_yaw_enu m \<noteq> None)"
  shows "yaw_cmd_enu m' = Some y' \<and> (\<exists>k. \<bar>y' - y - 2 * pi * of_int k\<bar> \<le> slew_step now m)"
proof -
  define turn where "turn = max (- slew_step now m) (min (slew_step now m) (wrap_pi (target - y)))"
  have y': "y' = wrap_pi (y + turn)" "yaw_cmd_enu m' = Some y'"
    using assms(1,2,4) by (auto simp: slewed_yaw_def Let_def turn_def split: if_splits)
  obtain k where "y' = y + turn + 2 * pi * of_int k" using wrap_pi_turns [of "y + turn"] y'(1) by auto
  moreover have "\<bar>turn\<bar> \<le> slew_step now m" using assms(3) by (auto simp: turn_def)
  ultimately show ?thesis using y'(2) by (intro conjI exI [of _ k]) auto
qed

definition yaw_limit :: "int \<Rightarrow> survey \<Rightarrow> radians" where
  "yaw_limit now m = yaw_rate_max (spar m) * min (max 0 (us_seconds (now - last_tick_us m))) (1 / 4)"

lemma slew_step_le: "0 \<le> yaw_rate_max (spar m) \<Longrightarrow> 0 \<le> slew_step now m \<and> slew_step now m \<le> yaw_limit now m"
  by (auto simp: slew_step_def yaw_limit_def max.commute intro!: mult_left_mono)

lemma emit_slews:
  assumes "fst (emit_setpoint pos target False now m) = xs" "snd (emit_setpoint pos target False now m) = m'"
    and "yaw_cmd_enu m = Some y" "0 \<le> yaw_rate_max (spar m)"
  shows "if sp_yaw_mode (spar m) = ''hold'' \<and> hold_yaw_enu m \<noteq> None then xs ! 3 = Some (wrap_pi (pi / 2 - hold_or_zero m))
    else \<exists>y' k. yaw_cmd_enu m' = Some y' \<and> xs ! 3 = Some (wrap_pi (pi / 2 - y')) \<and> \<bar>y' - y - 2 * pi * of_int k\<bar> \<le> yaw_limit now m"
proof -
  obtain y' m1 where sl: "slewed_yaw target now False m = (y', m1)" by (cases "slewed_yaw target now False m")
  have r: "xs ! 3 = Some (wrap_pi (pi / 2 - y'))" "m' = m1"
    using assms(1,2) by (auto simp: emit_setpoint_def sl ned_setpoint_def)
  show ?thesis
  proof (cases "sp_yaw_mode (spar m) = ''hold'' \<and> hold_yaw_enu m \<noteq> None")
    case True
    then have "y' = hold_or_zero m" using sl by (auto simp: slewed_yaw_def hold_or_zero_def)
    then show ?thesis using True r by simp
  next
    case False
    note b = slew_step_le [OF assms(4), of now]
    have "yaw_cmd_enu m1 = Some y' \<and> (\<exists>k. \<bar>y' - y - 2 * pi * of_int k\<bar> \<le> slew_step now m)"
      by (rule slewed_bound [OF sl assms(3) _ False]) (use b in simp)
    then have "\<exists>k. \<bar>y' - y - 2 * pi * of_int k\<bar> \<le> yaw_limit now m" using b by (meson order_trans)
    then show ?thesis using False r \<open>yaw_cmd_enu m1 = Some y' \<and> _\<close> by auto
  qed
qed

text \<open>
  The commanded yaw turns no faster than its limit. In every tick but those of the alignment after take-off, the
  yaw is the held one in hold mode, and otherwise lies, up to whole turns, within the rate limit times the time since
  the last tick of the one commanded before, a quarter of a second at most; a reversal at the end of a lane, on the way
  home or at landing included.
\<close>

theorem survey_yaw_slews:
  assumes tick: "survey_setpoint now s m = Inr ((calls, Some xs), m')" and "s_climbed m \<longrightarrow> yaw_aligned m"
    and y: "yaw_cmd_enu m = Some y" and rate: "0 \<le> yaw_rate_max (spar m)"
  shows "if sp_yaw_mode (spar m) = ''hold'' \<and> hold_yaw_enu m \<noteq> None then xs ! 3 = Some (wrap_pi (pi / 2 - hold_or_zero m))
    else \<exists>y' k. yaw_cmd_enu m' = Some y' \<and> xs ! 3 = Some (wrap_pi (pi / 2 - y'))
      \<and> \<bar>y' - y - 2 * pi * of_int k\<bar> \<le> yaw_rate_max (spar m) * min (max 0 (us_seconds (now - last_tick_us m))) (1 / 4)"
proof -
  obtain cs ml where sl: "settle_and_land now s m = (cs, ml)" by (cases "settle_and_land now s m")
  have ml: "spar ml = spar m" "hold_yaw_enu ml = hold_yaw_enu m" "yaw_cmd_enu ml = yaw_cmd_enu m" "last_tick_us ml = last_tick_us m"
    using sl by (auto simp: settle_and_land_def Let_def split: if_splits)
  have mc: "spar (survey_climb now s m) = spar m" "hold_yaw_enu (survey_climb now s m) = hold_yaw_enu m"
    "yaw_cmd_enu (survey_climb now s m) = yaw_cmd_enu m" "last_tick_us (survey_climb now s m) = last_tick_us m"
    by (simp_all add: survey_climb_def Let_def)
  have "\<exists>pos target m1. m1 \<in> {m, ml, survey_climb now s m} \<and> fst (emit_setpoint pos target False now m1) = xs
      \<and> yaw_cmd_enu (snd (emit_setpoint pos target False now m1)) = yaw_cmd_enu m'"
    using tick assms(2)
    by (auto simp: survey_setpoint_def survey_nominal_def survey_flight_def survey_home_setpoint_def Let_def answer_with_def sl
        simp del: split_paired_Ex split: if_splits prod.splits) blast+
  then obtain pos target m1 where m1: "m1 \<in> {m, ml, survey_climb now s m}" "fst (emit_setpoint pos target False now m1) = xs"
      "yaw_cmd_enu (snd (emit_setpoint pos target False now m1)) = yaw_cmd_enu m'" by blast
  have same: "spar m1 = spar m" "hold_yaw_enu m1 = hold_yaw_enu m" "yaw_cmd_enu m1 = Some y" "last_tick_us m1 = last_tick_us m"
    using m1(1) ml mc y by auto
  show ?thesis
    using emit_slews [OF m1(2) refl same(3)] rate unfolding same(1,2,4) yaw_limit_def hold_or_zero_def m1(3) by simp
qed

theorem survey_yaw_slews_witness:
  "\<exists>m0 y' k. new_survey 4 (declared_survey 4) = Inr m0 \<and> \<bar>y' - 1 - 2 * pi * of_int k\<bar> \<le> radians 45 * (1 / 50)
     \<and> (\<exists>m' :: survey. yaw_cmd_enu m' = Some y')"
proof -
  obtain m0 where m0: "new_survey 4 (declared_survey 4) = Inr m0" using declared_survey_new by blast
  define m where "m = m0\<lparr>yaw_cmd_enu := Some 1, last_tick_us := 10\<rparr>"
  define s where "s = (mk_controller example_params)\<lparr>takeoff_altitude_m := 4\<rparr>"
  have inv: "survey_inv (declared_survey 4) 4 (schedule m0) s m"
    using m0 by (auto simp: survey_inv_def m_def s_def mk_controller_def new_survey_def)
  obtain calls xs m1 where 1: "survey_setpoint 20010 s m = Inr ((calls, Some xs), m1)"
    using setpoint_ok [OF inv, of 20010] by (auto simp: okE_iff survey_ok_def)
  have "s_climbed m \<longrightarrow> yaw_aligned m" "yaw_cmd_enu m = Some 1" "0 \<le> yaw_rate_max (spar m)"
    using m0 by (auto simp: m_def new_survey_def yaw_rate_max_def declared_survey_def radians_def)
  moreover have "sp_yaw_mode (spar m) = ''track''" "yaw_rate_max (spar m) = radians 45" "last_tick_us m = 10"
    using m0 by (auto simp: m_def new_survey_def yaw_rate_max_def declared_survey_def)
  ultimately obtain y' k where "yaw_cmd_enu m1 = Some y'"
      "\<bar>y' - 1 - 2 * pi * of_int k\<bar> \<le> radians 45 * min (max 0 (us_seconds (20010 - 10))) (1 / 4)"
    using survey_yaw_slews [OF 1, of 1] by auto
  moreover have "min (max 0 (us_seconds (20010 - 10))) (1 / 4) = 1 / 50" by (simp add: us_seconds_def)
  ultimately show ?thesis using m0 by metis
qed

section \<open>Coming home before the survey\<close>

text \<open>
  A come-home before the gate reads a schedule that has not been started: its clock counts from zero, so the way home
  leaves from where the survey would be that long after the epoch of the clock, not from the vehicle.
\<close>

lemma early_home_leaves_from_schedule:
  assumes "s_climbed m" "s_home_us m = 0" "gate_us m = 0" "0 \<le> now" "survey_return_home now m = Inr (calls, m')"
  shows "s_home_from m' = Some (position_at (schedule m) (us_seconds now))"
  using assms by (auto simp: survey_return_home_def current_nominal_def position_at_def schedule_elapsed_s_def us_seconds_def
      split: prod.splits)

end
