(* ===== verification/Prop_Idle.thy ===== *)
theory Prop_Idle
  imports Controller
begin

text \<open>
  The bench mission that idles the motors once
  (\<open>flight_intelligent/prop_idle_dummy_mission.py\<close>): a state machine of its own, beside the offboard
  controller. Messages carry the time they are published at; each callback reads the clock once. PX4's status
  reports are events.
\<close>

section \<open>Parameters and state\<close>

datatype idle_state =
    IdleWaitLink | IdleWaitStart | IdlePrestream | IdleWaitOffboard | IdleWaitArm
  | IdleHoldMinimum | IdleNormalDisarm | IdleForceDisarm | IdleDone

record idle_params =
  ip_rate_hz :: real
  ip_prestream_s :: seconds
  ip_armed_s :: seconds
  ip_transition_timeout_s :: seconds
  ip_status_stale_timeout_s :: seconds
  ip_normal_disarm_timeout_s :: seconds

definition declared_idle :: idle_params where
  "declared_idle = \<lparr>ip_rate_hz = 25, ip_prestream_s = 1, ip_armed_s = 60, ip_transition_timeout_s = 3,
     ip_status_stale_timeout_s = 1, ip_normal_disarm_timeout_s = 3 / 5\<rparr>"

definition validate_parameters :: "idle_params \<Rightarrow> py_error + unit" where
  "validate_parameters p =
     bindE (guardE (5 \<le> ip_rate_hz p \<and> ip_rate_hz p \<le> 100)
              (ValueError ''rate_hz must be between 5 and 100'')) (\<lambda>_.
     bindE (guardE (1 \<le> ip_prestream_s p \<and> ip_prestream_s p \<le> 5)
              (ValueError ''prestream_seconds must be between 1 and 5'')) (\<lambda>_.
     bindE (guardE (1 / 10 \<le> ip_armed_s p \<and> ip_armed_s p \<le> 60)
              (ValueError ''armed_seconds must be between 0.1 and 60'')) (\<lambda>_.
     bindE (guardE (1 \<le> ip_transition_timeout_s p \<and> ip_transition_timeout_s p \<le> 10)
              (ValueError ''transition_timeout_seconds must be between 1 and 10'')) (\<lambda>_.
     bindE (guardE (1 / 2 \<le> ip_status_stale_timeout_s p \<and> ip_status_stale_timeout_s p \<le> 5)
              (ValueError ''status_stale_timeout_seconds must be between 0.5 and 5'')) (\<lambda>_.
     guardE (1 / 5 \<le> ip_normal_disarm_timeout_s p \<and> ip_normal_disarm_timeout_s p \<le> 2)
              (ValueError ''normal_disarm_timeout_seconds must be between 0.2 and 2''))))))"

text \<open>The fields of PX4's status the mission reads.\<close>

record vehicle_status =
  vs_arming :: int
  vs_nav :: nav_state
  vs_failsafe :: bool

text \<open>An unset motor channel is \<open>NaN\<close>, here \<open>None\<close>.\<close>

datatype idle_msg =
    DirectActuatorMode int
  | Motors int "axis list"
  | IdleCommand int vehicle_command

record idle =
  ipar :: idle_params
  vstatus :: "vehicle_status option"
  vstatus_us :: int
  start_requested :: bool
  attempted :: bool
  istate :: idle_state
  state_started_us :: int
  last_force_disarm_us :: int
  context_ok :: bool
  iout :: "idle_msg list"

definition new_idle :: "int \<Rightarrow> idle_params \<Rightarrow> py_error + idle" where
  "new_idle now p =
     bindE (validate_parameters p) (\<lambda>_.
       Inr \<lparr>ipar = p, vstatus = None, vstatus_us = 0, start_requested = False, attempted = False,
            istate = IdleWaitLink, state_started_us = now, last_force_disarm_us = 0, context_ok = True, iout = []\<rparr>)"

section \<open>Helpers\<close>

definition idle_armed :: "idle \<Rightarrow> bool" where
  "idle_armed s = (case vstatus s of None \<Rightarrow> False | Some v \<Rightarrow> vs_arming v = 2)"

definition set_state :: "int \<Rightarrow> idle_state \<Rightarrow> idle \<Rightarrow> idle" where
  "set_state now q s = s\<lparr>istate := q, state_started_us := now\<rparr>"

definition elapsed :: "int \<Rightarrow> idle \<Rightarrow> seconds" where
  "elapsed now s = of_int (now - state_started_us s) / 1000000"

definition status_fresh :: "int \<Rightarrow> idle \<Rightarrow> bool" where
  "status_fresh now s =
     (vstatus s \<noteq> None \<and> now - vstatus_us s \<le> py_int (ip_status_stale_timeout_s (ipar s) * 1000000))"

definition motor_control :: "bool \<Rightarrow> axis list" where
  "motor_control stopped = (if stopped then replicate 12 None else replicate 4 (Some 0) @ replicate 8 None)"

definition publish_outputs :: "int \<Rightarrow> bool \<Rightarrow> idle \<Rightarrow> idle" where
  "publish_outputs now stopped s = s\<lparr>iout := iout s @ [DirectActuatorMode now, Motors now (motor_control stopped)]\<rparr>"

definition idle_command :: "int \<Rightarrow> vehicle_command \<Rightarrow> idle \<Rightarrow> idle" where
  "idle_command now c s = s\<lparr>iout := iout s @ [IdleCommand now c]\<rparr>"

definition idle_finish :: "int \<Rightarrow> idle \<Rightarrow> idle" where
  "idle_finish now s = (set_state now IdleDone s)\<lparr>context_ok := False\<rparr>"

definition begin_attempt :: "int \<Rightarrow> idle \<Rightarrow> idle" where
  "begin_attempt now s0 =
     (let s = s0\<lparr>attempted := True\<rparr>
      in case vstatus s of
           None \<Rightarrow> idle_finish now s
         | Some v \<Rightarrow>
             if vs_arming v \<noteq> 1 then idle_finish now s
             else if vs_failsafe v then idle_finish now s
             else set_state now IdlePrestream s)"

definition begin_cleanup :: "int \<Rightarrow> idle \<Rightarrow> idle" where
  "begin_cleanup now s0 =
     (let s = publish_outputs now True s0
      in if \<not> idle_armed s then idle_finish now s
         else set_state now IdleNormalDisarm (idle_command now (ArmDisarm 0 0) s))"

definition begin_forced_disarm :: "int \<Rightarrow> idle \<Rightarrow> idle" where
  "begin_forced_disarm now s = set_state now IdleForceDisarm (s\<lparr>last_force_disarm_us := 0\<rparr>)"

definition publish_for_state :: "int \<Rightarrow> idle \<Rightarrow> idle" where
  "publish_for_state now s =
     (if istate s \<in> {IdlePrestream, IdleWaitOffboard, IdleWaitArm, IdleHoldMinimum} then publish_outputs now False s
      else if istate s \<in> {IdleNormalDisarm, IdleForceDisarm} then publish_outputs now True s
      else s)"

definition send_forced_disarm :: "int \<Rightarrow> idle \<Rightarrow> idle" where
  "send_forced_disarm now s0 =
     (let s = publish_outputs now True s0
      in if now - last_force_disarm_us s \<ge> 200000
         then idle_command now (ArmDisarm 0 force_arm_magic) (s\<lparr>last_force_disarm_us := now\<rparr>)
         else s)"

section \<open>Callbacks\<close>

definition idle_status_cb :: "int \<Rightarrow> vehicle_status \<Rightarrow> idle \<Rightarrow> idle" where
  "idle_status_cb now v s = s\<lparr>vstatus := Some v, vstatus_us := now\<rparr>"

definition idle_start_cb :: "bool \<Rightarrow> idle \<Rightarrow> idle" where
  "idle_start_cb data s =
     (if \<not> data then s else if attempted s \<or> start_requested s then s else s\<lparr>start_requested := True\<rparr>)"

definition end_or_abort :: "int \<Rightarrow> idle \<Rightarrow> idle" where
  "end_or_abort now s =
     (if istate s \<in> {IdleNormalDisarm, IdleForceDisarm, IdleDone} then s
      else if istate s \<in> {IdleWaitLink, IdleWaitStart} then idle_finish now (s\<lparr>attempted := True\<rparr>)
      else begin_cleanup now s)"

definition idle_end_cb :: "int \<Rightarrow> bool \<Rightarrow> idle \<Rightarrow> idle" where
  "idle_end_cb now data s = (if data then end_or_abort now s else s)"

definition idle_abort_cb :: "int \<Rightarrow> bool \<Rightarrow> idle \<Rightarrow> idle" where
  "idle_abort_cb now data s = (if data then end_or_abort now s else s)"

section \<open>The timer\<close>

definition tick_wait_start :: "int \<Rightarrow> idle \<Rightarrow> idle" where
  "tick_wait_start now s =
     (if \<not> status_fresh now s then set_state now IdleWaitLink s
      else if start_requested s then begin_attempt now s else s)"

definition tick_wait_offboard :: "int \<Rightarrow> idle \<Rightarrow> py_error + idle" where
  "tick_wait_offboard now s =
     bindE (need (vstatus s)) (\<lambda>v.
       Inr (if vs_nav v = NavOffboard then set_state now IdleWaitArm (idle_command now (ArmDisarm 1 0) s)
            else if elapsed now s \<ge> ip_transition_timeout_s (ipar s) then begin_cleanup now s
            else s))"

definition tick_wait_arm :: "int \<Rightarrow> idle \<Rightarrow> py_error + idle" where
  "tick_wait_arm now s =
     bindE (need (vstatus s)) (\<lambda>v.
       Inr (if vs_nav v \<noteq> NavOffboard then begin_cleanup now s
            else if idle_armed s then set_state now IdleHoldMinimum s
            else if elapsed now s \<ge> ip_transition_timeout_s (ipar s) then begin_cleanup now s
            else s))"

definition tick_hold :: "int \<Rightarrow> idle \<Rightarrow> py_error + idle" where
  "tick_hold now s =
     (if \<not> idle_armed s then Inr (idle_finish now s)
      else
        bindE (need (vstatus s)) (\<lambda>v.
          Inr (if vs_nav v \<noteq> NavOffboard then begin_cleanup now s
               else if elapsed now s \<ge> ip_armed_s (ipar s) then begin_cleanup now s
               else s)))"

definition tick_running :: "int \<Rightarrow> idle \<Rightarrow> py_error + idle" where
  "tick_running now s0 =
     (let s = publish_for_state now s0
      in if \<not> status_fresh now s
         then Inr (if istate s = IdleForceDisarm then send_forced_disarm now s else begin_forced_disarm now s)
         else
           case istate s of
             IdlePrestream \<Rightarrow>
               Inr (if elapsed now s \<ge> ip_prestream_s (ipar s)
                    then set_state now IdleWaitOffboard (idle_command now (DoSetMode 1 6) s) else s)
           | IdleWaitOffboard \<Rightarrow> tick_wait_offboard now s
           | IdleWaitArm \<Rightarrow> tick_wait_arm now s
           | IdleHoldMinimum \<Rightarrow> tick_hold now s
           | IdleNormalDisarm \<Rightarrow>
               Inr (if \<not> idle_armed s then idle_finish now s
                    else if elapsed now s \<ge> ip_normal_disarm_timeout_s (ipar s) then begin_forced_disarm now s
                    else s)
           | IdleForceDisarm \<Rightarrow> Inr (if \<not> idle_armed s then idle_finish now s else send_forced_disarm now s)
           | _ \<Rightarrow> Inr s)"

definition idle_tick :: "int \<Rightarrow> idle \<Rightarrow> py_error + idle" where
  "idle_tick now s =
     (if istate s = IdleWaitLink then
        (if status_fresh now s then Inr (tick_wait_start now (set_state now IdleWaitStart s)) else Inr s)
      else if istate s = IdleWaitStart then Inr (tick_wait_start now s)
      else if istate s = IdleDone then Inr s
      else tick_running now s)"

section \<open>The node\<close>

datatype idle_event =
    IdleStatus int vehicle_status
  | IdleStart bool
  | IdleEnd int bool
  | IdleAbort int bool
  | IdleTick int

definition idle_step :: "idle \<Rightarrow> idle_event \<Rightarrow> py_error + idle" where
  "idle_step s e =
     (case e of
        IdleStatus now v \<Rightarrow> Inr (idle_status_cb now v s)
      | IdleStart b \<Rightarrow> Inr (idle_start_cb b s)
      | IdleEnd now b \<Rightarrow> Inr (idle_end_cb now b s)
      | IdleAbort now b \<Rightarrow> Inr (idle_abort_cb now b s)
      | IdleTick now \<Rightarrow> idle_tick now s)"

text \<open>
  \<open>shutdown_cleanup\<close>: each turn of its loop comes with the time, whether the context is still up when the loop
  tests it, and the callback that \<open>spin_once\<close> runs, if one is ready. The boolean tells whether the loop has
  ended within the turns given.
\<close>

type_synonym loop_turn = "bool \<times> int \<times> idle_event option"

fun cleanup_loop :: "loop_turn list \<Rightarrow> int \<Rightarrow> idle \<Rightarrow> py_error + (bool \<times> idle)" where
  "cleanup_loop [] next_us s = Inr (\<not> idle_armed s, s)"
| "cleanup_loop ((up, now, ev) # turns) next_us s =
     (if \<not> (up \<and> context_ok s \<and> idle_armed s) then Inr (True, s)
      else
        let s1 = publish_outputs now True s;
            (s2, next2) = (if now \<ge> next_us
                           then (idle_command now (ArmDisarm 0 force_arm_magic) s1, now + 200000) else (s1, next_us))
        in bindE (case ev of None \<Rightarrow> Inr s2 | Some e \<Rightarrow> idle_step s2 e) (cleanup_loop turns next2))"

definition shutdown_cleanup :: "loop_turn list \<Rightarrow> idle \<Rightarrow> py_error + (bool \<times> idle)" where
  "shutdown_cleanup turns s = (if \<not> idle_armed s then Inr (True, s) else cleanup_loop turns 0 s)"

end
