(* ===== verification/Prop_Idle_Properties.thy ===== *)
theory Prop_Idle_Properties
  imports Prop_Idle
begin

text \<open>
  The bench mission never raises, arms at most once and only when asked, runs the motors for a bounded time, never
  starts them again once it cleans up, and its shutdown loop keeps trying to disarm.
\<close>

section \<open>Steps\<close>

lemmas idle_publish = publish_outputs_def idle_command_def set_state_def idle_finish_def begin_cleanup_def
  begin_forced_disarm_def publish_for_state_def send_forced_disarm_def

lemmas idle_ticks = tick_wait_start_def begin_attempt_def tick_wait_offboard_def tick_wait_arm_def tick_hold_def

lemmas idle_callbacks = idle_status_cb_def idle_start_cb_def idle_end_cb_def idle_abort_cb_def end_or_abort_def

definition engaged_states :: "idle_state set" where
  "engaged_states = {IdlePrestream, IdleWaitOffboard, IdleWaitArm, IdleHoldMinimum}"

definition cleanup_states :: "idle_state set" where
  "cleanup_states = {IdleNormalDisarm, IdleForceDisarm, IdleDone}"

lemma fresh_status: "status_fresh now s \<Longrightarrow> \<exists>v. vstatus s = Some v"
  by (auto simp: status_fresh_def)

lemma publish_for_state_simps [simp]:
  "vstatus (publish_for_state now s) = vstatus s" "istate (publish_for_state now s) = istate s"
  "vstatus_us (publish_for_state now s) = vstatus_us s" "ipar (publish_for_state now s) = ipar s"
  "state_started_us (publish_for_state now s) = state_started_us s"
  "last_force_disarm_us (publish_for_state now s) = last_force_disarm_us s"
  "status_fresh now' (publish_for_state now s) = status_fresh now' s" "elapsed now' (publish_for_state now s) = elapsed now' s"
  "idle_armed (publish_for_state now s) = idle_armed s"
  by (simp_all add: publish_for_state_def publish_outputs_def status_fresh_def elapsed_def idle_armed_def)

lemma publish_fields [simp]:
  "istate (publish_outputs now b s) = istate s" "vstatus (publish_outputs now b s) = vstatus s"
  "ipar (publish_outputs now b s) = ipar s" "state_started_us (publish_outputs now b s) = state_started_us s"
  "status_fresh now' (publish_outputs now b s) = status_fresh now' s" "elapsed now' (publish_outputs now b s) = elapsed now' s"
  "idle_armed (publish_outputs now b s) = idle_armed s" "last_force_disarm_us (publish_outputs now b s) = last_force_disarm_us s"
  "iout (publish_outputs now b s) = iout s @ [DirectActuatorMode now, Motors now (motor_control b)]"
  by (simp_all add: publish_outputs_def status_fresh_def elapsed_def idle_armed_def)

lemma state_results [simp]:
  "istate (set_state now q s) = q" "istate (idle_finish now s) = IdleDone" "istate (begin_forced_disarm now s) = IdleForceDisarm"
  "istate (begin_cleanup now s) = (if idle_armed s then IdleNormalDisarm else IdleDone)"
  by (simp_all add: idle_publish idle_armed_def)

lemma step_total: "\<exists>t. idle_step s e = Inr t"
proof (cases e)
  case (IdleTick now)
  show ?thesis
  proof (cases "status_fresh now s")
    case True
    then obtain v where "vstatus s = Some v" using fresh_status by blast
    then show ?thesis
      by (auto simp: IdleTick idle_step_def idle_tick_def tick_running_def Let_def tick_wait_offboard_def tick_wait_arm_def
          tick_hold_def split: idle_state.split)
  qed (auto simp: IdleTick idle_step_def idle_tick_def tick_running_def Let_def)
qed (auto simp: idle_step_def)

interpretation idle: safe_machine idle_step "\<lambda>_. True"
  by unfold_locales (auto simp: step_total)

text \<open>What a timer tick does to an engaged machine, state by state.\<close>

inductive engaged_move :: "int \<Rightarrow> idle \<Rightarrow> idle \<Rightarrow> bool" for now s where
  stay: "engaged_move now s s"
| offboard: "istate s = IdlePrestream \<Longrightarrow> elapsed now s \<ge> ip_prestream_s (ipar s)
    \<Longrightarrow> engaged_move now s (set_state now IdleWaitOffboard (idle_command now (DoSetMode 1 6) s))"
| arm: "istate s = IdleWaitOffboard \<Longrightarrow> vstatus s = Some v \<Longrightarrow> vs_nav v = NavOffboard
    \<Longrightarrow> engaged_move now s (set_state now IdleWaitArm (idle_command now (ArmDisarm 1 0) s))"
| hold: "istate s = IdleWaitArm \<Longrightarrow> engaged_move now s (set_state now IdleHoldMinimum s)"
| cleanup: "engaged_move now s (begin_cleanup now s)"
| finish: "engaged_move now s (idle_finish now s)"
| force: "engaged_move now s (begin_forced_disarm now s)"

definition time_limit :: "idle_params \<Rightarrow> idle_state \<Rightarrow> seconds" where
  "time_limit p q =
     (case q of IdlePrestream \<Rightarrow> ip_prestream_s p | IdleHoldMinimum \<Rightarrow> ip_armed_s p | _ \<Rightarrow> ip_transition_timeout_s p)"

lemma engaged_tick:
  assumes "idle_tick now s = Inr t" "istate s \<in> engaged_states"
  shows "engaged_move now (publish_outputs now False s) t
    \<and> (istate t = istate s \<longrightarrow> elapsed now s < time_limit (ipar s) (istate s))"
proof -
  have p: "publish_for_state now s = publish_outputs now False s"
    using assms(2) by (auto simp: publish_for_state_def engaged_states_def)
  note simps = idle_tick_def tick_running_def Let_def p tick_wait_offboard_def tick_wait_arm_def tick_hold_def time_limit_def
  show ?thesis
  proof (cases "status_fresh now s")
    case False
    then show ?thesis
      using assms by (auto simp: simps engaged_states_def intro: engaged_move.force)
  next
    case True
    then obtain v where v: "vstatus s = Some v" using fresh_status by blast
    show ?thesis
      using assms True v
      by (cases "istate s")
        (auto simp: simps engaged_states_def engaged_move.intros engaged_move.arm [where v = v] split: if_splits)
  qed
qed

section \<open>Arming\<close>

fun arms :: "idle_msg \<Rightarrow> bool" where
  "arms (IdleCommand now (ArmDisarm onoff magic)) = (onoff = 1)"
| "arms _ = False"

fun disarms :: "idle_msg \<Rightarrow> bool" where
  "disarms (IdleCommand now c) = (c = ArmDisarm 0 0 \<or> c = ArmDisarm 0 force_arm_magic)"
| "disarms (Motors now c) = (c = motor_control True)"
| "disarms (DirectActuatorMode now) = True"

lemma disarms_not_arms: "disarms msg \<Longrightarrow> \<not> arms msg"
  by (cases msg) auto

text \<open>The steps of a machine that waits, and of one that cleans up.\<close>

inductive idle_change :: "int \<Rightarrow> idle \<Rightarrow> idle \<Rightarrow> bool" for now s where
  quiet: "istate t = istate s \<Longrightarrow> iout t = iout s \<Longrightarrow> idle_change now s t"
| waiting: "istate s \<in> {IdleWaitLink, IdleWaitStart} \<Longrightarrow> istate t \<in> {IdleWaitLink, IdleWaitStart, IdleDone}
    \<Longrightarrow> iout t = iout s \<Longrightarrow> idle_change now s t"
| attempt: "istate s \<in> {IdleWaitLink, IdleWaitStart} \<Longrightarrow> start_requested s \<Longrightarrow> vstatus s = Some v \<Longrightarrow> vs_arming v = 1
    \<Longrightarrow> \<not> vs_failsafe v \<Longrightarrow> t = set_state now IdlePrestream (s\<lparr>attempted := True\<rparr>) \<Longrightarrow> idle_change now s t"
| engaged: "istate s \<in> engaged_states \<Longrightarrow> engaged_move now (publish_outputs now False s) t \<Longrightarrow> idle_change now s t"
| cleaning: "istate s \<in> engaged_states \<union> cleanup_states \<Longrightarrow> istate t \<in> cleanup_states \<Longrightarrow> iout t = iout s @ new
    \<Longrightarrow> list_all disarms new \<Longrightarrow> idle_change now s t"

lemma begin_cleanup_out:
  "\<exists>new. iout (begin_cleanup now s) = iout s @ new \<and> list_all disarms new"
  "istate (begin_cleanup now s) \<in> cleanup_states"
  by (auto simp: begin_cleanup_def Let_def idle_finish_def set_state_def idle_command_def cleanup_states_def)

lemma end_or_abort_out: "\<exists>new. iout (end_or_abort now s) = iout s @ new \<and> list_all disarms new"
  using begin_cleanup_out(1) [of now s] by (simp add: end_or_abort_def idle_finish_def set_state_def)

lemma forced_out:
  "\<exists>new. iout (send_forced_disarm now (publish_for_state now s)) = iout s @ new \<and> list_all disarms new"
  if "istate s = IdleForceDisarm"
  using that by (auto simp: publish_for_state_def send_forced_disarm_def Let_def idle_command_def)

lemma end_change: "idle_change now s (end_or_abort now s)"
proof -
  consider "istate s \<in> {IdleNormalDisarm, IdleForceDisarm, IdleDone}" | "istate s \<in> {IdleWaitLink, IdleWaitStart}"
    | "istate s \<in> engaged_states"
    by (cases "istate s") (auto simp: engaged_states_def)
  then show ?thesis
  proof cases
    case 1
    then show ?thesis by (intro idle_change.quiet) (auto simp: end_or_abort_def)
  next
    case 2
    then show ?thesis by (intro idle_change.waiting) (auto simp: end_or_abort_def idle_finish_def set_state_def)
  next
    case 3
    then have "end_or_abort now s = begin_cleanup now s" by (auto simp: end_or_abort_def engaged_states_def)
    then show ?thesis using 3 begin_cleanup_out [of now s] idle_change.cleaning [of s "begin_cleanup now s"] by auto
  qed
qed

lemma idle_step_change:
  assumes "idle_step s e = Inr t"
  shows "\<exists>now. idle_change now s t"
proof (cases e)
  case (IdleTick now)
  note tick = assms [unfolded IdleTick idle_step_def, simplified]
  consider "istate s \<in> {IdleWaitLink, IdleWaitStart}" | "istate s \<in> engaged_states" | "istate s = IdleDone"
    | "istate s \<in> {IdleNormalDisarm, IdleForceDisarm}"
    by (cases "istate s") (auto simp: engaged_states_def)
  then show ?thesis
  proof cases
    case 1
    show ?thesis
    proof (cases "istate t = IdlePrestream")
      case True
      then have "idle_change now s t"
        using 1 tick by (intro idle_change.attempt [where v = "the (vstatus s)"])
          (auto simp: idle_tick_def tick_wait_start_def begin_attempt_def Let_def set_state_def idle_finish_def status_fresh_def
            split: if_splits option.splits)
      then show ?thesis by blast
    next
      case False
      then have "idle_change now s t"
        using 1 tick by (intro idle_change.waiting)
          (auto simp: idle_tick_def tick_wait_start_def begin_attempt_def Let_def set_state_def idle_finish_def status_fresh_def
            split: if_splits option.splits)
      then show ?thesis by blast
    qed
  next
    case 2
    then show ?thesis using engaged_tick [OF tick] idle_change.engaged by blast
  next
    case 3
    then have "t = s" using tick by (simp add: idle_tick_def)
    then show ?thesis using idle_change.quiet by blast
  next
    case 4
    have "istate t \<in> cleanup_states \<and> (\<exists>new. iout t = iout s @ new \<and> list_all disarms new)"
      using 4 tick forced_out [of s now]
      by (auto simp: idle_tick_def tick_running_def Let_def cleanup_states_def publish_for_state_def send_forced_disarm_def
          idle_command_def begin_forced_disarm_def idle_finish_def set_state_def split: if_splits)
    then show ?thesis using 4 idle_change.cleaning [of s t _ now] by (auto simp: cleanup_states_def)
  qed
next
  case (IdleStatus now v)
  then show ?thesis using assms idle_change.quiet [of t s] by (auto simp: idle_step_def idle_status_cb_def)
next
  case (IdleStart b)
  then show ?thesis using assms idle_change.quiet [of t s] by (auto simp: idle_step_def idle_start_cb_def)
next
  case (IdleEnd now b)
  then show ?thesis using assms end_change idle_change.quiet [of s s] by (auto simp: idle_step_def idle_end_cb_def split: if_splits)
next
  case (IdleAbort now b)
  then show ?thesis using assms end_change idle_change.quiet [of s s] by (auto simp: idle_step_def idle_abort_cb_def split: if_splits)
qed

inductive_cases idle_changeE: "idle_change now s t"

inductive_cases engaged_moveE: "engaged_move now s t"

lemma cleanup_change:
  assumes "idle_change now s t" "istate s \<in> cleanup_states"
  shows "istate t \<in> cleanup_states \<and> (\<exists>new. iout t = iout s @ new \<and> list_all disarms new)"
  using assms by (auto elim!: idle_changeE simp: cleanup_states_def engaged_states_def)

interpretation cleaning: fallible_progress idle_step "\<lambda>s. istate s \<in> cleanup_states"
  "\<lambda>s t. \<exists>new. iout t = iout s @ new \<and> list_all disarms new"
proof
  show "istate s' \<in> cleanup_states" if "istate s \<in> cleanup_states" "idle_step s e = Inr s'" for s e s'
    using idle_step_change [OF that(2)] cleanup_change that(1) by blast
  show "\<exists>new. iout s' = iout s @ new \<and> list_all disarms new" if "istate s \<in> cleanup_states" "idle_step s e = Inr s'" for s e s'
    using idle_step_change [OF that(2)] cleanup_change that(1) by blast
  show "\<exists>new. iout u = iout s @ new \<and> list_all disarms new"
    if "\<exists>new. iout t = iout s @ new \<and> list_all disarms new" "\<exists>new. iout u = iout t @ new \<and> list_all disarms new" for s t u :: idle
    using that by (elim exE) (auto intro: exI [of _ "a @ b" for a b])
qed auto

text \<open>
  The clean-up is one-way. Once the bench mission disarms, forces a disarm or is done, no event ever starts the
  motors again: whatever arrives, everything it publishes from then on is a stopped output or a disarm command, and it
  stays in the clean-up.
\<close>

theorem prop_idle_cleanup_one_way:
  assumes "istate s \<in> {IdleNormalDisarm, IdleForceDisarm, IdleDone}" "foldE idle_step s es = Inr t"
  shows "istate t \<in> {IdleNormalDisarm, IdleForceDisarm, IdleDone}
    \<and> (\<exists>new. iout t = iout s @ new \<and> list_all disarms new)"
  using cleaning.run_inv [OF _ assms(2)] cleaning.run_ahead [OF _ assms(2)] assms(1) by (simp add: cleanup_states_def)

definition armed_idle :: idle where
  "armed_idle = \<lparr>ipar = declared_idle, vstatus = Some \<lparr>vs_arming = 2, vs_nav = NavOffboard, vs_failsafe = False\<rparr>, vstatus_us = 90,
     start_requested = True, attempted = True, istate = IdleNormalDisarm, state_started_us = 80, last_force_disarm_us = 0,
     context_ok = True, iout = []\<rparr>"

theorem prop_idle_cleanup_one_way_witness:
  "\<exists>new. iout (publish_outputs 100 True (idle_start_cb True armed_idle)) = iout armed_idle @ new \<and> list_all disarms new"
proof -
  have "foldE idle_step armed_idle [IdleStart True, IdleTick 100] = Inr (publish_outputs 100 True (idle_start_cb True armed_idle))"
    by (simp add: armed_idle_def idle_step_def idle_start_cb_def idle_tick_def tick_running_def publish_for_state_def Let_def
        publish_outputs_def status_fresh_def idle_armed_def elapsed_def declared_idle_def py_int_def)
  from prop_idle_cleanup_one_way [OF _ this] show ?thesis by (simp add: armed_idle_def)
qed

section \<open>Arming once, when asked\<close>

definition asked :: "idle_event list \<Rightarrow> bool" where
  "asked h \<longleftrightarrow> IdleStart True \<in> set h \<and> (\<exists>now v. IdleStatus now v \<in> set h \<and> vs_arming v = 1 \<and> \<not> vs_failsafe v)"

definition offboard_reported :: "idle_event list \<Rightarrow> bool" where
  "offboard_reported h \<longleftrightarrow> (\<exists>now v. IdleStatus now v \<in> set h \<and> vs_nav v = NavOffboard)"

definition mode_requested :: "idle_msg list \<Rightarrow> bool" where
  "mode_requested msgs \<longleftrightarrow> (\<exists>now. IdleCommand now (DoSetMode 1 6) \<in> set msgs)"

definition arming_ok :: "idle_event list \<Rightarrow> idle_state \<Rightarrow> idle_msg list \<Rightarrow> bool" where
  "arming_ok h q msgs \<longleftrightarrow>
     (q \<in> engaged_states \<longrightarrow> asked h)
     \<and> (q \<in> {IdleWaitLink, IdleWaitStart, IdlePrestream, IdleWaitOffboard} \<longrightarrow> filter arms msgs = [])
     \<and> (q = IdleWaitOffboard \<longrightarrow> mode_requested msgs)
     \<and> (filter arms msgs = []
        \<or> (\<exists>now. filter arms msgs = [IdleCommand now (ArmDisarm 1 0)]) \<and> asked h \<and> offboard_reported h \<and> mode_requested msgs)"

definition idle_inv :: "idle_event list \<Rightarrow> idle \<Rightarrow> bool" where
  "idle_inv h s \<longleftrightarrow>
     (\<forall>v. vstatus s = Some v \<longrightarrow> (\<exists>now. IdleStatus now v \<in> set h)) \<and> (start_requested s \<longrightarrow> IdleStart True \<in> set h)
     \<and> arming_ok h (istate s) (iout s)"

lemma step_inputs:
  assumes "idle_step s e = Inr t"
  shows "vstatus t = (case e of IdleStatus now v \<Rightarrow> Some v | _ \<Rightarrow> vstatus s)"
    "start_requested t = (start_requested s \<or> e = IdleStart True \<and> \<not> attempted s)"
  using assms
  by (auto simp: idle_step_def idle_callbacks begin_cleanup_def Let_def idle_command_def idle_finish_def set_state_def idle_tick_def
      tick_running_def idle_ticks publish_for_state_def send_forced_disarm_def begin_forced_disarm_def publish_outputs_def
      split: if_splits idle_event.splits idle_state.splits option.splits)

lemma history_grows: "arming_ok h q msgs \<Longrightarrow> arming_ok (h @ [e]) q msgs"
  by (auto simp: arming_ok_def asked_def offboard_reported_def)

lemma no_arms: "list_all disarms new \<Longrightarrow> filter arms new = []"
  by (induction new) (auto simp: disarms_not_arms)

text \<open>Messages that do not arm keep the arming in order.\<close>

lemma arming_more:
  assumes "arming_ok h q msgs" "filter arms new = []"
    and "q' \<in> engaged_states \<longrightarrow> asked h" "q' = IdleWaitOffboard \<longrightarrow> mode_requested (msgs @ new)"
    and "q' \<in> {IdleWaitLink, IdleWaitStart, IdlePrestream, IdleWaitOffboard} \<longrightarrow> filter arms msgs = []"
  shows "arming_ok h q' (msgs @ new)"
proof -
  have "mode_requested msgs \<Longrightarrow> mode_requested (msgs @ new)" by (auto simp: mode_requested_def)
  then show ?thesis using assms unfolding arming_ok_def by auto
qed

lemma arming_first:
  assumes "arming_ok h IdleWaitOffboard msgs" "offboard_reported h"
  shows "arming_ok h IdleWaitArm (msgs @ [DirectActuatorMode now, Motors now c, IdleCommand now (ArmDisarm 1 0)])"
  using assms by (auto simp: arming_ok_def mode_requested_def engaged_states_def)

lemma engaged_arming:
  assumes "engaged_move now (publish_outputs now False s) t" "arming_ok h (istate s) (iout s)" "istate s \<in> engaged_states"
    and "\<And>v. vstatus s = Some v \<Longrightarrow> vs_nav v = NavOffboard \<Longrightarrow> offboard_reported h"
  shows "arming_ok h (istate t) (iout t)"
proof -
  have a: "asked h" using assms(2,3) by (simp add: arming_ok_def)
  have stay: "arming_ok h (istate s) (iout s @ new)" if "filter arms new = []" for new
    using arming_more [OF assms(2) that] assms(2) by (auto simp: arming_ok_def mode_requested_def)
  have out: "arming_ok h q (iout s @ new)" if "filter arms new = []" "q \<in> cleanup_states" for q new
    using arming_more [OF assms(2) that(1)] that(2) by (auto simp: cleanup_states_def engaged_states_def)
  from assms(1) show ?thesis
  proof (cases rule: engaged_move.cases)
    case (arm v)
    then show ?thesis
      using arming_first [of h "iout s"] assms(2,4) by (auto simp: set_state_def idle_command_def)
  next
    case offboard
    then show ?thesis
      using arming_more [OF assms(2), of "[DirectActuatorMode now, Motors now (motor_control False), IdleCommand now (DoSetMode 1 6)]"
          IdleWaitOffboard] assms(2) a
      by (auto simp: set_state_def idle_command_def mode_requested_def arming_ok_def)
  next
    case hold
    then show ?thesis
      using arming_more [OF assms(2), of "[DirectActuatorMode now, Motors now (motor_control False)]" IdleHoldMinimum] a
      by (auto simp: set_state_def)
  next
    case cleanup
    then show ?thesis using out by (auto simp: begin_cleanup_def Let_def idle_finish_def set_state_def idle_command_def cleanup_states_def)
  qed (use stay out in \<open>auto simp: idle_finish_def begin_forced_disarm_def set_state_def cleanup_states_def\<close>)
qed

lemma change_arming:
  assumes "idle_change now s t" "idle_inv h s"
  shows "arming_ok h (istate t) (iout t)"
  using assms(1)
proof (cases rule: idle_change.cases)
  case quiet
  then show ?thesis using assms(2) by (simp add: idle_inv_def)
next
  case waiting
  moreover from this have "filter arms (iout s) = []" "arming_ok h (istate s) (iout s)"
    using assms(2) by (auto simp: idle_inv_def arming_ok_def)
  ultimately show ?thesis using arming_more [of h "istate s" "iout s" "[]" "istate t"] by (auto simp: engaged_states_def)
next
  case (attempt v)
  then have "asked h" using assms(2) by (auto simp: idle_inv_def asked_def)
  moreover have "filter arms (iout s) = []" "arming_ok h (istate s) (iout s)"
    using attempt assms(2) by (auto simp: idle_inv_def arming_ok_def)
  ultimately have "arming_ok h IdlePrestream (iout s)" using arming_more [of h "istate s" "iout s" "[]" IdlePrestream] by simp
  then show ?thesis by (simp add: attempt set_state_def)
next
  case engaged
  have "offboard_reported h" if "vstatus s = Some v" "vs_nav v = NavOffboard" for v
    using that assms(2) by (auto simp: idle_inv_def offboard_reported_def)
  then show ?thesis using engaged_arming [OF engaged(2) _ engaged(1)] assms(2) by (auto simp: idle_inv_def)
next
  case (cleaning new)
  then show ?thesis
    using assms(2) arming_more [of h "istate s" "iout s" new "istate t"] no_arms
    by (auto simp: idle_inv_def cleanup_states_def engaged_states_def)
qed

lemma idle_inv_step:
  assumes "idle_inv h s" "idle_step s e = Inr t"
  shows "idle_inv (h @ [e]) t"
proof -
  obtain now where c: "idle_change now s t" using idle_step_change [OF assms(2)] by blast
  have "\<exists>now. IdleStatus now v \<in> set (h @ [e])" if "vstatus t = Some v" for v
    using that step_inputs(1) [OF assms(2)] assms(1) by (cases e) (auto simp: idle_inv_def)
  moreover have "start_requested t \<longrightarrow> IdleStart True \<in> set (h @ [e])"
    using step_inputs(2) [OF assms(2)] assms(1) by (auto simp: idle_inv_def)
  ultimately show ?thesis using change_arming [OF c assms(1)] history_grows unfolding idle_inv_def by blast
qed

lemma idle_inv_run: "foldE idle_step s es = Inr t \<Longrightarrow> idle_inv h s \<Longrightarrow> idle_inv (h @ es) t"
proof (induction es arbitrary: s h)
  case (Cons e es)
  then obtain u where "idle_step s e = Inr u" "foldE idle_step u es = Inr t" by auto
  with Cons.IH [of u "h @ [e]"] Cons.prems(2) idle_inv_step show ?case by simp
qed simp

definition idle_mission :: "int \<Rightarrow> idle_params \<Rightarrow> idle_event list \<Rightarrow> py_error + idle" where
  "idle_mission now p es = bindE (new_idle now p) (\<lambda>s. foldE idle_step s es)"

text \<open>
  Claim C21: the bench mission arms at most once, and only when it was asked to. In every run the mission publishes at most one arm
  command and never a forced one; if it did, an operator gate asked for the start, PX4 had reported the vehicle
  disarmed and not in failsafe, offboard mode had been requested, and PX4 had reported it engaged.
\<close>

theorem prop_idle_arms_once:
  assumes "idle_mission t0 p es = Inr s"
  shows "filter arms (iout s) = []
    \<or> (\<exists>now. filter arms (iout s) = [IdleCommand now (ArmDisarm 1 0)]) \<and> IdleStart True \<in> set es
      \<and> (\<exists>now v. IdleStatus now v \<in> set es \<and> vs_arming v = 1 \<and> \<not> vs_failsafe v)
      \<and> (\<exists>now v. IdleStatus now v \<in> set es \<and> vs_nav v = NavOffboard)
      \<and> (\<exists>now. IdleCommand now (DoSetMode 1 6) \<in> set (iout s))"
proof -
  obtain s0 where s0: "new_idle t0 p = Inr s0" "foldE idle_step s0 es = Inr s" using assms by (auto simp: idle_mission_def)
  then have "idle_inv [] s0" by (auto simp: new_idle_def idle_inv_def arming_ok_def engaged_states_def)
  from idle_inv_run [OF s0(2) this] show ?thesis
    unfolding idle_inv_def arming_ok_def asked_def offboard_reported_def mode_requested_def by auto
qed

definition disarmed_report :: vehicle_status where
  "disarmed_report = \<lparr>vs_arming = 1, vs_nav = NavOther 4, vs_failsafe = False\<rparr>"

definition bench_run :: "idle_event list" where
  "bench_run = [IdleStatus 100 disarmed_report, IdleStart True, IdleTick 200, IdleTick 600, IdleStatus 900000 disarmed_report, IdleTick 1000200,
     IdleStatus 1000300 (disarmed_report\<lparr>vs_nav := NavOffboard\<rparr>), IdleTick 1000400]"

lemma declared_idle_ok: "new_idle 0 declared_idle = Inr \<lparr>ipar = declared_idle, vstatus = None, vstatus_us = 0,
    start_requested = False, attempted = False, istate = IdleWaitLink, state_started_us = 0, last_force_disarm_us = 0,
    context_ok = True, iout = []\<rparr>"
  by (simp add: new_idle_def validate_parameters_def declared_idle_def)

lemma bench_run_arms:
  "\<exists>s. idle_mission 0 declared_idle bench_run = Inr s \<and> filter arms (iout s) = [IdleCommand 1000400 (ArmDisarm 1 0)]
     \<and> {Motors 600 (motor_control False), Motors 1000400 (motor_control False)} \<subseteq> set (iout s)"
  unfolding idle_mission_def declared_idle_ok
  by (simp add: bench_run_def idle_step_def idle_tick_def idle_callbacks tick_wait_start_def
      status_fresh_def begin_attempt_def Let_def tick_running_def publish_for_state_def publish_outputs_def idle_command_def
      set_state_def elapsed_def tick_wait_offboard_def disarmed_report_def declared_idle_def py_int_def)

theorem prop_idle_arms_once_witness:
  "\<exists>s. idle_mission 0 declared_idle bench_run = Inr s \<and> (\<exists>now. IdleCommand now (DoSetMode 1 6) \<in> set (iout s))"
proof -
  obtain s where s: "idle_mission 0 declared_idle bench_run = Inr s" "filter arms (iout s) \<noteq> []" using bench_run_arms by auto
  with prop_idle_arms_once [OF s(1)] show ?thesis by blast
qed

section \<open>How long the motors run\<close>

text \<open>Timer ticks come in order, at most \<open>d\<close> apart, the first at most \<open>d\<close> after \<open>prev\<close>.\<close>

fun ticks_within :: "int \<Rightarrow> int \<Rightarrow> idle_event list \<Rightarrow> bool" where
  "ticks_within d prev [] = True"
| "ticks_within d prev (IdleTick now # es) = (prev \<le> now \<and> now \<le> prev + d \<and> ticks_within d now es)"
| "ticks_within d prev (e # es) = ticks_within d prev es"

definition running_at :: "idle_msg list \<Rightarrow> int set" where
  "running_at msgs = {now. Motors now (motor_control False) \<in> set msgs}"

definition micros :: "seconds \<Rightarrow> real" where
  "micros t = t * 1000000"

text \<open>The time by which a state is entered, counted from the start of the attempt.\<close>

definition entered_by :: "idle_params \<Rightarrow> real \<Rightarrow> idle_state \<Rightarrow> real" where
  "entered_by p d q =
     (case q of IdlePrestream \<Rightarrow> 0
      | IdleWaitOffboard \<Rightarrow> micros (ip_prestream_s p) + d
      | IdleWaitArm \<Rightarrow> micros (ip_prestream_s p) + micros (ip_transition_timeout_s p) + 2 * d
      | _ \<Rightarrow> micros (ip_prestream_s p) + 2 * micros (ip_transition_timeout_s p) + 3 * d)"

definition motor_budget :: "idle_params \<Rightarrow> real \<Rightarrow> real" where
  "motor_budget p d = micros (ip_prestream_s p + 2 * ip_transition_timeout_s p + ip_armed_s p) + 4 * d"

lemma budget_parts:
  assumes "0 \<le> d" "0 \<le> ip_prestream_s p" "0 \<le> ip_transition_timeout_s p" "0 \<le> ip_armed_s p" "q \<in> engaged_states"
  shows "entered_by p d q + micros (time_limit p q) + d \<le> motor_budget p d" "0 \<le> entered_by p d q"
  using assms by (auto simp: entered_by_def motor_budget_def time_limit_def micros_def engaged_states_def algebra_simps)

text \<open>
  The invariant of a run from \<open>b\<close>, when the attempt began, to \<open>prev\<close>, its prev tick: the motors run only in
  between, and an engaged state has been entered in time and has not used up its limit.
\<close>

definition timed_inv :: "idle_params \<Rightarrow> int \<Rightarrow> int \<Rightarrow> idle \<Rightarrow> bool" where
  "timed_inv p d prev s \<longleftrightarrow>
     ipar s = p
     \<and> (istate s \<in> {IdleWaitLink, IdleWaitStart} \<longrightarrow> running_at (iout s) = {})
     \<and> (\<exists>b. (\<forall>t \<in> running_at (iout s). b \<le> t \<and> of_int (t - b) \<le> motor_budget p (of_int d))
           \<and> (istate s \<in> engaged_states \<longrightarrow>
                b \<le> state_started_us s \<and> state_started_us s \<le> prev
                \<and> of_int (state_started_us s - b) \<le> entered_by p (of_int d) (istate s)
                \<and> (of_int (prev - state_started_us s) < micros (time_limit p (istate s)) \<or> prev = state_started_us s)))"

lemma motor_control_distinct [simp]: "motor_control True \<noteq> motor_control False" "motor_control False \<noteq> motor_control True"
  by (simp_all add: motor_control_def numeral_eq_Suc)

lemma running_at_simps [simp]:
  "running_at (msgs @ new) = running_at msgs \<union> running_at new" "running_at [] = {}"
  "running_at (DirectActuatorMode now # msgs) = running_at msgs" "running_at (IdleCommand now cmd # msgs) = running_at msgs"
  "running_at (Motors now c # msgs) = (if c = motor_control False then insert now (running_at msgs) else running_at msgs)"
  by (auto simp: running_at_def)

lemma disarms_not_running: "list_all disarms new \<Longrightarrow> running_at new = {}"
  by (induction new) (auto simp: running_at_def)

lemma step_par: "idle_step s e = Inr t \<Longrightarrow> ipar t = ipar s"
  by (auto simp: idle_step_def idle_callbacks begin_cleanup_def Let_def idle_command_def idle_finish_def set_state_def idle_tick_def
      tick_running_def idle_ticks publish_for_state_def send_forced_disarm_def begin_forced_disarm_def publish_outputs_def
      split: if_splits idle_event.splits idle_state.splits option.splits)

lemma exit_fields:
  "ipar (begin_cleanup now s) = ipar s" "ipar (idle_finish now s) = ipar s" "ipar (begin_forced_disarm now s) = ipar s"
  "running_at (iout (begin_cleanup now s)) = running_at (iout s)" "running_at (iout (idle_finish now s)) = running_at (iout s)"
  "running_at (iout (begin_forced_disarm now s)) = running_at (iout s)"
  by (simp_all add: begin_cleanup_def Let_def idle_finish_def begin_forced_disarm_def set_state_def idle_command_def)

lemma timed_out:
  assumes "timed_inv p d prev s" "ipar t = p" "istate t \<notin> engaged_states" "istate t \<in> {IdleWaitLink, IdleWaitStart} \<longrightarrow> running_at (iout s) = {}"
    and "iout t = iout s @ new" "running_at new = {}"
  shows "timed_inv p d prev' t"
  using assms unfolding timed_inv_def by auto

definition budgeted :: "idle_params \<Rightarrow> int \<Rightarrow> bool" where
  "budgeted p d \<longleftrightarrow> 0 \<le> d \<and> 0 \<le> ip_prestream_s p \<and> 0 \<le> ip_transition_timeout_s p \<and> 0 \<le> ip_armed_s p"

lemma budgetedD:
  "budgeted p d \<Longrightarrow> 0 \<le> d" "budgeted p d \<Longrightarrow> 0 \<le> ip_prestream_s p" "budgeted p d \<Longrightarrow> 0 \<le> ip_transition_timeout_s p"
  "budgeted p d \<Longrightarrow> 0 \<le> ip_armed_s p"
  by (simp_all add: budgeted_def)

lemma timed_engaged:
  assumes limits: "budgeted p d" and inv: "timed_inv p d prev s" and tick: "idle_tick now s = Inr t" and q: "istate s \<in> engaged_states"
    and now: "prev \<le> now" "now \<le> prev + d"
  shows "timed_inv p d now t"
proof -
  let ?P = "publish_outputs now False s" and ?q = "istate s"
  obtain b where b: "\<forall>t \<in> running_at (iout s). b \<le> t \<and> of_int (t - b) \<le> motor_budget p (of_int d)" "b \<le> state_started_us s"
      "state_started_us s \<le> prev" "of_int (state_started_us s - b) \<le> entered_by p (of_int d) ?q"
      "of_int (prev - state_started_us s) < micros (time_limit p ?q) \<or> prev = state_started_us s" and p: "ipar s = p"
    using inv q unfolding timed_inv_def by blast
  have lim: "0 \<le> micros (time_limit p ?q)" using budgetedD [OF limits] by (simp add: micros_def time_limit_def split: idle_state.split)
  have "real_of_int (now - b) = of_int (now - prev) + of_int (prev - state_started_us s) + of_int (state_started_us s - b)" by simp
  moreover have "real_of_int (now - prev) \<le> of_int d" using now by linarith
  ultimately have spent: "real_of_int (now - b) \<le> entered_by p (of_int d) ?q + micros (time_limit p ?q) + of_int d"
    using b(4,5) lim by auto
  then have all: "\<forall>t \<in> running_at (iout ?P). b \<le> t \<and> of_int (t - b) \<le> motor_budget p (of_int d)"
    using b(1-3) now budget_parts(1) [of "of_int d" p ?q] budgetedD [OF limits] q by auto
  have P: "ipar ?P = p" "istate ?P = ?q" "state_started_us ?P = state_started_us s" "elapsed now ?P = elapsed now s" by (simp_all add: p)
  have enter: "timed_inv p d now u"
    if "ipar u = p" "istate u = r" "state_started_us u = now" "running_at (iout u) = running_at (iout ?P)" "r \<in> engaged_states"
      "entered_by p (of_int d) ?q + micros (time_limit p ?q) + of_int d = entered_by p (of_int d) r" for u r
    unfolding timed_inv_def using that all spent b(2,3) now by (intro conjI exI [of _ b]) (auto simp: engaged_states_def)
  have leave: "timed_inv p d now u"
    if "ipar u = p" "istate u \<in> cleanup_states" "running_at (iout u) = running_at (iout ?P)" for u
    unfolding timed_inv_def using that all by (intro conjI exI [of _ b]) (auto simp: engaged_states_def cleanup_states_def)
  note move = engaged_tick [OF tick q]
  from move [THEN conjunct1] show ?thesis
  proof (cases rule: engaged_move.cases)
    case stay
    then have "elapsed now s < time_limit p ?q" using move p by simp
    then have "real_of_int (now - state_started_us s) < micros (time_limit p ?q)" by (simp add: elapsed_def micros_def)
    then show ?thesis
      unfolding timed_inv_def stay using all b(2-4) P now q by (intro conjI exI [of _ b]) (auto simp: engaged_states_def)
  next
    case offboard
    then show ?thesis
      using p by (intro enter [of _ IdleWaitOffboard])
        (auto simp: set_state_def idle_command_def engaged_states_def entered_by_def time_limit_def)
  next
    case (arm v)
    then show ?thesis
      using p by (intro enter [of _ IdleWaitArm])
        (auto simp: set_state_def idle_command_def engaged_states_def entered_by_def time_limit_def)
  next
    case hold
    then show ?thesis
      using p by (intro enter [of _ IdleHoldMinimum]) (auto simp: set_state_def engaged_states_def entered_by_def time_limit_def)
  qed (simp_all only: exit_fields P, auto intro!: leave simp: exit_fields p cleanup_states_def)
qed

lemma timed_tick:
  assumes limits: "budgeted p d" and inv: "timed_inv p d prev s" and tick: "idle_tick now s = Inr t" and now: "prev \<le> now" "now \<le> prev + d"
  shows "timed_inv p d now t"
proof -
  have step: "idle_step s (IdleTick now) = Inr t" by (simp add: idle_step_def tick)
  have p: "ipar t = p" using step_par [OF step] inv by (simp add: timed_inv_def)
  consider "istate s \<in> {IdleWaitLink, IdleWaitStart}" | "istate s \<in> engaged_states" | "istate s \<in> cleanup_states"
    by (cases "istate s") (auto simp: engaged_states_def cleanup_states_def)
  then show ?thesis
  proof cases
    case 1
    then have r: "running_at (iout s) = {}" using inv by (simp add: timed_inv_def)
    have "iout t = iout s \<and> (istate t \<in> {IdleWaitLink, IdleWaitStart, IdleDone} \<or> istate t = IdlePrestream \<and> state_started_us t = now)"
      using 1 tick by (auto simp: idle_tick_def tick_wait_start_def begin_attempt_def Let_def set_state_def idle_finish_def
          split: if_splits option.splits)
    then show ?thesis
      using r p unfolding timed_inv_def
      by (intro conjI exI [of _ now]) (auto simp: engaged_states_def entered_by_def)
  next
    case 2
    then show ?thesis using timed_engaged [OF limits inv tick _ now] by blast
  next
    case 3
    obtain now' where "idle_change now' s t" using idle_step_change [OF step] by blast
    from cleanup_change [OF this 3] obtain new where "istate t \<in> cleanup_states" "iout t = iout s @ new" "list_all disarms new" by blast
    then show ?thesis
      using timed_out [OF inv p] disarms_not_running by (auto simp: cleanup_states_def engaged_states_def)
  qed
qed

lemma timed_step:
  assumes limits: "budgeted p d" and inv: "timed_inv p d prev s" and step: "idle_step s e = Inr t" and now: "\<And>now. e = IdleTick now \<Longrightarrow> prev \<le> now \<and> now \<le> prev + d"
  shows "timed_inv p d (case e of IdleTick now \<Rightarrow> now | _ \<Rightarrow> prev) t"
proof -
  have p: "ipar t = p" using step_par [OF step] inv by (simp add: timed_inv_def)
  have par: "ipar s = p" using inv by (simp add: timed_inv_def)
  have same: "timed_inv p d prev u"
    if "ipar u = p" "istate u = istate s" "iout u = iout s" "state_started_us u = state_started_us s" for u
    using inv that by (simp add: timed_inv_def)
  have ended: "timed_inv p d prev (end_or_abort now s)" for now
  proof (cases "istate s \<in> cleanup_states")
    case True
    then show ?thesis using inv by (simp add: end_or_abort_def cleanup_states_def)
  next
    case False
    have "ipar (end_or_abort now s) = p"
      using inv by (simp add: timed_inv_def end_or_abort_def begin_cleanup_def Let_def idle_finish_def idle_command_def set_state_def)
    moreover obtain new where "iout (end_or_abort now s) = iout s @ new" "list_all disarms new"
      using end_or_abort_out by blast
    moreover have "istate (end_or_abort now s) \<in> cleanup_states"
      using False begin_cleanup_out(2) [of now s] by (auto simp: end_or_abort_def cleanup_states_def)
    ultimately show ?thesis
      using timed_out [OF inv] disarms_not_running by (auto simp: cleanup_states_def engaged_states_def)
  qed
  show ?thesis
  proof (cases e)
    case (IdleTick n)
    then show ?thesis using timed_tick [OF limits inv _] now step by (simp add: idle_step_def)
  next
    case (IdleStatus n v)
    have "timed_inv p d prev (idle_status_cb n v s)" by (rule same) (use par in \<open>simp_all add: idle_status_cb_def\<close>)
    then show ?thesis using step by (simp add: IdleStatus idle_step_def)
  next
    case (IdleStart data)
    have "timed_inv p d prev (idle_start_cb data s)" by (rule same) (use par in \<open>simp_all add: idle_start_cb_def\<close>)
    then show ?thesis using step by (simp add: IdleStart idle_step_def)
  next
    case (IdleEnd n data)
    then show ?thesis using step ended [of n] inv by (simp add: idle_step_def idle_end_cb_def split: if_splits)
  next
    case (IdleAbort n data)
    then show ?thesis using step ended [of n] inv by (simp add: idle_step_def idle_abort_cb_def split: if_splits)
  qed
qed

lemma timed_run:
  "budgeted p d \<Longrightarrow> foldE idle_step s es = Inr t \<Longrightarrow> timed_inv p d prev s \<Longrightarrow> ticks_within d prev es \<Longrightarrow> \<exists>prev'. timed_inv p d prev' t"
proof (induction es arbitrary: s prev)
  case (Cons e es)
  then obtain u where u: "idle_step s e = Inr u" "foldE idle_step u es = Inr t" by auto
  have "ticks_within d (case e of IdleTick now \<Rightarrow> now | _ \<Rightarrow> prev) es" using Cons.prems(4) by (cases e) simp_all
  with timed_step [OF Cons.prems(1,3) u(1)] Cons.IH [OF Cons.prems(1) u(2)] Cons.prems(4) show ?case by (cases e) auto
qed auto

text \<open>
  Claim C22: the motors run for a bounded time. With timer ticks at most \<open>d\<close> microseconds apart, any two motor messages of a
  run that are not stopped lie no further apart than the prestream, two transition timeouts and the armed interval
  together, and four ticks; whatever PX4 reports and the operator does in between.
\<close>

theorem prop_idle_motor_time_bounded:
  assumes "idle_mission t0 p es = Inr s" "ticks_within d prev es" "0 \<le> d"
    and "Motors a (motor_control False) \<in> set (iout s)" "Motors b (motor_control False) \<in> set (iout s)"
  shows "of_int (b - a) \<le> (ip_prestream_s p + 2 * ip_transition_timeout_s p + ip_armed_s p) * 1000000 + 4 * (of_int d :: real)"
proof -
  obtain s0 where s0: "new_idle t0 p = Inr s0" "foldE idle_step s0 es = Inr s" using assms(1) by (auto simp: idle_mission_def)
  then have lim: "budgeted p d" using assms(3) by (auto simp: new_idle_def validate_parameters_def budgeted_def)
  have "timed_inv p d prev s0" using s0(1) by (auto simp: new_idle_def timed_inv_def engaged_states_def)
  from timed_run [OF lim s0(2) this assms(2)] obtain b0
    where "\<forall>t \<in> running_at (iout s). b0 \<le> t \<and> of_int (t - b0) \<le> motor_budget p (of_int d)"
    unfolding timed_inv_def by blast
  then have "b0 \<le> a" "of_int (b - b0) \<le> motor_budget p (of_int d)" using assms(4,5) by (auto simp: running_at_def)
  then show ?thesis by (simp add: motor_budget_def micros_def)
qed

theorem prop_idle_motor_time_bounded_witness:
  "(1000400 - 600 :: real) \<le> (ip_prestream_s declared_idle + 2 * ip_transition_timeout_s declared_idle + ip_armed_s declared_idle) * 1000000
     + 4 * of_int 1000000"
proof -
  obtain s where s: "idle_mission 0 declared_idle bench_run = Inr s"
      "Motors 600 (motor_control False) \<in> set (iout s)" "Motors 1000400 (motor_control False) \<in> set (iout s)"
    using bench_run_arms by auto
  have "ticks_within 1000000 0 bench_run" by (simp add: bench_run_def)
  from prop_idle_motor_time_bounded [OF s(1) this _ s(2,3)] show ?thesis by simp
qed

section \<open>Shutting down\<close>

definition reports_only :: "loop_turn list \<Rightarrow> bool" where
  "reports_only turns \<longleftrightarrow> (\<forall>(up, now, ev) \<in> set turns. up \<and> 0 \<le> now \<and> (case ev of None \<Rightarrow> True | Some e \<Rightarrow> \<exists>n v. e = IdleStatus n v))"

definition disarm_reported :: "loop_turn list \<Rightarrow> bool" where
  "disarm_reported turns \<longleftrightarrow> (\<exists>up now n v. (up, now, Some (IdleStatus n v)) \<in> set turns \<and> vs_arming v \<noteq> 2)"

abbreviation forced :: "int \<Rightarrow> idle_msg" where
  "forced now \<equiv> IdleCommand now (ArmDisarm 0 force_arm_magic)"

definition pressed :: "idle_msg list \<Rightarrow> idle_msg list \<Rightarrow> bool" where
  "pressed new msgs \<longleftrightarrow> list_all disarms new
     \<and> (\<forall>now c. Motors now c \<in> set new \<longrightarrow> (\<exists>sent. forced sent \<in> set msgs \<and> sent \<le> now \<and> now < sent + 200000))"

lemma reports_only_Cons [simp]:
  "reports_only ((up, now, ev) # turns) \<longleftrightarrow>
     up \<and> 0 \<le> now \<and> (case ev of None \<Rightarrow> True | Some e \<Rightarrow> \<exists>n v. e = IdleStatus n v) \<and> reports_only turns"
  by (simp add: reports_only_def)

lemma disarm_reported_Cons [simp]:
  "disarm_reported ((up, now, ev) # turns) \<longleftrightarrow> (\<exists>n v. ev = Some (IdleStatus n v) \<and> vs_arming v \<noteq> 2) \<or> disarm_reported turns"
  by (auto simp: disarm_reported_def)

text \<open>One turn of the loop on an armed vehicle.\<close>

definition loop_turn_of :: "int \<Rightarrow> int \<Rightarrow> idle \<Rightarrow> idle \<times> int" where
  "loop_turn_of now next_us s =
     (let s1 = publish_outputs now True s
      in if now \<ge> next_us then (idle_command now (ArmDisarm 0 force_arm_magic) s1, now + 200000) else (s1, next_us))"

lemma cleanup_loop_Cons:
  "idle_armed s \<Longrightarrow> context_ok s \<Longrightarrow> cleanup_loop ((True, now, ev) # turns) next_us s =
     (case loop_turn_of now next_us s of (s2, next2) \<Rightarrow>
        bindE (case ev of None \<Rightarrow> Inr s2 | Some e \<Rightarrow> idle_step s2 e) (cleanup_loop turns next2))"
  by (simp add: loop_turn_of_def Let_def)

lemma turn_fields:
  assumes "loop_turn_of now next_us s = (s2, next2)" "next_us = 0 \<or> forced (next_us - 200000) \<in> set (iout s) \<and> next_us - 200000 \<le> now"
    and "0 \<le> now"
  shows "idle_armed s2 = idle_armed s" "context_ok s2 = context_ok s"
    "\<exists>new. iout s2 = iout s @ new \<and> pressed new (iout s2)"
    "forced (next2 - 200000) \<in> set (iout s2) \<and> next2 - 200000 \<le> now"
proof -
  show "idle_armed s2 = idle_armed s" "context_ok s2 = context_ok s"
    and sent: "forced (next2 - 200000) \<in> set (iout s2) \<and> next2 - 200000 \<le> now"
    using assms by (auto simp: loop_turn_of_def Let_def idle_command_def publish_outputs_def idle_armed_def split: if_splits)
  show "\<exists>new. iout s2 = iout s @ new \<and> pressed new (iout s2)"
  proof -
    obtain new where "iout s2 = iout s @ new" "list_all disarms new" "\<And>t c. Motors t c \<in> set new \<Longrightarrow> t = now"
      using assms(1) by (auto simp: loop_turn_of_def Let_def idle_command_def split: if_splits)
    moreover have "now < next2" using assms(1) by (auto simp: loop_turn_of_def Let_def split: if_splits)
    ultimately show ?thesis using sent unfolding pressed_def by (intro exI [of _ new]) (force intro!: exI [of _ "next2 - 200000"])
  qed
qed

lemma pressed_mono: "pressed new msgs \<Longrightarrow> set msgs \<subseteq> set msgs' \<Longrightarrow> pressed new msgs'"
  unfolding pressed_def by blast

lemma pressed_append: "pressed a msgs \<Longrightarrow> pressed b msgs \<Longrightarrow> pressed (a @ b) msgs"
  by (auto simp: pressed_def)

lemma cleanup_loop_run:
  "cleanup_loop turns next_us s = Inr (fin, t) \<Longrightarrow> reports_only turns \<Longrightarrow> sorted (map (fst \<circ> snd) turns) \<Longrightarrow> context_ok s
    \<Longrightarrow> next_us = 0 \<or> forced (next_us - 200000) \<in> set (iout s) \<and> (\<forall>turn \<in> set turns. next_us - 200000 \<le> fst (snd turn))
    \<Longrightarrow> (fin \<longleftrightarrow> \<not> idle_armed s \<or> disarm_reported turns) \<and> (\<exists>new. iout t = iout s @ new \<and> pressed new (iout t))"
proof (induction turns arbitrary: next_us s)
  case Nil
  then show ?case by (auto simp: disarm_reported_def pressed_def)
next
  case (Cons turn turns)
  obtain up now ev where turn: "turn = (up, now, ev)" by (cases turn)
  show ?case
  proof (cases "idle_armed s")
    case False
    then show ?thesis using Cons.prems(1) by (auto simp: turn pressed_def)
  next
    case True
    obtain s2 next2 where t2: "loop_turn_of now next_us s = (s2, next2)" by (cases "loop_turn_of now next_us s")
    have "up" "0 \<le> now" and ev: "case ev of None \<Rightarrow> True | Some e \<Rightarrow> \<exists>n v. e = IdleStatus n v"
      using Cons.prems(2) by (auto simp: turn)
    note fields = turn_fields [OF t2 _ \<open>0 \<le> now\<close>]
    have f: "next_us = 0 \<or> forced (next_us - 200000) \<in> set (iout s) \<and> next_us - 200000 \<le> now"
      using Cons.prems(5) by (auto simp: turn)
    define s3 where "s3 = (case ev of Some (IdleStatus n v) \<Rightarrow> idle_status_cb n v s2 | _ \<Rightarrow> s2)"
    have "cleanup_loop turns next2 s3 = Inr (fin, t)"
      using Cons.prems(1,4) True ev \<open>up\<close> cleanup_loop_Cons [of s now ev turns next_us]
      by (auto simp: turn t2 s3_def idle_step_def split: option.splits)
    moreover have same: "context_ok s3" "iout s3 = iout s2"
      using fields(2) [OF f] Cons.prems(4) ev by (auto simp: s3_def idle_status_cb_def split: option.splits)
    moreover have "sorted (map (fst \<circ> snd) turns)" "\<forall>turn \<in> set turns. now \<le> fst (snd turn)" "reports_only turns"
      using Cons.prems(2,3) by (auto simp: turn o_def)
    moreover have "forced (next2 - 200000) \<in> set (iout s3)" "next2 - 200000 \<le> now" using fields(4) [OF f] same(2) by auto
    ultimately have IH: "(fin \<longleftrightarrow> \<not> idle_armed s3 \<or> disarm_reported turns) \<and> (\<exists>new. iout t = iout s3 @ new \<and> pressed new (iout t))"
      by (intro Cons.IH [of next2 s3]) (auto simp: o_def)
    obtain new1 where new1: "iout s2 = iout s @ new1" "pressed new1 (iout s2)" using fields(3) [OF f] by blast
    obtain new2 where new2: "iout t = iout s2 @ new2" "pressed new2 (iout t)" using IH same(2) by auto
    have "pressed new1 (iout t)" using pressed_mono [OF new1(2)] new2(1) by simp
    then have "iout t = iout s @ new1 @ new2 \<and> pressed (new1 @ new2) (iout t)"
      using new1(1) new2 pressed_append by simp
    moreover have "\<not> idle_armed s3 \<longleftrightarrow> (\<exists>n v. ev = Some (IdleStatus n v) \<and> vs_arming v \<noteq> 2)"
      using fields(1) [OF f] True ev by (auto simp: s3_def idle_status_cb_def idle_armed_def split: option.splits)
    ultimately show ?thesis using IH True by (auto simp: turn)
  qed
qed



text \<open>
  A timer tick that \<open>spin_once\<close> delivers while the motors are held breaks this: the state is still the hold, so the tick
  publishes a running output between two stopped ones.
\<close>

lemma shutdown_tick_runs_motors:
  "\<exists>t. shutdown_cleanup [(True, 100, Some (IdleTick 100)), (True, 200, None)] (armed_idle\<lparr>istate := IdleHoldMinimum\<rparr>) = Inr (False, t)
     \<and> Motors 100 (motor_control False) \<in> set (iout t)"
  by (simp add: shutdown_cleanup_def armed_idle_def idle_armed_def publish_outputs_def idle_command_def idle_step_def Let_def
      idle_tick_def tick_running_def publish_for_state_def status_fresh_def tick_hold_def elapsed_def declared_idle_def py_int_def)

end
