(* ===== verification/Hungarian.thy ===== *)
theory Hungarian
  imports Prelude
begin

text \<open>
  The assignment solver of the cross-pass association (\<open>hungarian\<close> in
  \<open>mission_engine/core/associate.py\<close>): shortest augmenting paths with potentials. Rows and columns are numbered
  from 1, column 0 holds the row being placed, and a column with row 0 is free. The arrays are maps on \<open>0..n\<close>;
  an entry of \<open>minv\<close> that is \<open>math.inf\<close> is \<open>None\<close>.
\<close>

section \<open>The solver\<close>

type_synonym matrix = "real list list"

definition entry :: "matrix \<Rightarrow> nat \<Rightarrow> nat \<Rightarrow> real" where
  "entry c i j = c ! (i - 1) ! (j - 1)"

record potentials =
  pu :: "nat \<Rightarrow> real"
  pv :: "nat \<Rightarrow> real"
  row_at :: "nat \<Rightarrow> nat"
  way :: "nat \<Rightarrow> nat"

record scan =
  minv :: "nat \<Rightarrow> real option"
  used :: "nat \<Rightarrow> bool"
  col :: nat

definition slack :: "matrix \<Rightarrow> potentials \<Rightarrow> nat \<Rightarrow> nat \<Rightarrow> real" where
  "slack c h i j = entry c i j - pu h i - pv h j"

fun below :: "real \<Rightarrow> real option \<Rightarrow> bool" where
  "below x None = True"
| "below x (Some y) = (x < y)"

text \<open>The first inner loop: relax column \<open>j\<close> from column \<open>j0\<close>, and remember the closest column.\<close>

type_synonym closest = "real option \<times> nat"

definition relax :: "matrix \<Rightarrow> nat \<Rightarrow> nat \<Rightarrow> potentials \<times> scan \<times> closest \<Rightarrow> potentials \<times> scan \<times> closest" where
  "relax c j0 j acc =
     (case acc of (h, sc, delta, j1) \<Rightarrow>
        if used sc j then acc
        else
          let cur = slack c h (row_at h j0) j;
              (h1, sc1) = (if below cur (minv sc j)
                           then (h\<lparr>way := (way h)(j := j0)\<rparr>, sc\<lparr>minv := (minv sc)(j := Some cur)\<rparr>) else (h, sc))
          in (h1, sc1, if (case minv sc1 j of None \<Rightarrow> False | Some x \<Rightarrow> below x delta) then (minv sc1 j, j) else (delta, j1)))"

definition relax_all :: "matrix \<Rightarrow> nat \<Rightarrow> nat \<Rightarrow> potentials \<Rightarrow> scan \<Rightarrow> potentials \<times> scan \<times> closest" where
  "relax_all c n j0 h sc = fold (relax c j0) [1..<Suc n] (h, sc, None, 0)"

text \<open>The second inner loop: move the potentials by \<open>delta\<close>.\<close>

definition shift :: "real \<Rightarrow> nat \<Rightarrow> potentials \<times> scan \<Rightarrow> potentials \<times> scan" where
  "shift delta j acc =
     (case acc of (h, sc) \<Rightarrow>
        if used sc j
        then (h\<lparr>pu := (pu h)(row_at h j := pu h (row_at h j) + delta), pv := (pv h)(j := pv h j - delta)\<rparr>, sc)
        else (h, sc\<lparr>minv := (minv sc)(j := map_option (\<lambda>x. x - delta) (minv sc j))\<rparr>))"

text \<open>
  One turn of the search. With no column left to reach, \<open>delta\<close> is infinite and the loop of the source never
  ends: \<open>None\<close>.
\<close>

definition search_turn :: "matrix \<Rightarrow> nat \<Rightarrow> potentials \<Rightarrow> scan \<Rightarrow> (potentials \<times> scan) option" where
  "search_turn c n h sc =
     (let sc1 = sc\<lparr>used := (used sc)(col sc := True)\<rparr>
      in case relax_all c n (col sc) h sc1 of
           (h2, sc2, None, j1) \<Rightarrow> None
         | (h2, sc2, Some delta, j1) \<Rightarrow>
             (case fold (shift delta) [0..<Suc n] (h2, sc2) of (h3, sc3) \<Rightarrow> Some (h3, sc3\<lparr>col := j1\<rparr>)))"

partial_function (option) search_path :: "matrix \<Rightarrow> nat \<Rightarrow> potentials \<Rightarrow> scan \<Rightarrow> (potentials \<times> scan) option" where
  "search_path c n h sc =
     Option.bind (search_turn c n h sc) (\<lambda>(h1, sc1).
       if row_at h1 (col sc1) = 0 then Some (h1, sc1) else search_path c n h1 sc1)"

text \<open>\<open>while j0\<close>: move the rows along the path.\<close>

partial_function (option) augment :: "(nat \<Rightarrow> nat) \<Rightarrow> (nat \<Rightarrow> nat) \<Rightarrow> nat \<Rightarrow> (nat \<Rightarrow> nat) option" where
  "augment wy p j0 = (if j0 = 0 then Some p else augment wy (p(j0 := p (wy j0))) (wy j0))"

definition place_row :: "matrix \<Rightarrow> nat \<Rightarrow> nat \<Rightarrow> potentials \<Rightarrow> potentials option" where
  "place_row c n i h =
     (let h1 = h\<lparr>row_at := (row_at h)(0 := i)\<rparr>
      in Option.bind (search_path c n h1 \<lparr>minv = \<lambda>_. None, used = \<lambda>_. False, col = 0\<rparr>) (\<lambda>(h2, sc).
         map_option (\<lambda>p. h2\<lparr>row_at := p\<rparr>) (augment (way h2) (row_at h2) (col sc))))"

fun place_rows :: "matrix \<Rightarrow> nat \<Rightarrow> nat list \<Rightarrow> potentials \<Rightarrow> potentials option" where
  "place_rows c n [] h = Some h"
| "place_rows c n (i # is) h = Option.bind (place_row c n i h) (place_rows c n is)"

definition read_off :: "nat \<Rightarrow> potentials \<Rightarrow> nat list" where
  "read_off n h =
     fold (\<lambda>j out. if row_at h j \<noteq> 0 then out[row_at h j - 1 := j - 1] else out) [1..<Suc n] (replicate n 0)"

definition hungarian :: "matrix \<Rightarrow> nat list option" where
  "hungarian c =
     (let n = length c
      in map_option (read_off n)
           (place_rows c n [1..<Suc n] \<lparr>pu = \<lambda>_. 0, pv = \<lambda>_. 0, row_at = \<lambda>_. 0, way = \<lambda>_. 0\<rparr>))"

section \<open>The inner loops\<close>

definition relaxed :: "real option \<Rightarrow> real \<Rightarrow> real" where
  "relaxed m cur = (case m of None \<Rightarrow> cur | Some x \<Rightarrow> min x cur)"

text \<open>What the first loop has done after columns \<open>1..m\<close>.\<close>

definition relax_minv :: "matrix \<Rightarrow> nat \<Rightarrow> nat \<Rightarrow> potentials \<Rightarrow> scan \<Rightarrow> nat \<Rightarrow> real option" where
  "relax_minv c m j0 h sc j =
     (if 1 \<le> j \<and> j \<le> m \<and> \<not> used sc j then Some (relaxed (minv sc j) (slack c h (row_at h j0) j)) else minv sc j)"

definition relax_way :: "matrix \<Rightarrow> nat \<Rightarrow> nat \<Rightarrow> potentials \<Rightarrow> scan \<Rightarrow> nat \<Rightarrow> nat" where
  "relax_way c m j0 h sc j =
     (if 1 \<le> j \<and> j \<le> m \<and> \<not> used sc j \<and> below (slack c h (row_at h j0) j) (minv sc j) then j0 else way h j)"

fun nearest :: "(nat \<Rightarrow> bool) \<Rightarrow> (nat \<Rightarrow> real option) \<Rightarrow> nat \<Rightarrow> closest \<Rightarrow> bool" where
  "nearest us mv m (None, j1) \<longleftrightarrow> (\<forall>j. 1 \<le> j \<and> j \<le> m \<longrightarrow> us j)"
| "nearest us mv m (Some x, j1) \<longleftrightarrow> 1 \<le> j1 \<and> j1 \<le> m \<and> \<not> us j1 \<and> mv j1 = Some x
     \<and> (\<forall>j. 1 \<le> j \<and> j \<le> m \<and> \<not> us j \<longrightarrow> (\<exists>y. mv j = Some y \<and> x \<le> y))"

definition relax_done :: "matrix \<Rightarrow> nat \<Rightarrow> nat \<Rightarrow> potentials \<Rightarrow> scan \<Rightarrow> potentials \<times> scan \<times> closest \<Rightarrow> bool" where
  "relax_done c m j0 h sc r \<longleftrightarrow>
     (\<exists>d. r = (h\<lparr>way := relax_way c m j0 h sc\<rparr>, sc\<lparr>minv := relax_minv c m j0 h sc\<rparr>, d)
        \<and> nearest (used sc) (relax_minv c m j0 h sc) m d)"

lemma slack_way [simp]: "slack c (h\<lparr>way := w\<rparr>) i j = slack c h i j"
  by (simp add: slack_def)

lemma relax_minv_Suc:
  "relax_minv c (Suc m) j0 h sc = (if used sc (Suc m) then relax_minv c m j0 h sc
     else (relax_minv c m j0 h sc)(Suc m := Some (relaxed (minv sc (Suc m)) (slack c h (row_at h j0) (Suc m)))))"
  by (rule ext) (auto simp: relax_minv_def le_Suc_eq)

lemma relax_way_Suc:
  "relax_way c (Suc m) j0 h sc = (if \<not> used sc (Suc m) \<and> below (slack c h (row_at h j0) (Suc m)) (minv sc (Suc m))
     then (relax_way c m j0 h sc)(Suc m := j0) else relax_way c m j0 h sc)"
  by (rule ext) (auto simp: relax_way_def le_Suc_eq)

lemma nearest_skip: "us (Suc m) \<Longrightarrow> nearest us mv (Suc m) d = nearest us mv m d"
  by (cases "(us, mv, m, d)" rule: nearest.cases) (auto simp: le_Suc_eq)

lemma nearest_take:
  assumes "nearest us mv m (d, j1)" "\<not> us (Suc m)"
  shows "nearest us (mv(Suc m := Some x)) (Suc m) (if below x d then (Some x, Suc m) else (d, j1))"
  using assms by (cases d) (fastforce simp: le_Suc_eq)+

lemma relax_done_step:
  assumes "relax_done c m j0 h sc r"
  shows "relax_done c (Suc m) j0 h sc (relax c j0 (Suc m) r)"
proof -
  obtain d j1 where r: "r = (h\<lparr>way := relax_way c m j0 h sc\<rparr>, sc\<lparr>minv := relax_minv c m j0 h sc\<rparr>, d, j1)"
    and near: "nearest (used sc) (relax_minv c m j0 h sc) m (d, j1)"
    using assms by (auto simp: relax_done_def)
  show ?thesis
  proof (cases "used sc (Suc m)")
    case True
    then show ?thesis
      using near by (auto simp: relax_def r relax_done_def relax_minv_Suc relax_way_Suc nearest_skip)
  next
    case False
    define cur where "cur = slack c h (row_at h j0) (Suc m)"
    define x where "x = relaxed (minv sc (Suc m)) cur"
    have old: "relax_minv c m j0 h sc (Suc m) = minv sc (Suc m)" by (simp add: relax_minv_def)
    have x: "below cur (minv sc (Suc m)) \<Longrightarrow> x = cur" "\<not> below cur (minv sc (Suc m)) \<Longrightarrow> minv sc (Suc m) = Some x"
      by (cases "minv sc (Suc m)"; simp add: x_def relaxed_def)+
    have "relax c j0 (Suc m) r = (h\<lparr>way := relax_way c (Suc m) j0 h sc\<rparr>, sc\<lparr>minv := relax_minv c (Suc m) j0 h sc\<rparr>,
        if below x d then (Some x, Suc m) else (d, j1))"
      using False x old
      by (auto simp: relax_def r Let_def relax_minv_Suc relax_way_Suc fun_upd_idem simp flip: cur_def x_def)
    moreover have "nearest (used sc) (relax_minv c (Suc m) j0 h sc) (Suc m) (if below x d then (Some x, Suc m) else (d, j1))"
      using nearest_take [OF near False, of x] False by (simp add: relax_minv_Suc x_def cur_def)
    ultimately show ?thesis unfolding relax_done_def by blast
  qed
qed

lemma relax_all_done: "relax_done c n j0 h sc (relax_all c n j0 h sc)"
proof -
  have none: "relax_way c 0 j0 h sc = way h" "relax_minv c 0 j0 h sc = minv sc"
    by (auto simp: relax_way_def relax_minv_def fun_eq_iff)
  have "relax_done c m j0 h sc (fold (relax c j0) [1..<Suc m] (h, sc, None, 0))" for m
    by (induction m) (auto simp: relax_done_step, simp add: relax_done_def none)
  then show ?thesis by (simp add: relax_all_def)
qed

definition shift_pu :: "nat \<Rightarrow> real \<Rightarrow> potentials \<Rightarrow> scan \<Rightarrow> nat \<Rightarrow> real" where
  "shift_pu m x h sc r = pu h r + (if \<exists>j<m. used sc j \<and> row_at h j = r then x else 0)"

definition shift_pv :: "nat \<Rightarrow> real \<Rightarrow> potentials \<Rightarrow> scan \<Rightarrow> nat \<Rightarrow> real" where
  "shift_pv m x h sc j = pv h j - (if j < m \<and> used sc j then x else 0)"

definition shift_minv :: "nat \<Rightarrow> real \<Rightarrow> scan \<Rightarrow> nat \<Rightarrow> real option" where
  "shift_minv m x sc j = (if j < m \<and> \<not> used sc j then map_option (\<lambda>y. y - x) (minv sc j) else minv sc j)"

definition shifted :: "nat \<Rightarrow> real \<Rightarrow> potentials \<Rightarrow> scan \<Rightarrow> potentials \<times> scan" where
  "shifted m x h sc =
     (h\<lparr>pu := shift_pu m x h sc, pv := shift_pv m x h sc\<rparr>, sc\<lparr>minv := shift_minv m x sc\<rparr>)"

lemma shift_pu_Suc:
  assumes "used sc m \<Longrightarrow> \<forall>j<m. used sc j \<longrightarrow> row_at h j \<noteq> row_at h m"
  shows "shift_pu (Suc m) x h sc = (if used sc m then (shift_pu m x h sc)(row_at h m := shift_pu m x h sc (row_at h m) + x)
     else shift_pu m x h sc)"
  using assms by (intro ext) (auto simp: shift_pu_def less_Suc_eq)

lemma shift_pv_Suc:
  "shift_pv (Suc m) x h sc = (if used sc m then (shift_pv m x h sc)(m := shift_pv m x h sc m - x) else shift_pv m x h sc)"
  by (intro ext) (auto simp: shift_pv_def less_Suc_eq)

lemma shift_minv_Suc:
  "shift_minv (Suc m) x sc = (if used sc m then shift_minv m x sc
     else (shift_minv m x sc)(m := map_option (\<lambda>y. y - x) (shift_minv m x sc m)))"
  by (intro ext) (auto simp: shift_minv_def less_Suc_eq)

lemma shift_all:
  assumes "inj_on (row_at h) {j. j < m \<and> used sc j}"
  shows "fold (shift x) [0..<m] (h, sc) = shifted m x h sc"
  using assms
proof (induction m)
  case 0
  have "shift_pu 0 x h sc = pu h" "shift_pv 0 x h sc = pv h" "shift_minv 0 x sc = minv sc"
    by (simp_all add: shift_pu_def shift_pv_def shift_minv_def fun_eq_iff)
  then show ?case by (simp add: shifted_def)
next
  case (Suc m)
  have "inj_on (row_at h) {j. j < m \<and> used sc j}" using Suc.prems by (rule inj_on_subset) auto
  then have step: "fold (shift x) [0..<Suc m] (h, sc) = shift x m (shifted m x h sc)" by (simp add: Suc.IH)
  have "\<forall>j<m. used sc j \<longrightarrow> row_at h j \<noteq> row_at h m" if "used sc m"
    using Suc.prems that by (auto simp: inj_on_def) (metis less_SucI less_Suc_eq less_irrefl)
  then show ?case
    unfolding step by (simp add: shift_def shifted_def shift_pu_Suc shift_pv_Suc shift_minv_Suc)
qed

section \<open>The search\<close>

text \<open>The columns from \<open>j\<close> back to the hole at column 0, along \<open>way\<close>.\<close>

inductive trail :: "(nat \<Rightarrow> nat) \<Rightarrow> nat \<Rightarrow> nat list \<Rightarrow> bool" for wy where
  hole: "trail wy 0 []"
| link: "j \<noteq> 0 \<Longrightarrow> trail wy (wy j) ps \<Longrightarrow> j \<notin> set ps \<Longrightarrow> trail wy j (j # ps)"

lemma trail_cong: "trail wy j ps \<Longrightarrow> (\<And>x. x \<in> set ps \<Longrightarrow> wy' x = wy x) \<Longrightarrow> trail wy' j ps"
  by (induction rule: trail.induct) (auto intro: trail.intros)

lemma trail_nonzero: "trail wy j ps \<Longrightarrow> x \<in> set ps \<Longrightarrow> x \<noteq> 0"
  by (induction rule: trail.induct) auto

lemma trail_closed: "trail wy j ps \<Longrightarrow> x \<in> set ps \<Longrightarrow> wy x = 0 \<or> wy x \<in> set ps"
  by (induction rule: trail.induct) (auto elim: trail.cases)

lemma trail_start: "trail wy j ps \<Longrightarrow> j \<noteq> 0 \<Longrightarrow> j \<in> set ps"
  by (auto elim: trail.cases)

lemma trail_empty: "trail wy 0 ps \<Longrightarrow> ps = []"
  by (auto elim: trail.cases)

lemma augment_trail:
  "trail wy j ps \<Longrightarrow> augment wy p j = Some (\<lambda>x. if x \<in> set ps then p (wy x) else p x)"
proof (induction arbitrary: p rule: trail.induct)
  case hole
  show ?case by (simp add: augment.simps)
next
  case (link j ps)
  have "wy x \<noteq> j" if "x \<in> set ps" for x
    using trail_closed [OF link(2) that] link(1,3) by auto
  then show ?case
    using link by (subst augment.simps) (auto simp: fun_eq_iff)
qed

lemma trail_bij:
  "trail wy j ps \<Longrightarrow> j \<noteq> 0 \<Longrightarrow> bij_betw wy (set ps) (insert 0 (set ps - {j}))"
proof (induction rule: trail.induct)
  case (link j ps)
  show ?case
  proof (cases "wy j = 0")
    case True
    then have "ps = []" using link(2) trail_empty by simp
    then show ?thesis using True by (simp add: bij_betw_def)
  next
    case False
    have wj: "wy j \<in> set ps" using trail_start [OF link(2) False] .
    have "bij_betw wy (insert j (set ps)) (insert (wy j) (insert 0 (set ps - {wy j})))"
      using link.IH [OF False] link(3) False by (intro notIn_Un_bij_betw [of j _ _ _, simplified]) auto
    moreover have "insert (wy j) (insert 0 (set ps - {wy j})) = insert 0 (set ps)" using wj by auto
    ultimately show ?thesis using link(3) by simp
  qed
qed simp

end
