(* ===== verification/Associate.thy ===== *)
theory Associate
  imports Minelog Hungarian "HOL-Library.AList"
begin

text \<open>
  Cross-pass association (\<open>mission_engine/core/associate.py\<close>): tracklets of one pass, the rigid fit, the blind
  alignment and the one-to-one assignment of a pass's tracklets to the tracks of the map. The tracks are a list
  whose positions are the indices of \<open>self.tracks\<close>; the visibility callback is an argument.
\<close>

section \<open>Tracklets\<close>

record tracklet =
  tk_center :: point
  tk_t0 :: seconds
  tk_t1 :: seconds
  tk_n_obs :: nat
  tk_weight :: real
  tk_spread :: metres
  tk_class :: string
  tk_tags :: "string list"

type_synonym row = "observation list"

definition row_center :: "row \<Rightarrow> point" where
  "row_center ms =
     (sum_list (map (fst \<circ> ground_local) ms) / of_nat (length ms), sum_list (map (snd \<circ> ground_local) ms) / of_nat (length ms))"

definition hyp2 :: "point \<Rightarrow> point \<Rightarrow> metres" where
  "hyp2 p q = hypot (fst p - fst q) (snd p - snd q)"

fun nearest_row :: "point \<Rightarrow> row list \<Rightarrow> nat \<Rightarrow> (nat \<times> metres) option \<Rightarrow> (nat \<times> metres) option" where
  "nearest_row p [] i best = best"
| "nearest_row p (ms # rows) i best =
     (let d = hyp2 p (row_center ms)
      in nearest_row p rows (Suc i) (case best of None \<Rightarrow> Some (i, d) | Some (b, bd) \<Rightarrow> if d < bd then Some (i, d) else best))"

definition join_rows :: "metres \<Rightarrow> observation \<Rightarrow> row list \<Rightarrow> row list" where
  "join_rows gate x rows =
     (case nearest_row (ground_local x) rows 0 None of
        None \<Rightarrow> rows @ [[x]]
      | Some (b, bd) \<Rightarrow> if gate < bd then rows @ [[x]] else rows[b := rows ! b @ [x]])"

type_synonym clusters = "(string \<times> row list) list"

definition file_observation :: "metres \<Rightarrow> observation \<Rightarrow> clusters \<Rightarrow> clusters" where
  "file_observation gate x cl =
     (let rows = (case map_of cl (class_id x) of None \<Rightarrow> [] | Some rows \<Rightarrow> rows)
      in AList.update (class_id x) (join_rows gate x rows) cl)"

definition cluster_pass :: "metres \<Rightarrow> observation list \<Rightarrow> clusters" where
  "cluster_pass gate xs = fold (file_observation gate) (sort_key obs_t xs) []"

definition conf_weight :: "observation \<Rightarrow> real" where
  "conf_weight x = max (conf x) (1 / 10 ^ 6)"

definition row_median :: "row \<Rightarrow> point" where
  "row_median ms =
     (sort (map (fst \<circ> ground_local) ms) ! (length ms div 2), sort (map (snd \<circ> ground_local) ms) ! (length ms div 2))"

definition trim_cut :: "metres \<Rightarrow> row \<Rightarrow> metres" where
  "trim_cut floor_m ms =
     (let radii = map (\<lambda>m. hyp2 (ground_local m) (row_median ms)) ms
      in max floor_m (sort radii ! nat (max 0 (\<lceil>9 / 10 * real (length ms)\<rceil> - 1))))"

definition kept_rows :: "metres \<Rightarrow> row \<Rightarrow> row" where
  "kept_rows floor_m ms = filter (\<lambda>m. hyp2 (ground_local m) (row_median ms) \<le> trim_cut floor_m ms) ms"

definition weighted :: "(observation \<Rightarrow> real) \<Rightarrow> row \<Rightarrow> real" where
  "weighted f ms = sum_list (map (\<lambda>m. f m * conf_weight m) ms)"

fun gather_tags :: "row \<Rightarrow> string list \<Rightarrow> string list" where
  "gather_tags [] tags = tags"
| "gather_tags (m # ms) tags =
     gather_tags ms (case tag_id m of None \<Rightarrow> tags | Some t \<Rightarrow> if t \<in> set tags then tags else tags @ [t])"

text \<open>The summary of one cluster; \<open>w\<close> is what the code divides by.\<close>

definition summarise :: "metres \<Rightarrow> string \<Rightarrow> row \<Rightarrow> py_error + tracklet" where
  "summarise floor_m k ms =
     (let kept = kept_rows floor_m ms;
          w = sum_list (map conf_weight kept)
      in if w = 0 then Inl ZeroDivisionError
         else let cn = weighted (fst \<circ> ground_local) kept / w;
                  ce = weighted (snd \<circ> ground_local) kept / w
              in Inr \<lparr>tk_center = (cn, ce), tk_t0 = obs_t (hd ms), tk_t1 = obs_t (last ms), tk_n_obs = length ms, tk_weight = w,
                   tk_spread = sqrt (weighted (\<lambda>m. (fst (ground_local m) - cn)\<^sup>2 + (snd (ground_local m) - ce)\<^sup>2) kept / w),
                   tk_class = k, tk_tags = gather_tags ms []\<rparr>)"

definition form_tracklets :: "metres \<Rightarrow> metres \<Rightarrow> observation list \<Rightarrow> py_error + tracklet list" where
  "form_tracklets gate floor_m xs =
     mapE (\<lambda>(k, ms). summarise floor_m k ms) (concat (map (\<lambda>(k, rows). map (Pair k) rows) (cluster_pass gate xs)))"

section \<open>Alignment\<close>

type_synonym transform = "radians \<times> point"

definition mean :: "(point \<Rightarrow> real) \<Rightarrow> point list \<Rightarrow> real" where
  "mean f ps = sum_list (map f ps) / of_nat (length ps)"

text \<open>The two sums of the closed form, over the points about their means.\<close>

definition fit_sums :: "(point \<times> point) list \<Rightarrow> point \<Rightarrow> point \<Rightarrow> real \<times> real" where
  "fit_sums ps sm dm = foldl (\<lambda>(num, den) ((sx, sy), (dx, dy)).
      let ax = sx - fst sm; ay = sy - snd sm; bx = dx - fst dm; by' = dy - snd dm
      in (num + (ax * by' - ay * bx), den + (ax * bx + ay * by'))) (0, 0) ps"

definition rigid_fit :: "point list \<Rightarrow> point list \<Rightarrow> bool \<Rightarrow> transform" where
  "rigid_fit src dst rotation =
     (let n = length src
      in if n = 0 then (0, (0, 0))
         else let sm = (mean fst src, mean snd src);
                  dm = (sum_list (map fst dst) / of_nat n, sum_list (map snd dst) / of_nat n);
                  (num, den) = fit_sums (zip src dst) sm dm;
                  \<theta> = (if rotation \<and> 2 \<le> n \<and> (num \<noteq> 0 \<or> den \<noteq> 0) then atan2 num den else 0);
                  c = cos \<theta>; s = sin \<theta>
              in (\<theta>, (fst dm - (c * fst sm - s * snd sm), snd dm - (s * fst sm + c * snd sm))))"

definition apply_se2 :: "transform \<Rightarrow> point \<Rightarrow> point" where
  "apply_se2 tr p =
     (case tr of (\<theta>, t) \<Rightarrow>
        (cos \<theta> * fst p - sin \<theta> * snd p + fst t, sin \<theta> * fst p + cos \<theta> * snd p + snd t))"

definition sq2 :: "point \<Rightarrow> point \<Rightarrow> real" where
  "sq2 p q = (fst p - fst q)\<^sup>2 + (snd p - snd q)\<^sup>2"

definition square_matrix :: "nat \<Rightarrow> (nat \<Rightarrow> nat \<Rightarrow> real) \<Rightarrow> matrix" where
  "square_matrix n f = map (\<lambda>i. map (f i) [0..<n]) [0..<n]"

definition align_cost :: "metres \<Rightarrow> point list \<Rightarrow> point list \<Rightarrow> nat \<Rightarrow> nat \<Rightarrow> real" where
  "align_cost coarse aligned ref i j =
     (if i < length aligned \<and> j < length ref then sq2 (aligned ! i) (ref ! j) else coarse\<^sup>2)"

definition align_pairs :: "metres \<Rightarrow> point list \<Rightarrow> point list \<Rightarrow> nat list \<Rightarrow> (nat \<times> nat) list" where
  "align_pairs coarse aligned ref out =
     filter (\<lambda>(i, j). i < length aligned \<and> j < length ref \<and> align_cost coarse aligned ref i j \<le> coarse\<^sup>2)
       (zip [0..<length out] out)"

definition fixed_point :: "transform \<Rightarrow> transform \<Rightarrow> bool" where
  "fixed_point a b \<longleftrightarrow> \<bar>fst b - fst a\<bar> < 1 / 10 ^ 5 \<and> hyp2 (snd b) (snd a) < 1 / 10 ^ 4"

fun align_loop :: "nat \<Rightarrow> point list \<Rightarrow> point list \<Rightarrow> bool \<Rightarrow> metres \<Rightarrow> transform \<Rightarrow> transform option" where
  "align_loop 0 obs ref rotation coarse tr = Some tr"
| "align_loop (Suc k) obs ref rotation coarse tr =
     (let aligned = map (apply_se2 tr) obs;
          n = max (length obs) (length ref)
      in Option.bind (hungarian (square_matrix n (align_cost coarse aligned ref))) (\<lambda>out.
           let pairs = align_pairs coarse aligned ref out
           in if length pairs < 2 then Some tr
              else let tr' = rigid_fit (map (\<lambda>(i, j). obs ! i) pairs) (map (\<lambda>(i, j). ref ! j) pairs) rotation
                   in if fixed_point tr tr' then Some tr' else align_loop k obs ref rotation coarse tr'))"

definition blind_align :: "point list \<Rightarrow> point list \<Rightarrow> bool \<Rightarrow> metres \<Rightarrow> nat \<Rightarrow> transform option" where
  "blind_align obs ref rotation coarse iterations =
     (if obs = [] \<or> ref = [] then Some (0, (0, 0)) else align_loop iterations obs ref rotation coarse (0, (0, 0)))"

section \<open>The associator\<close>

datatype verdict = OBSERVED | EDGE | UNSEEN

record track =
  trk_id :: nat
  trk_class :: string
  trk_centers :: "point list"
  trk_weights :: "real list"
  trk_hits :: nat
  trk_misses :: nat
  trk_first :: seconds
  trk_last :: seconds
  trk_tags :: "string list"

definition track_center :: "track \<Rightarrow> py_error + point" where
  "track_center t =
     (let w = sum_list (trk_weights t)
      in if w = 0 then Inl ZeroDivisionError
         else Inr (sum_list (map (\<lambda>(c, wi). fst c * wi) (zip (trk_centers t) (trk_weights t))) / w,
                   sum_list (map (\<lambda>(c, wi). snd c * wi) (zip (trk_centers t) (trk_weights t))) / w))"

record pass_result =
  res_transform :: transform
  res_matches :: "(nat \<times> nat) list"
  res_born :: "nat list"
  res_missed :: "nat list"
  res_out_of_view :: "nat list"

record associator =
  as_gate :: metres
  as_coarse :: metres
  as_tracks :: "track list"

definition hit_track :: "tracklet \<Rightarrow> point \<Rightarrow> track \<Rightarrow> track" where
  "hit_track tk p t =
     t\<lparr>trk_centers := trk_centers t @ [p], trk_weights := trk_weights t @ [tk_weight tk], trk_hits := trk_hits t + 1,
       trk_last := tk_t1 tk, trk_tags := fold (\<lambda>g tags. if g \<in> set tags then tags else tags @ [g]) (tk_tags tk) (trk_tags t)\<rparr>"

definition new_track :: "nat \<Rightarrow> tracklet \<Rightarrow> point \<Rightarrow> track" where
  "new_track i tk p =
     hit_track tk p \<lparr>trk_id = i, trk_class = tk_class tk, trk_centers = [], trk_weights = [], trk_hits = 0, trk_misses = 0,
       trk_first = tk_t0 tk, trk_last = 0, trk_tags = []\<rparr>"

fun birth_all :: "tracklet list \<Rightarrow> track list \<Rightarrow> nat list \<Rightarrow> track list \<times> nat list" where
  "birth_all [] ts born = (ts, born)"
| "birth_all (tk # tks) ts born = birth_all tks (ts @ [new_track (length ts) tk (tk_center tk)]) (born @ [length ts])"

definition big :: real where
  "big = 10 ^ 18"

definition miss_cost :: "real \<Rightarrow> verdict \<Rightarrow> real" where
  "miss_cost g2 v = (case v of OBSERVED \<Rightarrow> g2 / 2 | EDGE \<Rightarrow> g2 / 4 | UNSEEN \<Rightarrow> 0)"

text \<open>Rows: the tracklets, then a miss row per track; columns: the tracks, then a birth column per tracklet.\<close>

definition pass_cost :: "real \<Rightarrow> tracklet list \<Rightarrow> track list \<Rightarrow> point list \<Rightarrow> point list \<Rightarrow> verdict list \<Rightarrow> nat \<Rightarrow> nat \<Rightarrow> real" where
  "pass_cost g2 tks ts aligned ref vs i j =
     (if i < length tks then
        (if j < length ts then
           (if tk_class (tks ! i) = trk_class (ts ! j) \<and> sq2 (aligned ! i) (ref ! j) \<le> g2 then sq2 (aligned ! i) (ref ! j) else big)
         else if j = length ts + i then g2 / 2 else big)
      else if j < length ts then (if i = length tks + j then miss_cost g2 (vs ! j) else big)
      else 0)"

type_synonym harvest = "track list \<times> (nat \<times> nat) list \<times> nat list \<times> nat set"

definition settle_tracklet :: "nat \<Rightarrow> matrix \<Rightarrow> nat list \<Rightarrow> point list \<Rightarrow> nat \<times> tracklet \<Rightarrow> harvest \<Rightarrow> harvest" where
  "settle_tracklet n_trk cost out aligned = (\<lambda>(i, tk) (ts, matches, born, seen).
     let j = out ! i
     in if j < n_trk \<and> cost ! i ! j < big
        then (ts[j := hit_track tk (aligned ! i) (ts ! j)], matches @ [(trk_id (ts ! j), i)], born, insert j seen)
        else (ts @ [new_track (length ts) tk (aligned ! i)], matches, born @ [length ts], seen))"

definition settle_track :: "verdict list \<Rightarrow> nat set \<Rightarrow> nat \<Rightarrow> track list \<times> nat list \<times> nat list \<Rightarrow> track list \<times> nat list \<times> nat list" where
  "settle_track vs seen j acc =
     (case acc of (ts, missed, out_of_view) \<Rightarrow>
        if j \<in> seen then acc
        else if vs ! j = UNSEEN then (ts, missed, out_of_view @ [trk_id (ts ! j)])
        else (ts[j := (ts ! j)\<lparr>trk_misses := trk_misses (ts ! j) + 1\<rparr>], missed @ [trk_id (ts ! j)], out_of_view))"

definition settle_pass :: "transform \<Rightarrow> matrix \<Rightarrow> nat list \<Rightarrow> point list \<Rightarrow> verdict list \<Rightarrow> tracklet list \<Rightarrow> associator \<Rightarrow>
    associator \<times> pass_result" where
  "settle_pass tr cost out aligned vs tks a =
     (let n_trk = length (as_tracks a);
          (ts, matches, born, seen) =
            fold (settle_tracklet n_trk cost out aligned) (zip [0..<length tks] tks) (as_tracks a, [], [], {});
          (ts', missed, out_of_view) = fold (settle_track vs seen) [0..<n_trk] (ts, [], [])
      in (a\<lparr>as_tracks := ts'\<rparr>,
          \<lparr>res_transform = tr, res_matches = matches, res_born = born, res_missed = missed, res_out_of_view = out_of_view\<rparr>))"

definition verdicts :: "(point \<Rightarrow> verdict) option \<Rightarrow> point list \<Rightarrow> verdict list" where
  "verdicts visibility ref = (case visibility of None \<Rightarrow> map (\<lambda>_. OBSERVED) ref | Some f \<Rightarrow> map f ref)"

text \<open>\<open>None\<close>: the solver does not return. An exception leaves the map as it was.\<close>

definition ingest_pass :: "(point \<Rightarrow> verdict) option \<Rightarrow> tracklet list \<Rightarrow> associator \<Rightarrow>
    (py_error + associator \<times> pass_result) option" where
  "ingest_pass visibility tks a =
     (if as_tracks a = [] then
        (case birth_all tks [] [] of (ts, born) \<Rightarrow>
           Some (Inr (a\<lparr>as_tracks := ts\<rparr>,
             \<lparr>res_transform = (0, (0, 0)), res_matches = [], res_born = born, res_missed = [], res_out_of_view = []\<rparr>)))
      else
        let ts = as_tracks a; obs = map tk_center tks
        in case mapE track_center ts of
             Inl e \<Rightarrow> Some (Inl e)
           | Inr ref \<Rightarrow>
               Option.bind (blind_align obs ref (2 \<le> length obs) (as_coarse a) 8) (\<lambda>tr.
                 let aligned = map (apply_se2 tr) obs;
                     vs = verdicts visibility ref;
                     n = length tks + length ts;
                     cost = square_matrix n (pass_cost ((as_gate a)\<^sup>2) tks ts aligned ref vs)
                 in map_option (\<lambda>out. Inr (settle_pass tr cost out aligned vs tks a)) (hungarian cost)))"

end
