(* ===== verification/Tracklet_Properties.thy ===== *)
theory Tracklet_Properties
  imports Associate
begin

text \<open>
  The front end of the association: the tracklets of a pass account for every observation, and the rigid fit is
  the least-squares one.
\<close>

section \<open>Tracklets\<close>

definition members :: "clusters \<Rightarrow> observation list" where
  "members cl = concat (map (\<lambda>(k, rows). concat rows) cl)"

definition rows_at :: "clusters \<Rightarrow> string \<Rightarrow> row list" where
  "rows_at cl k = (case map_of cl k of None \<Rightarrow> [] | Some rows \<Rightarrow> rows)"

definition row_ok :: "string \<Rightarrow> row \<Rightarrow> bool" where
  "row_ok k ms \<longleftrightarrow> ms \<noteq> [] \<and> (\<forall>m \<in> set ms. class_id m = k) \<and> sorted (map obs_t ms)"

definition clusters_ok :: "clusters \<Rightarrow> bool" where
  "clusters_ok cl \<longleftrightarrow> (\<forall>(k, rows) \<in> set cl. \<forall>ms \<in> set rows. row_ok k ms)"

lemma nearest_row_bound:
  "nearest_row p rows i best = Some (b, bd) \<Longrightarrow> (\<forall>b' bd'. best = Some (b', bd') \<longrightarrow> b' < i) \<Longrightarrow> b < i + length rows"
proof (induction rows arbitrary: i best)
  case (Cons ms rows)
  have "b < Suc i + length rows"
    by (rule Cons.IH [of "Suc i", OF Cons.prems(1) [unfolded nearest_row.simps Let_def]])
      (use Cons.prems(2) in \<open>auto split: option.splits if_splits\<close>)
  then show ?case by simp
qed simp

lemma join_rows_cases:
  obtains "join_rows gate x rows = rows @ [[x]]"
  | b where "b < length rows" "join_rows gate x rows = rows[b := rows ! b @ [x]]"
proof (cases "nearest_row (ground_local x) rows 0 None")
  case None
  then show ?thesis using that(1) by (simp add: join_rows_def)
next
  case (Some p)
  then obtain b bd where p: "nearest_row (ground_local x) rows 0 None = Some (b, bd)" by (cases p) auto
  then have "b < length rows" using nearest_row_bound [OF p] by simp
  then show ?thesis using that p by (cases "gate < bd") (auto simp: join_rows_def)
qed

lemma mset_concat_update:
  "b < length rows \<Longrightarrow> mset (concat (rows[b := rows ! b @ [x]])) = add_mset x (mset (concat rows))"
  by (induction rows arbitrary: b) (auto split: nat.splits)

lemma mset_join_rows: "mset (concat (join_rows gate x rows)) = add_mset x (mset (concat rows))"
  by (rule join_rows_cases [of gate x rows]) (simp_all add: mset_concat_update)

lemma join_rows_ok:
  assumes "\<forall>ms \<in> set rows. row_ok (class_id x) ms" "\<forall>m \<in> set (concat rows). obs_t m \<le> obs_t x"
  shows "\<forall>ms \<in> set (join_rows gate x rows). row_ok (class_id x) ms"
proof (rule join_rows_cases [of gate x rows])
  assume "join_rows gate x rows = rows @ [[x]]"
  then show ?thesis using assms(1) by (auto simp: row_ok_def)
next
  fix b assume b: "b < length rows" "join_rows gate x rows = rows[b := rows ! b @ [x]]"
  then have "rows ! b \<in> set rows" by simp
  then have "row_ok (class_id x) (rows ! b @ [x])" using assms by (auto simp: row_ok_def sorted_append)
  then show ?thesis using assms(1) b by (auto dest: set_update_subset_insert [THEN subsetD])
qed

lemma mset_update_members:
  "mset (members (AList.update k v cl)) + mset (concat (rows_at cl k)) = mset (members cl) + mset (concat v)"
  by (induction cl) (auto simp: members_def rows_at_def)

lemma set_update_clusters: "(k', v') \<in> set (AList.update k v cl) \<Longrightarrow> (k', v') \<in> set cl \<or> (k', v') = (k, v)"
  by (induction cl) (auto split: if_splits)

lemma rows_at_set: "rows_at cl k \<noteq> [] \<Longrightarrow> (k, rows_at cl k) \<in> set cl"
  by (auto simp: rows_at_def dest: map_of_SomeD split: option.splits)

lemma file_observation_eq: "file_observation gate x cl = AList.update (class_id x) (join_rows gate x (rows_at cl (class_id x))) cl"
  by (simp add: file_observation_def rows_at_def)

lemma mset_file: "mset (members (file_observation gate x cl)) = add_mset x (mset (members cl))"
proof -
  have "mset (members (file_observation gate x cl)) + mset (concat (rows_at cl (class_id x)))
      = mset (members cl) + add_mset x (mset (concat (rows_at cl (class_id x))))"
    unfolding file_observation_eq mset_update_members mset_join_rows ..
  then show ?thesis by simp
qed

lemma file_ok:
  assumes "clusters_ok cl" "\<forall>m \<in> set (members cl). obs_t m \<le> obs_t x"
  shows "clusters_ok (file_observation gate x cl)"
proof -
  let ?rows = "rows_at cl (class_id x)"
  have "\<forall>ms \<in> set ?rows. row_ok (class_id x) ms"
    using rows_at_set [of cl "class_id x"] assms(1) by (cases "?rows = []") (auto simp: clusters_ok_def)
  moreover have "set (concat ?rows) \<subseteq> set (members cl)"
    using rows_at_set [of cl "class_id x"] by (cases "?rows = []") (force simp: members_def)+
  ultimately have "\<forall>ms \<in> set (join_rows gate x ?rows). row_ok (class_id x) ms"
    using join_rows_ok assms(2) by blast
  then show ?thesis
    using assms(1) set_update_clusters by (fastforce simp: clusters_ok_def file_observation_eq)
qed

lemma fold_file:
  "sorted (map obs_t xs) \<Longrightarrow> clusters_ok (fold (file_observation gate) xs []) \<and> mset (members (fold (file_observation gate) xs [])) = mset xs"
proof (induction xs rule: rev_induct)
  case Nil
  show ?case by (simp add: clusters_ok_def members_def)
next
  case (snoc x xs)
  then have IH: "clusters_ok (fold (file_observation gate) xs [])" "mset (members (fold (file_observation gate) xs [])) = mset xs"
    by (simp_all add: sorted_append)
  have "set (members (fold (file_observation gate) xs [])) = set xs" using IH(2) mset_eq_setD by blast
  then show ?case using snoc.prems IH by (simp add: file_ok mset_file sorted_append)
qed

lemma cluster_pass_ok: "clusters_ok (cluster_pass gate xs)" "mset (members (cluster_pass gate xs)) = mset xs"
  using fold_file [of "sort_key obs_t xs" gate] by (simp_all add: cluster_pass_def)

lemma conf_weight_pos: "0 < conf_weight m"
  by (simp add: conf_weight_def less_max_iff_disj)

lemma kept_rows_nonempty:
  assumes "ms \<noteq> []"
  shows "kept_rows floor_m ms \<noteq> []"
proof -
  let ?r = "\<lambda>m. hyp2 (ground_local m) (row_median ms)"
  define q where "q = nat (max 0 (\<lceil>9 / 10 * real (length ms)\<rceil> - 1))"
  have "9 / 10 * real (length ms) \<le> real (length ms)" by simp
  then have "\<lceil>9 / 10 * real (length ms)\<rceil> \<le> int (length ms)" by (simp add: ceiling_le_iff)
  moreover have "0 < length ms" using assms by simp
  ultimately have "q < length (sort (map ?r ms))" unfolding q_def length_sort length_map by linarith
  then have "sort (map ?r ms) ! q \<in> set (sort (map ?r ms))" by (rule nth_mem)
  then obtain m where "m \<in> set ms" "?r m = sort (map ?r ms) ! q" by auto
  then have "m \<in> set (kept_rows floor_m ms)" by (simp add: kept_rows_def trim_cut_def Let_def q_def)
  then show ?thesis by auto
qed

text \<open>A cluster's summary always exists.\<close>

lemma summarise_returns:
  assumes "row_ok k ms"
  shows "\<exists>tk. summarise floor_m k ms = Inr tk \<and> tk_n_obs tk = length ms \<and> tk_class tk = k
    \<and> 0 < tk_weight tk \<and> tk_t0 tk \<le> tk_t1 tk"
proof -
  define kept where "kept = kept_rows floor_m ms"
  have ne: "ms \<noteq> []" and srt: "sorted (map obs_t ms)" using assms by (simp_all add: row_ok_def)
  obtain m rest where "kept = m # rest" using kept_rows_nonempty [OF ne, of floor_m] by (cases kept) (auto simp: kept_def)
  moreover have "0 \<le> sum_list (map conf_weight rest)"
    using conf_weight_pos by (intro sum_list_nonneg) (auto intro: less_imp_le)
  ultimately have w: "0 < sum_list (map conf_weight kept)" using conf_weight_pos [of m] by simp
  have "obs_t (hd ms) \<le> obs_t (last ms)"
    using srt ne by (cases ms) (auto simp: last_ConsR)
  then show ?thesis using w by (simp add: summarise_def Let_def kept_def [symmetric])
qed

definition class_count :: "string \<Rightarrow> observation list \<Rightarrow> nat" where
  "class_count k xs = length (filter (\<lambda>x. class_id x = k) xs)"

lemma summarise_all:
  "\<forall>(k, ms) \<in> set kms. row_ok k ms \<Longrightarrow> \<exists>tks. mapE (\<lambda>(k, ms). summarise floor_m k ms) kms = Inr tks
     \<and> (\<forall>tk \<in> set tks. 0 < tk_n_obs tk \<and> 0 < tk_weight tk \<and> tk_t0 tk \<le> tk_t1 tk)
     \<and> (\<forall>k. sum_list (map tk_n_obs (filter (\<lambda>tk. tk_class tk = k) tks)) = class_count k (concat (map snd kms)))"
proof (induction kms)
  case Nil
  show ?case by (simp add: class_count_def)
next
  case (Cons km kms)
  obtain k ms where km: "km = (k, ms)" by (cases km)
  have ok: "row_ok k ms" using Cons.prems by (simp add: km)
  obtain tk where tk: "summarise floor_m k ms = Inr tk" "tk_n_obs tk = length ms" "tk_class tk = k" "0 < tk_weight tk" "tk_t0 tk \<le> tk_t1 tk"
    using summarise_returns [OF ok] by blast
  have "filter (\<lambda>x. class_id x = k') ms = (if k' = k then ms else [])" for k'
    using ok by (auto simp: row_ok_def filter_id_conv filter_empty_conv)
  moreover have "ms \<noteq> []" using ok by (simp add: row_ok_def)
  ultimately show ?case using Cons tk by (auto simp: km class_count_def)
qed

lemma tracklets_account:
  "\<exists>tks. form_tracklets gate floor_m xs = Inr tks
     \<and> (\<forall>tk \<in> set tks. 0 < tk_n_obs tk \<and> 0 < tk_weight tk \<and> tk_t0 tk \<le> tk_t1 tk)
     \<and> (\<forall>k. sum_list (map tk_n_obs (filter (\<lambda>tk. tk_class tk = k) tks)) = class_count k xs)"
proof -
  define kms where "kms = concat (map (\<lambda>(k, rows). map (Pair k) rows) (cluster_pass gate xs))"
  have "\<forall>(k, ms) \<in> set kms. row_ok k ms"
    using cluster_pass_ok(1) by (fastforce simp: kms_def clusters_ok_def)
  from summarise_all [OF this, of floor_m] obtain tks where tks: "mapE (\<lambda>(k, ms). summarise floor_m k ms) kms = Inr tks"
    "\<forall>tk \<in> set tks. 0 < tk_n_obs tk \<and> 0 < tk_weight tk \<and> tk_t0 tk \<le> tk_t1 tk"
    "\<forall>k. sum_list (map tk_n_obs (filter (\<lambda>tk. tk_class tk = k) tks)) = class_count k (concat (map snd kms))"
    by blast
  have "concat (map snd (concat (map (\<lambda>(k, rows). map (Pair k) rows) cl))) = members cl" for cl :: clusters
    by (induction cl) (auto simp: members_def comp_def)
  then have "concat (map snd kms) = members (cluster_pass gate xs)" by (simp add: kms_def)
  then have "mset (concat (map snd kms)) = mset xs" using cluster_pass_ok(2) by simp
  then have "class_count k (concat (map snd kms)) = class_count k xs" for k
    by (metis class_count_def mset_filter size_mset)
  then show ?thesis using tks by (auto simp: form_tracklets_def kms_def)
qed

definition demo_observation :: "seconds \<Rightarrow> point \<Rightarrow> string \<Rightarrow> observation" where
  "demo_observation t p k = \<lparr>obs_t = t, ground_local = p, conf = 1, class_id = k, obs_ll = None, tag_id = None\<rparr>"

text \<open>
  Claim C27: forming tracklets never fails (no division by zero after the trimming, however the points lie), every
  observation is counted in exactly one tracklet of its class, and each tracklet has observations, a positive
  weight and a start not after its end.
\<close>

theorem form_tracklets_partition:
  "\<exists>tks. form_tracklets gate floor_m xs = Inr tks
     \<and> (\<forall>tk \<in> set tks. 0 < tk_n_obs tk \<and> 0 < tk_weight tk \<and> tk_t0 tk \<le> tk_t1 tk)
     \<and> (\<forall>k. sum_list (map tk_n_obs (filter (\<lambda>tk. tk_class tk = k) tks)) = class_count k xs)"
  by (rule tracklets_account)

theorem form_tracklets_partition_witness:
  "\<exists>tks. form_tracklets 1 (1 / 2) [demo_observation 1 (0, 0) ''mine'', demo_observation 0 (9, 0) ''mine''] = Inr tks
     \<and> sum_list (map tk_n_obs (filter (\<lambda>tk. tk_class tk = ''mine'') tks)) = 2"
  using form_tracklets_partition [of 1 "1 / 2" "[demo_observation 1 (0, 0) ''mine'', demo_observation 0 (9, 0) ''mine'']"]
  by (auto simp: class_count_def demo_observation_def)

section \<open>The rigid fit\<close>

definition squared_error :: "transform \<Rightarrow> (point \<times> point) list \<Rightarrow> real" where
  "squared_error tr ps = sum_list (map (\<lambda>(p, q). sq2 (apply_se2 tr p) q) ps)"

definition cross_sum :: "(point \<times> point) list \<Rightarrow> point \<Rightarrow> point \<Rightarrow> real" where
  "cross_sum ps sm dm = sum_list (map (\<lambda>(p, q). (fst p - fst sm) * (snd q - snd dm) - (snd p - snd sm) * (fst q - fst dm)) ps)"

definition dot_sum :: "(point \<times> point) list \<Rightarrow> point \<Rightarrow> point \<Rightarrow> real" where
  "dot_sum ps sm dm = sum_list (map (\<lambda>(p, q). (fst p - fst sm) * (fst q - fst dm) + (snd p - snd sm) * (snd q - snd dm)) ps)"

lemma fit_sums_eq: "fit_sums ps sm dm = (cross_sum ps sm dm, dot_sum ps sm dm)"
proof -
  have "foldl (\<lambda>(num, den) ((sx, sy), (dx, dy)).
      let ax = sx - fst sm; ay = sy - snd sm; bx = dx - fst dm; by' = dy - snd dm
      in (num + (ax * by' - ay * bx), den + (ax * bx + ay * by'))) (u, v) ps = (u + cross_sum ps sm dm, v + dot_sum ps sm dm)" for u v
    by (induction ps arbitrary: u v) (auto simp: cross_sum_def dot_sum_def Let_def)
  then show ?thesis by (simp add: fit_sums_def)
qed

text \<open>The scatter of the points about two centres, which no transform changes.\<close>

definition scatter :: "(point \<times> point) list \<Rightarrow> point \<Rightarrow> point \<Rightarrow> real" where
  "scatter ps sm dm = sum_list (map (\<lambda>(p, q). sq2 p sm + sq2 q dm) ps)"

lemma error_term:
  assumes "c * c + s * s = (1 :: real)" "e = c * mx - s * my + tx - nx" "f = s * mx + c * my + ty - ny"
  shows "sq2 (c * px - s * py + tx, s * px + c * py + ty) (qx, qy) =
    sq2 (px, py) (mx, my) + sq2 (qx, qy) (nx, ny)
    - 2 * (c * ((px - mx) * (qx - nx) + (py - my) * (qy - ny)) + s * ((px - mx) * (qy - ny) - (py - my) * (qx - nx)))
    + 2 * (e * (c * (px - mx) - s * (py - my) - (qx - nx)) + f * (s * (px - mx) + c * (py - my) - (qy - ny)))
    + (e\<^sup>2 + f\<^sup>2)"
  using assms by (simp add: sq2_def) algebra

text \<open>The sums of the coordinates about the centres, which vanish when these are the means.\<close>

definition drift :: "(point \<times> point \<Rightarrow> real) \<Rightarrow> (point \<times> point) list \<Rightarrow> real \<Rightarrow> real" where
  "drift f ps m = sum_list (map (\<lambda>p. f p - m) ps)"

lemma drift_sum: "drift f ps m = sum_list (map f ps) - real (length ps) * m"
  by (induction ps) (simp_all add: drift_def algebra_simps)

lemma error_sum:
  assumes cs: "c * c + s * s = (1 :: real)" "c = cos \<theta>" "s = sin \<theta>"
    and ef: "e = c * mx - s * my + tx - nx" "f = s * mx + c * my + ty - ny"
  shows "squared_error (\<theta>, (tx, ty)) ps =
    scatter ps (mx, my) (nx, ny) - 2 * (c * dot_sum ps (mx, my) (nx, ny) + s * cross_sum ps (mx, my) (nx, ny))
    + 2 * (e * (c * drift (fst \<circ> fst) ps mx - s * drift (snd \<circ> fst) ps my - drift (fst \<circ> snd) ps nx)
         + f * (s * drift (fst \<circ> fst) ps mx + c * drift (snd \<circ> fst) ps my - drift (snd \<circ> snd) ps ny))
    + real (length ps) * (e\<^sup>2 + f\<^sup>2)"
proof (induction ps)
  case Nil
  show ?case by (simp add: squared_error_def scatter_def dot_sum_def cross_sum_def drift_def)
next
  case (Cons pq ps)
  obtain px py qx qy where pq: "pq = ((px, py), (qx, qy))" by (cases pq) auto
  have err: "squared_error (\<theta>, (tx, ty)) (pq # ps) =
      sq2 (c * px - s * py + tx, s * px + c * py + ty) (qx, qy) + squared_error (\<theta>, (tx, ty)) ps"
    by (simp add: squared_error_def pq apply_se2_def cs(2,3))
  have parts: "scatter (pq # ps) (mx, my) (nx, ny) = sq2 (px, py) (mx, my) + sq2 (qx, qy) (nx, ny) + scatter ps (mx, my) (nx, ny)"
    "dot_sum (pq # ps) (mx, my) (nx, ny) = (px - mx) * (qx - nx) + (py - my) * (qy - ny) + dot_sum ps (mx, my) (nx, ny)"
    "cross_sum (pq # ps) (mx, my) (nx, ny) = (px - mx) * (qy - ny) - (py - my) * (qx - nx) + cross_sum ps (mx, my) (nx, ny)"
    "drift (fst \<circ> fst) (pq # ps) mx = px - mx + drift (fst \<circ> fst) ps mx"
    "drift (snd \<circ> fst) (pq # ps) my = py - my + drift (snd \<circ> fst) ps my"
    "drift (fst \<circ> snd) (pq # ps) nx = qx - nx + drift (fst \<circ> snd) ps nx"
    "drift (snd \<circ> snd) (pq # ps) ny = qy - ny + drift (snd \<circ> snd) ps ny"
    "real (length (pq # ps)) = 1 + real (length ps)"
    by (simp_all add: pq scatter_def dot_sum_def cross_sum_def drift_def)
  show ?case
    unfolding err parts Cons.IH error_term [OF cs(1) ef, of px py qx qy] by algebra
qed

lemma rotation_bound:
  assumes "c * c + s * s = (1 :: real)"
  shows "c * x + s * y \<le> hypot x y"
proof -
  have "(c * x + s * y)\<^sup>2 + (c * y - s * x)\<^sup>2 = (c * c + s * s) * (x * x + y * y)" by algebra
  then have "(c * x + s * y)\<^sup>2 \<le> 1 * (x * x + y * y)" unfolding assms using zero_le_power2 [of "c * y - s * x"] by linarith
  then have "(c * x + s * y)\<^sup>2 \<le> x * x + y * y" by simp
  then have "\<bar>c * x + s * y\<bar> \<le> hypot x y" by (metis hypot_def real_sqrt_abs real_sqrt_le_iff)
  then show ?thesis by linarith
qed

text \<open>
  The fit is the least-squares rigid motion: no rotation and translation takes the source points closer
  to the destination points, in the sum of squared distances.
\<close>

lemma rigid_fit_least_squares:
  assumes "length src = length dst"
  shows "squared_error (rigid_fit src dst True) (zip src dst) \<le> squared_error tr (zip src dst)"
proof (cases "src = []")
  case True
  then show ?thesis by (simp add: squared_error_def)
next
  case False
  define n where "n = length src"
  define ps where "ps = zip src dst"
  define mx where "mx = sum_list (map fst src) / real n"
  define my where "my = sum_list (map snd src) / real n"
  define nx where "nx = sum_list (map fst dst) / real n"
  define ny where "ny = sum_list (map snd dst) / real n"
  define num where "num = cross_sum ps (mx, my) (nx, ny)"
  define den where "den = dot_sum ps (mx, my) (nx, ny)"
  have n: "0 < n" "length ps = n" using False assms by (auto simp: n_def ps_def)
  have sums: "sum_list (map (fst \<circ> fst) ps) = real n * mx" "sum_list (map (snd \<circ> fst) ps) = real n * my"
    "sum_list (map (fst \<circ> snd) ps) = real n * nx" "sum_list (map (snd \<circ> snd) ps) = real n * ny"
    using assms n unfolding map_map [symmetric] ps_def mx_def my_def nx_def ny_def by simp_all
  then have still: "drift (fst \<circ> fst) ps mx = 0" "drift (snd \<circ> fst) ps my = 0" "drift (fst \<circ> snd) ps nx = 0" "drift (snd \<circ> snd) ps ny = 0"
    by (simp_all add: drift_sum n)
  have err: "squared_error (\<theta>, (tx, ty)) ps = scatter ps (mx, my) (nx, ny) - 2 * (cos \<theta> * den + sin \<theta> * num)
      + real n * ((cos \<theta> * mx - sin \<theta> * my + tx - nx)\<^sup>2 + (sin \<theta> * mx + cos \<theta> * my + ty - ny)\<^sup>2)" for \<theta> tx ty
    using error_sum [OF sin_cos_squared_add3 [of \<theta>] refl refl refl refl, of tx ty ps mx my nx ny]
    by (simp add: still n num_def den_def)
  define \<theta> where "\<theta> = (if 2 \<le> n \<and> (num \<noteq> 0 \<or> den \<noteq> 0) then atan2 num den else 0)"
  have fit: "rigid_fit src dst True = (\<theta>, (nx - (cos \<theta> * mx - sin \<theta> * my), ny - (sin \<theta> * mx + cos \<theta> * my)))"
    using n by (auto simp: rigid_fit_def Let_def mean_def fit_sums_eq n_def [symmetric] ps_def [symmetric]
      mx_def [symmetric] my_def [symmetric] nx_def [symmetric] ny_def [symmetric] num_def [symmetric] den_def [symmetric]
      \<theta>_def)
  have best: "cos \<theta> * den + sin \<theta> * num = hypot den num"
  proof (cases "2 \<le> n \<and> (num \<noteq> 0 \<or> den \<noteq> 0)")
    case True
    then have polar: "hypot den num * cos \<theta> = den" "hypot den num * sin \<theta> = num"
      using atan2_cos_sin [of den num] by (auto simp: \<theta>_def)
    have "cos \<theta> * den + sin \<theta> * num = cos \<theta> * (hypot den num * cos \<theta>) + sin \<theta> * (hypot den num * sin \<theta>)"
      by (simp only: polar)
    also have "\<dots> = hypot den num * (cos \<theta> * cos \<theta> + sin \<theta> * sin \<theta>)" by algebra
    finally show ?thesis by (simp add: sin_cos_squared_add3)
  next
    case False
    have "num = 0 \<and> den = 0"
    proof (cases "2 \<le> n")
      case one: False
      then obtain p q where "ps = [(p, q)]" using n by (cases ps; cases "tl ps") auto
      then show ?thesis using still by (simp add: drift_def num_def den_def cross_sum_def dot_sum_def)
    qed (use False in simp)
    then show ?thesis by (simp add: \<theta>_def)
  qed
  obtain \<phi> tx ty where tr: "tr = (\<phi>, (tx, ty))" by (cases tr) auto
  have add_up: "x \<le> z - 2 * y + e" if "y \<le> h" "0 \<le> e" "x = z - 2 * h" for x y z e h :: real
    using that by linarith
  have "squared_error (rigid_fit src dst True) ps \<le> squared_error tr ps"
    unfolding tr err
  proof (rule add_up)
    show "cos \<phi> * den + sin \<phi> * num \<le> hypot den num"
      using rotation_bound sin_cos_squared_add3 [of \<phi>] by simp
    show "squared_error (rigid_fit src dst True) ps = scatter ps (mx, my) (nx, ny) - 2 * hypot den num"
      unfolding fit err best by simp
  qed simp
  then show ?thesis by (simp add: ps_def)
qed

end
