(* ===== verification/Hungarian_Properties.thy ===== *)
theory Hungarian_Properties
  imports Hungarian
begin

text \<open>
  The assignment solver returns a minimum-cost perfect matching. The invariant of the outer loop (\<open>fair\<close>) is dual
  feasibility of the rows placed so far and complementary slackness on their columns; that of the search (\<open>frontier\<close>)
  adds a tight trail from every used column back to the hole.
\<close>

section \<open>The invariants\<close>

definition matched :: "nat \<Rightarrow> (nat \<Rightarrow> nat) \<Rightarrow> nat set" where
  "matched n p = {j. 1 \<le> j \<and> j \<le> n \<and> p j \<noteq> 0}"

definition feasible :: "matrix \<Rightarrow> nat \<Rightarrow> potentials \<Rightarrow> nat \<Rightarrow> bool" where
  "feasible c n h r \<longleftrightarrow> (\<forall>j. 1 \<le> j \<and> j \<le> n \<longrightarrow> 0 \<le> slack c h r j)"

definition fair :: "matrix \<Rightarrow> nat \<Rightarrow> nat \<Rightarrow> potentials \<Rightarrow> bool" where
  "fair c n k h \<longleftrightarrow>
     (\<forall>r. 1 \<le> r \<and> r \<le> k \<longrightarrow> feasible c n h r)
     \<and> (\<forall>j \<in> matched n (row_at h). slack c h (row_at h j) j = 0)
     \<and> bij_betw (row_at h) (matched n (row_at h)) {1..k}"

definition placing :: "matrix \<Rightarrow> nat \<Rightarrow> nat \<Rightarrow> potentials \<Rightarrow> bool" where
  "placing c n k h \<longleftrightarrow> fair c n k h \<and> row_at h 0 = Suc k"

definition tight_trail :: "matrix \<Rightarrow> potentials \<Rightarrow> (nat \<Rightarrow> bool) \<Rightarrow> nat \<Rightarrow> nat list \<Rightarrow> bool" where
  "tight_trail c h us j ps \<longleftrightarrow> trail (way h) j ps \<and> (\<forall>x \<in> set ps. us x \<and> slack c h (row_at h (way h x)) x = 0)"

definition closest_used :: "matrix \<Rightarrow> potentials \<Rightarrow> scan \<Rightarrow> nat \<Rightarrow> bool" where
  "closest_used c h sc j \<longleftrightarrow> used sc (way h j)
     \<and> minv sc j = Some (slack c h (row_at h (way h j)) j)
     \<and> (\<forall>w. used sc w \<longrightarrow> slack c h (row_at h (way h j)) j \<le> slack c h (row_at h w) j)"

definition frontier :: "matrix \<Rightarrow> nat \<Rightarrow> nat \<Rightarrow> potentials \<Rightarrow> scan \<Rightarrow> bool" where
  "frontier c n k h sc \<longleftrightarrow>
     placing c n k h \<and> used sc 0
     \<and> (\<forall>j. used sc j \<longrightarrow> j = 0 \<or> j \<in> matched n (row_at h))
     \<and> (\<forall>j. used sc j \<longrightarrow> (\<exists>ps. tight_trail c h (used sc) j ps))
     \<and> (\<forall>j. 1 \<le> j \<and> j \<le> n \<and> \<not> used sc j \<longrightarrow> closest_used c h sc j)"

definition settled :: "matrix \<Rightarrow> nat \<Rightarrow> nat \<Rightarrow> potentials \<Rightarrow> scan \<Rightarrow> bool" where
  "settled c n k h sc \<longleftrightarrow>
     frontier c n k h sc \<and> feasible c n h (Suc k)
     \<and> 1 \<le> col sc \<and> col sc \<le> n \<and> \<not> used sc (col sc)
     \<and> slack c h (row_at h (way h (col sc))) (col sc) = 0"

lemma feasible_way [simp]: "feasible c n (h\<lparr>way := w\<rparr>) r = feasible c n h r"
  by (simp add: feasible_def)

lemma fair_way [simp]: "fair c n k (h\<lparr>way := w\<rparr>) = fair c n k h"
  by (simp add: fair_def)

lemma placing_way [simp]: "placing c n k (h\<lparr>way := w\<rparr>) = placing c n k h"
  by (simp add: placing_def)

lemma placing_inj:
  assumes "placing c n k h"
  shows "bij_betw (row_at h) (insert 0 (matched n (row_at h))) {1..Suc k}"
proof -
  have "bij_betw (row_at h) (insert 0 (matched n (row_at h))) (insert (Suc k) {1..k})"
    using assms notIn_Un_bij_betw [of 0 "matched n (row_at h)" "row_at h" "{1..k}"]
    by (auto simp: placing_def fair_def matched_def)
  moreover have "insert (Suc k) {1..k} = {1..Suc k}" by auto
  ultimately show ?thesis by simp
qed

lemma free_column:
  assumes "placing c n k h" "k < n"
  obtains j where "1 \<le> j" "j \<le> n" "row_at h j = 0"
proof -
  have "card (matched n (row_at h)) = k"
    using assms(1) bij_betw_same_card by (fastforce simp: placing_def fair_def)
  then have "matched n (row_at h) \<noteq> {1..n}" using assms(2) by auto
  then have "\<exists>j. 1 \<le> j \<and> j \<le> n \<and> row_at h j = 0" by (force simp: matched_def)
  then show ?thesis using that by blast
qed

section \<open>One turn of the search\<close>

lemma relax_first:
  assumes "placing c n k h"
    and sc: "sc = \<lparr>minv = \<lambda>_. None, used = (\<lambda>_. False)(0 := True), col = 0\<rparr>"
  shows "frontier c n k (h\<lparr>way := relax_way c n 0 h sc\<rparr>) (sc\<lparr>minv := relax_minv c n 0 h sc\<rparr>)"
  using assms(1)
  by (auto simp: frontier_def sc tight_trail_def closest_used_def relax_way_def relax_minv_def relaxed_def intro: trail.hole)

lemma relax_closest:
  assumes "closest_used c h sc j" "1 \<le> j" "j \<le> n" "j \<noteq> j0"
    and sc': "sc' = sc\<lparr>used := (used sc)(j0 := True)\<rparr>" and "\<not> used sc j"
  shows "closest_used c (h\<lparr>way := relax_way c n j0 h sc'\<rparr>) (sc'\<lparr>minv := relax_minv c n j0 h sc'\<rparr>) j"
  using assms by (fastforce simp: closest_used_def relax_way_def relax_minv_def relaxed_def)

lemma relax_again:
  assumes "settled c n k h sc" "row_at h (col sc) \<noteq> 0"
    and sc': "sc' = sc\<lparr>used := (used sc)(col sc := True)\<rparr>"
  shows "frontier c n k (h\<lparr>way := relax_way c n (col sc) h sc'\<rparr>) (sc'\<lparr>minv := relax_minv c n (col sc) h sc'\<rparr>)"
    (is "frontier c n k ?h ?sc")
proof -
  have F: "placing c n k h" "used sc 0" "\<And>j. used sc j \<Longrightarrow> j = 0 \<or> j \<in> matched n (row_at h)"
    "\<And>j. used sc j \<Longrightarrow> \<exists>ps. tight_trail c h (used sc) j ps"
    "\<And>j. 1 \<le> j \<Longrightarrow> j \<le> n \<Longrightarrow> \<not> used sc j \<Longrightarrow> closest_used c h sc j"
    using assms(1) by (simp_all add: settled_def frontier_def)
  have C: "1 \<le> col sc" "col sc \<le> n" "\<not> used sc (col sc)" "slack c h (row_at h (way h (col sc))) (col sc) = 0"
    using assms(1) by (simp_all add: settled_def)
  have keep: "relax_way c n (col sc) h sc' x = way h x" if "used sc' x" for x
    using that by (simp add: relax_way_def)
  have old: "tight_trail c ?h (used sc') j ps" if "tight_trail c h (used sc) j ps" for j ps
    using that keep trail_cong [of "way h" j ps "way ?h"] by (auto simp: tight_trail_def sc')
  have "\<exists>ps. tight_trail c ?h (used sc') j ps" if "used sc' j" for j
  proof (cases "j = col sc")
    case False
    then show ?thesis using that F(4) [of j] old by (auto simp: sc')
  next
    case True
    have "used sc (way h j)" using F(5) C True by (simp add: closest_used_def)
    then obtain ps where ps: "tight_trail c h (used sc) (way h j) ps" using F(4) by blast
    then have "tight_trail c ?h (used sc') j (j # ps)"
      using old [OF ps] C True keep [of j] by (auto simp: tight_trail_def sc' intro!: trail.link)
    then show ?thesis by blast
  qed
  moreover have "closest_used c ?h ?sc j" if "1 \<le> j" "j \<le> n" "\<not> used sc' j" for j
  proof -
    have "j \<noteq> col sc" "\<not> used sc j" using that(3) by (auto simp: sc' split: if_splits)
    then show ?thesis using relax_closest [OF F(5) [OF that(1,2)] that(1,2) _ sc'] by simp
  qed
  ultimately show ?thesis
    using F(1-3) assms(2) C by (auto simp: frontier_def sc' tight_trail_def closest_used_def matched_def)
qed

lemma slack_shift:
  assumes "shifted (Suc n) x h sc = (h', sc')"
  shows "slack c h' r j = slack c h r j - (if \<exists>w<Suc n. used sc w \<and> row_at h w = r then x else 0)
     + (if j < Suc n \<and> used sc j then x else 0)"
  using assms by (auto simp: shifted_def slack_def shift_pu_def shift_pv_def)

lemma shift_settled:
  assumes F: "frontier c n k h sc" and known: "(\<forall>j. used sc j \<longrightarrow> j = 0) \<or> feasible c n h (Suc k)"
    and near: "nearest (used sc) (minv sc) n (Some x, j1)"
    and sh: "shifted (Suc n) x h sc = (h', sc')"
  shows "settled c n k h' (sc'\<lparr>col := j1\<rparr>)" "used sc' = used sc" "row_at h' = row_at h"
proof -
  have same: "row_at h' = row_at h" "way h' = way h" "used sc' = used sc"
    and mv: "minv sc' = shift_minv (Suc n) x sc"
    using sh by (auto simp: shifted_def)
  then show "used sc' = used sc" "row_at h' = row_at h" by simp_all
  have P: "placing c n k h" "used sc 0" "\<And>j. used sc j \<Longrightarrow> j = 0 \<or> j \<in> matched n (row_at h)"
    "\<And>j. used sc j \<Longrightarrow> \<exists>ps. tight_trail c h (used sc) j ps"
    "\<And>j. 1 \<le> j \<Longrightarrow> j \<le> n \<Longrightarrow> \<not> used sc j \<Longrightarrow> closest_used c h sc j"
    using F by (simp_all add: frontier_def)
  have row0: "row_at h 0 = Suc k" using P(1) by (simp add: placing_def)
  have inn: "used sc j \<Longrightarrow> j < Suc n" for j using P(3) [of j] by (auto simp: matched_def)
  have inj: "inj_on (row_at h) (insert 0 (matched n (row_at h)))"
    using placing_inj [OF P(1)] by (simp add: bij_betw_def)
  have sl: "slack c h' r j = slack c h r j - (if \<exists>w. used sc w \<and> row_at h w = r then x else 0) + (if used sc j then x else 0)"
    for r j using slack_shift [OF sh, of c r j] inn by auto
  have slw: "slack c h' (row_at h w) j = slack c h (row_at h w) j - x + (if used sc j then x else 0)" if "used sc w" for w j
    using sl [of "row_at h w" j] that by auto
  have feas: "feasible c n h r" if "1 \<le> r" "r \<le> k" for r using P(1) that by (simp add: placing_def fair_def)
  have xle: "x \<le> slack c h (row_at h w) j" if "used sc w" "1 \<le> j" "j \<le> n" "\<not> used sc j" for w j
    using near P(5) [OF that(2-4)] that by (force simp: closest_used_def)
  have one: "1 \<le> j1" "j1 \<le> n" "\<not> used sc j1" "minv sc j1 = Some x" using near by simp_all
  have old: "0 \<le> slack c h r j" if "used sc j" "1 \<le> j" "j \<le> n" "1 \<le> r" "r \<le> Suc k" for r j
    using known that feas [of r] by (cases "r = Suc k") (auto simp: feasible_def)
  have x0: "0 \<le> x" if "used sc j" "1 \<le> j" for j
  proof -
    have all: "feasible c n h (Suc k)" using known that by auto
    have "way h j1 \<in> insert 0 (matched n (row_at h))"
      using P(5) [OF one(1-3)] P(3) by (auto simp: closest_used_def)
    then have "row_at h (way h j1) \<in> {1..Suc k}" using bij_betwE [OF placing_inj [OF P(1)]] by blast
    then have "0 \<le> slack c h (row_at h (way h j1)) j1"
      using all feas one by (cases "row_at h (way h j1) = Suc k") (auto simp: feasible_def)
    then show ?thesis using P(5) [OF one(1-3)] one(4) by (simp add: closest_used_def)
  qed
  have feas': "feasible c n h' r" if r: "1 \<le> r" "r \<le> Suc k" for r
    unfolding feasible_def
  proof (intro allI impI)
    fix j assume j: "1 \<le> j \<and> j \<le> n"
    show "0 \<le> slack c h' r j"
    proof (cases "\<exists>w. used sc w \<and> row_at h w = r")
      case True
      then obtain w where w: "used sc w" "row_at h w = r" by blast
      show ?thesis using slw [OF w(1), of j] xle [OF w(1), of j] old [of j r] w(2) j r by auto
    next
      case False
      then have "r \<noteq> Suc k" using row0 P(2) by auto
      then have "0 \<le> slack c h r j" using feas [of r] r j by (simp add: feasible_def)
      then show ?thesis using sl [of r j] False x0 [of j] j by auto
    qed
  qed
  have tight: "slack c h' (row_at h j) j = 0" if j: "j \<in> matched n (row_at h)" for j
  proof -
    have "(\<exists>w. used sc w \<and> row_at h w = row_at h j) \<longleftrightarrow> used sc j"
      using inj P(3) j by (auto simp: inj_on_def)
    then show ?thesis using sl [of "row_at h j" j] P(1) j by (auto simp: placing_def fair_def)
  qed
  have trails: "\<exists>ps. tight_trail c h' (used sc) j ps" if "used sc j" for j
  proof -
    obtain ps where ps: "tight_trail c h (used sc) j ps" using P(4) \<open>used sc j\<close> by blast
    have "used sc (way h y)" if "y \<in> set ps" for y
      using trail_closed [of "way h" j ps y] ps that P(2) by (auto simp: tight_trail_def)
    then have "tight_trail c h' (used sc) j ps" using ps same slw by (auto simp: tight_trail_def)
    then show ?thesis by blast
  qed
  have close': "closest_used c h' sc' j" if "1 \<le> j" "j \<le> n" "\<not> used sc j" for j
    using P(5) [OF that] that by (auto simp: closest_used_def same mv shift_minv_def slw)
  have "fair c n k h'"
    using P(1) feas' tight by (auto simp: fair_def same placing_def)
  then have "frontier c n k h' sc'"
    using P(2,3) trails close' row0 by (auto simp: frontier_def same placing_def)
  moreover have "slack c h' (row_at h' (way h' j1)) j1 = 0"
    using P(5) [OF one(1-3)] one by (auto simp: closest_used_def same slw)
  ultimately show "settled c n k h' (sc'\<lparr>col := j1\<rparr>)"
    using feas' [of "Suc k"] one(1-3)
    by (auto simp: settled_def frontier_def same closest_used_def)
qed

lemma frontier_open:
  assumes "frontier c n k h sc" "k < n"
  obtains j where "1 \<le> j" "j \<le> n" "\<not> used sc j"
proof -
  have "placing c n k h" using assms(1) by (simp add: frontier_def)
  then obtain j where "1 \<le> j" "j \<le> n" "row_at h j = 0" using free_column assms(2) by blast
  then show ?thesis using assms(1) that by (fastforce simp: frontier_def matched_def)
qed

lemma frontier_inj:
  assumes "frontier c n k h sc"
  shows "inj_on (row_at h) {j. j < Suc n \<and> used sc j}"
proof -
  have "placing c n k h" using assms by (simp add: frontier_def)
  then have "inj_on (row_at h) (insert 0 (matched n (row_at h)))"
    using placing_inj bij_betw_def by blast
  moreover have "{j. j < Suc n \<and> used sc j} \<subseteq> insert 0 (matched n (row_at h))"
    using assms unfolding frontier_def by blast
  ultimately show ?thesis by (rule inj_on_subset)
qed

lemma turn_from_frontier:
  assumes relaxed: "frontier c n k (h\<lparr>way := relax_way c n (col sc) h sc'\<rparr>) (sc'\<lparr>minv := relax_minv c n (col sc) h sc'\<rparr>)"
    and sc': "sc' = sc\<lparr>used := (used sc)(col sc := True)\<rparr>"
    and known: "(\<forall>j. used sc' j \<longrightarrow> j = 0) \<or> feasible c n h (Suc k)" and k: "k < n"
  obtains h1 sc1 where "search_turn c n h sc = Some (h1, sc1)" "settled c n k h1 sc1"
    "used sc1 = used sc'" "row_at h1 = row_at h"
proof -
  define hr where "hr = h\<lparr>way := relax_way c n (col sc) h sc'\<rparr>"
  define sr where "sr = sc'\<lparr>minv := relax_minv c n (col sc) h sc'\<rparr>"
  have F: "frontier c n k hr sr" using relaxed by (simp add: hr_def sr_def)
  obtain d j1 where ra: "relax_all c n (col sc) h sc' = (hr, sr, d, j1)"
    and near: "nearest (used sr) (minv sr) n (d, j1)"
    using relax_all_done [of c n "col sc" h sc'] by (auto simp: relax_done_def hr_def sr_def)
  obtain x where x: "d = Some x"
    using near frontier_open [OF F k] by (cases d) auto
  obtain h3 sc3 where sh: "shifted (Suc n) x hr sr = (h3, sc3)" by fastforce
  have "fold (shift x) [0..<Suc n] (hr, sr) = (h3, sc3)"
    using shift_all [OF frontier_inj [OF F]] sh by simp
  then have "search_turn c n h sc = Some (h3, sc3\<lparr>col := j1\<rparr>)"
    using ra x by (simp add: search_turn_def sc' [symmetric] del: upt_Suc)
  moreover have "(\<forall>j. used sr j \<longrightarrow> j = 0) \<or> feasible c n hr (Suc k)" using known by (simp add: sr_def hr_def)
  note shift_settled [OF F this near [unfolded x] sh]
  ultimately show ?thesis using that by (simp add: sr_def hr_def)
qed

lemma search_first:
  assumes "placing c n k h" "k < n" and sc: "sc = \<lparr>minv = \<lambda>_. None, used = \<lambda>_. False, col = 0\<rparr>"
  obtains h1 sc1 where "search_turn c n h sc = Some (h1, sc1)" "settled c n k h1 sc1" "row_at h1 = row_at h"
proof -
  define sc' where "sc' = sc\<lparr>used := (used sc)(col sc := True)\<rparr>"
  have "sc' = \<lparr>minv = \<lambda>_. None, used = (\<lambda>_. False)(0 := True), col = 0\<rparr>" by (simp add: sc'_def sc)
  note relax_first [OF assms(1) this]
  moreover have "\<forall>j. used sc' j \<longrightarrow> j = 0" "col sc = 0" by (simp_all add: sc'_def sc)
  ultimately show ?thesis using turn_from_frontier [OF _ sc'_def _ assms(2)] that by metis
qed

lemma search_again:
  assumes "settled c n k h sc" "row_at h (col sc) \<noteq> 0" "k < n"
  obtains h1 sc1 where "search_turn c n h sc = Some (h1, sc1)" "settled c n k h1 sc1"
    "used sc1 = (used sc)(col sc := True)" "row_at h1 = row_at h"
proof -
  define sc' where "sc' = sc\<lparr>used := (used sc)(col sc := True)\<rparr>"
  have "feasible c n h (Suc k)" using assms(1) by (simp add: settled_def)
  moreover have "used sc' = (used sc)(col sc := True)" by (simp add: sc'_def)
  ultimately show ?thesis
    using turn_from_frontier [OF relax_again [OF assms(1,2) sc'_def] sc'_def _ assms(3)] that by metis
qed

definition unreached :: "nat \<Rightarrow> scan \<Rightarrow> nat set" where
  "unreached n sc = {j. 1 \<le> j \<and> j \<le> n \<and> \<not> used sc j}"

lemma search_ends:
  "settled c n k h sc \<Longrightarrow> row_at h (col sc) \<noteq> 0 \<Longrightarrow> k < n \<Longrightarrow>
     \<exists>h1 sc1. search_path c n h sc = Some (h1, sc1) \<and> settled c n k h1 sc1 \<and> row_at h1 = row_at h
       \<and> row_at h1 (col sc1) = 0"
proof (induction "card (unreached n sc)" arbitrary: h sc rule: less_induct)
  case less
  obtain h1 sc1 where turn: "search_turn c n h sc = Some (h1, sc1)" and st: "settled c n k h1 sc1"
    and us: "used sc1 = (used sc)(col sc := True)" and ra: "row_at h1 = row_at h"
    using search_again [OF less.prems] .
  have "unreached n sc1 \<subset> unreached n sc"
    using less.prems(1) by (auto simp: unreached_def us settled_def)
  moreover have "finite (unreached n sc)" unfolding unreached_def by (rule finite_subset [of _ "{1..n}"]) auto
  ultimately have dec: "card (unreached n sc1) < card (unreached n sc)" by (rule psubset_card_mono [rotated])
  show ?case
  proof (cases "row_at h1 (col sc1) = 0")
    case True
    then show ?thesis using turn st ra by (subst search_path.simps) simp
  next
    case False
    then show ?thesis using less.hyps [OF dec st False less.prems(3)] turn ra by (subst search_path.simps) simp
  qed
qed

lemma search_found:
  assumes "placing c n k h" "k < n" and sc: "sc = \<lparr>minv = \<lambda>_. None, used = \<lambda>_. False, col = 0\<rparr>"
  obtains h1 sc1 where "search_path c n h sc = Some (h1, sc1)"
    "settled c n k h1 sc1" "row_at h1 = row_at h" "row_at h1 (col sc1) = 0"
proof -
  obtain h1 sc1 where turn: "search_turn c n h sc = Some (h1, sc1)"
    and st: "settled c n k h1 sc1" "row_at h1 = row_at h"
    using search_first [OF assms] .
  have path: "search_path c n h sc = (if row_at h1 (col sc1) = 0 then Some (h1, sc1) else search_path c n h1 sc1)"
    by (subst search_path.simps) (simp add: turn)
  show ?thesis
  proof (cases "row_at h1 (col sc1) = 0")
    case True
    then show ?thesis using that path st by simp
  next
    case False
    then show ?thesis using search_ends [OF st(1) False assms(2)] that path st(2) by auto
  qed
qed

section \<open>One row placed\<close>

text \<open>Moving the rows along a tight trail from a free column fills it and keeps the matching tight.\<close>

lemma augment_fair:
  assumes st: "settled c n k h sc" and free: "row_at h (col sc) = 0"
  shows "\<exists>p. augment (way h) (row_at h) (col sc) = Some p \<and> fair c n (Suc k) (h\<lparr>row_at := p\<rparr>)"
proof -
  define j1 where "j1 = col sc"
  have C: "1 \<le> j1" "j1 \<le> n" "\<not> used sc j1" "slack c h (row_at h (way h j1)) j1 = 0"
    and F: "frontier c n k h sc" and top: "feasible c n h (Suc k)"
    using st by (simp_all add: settled_def j1_def)
  have pl: "placing c n k h" and us: "\<And>j. used sc j \<Longrightarrow> j = 0 \<or> j \<in> matched n (row_at h)"
    using F C by (simp_all add: frontier_def)
  have "\<exists>ps. tight_trail c h (used sc) (way h j1) ps"
    using F C by (simp add: frontier_def closest_used_def)
  then obtain ps where "tight_trail c h (used sc) (way h j1) ps" ..
  then have ps: "trail (way h) (way h j1) ps" "\<And>x. x \<in> set ps \<Longrightarrow> used sc x \<and> slack c h (row_at h (way h x)) x = 0"
    by (simp_all add: tight_trail_def)
  have tr: "trail (way h) j1 (j1 # ps)" using ps C by (intro trail.link) auto
  define T where "T = insert j1 (set ps)"
  define p where "p = (\<lambda>x. if x \<in> T then row_at h (way h x) else row_at h x)"
  define g where "g = (\<lambda>x. if x \<in> T then way h x else x)"
  have aug: "augment (way h) (row_at h) j1 = Some p"
    using augment_trail [OF tr, of "row_at h"] by (simp add: p_def T_def)
  have psM: "set ps \<subseteq> matched n (row_at h)"
    using ps(2) us trail_nonzero [OF ps(1)] by blast
  have j1M: "j1 \<notin> matched n (row_at h)" "j1 \<noteq> 0" using free C by (auto simp: j1_def matched_def)
  have 0: "0 \<notin> matched n (row_at h)" by (simp add: matched_def)
  let ?M = "matched n (row_at h)"
  have "bij_betw (way h) T (insert 0 (T - {j1}))"
    using trail_bij [OF tr] j1M by (simp add: T_def)
  moreover have "T - {j1} = set ps" using psM j1M by (auto simp: T_def)
  ultimately have gT: "bij_betw g T (insert 0 (set ps))"
    by (subst bij_betw_cong [of T g "way h"]) (simp_all add: g_def)
  have gR: "bij_betw g (?M - set ps) (?M - set ps)"
    using j1M by (subst bij_betw_cong [of _ g id]) (auto simp: g_def T_def)
  have "bij_betw g (T \<union> (?M - set ps)) (insert 0 (set ps) \<union> (?M - set ps))"
    by (rule bij_betw_combine [OF gT gR]) (use 0 in auto)
  moreover have "T \<union> (?M - set ps) = insert j1 ?M" using psM by (auto simp: T_def)
  moreover have "insert 0 (set ps) \<union> (?M - set ps) = insert 0 ?M" using psM by auto
  ultimately have "bij_betw g (insert j1 ?M) (insert 0 ?M)" by simp
  from bij_betw_trans [OF this placing_inj [OF pl]]
  have bij: "bij_betw p (insert j1 ?M) {1..Suc k}"
    by (rule bij_betw_cong [THEN iffD1, rotated]) (simp add: p_def g_def)
  have new: "matched n p = insert j1 ?M"
  proof -
    have on: "p x \<noteq> 0" if "x \<in> insert j1 ?M" for x using bij_betwE [OF bij] that by fastforce
    have off: "p x = row_at h x" if "x \<notin> insert j1 ?M" for x using that psM by (auto simp: p_def T_def)
    have "x \<in> matched n p \<longleftrightarrow> x \<in> insert j1 ?M" for x
      using on [of x] off [of x] C(1,2) by (cases "x \<in> insert j1 ?M") (auto simp: matched_def)
    then show ?thesis by blast
  qed
  have "slack c h (p j) j = 0" if "j \<in> insert j1 ?M" for j
    using that ps(2) C pl by (auto simp: p_def T_def placing_def fair_def)
  moreover have "feasible c n h r" if "1 \<le> r" "r \<le> Suc k" for r
    using pl top that by (cases "r = Suc k") (auto simp: placing_def fair_def)
  ultimately have "fair c n (Suc k) (h\<lparr>row_at := p\<rparr>)"
    using bij new by (simp add: fair_def slack_def feasible_def)
  then show ?thesis using aug by (simp add: j1_def)
qed

lemma fair_row0 [simp]: "fair c n k (h\<lparr>row_at := (row_at h)(0 := i)\<rparr>) = fair c n k h"
proof -
  have "matched n ((row_at h)(0 := i)) = matched n (row_at h)" by (auto simp: matched_def)
  moreover have "bij_betw ((row_at h)(0 := i)) (matched n (row_at h)) A = bij_betw (row_at h) (matched n (row_at h)) A" for A
    by (rule bij_betw_cong) (auto simp: matched_def)
  moreover have "j \<noteq> 0" if "j \<in> matched n (row_at h)" for j using that by (simp add: matched_def)
  ultimately show ?thesis by (auto simp: fair_def slack_def feasible_def)
qed

lemma place_row_fair:
  assumes "fair c n k h" "k < n"
  shows "\<exists>h'. place_row c n (Suc k) h = Some h' \<and> fair c n (Suc k) h'"
proof -
  define h1 where "h1 = h\<lparr>row_at := (row_at h)(0 := Suc k)\<rparr>"
  have "placing c n k h1" using assms(1) by (simp add: placing_def h1_def)
  then obtain h2 sc where sp: "search_path c n h1 \<lparr>minv = \<lambda>_. None, used = \<lambda>_. False, col = 0\<rparr> = Some (h2, sc)"
    and st: "settled c n k h2 sc" "row_at h2 (col sc) = 0"
    using search_found [OF _ assms(2) refl] by blast
  then show ?thesis using augment_fair [OF st] by (auto simp: place_row_def h1_def)
qed

lemma place_rows_fair:
  "fair c n k h \<Longrightarrow> k + m \<le> n \<Longrightarrow> \<exists>h'. place_rows c n [Suc k..<Suc (k + m)] h = Some h' \<and> fair c n (k + m) h'"
proof (induction m arbitrary: k h)
  case (Suc m)
  then obtain h1 where h1: "place_row c n (Suc k) h = Some h1" "fair c n (Suc k) h1"
    using place_row_fair [of c n k h] by auto
  have "[Suc k..<Suc (k + Suc m)] = Suc k # [Suc (Suc k)..<Suc (Suc k + m)]" by (simp add: upt_rec)
  then show ?case using Suc.IH [OF h1(2)] Suc.prems(2) h1(1) by auto
qed simp

section \<open>The result\<close>

definition read_step :: "(nat \<Rightarrow> nat) \<Rightarrow> nat \<Rightarrow> nat list \<Rightarrow> nat list" where
  "read_step q j out = (if q j \<noteq> 0 then out[q j - 1 := j - 1] else out)"

lemma read_off_fold:
  assumes "bij_betw q {1..n} {1..n}" "m \<le> n"
  shows "length (fold (read_step q) [1..<Suc m] (replicate n 0)) = n
    \<and> (\<forall>j. 1 \<le> j \<and> j \<le> m \<longrightarrow> fold (read_step q) [1..<Suc m] (replicate n 0) ! (q j - 1) = j - 1)"
  using assms(2)
proof (induction m)
  case (Suc m)
  define out where "out = fold (read_step q) [1..<Suc m] (replicate n 0)"
  have len: "length out = n" and val: "\<And>j. 1 \<le> j \<Longrightarrow> j \<le> m \<Longrightarrow> out ! (q j - 1) = j - 1"
    using Suc by (simp_all add: out_def)
  have in_range: "1 \<le> q j \<and> q j \<le> n" if "1 \<le> j" "j \<le> Suc m" for j
    using bij_betwE [OF assms(1)] that Suc.prems by simp
  have apart: "q j - 1 \<noteq> q (Suc m) - 1" if "1 \<le> j" "j \<le> m" for j
  proof -
    have inj: "inj_on q {1..n}" using assms(1) by (rule bij_betw_imp_inj_on)
    have "q j = q (Suc m) \<Longrightarrow> j = Suc m"
      by (erule inj_onD [OF inj]) (use that Suc.prems in simp_all)
    then have "q j \<noteq> q (Suc m)" using that by force
    moreover have "1 \<le> q j" "1 \<le> q (Suc m)" using in_range that by simp_all
    ultimately show ?thesis by linarith
  qed
  have last_range: "q (Suc m) - 1 < n" using in_range [of "Suc m"] by auto
  have "out[q (Suc m) - 1 := m] ! (q j - 1) = j - 1" if "1 \<le> j" "j \<le> Suc m" for j
  proof (cases "j = Suc m")
    case True
    then show ?thesis using len last_range by simp
  next
    case False
    then show ?thesis using apart [of j] val [of j] that by (simp add: nth_list_update)
  qed
  moreover have "fold (read_step q) [1..<Suc (Suc m)] (replicate n 0) = out[q (Suc m) - 1 := m]"
    using in_range [of "Suc m"] by (simp add: out_def read_step_def)
  ultimately show ?case using len by (simp del: upt_Suc)
qed simp

lemma fair_potential_sum:
  assumes f: "fair c n n h" and s: "bij_betw s {1..n} {1..n}"
  shows "(\<Sum>r = 1..n. pu h r) + (\<Sum>j = 1..n. pv h j) \<le> (\<Sum>r = 1..n. entry c r (s r))"
proof -
  have "pu h r + pv h (s r) \<le> entry c r (s r)" if "r \<in> {1..n}" for r
  proof -
    have "s r \<in> {1..n}" using s that by (auto simp: bij_betw_def)
    then show ?thesis using f that by (force simp: fair_def feasible_def slack_def)
  qed
  then have "(\<Sum>r = 1..n. pu h r + pv h (s r)) \<le> (\<Sum>r = 1..n. entry c r (s r))" by (rule sum_mono)
  moreover have "(\<Sum>r = 1..n. pv h (s r)) = (\<Sum>j = 1..n. pv h j)" using s by (rule sum.reindex_bij_betw)
  ultimately show ?thesis by (simp add: sum.distrib)
qed

lemma fair_full:
  assumes "fair c n n h"
  shows "bij_betw (row_at h) {1..n} {1..n}"
proof -
  have b: "bij_betw (row_at h) (matched n (row_at h)) {1..n}" using assms by (simp add: fair_def)
  then have "card (matched n (row_at h)) = card {1..n}" using bij_betw_same_card by blast
  moreover have "matched n (row_at h) \<subseteq> {1..n}" by (auto simp: matched_def)
  ultimately have "matched n (row_at h) = {1..n}" by (simp add: card_subset_eq)
  then show ?thesis using b by simp
qed

text \<open>The cost of an assignment given as the list of the columns.\<close>

definition total_cost :: "matrix \<Rightarrow> nat list \<Rightarrow> real" where
  "total_cost c out = (\<Sum>i < length c. c ! i ! (out ! i))"

definition assignment :: "nat \<Rightarrow> nat list \<Rightarrow> bool" where
  "assignment n out \<longleftrightarrow> length out = n \<and> distinct out \<and> set out = {..<n}"

lemma total_cost_entry:
  assumes "length out = length c"
  shows "total_cost c out = (\<Sum>r = 1..length c. entry c r (Suc (out ! (r - 1))))"
proof -
  have "total_cost c out = (\<Sum>i < length c. entry c (Suc i) (Suc (out ! i)))" by (simp add: total_cost_def entry_def)
  also have "\<dots> = (\<Sum>r = 1..length c. entry c r (Suc (out ! (r - 1))))"
    by (rule sum.reindex_bij_witness [of _ "\<lambda>r. r - 1" Suc]) auto
  finally show ?thesis .
qed

lemma assignment_bij:
  assumes "assignment n out"
  shows "bij_betw (\<lambda>r. Suc (out ! (r - 1))) {1..n} {1..n}"
proof -
  have down: "bij_betw (\<lambda>r. r - 1) {1..n} {..<n}"
    by (rule bij_betw_byWitness [where f' = Suc]) auto
  have at: "bij_betw ((!) out) {..<n} {..<n}"
    by (rule bij_betw_nth) (use assms in \<open>simp_all add: assignment_def\<close>)
  have up: "bij_betw Suc {..<n} {1..n}"
    by (rule bij_betw_byWitness [where f' = "\<lambda>r. r - 1"]) auto
  show ?thesis using bij_betw_trans [OF bij_betw_trans [OF down at] up] by (simp add: comp_def)
qed

lemma read_off_assignment:
  assumes b: "bij_betw (row_at h) {1..n} {1..n}"
  shows "assignment n (read_off n h)" "\<And>j. 1 \<le> j \<Longrightarrow> j \<le> n \<Longrightarrow> read_off n h ! (row_at h j - 1) = j - 1"
proof -
  have ro: "read_off n h = fold (read_step (row_at h)) [1..<Suc n] (replicate n 0)"
    by (simp add: read_off_def read_step_def [abs_def])
  have len: "length (read_off n h) = n"
    and val: "read_off n h ! (row_at h j - 1) = j - 1" if "1 \<le> j" "j \<le> n" for j
    using read_off_fold [OF b le_refl] that unfolding ro by blast+
  show "read_off n h ! (row_at h j - 1) = j - 1" if "1 \<le> j" "j \<le> n" for j using val that .
  have lenn: "length (read_off n h) = n" using read_off_fold [OF b le_refl] unfolding ro by blast
  have "{..<n} \<subseteq> set (read_off n h)"
  proof
    fix x assume "x \<in> {..<n}"
    then have "1 \<le> Suc x" "Suc x \<le> n" by simp_all
    moreover from this have "row_at h (Suc x) \<in> {1..n}" using bij_betwE [OF b] by simp
    ultimately show "x \<in> set (read_off n h)" using val [of "Suc x"] lenn
      by (metis Suc_le_lessD Suc_pred' atLeastAtMost_iff diff_Suc_1 nth_mem One_nat_def)
  qed
  moreover have "card (set (read_off n h)) \<le> n" using card_length lenn by metis
  ultimately have "set (read_off n h) = {..<n}"
    by (metis card_lessThan card_seteq List.finite_set)
  then show "assignment n (read_off n h)"
    by (simp add: assignment_def lenn card_distinct)
qed

lemma hungarian_solves:
  "\<exists>out. hungarian c = Some out \<and> assignment (length c) out
     \<and> (\<forall>other. assignment (length c) other \<longrightarrow> total_cost c out \<le> total_cost c other)"
proof -
  let ?n = "length c"
  define h0 where "h0 = \<lparr>pu = \<lambda>_. 0, pv = \<lambda>_. 0, row_at = \<lambda>_. 0, way = \<lambda>_. 0\<rparr>"
  have "fair c ?n 0 h0" by (simp add: fair_def matched_def h0_def bij_betw_def)
  from place_rows_fair [OF this, of ?n]
  obtain h where h: "place_rows c ?n [1..<Suc ?n] h0 = Some h" "fair c ?n ?n h" by auto
  define out where "out = read_off ?n h"
  have out: "assignment ?n out" "\<And>j. 1 \<le> j \<Longrightarrow> j \<le> ?n \<Longrightarrow> out ! (row_at h j - 1) = j - 1"
    using read_off_assignment [OF fair_full [OF h(2)]] by (auto simp: out_def)
  have "total_cost c out = (\<Sum>r = 1..?n. entry c r (Suc (out ! (r - 1))))"
    using out(1) total_cost_entry by (simp add: assignment_def)
  also have "\<dots> = (\<Sum>j = 1..?n. entry c (row_at h j) (Suc (out ! (row_at h j - 1))))"
    using fair_full [OF h(2)] by (rule sum.reindex_bij_betw [symmetric])
  also have "\<dots> = (\<Sum>j = 1..?n. pu h (row_at h j) + pv h j)"
  proof (rule sum.cong [OF refl])
    fix j assume j: "j \<in> {1..?n}"
    then have "row_at h j \<noteq> 0" using bij_betwE [OF fair_full [OF h(2)]] by fastforce
    then have "slack c h (row_at h j) j = 0" using h(2) j by (simp add: fair_def matched_def)
    then show "entry c (row_at h j) (Suc (out ! (row_at h j - 1))) = pu h (row_at h j) + pv h j"
      using j out(2) by (simp add: slack_def)
  qed
  also have "\<dots> = (\<Sum>r = 1..?n. pu h r) + (\<Sum>j = 1..?n. pv h j)"
    using sum.reindex_bij_betw [OF fair_full [OF h(2)], of "pu h"] by (simp add: sum.distrib)
  finally have cost: "total_cost c out = (\<Sum>r = 1..?n. pu h r) + (\<Sum>j = 1..?n. pv h j)" .
  have "total_cost c out \<le> total_cost c other" if "assignment ?n other" for other
    using cost fair_potential_sum [OF h(2) assignment_bij [OF that]] total_cost_entry [of other c] that
    by (simp add: assignment_def)
  moreover have "hungarian c = Some out" using h(1) by (simp add: hungarian_def Let_def h0_def out_def)
  ultimately show ?thesis using out(1) by blast
qed

text \<open>
  Claim C26: the search of the assignment solver always ends, the rows it reports are a permutation of the columns,
  and no other permutation has a lower total cost.
\<close>

theorem hungarian_minimal:
  "\<exists>out. hungarian c = Some out \<and> assignment (length c) out
     \<and> (\<forall>other. assignment (length c) other \<longrightarrow> total_cost c out \<le> total_cost c other)"
  by (rule hungarian_solves)

theorem hungarian_minimal_witness:
  "\<exists>out. hungarian [[7, 1], [2, 9]] = Some out \<and> assignment 2 out \<and> total_cost [[7, 1], [2, 9]] out \<le> 3"
proof -
  have "assignment (length [[7, 1], [2, 9 :: real]]) [1, 0]" by (auto simp: assignment_def)
  moreover have "total_cost [[7, 1], [2, 9]] [1, 0] = 3" by (simp add: total_cost_def)
  ultimately show ?thesis using hungarian_minimal [of "[[7, 1], [2, 9]]"] by (auto simp: numeral_2_eq_2)
qed

end
