(* ===== verification/Associate_Properties.thy ===== *)
theory Associate_Properties
  imports Tracklet_Properties Hungarian_Properties
begin

text \<open>
  The cross-pass association: one pass of tracklets meets the tracks of the map. The folds of the code are put in
  closed form, the map keeps its invariant, and the matching found is the best gated one.
\<close>

section \<open>Settling the tracklets\<close>

definition taken :: "nat \<Rightarrow> matrix \<Rightarrow> nat list \<Rightarrow> nat \<Rightarrow> bool" where
  "taken T cost out i \<longleftrightarrow> out ! i < T \<and> cost ! i ! (out ! i) < big"

lemma hit_track_simps [simp]:
  "trk_id (hit_track tk p t) = trk_id t" "trk_class (hit_track tk p t) = trk_class t"
  "trk_hits (hit_track tk p t) = trk_hits t + 1" "trk_misses (hit_track tk p t) = trk_misses t"
  "trk_weights (hit_track tk p t) = trk_weights t @ [tk_weight tk]" "trk_centers (hit_track tk p t) = trk_centers t @ [p]"
  by (simp_all add: hit_track_def)

lemma new_track_simps [simp]:
  "trk_id (new_track i tk p) = i" "trk_class (new_track i tk p) = tk_class tk" "trk_hits (new_track i tk p) = 1"
  "trk_misses (new_track i tk p) = 0" "trk_weights (new_track i tk p) = [tk_weight tk]" "trk_centers (new_track i tk p) = [p]"
  by (simp_all add: new_track_def)

text \<open>The tracks after the first \<open>k\<close> tracklets: the old ones, hit where a tracklet took them, then the new ones.\<close>

definition hit_by :: "nat \<Rightarrow> matrix \<Rightarrow> nat list \<Rightarrow> point list \<Rightarrow> tracklet list \<Rightarrow> track list \<Rightarrow> nat \<Rightarrow> nat \<Rightarrow> track" where
  "hit_by T cost out aligned tks ts k j =
     fold (\<lambda>i t. if taken T cost out i \<and> out ! i = j then hit_track (tks ! i) (aligned ! i) t else t) [0..<k] (ts ! j)"

fun newborn :: "nat \<Rightarrow> (nat \<Rightarrow> tracklet) \<Rightarrow> (nat \<Rightarrow> point) \<Rightarrow> nat list \<Rightarrow> track list" where
  "newborn m tk p [] = []"
| "newborn m tk p (i # is) = new_track m (tk i) (p i) # newborn (Suc m) tk p is"

lemma newborn_append: "newborn m tk p (is @ js) = newborn m tk p is @ newborn (m + length is) tk p js"
  by (induction "is" arbitrary: m) auto

lemma length_newborn [simp]: "length (newborn m tk p is) = length is"
  by (induction "is" arbitrary: m) auto

lemma nth_newborn: "q < length is \<Longrightarrow> newborn m tk p is ! q = new_track (m + q) (tk (is ! q)) (p (is ! q))"
  by (induction "is" arbitrary: m q) (auto simp: nth_Cons split: nat.splits)

lemma settle_fold:
  assumes T: "T = length ts"
  shows "fold (settle_tracklet T cost out aligned) (map (\<lambda>i. (i, tks ! i)) [0..<k]) (ts, [], [], {}) =
    (map (hit_by T cost out aligned tks ts k) [0..<T]
       @ newborn T ((!) tks) ((!) aligned) (filter (\<lambda>i. \<not> taken T cost out i) [0..<k]),
     map (\<lambda>i. (trk_id (ts ! (out ! i)), i)) (filter (taken T cost out) [0..<k]),
     [T..<T + length (filter (\<lambda>i. \<not> taken T cost out i) [0..<k])],
     (!) out ` {i. i < k \<and> taken T cost out i})"
proof (induction k)
  case 0
  show ?case by (simp add: T hit_by_def map_nth)
next
  case (Suc k)
  have keep: "trk_id (hit_by T cost out aligned tks ts k j) = trk_id (ts ! j)" for j
  proof -
    have "trk_id (fold (\<lambda>i t. if taken T cost out i \<and> out ! i = j then hit_track (tks ! i) (aligned ! i) t else t) is t) = trk_id t"
      for "is" t by (induction "is" arbitrary: t) auto
    then show ?thesis by (simp add: hit_by_def)
  qed
  show ?case
  proof (cases "taken T cost out k")
    case True
    then have out: "out ! k < T" by (simp add: taken_def)
    have "(map (hit_by T cost out aligned tks ts k) [0..<T])[out ! k := hit_track (tks ! k) (aligned ! k) (hit_by T cost out aligned tks ts k (out ! k))]
      = map (hit_by T cost out aligned tks ts (Suc k)) [0..<T]"
      using True out by (intro nth_equalityI) (auto simp: nth_list_update hit_by_def)
    moreover have "{i. i < Suc k \<and> taken T cost out i} = insert k {i. i < k \<and> taken T cost out i}"
      using True by (auto simp: less_Suc_eq)
    ultimately show ?thesis
      using True out Suc.IH by (simp add: settle_tracklet_def list_update_append nth_append keep taken_def [symmetric] Let_def)
  next
    case False
    have "hit_by T cost out aligned tks ts (Suc k) = hit_by T cost out aligned tks ts k"
      using False by (simp add: hit_by_def fun_eq_iff)
    moreover have "{i. i < Suc k \<and> taken T cost out i} = {i. i < k \<and> taken T cost out i}"
      using False by (auto simp: less_Suc_eq)
    ultimately show ?thesis
      using False Suc.IH by (simp add: settle_tracklet_def taken_def [symmetric] Let_def newborn_append)
  qed
qed

section \<open>Settling the tracks\<close>

lemma settle_track_fold:
  assumes "m \<le> length ts"
  shows "fold (settle_track vs seen) [0..<m] (ts, [], []) =
    (map (\<lambda>j. if j < m \<and> j \<notin> seen \<and> vs ! j \<noteq> UNSEEN then (ts ! j)\<lparr>trk_misses := trk_misses (ts ! j) + 1\<rparr> else ts ! j) [0..<length ts],
     map (\<lambda>j. trk_id (ts ! j)) (filter (\<lambda>j. j \<notin> seen \<and> vs ! j \<noteq> UNSEEN) [0..<m]),
     map (\<lambda>j. trk_id (ts ! j)) (filter (\<lambda>j. j \<notin> seen \<and> vs ! j = UNSEEN) [0..<m]))"
  using assms
proof (induction m)
  case 0
  show ?case by (simp add: map_nth)
next
  case (Suc m)
  then have m: "m < length ts" by simp
  let ?f = "\<lambda>m j. if j < m \<and> j \<notin> seen \<and> vs ! j \<noteq> UNSEEN then (ts ! j)\<lparr>trk_misses := trk_misses (ts ! j) + 1\<rparr> else ts ! j"
  have new: "map (?f (Suc m)) [0..<length ts] = (if m \<notin> seen \<and> vs ! m \<noteq> UNSEEN
      then (map (?f m) [0..<length ts])[m := (ts ! m)\<lparr>trk_misses := trk_misses (ts ! m) + 1\<rparr>] else map (?f m) [0..<length ts])"
    using m by (intro nth_equalityI) (auto simp: nth_list_update less_Suc_eq)
  show ?case using Suc m unfolding new by (simp add: settle_track_def)
qed

section \<open>One pass\<close>

definition track_ok :: "nat \<Rightarrow> track \<Rightarrow> bool" where
  "track_ok j t \<longleftrightarrow> trk_id t = j \<and> trk_weights t \<noteq> [] \<and> (\<forall>w \<in> set (trk_weights t). 0 < w)
     \<and> length (trk_centers t) = length (trk_weights t)"

definition map_ok :: "associator \<Rightarrow> bool" where
  "map_ok a \<longleftrightarrow> (\<forall>j < length (as_tracks a). track_ok j (as_tracks a ! j))"

lemma hit_by_none:
  "(\<And>i. i < k \<Longrightarrow> taken T cost out i \<Longrightarrow> out ! i \<noteq> j) \<Longrightarrow> hit_by T cost out aligned tks ts k j = ts ! j"
  by (induction k) (auto simp: hit_by_def)

lemma hit_by_one:
  assumes "i < k" "taken T cost out i" "\<And>i'. i' < k \<Longrightarrow> out ! i' = out ! i \<Longrightarrow> i' = i"
  shows "hit_by T cost out aligned tks ts k (out ! i) = hit_track (tks ! i) (aligned ! i) (ts ! (out ! i))"
  using assms
proof (induction k)
  case (Suc k)
  show ?case
  proof (cases "i = k")
    case True
    then have "hit_by T cost out aligned tks ts k (out ! i) = ts ! (out ! i)"
      using Suc.prems(3) by (intro hit_by_none) (metis less_Suc_eq less_irrefl)
    then show ?thesis using True Suc.prems(2) by (simp add: hit_by_def)
  next
    case False
    then have "i < k" using Suc.prems(1) by simp
    moreover have "out ! k \<noteq> out ! i" using Suc.prems(3) [of k] False by auto
    ultimately show ?thesis using Suc.IH Suc.prems(2,3) by (simp add: hit_by_def)
  qed
qed simp

definition seen_tracks :: "nat \<Rightarrow> nat \<Rightarrow> matrix \<Rightarrow> nat list \<Rightarrow> nat set" where
  "seen_tracks N T cost out = (!) out ` {i. i < N \<and> taken T cost out i}"

definition aged :: "verdict list \<Rightarrow> nat set \<Rightarrow> nat \<Rightarrow> track \<Rightarrow> track" where
  "aged vs seen j t = (if j \<notin> seen \<and> vs ! j \<noteq> UNSEEN then t\<lparr>trk_misses := trk_misses t + 1\<rparr> else t)"

lemma aged_simps [simp]:
  "trk_id (aged vs seen j t) = trk_id t" "trk_class (aged vs seen j t) = trk_class t" "trk_hits (aged vs seen j t) = trk_hits t"
  "trk_weights (aged vs seen j t) = trk_weights t" "trk_centers (aged vs seen j t) = trk_centers t"
  by (simp_all add: aged_def)

lemma hit_by_id [simp]: "trk_id (hit_by T cost out aligned tks ts k j) = trk_id (ts ! j)"
  by (induction k) (auto simp: hit_by_def)

lemma settle_pass_closed:
  fixes a tks out cost
  defines "N \<equiv> length tks" and "T \<equiv> length (as_tracks a)"
  shows "settle_pass tr cost out aligned vs tks a =
    (a\<lparr>as_tracks := map (\<lambda>j. aged vs (seen_tracks N T cost out) j (hit_by T cost out aligned tks (as_tracks a) N j)) [0..<T]
         @ newborn T ((!) tks) ((!) aligned) (filter (\<lambda>i. \<not> taken T cost out i) [0..<N])\<rparr>,
     \<lparr>res_transform = tr,
      res_matches = map (\<lambda>i. (trk_id (as_tracks a ! (out ! i)), i)) (filter (taken T cost out) [0..<N]),
      res_born = [T..<T + length (filter (\<lambda>i. \<not> taken T cost out i) [0..<N])],
      res_missed = map (\<lambda>j. trk_id (as_tracks a ! j)) (filter (\<lambda>j. j \<notin> seen_tracks N T cost out \<and> vs ! j \<noteq> UNSEEN) [0..<T]),
      res_out_of_view = map (\<lambda>j. trk_id (as_tracks a ! j)) (filter (\<lambda>j. j \<notin> seen_tracks N T cost out \<and> vs ! j = UNSEEN) [0..<T])\<rparr>)"
proof -
  have zip: "zip [0..<length tks] tks = map (\<lambda>i. (i, tks ! i)) [0..<N]"
    unfolding N_def by (rule nth_equalityI) auto
  define olds where "olds = map (hit_by T cost out aligned tks (as_tracks a) N) [0..<T]"
  define new where "new = newborn T ((!) tks) ((!) aligned) (filter (\<lambda>i. \<not> taken T cost out i) [0..<N])"
  define seen where "seen = seen_tracks N T cost out"
  have len: "length olds = T" by (simp add: olds_def)
  have "map (\<lambda>j. if j < T \<and> j \<notin> seen \<and> vs ! j \<noteq> UNSEEN
      then ((olds @ new) ! j)\<lparr>trk_misses := trk_misses ((olds @ new) ! j) + 1\<rparr> else (olds @ new) ! j) [0..<length (olds @ new)]
    = map (\<lambda>j. aged vs seen j (hit_by T cost out aligned tks (as_tracks a) N j)) [0..<T] @ new"
    by (rule nth_equalityI) (auto simp: nth_append len olds_def aged_def)
  moreover have "map (\<lambda>j. trk_id ((olds @ new) ! j)) (filter P [0..<T]) = map (\<lambda>j. trk_id (as_tracks a ! j)) (filter P [0..<T])" for P
    by (rule map_cong) (auto simp: nth_append len olds_def)
  ultimately show ?thesis
    using settle_fold [OF meta_eq_to_obj_eq [OF T_def], of cost out aligned tks N] settle_track_fold [of T "olds @ new" vs seen]
    unfolding settle_pass_def Let_def zip T_def [symmetric]
    by (simp add: len olds_def [symmetric] new_def [symmetric] seen_tracks_def [symmetric] seen_def [symmetric])
qed

text \<open>Each tracklet is matched or born, and each track matched, missed or out of view: once.\<close>

definition one_to_one :: "associator \<Rightarrow> tracklet list \<Rightarrow> associator \<Rightarrow> pass_result \<Rightarrow> bool" where
  "one_to_one a tks a' r \<longleftrightarrow>
     distinct (map snd (res_matches r)) \<and> set (map snd (res_matches r)) \<subseteq> {..<length tks}
     \<and> length (res_matches r) + length (res_born r) = length tks
     \<and> res_born r = [length (as_tracks a)..<length (as_tracks a')]
     \<and> mset (map fst (res_matches r) @ res_missed r @ res_out_of_view r) = mset [0..<length (as_tracks a)]"

definition within_gate :: "associator \<Rightarrow> tracklet list \<Rightarrow> pass_result \<Rightarrow> bool" where
  "within_gate a tks r \<longleftrightarrow>
     (\<forall>(j, i) \<in> set (res_matches r). trk_class (as_tracks a ! j) = tk_class (tks ! i)
        \<and> okE (\<lambda>c. sq2 (apply_se2 (res_transform r) (tk_center (tks ! i))) c \<le> (as_gate a)\<^sup>2) (track_center (as_tracks a ! j)))"

definition counted :: "associator \<Rightarrow> associator \<Rightarrow> pass_result \<Rightarrow> bool" where
  "counted a a' r \<longleftrightarrow>
     (\<forall>j < length (as_tracks a).
        trk_hits (as_tracks a' ! j) = trk_hits (as_tracks a ! j) + (if j \<in> set (map fst (res_matches r)) then 1 else 0)
        \<and> trk_misses (as_tracks a' ! j) = trk_misses (as_tracks a ! j) + (if j \<in> set (res_missed r) then 1 else 0)
        \<and> (j \<in> set (res_out_of_view r) \<longrightarrow> as_tracks a' ! j = as_tracks a ! j))"

lemma track_center_returns: "track_ok j t \<Longrightarrow> \<exists>c. track_center t = Inr c"
proof -
  assume ok: "track_ok j t"
  then obtain w ws where ws: "trk_weights t = w # ws" by (cases "trk_weights t") (auto simp: track_ok_def)
  have "0 \<le> sum_list ws" using ok ws by (intro sum_list_nonneg) (auto simp: track_ok_def less_imp_le)
  then have "0 < sum_list (trk_weights t)" using ok ws by (simp add: track_ok_def)
  then show ?thesis by (simp add: track_center_def Let_def)
qed

lemma assignment_inj: "assignment n out \<Longrightarrow> i < n \<Longrightarrow> i' < n \<Longrightarrow> out ! i = out ! i' \<Longrightarrow> i = i'"
  by (simp add: assignment_def nth_eq_iff_index_eq)

lemma assignment_bound: "assignment n out \<Longrightarrow> i < n \<Longrightarrow> out ! i < n"
  by (metis assignment_def lessThan_iff nth_mem)

lemma length_square_matrix [simp]: "length (square_matrix n f) = n"
  by (simp add: square_matrix_def)

lemma nth_square_matrix [simp]: "i < n \<Longrightarrow> j < n \<Longrightarrow> square_matrix n f ! i ! j = f i j"
  by (simp add: square_matrix_def)

lemma settle_pass_one_to_one:
  assumes ok: "map_ok a" and out: "assignment (length tks + length (as_tracks a)) out"
  shows "one_to_one a tks (fst (settle_pass tr cost out aligned vs tks a)) (snd (settle_pass tr cost out aligned vs tks a))"
proof -
  define N where "N = length tks"
  define T where "T = length (as_tracks a)"
  define M where "M = filter (taken T cost out) [0..<N]"
  define S where "S = seen_tracks N T cost out"
  have ids: "j < T \<Longrightarrow> trk_id (as_tracks a ! j) = j" for j using ok by (simp add: map_ok_def track_ok_def T_def)
  have inj: "i < N \<Longrightarrow> i' < N \<Longrightarrow> out ! i = out ! i' \<Longrightarrow> i = i'" for i i'
    using assignment_inj [OF out] by (simp add: N_def)
  have low: "i \<in> set M \<Longrightarrow> i < N \<and> out ! i < T" for i by (simp add: M_def taken_def)
  have fst: "map (\<lambda>i. trk_id (as_tracks a ! (out ! i))) M = map ((!) out) M" using low ids by simp
  have miss: "map (\<lambda>j. trk_id (as_tracks a ! j)) (filter P [0..<T]) = filter P [0..<T]" for P
    using ids by (intro map_idI) auto
  have distM: "distinct M" by (simp add: M_def)
  have "inj_on ((!) out) (set M)" by (rule inj_onI) (use inj low in blast)
  then have dist: "distinct (map ((!) out) M)" by (simp add: distinct_map M_def)
  have set: "set (map ((!) out) M) = S" by (auto simp: M_def S_def seen_tracks_def)
  have sub: "S \<subseteq> {..<T}" by (auto simp: S_def seen_tracks_def taken_def)
  have "length M + length (filter (\<lambda>i. \<not> taken T cost out i) [0..<N]) = N"
    using sum_length_filter_compl [of "taken T cost out" "[0..<N]"] by (simp add: M_def)
  moreover have "mset (map ((!) out) M @ filter (\<lambda>j. j \<notin> S \<and> vs ! j \<noteq> UNSEEN) [0..<T] @ filter (\<lambda>j. j \<notin> S \<and> vs ! j = UNSEEN) [0..<T])
      = mset [0..<T]" (is "mset ?all = _")
  proof -
    have "distinct ?all" using dist unfolding distinct_append set by auto
    moreover have "set ?all = set [0..<T]" using sub unfolding set_append set by auto
    ultimately show ?thesis using set_eq_iff_mset_eq_distinct distinct_upt by blast
  qed
  ultimately show ?thesis
    unfolding one_to_one_def settle_pass_closed N_def [symmetric] T_def [symmetric]
    using low distM by (auto simp: fst miss comp_def M_def [symmetric] S_def [symmetric])
qed

lemma settle_pass_within_gate:
  assumes ok: "map_ok a" and ref: "mapE track_center (as_tracks a) = Inr ref"
    and cost: "cost = square_matrix (length tks + length (as_tracks a))
      (pass_cost ((as_gate a)\<^sup>2) tks (as_tracks a) (map (apply_se2 tr) (map tk_center tks)) ref vs)"
  shows "within_gate a tks (snd (settle_pass tr cost out aligned vs tks a))"
proof -
  define N where "N = length tks"
  define T where "T = length (as_tracks a)"
  have ids: "j < T \<Longrightarrow> trk_id (as_tracks a ! j) = j" for j using ok by (simp add: map_ok_def track_ok_def T_def)
  have "trk_class (as_tracks a ! (out ! i)) = tk_class (tks ! i)
      \<and> sq2 (apply_se2 tr (tk_center (tks ! i))) (ref ! (out ! i)) \<le> (as_gate a)\<^sup>2"
    if "taken T cost out i" "i < N" for i
    using that unfolding taken_def cost by (auto simp: pass_cost_def N_def T_def split: if_splits)
  moreover have "track_center (as_tracks a ! j) = Inr (ref ! j)" if "j < T" for j
    using mapE_Inr_nth [OF ref] that by (simp add: T_def)
  ultimately show ?thesis
    unfolding within_gate_def settle_pass_closed N_def [symmetric] T_def [symmetric]
    using ids by (auto simp: taken_def)
qed

lemma settled_track:
  assumes out: "assignment (length tks + length (as_tracks a)) out"
    and N: "N = length tks" and T: "T = length (as_tracks a)"
    and S: "S = seen_tracks N T cost out" and j: "j < T"
  shows "\<exists>i. (j \<in> S \<longrightarrow> i < N) \<and> as_tracks (fst (settle_pass tr cost out aligned vs tks a)) ! j =
    aged vs S j (if j \<in> S then hit_track (tks ! i) (aligned ! i) (as_tracks a ! j) else as_tracks a ! j)"
proof -
  have new: "as_tracks (fst (settle_pass tr cost out aligned vs tks a)) ! j =
      aged vs S j (hit_by T cost out aligned tks (as_tracks a) N j)"
    using j by (simp add: settle_pass_closed N T S nth_append)
  show ?thesis
  proof (cases "j \<in> S")
    case True
    then obtain i where i: "i < N" "taken T cost out i" "j = out ! i" by (auto simp: S seen_tracks_def)
    have "hit_by T cost out aligned tks (as_tracks a) N (out ! i) = hit_track (tks ! i) (aligned ! i) (as_tracks a ! (out ! i))"
      using i assignment_inj [OF out] N by (intro hit_by_one) auto
    then show ?thesis using new i True by auto
  next
    case False
    then have "hit_by T cost out aligned tks (as_tracks a) N j = as_tracks a ! j"
      by (intro hit_by_none) (auto simp: S seen_tracks_def)
    then show ?thesis using new False by auto
  qed
qed

lemma settle_pass_counted:
  assumes ok: "map_ok a" and out: "assignment (length tks + length (as_tracks a)) out"
  shows "counted a (fst (settle_pass tr cost out aligned vs tks a)) (snd (settle_pass tr cost out aligned vs tks a))"
proof -
  define N where "N = length tks"
  define T where "T = length (as_tracks a)"
  define S where "S = seen_tracks N T cost out"
  have ids: "j < T \<Longrightarrow> trk_id (as_tracks a ! j) = j" for j using ok by (simp add: map_ok_def track_ok_def T_def)
  have hits: "set (map fst (res_matches (snd (settle_pass tr cost out aligned vs tks a)))) = S"
    unfolding settle_pass_closed N_def [symmetric] T_def [symmetric] using ids
    by (auto simp: S_def seen_tracks_def taken_def image_iff)
  have rest: "set (res_missed (snd (settle_pass tr cost out aligned vs tks a))) = {j. j < T \<and> j \<notin> S \<and> vs ! j \<noteq> UNSEEN}"
    "set (res_out_of_view (snd (settle_pass tr cost out aligned vs tks a))) = {j. j < T \<and> j \<notin> S \<and> vs ! j = UNSEEN}"
    unfolding settle_pass_closed N_def [symmetric] T_def [symmetric] S_def [symmetric] using ids by auto
  show ?thesis
    unfolding counted_def hits rest T_def [symmetric]
  proof (intro allI impI)
    fix j assume j: "j < T"
    obtain i where "as_tracks (fst (settle_pass tr cost out aligned vs tks a)) ! j =
        aged vs S j (if j \<in> S then hit_track (tks ! i) (aligned ! i) (as_tracks a ! j) else as_tracks a ! j)"
      using settled_track [OF out N_def T_def S_def j] by blast
    then show "trk_hits (as_tracks (fst (settle_pass tr cost out aligned vs tks a)) ! j)
          = trk_hits (as_tracks a ! j) + (if j \<in> S then 1 else 0)
        \<and> trk_misses (as_tracks (fst (settle_pass tr cost out aligned vs tks a)) ! j)
          = trk_misses (as_tracks a ! j) + (if j \<in> {j. j < T \<and> j \<notin> S \<and> vs ! j \<noteq> UNSEEN} then 1 else 0)
        \<and> (j \<in> {j. j < T \<and> j \<notin> S \<and> vs ! j = UNSEEN} \<longrightarrow>
             as_tracks (fst (settle_pass tr cost out aligned vs tks a)) ! j = as_tracks a ! j)"
      using j by (auto simp: aged_def)
  qed
qed

lemma track_ok_hit: "track_ok j t \<Longrightarrow> 0 < tk_weight tk \<Longrightarrow> track_ok j (hit_track tk p t)"
  by (auto simp: track_ok_def)

lemma track_ok_new: "0 < tk_weight tk \<Longrightarrow> track_ok j (new_track j tk p)"
  by (simp add: track_ok_def)

lemma track_ok_aged [simp]: "track_ok j (aged vs seen k t) = track_ok j t"
  by (simp add: track_ok_def)

lemma settle_pass_map_ok:
  assumes ok: "map_ok a" and out: "assignment (length tks + length (as_tracks a)) out"
    and weight: "\<forall>tk \<in> set tks. 0 < tk_weight tk"
  shows "map_ok (fst (settle_pass tr cost out aligned vs tks a))"
  unfolding map_ok_def
proof (intro allI impI)
  define N where "N = length tks"
  define T where "T = length (as_tracks a)"
  define U where "U = filter (\<lambda>i. \<not> taken T cost out i) [0..<N]"
  fix j assume j: "j < length (as_tracks (fst (settle_pass tr cost out aligned vs tks a)))"
  show "track_ok j (as_tracks (fst (settle_pass tr cost out aligned vs tks a)) ! j)"
  proof (cases "j < T")
    case True
    then have old: "track_ok j (as_tracks a ! j)" using ok by (simp add: map_ok_def T_def)
    obtain i where "j \<in> seen_tracks N T cost out \<longrightarrow> i < N" "as_tracks (fst (settle_pass tr cost out aligned vs tks a)) ! j =
        aged vs (seen_tracks N T cost out) j
          (if j \<in> seen_tracks N T cost out then hit_track (tks ! i) (aligned ! i) (as_tracks a ! j) else as_tracks a ! j)"
      using settled_track [OF out N_def T_def refl True] by blast
    then show ?thesis using old weight by (auto simp: N_def intro: track_ok_hit)
  next
    case False
    then have q: "j - T < length U"
      using j unfolding settle_pass_closed N_def [symmetric] T_def [symmetric] U_def [symmetric] by simp
    then have "U ! (j - T) \<in> set U" by (rule nth_mem)
    then have "0 < tk_weight (tks ! (U ! (j - T)))" using weight by (auto simp: U_def N_def)
    moreover have "as_tracks (fst (settle_pass tr cost out aligned vs tks a)) ! j
        = new_track j (tks ! (U ! (j - T))) (aligned ! (U ! (j - T)))"
      unfolding settle_pass_closed N_def [symmetric] T_def [symmetric] U_def [symmetric]
      using False q by (simp add: nth_append nth_newborn)
    ultimately show ?thesis by (simp add: track_ok_new)
  qed
qed

lemma birth_all_ok:
  "\<lbrakk>\<forall>tk \<in> set tks. 0 < tk_weight tk; \<forall>j < length ts. track_ok j (ts ! j)\<rbrakk> \<Longrightarrow>
     \<exists>ts'. birth_all tks ts born = (ts', born @ [length ts..<length ts']) \<and> length ts' = length ts + length tks
       \<and> (\<forall>j < length ts'. track_ok j (ts' ! j))"
proof (induction tks arbitrary: ts born)
  case (Cons tk tks)
  define ts1 where "ts1 = ts @ [new_track (length ts) tk (tk_center tk)]"
  have "\<forall>j < length ts1. track_ok j (ts1 ! j)"
    using Cons.prems by (simp add: ts1_def nth_append less_Suc_eq track_ok_new)
  then obtain ts' where ts': "birth_all tks ts1 (born @ [length ts]) = (ts', (born @ [length ts]) @ [length ts1..<length ts'])"
    "length ts' = length ts1 + length tks" "\<forall>j < length ts'. track_ok j (ts' ! j)"
    using Cons.IH [of ts1 "born @ [length ts]"] Cons.prems(1) by auto
  have "length ts1 = Suc (length ts)" by (simp add: ts1_def)
  moreover from this have "length ts < length ts'" using ts'(2) by simp
  ultimately have "[length ts] @ [length ts1..<length ts'] = [length ts..<length ts']" by (simp add: upt_conv_Cons del: upt_Suc)
  then have "birth_all (tk # tks) ts born = (ts', born @ [length ts..<length ts'])"
    using ts'(1) by (simp add: ts1_def [symmetric])
  then show ?case using ts'(2,3) \<open>length ts1 = Suc (length ts)\<close> by auto
qed simp

section \<open>The solver as an interface\<close>

text \<open>What the association relies on: the solver returns an assignment no other one beats.\<close>

locale minimal_solver =
  fixes solve :: "matrix \<Rightarrow> nat list option"
  assumes returns: "\<exists>out. solve c = Some out"
    and assigns: "solve c = Some out \<Longrightarrow> assignment (length c) out"
    and minimal: "solve c = Some out \<Longrightarrow> assignment (length c) other \<Longrightarrow> total_cost c out \<le> total_cost c other"
begin

text \<open>With entries that are not negative and a solution below a bound, no chosen entry reaches the bound.\<close>

lemma chosen_below:
  assumes "solve c = Some out" "assignment (length c) other" "total_cost c other < b"
    and nonneg: "\<And>i j. i < length c \<Longrightarrow> j < length c \<Longrightarrow> 0 \<le> c ! i ! j" and i: "i < length c"
  shows "c ! i ! (out ! i) < b"
proof -
  have "out ! i' < length c" if "i' < length c" for i'
    using assigns [OF assms(1)] that by (metis assignment_def lessThan_iff nth_mem)
  then have "c ! i ! (out ! i) \<le> total_cost c out"
    unfolding total_cost_def using i nonneg by (intro member_le_sum) auto
  then show ?thesis using minimal [OF assms(1,2)] assms(3) by simp
qed

end

interpretation solver: minimal_solver hungarian
  by unfold_locales (metis hungarian_solves option.inject)+

lemma align_loop_returns: "\<exists>tr'. align_loop k obs ref rotation coarse tr = Some tr'"
proof (induction k arbitrary: tr)
  case (Suc k)
  define aligned where "aligned = map (apply_se2 tr) obs"
  obtain out where "hungarian (square_matrix (max (length obs) (length ref)) (align_cost coarse aligned ref)) = Some out"
    using solver.returns by blast
  then show ?case using Suc by (simp add: Let_def aligned_def del: split_paired_Ex)
qed (simp del: split_paired_Ex)

lemma blind_align_returns: "\<exists>tr. blind_align obs ref rotation coarse k = Some tr"
  by (simp add: blind_align_def align_loop_returns del: split_paired_Ex)

text \<open>The non-empty case, opened once.\<close>

lemma ingest_pass_open:
  assumes ok: "map_ok a" and some: "as_tracks a \<noteq> []"
  obtains ref tr out where "mapE track_center (as_tracks a) = Inr ref"
    "hungarian (square_matrix (length tks + length (as_tracks a)) (pass_cost ((as_gate a)\<^sup>2) tks (as_tracks a)
       (map (apply_se2 tr) (map tk_center tks)) ref (verdicts vis ref))) = Some out"
    "ingest_pass vis tks a = Some (Inr (settle_pass tr (square_matrix (length tks + length (as_tracks a)) (pass_cost ((as_gate a)\<^sup>2)
       tks (as_tracks a) (map (apply_se2 tr) (map tk_center tks)) ref (verdicts vis ref)))
       out (map (apply_se2 tr) (map tk_center tks)) (verdicts vis ref) tks a))"
proof -
  have "\<exists>c. track_center t = Inr c" if "t \<in> set (as_tracks a)" for t
    using ok that track_center_returns by (auto simp: map_ok_def in_set_conv_nth)
  then obtain ref where ref: "mapE track_center (as_tracks a) = Inr ref" using mapE_returns by blast
  obtain tr where tr: "blind_align (map tk_center tks) ref (2 \<le> length (map tk_center tks)) (as_coarse a) 8 = Some tr"
    using blind_align_returns by blast
  obtain out where out: "hungarian (square_matrix (length tks + length (as_tracks a)) (pass_cost ((as_gate a)\<^sup>2) tks (as_tracks a)
       (map (apply_se2 tr) (map tk_center tks)) ref (verdicts vis ref))) = Some out"
    using solver.returns by blast
  show ?thesis
    by (rule that [OF ref out]) (use some ref tr out in \<open>simp add: ingest_pass_def Let_def\<close>)
qed

lemma ingest_pass_sound:
  assumes "map_ok a" "\<forall>tk \<in> set tks. 0 < tk_weight tk"
  shows "\<exists>a' r. ingest_pass vis tks a = Some (Inr (a', r)) \<and> map_ok a'
    \<and> one_to_one a tks a' r \<and> within_gate a tks r \<and> counted a a' r"
proof (cases "as_tracks a = []")
  case True
  obtain ts' where "birth_all tks [] [] = (ts', [0..<length ts'])" "length ts' = length tks" "\<forall>j < length ts'. track_ok j (ts' ! j)"
    using birth_all_ok [OF assms(2), of "[]" "[]"] by auto
  then show ?thesis
    using True by (simp add: ingest_pass_def map_ok_def one_to_one_def within_gate_def counted_def)
next
  case False
  obtain ref tr out where ref: "mapE track_center (as_tracks a) = Inr ref"
    and out: "hungarian (square_matrix (length tks + length (as_tracks a)) (pass_cost ((as_gate a)\<^sup>2) tks (as_tracks a)
       (map (apply_se2 tr) (map tk_center tks)) ref (verdicts vis ref))) = Some out"
    and run: "ingest_pass vis tks a = Some (Inr (settle_pass tr (square_matrix (length tks + length (as_tracks a)) (pass_cost ((as_gate a)\<^sup>2)
       tks (as_tracks a) (map (apply_se2 tr) (map tk_center tks)) ref (verdicts vis ref)))
       out (map (apply_se2 tr) (map tk_center tks)) (verdicts vis ref) tks a))"
    using ingest_pass_open [OF assms(1) False] .
  have as: "assignment (length tks + length (as_tracks a)) out" using solver.assigns [OF out] by simp
  show ?thesis
    using run settle_pass_map_ok [OF assms(1) as assms(2)] settle_pass_one_to_one [OF assms(1) as]
      settle_pass_within_gate [OF assms(1) ref refl] settle_pass_counted [OF assms(1) as]
    by (metis prod.collapse)
qed

text \<open>From the observations of a pass to the map, nothing raises and the map stays consistent.\<close>

lemma observed_pass_returns:
  assumes "map_ok a"
  shows "\<exists>tks a' r. form_tracklets gate floor_m xs = Inr tks \<and> ingest_pass vis tks a = Some (Inr (a', r)) \<and> map_ok a'"
  using tracklets_account [of gate floor_m xs] ingest_pass_sound [OF assms] by metis

definition demo_track :: track where
  "demo_track = \<lparr>trk_id = 0, trk_class = ''mine'', trk_centers = [(0, 0)], trk_weights = [1], trk_hits = 1, trk_misses = 0,
     trk_first = 0, trk_last = 1, trk_tags = []\<rparr>"

definition demo_map :: associator where
  "demo_map = \<lparr>as_gate = 1, as_coarse = 3, as_tracks = [demo_track]\<rparr>"

definition demo_tracklet :: tracklet where
  "demo_tracklet = \<lparr>tk_center = (1 / 2, 0), tk_t0 = 10, tk_t1 = 12, tk_n_obs = 3, tk_weight = 2, tk_spread = 0,
     tk_class = ''mine'', tk_tags = []\<rparr>"

lemma demo_map_ok: "map_ok demo_map"
  by (simp add: map_ok_def demo_map_def demo_track_def track_ok_def)

text \<open>
  Claim C24: on a consistent map, a pass of tracklets with positive weight always returns and leaves a consistent
  map. Every tracklet is matched to one track or founds one, new tracks get the next numbers, and every old track
  is exactly once matched, missed or out of view; matches agree in class and lie within the gate after the
  alignment; hits and misses are counted on exactly those tracks.
\<close>

theorem ingest_pass_accounts:
  assumes "map_ok a" "\<forall>tk \<in> set tks. 0 < tk_weight tk"
  shows "\<exists>a' r. ingest_pass vis tks a = Some (Inr (a', r)) \<and> map_ok a'
    \<and> one_to_one a tks a' r \<and> within_gate a tks r \<and> counted a a' r"
  by (rule ingest_pass_sound [OF assms])

theorem ingest_pass_accounts_witness:
  "\<exists>a' r. ingest_pass (Some (\<lambda>_. EDGE)) [demo_tracklet] demo_map = Some (Inr (a', r)) \<and> map_ok a'
     \<and> length (res_matches r) + length (res_born r) = 1"
  using ingest_pass_accounts [OF demo_map_ok, of "[demo_tracklet]" "Some (\<lambda>_. EDGE)"]
  by (auto simp: one_to_one_def demo_tracklet_def)

text \<open>A track is charged with a miss, or excused, by the verdict at its centre.\<close>

lemma pass_verdicts:
  assumes ok: "map_ok a" and run: "ingest_pass (Some f) tks a = Some (Inr (a', r))"
    and j: "track_center (as_tracks a ! j) = Inr c"
  shows "j \<in> set (res_missed r) \<Longrightarrow> f c \<noteq> UNSEEN" "j \<in> set (res_out_of_view r) \<Longrightarrow> f c = UNSEEN"
proof -
  have "(j \<in> set (res_missed r) \<longrightarrow> f c \<noteq> UNSEEN) \<and> (j \<in> set (res_out_of_view r) \<longrightarrow> f c = UNSEEN)"
  proof (cases "as_tracks a = []")
    case True
    then show ?thesis using run by (auto simp: ingest_pass_def split: prod.splits)
  next
    case False
    obtain ref tr cost out aligned where ref: "mapE track_center (as_tracks a) = Inr ref"
      and r: "r = snd (settle_pass tr cost out aligned (verdicts (Some f) ref) tks a)"
      using ingest_pass_open [OF ok False, of tks "Some f"] run by (metis option.inject sum.inject(2) snd_conv)
    have "verdicts (Some f) ref ! j = f c" if "j < length (as_tracks a)"
      using mapE_Inr_nth [OF ref] that j by (simp add: verdicts_def)
    moreover have "trk_id (as_tracks a ! i) = i" if "i < length (as_tracks a)" for i
      using ok that by (simp add: map_ok_def track_ok_def)
    ultimately show ?thesis unfolding r settle_pass_closed by auto
  qed
  then show "j \<in> set (res_missed r) \<Longrightarrow> f c \<noteq> UNSEEN" "j \<in> set (res_out_of_view r) \<Longrightarrow> f c = UNSEEN" by simp_all
qed

section \<open>The best gated matching\<close>

text \<open>
  The reference: a partial matching of tracklets to tracks that respects class and gate, its cost the squared
  distances plus half the squared gate per birth and the cost of each track left out.
\<close>

type_synonym plan = "nat \<Rightarrow> nat option"

definition gated :: "real \<Rightarrow> tracklet list \<Rightarrow> track list \<Rightarrow> point list \<Rightarrow> point list \<Rightarrow> plan \<Rightarrow> bool" where
  "gated g2 tks ts aligned ref M \<longleftrightarrow>
     (\<forall>i j. M i = Some j \<longrightarrow> i < length tks \<and> j < length ts \<and> tk_class (tks ! i) = trk_class (ts ! j)
        \<and> sq2 (aligned ! i) (ref ! j) \<le> g2)
     \<and> (\<forall>i i' j. M i = Some j \<and> M i' = Some j \<longrightarrow> i = i')"

definition plan_cost :: "real \<Rightarrow> nat \<Rightarrow> nat \<Rightarrow> point list \<Rightarrow> point list \<Rightarrow> verdict list \<Rightarrow> plan \<Rightarrow> real" where
  "plan_cost g2 N T aligned ref vs M =
     (\<Sum>i < N. case M i of None \<Rightarrow> g2 / 2 | Some j \<Rightarrow> sq2 (aligned ! i) (ref ! j))
     + (\<Sum>j < T. if j \<in> ran M then 0 else miss_cost g2 (vs ! j))"

definition encode_at :: "nat \<Rightarrow> nat \<Rightarrow> plan \<Rightarrow> nat \<Rightarrow> nat" where
  "encode_at N T M i =
     (if i < N then case M i of None \<Rightarrow> T + i | Some j \<Rightarrow> j
      else if i - N \<in> ran M then T + (THE i'. M i' = Some (i - N)) else i - N)"

definition decode :: "nat \<Rightarrow> nat \<Rightarrow> nat list \<Rightarrow> plan" where
  "decode N T out i = (if i < N \<and> out ! i < T then Some (out ! i) else None)"

lemma sum_rows: "(\<Sum>i < N + T. (f :: nat \<Rightarrow> real) i) = (\<Sum>i < N. f i) + (\<Sum>j < T. f (N + j))"
  by (induction T) simp_all

lemma taker: "gated g2 tks ts aligned ref M \<Longrightarrow> M i = Some j \<Longrightarrow> (THE i'. M i' = Some j) = i"
  by (rule the_equality) (auto simp: gated_def)

lemma encode_assignment:
  assumes g: "gated g2 tks ts aligned ref M" and N: "N = length tks" and T: "T = length ts"
  shows "assignment (N + T) (map (encode_at N T M) [0..<N + T])"
proof -
  let ?out = "map (encode_at N T M) [0..<N + T]"
  have low: "M i = Some j \<Longrightarrow> i < N \<and> j < T" for i j using g by (auto simp: gated_def N T)
  have "k \<in> set ?out" if k: "k < N + T" for k
  proof -
    have "\<exists>i < N + T. encode_at N T M i = k"
    proof (cases "k < T")
      case True
      show ?thesis
      proof (cases "k \<in> ran M")
        case r: True
        then obtain i where "M i = Some k" by (auto simp: ran_def)
        then show ?thesis using low [of i k] by (intro exI [of _ i]) (simp add: encode_at_def)
      next
        case False
        then show ?thesis using True by (intro exI [of _ "N + k"]) (simp add: encode_at_def)
      qed
    next
      case False
      then obtain i where i: "k = T + i" "i < N" using k by (metis add.commute less_diff_conv2 le_add_diff_inverse not_less)
      show ?thesis
      proof (cases "M i")
        case None
        then show ?thesis using i by (intro exI [of _ i]) (simp add: encode_at_def)
      next
        case (Some j)
        then have "j \<in> ran M" by (auto simp: ran_def)
        then show ?thesis using i low [OF Some] taker [OF g Some] by (intro exI [of _ "N + j"]) (simp add: encode_at_def)
      qed
    qed
    then show ?thesis by auto
  qed
  then have sub: "{..<N + T} \<subseteq> set ?out" by blast
  have "card (set ?out) \<le> N + T" using card_length [of ?out] by simp
  then have eq: "set ?out = {..<N + T}" using card_seteq [OF _ sub] by simp
  then have "distinct ?out" by (intro card_distinct) (simp only: eq, simp)
  then show ?thesis using eq by (simp add: assignment_def)
qed

lemma encode_cost:
  assumes g: "gated g2 tks ts aligned ref M" and N: "N = length tks" and T: "T = length ts"
  shows "total_cost (square_matrix (N + T) (pass_cost g2 tks ts aligned ref vs)) (map (encode_at N T M) [0..<N + T])
    = plan_cost g2 N T aligned ref vs M"
proof -
  let ?f = "pass_cost g2 tks ts aligned ref vs"
  have bound: "encode_at N T M i < N + T" if "i < N + T" for i
    using assignment_bound [OF encode_assignment [OF g N T] that] that by simp
  have "total_cost (square_matrix (N + T) ?f) (map (encode_at N T M) [0..<N + T]) = (\<Sum>i < N + T. ?f i (encode_at N T M i))"
    unfolding total_cost_def using bound by (intro sum.cong) simp_all
  also have "\<dots> = (\<Sum>i < N. ?f i (encode_at N T M i)) + (\<Sum>j < T. ?f (N + j) (encode_at N T M (N + j)))"
    by (rule sum_rows)
  also have "(\<Sum>i < N. ?f i (encode_at N T M i)) = (\<Sum>i < N. case M i of None \<Rightarrow> g2 / 2 | Some j \<Rightarrow> sq2 (aligned ! i) (ref ! j))"
    using g by (intro sum.cong) (auto simp: encode_at_def pass_cost_def N T gated_def split: option.splits)
  also have "(\<Sum>j < T. ?f (N + j) (encode_at N T M (N + j))) = (\<Sum>j < T. if j \<in> ran M then 0 else miss_cost g2 (vs ! j))"
    by (intro sum.cong) (auto simp: encode_at_def pass_cost_def N T)
  finally show ?thesis by (simp add: plan_cost_def)
qed

lemma miss_cost_bounds: "0 \<le> g2 \<Longrightarrow> 0 \<le> miss_cost g2 v \<and> miss_cost g2 v \<le> g2 / 2"
  by (cases v) (auto simp: miss_cost_def)

lemma pass_cost_nonneg: "0 \<le> g2 \<Longrightarrow> 0 \<le> pass_cost g2 tks ts aligned ref vs i j"
  using miss_cost_bounds [of g2] by (auto simp: pass_cost_def sq2_def big_def)

lemma decode_gated:
  assumes out: "assignment (N + T) out" and N: "N = length tks" and T: "T = length ts"
    and fin: "\<And>i. i < N + T \<Longrightarrow> pass_cost g2 tks ts aligned ref vs i (out ! i) < big"
  shows "gated g2 tks ts aligned ref (decode N T out)"
  unfolding gated_def
proof (intro conjI allI impI)
  fix i j assume "decode N T out i = Some j"
  then have "i < N" "j = out ! i" "j < T" by (auto simp: decode_def split: if_splits)
  then show "i < length tks" "j < length ts" "tk_class (tks ! i) = trk_class (ts ! j)" "sq2 (aligned ! i) (ref ! j) \<le> g2"
    using fin [of i] by (auto simp: pass_cost_def N T split: if_splits)
next
  fix i i' j assume "decode N T out i = Some j \<and> decode N T out i' = Some j"
  then show "i = i'" using assignment_inj [OF out, of i i'] by (auto simp: decode_def split: if_splits)
qed

lemma decode_cost:
  assumes out: "assignment (N + T) out" and N: "N = length tks" and T: "T = length ts" and g2: "0 \<le> g2"
    and fin: "\<And>i. i < N + T \<Longrightarrow> pass_cost g2 tks ts aligned ref vs i (out ! i) < big"
  shows "plan_cost g2 N T aligned ref vs (decode N T out)
    \<le> total_cost (square_matrix (N + T) (pass_cost g2 tks ts aligned ref vs)) out"
proof -
  let ?f = "pass_cost g2 tks ts aligned ref vs"
  let ?M = "decode N T out"
  have "(case ?M i of None \<Rightarrow> g2 / 2 | Some j \<Rightarrow> sq2 (aligned ! i) (ref ! j)) \<le> ?f i (out ! i)" if "i < N" for i
    using that fin [of i] by (auto simp: decode_def pass_cost_def N T split: if_splits)
  moreover have "(if j \<in> ran ?M then 0 else miss_cost g2 (vs ! j)) \<le> ?f (N + j) (out ! (N + j))" if j: "j < T" for j
  proof (cases "j \<in> ran ?M")
    case True
    then show ?thesis using pass_cost_nonneg [OF g2] by simp
  next
    case False
    have "j \<in> set out" using out j by (simp add: assignment_def)
    then obtain i where i: "i < N + T" "out ! i = j" using out by (auto simp: in_set_conv_nth assignment_def)
    have "i < N \<Longrightarrow> ?M i = Some j" using i(2) j by (simp add: decode_def)
    then have "\<not> i < N" using False by (auto intro: ranI)
    then have "i = N + j" using fin [OF i(1)] i(2) j by (auto simp: pass_cost_def N T split: if_splits)
    then show ?thesis using i(2) j False by (simp add: pass_cost_def N T)
  qed
  ultimately have "plan_cost g2 N T aligned ref vs ?M \<le> (\<Sum>i < N. ?f i (out ! i)) + (\<Sum>j < T. ?f (N + j) (out ! (N + j)))"
    unfolding plan_cost_def by (intro add_mono sum_mono) auto
  also have "\<dots> = (\<Sum>i < N + T. ?f i (out ! i))" by (rule sum_rows [symmetric])
  also have "\<dots> = total_cost (square_matrix (N + T) ?f) out"
    unfolding total_cost_def using assignment_bound [OF out] by (intro sum.cong) simp_all
  finally show ?thesis .
qed

context minimal_solver
begin

lemma best_plan:
  assumes run: "solve (square_matrix (length tks + length ts) (pass_cost g2 tks ts aligned ref vs)) = Some out"
    and g2: "0 \<le> g2" "real (length tks + length ts) * g2 < 2 * big"
  shows "gated g2 tks ts aligned ref (decode (length tks) (length ts) out)"
    "gated g2 tks ts aligned ref M \<Longrightarrow> plan_cost g2 (length tks) (length ts) aligned ref vs (decode (length tks) (length ts) out)
       \<le> plan_cost g2 (length tks) (length ts) aligned ref vs M"
    "i < length tks + length ts \<Longrightarrow> pass_cost g2 tks ts aligned ref vs i (out ! i) < big"
proof -
  let ?N = "length tks" and ?T = "length ts"
  let ?f = "pass_cost g2 tks ts aligned ref vs"
  let ?c = "square_matrix (?N + ?T) ?f"
  have out: "assignment (?N + ?T) out" using assigns [OF run] by simp
  have none: "gated g2 tks ts aligned ref (\<lambda>_. None)" by (simp add: gated_def)
  have "(\<Sum>j < ?T. miss_cost g2 (vs ! j)) \<le> (\<Sum>j < ?T. g2 / 2)"
    using miss_cost_bounds [OF g2(1)] by (intro sum_mono) blast
  then have "plan_cost g2 ?N ?T aligned ref vs (\<lambda>_. None) \<le> real (?N + ?T) * g2 / 2"
    by (simp add: plan_cost_def field_simps)
  then have "total_cost ?c (map (encode_at ?N ?T (\<lambda>_. None)) [0..<?N + ?T]) < big"
    using g2(2) encode_cost [OF none refl refl] by simp
  then have fin: "?f i (out ! i) < big" if "i < ?N + ?T" for i
    using chosen_below [OF run, of "map (encode_at ?N ?T (\<lambda>_. None)) [0..<?N + ?T]" big i]
      encode_assignment [OF none refl refl] pass_cost_nonneg [OF g2(1)] assignment_bound [OF out that] that by simp
  then show "i < ?N + ?T \<Longrightarrow> ?f i (out ! i) < big" for i .
  show "gated g2 tks ts aligned ref (decode ?N ?T out)" by (rule decode_gated [OF out refl refl fin])
  show "plan_cost g2 ?N ?T aligned ref vs (decode ?N ?T out) \<le> plan_cost g2 ?N ?T aligned ref vs M"
    if M: "gated g2 tks ts aligned ref M"
  proof -
    have "plan_cost g2 ?N ?T aligned ref vs (decode ?N ?T out) \<le> total_cost ?c out"
      by (rule decode_cost [OF out refl refl g2(1) fin])
    also have "\<dots> \<le> total_cost ?c (map (encode_at ?N ?T M) [0..<?N + ?T])"
      using minimal [OF run] encode_assignment [OF M refl refl] by simp
    finally show ?thesis using encode_cost [OF M refl refl] by simp
  qed
qed

end

text \<open>The matching a pass reports.\<close>

definition plan_of :: "pass_result \<Rightarrow> plan" where
  "plan_of r = map_of (map prod.swap (res_matches r))"

lemma plan_of_settled:
  assumes ok: "map_ok a" and fin: "\<And>i. i < length tks \<Longrightarrow> out ! i < length (as_tracks a) \<Longrightarrow> cost ! i ! (out ! i) < big"
  shows "plan_of (snd (settle_pass tr cost out aligned vs tks a)) = decode (length tks) (length (as_tracks a)) out"
proof -
  let ?N = "length tks" and ?T = "length (as_tracks a)"
  have take: "i < ?N \<Longrightarrow> taken ?T cost out i \<longleftrightarrow> out ! i < ?T" for i using fin by (auto simp: taken_def)
  have swap: "map prod.swap (map (\<lambda>i. (trk_id (as_tracks a ! (out ! i)), i)) (filter (taken ?T cost out) [0..<?N]))
      = map (\<lambda>i. (i, out ! i)) (filter (taken ?T cost out) [0..<?N])"
    using ok by (auto simp: map_ok_def track_ok_def taken_def)
  have "plan_of (snd (settle_pass tr cost out aligned vs tks a))
      = map_of (map (\<lambda>i. (i, out ! i)) (filter (taken ?T cost out) [0..<?N]))"
    unfolding plan_of_def settle_pass_closed snd_conv pass_result.simps swap ..
  then show ?thesis
    by (auto simp: map_of_map_restrict restrict_map_def decode_def take fun_eq_iff)
qed

text \<open>
  Claim C25: as long as the gate is too small for the sentinel cost to be confused with a real one, the matching a
  pass reports is the best of all partial matchings that keep to class and gate: none has a lower cost, counting
  half the squared gate per birth and the cost the visibility verdict gives per track left out.
\<close>

theorem ingest_pass_optimal:
  assumes "map_ok a" "as_tracks a \<noteq> []"
    and "real (length tks + length (as_tracks a)) * (as_gate a)\<^sup>2 < 2 * big"
    and "ingest_pass vis tks a = Some (Inr (a', r))" "mapE track_center (as_tracks a) = Inr ref"
    and "aligned = map (apply_se2 (res_transform r)) (map tk_center tks)"
  shows "gated ((as_gate a)\<^sup>2) tks (as_tracks a) aligned ref (plan_of r)
    \<and> (\<forall>M. gated ((as_gate a)\<^sup>2) tks (as_tracks a) aligned ref M \<longrightarrow>
         plan_cost ((as_gate a)\<^sup>2) (length tks) (length (as_tracks a)) aligned ref (verdicts vis ref) (plan_of r)
         \<le> plan_cost ((as_gate a)\<^sup>2) (length tks) (length (as_tracks a)) aligned ref (verdicts vis ref) M)"
proof -
  let ?g2 = "(as_gate a)\<^sup>2" and ?ts = "as_tracks a" and ?vs = "verdicts vis ref"
  obtain tr out where out: "hungarian (square_matrix (length tks + length ?ts)
        (pass_cost ?g2 tks ?ts (map (apply_se2 tr) (map tk_center tks)) ref ?vs)) = Some out"
    and run: "ingest_pass vis tks a = Some (Inr (settle_pass tr (square_matrix (length tks + length ?ts)
        (pass_cost ?g2 tks ?ts (map (apply_se2 tr) (map tk_center tks)) ref ?vs)) out
        (map (apply_se2 tr) (map tk_center tks)) ?vs tks a))"
    using ingest_pass_open [OF assms(1,2), of tks vis] assms(5) by (metis Inr_inject)
  let ?al = "map (apply_se2 tr) (map tk_center tks)"
  have tr: "res_transform r = tr" and r: "r = snd (settle_pass tr (square_matrix (length tks + length ?ts)
        (pass_cost ?g2 tks ?ts ?al ref ?vs)) out ?al ?vs tks a)"
    using run assms(4) by (auto simp: settle_pass_closed)
  note best = solver.best_plan [OF out zero_le_power2 assms(3)]
  have "plan_of r = decode (length tks) (length ?ts) out"
    unfolding r using best(3) by (intro plan_of_settled [OF assms(1)]) simp
  then show ?thesis using best(1,2) by (simp add: assms(6) tr)
qed

theorem ingest_pass_optimal_witness:
  "\<exists>a' r. ingest_pass None [demo_tracklet] demo_map = Some (Inr (a', r))
     \<and> plan_cost 1 1 1 (map (apply_se2 (res_transform r)) [(1 / 2, 0)]) [(0, 0)] [OBSERVED] (plan_of r) \<le> 1"
proof -
  obtain a' r where run: "ingest_pass None [demo_tracklet] demo_map = Some (Inr (a', r))"
    using ingest_pass_sound [OF demo_map_ok, of "[demo_tracklet]" None] by (auto simp: demo_tracklet_def)
  have ref: "mapE track_center (as_tracks demo_map) = Inr [(0, 0)]"
    by (simp add: demo_map_def demo_track_def track_center_def)
  have "as_tracks demo_map \<noteq> []" "real (length [demo_tracklet] + length (as_tracks demo_map)) * (as_gate demo_map)\<^sup>2 < 2 * big"
    by (simp_all add: demo_map_def big_def)
  note best = ingest_pass_optimal [OF demo_map_ok this run ref refl]
  have "gated 1 [demo_tracklet] [demo_track] aligned [(0, 0)] (\<lambda>_. None)" for aligned by (simp add: gated_def)
  then show ?thesis
    using run best by (force simp: demo_map_def demo_tracklet_def verdicts_def plan_cost_def miss_cost_def)
qed

end
