(* ===== verification/Visibility.thy ===== *)
theory Visibility
  imports Backproject Associate
begin

text \<open>
  The visibility ledger (\<open>mission_engine/core/visibility.py\<close>): which ground cells were in view when. A cell is a
  pair of integers, its visits are in the order of time; the dictionary is an association list in the order of
  insertion. A candidate radius that is \<open>math.inf\<close> is \<open>None\<close>. Export to a dictionary is not modelled.
\<close>

section \<open>The ledger\<close>

type_synonym cell = "int \<times> int"

record visit =
  vis_t0 :: seconds
  vis_t1 :: seconds
  vis_frames :: nat

type_synonym cell_map = "(cell \<times> visit list) list"

record ledger =
  led_cam :: camera_model
  led_cell :: metres
  led_gap :: seconds
  led_min_dep :: real
  led_range :: metres
  led_edge :: real
  led_cells :: cell_map
  led_frames :: nat
  led_last_t :: "seconds option"

definition mk_ledger :: "camera_model \<Rightarrow> metres \<Rightarrow> seconds \<Rightarrow> real \<Rightarrow> metres \<Rightarrow> real \<Rightarrow> py_error + ledger" where
  "mk_ledger cam cm gap dep rng edge =
     (if cm \<le> 0 then Inl (ValueError ''cell_m must be positive'')
      else Inr \<lparr>led_cam = cam, led_cell = cm, led_gap = gap, led_min_dep = dep, led_range = rng, led_edge = edge,
             led_cells = [], led_frames = 0, led_last_t = None\<rparr>)"

definition tan_min_dep :: "ledger \<Rightarrow> real" where
  "tan_min_dep l = tan (radians (led_min_dep l))"

definition cell_of :: "ledger \<Rightarrow> point \<Rightarrow> cell" where
  "cell_of l ne = (\<lfloor>fst ne / led_cell l\<rfloor>, \<lfloor>snd ne / led_cell l\<rfloor>)"

definition cell_mid :: "metres \<Rightarrow> int \<Rightarrow> metres" where
  "cell_mid cm i = (of_int i + 1 / 2) * cm"

section \<open>One pose\<close>

definition ground_distance :: "pose \<Rightarrow> metres" where
  "ground_distance p = (case pose_agl p of Some a \<Rightarrow> a | None \<Rightarrow> - snd (snd (pose_pos p)))"

definition candidate_radius :: "ledger \<Rightarrow> metres \<Rightarrow> metres" where
  "candidate_radius l agl =
     (let r_rng = sqrt (max ((led_range l)\<^sup>2 - agl * agl) 0)
      in if 0 < tan_min_dep l then min (agl / tan_min_dep l) r_rng else r_rng)"

text \<open>The tests the loop makes on one cell, with the camera axes already turned into the local frame.\<close>

definition sees :: "ledger \<Rightarrow> vec3 \<times> vec3 \<times> vec3 \<Rightarrow> vec3 \<Rightarrow> metres \<Rightarrow> cell \<Rightarrow> bool" where
  "sees l axes pos ground_z k =
     (case (axes, pos) of ((x_ax, y_ax, z_ax), (pn, pe, pz)) \<Rightarrow>
        let dn = cell_mid (led_cell l) (fst k) - pn; de = cell_mid (led_cell l) (snd k) - pe; dz = ground_z - pz;
            h2 = dn * dn + de * de
        in if (led_range l)\<^sup>2 < h2 + dz * dz then False
           else if dz * dz < h2 * (tan_min_dep l)\<^sup>2 then False
           else
             let x_c = dot3 x_ax (dn, de, dz); y_c = dot3 y_ax (dn, de, dz); z_c = dot3 z_ax (dn, de, dz)
             in if z_c \<le> 0 then False
                else
                  let u = cam_cx (led_cam l) + focal_px (led_cam l) * x_c / z_c;
                      v = cam_cy (led_cam l) + focal_px (led_cam l) * y_c / z_c
                  in led_edge l \<le> u \<and> u \<le> of_int (width_px (led_cam l)) - 1 - led_edge l
                     \<and> led_edge l \<le> v \<and> v \<le> of_int (height_px (led_cam l)) - 1 - led_edge l)"

definition extend_visits :: "seconds \<Rightarrow> seconds \<Rightarrow> visit list \<Rightarrow> visit list" where
  "extend_visits gap t vs =
     (if vs = [] then [\<lparr>vis_t0 = t, vis_t1 = t, vis_frames = 1\<rparr>]
      else if gap < t - vis_t1 (last vs) then vs @ [\<lparr>vis_t0 = t, vis_t1 = t, vis_frames = 1\<rparr>]
      else butlast vs @ [(last vs)\<lparr>vis_t1 := t, vis_frames := vis_frames (last vs) + 1\<rparr>])"

definition visits_at :: "cell_map \<Rightarrow> cell \<Rightarrow> visit list" where
  "visits_at cells k = (case map_of cells k of None \<Rightarrow> [] | Some vs \<Rightarrow> vs)"

definition mark_cell :: "seconds \<Rightarrow> seconds \<Rightarrow> cell \<Rightarrow> cell_map \<Rightarrow> cell_map" where
  "mark_cell gap t k cells = AList.update k (extend_visits gap t (visits_at cells k)) cells"

definition candidate_cells :: "metres \<Rightarrow> metres \<Rightarrow> metres \<Rightarrow> metres \<Rightarrow> cell list" where
  "candidate_cells cm r pn pe =
     List.product [\<lfloor>(pn - r) / cm\<rfloor>..\<lfloor>(pn + r) / cm\<rfloor>] [\<lfloor>(pe - r) / cm\<rfloor>..\<lfloor>(pe + r) / cm\<rfloor>]"

definition turned_axes :: "camera_model \<Rightarrow> quat \<Rightarrow> vec3 \<times> vec3 \<times> vec3" where
  "turned_axes cam q = (case cam_to_body (tilt_deg cam) of (x, y, z) \<Rightarrow> (quat_rotate q x, quat_rotate q y, quat_rotate q z))"

definition note_pose :: "ledger \<Rightarrow> pose \<Rightarrow> py_error + ledger" where
  "note_pose l p =
     (if (case led_last_t l of None \<Rightarrow> False | Some t0 \<Rightarrow> pose_t p < t0) then Inl (ValueError ''non-monotonic pose time'')
      else
        let l1 = l\<lparr>led_last_t := Some (pose_t p), led_frames := led_frames l + 1\<rparr>;
            agl = ground_distance p
        in if agl \<le> 0 then Inr l1
           else
             let r = candidate_radius l1 agl
             in if r \<le> 0 then Inr l1
                else
                  let (pn, pe, pz) = pose_pos p;
                      axes = turned_axes (led_cam l1) (pose_q p)
                  in Inr (l1\<lparr>led_cells := fold (\<lambda>k cells. if sees l1 axes (pn, pe, pz) (pz + agl) k then mark_cell (led_gap l1) (pose_t p) k cells else cells)
                                   (candidate_cells (led_cell l1) r pn pe) (led_cells l1)\<rparr>))"

section \<open>Queries\<close>

type_synonym window = "seconds \<times> seconds"

definition visits :: "ledger \<Rightarrow> point \<Rightarrow> visit list" where
  "visits l ne = visits_at (led_cells l) (cell_of l ne)"

definition cell_seen :: "ledger \<Rightarrow> nat \<Rightarrow> window option \<Rightarrow> cell \<Rightarrow> bool" where
  "cell_seen l min_frames win k =
     (\<exists>v \<in> set (visits_at (led_cells l) k).
        \<not> vis_frames v < min_frames \<and> (case win of None \<Rightarrow> True | Some (a, b) \<Rightarrow> vis_t0 v \<le> b \<and> a \<le> vis_t1 v))"

text \<open>Whether the cell is considered, and the tallies of the two nested loops.\<close>

definition considered :: "ledger \<Rightarrow> point \<Rightarrow> metres \<Rightarrow> cell \<Rightarrow> bool" where
  "considered l ne margin k =
     (if k \<noteq> cell_of l ne
      then let dn = cell_mid (led_cell l) (fst k) - fst ne; de = cell_mid (led_cell l) (snd k) - snd ne
           in \<not> margin * margin < dn * dn + de * de
      else True)"

definition tally :: "ledger \<Rightarrow> point \<Rightarrow> metres \<Rightarrow> nat \<Rightarrow> window option \<Rightarrow> cell \<Rightarrow> nat \<times> nat \<Rightarrow> nat \<times> nat" where
  "tally l ne margin min_frames win k counts =
     (case counts of (seen, unseen) \<Rightarrow>
        if \<not> considered l ne margin k then (seen, unseen)
        else if cell_seen l min_frames win k then (seen + 1, unseen) else (seen, unseen + 1))"

definition query_cells :: "ledger \<Rightarrow> point \<Rightarrow> metres \<Rightarrow> cell list" where
  "query_cells l ne margin =
     (let k = (if 0 < margin then \<lceil>margin / led_cell l\<rceil> else 0); (ci, cj) = cell_of l ne
      in List.product [ci - k..ci + k] [cj - k..cj + k])"

definition query :: "ledger \<Rightarrow> point \<Rightarrow> metres \<Rightarrow> nat \<Rightarrow> window option \<Rightarrow> verdict" where
  "query l ne margin min_frames win =
     (case fold (tally l ne margin min_frames win) (query_cells l ne margin) (0, 0) of (seen, unseen) \<Rightarrow>
        if seen = 0 then UNSEEN else if unseen = 0 then OBSERVED else EDGE)"

definition coverage_cells :: "ledger \<Rightarrow> nat \<Rightarrow> (cell \<times> nat) list" where
  "coverage_cells l min_frames =
     filter (\<lambda>(k, n). n \<noteq> 0)
       (map (\<lambda>(k, vs). (k, length (filter (\<lambda>v. min_frames \<le> vis_frames v) vs))) (led_cells l))"

end
