(* ===== verification/Visibility_Properties.thy ===== *)
theory Visibility_Properties
  imports Visibility Associate_Properties
begin

text \<open>
  The ledger holds exactly the maximal intervals in which a cell was in view, a cell being in view when the camera
  model projects its centre into the image; the queries are exact over the cells near the point.
\<close>

section \<open>What one pose records\<close>

text \<open>The reference: the centre of the cell on the ground projects into the frame, within range and depression.\<close>

definition cell_center :: "ledger \<Rightarrow> pose \<Rightarrow> cell \<Rightarrow> vec3" where
  "cell_center l p k =
     (cell_mid (led_cell l) (fst k), cell_mid (led_cell l) (snd k), snd (snd (pose_pos p)) + ground_distance p)"

definition in_frame :: "ledger \<Rightarrow> real \<times> real \<Rightarrow> bool" where
  "in_frame l px \<longleftrightarrow> led_edge l \<le> fst px \<and> fst px \<le> of_int (width_px (led_cam l)) - 1 - led_edge l
     \<and> led_edge l \<le> snd px \<and> snd px \<le> of_int (height_px (led_cam l)) - 1 - led_edge l"

definition horizontal2 :: "ledger \<Rightarrow> pose \<Rightarrow> cell \<Rightarrow> real" where
  "horizontal2 l p k = sq2 (cell_mid (led_cell l) (fst k), cell_mid (led_cell l) (snd k)) (fst (pose_pos p), fst (snd (pose_pos p)))"

definition in_view :: "ledger \<Rightarrow> pose \<Rightarrow> cell \<Rightarrow> bool" where
  "in_view l p k \<longleftrightarrow>
     0 < ground_distance p \<and> (ground_distance p)\<^sup>2 < (led_range l)\<^sup>2
     \<and> horizontal2 l p k + (ground_distance p)\<^sup>2 \<le> (led_range l)\<^sup>2
     \<and> horizontal2 l p k * (tan_min_dep l)\<^sup>2 \<le> (ground_distance p)\<^sup>2
     \<and> (\<exists>px. project_raw (led_cam l) (pose_pos p) (pose_q p) (cell_center l p k) = Inr px \<and> in_frame l px)"

lemma quat_rotate_dot:
  "dot3 (quat_rotate q a) d = dot3 a (quat_rotate (quat_conj q) d)"
proof -
  obtain w x y z a0 a1 a2 d0 d1 d2 where "q = (w, x, y, z)" "a = (a0, a1, a2)" "d = (d0, d1, d2)"
    by (metis prod.collapse)
  then show ?thesis by (simp add: quat_rotate_def quat_conj_def dot3_def Let_def algebra_simps)
qed

lemma sees_project:
  assumes "pose_pos p = (pn, pe, pz)" "0 < ground_distance p" "(ground_distance p)\<^sup>2 < (led_range l)\<^sup>2"
  shows "sees l (turned_axes (led_cam l) (pose_q p)) (pn, pe, pz) (pz + ground_distance p) k \<longleftrightarrow> in_view l p k"
  using assms
  by (auto simp: sees_def in_view_def turned_axes_def project_raw_def Let_def quat_rotate_dot cell_center_def in_frame_def
      horizontal2_def sq2_def power2_eq_square cam_to_body_def)

lemma candidate_radius_covers:
  assumes "in_view l p k"
  shows "0 < candidate_radius l (ground_distance p)" "sqrt (horizontal2 l p k) \<le> candidate_radius l (ground_distance p)"
proof -
  let ?a = "ground_distance p" and ?h = "horizontal2 l p k"
  have v: "0 < ?a" "?a\<^sup>2 < (led_range l)\<^sup>2" "?h + ?a\<^sup>2 \<le> (led_range l)\<^sup>2" "?h * (tan_min_dep l)\<^sup>2 \<le> ?a\<^sup>2"
    using assms by (simp_all add: in_view_def)
  have r: "0 < sqrt (max ((led_range l)\<^sup>2 - ?a * ?a) 0)" using v(2) by (simp add: power2_eq_square less_max_iff_disj)
  have h: "sqrt ?h \<le> sqrt (max ((led_range l)\<^sup>2 - ?a * ?a) 0)" using v(3) by (simp add: power2_eq_square le_max_iff_disj)
  have dep: "sqrt ?h \<le> ?a / tan_min_dep l" if "0 < tan_min_dep l"
  proof -
    have "sqrt (?h * (tan_min_dep l)\<^sup>2) \<le> sqrt (?a\<^sup>2)" using v(4) by (rule real_sqrt_le_mono)
    then show ?thesis using that v(1) by (simp add: real_sqrt_mult pos_le_divide_eq)
  qed
  show "0 < candidate_radius l ?a" using r v(1) by (simp add: candidate_radius_def Let_def)
  show "sqrt ?h \<le> candidate_radius l ?a" using h dep by (simp add: candidate_radius_def Let_def)
qed

lemma cell_index_range:
  assumes "0 < cm" "\<bar>cell_mid cm i - x\<bar> \<le> r"
  shows "\<lfloor>(x - r) / cm\<rfloor> \<le> i" "i \<le> \<lfloor>(x + r) / cm\<rfloor>"
proof -
  have "(x - r) / cm \<le> of_int i + 1 / 2" "of_int i + 1 / 2 \<le> (x + r) / cm"
    using assms by (simp_all add: cell_mid_def pos_divide_le_eq pos_le_divide_eq abs_le_iff)
  then show "\<lfloor>(x - r) / cm\<rfloor> \<le> i" "i \<le> \<lfloor>(x + r) / cm\<rfloor>" by linarith+
qed

lemma candidates_cover:
  assumes "in_view l p k" "0 < led_cell l" "pose_pos p = (pn, pe, pz)"
  shows "k \<in> set (candidate_cells (led_cell l) (candidate_radius l (ground_distance p)) pn pe)"
proof -
  let ?r = "candidate_radius l (ground_distance p)"
  have "\<bar>cell_mid (led_cell l) (fst k) - pn\<bar> \<le> sqrt (horizontal2 l p k)" "\<bar>cell_mid (led_cell l) (snd k) - pe\<bar> \<le> sqrt (horizontal2 l p k)"
    using assms(3) by (auto simp: horizontal2_def sq2_def intro: real_sqrt_ge_abs1 real_sqrt_ge_abs2)
  then have "\<bar>cell_mid (led_cell l) (fst k) - pn\<bar> \<le> ?r" "\<bar>cell_mid (led_cell l) (snd k) - pe\<bar> \<le> ?r"
    using candidate_radius_covers(2) [OF assms(1)] by linarith+
  from cell_index_range [OF assms(2) this(1)] cell_index_range [OF assms(2) this(2)]
  show ?thesis by (cases k) (auto simp: candidate_cells_def set_product)
qed

lemma visits_at_mark: "visits_at (mark_cell gap t k cells) k' = (if k' = k then extend_visits gap t (visits_at cells k) else visits_at cells k')"
  by (simp add: mark_cell_def visits_at_def update_conv')

lemma visits_at_fold:
  "distinct ks \<Longrightarrow> visits_at (fold (\<lambda>k cells. if P k then mark_cell gap t k cells else cells) ks cells) k' =
     (if k' \<in> set ks \<and> P k' then extend_visits gap t (visits_at cells k') else visits_at cells k')"
  by (induction ks arbitrary: cells) (auto simp: visits_at_mark)

lemma distinct_candidates: "distinct (candidate_cells cm r pn pe)"
  by (simp add: candidate_cells_def distinct_product)

lemma clock_update_simps [simp]:
  fixes l :: ledger
  shows "tan_min_dep (l\<lparr>led_last_t := t, led_frames := n\<rparr>) = tan_min_dep l"
    "candidate_radius (l\<lparr>led_last_t := t, led_frames := n\<rparr>) = candidate_radius l"
    "sees (l\<lparr>led_last_t := t, led_frames := n\<rparr>) = sees l"
  by (simp_all add: tan_min_dep_def candidate_radius_def sees_def fun_eq_iff Let_def)

lemma note_pose_records:
  assumes run: "note_pose l p = Inr l'" and cm: "0 < led_cell l"
  shows "visits_at (led_cells l') k = (if in_view l p k then extend_visits (led_gap l) (pose_t p) (visits_at (led_cells l) k)
     else visits_at (led_cells l) k)"
proof -
  obtain pn pe pz where pos: "pose_pos p = (pn, pe, pz)" by (cases "pose_pos p")
  let ?a = "ground_distance p"
  define l1 where "l1 = l\<lparr>led_last_t := Some (pose_t p), led_frames := led_frames l + 1\<rparr>"
  have same: "led_cam l1 = led_cam l" "led_cell l1 = led_cell l" "led_gap l1 = led_gap l" "led_cells l1 = led_cells l"
    "candidate_radius l1 ?a = candidate_radius l ?a" "sees l1 = sees l"
    by (simp_all add: l1_def)
  show ?thesis
  proof (cases "?a \<le> 0 \<or> candidate_radius l ?a \<le> 0")
    case True
    then have "\<not> in_view l p k" using candidate_radius_covers(1) [of l p k] by (auto simp: in_view_def)
    moreover have "led_cells l' = led_cells l"
      using run True by (auto simp: note_pose_def Let_def l1_def [symmetric] same split: if_splits)
    ultimately show ?thesis by simp
  next
    case False
    have "candidate_radius l ?a \<le> sqrt (max ((led_range l)\<^sup>2 - ?a * ?a) 0)" by (simp add: candidate_radius_def Let_def)
    then have "0 < sqrt (max ((led_range l)\<^sup>2 - ?a * ?a) 0)" using False by linarith
    then have near: "?a\<^sup>2 < (led_range l)\<^sup>2" by (simp add: power2_eq_square less_max_iff_disj)
    have "led_cells l' = fold (\<lambda>k cells. if in_view l p k then mark_cell (led_gap l) (pose_t p) k cells else cells)
        (candidate_cells (led_cell l) (candidate_radius l ?a) pn pe) (led_cells l)"
      using run False sees_project [OF pos _ near]
      by (auto simp: note_pose_def Let_def l1_def [symmetric] same pos split: if_splits cong: if_cong)
    then show ?thesis
      using visits_at_fold [OF distinct_candidates] candidates_cover [OF _ cm pos] by auto
  qed
qed

section \<open>Visits over a run\<close>

text \<open>The times grouped into the maximal runs whose steps are no longer than the gap.\<close>

definition run_visit :: "seconds list \<Rightarrow> visit" where
  "run_visit r = \<lparr>vis_t0 = hd r, vis_t1 = last r, vis_frames = length r\<rparr>"

definition grouped :: "seconds \<Rightarrow> seconds list list \<Rightarrow> bool" where
  "grouped gap runs \<longleftrightarrow> [] \<notin> set runs \<and> (\<forall>r \<in> set runs. successively (\<lambda>s t. t - s \<le> gap) r)
     \<and> successively (\<lambda>r r'. gap < hd r' - last r) runs"

definition maximal_runs :: "seconds \<Rightarrow> seconds list \<Rightarrow> visit list \<Rightarrow> bool" where
  "maximal_runs gap stamps vs \<longleftrightarrow> (\<exists>runs. grouped gap runs \<and> concat runs = stamps \<and> vs = map run_visit runs)"

lemma extend_runs:
  assumes "maximal_runs gap stamps vs"
  shows "maximal_runs gap (stamps @ [t]) (extend_visits gap t vs)"
proof -
  obtain runs where runs: "grouped gap runs" "concat runs = stamps" "vs = map run_visit runs"
    using assms by (auto simp: maximal_runs_def)
  show ?thesis
  proof (cases runs rule: rev_cases)
    case Nil
    then show ?thesis using runs unfolding maximal_runs_def
      by (intro exI [of _ "[[t]]"]) (simp add: grouped_def extend_visits_def run_visit_def)
  next
    case (snoc rs r)
    then have r: "r \<noteq> []" using runs(1) by (auto simp: grouped_def)
    show ?thesis
    proof (cases "gap < t - last r")
      case True
      then have "grouped gap (runs @ [[t]])" using runs(1) by (auto simp: grouped_def snoc successively_append_iff)
      then show ?thesis using runs snoc True unfolding maximal_runs_def
        by (intro exI [of _ "runs @ [[t]]"]) (auto simp: extend_visits_def run_visit_def)
    next
      case False
      then have "grouped gap (rs @ [r @ [t]])"
        using runs(1) r by (auto simp: grouped_def snoc successively_append_iff)
      then show ?thesis using runs snoc False r unfolding maximal_runs_def
        by (intro exI [of _ "rs @ [r @ [t]]"]) (auto simp: extend_visits_def run_visit_def)
    qed
  qed
qed

definition same_set_up :: "ledger \<Rightarrow> ledger \<Rightarrow> bool" where
  "same_set_up l l' \<longleftrightarrow> led_cam l' = led_cam l \<and> led_cell l' = led_cell l \<and> led_gap l' = led_gap l \<and> led_min_dep l' = led_min_dep l
     \<and> led_range l' = led_range l \<and> led_edge l' = led_edge l"

lemma in_view_set_up: "same_set_up l l' \<Longrightarrow> in_view l' p k = in_view l p k"
  by (simp add: in_view_def same_set_up_def horizontal2_def cell_center_def in_frame_def tan_min_dep_def)

lemma note_pose_fields:
  assumes "note_pose l p = Inr l'"
  shows "same_set_up l l'" "led_frames l' = led_frames l + 1" "led_last_t l' = Some (pose_t p)"
    "led_last_t l = Some t0 \<Longrightarrow> t0 \<le> pose_t p"
  using assms by (auto simp: note_pose_def same_set_up_def Let_def split: if_splits option.splits prod.splits)

definition ledger_of :: "ledger \<Rightarrow> pose list \<Rightarrow> ledger \<Rightarrow> bool" where
  "ledger_of l0 ps l \<longleftrightarrow> same_set_up l0 l \<and> led_frames l = length ps \<and> sorted (map pose_t ps)
     \<and> led_last_t l = (if ps = [] then None else Some (pose_t (last ps)))
     \<and> (\<forall>k. maximal_runs (led_gap l0) (map pose_t (filter (\<lambda>p. in_view l0 p k) ps)) (visits_at (led_cells l) k))"

lemma note_pose_ledger_of:
  assumes l: "ledger_of l0 ps l" and cm: "0 < led_cell l0" and run: "note_pose l p = Inr l'"
  shows "ledger_of l0 (ps @ [p]) l'"
proof -
  have su: "same_set_up l0 l" using l by (simp add: ledger_of_def)
  have "led_cell l = led_cell l0" "led_gap l = led_gap l0" using su by (simp_all add: same_set_up_def)
  then have rec: "visits_at (led_cells l') k = (if in_view l0 p k then extend_visits (led_gap l0) (pose_t p) (visits_at (led_cells l) k)
      else visits_at (led_cells l) k)" for k
    using note_pose_records [OF run, of k] cm in_view_set_up [OF su] by simp
  have "same_set_up l0 l'" using su note_pose_fields(1) [OF run] by (simp add: same_set_up_def)
  moreover have "sorted (map pose_t (ps @ [p]))"
  proof (cases "ps = []")
    case False
    then have "pose_t (last ps) \<le> pose_t p" using note_pose_fields(4) [OF run] l by (simp add: ledger_of_def)
    moreover have "q \<in> set ps \<Longrightarrow> pose_t q \<le> pose_t (last ps)" for q
      using l False by (auto simp: ledger_of_def in_set_conv_nth last_conv_nth sorted_iff_nth_mono)
    ultimately show ?thesis using l by (force simp: ledger_of_def sorted_append)
  qed simp
  moreover have "maximal_runs (led_gap l0) (map pose_t (filter (\<lambda>p. in_view l0 p k) (ps @ [p]))) (visits_at (led_cells l') k)" for k
  proof -
    have "maximal_runs (led_gap l0) (map pose_t (filter (\<lambda>p. in_view l0 p k) ps)) (visits_at (led_cells l) k)"
      using l unfolding ledger_of_def by blast
    then show ?thesis using extend_runs by (simp add: rec)
  qed
  ultimately show ?thesis using l note_pose_fields(2,3) [OF run] by (simp add: ledger_of_def)
qed

text \<open>
  Claim C29: whatever poses a ledger accepts, their times are in order and the visits of every cell are exactly the
  maximal runs of the times at which the cell was in view: a cell is in view when the camera model of the
  back-projection puts its centre into the frame, within range and depression. The box the code searches loses no
  cell.
\<close>

theorem visits_are_maximal_runs:
  assumes "mk_ledger cam cm gap dep rng edge = Inr l0" "foldE note_pose l0 ps = Inr l"
  shows "sorted (map pose_t ps) \<and> led_frames l = length ps
    \<and> (\<forall>k. maximal_runs gap (map pose_t (filter (\<lambda>p. in_view l0 p k) ps)) (visits_at (led_cells l) k))"
proof -
  have l0: "0 < led_cell l0" "led_gap l0 = gap" "ledger_of l0 [] l0"
    using assms(1) by (auto simp: mk_ledger_def ledger_of_def same_set_up_def maximal_runs_def grouped_def visits_at_def split: if_splits)
  have "ledger_of l0 qs l1 \<Longrightarrow> foldE note_pose l1 ps = Inr l \<Longrightarrow> ledger_of l0 (qs @ ps) l" for qs l1
  proof (induction ps arbitrary: qs l1)
    case (Cons p ps)
    then obtain l2 where "note_pose l1 p = Inr l2" "foldE note_pose l2 ps = Inr l" by auto
    then show ?case using Cons.IH [of "qs @ [p]" l2] note_pose_ledger_of [OF Cons.prems(1) l0(1)] by simp
  qed simp
  from this [OF l0(3) assms(2)] show ?thesis using l0(2) by (simp add: ledger_of_def)
qed

lemma note_pose_returns:
  assumes "\<And>t0. led_last_t l = Some t0 \<Longrightarrow> t0 \<le> pose_t p"
  shows "\<exists>l'. note_pose l p = Inr l'"
  using assms by (cases "led_last_t l") (auto simp: note_pose_def Let_def not_less [symmetric] split: prod.splits)

definition demo_camera :: camera_model where
  "demo_camera = \<lparr>width_px = 100, height_px = 100, hfov_deg = 90, tilt_deg = 0\<rparr>"

definition demo_ledger :: "cell_map \<Rightarrow> ledger" where
  "demo_ledger cells = \<lparr>led_cam = demo_camera, led_cell = 1 / 2, led_gap = 5, led_min_dep = 45, led_range = 15, led_edge = 0,
     led_cells = cells, led_frames = 0, led_last_t = None\<rparr>"

definition demo_pose :: "seconds \<Rightarrow> pose" where
  "demo_pose t = \<lparr>pose_t = t, pose_pos = (0, 0, - 5), pose_q = (1, 0, 0, 0), pose_reset_counter = 0, pose_ll = None, pose_agl = None\<rparr>"

lemma demo_in_view: "in_view (demo_ledger []) (demo_pose t) (0, 0)"
proof -
  have "radians 45 = pi / 4" "radians 90 / 2 = pi / 4" by (simp_all add: radians_def)
  then have "tan (radians 45) = 1" "tan (radians 90 / 2) = 1" "radians 0 = 0" by (simp_all only: tan_45) (simp add: radians_def)
  then show ?thesis
    by (simp add: in_view_def demo_ledger_def demo_pose_def demo_camera_def ground_distance_def horizontal2_def cell_mid_def sq2_def
        tan_min_dep_def cell_center_def project_raw_def cam_to_body_def quat_conj_def quat_rotate_def dot3_def focal_px_def
        cam_cx_def cam_cy_def in_frame_def Let_def power2_eq_square)
qed

theorem visits_are_maximal_runs_witness:
  "\<exists>l. foldE note_pose (demo_ledger []) [demo_pose 0, demo_pose 1] = Inr l
     \<and> maximal_runs 5 [0, 1] (visits_at (led_cells l) (0, 0))"
proof -
  have new: "mk_ledger demo_camera (1 / 2) 5 45 15 0 = Inr (demo_ledger [])" by (simp add: mk_ledger_def demo_ledger_def)
  obtain l1 where l1: "note_pose (demo_ledger []) (demo_pose 0) = Inr l1"
    using note_pose_returns [of "demo_ledger []" "demo_pose 0"] by (auto simp: demo_ledger_def)
  obtain l2 where l2: "note_pose l1 (demo_pose 1) = Inr l2"
    using note_pose_returns [of l1 "demo_pose 1"] note_pose_fields(3) [OF l1] by (auto simp: demo_pose_def)
  have run: "foldE note_pose (demo_ledger []) [demo_pose 0, demo_pose 1] = Inr l2" by (simp add: l1 l2)
  have "map pose_t (filter (\<lambda>p. in_view (demo_ledger []) p (0, 0)) [demo_pose 0, demo_pose 1]) = [0, 1]"
    by (simp add: demo_in_view) (simp add: demo_pose_def)
  then show ?thesis using visits_are_maximal_runs [OF new run] run by metis
qed

section \<open>Queries\<close>

definition near :: "ledger \<Rightarrow> point \<Rightarrow> metres \<Rightarrow> cell \<Rightarrow> bool" where
  "near l ne margin k \<longleftrightarrow> k = cell_of l ne \<or> sq2 (cell_mid (led_cell l) (fst k), cell_mid (led_cell l) (snd k)) ne \<le> margin\<^sup>2"

lemma considered_near: "considered l ne margin k = near l ne margin k"
  by (auto simp: considered_def near_def Let_def sq2_def power2_eq_square)

lemma tally_fold:
  "fold (tally l ne margin mf win) ks (a, b) =
     (a + length (filter (\<lambda>k. near l ne margin k \<and> cell_seen l mf win k) ks),
      b + length (filter (\<lambda>k. near l ne margin k \<and> \<not> cell_seen l mf win k) ks))"
  by (induction ks arbitrary: a b) (auto simp: tally_def considered_near)

lemma index_near:
  assumes "0 < cm" "0 \<le> margin" "\<bar>cell_mid cm i - x\<bar> \<le> margin"
  shows "\<lfloor>x / cm\<rfloor> - \<lceil>margin / cm\<rceil> \<le> i" "i \<le> \<lfloor>x / cm\<rfloor> + \<lceil>margin / cm\<rceil>"
proof -
  have "of_int i + 1 / 2 \<le> x / cm + margin / cm" "x / cm - margin / cm \<le> of_int i + 1 / 2"
    using assms(1,3) by (simp_all add: cell_mid_def abs_le_iff field_simps)
  then show "\<lfloor>x / cm\<rfloor> - \<lceil>margin / cm\<rceil> \<le> i" "i \<le> \<lfloor>x / cm\<rfloor> + \<lceil>margin / cm\<rceil>" by linarith+
qed

lemma near_in_box:
  assumes cm: "0 < led_cell l" and m: "0 \<le> margin" and n: "near l ne margin k"
  shows "k \<in> set (query_cells l ne margin)"
proof -
  define b where "b = (if 0 < margin then \<lceil>margin / led_cell l\<rceil> else 0)"
  have "0 \<le> margin / led_cell l" using cm m by simp
  then have "0 \<le> \<lceil>margin / led_cell l\<rceil>" by linarith
  then have b: "b = \<lceil>margin / led_cell l\<rceil>" "0 \<le> b" using m by (auto simp: b_def)
  have "fst (cell_of l ne) - b \<le> fst k \<and> fst k \<le> fst (cell_of l ne) + b \<and> snd (cell_of l ne) - b \<le> snd k \<and> snd k \<le> snd (cell_of l ne) + b"
  proof (cases "k = cell_of l ne")
    case False
    then have "sq2 (cell_mid (led_cell l) (fst k), cell_mid (led_cell l) (snd k)) ne \<le> margin\<^sup>2" using n by (simp add: near_def)
    then have d: "sqrt ((cell_mid (led_cell l) (fst k) - fst ne)\<^sup>2 + (cell_mid (led_cell l) (snd k) - snd ne)\<^sup>2) \<le> margin"
      using m by (intro real_le_lsqrt) (simp_all add: sq2_def)
    have "\<bar>cell_mid (led_cell l) (fst k) - fst ne\<bar> \<le> margin" "\<bar>cell_mid (led_cell l) (snd k) - snd ne\<bar> \<le> margin"
      using order_trans [OF real_sqrt_ge_abs1 d] order_trans [OF real_sqrt_ge_abs2 d] by auto
    from index_near [OF cm m this(1)] index_near [OF cm m this(2)] show ?thesis by (simp add: cell_of_def b(1))
  qed (use b(2) in simp)
  then show ?thesis
    by (cases k; cases "cell_of l ne") (auto simp: query_cells_def Let_def b_def [symmetric] set_product)
qed

lemma query_exact:
  assumes "0 < led_cell l" "0 \<le> margin"
  shows "query l ne margin mf win =
    (if \<forall>k. near l ne margin k \<longrightarrow> \<not> cell_seen l mf win k then UNSEEN
     else if \<forall>k. near l ne margin k \<longrightarrow> cell_seen l mf win k then OBSERVED else EDGE)"
proof -
  have "(\<forall>k \<in> set (query_cells l ne margin). \<not> (near l ne margin k \<and> cell_seen l mf win k)) \<longleftrightarrow> (\<forall>k. near l ne margin k \<longrightarrow> \<not> cell_seen l mf win k)"
    using near_in_box [OF assms] by blast
  moreover have "(\<forall>k \<in> set (query_cells l ne margin). \<not> (near l ne margin k \<and> \<not> cell_seen l mf win k)) \<longleftrightarrow> (\<forall>k. near l ne margin k \<longrightarrow> cell_seen l mf win k)"
    using near_in_box [OF assms] by blast
  ultimately show ?thesis
    unfolding query_def tally_fold prod.case add_0 length_0_conv filter_empty_conv by presburger
qed

text \<open>
  Claim C30: a query looks at no cell too few: with a margin that is not negative its verdict is unseen, observed or
  edge exactly as none, all or some of the cells near the point, the one holding it and those whose centre lies
  within the margin, have a visit that qualifies.
\<close>

theorem query_verdict_exact:
  assumes "0 < led_cell l" "0 \<le> margin"
  shows "query l ne margin mf win =
    (if \<forall>k. near l ne margin k \<longrightarrow> \<not> cell_seen l mf win k then UNSEEN
     else if \<forall>k. near l ne margin k \<longrightarrow> cell_seen l mf win k then OBSERVED else EDGE)"
  by (rule query_exact [OF assms])

theorem query_verdict_exact_witness:
  "query (demo_ledger [((0, 0), [\<lparr>vis_t0 = 0, vis_t1 = 1, vis_frames = 2\<rparr>])]) (1 / 4, 1 / 4) 0 1 (Some (0, 9)) = OBSERVED"
proof -
  let ?l = "demo_ledger [((0, 0), [\<lparr>vis_t0 = 0, vis_t1 = 1, vis_frames = 2\<rparr>])]"
  have seen: "cell_seen ?l 1 (Some (0, 9)) (0, 0)" by (simp add: cell_seen_def visits_at_def demo_ledger_def)
  have mid: "cell_mid (1 / 2) i = 1 / 4 \<longleftrightarrow> i = 0" for i by (simp add: cell_mid_def field_simps)
  have "near ?l (1 / 4, 1 / 4) 0 k \<longleftrightarrow> k = (0, 0)" for k
    using mid by (cases k) (auto simp: near_def cell_of_def demo_ledger_def sq2_def sum_power2_le_zero_iff)
  then show ?thesis
    using query_verdict_exact [of ?l 0 "(1 / 4, 1 / 4)" 1 "Some (0, 9)"] seen by (auto simp: demo_ledger_def)
qed



end
