(* ===== verification/Jarvis.thy ===== *)
theory Jarvis
  imports Prelude "HOL-Library.Sublist"
begin

text \<open>
  Jarvis, the voice gate of the operator (\<open>ros/jarvis_web\<close>): \<open>grammar.py\<close> from a transcript to an intent or a
  rejection, the request handler of \<open>app.py\<close> and the publishers of \<open>node.py\<close>. Speech recognition and synthesis
  are outside: a request carries the transcription the engine gave, and the counts of subscribers DDS reports.
  Transcripts are read as Latin-1; of the upper-case letters only A to Z become letters of a word, the others
  stand between words in either case.
\<close>

section \<open>Grammar\<close>

record intent =
  intent_name :: string
  intent_topic :: string
  intent_response :: string

definition LAUNCH :: intent where
  "LAUNCH = \<lparr>intent_name = ''launch'', intent_topic = ''/start_mission'', intent_response = ''LAUNCHING.''\<rparr>"

definition EXECUTE :: intent where
  "EXECUTE = \<lparr>intent_name = ''execute'', intent_topic = ''/begin_orbit'', intent_response = ''EXECUTING.''\<rparr>"

definition COME_HOME :: intent where
  "COME_HOME = \<lparr>intent_name = ''come_home'', intent_topic = ''/end_mission'', intent_response = ''COMING HOME.''\<rparr>"

definition ABORT :: intent where
  "ABORT = \<lparr>intent_name = ''abort'', intent_topic = ''/abort_mission'', intent_response = ''ABORTING.''\<rparr>"

definition PHRASES :: "(string \<times> intent) list" where
  "PHRASES = [(''launch'', LAUNCH), (''execute'', EXECUTE), (''come home'', COME_HOME), (''abort'', ABORT)]"

definition REJECT_RESPONSE :: string where
  "REJECT_RESPONSE = ''SAY AGAIN.''"

datatype rejection = OutOfVocabulary | NoMatch | LowConfidence intent

datatype outcome = Accepted intent | Rejected rejection

definition UNKNOWN_TOKEN :: string where
  "UNKNOWN_TOKEN = ''[unk]''"

definition CALLSIGN :: string where
  "CALLSIGN = ''jarvis''"

definition code_of :: "char \<Rightarrow> nat" where
  "code_of c = of_char c"

definition space_char :: "char \<Rightarrow> bool" where
  "space_char c \<longleftrightarrow> code_of c \<in> {9, 10, 11, 12, 13, 28, 29, 30, 31, 32, 133, 160}"

definition letter :: "char \<Rightarrow> bool" where
  "letter c \<longleftrightarrow> 97 \<le> code_of c \<and> code_of c \<le> 122"

definition lower_char :: "char \<Rightarrow> char" where
  "lower_char c = (if 65 \<le> code_of c \<and> code_of c \<le> 90 then char_of (code_of c + 32) else c)"

definition strip :: "string \<Rightarrow> string" where
  "strip s = rev (dropWhile space_char (rev (dropWhile space_char s)))"

text \<open>\<open>_NON_LETTER.sub(" ", s)\<close>: every run of other characters becomes one space.\<close>

function squash :: "string \<Rightarrow> string" where
  "squash [] = []"
| "squash (c # cs) = (if letter c then c # squash cs else CHR '' '' # squash (dropWhile (\<lambda>d. \<not> letter d) cs))"
  by pat_completeness auto

termination
  by (relation "measure length") (auto simp: le_imp_less_Suc length_dropWhile_le)

function split_words :: "string \<Rightarrow> string list" where
  "split_words [] = []"
| "split_words (c # cs) =
     (if space_char c then split_words cs
      else (c # takeWhile (\<lambda>d. \<not> space_char d) cs) # split_words (dropWhile (\<lambda>d. \<not> space_char d) cs))"
  by pat_completeness auto

termination
  by (relation "measure length") (auto simp: le_imp_less_Suc length_dropWhile_le)

fun join_words :: "string list \<Rightarrow> string" where
  "join_words [] = []"
| "join_words [w] = w"
| "join_words (w # ws) = w @ CHR '' '' # join_words ws"

definition drop_callsign :: "string list \<Rightarrow> string list" where
  "drop_callsign ws = (if ws \<noteq> [] \<and> hd ws = CALLSIGN then tl ws else ws)"

definition normalize :: "string \<Rightarrow> string" where
  "normalize s = join_words (drop_callsign (split_words (squash (map lower_char (strip s)))))"

definition utterance_confidence :: "real list \<Rightarrow> real" where
  "utterance_confidence cs = (if cs = [] then 0 else Min (set cs))"

record match_result =
  match_transcript :: string
  match_normalized :: string
  match_confidence :: real
  match_outcome :: outcome

definition match_response :: "match_result \<Rightarrow> string" where
  "match_response m = (case match_outcome m of Accepted i \<Rightarrow> intent_response i | Rejected _ \<Rightarrow> REJECT_RESPONSE)"

definition recognize :: "string \<Rightarrow> real list \<Rightarrow> real \<Rightarrow> match_result" where
  "recognize transcript confidences threshold =
     (let n = normalize transcript;
          c = utterance_confidence confidences;
          out = (if sublist UNKNOWN_TOKEN transcript then Rejected OutOfVocabulary
                 else case map_of PHRASES n of
                        None \<Rightarrow> Rejected NoMatch
                      | Some i \<Rightarrow> if c < threshold then Rejected (LowConfidence i) else Accepted i)
      in \<lparr>match_transcript = transcript, match_normalized = n, match_confidence = c, match_outcome = out\<rparr>)"

section \<open>The request handler\<close>

fun describe :: "outcome \<Rightarrow> string option \<times> string" where
  "describe (Accepted i) = (Some (intent_name i), ''ok'')"
| "describe (Rejected OutOfVocabulary) = (None, ''out_of_vocabulary'')"
| "describe (Rejected NoMatch) = (None, ''no_match'')"
| "describe (Rejected (LowConfidence i)) = (Some (intent_name i), ''low_confidence'')"

record gates =
  expected_fleet_size :: int
  published :: "string list"

definition mk_gates :: "int \<Rightarrow> py_error + gates" where
  "mk_gates n = (if n < 1 then Inl (ValueError ''expected_fleet_size must be at least 1'')
     else Inr \<lparr>expected_fleet_size = n, published = []\<rparr>)"

definition publish_gate :: "intent \<Rightarrow> gates \<Rightarrow> gates" where
  "publish_gate i g = g\<lparr>published := published g @ [intent_topic i]\<rparr>"

record request =
  heard_text :: string
  heard_confidences :: "real list"
  subscribers :: "string \<Rightarrow> int"

record reply =
  rep_transcript :: string
  rep_intent :: "string option"
  rep_accepted :: bool
  rep_reason :: string
  rep_confidence :: real
  rep_response :: string
  rep_topic :: "string option"
  rep_count :: "int option"
  rep_expected :: "int option"

definition FLEET_NOT_READY_RESPONSE :: string where
  "FLEET_NOT_READY_RESPONSE = ''FLEET NOT READY.''"

definition utterance :: "real \<Rightarrow> request \<Rightarrow> gates \<Rightarrow> gates \<times> reply" where
  "utterance threshold q g =
     (let m = recognize (heard_text q) (heard_confidences q) threshold;
          (name, cause) = describe (match_outcome m);
          base = \<lparr>rep_transcript = match_transcript m, rep_intent = name, rep_accepted = False, rep_reason = cause,
                  rep_confidence = match_confidence m, rep_response = match_response m, rep_topic = None, rep_count = None,
                  rep_expected = None\<rparr>
      in case match_outcome m of
           Accepted i \<Rightarrow>
             let n = subscribers q (intent_topic i);
                 r = base\<lparr>rep_topic := Some (intent_topic i), rep_count := Some n, rep_expected := Some (expected_fleet_size g)\<rparr>
             in if n < expected_fleet_size g
                then (g, r\<lparr>rep_reason := ''insufficient_subscribers'', rep_response := FLEET_NOT_READY_RESPONSE\<rparr>)
                else (publish_gate i g, r\<lparr>rep_accepted := True\<rparr>)
         | Rejected _ \<Rightarrow> (g, base))"

section \<open>What was said\<close>

text \<open>The reference: a text spells the words that are its maximal runs of letters.\<close>

inductive spells :: "string \<Rightarrow> string list \<Rightarrow> bool" where
  spells_none: "\<forall>c \<in> set s. \<not> letter c \<Longrightarrow> spells s []"
| spells_word: "\<lbrakk>\<forall>c \<in> set sep. \<not> letter c; w \<noteq> []; \<forall>c \<in> set w. letter c; rest = [] \<or> \<not> letter (hd rest); spells rest ws\<rbrakk>
    \<Longrightarrow> spells (sep @ w @ rest) (w # ws)"

lemma letter_not_space: "letter c \<Longrightarrow> \<not> space_char c"
  by (auto simp: letter_def space_char_def)

lemma blank [simp]: "space_char CHR '' ''" "\<not> letter CHR '' ''"
  by (simp_all add: space_char_def letter_def code_of_def)

lemma squash_letters: "\<forall>c \<in> set w. letter c \<Longrightarrow> squash (w @ s) = w @ squash s"
  by (induction w) auto

lemma squash_other: "\<forall>c \<in> set sep. \<not> letter c \<Longrightarrow> sep \<noteq> [] \<Longrightarrow> squash (sep @ s) = CHR '' '' # squash (dropWhile (\<lambda>d. \<not> letter d) s)"
  by (cases sep) (auto simp: dropWhile_append2)

lemma split_word:
  assumes "w \<noteq> []" "\<forall>c \<in> set w. letter c" "s = [] \<or> space_char (hd s)"
  shows "split_words (w @ s) = w # split_words s"
proof -
  obtain c cs where w: "w = c # cs" using assms(1) by (cases w) auto
  have cs: "\<forall>d \<in> set cs. \<not> space_char d" and c: "\<not> space_char c" using assms(2) letter_not_space w by auto
  have "takeWhile (\<lambda>d. \<not> space_char d) (cs @ s) = cs" "dropWhile (\<lambda>d. \<not> space_char d) (cs @ s) = s"
    using assms(3) cs by (cases s; auto simp: takeWhile_append2 dropWhile_append2)+
  then show ?thesis using c by (simp add: w)
qed

lemma squash_start: "s = [] \<or> \<not> letter (hd s) \<Longrightarrow> squash s = [] \<or> space_char (hd (squash s))"
  by (cases s) auto

lemma spells_split: "spells s ws \<Longrightarrow> split_words (squash s) = ws"
proof (induction rule: spells.induct)
  case (spells_none s)
  show ?case
  proof (cases s)
    case (Cons c cs)
    then have none: "dropWhile (\<lambda>d. \<not> letter d) cs = []" using spells_none by simp
    show ?thesis using Cons spells_none by (simp add: none)
  qed simp
next
  case (spells_word sep w rest ws)
  obtain c cs where w: "w = c # cs" "letter c" using spells_word(2,3) by (cases w) auto
  have "squash (sep @ w @ rest) = (if sep = [] then [] else [CHR '' '']) @ w @ squash rest"
    using squash_other [OF spells_word(1), of "w @ rest"] squash_letters [OF spells_word(3), of rest] w by auto
  moreover have "split_words (w @ squash rest) = w # ws"
    using split_word [OF spells_word(2,3) squash_start [OF spells_word(4)]] spells_word.IH by simp
  ultimately show ?case by auto
qed

lemma spells_exists: "\<exists>ws. spells s ws"
proof (induction "length s" arbitrary: s rule: less_induct)
  case less
  define sep where "sep = takeWhile (\<lambda>c. \<not> letter c) s"
  define w where "w = takeWhile letter (dropWhile (\<lambda>c. \<not> letter c) s)"
  define rest where "rest = dropWhile letter (dropWhile (\<lambda>c. \<not> letter c) s)"
  have s: "s = sep @ w @ rest" by (simp add: sep_def w_def rest_def)
  have sep: "\<forall>c \<in> set sep. \<not> letter c" and wl: "\<forall>c \<in> set w. letter c"
    by (auto simp: sep_def w_def dest: set_takeWhileD)
  show ?case
  proof (cases "w = []")
    case True
    then have "rest = dropWhile (\<lambda>c. \<not> letter c) s" by (simp add: w_def rest_def dropWhile_eq_self_iff takeWhile_eq_Nil_iff)
    then have "rest = []" using True hd_dropWhile [of "\<lambda>c. \<not> letter c" s] by (auto simp: w_def takeWhile_eq_Nil_iff)
    then show ?thesis using sep True spells_none [of s] s by auto
  next
    case False
    then have "length rest < length s" by (simp add: s)
    then obtain ws where "spells rest ws" using less by blast
    moreover have "rest = [] \<or> \<not> letter (hd rest)" unfolding rest_def using hd_dropWhile by blast
    ultimately show ?thesis using spells_word [OF sep False wl, of rest ws] s by auto
  qed
qed

lemma spells_words: "spells s ws \<Longrightarrow> \<forall>w \<in> set ws. w \<noteq> [] \<and> (\<forall>c \<in> set w. letter c)"
  by (induction rule: spells.induct) auto

lemma spells_prepend: "spells s ws \<Longrightarrow> \<forall>c \<in> set sep. \<not> letter c \<Longrightarrow> spells (sep @ s) ws"
proof (induction rule: spells.induct)
  case (spells_word sep' w rest ws)
  then show ?case using spells.spells_word [of "sep @ sep'" w rest ws] by auto
next
  case (spells_none s)
  then show ?case by (intro spells.spells_none) auto
qed

lemma spells_append: "spells s ws \<Longrightarrow> \<forall>c \<in> set sep. \<not> letter c \<Longrightarrow> spells (s @ sep) ws"
proof (induction rule: spells.induct)
  case (spells_word sep' w rest ws)
  have "rest @ sep = [] \<or> \<not> letter (hd (rest @ sep))" using spells_word(4,7) by (cases rest; cases sep) auto
  then show ?case using spells.spells_word [of sep' w "rest @ sep" ws] spells_word by auto
next
  case (spells_none s)
  then show ?case by (intro spells.spells_none) auto
qed

lemma spells_unique: "spells s ws \<Longrightarrow> spells s ws' \<Longrightarrow> ws = ws'"
  using spells_split by blast

lemma space_lower: "space_char c \<Longrightarrow> \<not> letter (lower_char c)"
  by (auto simp: space_char_def letter_def lower_char_def)

lemma spells_strip: "spells (map lower_char s) ws \<longleftrightarrow> spells (map lower_char (strip s)) ws"
proof -
  define a where "a = takeWhile space_char s"
  define t where "t = dropWhile space_char s"
  define b where "b = rev (takeWhile space_char (rev t))"
  have t: "t = strip s @ b" unfolding strip_def t_def b_def
    by (metis rev_append rev_rev_ident takeWhile_dropWhile_id)
  have "s = a @ t" by (simp add: a_def t_def)
  then have s: "s = a @ strip s @ b" unfolding t .
  have "\<forall>c \<in> set a \<union> set b. space_char c" by (auto simp: a_def b_def dest: set_takeWhileD)
  then have ab: "\<forall>c \<in> set (map lower_char a). \<not> letter c" "\<forall>c \<in> set (map lower_char b). \<not> letter c"
    using space_lower by auto
  have grow: "spells (map lower_char s) vs" if "spells (map lower_char (strip s)) vs" for vs
    using spells_prepend [OF spells_append [OF that ab(2)] ab(1)] s by (metis map_append)
  then show ?thesis using spells_exists spells_unique by metis
qed

lemma split_join:
  "\<forall>w \<in> set ws. w \<noteq> [] \<and> (\<forall>c \<in> set w. letter c) \<Longrightarrow> split_words (join_words ws) = ws"
proof (induction ws rule: join_words.induct)
  case (2 w)
  then show ?case using split_word [of w "[]"] by simp
next
  case (3 w v ws)
  then show ?case using split_word [of w "CHR '' '' # join_words (v # ws)"] by simp
qed simp

section \<open>What is published\<close>

text \<open>The words of a command, said with or without the callsign.\<close>

fun command_words :: "string \<Rightarrow> string list" where
  "command_words name = (if name = ''come_home'' then [''come'', ''home''] else [name])"

definition INTENTS :: "intent list" where
  "INTENTS = [LAUNCH, EXECUTE, COME_HOME, ABORT]"

definition commands :: "real \<Rightarrow> request \<Rightarrow> intent \<Rightarrow> bool" where
  "commands threshold q i \<longleftrightarrow>
     i \<in> set INTENTS \<and> \<not> sublist ''[unk]'' (heard_text q)
     \<and> (\<exists>ws. spells (map lower_char (heard_text q)) ws
          \<and> (ws = command_words (intent_name i) \<or> ws = ''jarvis'' # command_words (intent_name i)))
     \<and> (if heard_confidences q = [] then threshold \<le> 0 else \<forall>c \<in> set (heard_confidences q). threshold \<le> c)"

lemmas intent_defs = INTENTS_def LAUNCH_def EXECUTE_def COME_HOME_def ABORT_def

lemma command_words_of:
  "command_words (intent_name LAUNCH) = [''launch'']" "command_words (intent_name EXECUTE) = [''execute'']"
  "command_words (intent_name COME_HOME) = [''come'', ''home'']" "command_words (intent_name ABORT) = [''abort'']"
  by (simp_all add: intent_defs)

lemma which_intent:
  assumes "i \<in> set INTENTS"
  shows "command_words (intent_name i) = [''launch''] \<longleftrightarrow> i = LAUNCH"
    "command_words (intent_name i) = [''execute''] \<longleftrightarrow> i = EXECUTE"
    "command_words (intent_name i) = [''come'', ''home''] \<longleftrightarrow> i = COME_HOME"
    "command_words (intent_name i) = [''abort''] \<longleftrightarrow> i = ABORT"
    "command_words (intent_name i) \<in> {[''launch''], [''execute''], [''come'', ''home''], [''abort'']}"
proof -
  have "i = LAUNCH \<or> i = EXECUTE \<or> i = COME_HOME \<or> i = ABORT" using assms by (simp add: INTENTS_def)
  then show "command_words (intent_name i) = [''launch''] \<longleftrightarrow> i = LAUNCH"
    "command_words (intent_name i) = [''execute''] \<longleftrightarrow> i = EXECUTE"
    "command_words (intent_name i) = [''come'', ''home''] \<longleftrightarrow> i = COME_HOME"
    "command_words (intent_name i) = [''abort''] \<longleftrightarrow> i = ABORT"
    "command_words (intent_name i) \<in> {[''launch''], [''execute''], [''come'', ''home''], [''abort'']}"
    by (elim disjE; simp add: command_words_of del: command_words.simps; simp add: intent_defs)+
qed

lemma letters_lower: "\<forall>w \<in> {''launch'', ''execute'', ''come'', ''home'', ''abort'', ''jarvis''}. \<forall>c \<in> set w. letter c"
  by (simp add: letter_def code_of_def)

lemma phrase_words:
  assumes "\<forall>w \<in> set ws. w \<noteq> [] \<and> (\<forall>c \<in> set w. letter c)"
  shows "map_of PHRASES (join_words ws) = Some i \<longleftrightarrow> i \<in> set INTENTS \<and> ws = command_words (intent_name i)"
proof -
  have words: "\<forall>w \<in> set vs. w \<noteq> [] \<and> (\<forall>c \<in> set w. letter c)"
    if "vs \<in> {[''launch''], [''execute''], [''come'', ''home''], [''abort'']}" for vs
    using that letters_lower by auto
  have join: "join_words ws = join_words vs \<longleftrightarrow> ws = vs"
    if "vs \<in> {[''launch''], [''execute''], [''come'', ''home''], [''abort'']}" for vs
    using split_join [OF assms] split_join [OF words [OF that]] by metis
  have texts: "join_words ws = ''launch'' \<longleftrightarrow> ws = [''launch'']" "join_words ws = ''execute'' \<longleftrightarrow> ws = [''execute'']"
    "join_words ws = ''come home'' \<longleftrightarrow> ws = [''come'', ''home'']" "join_words ws = ''abort'' \<longleftrightarrow> ws = [''abort'']"
    using join [of "[''launch'']"] join [of "[''execute'']"] join [of "[''come'', ''home'']"] join [of "[''abort'']"] by simp_all
  have look: "map_of PHRASES n = (if n = ''launch'' then Some LAUNCH else if n = ''execute'' then Some EXECUTE
      else if n = ''come home'' then Some COME_HOME else if n = ''abort'' then Some ABORT else None)" for n
    by (simp add: PHRASES_def)
  have mem: "LAUNCH \<in> set INTENTS" "EXECUTE \<in> set INTENTS" "COME_HOME \<in> set INTENTS" "ABORT \<in> set INTENTS"
    by (simp_all add: INTENTS_def)
  show ?thesis
  proof (cases "ws \<in> {[''launch''], [''execute''], [''come'', ''home''], [''abort'']}")
    case True
    then show ?thesis
      using mem which_intent [of i] unfolding look texts insert_iff empty_iff
      by (elim disjE; simp del: command_words.simps; metis)
  next
    case False
    then show ?thesis using which_intent(5) [of i] unfolding look texts by auto
  qed
qed

lemma drop_callsign_words:
  "drop_callsign ws = command_words (intent_name i) \<and> i \<in> set INTENTS \<longleftrightarrow>
     i \<in> set INTENTS \<and> (ws = command_words (intent_name i) \<or> ws = ''jarvis'' # command_words (intent_name i))"
proof (cases "i \<in> set INTENTS")
  case True
  then have "command_words (intent_name i) \<noteq> []" "hd (command_words (intent_name i)) \<noteq> CALLSIGN"
    by (auto simp: INTENTS_def command_words_of CALLSIGN_def simp del: command_words.simps)
  then show ?thesis
    using True by (cases ws; cases "command_words (intent_name i)") (auto simp: drop_callsign_def CALLSIGN_def simp del: command_words.simps)
qed simp

lemma recognize_accepts:
  "match_outcome (recognize (heard_text q) (heard_confidences q) threshold) = Accepted i \<longleftrightarrow> commands threshold q i"
proof -
  obtain ws where ws: "spells (map lower_char (strip (heard_text q))) ws" using spells_exists by blast
  then have said: "spells (map lower_char (heard_text q)) vs \<longleftrightarrow> vs = ws" for vs
    using spells_strip spells_unique by metis
  have "\<forall>w \<in> set (drop_callsign ws). w \<noteq> [] \<and> (\<forall>c \<in> set w. letter c)"
    using spells_words [OF ws] by (cases ws) (auto simp: drop_callsign_def)
  from phrase_words [OF this, of i] have phrase: "map_of PHRASES (normalize (heard_text q)) = Some i \<longleftrightarrow>
      i \<in> set INTENTS \<and> (ws = command_words (intent_name i) \<or> ws = ''jarvis'' # command_words (intent_name i))"
    using drop_callsign_words [of ws i] by (auto simp: normalize_def spells_split [OF ws])
  have strong: "\<not> utterance_confidence cs < threshold \<longleftrightarrow> (if cs = [] then threshold \<le> 0 else \<forall>c \<in> set cs. threshold \<le> c)" for cs
    by (auto simp: utterance_confidence_def not_less)
  have "match_outcome (recognize (heard_text q) (heard_confidences q) threshold) = Accepted i \<longleftrightarrow>
      \<not> sublist UNKNOWN_TOKEN (heard_text q) \<and> map_of PHRASES (normalize (heard_text q)) = Some i
      \<and> \<not> utterance_confidence (heard_confidences q) < threshold"
    by (auto simp: recognize_def Let_def split: option.splits)
  then show ?thesis unfolding phrase strong commands_def said by (auto simp: UNKNOWN_TOKEN_def)
qed

lemma utterance_published:
  "published (fst (utterance threshold q g)) = published g @
     (case match_outcome (recognize (heard_text q) (heard_confidences q) threshold) of
        Accepted i \<Rightarrow> if subscribers q (intent_topic i) < expected_fleet_size g then [] else [intent_topic i]
      | Rejected _ \<Rightarrow> [])"
  "expected_fleet_size (fst (utterance threshold q g)) = expected_fleet_size g"
  "rep_accepted (snd (utterance threshold q g)) \<longleftrightarrow> published (fst (utterance threshold q g)) \<noteq> published g"
  by (auto simp: utterance_def Let_def publish_gate_def split: outcome.splits prod.splits)



text \<open>Over a session nothing but the four gates is ever published.\<close>

interpretation jarvis: machine "\<lambda>(g :: gates) (q :: request). fst (utterance threshold q g)" "\<lambda>g :: gates. set (published g) \<subseteq> intent_topic ` set INTENTS" for threshold
proof
  fix g :: gates and q :: request assume old: "set (published g) \<subseteq> intent_topic ` set INTENTS"
  have "i \<in> set INTENTS" if "match_outcome (recognize (heard_text q) (heard_confidences q) threshold) = Accepted i" for i
    using that recognize_accepts [of q threshold i] by (simp add: commands_def)
  then show "set (published (fst (utterance threshold q g))) \<subseteq> intent_topic ` set INTENTS"
    using old by (auto simp: utterance_published split: outcome.splits)
qed

lemma session_publishes_gates_only:
  assumes "mk_gates n = Inr g"
  shows "set (published (foldl (\<lambda>g q. fst (utterance threshold q g)) g qs)) \<subseteq> intent_topic ` set INTENTS"
  using assms by (intro jarvis.run_inv) (auto simp: mk_gates_def split: if_splits)

text \<open>A refused abort: with one drone of the fleet gone the gate stays silent for the others too.\<close>

lemma abort_needs_whole_fleet:
  assumes "subscribers q ''/abort_mission'' < expected_fleet_size g" "commands threshold q ABORT"
  shows "published (fst (utterance threshold q g)) = published g"
  using assms recognize_accepts [of q threshold ABORT] by (simp add: utterance_published ABORT_def)

lemma negated_launch_rejected:
  "match_outcome (recognize ''[unk] launch'' [1, 1] (1 / 2)) = Rejected OutOfVocabulary"
  by (simp add: recognize_def Let_def UNKNOWN_TOKEN_def sublist_code prefix_def)

end
