(* ===== verification/Dump.thy ===== *)
theory Dump
  imports Mission Anchor
begin

text \<open>
  The dump of a mission (\<open>mission_engine/core/dumpproto.py\<close>): the document built from the finalised mine log, the
  coverage and the statistics, and the length-prefixed frame that carries it. The JSON text of a document is not
  modelled: a frame carries the bytes of its body.
\<close>

section \<open>The document\<close>

record mine_entry =
  me_id :: string
  me_ll :: "point option"
  me_ll_per_pass :: "point list"
  me_local :: point
  me_spread_m :: real
  me_n_obs :: nat
  me_n_passes :: nat
  me_status :: mine_status
  me_tag :: "string option"

record engine_stats =
  st_detections :: nat
  st_dips :: int
  st_ekf_resets :: int

record dump_document =
  dd_drone :: string
  dd_mission :: string
  dd_takeoff :: real
  dd_time :: real
  dd_mines :: "mine_entry list"
  dd_coverage :: coverage
  dd_stats :: engine_stats
  dd_anchor :: anchor_report

definition mine_entry_of :: "string \<Rightarrow> cluster \<Rightarrow> mine_entry" where
  "mine_entry_of drone c =
     \<lparr>me_id = drone @ ''/'' @ show_nat (cluster_id c), me_ll = cluster_ll c, me_ll_per_pass = ll_per_pass c,
      me_local = centroid c, me_spread_m = spread_m c, me_n_obs = n_obs c, me_n_passes = n_passes c,
      me_status = status c, me_tag = (case tag_ids c of [] \<Rightarrow> None | t # _ \<Rightarrow> Some t)\<rparr>"

definition mission_stats :: "engine \<Rightarrow> engine_stats" where
  "mission_stats s = \<lparr>st_detections = n_ingested (mlog s), st_dips = dips_done s, st_ekf_resets = ekf_resets_seen s\<rparr>"

text \<open>\<open>build_payload\<close> finalises the log it is given.\<close>

definition build_payload ::
  "mine_log \<Rightarrow> string \<Rightarrow> string \<Rightarrow> real \<Rightarrow> real \<Rightarrow> coverage \<Rightarrow> engine_stats \<Rightarrow> anchor_report \<Rightarrow> dump_document \<times> mine_log" where
  "build_payload l drone mission takeoff now cov st ar =
     (let l1 = finalize l
      in (\<lparr>dd_drone = drone, dd_mission = mission, dd_takeoff = takeoff, dd_time = now,
           dd_mines = map (mine_entry_of drone) (clusters l1), dd_coverage = cov, dd_stats = st, dd_anchor = ar\<rparr>, l1))"

section \<open>The frame\<close>

text \<open>A \<open>bytes\<close> object is a list of 8-bit characters. \<open>int(b)\<close> strips white space and takes a sign and single underscores.\<close>

definition max_frame :: nat where "max_frame = 16 * 1024 * 1024"

definition newline :: char where "newline = char_of (10 :: nat)"

definition frame_of :: "string \<Rightarrow> string" where
  "frame_of body = show_nat (length body) @ [newline] @ body"

definition ascii_digit :: "char \<Rightarrow> bool" where
  "ascii_digit c \<longleftrightarrow> 48 \<le> (of_char c :: nat) \<and> (of_char c :: nat) \<le> 57"

definition ascii_space :: "char \<Rightarrow> bool" where
  "ascii_space c \<longleftrightarrow> (of_char c :: nat) = 32 \<or> 9 \<le> (of_char c :: nat) \<and> (of_char c :: nat) \<le> 13"

definition strip_spaces :: "string \<Rightarrow> string" where
  "strip_spaces s = rev (dropWhile ascii_space (rev (dropWhile ascii_space s)))"

fun py_digits :: "int \<Rightarrow> string \<Rightarrow> int option" where
  "py_digits acc [] = Some acc"
| "py_digits acc (c # cs) =
     (if ascii_digit c then py_digits (10 * acc + (int (of_char c) - 48)) cs
      else if c = CHR ''_'' \<and> cs \<noteq> [] \<and> ascii_digit (hd cs) then py_digits acc cs
      else None)"

definition unsigned_int :: "string \<Rightarrow> int option" where
  "unsigned_int s = (if s \<noteq> [] \<and> ascii_digit (hd s) then py_digits 0 s else None)"

definition int_of_bytes :: "string \<Rightarrow> int option" where
  "int_of_bytes s =
     (case strip_spaces s of
        [] \<Rightarrow> None
      | c # cs \<Rightarrow> if c = CHR ''+'' then unsigned_int cs
                  else if c = CHR ''-'' then map_option uminus (unsigned_int cs)
                  else unsigned_int (c # cs))"

definition split_frame :: "string \<Rightarrow> py_error + string \<times> string" where
  "split_frame data =
     (if newline \<notin> set data then Inl (ValueError ''no length prefix'')
      else
        let prefix = takeWhile (\<lambda>c. c \<noteq> newline) data; after = drop (length prefix + 1) data
        in case int_of_bytes prefix of
             None \<Rightarrow> Inl (ValueError ''invalid literal for int()'')
           | Some n \<Rightarrow>
               if \<not> (0 < n \<and> n \<le> int max_frame) then Inl (ValueError ''bad frame length'')
               else if int (length after) < n then Inl (ValueError ''short frame'')
               else Inr (take (nat n) after, drop (nat n) after))"

lemma digit_char_digit: "d < 10 \<Longrightarrow> ascii_digit (digit_char d) \<and> of_char (digit_char d) = 48 + d"
  by (simp add: digit_char_def ascii_digit_def)

lemma show_nat_digits: "list_all ascii_digit (show_nat n)"
proof (induction n rule: show_nat.induct)
  case (1 n)
  then show ?case using digit_char_digit by (subst show_nat.simps) auto
qed

lemma py_digits_append:
  "list_all ascii_digit xs \<Longrightarrow> py_digits acc (xs @ ys) = (case py_digits acc xs of None \<Rightarrow> None | Some a \<Rightarrow> py_digits a ys)"
  by (induction xs arbitrary: acc) auto

lemma py_digits_show: "py_digits 0 (show_nat n) = Some (int n)"
proof (induction n rule: show_nat.induct)
  case (1 n)
  show ?case
  proof (cases "n < 10")
    case True
    then show ?thesis using digit_char_digit [of n] by (subst show_nat.simps) simp
  next
    case False
    have "10 * int (n div 10) + int (n mod 10) = int n" by (metis mult_div_mod_eq of_nat_add of_nat_mult of_nat_numeral)
    then show ?thesis
      using False 1 digit_char_digit [of "n mod 10"]
      by (subst show_nat.simps) (simp add: py_digits_append [OF show_nat_digits])
  qed
qed

lemma digit_not_space: "ascii_digit c \<Longrightarrow> \<not> ascii_space c \<and> c \<noteq> CHR ''+'' \<and> c \<noteq> CHR ''-'' \<and> c \<noteq> newline"
  by (auto simp: ascii_digit_def ascii_space_def newline_def)

lemma int_of_digits:
  assumes "list_all ascii_digit s" "s \<noteq> []"
  shows "int_of_bytes s = py_digits 0 s"
proof -
  have d: "ascii_digit (hd s)" "ascii_digit (last s)" using assms by (auto simp: list_all_iff)
  have "dropWhile ascii_space s = s" using d(1) assms(2) digit_not_space by (cases s) auto
  moreover have "dropWhile ascii_space (rev s) = rev s"
    using d(2) assms(2) digit_not_space by (cases s rule: rev_cases) auto
  ultimately have "strip_spaces s = s" by (simp add: strip_spaces_def)
  then show ?thesis
    using d(1) assms(2) digit_not_space [OF d(1)] by (cases s) (auto simp: int_of_bytes_def unsigned_int_def)
qed

lemma frame_prefix: "takeWhile (\<lambda>c. c \<noteq> newline) (frame_of body @ rest) = show_nat (length body)"
proof -
  have "\<forall>c \<in> set (show_nat (length body)). c \<noteq> newline"
    using show_nat_digits [of "length body"] digit_not_space by (auto simp: list_all_iff)
  then show ?thesis by (simp add: frame_of_def)
qed

text \<open>
  Claim C37: a frame is read back from the front of whatever follows it. Splitting the framed body followed by any bytes
  gives that body and those bytes if the body is neither empty nor larger than the 16 MiB a reader accepts, and otherwise
  is refused: the writer does not check the limit its reader has.
\<close>

theorem frame_roundtrip:
  "split_frame (frame_of body @ rest) =
     (if body \<noteq> [] \<and> length body \<le> max_frame then Inr (body, rest) else Inl (ValueError ''bad frame length''))"
proof -
  have n: "int_of_bytes (show_nat (length body)) = Some (int (length body))"
    using int_of_digits [OF show_nat_digits, of "length body"] by (simp add: py_digits_show)
  have "newline \<in> set (frame_of body @ rest)" "drop (length (show_nat (length body)) + 1) (frame_of body @ rest) = body @ rest"
    by (simp_all add: frame_of_def)
  then show ?thesis by (auto simp: split_frame_def frame_prefix n Let_def)
qed

end
