(* ===== verification/Engine_Node.thy ===== *)
theory Engine_Node
  imports Mission_Node Dump Backproject
begin

text \<open>
  The ROS rim of the mission engine (\<open>mission_engine/rim/engine_node.py\<close>): the flight node that hosts the mission
  engine on the offboard controller, feeds it detections, measures the drift of the flight frame with the tag anchor,
  applies the setpoint correction, cuts the motors on the ground and hands the landing off. One clock reading per
  callback; the log lines, the artefact on disk and the socket are left out, the answer of the master is an argument of
  the tick, and a numeric message of an abort is its constant part.
\<close>

section \<open>Parameters\<close>

record rim_params =
  rp_pattern :: string
  rp_lane_length :: metres
  rp_n_lanes :: int
  rp_lane_spacing :: metres
  rp_lane_heading_deg :: real
  rp_lanes_offset :: "real list"
  rp_rosette_radius :: metres
  rp_outer_hold :: seconds
  rp_center_hold :: seconds
  rp_petals :: int
  rp_survey_alt :: metres
  rp_lane_speed :: m_per_s
  rp_heading_rate_deg :: real
  rp_reach_tol :: metres
  rp_land_settle :: seconds
  rp_land_speed_tol :: m_per_s
  rp_fence_radius :: metres
  rp_field_polygon :: "real list"
  rp_require_polygon :: bool
  rp_field_margin :: metres
  rp_gps_max_age :: seconds
  rp_gps_max_eph :: metres
  rp_mission_timeout :: seconds
  rp_max_dips :: int
  rp_detector_silence :: seconds
  rp_fx :: real
  rp_width :: int
  rp_height :: int
  rp_camera_roll_deg :: real
  rp_camera_tilt_deg :: real
  rp_anchor_gate :: metres
  rp_anchor_persist :: seconds
  rp_anchor_radial :: metres
  rp_anchor_tags :: "int list"
  rp_anchor_aborts :: bool
  rp_anchor_corrects :: bool
  rp_correction_rate :: m_per_s
  rp_correction_max :: metres
  rp_correction_fresh :: seconds
  rp_correction_pair_error :: metres
  rp_correction_settle :: metres
  rp_drone :: string
  rp_mission :: string
  rp_dump_host :: string

text \<open>The declared defaults; the mission identifier then defaults to the date.\<close>

definition declared_rim :: rim_params where
  "declared_rim = \<lparr>rp_pattern = ''serpentine'', rp_lane_length = 10, rp_n_lanes = 3, rp_lane_spacing = 3,
     rp_lane_heading_deg = 180, rp_lanes_offset = [0, - 3], rp_rosette_radius = 3 / 2, rp_outer_hold = 1 / 2,
     rp_center_hold = 1 / 2, rp_petals = int (length rosette_headings_deg), rp_survey_alt = 4, rp_lane_speed = 1,
     rp_heading_rate_deg = 30, rp_reach_tol = 1 / 4, rp_land_settle = 3, rp_land_speed_tol = 20 / 100,
     rp_fence_radius = 12, rp_field_polygon = [], rp_require_polygon = False, rp_field_margin = 0, rp_gps_max_age = 2,
     rp_gps_max_eph = 5 / 2, rp_mission_timeout = 300, rp_max_dips = 0, rp_detector_silence = 0,
     rp_fx = 129869385194 / 10 ^ 8, rp_width = 1640, rp_height = 1232, rp_camera_roll_deg = 0, rp_camera_tilt_deg = 0,
     rp_anchor_gate = 3 / 2, rp_anchor_persist = 1, rp_anchor_radial = 3, rp_anchor_tags = [6, 7],
     rp_anchor_aborts = True, rp_anchor_corrects = False, rp_correction_rate = 30 / 100, rp_correction_max = 5,
     rp_correction_fresh = 1 / 2, rp_correction_pair_error = 1 / 4, rp_correction_settle = 1 / 10,
     rp_drone = ''drone4'', rp_mission = ''default'', rp_dump_host = []\<rparr>"

section \<open>State\<close>

text \<open>A \<open>None\<close> is a value that is not finite.\<close>

record gps_fix =
  fix_3d :: bool
  fix_eph :: "real option"
  fix_lat :: "real option"
  fix_lon :: "real option"

record rim =
  en_par :: rim_params
  en_cam :: camera_model
  en_anchor :: tag_map
  en_corr :: correction
  en_poses :: pose_history
  en_engine :: "engine option"
  en_q :: quat
  en_agl :: "metres option"
  en_agl_t :: seconds
  en_airborne :: bool
  en_ground_t0 :: "seconds option"
  en_cut :: bool
  en_cut_us :: int
  en_begun :: bool
  en_dumped :: bool
  en_land_requested :: bool
  en_gps :: "gps_fix option"
  en_gps_us :: int
  en_launch :: "(point \<times> point) option"
  en_dumps :: "dump_document list"

definition crash_disarm_range_m :: metres where "crash_disarm_range_m = 10 / 100"
definition crash_disarm_hold_s :: seconds where "crash_disarm_hold_s = 10 / 100"
definition crash_disarm_retry_us :: int where "crash_disarm_retry_us = 100000"

definition clock_s :: "int \<Rightarrow> seconds" where "clock_s now = of_int now / 1000000"

definition degrees :: "real \<Rightarrow> real" where "degrees x = x * 180 / pi"

definition rim_camera :: "rim_params \<Rightarrow> py_error + camera_model" where
  "rim_camera p =
     (if rp_fx p = 0 then Inl ZeroDivisionError
      else
        let c = \<lparr>width_px = rp_width p, height_px = rp_height p,
                 hfov_deg = degrees (2 * arctan (1 / 2 * of_int (rp_width p) / rp_fx p)), tilt_deg = rp_camera_tilt_deg p\<rparr>
        in bindE (check_camera c) (\<lambda>_. Inr c))"

definition rim_anchor_config :: "rim_params \<Rightarrow> anchor_config" where
  "rim_anchor_config p = anchor_config_of (rp_anchor_gate p) (rp_anchor_persist p) (rp_anchor_radial p) (rp_survey_alt p + 2)"

definition rim_correction_config :: "rim_params \<Rightarrow> correction_config" where
  "rim_correction_config p = \<lparr>max_rate_mps = rp_correction_rate p, max_correction_m = rp_correction_max p\<rparr>"

text \<open>The constructor raises what the checks of its parts raise.\<close>

definition new_rim :: "rim_params \<Rightarrow> py_error + rim" where
  "new_rim p =
     bindE (rim_camera p) (\<lambda>cam.
     bindE (check_anchor_config (rim_anchor_config p)) (\<lambda>_.
     bindE (check_correction (rim_correction_config p)) (\<lambda>_.
     Inr \<lparr>en_par = p, en_cam = cam, en_anchor = new_tag_map (rim_anchor_config p),
          en_corr = new_correction (rim_correction_config p), en_poses = \<lparr>horizon_s = 5, ts = [], snaps = []\<rparr>,
          en_engine = None, en_q = (1, 0, 0, 0), en_agl = None, en_agl_t = 0, en_airborne = False, en_ground_t0 = None,
          en_cut = False, en_cut_us = 0, en_begun = False, en_dumped = False, en_land_requested = False, en_gps = None,
          en_gps_us = 0, en_launch = None, en_dumps = []\<rparr>)))"

text \<open>The start gate is closed whatever the parameter file says.\<close>

definition rim_controller :: "ctl_params \<Rightarrow> controller" where
  "rim_controller cp = mk_controller (cp\<lparr>p_wait_for_start := True\<rparr>)"

definition with_engine :: "(engine \<Rightarrow> engine) \<Rightarrow> rim \<Rightarrow> rim" where
  "with_engine f m = m\<lparr>en_engine := map_option f (en_engine m)\<rparr>"

section \<open>The mission configuration\<close>

fun pair_up :: "real list \<Rightarrow> point list" where
  "pair_up (a # b # xs) = (a, b) # pair_up xs"
| "pair_up _ = []"

definition field_polygon_ne :: "rim \<Rightarrow> py_error + point list" where
  "field_polygon_ne m =
     (let raw = rp_field_polygon (en_par m)
      in if raw = [] then
           (if rp_require_polygon (en_par m)
            then Inl (ValueError ''field_polygon_gps is required; enter the four surveyed corners'') else Inr [])
         else if length raw \<noteq> 8
         then Inl (ValueError ''field_polygon_gps must contain exactly four finite lat/lon pairs'')
         else case en_launch m of
                None \<Rightarrow> Inl (ValueError ''field_polygon_gps requires a qualified raw GPS launch fix'')
              | Some ((launch_lat, launch_lon), (launch_n, launch_e)) \<Rightarrow>
                  let lon_scale = m_per_deg_lat * cos (radians launch_lat)
                  in Inr (map (\<lambda>(lat, lon). (launch_n + (lat - launch_lat) * m_per_deg_lat,
                                             launch_e + (lon - launch_lon) * lon_scale)) (pair_up raw)))"

definition rim_mission_config :: "point \<Rightarrow> rim \<Rightarrow> py_error + mission_config" where
  "rim_mission_config anchor m =
     (let p = en_par m
      in bindE (field_polygon_ne m) (\<lambda>polygon.
         bindE (item (rp_lanes_offset p) 0) (\<lambda>off_n.
         bindE (item (rp_lanes_offset p) 1) (\<lambda>off_e.
         Inr \<lparr>pattern = rp_pattern p, lanes_origin = (fst anchor + off_n, snd anchor + off_e),
              cfg_lane_length = rp_lane_length p, n_lanes = rp_n_lanes p, lane_spacing = rp_lane_spacing p,
              lane_heading_deg = rp_lane_heading_deg p, survey_alt_m = rp_survey_alt p, lane_speed = rp_lane_speed p,
              rosette_radius_m = rp_rosette_radius p, rosette_outer_hold_s = rp_outer_hold p,
              rosette_center_hold_s = rp_center_hold p, rosette_petals = rp_petals p, climb_speed = 3 / 2,
              descent_speed = 8 / 10, reach_tol_m = rp_reach_tol p, sync_duration_s = 12 / 10, egress_point = anchor,
              land_settle_s = rp_land_settle p, land_speed_tol_mps = rp_land_speed_tol p, dip_hover_s = 2,
              max_dips = rp_max_dips p, detector_silence_s = rp_detector_silence p, reset_storm_count = 3,
              dump_retry_limit = 3, fence_radius_m = rp_fence_radius p, fence_polygon_ne = polygon,
              fence_margin_m = rp_field_margin p, mission_timeout_s = rp_mission_timeout p\<rparr>))))"

section \<open>Inputs\<close>

definition gps_cb :: "int \<Rightarrow> gps_fix \<Rightarrow> rim \<Rightarrow> rim" where
  "gps_cb now fix m = m\<lparr>en_gps := Some fix, en_gps_us := now\<rparr>"

datatype gps_refusal = NoFix | StaleFix | No3dFix | BadEph | BadPosition

definition qualified_launch_gps :: "int \<Rightarrow> rim \<Rightarrow> gps_refusal + point" where
  "qualified_launch_gps now m =
     (case en_gps m of
        None \<Rightarrow> Inl NoFix
      | Some g \<Rightarrow>
          if clock_s (now - en_gps_us m) > rp_gps_max_age (en_par m) then Inl StaleFix
          else if \<not> fix_3d g then Inl No3dFix
          else if (case fix_eph g of None \<Rightarrow> True | Some e \<Rightarrow> e > rp_gps_max_eph (en_par m)) then Inl BadEph
          else case (fix_lat g, fix_lon g) of
                 (Some lat, Some lon) \<Rightarrow> Inr (lat, lon)
               | _ \<Rightarrow> Inl BadPosition)"

type_synonym engine_node = "controller \<times> rim"

definition rim_start_cb :: "int \<Rightarrow> bool \<Rightarrow> engine_node \<Rightarrow> engine_node" where
  "rim_start_cb now data n =
     (case n of (s, m) \<Rightarrow>
        if data \<and> \<not> start_ok s \<and> rp_require_polygon (en_par m)
        then (case qualified_launch_gps now m of
                Inl r \<Rightarrow> (s, m)
              | Inr fix \<Rightarrow> (start_cb data s, m\<lparr>en_launch := Some (fix, (cx s, cy s))\<rparr>))
        else (start_cb data s, m))"

definition rim_att_cb :: "quat \<Rightarrow> engine_node \<Rightarrow> engine_node" where
  "rim_att_cb q n =
     (case (q, n) of ((w, x, y, z), (s, m)) \<Rightarrow>
        (att_cb q s, if w * w + x * x + y * y + z * z > 1 / 4 then m\<lparr>en_q := q\<rparr> else m))"

definition agl_now :: "int \<Rightarrow> engine_node \<Rightarrow> metres" where
  "agl_now now n =
     (case n of (s, m) \<Rightarrow>
        case en_agl m of
          Some a \<Rightarrow> if clock_s now - en_agl_t m < 1 then a else max 0 (- (cz s - launch_z s))
        | None \<Rightarrow> max 0 (- (cz s - launch_z s)))"

definition push_pose :: "int \<Rightarrow> engine_node \<Rightarrow> rim" where
  "push_pose now n =
     (case n of (s, m) \<Rightarrow>
        let snap = \<lparr>pose_t = clock_s now, pose_pos = (cx s, cy s, cz s - launch_z s), pose_q = en_q m,
                    pose_reset_counter = 0, pose_ll = None, pose_agl = Some (agl_now now n)\<rparr>
        in case append_pose (en_poses m) snap of Inl _ \<Rightarrow> m | Inr h \<Rightarrow> m\<lparr>en_poses := h\<rparr>)"

definition rim_frame_reset :: "real \<times> real \<Rightarrow> real \<Rightarrow> rim \<Rightarrow> rim" where
  "rim_frame_reset d dh m =
     (let m1 = (if en_engine m = None
                then m\<lparr>en_launch := map_option (\<lambda>(ll, (n, e)). (ll, (n + fst d, e + snd d))) (en_launch m)\<rparr> else m);
          m2 = m1\<lparr>en_anchor := anchor_frame_reset (fst d) (snd d) (en_anchor m1), en_poses := clear_poses (en_poses m1)\<rparr>
      in if en_engine m2 = None then m2
         else with_engine (apply_heading_reset dh) (m2\<lparr>en_corr := correction_frame_reset (fst d) (snd d) (en_corr m2)\<rparr>))"

text \<open>The part of \<open>_pos_cb\<close> after the base class's: \<open>height\<close> is a valid fused height.\<close>

definition after_pos :: "int \<Rightarrow> local_position \<Rightarrow> metres option \<Rightarrow> engine_node \<Rightarrow> rim" where
  "after_pos now msg height n =
     (case n of (s, m) \<Rightarrow>
        let m1 = (case height of None \<Rightarrow> m | Some d \<Rightarrow> m\<lparr>en_agl := Some d, en_agl_t := clock_s now\<rparr>);
            m2 = with_engine (note_reset_counter (fst (lp_counters msg))) m1
        in push_pose now (s, m2))"

text \<open>The range finder.\<close>

record range_msg =
  rg_distance :: metres
  rg_min :: metres
  rg_max :: metres

definition tilt_from_level :: "quat \<Rightarrow> radians" where
  "tilt_from_level q = (case q of (w, x, y, z) \<Rightarrow> arccos (max (- 1) (min 1 (1 - 2 * (x * x + y * y)))))"

definition watch_ground :: "int \<Rightarrow> range_msg \<Rightarrow> engine_node \<Rightarrow> rim" where
  "watch_ground now r n =
     (case n of (s, m0) \<Rightarrow>
        let d = rg_distance r;
            m = (if is_armed s \<and> d \<ge> rg_min r then m0\<lparr>en_airborne := True\<rparr> else m0)
        in if is_armed s \<and> en_airborne m \<and> d \<le> crash_disarm_range_m
           then (case en_ground_t0 m of
                   None \<Rightarrow> m\<lparr>en_ground_t0 := Some (clock_s now)\<rparr>
                 | Some t0 \<Rightarrow> if clock_s now - t0 \<ge> crash_disarm_hold_s then m\<lparr>en_cut := True\<rparr> else m)
           else m\<lparr>en_ground_t0 := None\<rparr>)"

definition cuts_now :: "int \<Rightarrow> engine_node \<Rightarrow> bool" where
  "cuts_now now n =
     (case n of (s, m) \<Rightarrow> en_cut m \<and> is_armed s \<and> now - en_cut_us m \<ge> crash_disarm_retry_us)"

definition dist_cb :: "int \<Rightarrow> range_msg \<Rightarrow> engine_node \<Rightarrow> engine_node" where
  "dist_cb now r n =
     (case n of (s, m) \<Rightarrow>
        let m1 = watch_ground now r n;
            (s1, m2) = (if cuts_now now (s, m1) then (command_disarm True s, m1\<lparr>en_cut_us := now\<rparr>) else (s, m1))
        in (s1, if rg_min r \<le> rg_distance r \<and> rg_distance r \<le> rg_max r
                then m2\<lparr>en_agl := Some (rg_distance r * cos (tilt_from_level (en_q m2))), en_agl_t := clock_s now\<rparr>
                else m2))"

section \<open>Detections\<close>

record detection =
  dt_id :: string
  dt_results :: "(string \<times> real) list"
  dt_pixel :: "real \<times> real"

definition unroll :: "rim \<Rightarrow> real \<times> real \<Rightarrow> real \<times> real" where
  "unroll m pixel =
     (let roll = radians (rp_camera_roll_deg (en_par m))
      in if roll = 0 then pixel
         else
           let c = cos (- roll); s = sin (- roll);
               du = fst pixel - cam_cx (en_cam m); dv = snd pixel - cam_cy (en_cam m)
           in (cam_cx (en_cam m) + c * du - s * dv, cam_cy (en_cam m) + s * du + c * dv))"

definition tag_prefix :: string where "tag_prefix = ''tag36h11:''"

definition tag_of :: "detection \<Rightarrow> string option" where
  "tag_of det = (if take (length tag_prefix) (dt_id det) = tag_prefix then Some (dt_id det) else None)"

definition anchor_tag_ids :: "rim_params \<Rightarrow> string list" where
  "anchor_tag_ids p = map (\<lambda>i. tag_prefix @ show_int i) (rp_anchor_tags p)"

definition anchor_verdict :: "rim \<Rightarrow> rim" where
  "anchor_verdict m =
     (case en_engine m of
        None \<Rightarrow> m
      | Some e \<Rightarrow>
          if phase e \<in> {ABORT, LAND, phase.DONE} then m
          else if rp_anchor_corrects (en_par m) then
            (if saturated (en_corr m) then with_engine (request_abort ''drift exceeds the correction limit'') m else m)
          else if rp_anchor_aborts (en_par m) then with_engine (request_abort ''tag anchor disagreement'') m
          else m)"

definition observe_anchor :: "seconds \<Rightarrow> string \<Rightarrow> point \<Rightarrow> pose \<Rightarrow> rim \<Rightarrow> rim" where
  "observe_anchor t tag fix snap m =
     (let nadir = (fst (pose_pos snap), fst (snd (pose_pos snap)));
          a = snd (observe t tag fix nadir (case pose_agl snap of None \<Rightarrow> 0 | Some h \<Rightarrow> h) (en_anchor m));
          (reason, a1) = disagreement t a;
          m1 = m\<lparr>en_anchor := a1\<rparr>
      in if reason = None then m1 else anchor_verdict m1)"

definition detect :: "seconds \<Rightarrow> pose \<Rightarrow> detection \<Rightarrow> rim \<Rightarrow> rim" where
  "detect t snap det m =
     (case dt_results det of
        [] \<Rightarrow> m
      | (cls, score) # _ \<Rightarrow>
          case make_observation (en_cam m) snap t (unroll m (dt_pixel det)) score cls (tag_of det) of
            None \<Rightarrow> m
          | Some obs \<Rightarrow>
              let m1 = with_engine (\<lambda>e. e\<lparr>mlog := snd (ingest obs (mlog e))\<rparr>) m
              in case tag_of det of
                   None \<Rightarrow> m1
                 | Some tag \<Rightarrow>
                     if rp_anchor_tags (en_par m) = [] \<or> tag \<in> set (anchor_tag_ids (en_par m))
                     then observe_anchor t tag (ground_local obs) snap m1 else m1)"

definition detections_cb :: "int \<Rightarrow> seconds \<Rightarrow> detection list \<Rightarrow> rim \<Rightarrow> rim" where
  "detections_cb now t dets m =
     (case nearest_pose t (en_poses m) of
        None \<Rightarrow> m
      | Some snap \<Rightarrow> fold (detect t snap) dets (with_engine (note_detector_alive (clock_s now)) m))"

section \<open>The gates\<close>

definition begin_cb :: "bool \<Rightarrow> engine_node \<Rightarrow> py_error + engine_node" where
  "begin_cb data n =
     (case n of (s, m) \<Rightarrow>
        if \<not> data \<or> en_begun m \<or> ctl s \<noteq> ACTIVE then Inr (s, m)
        else
          case bindE (rim_mission_config (cx s, cy s) m) (\<lambda>c. mk_engine c (new_log 1 5 5 2) (launch_yaw s)) of
            Inl (ValueError _) \<Rightarrow> Inr (s, m)
          | Inl x \<Rightarrow> Inl x
          | Inr e \<Rightarrow>
              Inr (enable_goto_setpoints (lane_speed (cfg e)) (Some (max (climb_speed (cfg e)) (descent_speed (cfg e))))
                     (Some (radians (rp_heading_rate_deg (en_par m)))) s,
                   m\<lparr>en_begun := True, en_engine := Some (start e)\<rparr>))"

definition rim_return_home :: "int \<Rightarrow> rim \<Rightarrow> py_error + (mission_call list \<times> rim)" where
  "rim_return_home now m = Inr ([], with_engine (request_abort ''operator end_mission'') m)"

section \<open>Output\<close>

definition deliver_dump :: "bool \<Rightarrow> int \<Rightarrow> engine \<Rightarrow> rim \<Rightarrow> py_error + rim" where
  "deliver_dump acked now e m =
     bindE (coverage_report e) (\<lambda>cov.
       let (doc, l) = build_payload (mlog e) (rp_drone (en_par m)) (rp_mission (en_par m))
                        (case t_takeoff e of None \<Rightarrow> 0 | Some t \<Rightarrow> t) (clock_s now) cov (mission_stats e)
                        (anchor_summary (en_anchor m));
           ok = (rp_dump_host (en_par m) = [] \<or> acked)
       in Inr (m\<lparr>en_dumped := True, en_dumps := en_dumps m @ [doc],
                 en_engine := Some (notify_dump_result ok (e\<lparr>mlog := l\<rparr>))\<rparr>))"

definition on_phase :: "bool \<Rightarrow> int \<Rightarrow> engine \<Rightarrow> controller \<Rightarrow> rim \<Rightarrow> py_error + (mission_call list \<times> rim)" where
  "on_phase acked now e s m =
     bindE (if phase e = DUMP \<and> \<not> en_dumped m then deliver_dump acked now e m else Inr (m\<lparr>en_engine := Some e\<rparr>)) (\<lambda>m1.
       Inr (if (phase e = LAND \<or> phase e = phase.DONE) \<and> \<not> en_land_requested m1 \<and> xy_valid s \<and> v_xy_valid s
            then ([CallLand], m1\<lparr>en_land_requested := True\<rparr>) else ([], m1)))"

text \<open>A tag detector that has seen no tag yet has no authority over the setpoint.\<close>

definition anchor_active :: "rim \<Rightarrow> bool" where
  "anchor_active m = (rp_anchor_corrects (en_par m) \<and> dom (refs (en_anchor m)) \<noteq> {})"

definition correction_measurement :: "seconds \<Rightarrow> rim \<Rightarrow> anchor_transform option" where
  "correction_measurement t m =
     (if anchor_active m
      then drift t 2 (Some (rp_correction_fresh (en_par m))) (Some (rp_correction_pair_error (en_par m))) (en_anchor m)
      else None)"

definition corrected :: "seconds \<Rightarrow> rim \<Rightarrow> correction" where
  "corrected t m = update_correction t (correction_measurement t m) (en_corr m)"

definition anchor_ready :: "seconds \<Rightarrow> rim \<Rightarrow> bool" where
  "anchor_ready t m =
     (\<not> anchor_active m
      \<or> correction_measurement t m \<noteq> None \<and> \<not> saturated (corrected t m)
        \<and> pending_m (corrected t m) \<le> rp_correction_settle (en_par m))"

definition flight_setpoint :: "correction \<Rightarrow> setpoint \<Rightarrow> axis list" where
  "flight_setpoint c sp =
     (let out = to_flight c (fst (sp_pos sp), fst (snd (sp_pos sp)))
      in [Some (fst out), Some (snd out), Some (snd (snd (sp_pos sp))), sp_yaw sp])"

definition engine_tick :: "int \<Rightarrow> controller \<Rightarrow> rim \<Rightarrow> engine \<Rightarrow> py_error + setpoint option \<times> engine" where
  "engine_tick now s m e =
     (let t = clock_s now; p = to_plan (corrected t m) (cx s, cy s)
      in tick t (fst p, snd p, cz s - launch_z s) (cvx s, cvy s, cvz s) (xy_valid s \<and> v_xy_valid s) (anchor_ready t m) e)"

definition rim_setpoint :: "bool \<Rightarrow> int \<Rightarrow> controller \<Rightarrow> rim \<Rightarrow> py_error + (mission_answer \<times> rim)" where
  "rim_setpoint acked now s m =
     (case en_engine m of
        None \<Rightarrow> Inr (([], None), m)
      | Some e \<Rightarrow>
          bindE (engine_tick now s m e) (\<lambda>(sp, e1).
          bindE (on_phase acked now e1 s (m\<lparr>en_corr := corrected (clock_s now) m\<rparr>)) (\<lambda>(calls, m1).
            Inr ((calls, map_option (flight_setpoint (corrected (clock_s now) m)) sp), m1))))"

section \<open>The node\<close>

definition rim_hooks :: "bool \<Rightarrow> rim hooks" where
  "rim_hooks acked = \<lparr>hk_compute = rim_setpoint acked, hk_link_acquired = (\<lambda>now m s. s),
     hk_active_start = (\<lambda>now s m. m), hk_return_home = rim_return_home, hk_frame_reset = rim_frame_reset\<rparr>"

text \<open>The subscriptions the node inherits unchanged.\<close>

fun inherited :: "ctl_event \<Rightarrow> bool" where
  "inherited (Status now n a f) = True"
| "inherited (GlobalPosition l a) = True"
| "inherited (AbortGate b) = True"
| "inherited _ = False"

datatype engine_event =
    RimBase ctl_event
  | RimAttitude quat
  | RimPosition int local_position "metres option"
  | RimGps int gps_fix
  | RimStart int bool
  | RimRange int range_msg
  | RimDetections int seconds "detection list"
  | RimBegin bool
  | RimEnd int bool
  | RimTick int bool

definition engine_step :: "engine_node \<Rightarrow> engine_event \<Rightarrow> py_error + engine_node" where
  "engine_step n ev =
     (case ev of
        RimBase b \<Rightarrow> if inherited b then hosted_callback (rim_hooks True) b n else Inr n
      | RimAttitude q \<Rightarrow> Inr (rim_att_cb q n)
      | RimPosition now msg height \<Rightarrow>
          bindE (hosted_callback (rim_hooks True) (LocalPosition now msg) n) (\<lambda>n1. Inr (fst n1, after_pos now msg height n1))
      | RimGps now g \<Rightarrow> Inr (fst n, gps_cb now g (snd n))
      | RimStart now b \<Rightarrow> Inr (rim_start_cb now b n)
      | RimRange now r \<Rightarrow> Inr (dist_cb now r n)
      | RimDetections now t dets \<Rightarrow> Inr (fst n, detections_cb now t dets (snd n))
      | RimBegin b \<Rightarrow> begin_cb b n
      | RimEnd now b \<Rightarrow> hosted_end (rim_hooks True) now b n
      | RimTick now acked \<Rightarrow> hosted_tick (rim_hooks acked) now n)"

end
