(* ===== verification/Engine_Node_Properties.thy ===== *)
theory Engine_Node_Properties
  imports Engine_Node Mission_Node_Properties Mission_Properties
begin

text \<open>
  What the rim guarantees: in flight it raises nothing, its setpoints keep the fence of the mission up to the bounded
  correction, resets of the flight frame are invisible to the mission, the motors are cut only after a touchdown the
  range finder saw. And what it does not: a dump that was not acknowledged is never sent again.
\<close>

section \<open>Refused configurations\<close>

definition raises_only :: "('e \<Rightarrow> bool) \<Rightarrow> 'e + 'a \<Rightarrow> bool" where
  "raises_only P r \<longleftrightarrow> (case r of Inl e \<Rightarrow> P e | Inr x \<Rightarrow> True)"

lemma raises_only_simps [simp]: "raises_only P (Inr x)" "raises_only P (Inl e) = P e"
  by (simp_all add: raises_only_def)

lemma raises_only_bind: "raises_only P r \<Longrightarrow> (\<And>x. r = Inr x \<Longrightarrow> raises_only P (f x)) \<Longrightarrow> raises_only P (bindE r f)"
  by (cases r) simp_all

lemma raises_only_map: "(\<And>x. raises_only P (f x)) \<Longrightarrow> raises_only P (mapE f xs)"
  by (induction xs) (auto intro!: raises_only_bind)

definition value_error :: "py_error \<Rightarrow> bool" where
  "value_error e \<longleftrightarrow> (\<exists>msg. e = ValueError msg)"

lemma value_error_simps [simp]: "value_error (ValueError msg)" "\<not> value_error IndexError" "\<not> value_error (RuntimeError msg)"
  "\<not> value_error (TypeError msg)" "\<not> value_error ZeroDivisionError"
  by (simp_all add: value_error_def)

lemma geometry_refuses:
  "raises_only value_error (shift_edge side margin sg)" "raises_only value_error (meet_edges es)"
  "raises_only value_error (serpentine orig len n sp h)" "raises_only value_error (polygon_serpentine polygon sp)"
  by (simp_all add: shift_edge_def meet_edges_def serpentine_def polygon_serpentine_def Let_def split: prod.split)

lemma inset_refuses: "raises_only value_error (inset_convex_polygon polygon margin)"
  by (auto simp: inset_convex_polygon_def Let_def intro!: raises_only_bind raises_only_map geometry_refuses)

lemma check_config_refuses: "raises_only value_error (check_config c)"
  by (simp add: check_config_def)

lemma mk_engine_refuses: "raises_only value_error (mk_engine c l y)"
  unfolding mk_engine_def
  by (intro raises_only_bind check_config_refuses) (simp_all add: inset_refuses geometry_refuses)

lemma field_polygon_refuses: "raises_only value_error (field_polygon_ne m)"
  by (simp add: field_polygon_ne_def Let_def split: option.split prod.split)

text \<open>A parameter file with a malformed lane offset is the one that is not refused but raises in flight.\<close>

definition complete_offset :: "rim_params \<Rightarrow> bool" where
  "complete_offset p \<longleftrightarrow> 2 \<le> length (rp_lanes_offset p)"

lemma mission_config_refuses: "complete_offset (en_par m) \<Longrightarrow> raises_only value_error (rim_mission_config a m)"
  unfolding rim_mission_config_def Let_def complete_offset_def
  by (intro raises_only_bind field_polygon_refuses) (auto simp: item_def)

lemma short_offset_crashes:
  assumes "rp_field_polygon (en_par m) = []" "\<not> rp_require_polygon (en_par m)" "\<not> complete_offset (en_par m)"
    and "\<not> en_begun m" "ctl s = ACTIVE"
  shows "engine_step (s, m) (RimBegin True) = Inl IndexError"
proof -
  have "rim_mission_config (cx s, cy s) m = Inl IndexError"
    using assms(1-3) by (simp add: rim_mission_config_def field_polygon_ne_def complete_offset_def item_def Let_def)
  then show ?thesis using assms(4,5) by (simp add: engine_step_def begin_cb_def)
qed

section \<open>The coverage report returns\<close>

lemma cov_upto_lanes: "i < length ls \<Longrightarrow> x \<in> set (cov_upto ls i s) \<Longrightarrow> iv_lane x < length ls"
  "x \<in> set (cov_upto ls (length ls) 0) \<Longrightarrow> iv_lane x < length ls"
  by (auto simp: cov_upto_def split: if_splits)

lemma coverage_returns:
  assumes "engine_inv e"
  shows "\<exists>r. coverage_report e = Inr r"
proof -
  have "iv_lane x < length (lanes e)" if "x \<in> set (covered e)" for x
    using assms that cov_upto_lanes by (auto simp: engine_inv_def cover_inv_def lane_inv_def)
  then have "\<exists>ls. mapE (\<lambda>iv. bindE (item (lanes e) (iv_lane iv)) (\<lambda>l. Inr (point_at l (iv_s0 iv), point_at l (iv_s1 iv)))) (covered e) = Inr ls"
    by (intro mapE_returns) simp
  then show ?thesis by (auto simp: coverage_report_def Let_def)
qed

section \<open>The invariant\<close>

text \<open>What the rim keeps, with the log and the correction of its parts.\<close>

definition engine_kept :: "engine option \<Rightarrow> bool" where
  "engine_kept r \<longleftrightarrow> (\<forall>e. r = Some e \<longrightarrow> engine_inv e)"

lemma engine_kept_simps [simp]: "engine_kept None" "engine_kept (Some e) = engine_inv e"
  by (simp_all add: engine_kept_def)

definition rim_inv :: "rim_params \<Rightarrow> rim \<Rightarrow> bool" where
  "rim_inv p m \<longleftrightarrow> en_par m = p \<and> engine_kept (en_engine m) \<and> (en_begun m \<longleftrightarrow> en_engine m \<noteq> None)
     \<and> correction_inv (en_corr m) \<and> ccfg (en_corr m) = rim_correction_config p"

lemma with_engine_inv [inv_intros]:
  assumes "rim_inv p m" "\<And>e. engine_inv e \<Longrightarrow> engine_inv (f e)"
  shows "rim_inv p (with_engine f m)"
  using assms by (auto simp: rim_inv_def with_engine_def engine_kept_def)

lemma plain_rim_updates [simp]:
  "rim_inv p (m\<lparr>en_anchor := a\<rparr>) = rim_inv p m" "rim_inv p (m\<lparr>en_poses := h\<rparr>) = rim_inv p m"
  "rim_inv p (m\<lparr>en_q := q\<rparr>) = rim_inv p m" "rim_inv p (m\<lparr>en_agl := x, en_agl_t := t\<rparr>) = rim_inv p m"
  "rim_inv p (m\<lparr>en_airborne := b\<rparr>) = rim_inv p m" "rim_inv p (m\<lparr>en_ground_t0 := g\<rparr>) = rim_inv p m"
  "rim_inv p (m\<lparr>en_cut := b\<rparr>) = rim_inv p m" "rim_inv p (m\<lparr>en_cut_us := i\<rparr>) = rim_inv p m"
  "rim_inv p (m\<lparr>en_dumped := b\<rparr>) = rim_inv p m" "rim_inv p (m\<lparr>en_land_requested := b\<rparr>) = rim_inv p m"
  "rim_inv p (m\<lparr>en_gps := f, en_gps_us := i\<rparr>) = rim_inv p m" "rim_inv p (m\<lparr>en_launch := l\<rparr>) = rim_inv p m"
  "rim_inv p (m\<lparr>en_dumps := ds\<rparr>) = rim_inv p m"
  by (simp_all add: rim_inv_def)

lemma engine_inputs_inv [inv_intros]:
  "engine_inv e \<Longrightarrow> engine_inv (request_abort r e)" "engine_inv e \<Longrightarrow> engine_inv (note_detector_alive t e)"
  "engine_inv e \<Longrightarrow> engine_inv (note_reset_counter n e)" "engine_inv e \<Longrightarrow> engine_inv (apply_heading_reset d e)"
  "engine_inv e \<Longrightarrow> engine_inv (e\<lparr>mlog := snd (ingest x (mlog e))\<rparr>)"
  "engine_inv e \<Longrightarrow> engine_inv (notify_dump_result ok e)" "engine_inv e \<Longrightarrow> engine_inv (start e)"
  by (auto simp: request_abort_def intro: good_inv inv_intros)

lemma correction_inv_steps:
  "correction_inv c \<Longrightarrow> correction_inv (update_correction t tf c)" "ccfg (update_correction t tf c) = ccfg c"
  "correction_inv c \<Longrightarrow> correction_inv (correction_frame_reset dn de c)" "ccfg (correction_frame_reset dn de c) = ccfg c"
proof -
  show "correction_inv c \<Longrightarrow> correction_inv (update_correction t tf c)"
    using correction_step_inv [of c "Update t tf"] by (simp add: correction_step_def)
  show "correction_inv c \<Longrightarrow> correction_inv (correction_frame_reset dn de c)"
    using correction_step_inv [of c "FrameReset dn de"] by (simp add: correction_step_def)
qed (simp_all add: update_correction_def correction_frame_reset_def Let_def split: option.split)

lemma new_rim_inv:
  assumes "new_rim p = Inr m"
  shows "rim_inv p m"
  using assms
  by (auto simp: new_rim_def rim_inv_def correction_inv_def new_correction_def check_correction_def split: if_splits)

section \<open>Inputs keep it\<close>

lemma frame_reset_inv [inv_intros]: "rim_inv p m \<Longrightarrow> rim_inv p (rim_frame_reset d dh m)"
  unfolding rim_frame_reset_def Let_def
  by (auto simp: rim_inv_def with_engine_def engine_kept_def correction_inv_steps intro: inv_intros)

lemma push_pose_inv [inv_intros]: "rim_inv p m \<Longrightarrow> rim_inv p (push_pose now (s, m))"
  by (simp add: push_pose_def Let_def split: sum.split)

lemma after_pos_inv [inv_intros]: "rim_inv p m \<Longrightarrow> rim_inv p (after_pos now msg h (s, m))"
  by (auto simp: after_pos_def Let_def split: option.split intro!: inv_intros)

lemma watch_ground_inv: "rim_inv p m \<Longrightarrow> rim_inv p (watch_ground now r (s, m))"
  by (simp add: watch_ground_def Let_def split: option.split)

lemma dist_cb_inv: "rim_inv p m \<Longrightarrow> rim_inv p (snd (dist_cb now r (s, m)))"
  using watch_ground_inv [of p m now r s] by (simp add: dist_cb_def Let_def case_prod_beta)

lemma anchor_verdict_inv [inv_intros]: "rim_inv p m \<Longrightarrow> rim_inv p (anchor_verdict m)"
  by (auto simp: anchor_verdict_def split: option.split intro!: inv_intros)

lemma observe_anchor_inv [inv_intros]: "rim_inv p m \<Longrightarrow> rim_inv p (observe_anchor t tag fix snap m)"
  by (auto simp: observe_anchor_def Let_def case_prod_beta intro!: inv_intros)

lemma detect_inv: "rim_inv p m \<Longrightarrow> rim_inv p (detect t snap det m)"
  by (auto simp: detect_def Let_def split: list.split prod.split option.split intro!: inv_intros)

lemma detect_all_inv: "rim_inv p m \<Longrightarrow> rim_inv p (fold (detect t snap) dets m)"
  by (induction dets arbitrary: m) (simp_all add: detect_inv)

lemma detections_cb_inv: "rim_inv p m \<Longrightarrow> rim_inv p (detections_cb now t dets m)"
  by (simp add: detections_cb_def detect_all_inv with_engine_inv engine_inputs_inv split: option.split)

section \<open>The tick\<close>

lemma finalize_inv: "engine_inv e \<Longrightarrow> engine_inv (e\<lparr>mlog := finalize (mlog e)\<rparr>)"
  by (simp add: engine_inv_def finalize_def)

lemma deliver_dump_inv:
  assumes "rim_inv p m" "en_engine m \<noteq> None" "engine_inv e"
  shows "okE (rim_inv p) (deliver_dump acked now e m)"
  using assms coverage_returns [OF assms(3)] finalize_inv [OF assms(3)]
  by (auto simp: deliver_dump_def build_payload_def Let_def rim_inv_def engine_inputs_inv okE_iff)

lemma on_phase_inv:
  assumes "rim_inv p m" "en_engine m \<noteq> None" "engine_inv e"
  shows "okE (\<lambda>(calls, m1). set calls \<subseteq> {CallLand} \<and> rim_inv p m1) (on_phase acked now e s m)"
proof -
  have "rim_inv p (m\<lparr>en_engine := Some e\<rparr>)" using assms by (simp add: rim_inv_def)
  then have "okE (rim_inv p) (if phase e = DUMP \<and> \<not> en_dumped m then deliver_dump acked now e m else Inr (m\<lparr>en_engine := Some e\<rparr>))"
    using deliver_dump_inv [OF assms] by simp
  then show ?thesis unfolding on_phase_def okE_simps(3) by (rule okE_mono) auto
qed

lemma corrected_inv: "rim_inv p m \<Longrightarrow> rim_inv p (m\<lparr>en_corr := corrected t m\<rparr>)"
  by (simp add: rim_inv_def corrected_def correction_inv_steps)

definition position_answer :: "mission_answer \<Rightarrow> bool" where
  "position_answer ans \<longleftrightarrow> set (fst ans) \<subseteq> {CallLand} \<and> (\<forall>xs. snd ans = Some xs \<longrightarrow> length xs = 4)"

lemma position_answer_plain: "position_answer ans \<Longrightarrow> plain_answer s ans"
  by (auto simp: position_answer_def plain_answer_def)

lemma rim_setpoint_ok:
  assumes inv: "rim_inv p m"
  shows "okE (\<lambda>(ans, m'). position_answer ans \<and> rim_inv p m') (rim_setpoint acked now s m)"
proof (cases "en_engine m")
  case None
  then show ?thesis using inv by (simp add: rim_setpoint_def position_answer_def)
next
  case (Some e)
  then have "engine_inv e" using inv by (simp add: rim_inv_def)
  then obtain sp e1 where t: "engine_tick now s m e = Inr (sp, e1)" "engine_inv e1"
    using tick_good [of e] by (fastforce simp: engine_tick_def Let_def okE_iff good_tick_def dest: good_inv)
  have "okE (\<lambda>(calls, m1). set calls \<subseteq> {CallLand} \<and> rim_inv p m1)
      (on_phase acked now e1 s (m\<lparr>en_corr := corrected (clock_s now) m\<rparr>))"
    by (rule on_phase_inv [OF corrected_inv [OF inv] _ t(2)]) (simp add: Some)
  then show ?thesis
    by (auto simp: rim_setpoint_def Some t(1) okE_iff position_answer_def flight_setpoint_def Let_def)
qed

section \<open>The node\<close>

lemma rim_hooks_simps [simp]:
  "hk_compute (rim_hooks acked) = rim_setpoint acked" "hk_link_acquired (rim_hooks acked) now m s = s"
  "hk_active_start (rim_hooks acked) now s m = m" "hk_return_home (rim_hooks acked) = rim_return_home"
  "hk_frame_reset (rim_hooks acked) = rim_frame_reset"
  by (simp_all add: rim_hooks_def)

interpretation rim: hosted_mission "rim_hooks acked" "\<lambda>s. rim_inv p" for acked p
proof
  show "okE (\<lambda>(ans, m'). plain_answer s ans \<and> rim_inv p m') (hk_compute (rim_hooks acked) now s m)"
    if "rim_inv p m" for s m now
    unfolding rim_hooks_simps by (rule okE_mono [OF rim_setpoint_ok [OF that]]) (auto intro: position_answer_plain)
qed (auto simp: rim_return_home_def intro: inv_intros)

lemma begin_cb_inv:
  assumes "rim_inv p m" "complete_offset p"
  shows "okE (\<lambda>(t, m'). rim_inv p m') (begin_cb b (s, m))"
proof (cases "\<not> b \<or> en_begun m \<or> ctl s \<noteq> ACTIVE")
  case True
  then show ?thesis using assms by (simp add: begin_cb_def)
next
  case False
  define r where "r = bindE (rim_mission_config (cx s, cy s) m) (\<lambda>c. mk_engine c (new_log 1 5 5 2) (launch_yaw s))"
  have "raises_only value_error r"
    unfolding r_def using assms
    by (intro raises_only_bind mission_config_refuses mk_engine_refuses) (simp add: rim_inv_def)
  moreover have "engine_inv e" if "r = Inr e" for e
    using that mk_engine_inv by (auto simp: r_def)
  ultimately show ?thesis
    using False assms
    by (cases r) (auto simp: begin_cb_def r_def [symmetric] value_error_def rim_inv_def engine_inputs_inv)
qed

definition rim_node_inv :: "rim_params \<Rightarrow> engine_node \<Rightarrow> bool" where
  "rim_node_inv p n \<longleftrightarrow> complete_offset p \<and> rim_inv p (snd n)"

lemma engine_step_inv:
  assumes inv: "rim_node_inv p n"
  shows "case engine_step n ev of Inl x \<Rightarrow> base_error x | Inr n' \<Rightarrow> rim_node_inv p n'"
proof -
  obtain s m where n: "n = (s, m)" by (cases n)
  have i: "rim_inv p m" "complete_offset p" using inv by (simp_all add: n rim_node_inv_def)
  note hosted = rim.callback_hosted [OF i(1)] rim.end_hosted [OF i(1)] rim.tick_hosted [OF i(1)]
  show ?thesis
  proof (cases ev)
    case (RimBase b)
    then show ?thesis using hosted(1) [of True b s] i by (auto simp: n engine_step_def rim_node_inv_def split: sum.splits)
  next
    case (RimPosition now msg h)
    then show ?thesis
      using hosted(1) [of True "LocalPosition now msg" s] i
      by (auto simp: n engine_step_def rim_node_inv_def case_prod_beta intro: inv_intros split: sum.splits)
  next
    case (RimBegin b)
    then show ?thesis using begin_cb_inv [OF i, of b s] i by (auto simp: n engine_step_def rim_node_inv_def okE_iff)
  next
    case (RimEnd now b)
    then show ?thesis using hosted(2) [of True now b s] i by (auto simp: n engine_step_def rim_node_inv_def split: sum.splits)
  next
    case (RimTick now acked)
    then show ?thesis using hosted(3) [of acked now s] i by (auto simp: n engine_step_def rim_node_inv_def split: sum.splits)
  next
    case (RimRange now r)
    then show ?thesis using dist_cb_inv [OF i(1), of now r s] i by (simp add: n engine_step_def rim_node_inv_def)
  next
    case (RimDetections now t dets)
    then show ?thesis using detections_cb_inv [OF i(1)] i by (simp add: n engine_step_def rim_node_inv_def)
  next
    case (RimStart now b)
    then show ?thesis using i by (auto simp: n engine_step_def rim_node_inv_def rim_start_cb_def split: sum.split prod.split)
  next
    case (RimAttitude q)
    then show ?thesis using i by (simp add: n engine_step_def rim_node_inv_def rim_att_cb_def split: prod.split)
  next
    case (RimGps now g)
    then show ?thesis using i by (simp add: n engine_step_def rim_node_inv_def gps_cb_def)
  qed
qed

interpretation engine_node: guarded_machine engine_step "rim_node_inv p" base_error for p
  by unfold_locales (rule engine_step_inv)

text \<open>
  Claim C6: once built, the node of the mission engine never crashes in flight. If the lane offset of the parameter
  file has its two components, then whatever telemetry, ranges, detections, gates and timer ticks arrive in whatever
  order, the only exceptions are the two of the base controller on the ground; the mission engine exists exactly
  once the survey was begun, and the next tick is answered by a position setpoint or none, with at most a request to land.
\<close>

theorem engine_node_keeps_flying:
  assumes "new_rim p = Inr m0" "2 \<le> length (rp_lanes_offset p)"
  shows "case foldE engine_step (rim_controller cp, m0) es of
      Inl e \<Rightarrow> base_error e
    | Inr (s, m) \<Rightarrow> (en_begun m \<longleftrightarrow> en_engine m \<noteq> None)
        \<and> (\<exists>calls a m'. rim_setpoint acked now s m = Inr ((calls, a), m') \<and> set calls \<subseteq> {CallLand}
             \<and> (case a of None \<Rightarrow> True | Some xs \<Rightarrow> length xs = 4))"
proof -
  have "rim_node_inv p (rim_controller cp, m0)"
    using new_rim_inv [OF assms(1)] assms(2) by (simp add: rim_node_inv_def complete_offset_def)
  from engine_node.run_guarded [OF this, of es]
  have r: "case foldE engine_step (rim_controller cp, m0) es of Inl e \<Rightarrow> base_error e | Inr n \<Rightarrow> rim_node_inv p n" .
  have next_tick: "\<exists>calls a m'. rim_setpoint acked now s m = Inr ((calls, a), m') \<and> set calls \<subseteq> {CallLand}
      \<and> (case a of None \<Rightarrow> True | Some xs \<Rightarrow> length xs = 4)" if i: "rim_inv p m" for s m
  proof -
    obtain calls a m' where r: "rim_setpoint acked now s m = Inr ((calls, a), m')" "position_answer (calls, a)"
      using rim_setpoint_ok [OF i, of acked now s] unfolding okE_iff by (metis (no_types, lifting) case_prod_conv surj_pair)
    then show ?thesis by (cases a) (simp_all add: position_answer_def)
  qed
  show ?thesis
  proof (cases "foldE engine_step (rim_controller cp, m0) es")
    case (Inl e)
    then show ?thesis using r by simp
  next
    case (Inr n)
    obtain s m where n: "n = (s, m)" by (cases n)
    then have "rim_inv p m" using r by (simp add: Inr rim_node_inv_def)
    then show ?thesis using next_tick [of m s] by (simp add: Inr n rim_inv_def)
  qed
qed

lemma declared_rim_new: "\<exists>m0. new_rim declared_rim = Inr m0"
proof -
  have f: "rp_fx declared_rim \<noteq> 0" by (simp add: declared_rim_def)
  let ?a = "arctan (1 / 2 * of_int (rp_width declared_rim) / rp_fx declared_rim)"
  have "0 < ?a" "?a < pi / 2" using arctan_ubound by (auto simp: declared_rim_def)
  then have "0 < degrees (2 * ?a)" "degrees (2 * ?a) < 180" by (simp_all add: degrees_def field_simps)
  then show ?thesis
    by (simp add: new_rim_def rim_camera_def f check_camera_def Let_def)
      (simp add: declared_rim_def check_anchor_config_def rim_anchor_config_def anchor_config_of_def check_correction_def
        rim_correction_config_def)
qed

theorem engine_node_keeps_flying_witness:
  "\<exists>m0. new_rim declared_rim = Inr m0
     \<and> (case foldE engine_step (rim_controller example_params, m0) [RimBegin True, RimTick 5 True] of
          Inl e \<Rightarrow> base_error e | Inr (s, m) \<Rightarrow> en_begun m \<longleftrightarrow> en_engine m \<noteq> None)"
proof -
  obtain m0 where m0: "new_rim declared_rim = Inr m0" using declared_rim_new by blast
  have "2 \<le> length (rp_lanes_offset declared_rim)" by (simp add: declared_rim_def)
  from engine_node_keeps_flying [OF m0 this, where cp = example_params and es = "[RimBegin True, RimTick 5 True]" and acked = True and now = 7] m0
  show ?thesis by (auto split: sum.splits)
qed

section \<open>The motors\<close>

text \<open>The state of the touchdown watch, which only the range messages write.\<close>

definition watch :: "rim \<Rightarrow> bool \<times> seconds option \<times> bool \<times> int" where
  "watch m = (en_airborne m, en_ground_t0 m, en_cut m, en_cut_us m)"

lemma watch_updates [simp]:
  "watch (with_engine f m) = watch m" "watch (m\<lparr>en_anchor := a\<rparr>) = watch m" "watch (m\<lparr>en_corr := c\<rparr>) = watch m"
  "watch (m\<lparr>en_poses := h\<rparr>) = watch m" "watch (m\<lparr>en_engine := e\<rparr>) = watch m" "watch (m\<lparr>en_q := q\<rparr>) = watch m"
  "watch (m\<lparr>en_agl := x, en_agl_t := t\<rparr>) = watch m" "watch (m\<lparr>en_launch := l\<rparr>) = watch m"
  "watch (m\<lparr>en_land_requested := b\<rparr>) = watch m" "watch (m\<lparr>en_begun := b\<rparr>) = watch m"
  "watch (m\<lparr>en_dumped := b\<rparr>) = watch m" "watch (m\<lparr>en_dumps := ds\<rparr>) = watch m"
  "watch (m\<lparr>en_gps := f', en_gps_us := i\<rparr>) = watch m"
  by (simp_all add: watch_def with_engine_def)

lemma rim_setpoint_watch: "rim_setpoint acked now s m = Inr (ans, m') \<Longrightarrow> watch m' = watch m"
  by (auto simp: rim_setpoint_def on_phase_def deliver_dump_def Let_def case_prod_beta
      split: option.splits if_splits)

interpretation rim_watch: untouched_view "rim_hooks acked" watch for acked
  by unfold_locales
    (auto simp: rim_setpoint_watch rim_return_home_def rim_frame_reset_def Let_def)

lemma detect_watch: "watch (detect t snap det m) = watch m"
  by (simp add: detect_def observe_anchor_def anchor_verdict_def Let_def case_prod_beta split: list.split option.split)

lemma detections_watch: "watch (detections_cb now t dets m) = watch m"
proof -
  have "watch (fold (detect t snap) dets m') = watch m'" for snap m'
    by (induction dets arbitrary: m') (simp_all add: detect_watch)
  then show ?thesis by (simp add: detections_cb_def split: option.split)
qed

lemma after_pos_watch: "watch (after_pos now msg h (s, m)) = watch m"
  by (simp add: after_pos_def push_pose_def Let_def split: option.split sum.split)

lemma begin_watch: "begin_cb b (s, m) = Inr (t, m') \<Longrightarrow> watch m' = watch m"
  by (auto simp: begin_cb_def split: if_splits sum.splits py_error.splits)

lemma step_watch:
  assumes "engine_step (s, m) ev = Inr (t, m')" "\<And>now r. ev \<noteq> RimRange now r"
  shows "watch m' = watch m"
  using assms
  by (cases ev)
    (auto simp: engine_step_def gps_cb_def rim_att_cb_def rim_start_cb_def detections_watch after_pos_watch
      dest!: rim_watch.tick_view rim_watch.end_view rim_watch.callback_view begin_watch
      split: if_splits sum.splits prod.splits)

definition low :: "range_msg \<Rightarrow> bool" where
  "low r \<longleftrightarrow> rg_distance r \<le> 10 / 100"

definition flew :: "engine_event list \<Rightarrow> bool" where
  "flew es \<longleftrightarrow> (\<exists>now r. RimRange now r \<in> set es \<and> rg_min r \<le> rg_distance r)"

definition stays_low :: "engine_event list \<Rightarrow> bool" where
  "stays_low es \<longleftrightarrow> (\<forall>now r. RimRange now r \<in> set es \<longrightarrow> low r)"

text \<open>Low readings, unbroken, that begin at the time \<open>t0\<close> after a flight was seen.\<close>

definition low_since :: "engine_event list \<Rightarrow> seconds \<Rightarrow> bool" where
  "low_since es t0 \<longleftrightarrow> (\<exists>xs now r ys. es = xs @ RimRange now r # ys \<and> clock_s now = t0 \<and> low r \<and> stays_low ys
     \<and> flew (xs @ [RimRange now r]))"

definition touchdown :: "engine_event list \<Rightarrow> bool" where
  "touchdown es \<longleftrightarrow> (\<exists>xs now r zs t0. es = xs @ RimRange now r # zs \<and> low_since (xs @ [RimRange now r]) t0
     \<and> clock_s now - t0 \<ge> 10 / 100)"

lemma flew_snoc: "flew es \<Longrightarrow> flew (es @ [ev])"
  by (auto simp: flew_def)

lemma low_since_snoc:
  assumes "low_since es t0" "\<And>now r. ev = RimRange now r \<Longrightarrow> low r"
  shows "low_since (es @ [ev]) t0"
proof -
  obtain xs now r ys where "es = xs @ RimRange now r # ys" "clock_s now = t0" "low r" "stays_low ys" "flew (xs @ [RimRange now r])"
    using assms(1) by (auto simp: low_since_def)
  then show ?thesis unfolding low_since_def
    by (intro exI [of _ xs] exI [of _ now] exI [of _ r] exI [of _ "ys @ [ev]"]) (use assms(2) in \<open>auto simp: stays_low_def\<close>)
qed

lemma touchdown_snoc: "touchdown es \<Longrightarrow> touchdown (es @ [ev])"
  unfolding touchdown_def by fastforce

definition watched :: "engine_event list \<Rightarrow> rim \<Rightarrow> bool" where
  "watched es m \<longleftrightarrow> (en_airborne m \<longrightarrow> flew es) \<and> (\<forall>t0. en_ground_t0 m = Some t0 \<longrightarrow> low_since es t0)
     \<and> (en_cut m \<longrightarrow> touchdown es)"

lemma watched_other: "watched es m \<Longrightarrow> watch m' = watch m \<Longrightarrow> (\<And>now r. ev \<noteq> RimRange now r) \<Longrightarrow> watched (es @ [ev]) m'"
  using flew_snoc low_since_snoc [of es _ ev] touchdown_snoc by (auto simp: watched_def watch_def)

lemma watch_ground_watched:
  assumes "watched es m"
  shows "watched (es @ [RimRange now r]) (watch_ground now r (s, m))"
proof -
  let ?es = "es @ [RimRange now r]"
  define m1 where "m1 = (if is_armed s \<and> rg_distance r \<ge> rg_min r then m\<lparr>en_airborne := True\<rparr> else m)"
  have m1: "en_airborne m1 \<longrightarrow> flew ?es" "en_ground_t0 m1 = en_ground_t0 m" "en_cut m1 = en_cut m"
    using assms flew_snoc by (auto simp: m1_def watched_def flew_def)
  have cut: "en_cut m \<longrightarrow> touchdown ?es" using assms touchdown_snoc by (simp add: watched_def)
  have since: "low_since ?es t0" if "en_ground_t0 m = Some t0" "rg_distance r \<le> crash_disarm_range_m" for t0
    using assms that by (intro low_since_snoc) (auto simp: watched_def low_def crash_disarm_range_m_def)
  have first: "low_since ?es (clock_s now)" if "flew ?es" "rg_distance r \<le> crash_disarm_range_m"
    unfolding low_since_def using that
    by (intro exI [of _ es] exI [of _ now] exI [of _ r] exI [of _ "[]"]) (simp add: stays_low_def low_def crash_disarm_range_m_def)
  have down: "touchdown ?es" if "low_since ?es t0" "clock_s now - t0 \<ge> crash_disarm_hold_s" for t0
    unfolding touchdown_def using that
    by (intro exI [of _ es] exI [of _ now] exI [of _ r] exI [of _ "[]"] exI [of _ t0]) (simp add: crash_disarm_hold_s_def)
  have w: "watch_ground now r (s, m) =
      (if is_armed s \<and> en_airborne m1 \<and> rg_distance r \<le> crash_disarm_range_m
       then (case en_ground_t0 m1 of None \<Rightarrow> m1\<lparr>en_ground_t0 := Some (clock_s now)\<rparr>
             | Some t0 \<Rightarrow> if clock_s now - t0 \<ge> crash_disarm_hold_s then m1\<lparr>en_cut := True\<rparr> else m1)
       else m1\<lparr>en_ground_t0 := None\<rparr>)"
    by (simp only: watch_ground_def m1_def Let_def prod.case)
  show ?thesis
    unfolding w watched_def using m1 cut since first down by (auto split: option.split)
qed

lemma dist_cb_watch:
  "watch (snd (dist_cb now r (s, m))) =
     (let m1 = watch_ground now r (s, m)
      in (en_airborne m1, en_ground_t0 m1, en_cut m1, if cuts_now now (s, m1) then now else en_cut_us m1))"
  by (simp add: dist_cb_def Let_def watch_def case_prod_beta)

lemma engine_step_watched:
  assumes "watched es (snd n)" "engine_step n ev = Inr n'"
  shows "watched (es @ [ev]) (snd n')"
proof -
  obtain s m where n: "n = (s, m)" by (cases n)
  obtain t m' where n': "n' = (t, m')" by (cases n')
  show ?thesis
  proof (cases "\<exists>now r. ev = RimRange now r")
    case True
    then obtain now r where ev: "ev = RimRange now r" by blast
    then have "m' = snd (dist_cb now r (s, m))" using assms(2) by (simp add: n n' engine_step_def)
    then have "watch m' = (let m1 = watch_ground now r (s, m)
        in (en_airborne m1, en_ground_t0 m1, en_cut m1, if cuts_now now (s, m1) then now else en_cut_us m1))"
      by (simp add: dist_cb_watch)
    then show ?thesis
      using watch_ground_watched [of es m now r s] assms(1) by (simp add: n n' ev watched_def watch_def Let_def)
  next
    case False
    then show ?thesis using watched_other [OF assms(1), of m' ev] step_watch [of s m ev t m'] assms(2) by (auto simp: n n')
  qed
qed

lemma run_watched: "foldE engine_step n es' = Inr n' \<Longrightarrow> watched es (snd n) \<Longrightarrow> watched (es @ es') (snd n')"
proof (induction es' arbitrary: es n)
  case (Cons ev es')
  then obtain n1 where 1: "engine_step n ev = Inr n1" "foldE engine_step n1 es' = Inr n'" by auto
  show ?case using Cons.IH [OF 1(2) engine_step_watched [OF Cons.prems(2) 1(1)]] by simp
qed simp

text \<open>
  Claim C8: the motors are cut only after a touchdown the range finder saw. In every run, a range message on which the
  node publishes anything publishes exactly one forced disarm, to an armed vehicle, at least a tenth of a second
  after the last one; and the messages up to it contain one at or above the sensor's minimum range
  followed by, or being, the first of an unbroken stretch of readings of at most ten centimetres, a tenth of a second long.
\<close>

theorem motors_cut_only_after_touchdown:
  assumes "new_rim p = Inr m0" "foldE engine_step (rim_controller cp, m0) es = Inr (s, m)"
    and "engine_step (s, m) (RimRange now r) = Inr (s', m')" "out s' \<noteq> out s"
  shows "is_armed s \<and> out s' = out s @ [Command (ArmDisarm 0 force_arm_magic) True]
    \<and> now - en_cut_us m \<ge> 100000 \<and> touchdown (es @ [RimRange now r])"
proof -
  have "watched [] m0" using assms(1) by (auto simp: new_rim_def watched_def)
  then have w: "watched es m" using run_watched [OF assms(2), of "[]"] by simp
  define m1 where "m1 = watch_ground now r (s, m)"
  have us: "en_cut_us m1 = en_cut_us m"
    by (simp add: m1_def watch_ground_def Let_def split: option.split)
  have step: "s' = (if cuts_now now (s, m1) then command_disarm True s else s)"
    using assms(3) by (auto simp: engine_step_def dist_cb_def m1_def [symmetric] Let_def split: if_splits)
  then have "cuts_now now (s, m1)" using assms(4) by (auto split: if_splits)
  then have "en_cut m1" "is_armed s" "now - en_cut_us m \<ge> 100000"
    by (simp_all add: cuts_now_def us crash_disarm_retry_us_def)
  moreover have "watched (es @ [RimRange now r]) m1" unfolding m1_def by (rule watch_ground_watched [OF w])
  ultimately show ?thesis
    using step \<open>cuts_now now (s, m1)\<close> by (simp add: watched_def command_disarm_def publish_command_def emit_def)
qed

theorem motors_cut_only_after_touchdown_witness:
  "\<exists>m0 s m s' m'. new_rim declared_rim = Inr m0
     \<and> foldE engine_step (rim_controller example_params, m0)
         [RimBase (Status 0 NavOffboard 2 False), RimRange 1 \<lparr>rg_distance = 3, rg_min = 1 / 10, rg_max = 30\<rparr>,
          RimRange 1000000 \<lparr>rg_distance = 0, rg_min = 1 / 10, rg_max = 30\<rparr>] = Inr (s, m)
     \<and> engine_step (s, m) (RimRange 1200000 \<lparr>rg_distance = 0, rg_min = 1 / 10, rg_max = 30\<rparr>) = Inr (s', m')
     \<and> is_armed s \<and> out s' = out s @ [Command (ArmDisarm 0 force_arm_magic) True]"
proof -
  obtain m0 where m0: "new_rim declared_rim = Inr m0" using declared_rim_new by blast
  then have f: "en_airborne m0 = False" "en_ground_t0 m0 = None" "en_cut m0 = False" "en_cut_us m0 = 0"
    by (auto simp: new_rim_def)
  let ?r = "\<lambda>d. \<lparr>rg_distance = d, rg_min = 1 / 10, rg_max = 30\<rparr>"
  note evals = engine_step_def hosted_callback_def status_cb_def ctl_step_def dist_cb_def watch_ground_def
    cuts_now_def is_armed_def f crash_disarm_range_m_def crash_disarm_hold_s_def crash_disarm_retry_us_def clock_s_def
    command_disarm_def publish_command_def emit_def Let_def
  obtain s m where 1: "foldE engine_step (rim_controller example_params, m0)
         [RimBase (Status 0 NavOffboard 2 False), RimRange 1 (?r 3), RimRange 1000000 (?r 0)] = Inr (s, m)"
      and fl: "arm_state s = 2" "en_airborne m" "en_ground_t0 m = Some 1" "en_cut_us m = 0"
    by (simp add: evals)
  obtain s' m' where 2: "engine_step (s, m) (RimRange 1200000 (?r 0)) = Inr (s', m')" "out s' \<noteq> out s"
    by (simp add: evals fl)
  from motors_cut_only_after_touchdown [OF m0 1 2] 1 2 m0 show ?thesis by blast
qed

section \<open>A dump that was not acknowledged\<close>

text \<open>Waiting for an acknowledgement that nobody will send.\<close>

definition stuck_dump :: "rim \<Rightarrow> bool" where
  "stuck_dump m \<longleftrightarrow> en_begun m \<and> en_dumped m \<and> (\<exists>e. en_engine m = Some e \<and> phase e = DUMP \<and> \<not> dump_acked e)"

text \<open>What is left of the run: how often the dump was sent, and whether the landing was requested.\<close>

definition dump_view :: "rim \<Rightarrow> dump_document list \<times> bool" where
  "dump_view m = (en_dumps m, en_land_requested m)"

definition still_stuck :: "rim \<Rightarrow> rim \<Rightarrow> bool" where
  "still_stuck m m' \<longleftrightarrow> (stuck_dump m \<longrightarrow> stuck_dump m' \<and> dump_view m' = dump_view m)"

lemma still_stuck_refl [simp]: "still_stuck m m"
  by (simp add: still_stuck_def)

lemma still_stuck_trans: "still_stuck m m1 \<Longrightarrow> still_stuck m1 m2 \<Longrightarrow> still_stuck m m2"
  by (simp add: still_stuck_def)

lemma with_engine_stuck:
  assumes "\<And>e. phase (f e) = phase e \<and> dump_acked (f e) = dump_acked e"
  shows "still_stuck m (with_engine f m)"
  using assms by (auto simp: still_stuck_def stuck_dump_def dump_view_def with_engine_def)

lemma stuck_updates [simp]:
  "still_stuck m (m'\<lparr>en_anchor := a\<rparr>) = still_stuck m m'" "still_stuck m (m'\<lparr>en_poses := h\<rparr>) = still_stuck m m'"
  "still_stuck m (m'\<lparr>en_corr := c\<rparr>) = still_stuck m m'" "still_stuck m (m'\<lparr>en_q := q\<rparr>) = still_stuck m m'"
  "still_stuck m (m'\<lparr>en_agl := x, en_agl_t := t\<rparr>) = still_stuck m m'" "still_stuck m (m'\<lparr>en_launch := l\<rparr>) = still_stuck m m'"
  "still_stuck m (m'\<lparr>en_airborne := b\<rparr>) = still_stuck m m'" "still_stuck m (m'\<lparr>en_ground_t0 := g\<rparr>) = still_stuck m m'"
  "still_stuck m (m'\<lparr>en_cut := b\<rparr>) = still_stuck m m'" "still_stuck m (m'\<lparr>en_cut_us := i\<rparr>) = still_stuck m m'"
  "still_stuck m (m'\<lparr>en_gps := f, en_gps_us := i\<rparr>) = still_stuck m m'"
  by (simp_all add: still_stuck_def stuck_dump_def dump_view_def)

lemma dump_tick: "phase e = DUMP \<Longrightarrow> \<not> dump_acked e \<Longrightarrow> \<exists>sp. tick t pos vel hv sr e = Inr (Some sp, e)"
  by (simp add: tick_def tick_inner_def check_aborts_def tick_dump_def some_sp_def command_fence_active_def)

lemma rim_setpoint_stuck:
  assumes "stuck_dump m" "rim_setpoint acked now s m = Inr (ans, m')"
  shows "stuck_dump m' \<and> dump_view m' = dump_view m \<and> fst ans = []"
proof -
  obtain e where e: "en_engine m = Some e" "phase e = DUMP" "\<not> dump_acked e" "en_dumped m" "en_begun m"
    using assms(1) by (auto simp: stuck_dump_def)
  obtain sp where "engine_tick now s m e = Inr (Some sp, e)"
    using dump_tick [OF e(2,3)] by (fastforce simp: engine_tick_def Let_def)
  then have "ans = ([], Some (flight_setpoint (corrected (clock_s now) m) sp))"
    "m' = m\<lparr>en_corr := corrected (clock_s now) m, en_engine := Some e\<rparr>"
    using assms(2) e by (auto simp: rim_setpoint_def on_phase_def)
  then show ?thesis using e by (simp add: stuck_dump_def dump_view_def)
qed

lemma frame_reset_stuck: "still_stuck m (rim_frame_reset d dh m)"
proof -
  have "still_stuck m' (with_engine (apply_heading_reset dh) m')" for m'
    by (rule with_engine_stuck) (simp add: apply_heading_reset_def)
  moreover have "still_stuck m m' \<Longrightarrow> still_stuck m (with_engine (apply_heading_reset dh) m')" for m'
    using calculation still_stuck_trans by blast
  ultimately show ?thesis by (simp add: rim_frame_reset_def Let_def)
qed

lemma after_pos_stuck: "still_stuck m (after_pos now msg h (s, m))"
proof -
  have "still_stuck m' (with_engine (note_reset_counter k) m')" for m' k
    by (rule with_engine_stuck) (simp add: note_reset_counter_def Let_def split: option.split)
  then have "still_stuck m m' \<Longrightarrow> still_stuck m (with_engine (note_reset_counter k) m')" for m' k
    using still_stuck_trans by blast
  then show ?thesis by (simp add: after_pos_def push_pose_def Let_def split: option.split sum.split)
qed

lemma dist_cb_stuck: "still_stuck m (snd (dist_cb now r (s, m)))"
  by (simp add: dist_cb_def watch_ground_def Let_def case_prod_beta split: option.split)

lemma hosted_tick_stuck:
  assumes "stuck_dump m" "hosted_tick (rim_hooks acked) now (s, m) = Inr (t, m')"
  shows "stuck_dump m' \<and> dump_view m' = dump_view m"
proof -
  obtain x m1 s1 where 1: "(if asks_mission s then hk_compute (rim_hooks acked) now s m else Inr (([], None), m)) = Inr (x, m1)"
      and 2: "m' = (if ctl s = ENGAGE \<and> ctl s1 = ACTIVE then hk_active_start (rim_hooks acked) now s1 m1 else m1)"
    by (rule hosted_tick_parts [OF assms(2)]) (rule that)
  have "m' = m1" using 2 by simp
  then show ?thesis using 1 assms(1) rim_setpoint_stuck [OF assms(1)] by (auto split: if_splits)
qed

text \<open>The events that neither end the mission nor show a tag.\<close>

fun quiet :: "engine_event \<Rightarrow> bool" where
  "quiet (RimEnd now b) = False"
| "quiet (RimDetections now t dets) = False"
| "quiet _ = True"

lemma step_stuck:
  assumes stuck: "stuck_dump m" and q: "quiet ev" and step: "engine_step (s, m) ev = Inr (t, m')"
  shows "stuck_dump m' \<and> dump_view m' = dump_view m"
proof -
  have begun: "en_begun m" using stuck by (simp add: stuck_dump_def)
  have keeps: "stuck_dump m'' \<and> dump_view m'' = dump_view m" if "still_stuck m m''" for m''
    using that stuck by (simp add: still_stuck_def)
  have pos: "still_stuck m (case frame_reset_delta msg s of None \<Rightarrow> m | Some (d, dh) \<Rightarrow> rim_frame_reset d dh m)" for msg
    using frame_reset_stuck by (simp split: option.split prod.split)
  show ?thesis
  proof (cases ev)
    case (RimTick now acked)
    then show ?thesis using step hosted_tick_stuck [OF stuck] by (simp add: engine_step_def)
  next
    case (RimPosition now msg h)
    then have "m' = after_pos now msg h (pos_cb now msg s, case frame_reset_delta msg s of None \<Rightarrow> m | Some (d, dh) \<Rightarrow> rim_frame_reset d dh m)"
      using step by (auto simp: engine_step_def hosted_callback_def split: option.splits)
    then show ?thesis using keeps still_stuck_trans [OF pos after_pos_stuck] by metis
  next
    case (RimRange now r)
    then show ?thesis using step keeps [OF dist_cb_stuck [of m now r s]] by (simp add: engine_step_def)
  next
    case (RimBase b)
    then show ?thesis using step stuck by (cases b) (auto simp: engine_step_def hosted_callback_def ctl_step_def)
  next
    case (RimAttitude x)
    then show ?thesis
      using step stuck keeps [of "m\<lparr>en_q := x\<rparr>"] by (auto simp: engine_step_def rim_att_cb_def split: prod.splits if_splits)
  next
    case (RimGps now g)
    then show ?thesis
      using step keeps [of "m\<lparr>en_gps := Some g, en_gps_us := now\<rparr>"] by (auto simp: engine_step_def gps_cb_def)
  next
    case (RimStart now b)
    then show ?thesis
      using step stuck keeps [of "m\<lparr>en_launch := l\<rparr>" for l] by (auto simp: engine_step_def rim_start_cb_def split: if_splits sum.splits)
  next
    case (RimBegin b)
    then show ?thesis using step stuck begun by (simp add: engine_step_def begin_cb_def)
  qed (use q in simp_all)
qed

lemma run_stuck:
  "stuck_dump m \<Longrightarrow> list_all quiet es \<Longrightarrow> foldE engine_step (s, m) es = Inr (t, m')
    \<Longrightarrow> stuck_dump m' \<and> dump_view m' = dump_view m"
proof (induction es arbitrary: s m)
  case (Cons ev es)
  then obtain s1 m1 where 1: "engine_step (s, m) ev = Inr (s1, m1)" "foldE engine_step (s1, m1) es = Inr (t, m')" by auto
  have "stuck_dump m1 \<and> dump_view m1 = dump_view m" using step_stuck [OF Cons.prems(1) _ 1(1)] Cons.prems(2) by simp
  then show ?case using Cons.IH [OF _ _ 1(2)] Cons.prems(2) by simp
qed simp

text \<open>
  Claim C9: a dump that was not acknowledged is never sent again, although the engine counts retries. After a first
  delivery the master did not acknowledge, in every run without an end gate and without detections the mission
  stays in its dump phase, sends no second dump and never asks to land; the mission timeout and the fences do
  not guard this phase.
\<close>

theorem failed_dump_is_never_retried:
  assumes "on_phase False now e s m = Inr (calls, m1)" "phase e = DUMP" "\<not> dump_acked e" "en_begun m" "\<not> en_dumped m"
    and "rp_dump_host (en_par m) \<noteq> []" "dump_attempts e + 1 < dump_retry_limit (cfg e)"
    and "list_all quiet es" "foldE engine_step (s1, m1) es = Inr (t, m')"
  shows "calls = [] \<and> length (en_dumps m1) = length (en_dumps m) + 1 \<and> en_dumps m' = en_dumps m1
    \<and> en_land_requested m' = en_land_requested m \<and> (\<exists>e'. en_engine m' = Some e' \<and> phase e' = DUMP)"
proof -
  have 1: "stuck_dump m1 \<and> length (en_dumps m1) = length (en_dumps m) + 1 \<and> en_land_requested m1 = en_land_requested m \<and> calls = []"
    using assms(1-7)
    by (auto simp: on_phase_def deliver_dump_def Let_def case_prod_beta stuck_dump_def notify_dump_result_def)
  then show ?thesis
    using run_stuck [OF _ assms(8,9)] by (auto simp: stuck_dump_def dump_view_def)
qed

theorem failed_dump_is_never_retried_witness:
  "\<exists>m m1 t m' e'. \<not> en_dumped m \<and> on_phase False 9 (example_engine\<lparr>phase := DUMP\<rparr>) (rim_controller example_params) m = Inr ([], m1)
     \<and> foldE engine_step (rim_controller example_params, m1) [RimTick 10 True, RimStart 11 True] = Inr (t, m')
     \<and> length (en_dumps m') = 1 \<and> en_engine m' = Some e' \<and> phase e' = DUMP"
proof -
  obtain m0 where m0: "new_rim declared_rim = Inr m0" using declared_rim_new by blast
  define m where "m = m0\<lparr>en_par := declared_rim\<lparr>rp_dump_host := ''base''\<rparr>, en_begun := True\<rparr>"
  let ?e = "example_engine\<lparr>phase := DUMP\<rparr>" and ?s = "rim_controller example_params"
  have m: "en_begun m" "\<not> en_dumped m" "rp_dump_host (en_par m) \<noteq> []" "en_dumps m = []" "\<not> rp_require_polygon (en_par m)"
    using m0 by (auto simp: m_def new_rim_def declared_rim_def)
  have f: "\<not> dump_acked ?e" "dump_attempts ?e + 1 < dump_retry_limit (cfg ?e)" "covered ?e = []" "pattern (cfg ?e) = ''serpentine''"
    by (simp_all add: example_engine_fields example_config_def) (simp_all add: example_eval)
  have "coverage_report ?e = Inr \<lparr>cv_petals = [], cv_completed_petals = None, cv_lanes = [],
      cv_gaps = concat (map (\<lambda>l. lane_gaps l 0 []) (lanes ?e))\<rparr>"
    using f(3,4) by (simp add: coverage_report_def)
  then obtain calls m1 where 1: "on_phase False 9 ?e ?s m = Inr (calls, m1)"
    by (auto simp: on_phase_def deliver_dump_def m Let_def case_prod_beta)
  then have par: "\<not> rp_require_polygon (en_par m1)"
    using m by (auto simp: on_phase_def deliver_dump_def Let_def case_prod_beta split: if_splits)
  obtain t m' where 2: "foldE engine_step (?s, m1) [RimTick 10 True, RimStart 11 True] = Inr (t, m')"
    by (simp add: engine_step_def hosted_tick_def asks_mission_def rim_controller_def mk_controller_def send_pending_origin_def
        ctl_tick_def tick_heartbeat_def awaiting_rtl_def link_alive_def rim_start_cb_def par example_params_def Let_def)
  from failed_dump_is_never_retried [OF 1 _ f(1) m(1,2,3) f(2) _ 2] 1 2 m show ?thesis by fastforce
qed

section \<open>Two frames\<close>

lemma on_phase_engine:
  assumes "on_phase acked now e s m = Inr (calls, m1)"
  shows "en_corr m1 = en_corr m \<and> (en_engine m1 = Some e \<or> (\<exists>e1. en_engine m1 = Some e1 \<and> phase e1 \<in> {DUMP, ABORT}))"
  using assms
  by (auto simp: on_phase_def deliver_dump_def Let_def case_prod_beta notify_dump_result_def abort_with_def split: if_splits)

text \<open>
  Claim C7: what the vehicle is told to fly to keeps the fence of the mission up to the bounded correction. In every run,
  a setpoint the node answers with while its engine still surveys or dips is a point moved by the resets of the flight
  frame and by an offset of at most the configured correction, and that point lies in the field polygon where there is
  one, and otherwise, the climb included, within the fence radius of the home of the mission.
\<close>

theorem engine_setpoint_in_fence:
  assumes "new_rim p = Inr m0" "2 \<le> length (rp_lanes_offset p)" "foldE engine_step (s0, m0) es = Inr (s, m)"
    and sp: "rim_setpoint acked now s m = Inr ((calls, Some xs), m')" and e: "en_engine m' = Some e"
  shows "\<exists>a b shift off. xs ! 0 = Some (a + fst shift + fst off) \<and> xs ! 1 = Some (b + snd shift + snd off)
    \<and> shift = frame_shift (en_corr m') \<and> off = applied (en_corr m') \<and> hypot (fst off) (snd off) \<le> rp_correction_max p
    \<and> (fence_polygon e \<noteq> [] \<longrightarrow> phase e \<in> {LANE, VERIFY_DIP} \<longrightarrow> point_in_polygon (a, b) (fence_polygon e))
    \<and> (fence_polygon e = [] \<longrightarrow> phase e \<in> {TAKEOFF, LANE, VERIFY_DIP} \<longrightarrow> 0 < fence_radius_m (cfg e) \<longrightarrow>
         (\<forall>h. home_ne e = Some h \<longrightarrow> dist2 (a, b) h \<le> fence_radius_m (cfg e)))"
proof -
  have "rim_node_inv p (s0, m0)"
    using new_rim_inv [OF assms(1)] assms(2) by (simp add: rim_node_inv_def complete_offset_def)
  from engine_node.run_inv [OF this assms(3)] have inv: "rim_inv p m" by (simp add: rim_node_inv_def)
  define c where "c = corrected (clock_s now) m"
  obtain e0 where e0: "en_engine m = Some e0" using sp by (cases "en_engine m") (auto simp: rim_setpoint_def)
  obtain sp e1 where t: "engine_tick now s m e0 = Inr (Some sp, e1)" and xs: "xs = flight_setpoint c sp"
      and ph: "on_phase acked now e1 s (m\<lparr>en_corr := c\<rparr>) = Inr (calls, m')"
    using sp by (auto simp: rim_setpoint_def e0 c_def)
  have c: "en_corr m' = c" using on_phase_engine [OF ph] by simp
  have "correction_inv c" "ccfg c = rim_correction_config p"
    using corrected_inv [OF inv, of "clock_s now"] by (simp_all add: rim_inv_def c_def)
  then have "hypot (fst (applied c)) (snd (applied c)) \<le> rp_correction_max p"
    by (simp add: correction_inv_def rim_correction_config_def)
  moreover have "(fence_polygon e \<noteq> [] \<longrightarrow> phase e \<in> {LANE, VERIFY_DIP} \<longrightarrow> point_in_polygon (fst (sp_pos sp), fst (snd (sp_pos sp))) (fence_polygon e))
    \<and> (fence_polygon e = [] \<longrightarrow> phase e \<in> {TAKEOFF, LANE, VERIFY_DIP} \<longrightarrow> 0 < fence_radius_m (cfg e) \<longrightarrow>
         (\<forall>h. home_ne e = Some h \<longrightarrow> dist2 (fst (sp_pos sp), fst (snd (sp_pos sp))) h \<le> fence_radius_m (cfg e)))"
  proof (cases "e1 = e")
    case True
    then show ?thesis using t tick_in_fence unfolding engine_tick_def Let_def by blast
  next
    case False
    then have "phase e \<in> {DUMP, ABORT}" using on_phase_engine [OF ph] e by auto
    then show ?thesis by auto
  qed
  ultimately show ?thesis
    by (intro exI [of _ "fst (sp_pos sp)"] exI [of _ "fst (snd (sp_pos sp))"] exI [of _ "frame_shift c"] exI [of _ "applied c"])
      (simp add: xs c flight_setpoint_def to_flight_def Let_def)
qed

lemma declared_begins:
  assumes "new_rim declared_rim = Inr m0" "ctl s = ACTIVE"
  obtains t m e where "foldE engine_step (s, m0) [RimBegin True] = Inr (t, m)" "en_engine m = Some e"
    "phase e = OFFBOARD_SYNC" "sync_t0 e = None" "sync_duration_s (cfg e) = 12 / 10"
proof -
  have m0: "en_par m0 = declared_rim" "\<not> en_begun m0" using assms(1) by (auto simp: new_rim_def)
  obtain c where c: "rim_mission_config (cx s, cy s) m0 = Inr c"
    by (simp add: rim_mission_config_def field_polygon_ne_def m0 declared_rim_def)
  then have f: "pattern c = ''serpentine''" "survey_alt_m c = 4" "lane_speed c = 1" "rosette_radius_m c = 3 / 2" "rosette_petals c = 8"
    "rosette_outer_hold_s c = 1 / 2" "rosette_center_hold_s c = 1 / 2" "reach_tol_m c = 1 / 4" "land_settle_s c = 3"
    "land_speed_tol_mps c = 1 / 5" "fence_radius_m c = 12" "fence_margin_m c = 0" "mission_timeout_s c = 300"
    "fence_polygon_ne c = []" "n_lanes c = 3" "cfg_lane_length c = 10" "lane_spacing c = 3" "sync_duration_s c = 12 / 10"
    by (auto simp: rim_mission_config_def field_polygon_ne_def m0 declared_rim_def rosette_headings_deg_def)
  have "check_config c = Inr ()" by (simp add: check_config_def f rosette_headings_deg_def)
  then obtain e where e: "mk_engine c (new_log 1 5 5 2) (launch_yaw s) = Inr e" "sync_t0 e = None"
    by (simp add: mk_engine_def f serpentine_def)
  have "phase e = PREFLIGHT" "cfg e = c" using mk_engine_inv [OF e(1)] by simp_all
  then have "begin_cb True (s, m0) = Inr (enable_goto_setpoints (lane_speed (cfg e)) (Some (max (climb_speed (cfg e)) (descent_speed (cfg e))))
      (Some (radians (rp_heading_rate_deg declared_rim))) s, m0\<lparr>en_begun := True, en_engine := Some (start e)\<rparr>)"
    by (simp add: begin_cb_def m0 assms(2) c e)
  then show thesis
    using \<open>phase e = PREFLIGHT\<close> \<open>cfg e = c\<close> e(2) f(18)
    by (intro that [of _ "m0\<lparr>en_begun := True, en_engine := Some (start e)\<rparr>" "start e"]) (simp_all add: engine_step_def start_def)
qed

lemma first_tick:
  assumes "phase e = OFFBOARD_SYNC" "sync_t0 e = None" "sync_duration_s (cfg e) = 12 / 10"
  shows "\<exists>sp e1. tick t pos vel hv sr e = Inr (Some sp, e1) \<and> phase e1 = OFFBOARD_SYNC"
  using assms
  by (simp add: tick_def tick_inner_def check_aborts_def tick_sync_def some_sp_def command_fence_active_def Let_def)

theorem engine_setpoint_in_fence_witness:
  "\<exists>m0 s m calls xs m' e. new_rim declared_rim = Inr m0
     \<and> foldE engine_step ((rim_controller example_params)\<lparr>ctl := ACTIVE\<rparr>, m0) [RimBegin True] = Inr (s, m)
     \<and> rim_setpoint True 7 s m = Inr ((calls, Some xs), m') \<and> en_engine m' = Some e
     \<and> hypot (fst (applied (en_corr m'))) (snd (applied (en_corr m'))) \<le> 5"
proof -
  obtain m0 where m0: "new_rim declared_rim = Inr m0" using declared_rim_new by blast
  let ?s0 = "(rim_controller example_params)\<lparr>ctl := ACTIVE\<rparr>"
  obtain s m e where r: "foldE engine_step (?s0, m0) [RimBegin True] = Inr (s, m)" "en_engine m = Some e"
      and e: "phase e = OFFBOARD_SYNC" "sync_t0 e = None" "sync_duration_s (cfg e) = 12 / 10"
    by (rule declared_begins [OF m0, of ?s0]) simp_all
  have off: "2 \<le> length (rp_lanes_offset declared_rim)" "rp_correction_max declared_rim = 5" by (simp_all add: declared_rim_def)
  obtain sp e1 where t: "engine_tick 7 s m e = Inr (Some sp, e1)" "phase e1 = OFFBOARD_SYNC"
    unfolding engine_tick_def Let_def using first_tick [OF e] by blast
  then obtain m' where sp: "rim_setpoint True 7 s m = Inr (([], Some (flight_setpoint (corrected (clock_s 7) m) sp)), m')"
      and e1: "en_engine m' = Some e1"
    by (simp add: rim_setpoint_def r(2) on_phase_def)
  from engine_setpoint_in_fence [OF m0 off(1) r(1) sp e1] off(2)
  have "hypot (fst (applied (en_corr m'))) (snd (applied (en_corr m'))) \<le> 5" by (elim exE conjE) simp
  then show ?thesis using m0 r(1) sp e1 by blast
qed

text \<open>
  Claim C10: a reset of the flight frame is invisible to the mission. When the estimator moves its frame, and with it the
  reported position, by some step, the engine is told the heading step and the reset count and nothing else, the
  position it plans with stays what it was, and every point it commands moves by that very step.
\<close>

theorem frame_reset_invisible_to_mission:
  assumes "frame_reset_delta msg s = Some (d, dh)" "lp_pos msg = (cx s + fst d, cy s + snd d, z)" "en_engine m = Some e"
    and "engine_step (s, m) (RimPosition now msg height) = Inr (s', m')"
  shows "en_engine m' = Some (note_reset_counter (fst (lp_counters msg)) (apply_heading_reset dh e))
    \<and> to_plan (en_corr m') (cx s', cy s') = to_plan (en_corr m) (cx s, cy s)
    \<and> to_flight (en_corr m') q = shift_point (fst d) (snd d) (to_flight (en_corr m) q)"
proof -
  have s': "s' = pos_cb now msg s" and m': "m' = after_pos now msg height (s', rim_frame_reset d dh m)"
    using assms(1,4) by (auto simp: engine_step_def hosted_callback_def)
  have "en_corr m' = correction_frame_reset (fst d) (snd d) (en_corr m)"
    "en_engine m' = Some (note_reset_counter (fst (lp_counters msg)) (apply_heading_reset dh e))"
    using assms(3)
    by (simp_all add: m' after_pos_def push_pose_def rim_frame_reset_def with_engine_def Let_def split: option.split sum.split)
  moreover have "cx s' = cx s + fst d" "cy s' = cy s + snd d" using assms(2) by (simp_all add: s' pos_cb_def Let_def)
  ultimately show ?thesis by (simp add: to_plan_def to_flight_def correction_frame_reset_def shift_point_def)
qed

theorem frame_reset_invisible_to_mission_witness:
  "\<exists>s m s' m'. engine_step (s, m) (RimPosition 3 \<lparr>lp_pos = (7, 5, - 4), lp_vel = (0, 0, 0), lp_xy_valid = True,
       lp_v_xy_valid = True, lp_z_valid = True, lp_counters = (1, 0, 0), lp_delta_xy = (2, 1), lp_delta_z = 0,
       lp_delta_heading = 0\<rparr> None) = Inr (s', m') \<and> cx s = 5 \<and> to_plan (en_corr m') (7, 5) = to_plan (en_corr m) (5, 4)"
proof -
  obtain m0 where "new_rim declared_rim = Inr m0" using declared_rim_new by blast
  define m where "m = m0\<lparr>en_engine := Some example_engine\<rparr>"
  define s where "s = (rim_controller example_params)\<lparr>cx := 5, cy := 4, reset_counters := Some (0, 0, 0)\<rparr>"
  let ?msg = "\<lparr>lp_pos = (7, 5, - 4), lp_vel = (0, 0, 0), lp_xy_valid = True,
       lp_v_xy_valid = True, lp_z_valid = True, lp_counters = (1, 0, 0), lp_delta_xy = (2, 1), lp_delta_z = 0,
       lp_delta_heading = 0\<rparr>"
  have d: "frame_reset_delta ?msg s = Some ((2, 1), 0)" by (simp add: frame_reset_delta_def s_def)
  then obtain s' m' where r: "engine_step (s, m) (RimPosition 3 ?msg None) = Inr (s', m')"
    by (simp add: engine_step_def hosted_callback_def)
  have "cx s' = 7" "cy s' = 5" "cx s = 5" "cy s = 4"
    using r d by (auto simp: engine_step_def hosted_callback_def pos_cb_def s_def Let_def)
  then have "lp_pos ?msg = (cx s + fst (2, 1), cy s + snd (2, 1), - 4)" by simp
  from frame_reset_invisible_to_mission [OF d this _ r] \<open>cx s' = 7\<close> \<open>cy s' = 5\<close> \<open>cx s = 5\<close> \<open>cy s = 4\<close>
  have "to_plan (en_corr m') (7, 5) = to_plan (en_corr m) (5, 4)" by (simp add: m_def)
  then show ?thesis using r \<open>cx s = 5\<close> by blast
qed

end
