(* ===== verification/Spec2Isabelle.thy ===== *)
theory Spec2Isabelle
  imports Uwb_Gateway Uwb_Properties Frame_Pool Frame_Sinks Tiles Timebase Backproject Anchor
    Mission_Properties Controller_Properties Pathfinder_Properties Orca_Properties Survey_Properties Phased_Properties
    Survey_Mission_Properties Prop_Idle_Properties Associate_Properties
    Visibility_Properties Jarvis Engine_Node_Properties
begin

text \<open>
  Verification of the flight software of the mission10 drone team.

  \<^bold>\<open>The program.\<close> A drone finds and maps mines. Each vehicle flies an offboard controller for PX4
  (\<open>ros/px4_offboard\<close>) with a mission on top (\<open>ros/flight_intelligent\<close>) that calls the flight library
  (\<open>ros/flight_lib\<close>); cameras write frames into a shared-memory pool (\<open>ros/sensing\<close>) that detectors read;
  detections are projected to the ground, clustered into mines and drive the mission engine
  (\<open>ros/mission_engine/core\<close>); an ultra-wideband radio (\<open>uwb/protocol\<close>, \<open>ros/uwb_gateway\<close>) exchanges states and fleet
  commands; a planner on the ground (\<open>drones/iarc_pathfinder.py\<close>) finds a safe corridor through the mines.

  \<^bold>\<open>How it is modelled.\<close> Every class is a record of its fields, every method a function on it, in the order of
  the source, with the same guards and early returns. A method that may raise returns \<open>py_error + 'a\<close>
  (\<open>Prelude\<close>: \<open>bindE\<close>, \<open>foldE\<close>). What a method publishes is appended to a list in the state. Clocks,
  received messages, PX4 and the operating system are arguments of events; a run is a fold over a list of events, in
  any order, and the invariants hold along every run (the locales \<open>machine\<close>, \<open>fallible_machine\<close>,
  \<open>safe_machine\<close>, \<open>guarded_machine\<close>, \<open>fallible_progress\<close> and \<open>refinement\<close> of \<open>Prelude\<close>, all
  interpreted on the components). A callback reads the clock once. Floats are reals: no property depends on the
  last bit of a rounding. Where the source tests for \<open>NaN\<close> or leaves an axis \<open>NaN\<close> the value is an option.
  Integers that wrap on the wire or in shared memory keep their width.

  \<^bold>\<open>Theories and sources.\<close>
  \<^item> \<open>Bytes\<close>, \<open>Cobs\<close>, \<open>Uwb_Protocol\<close>, \<open>Uwb_Properties\<close>: \<open>uwb/protocol/python/mission10_uwb_protocol.py\<close>;
    the codecs, the CRC and the frame splitter. The splitter recovers every encoded command whatever the
    chunking, and a frame with one corrupted byte is rejected. \<open>Uwb_Gateway\<close>: \<open>gateway.py\<close>, the fleet mode
    queue and its worker.
  \<^item> \<open>Frame_Pool\<close>, \<open>Frame_Sinks\<close>, \<open>Timebase\<close>: \<open>shared_frame_pool.py\<close>, \<open>frame_sinks.py\<close>,
    \<open>timebase.py\<close>; the pool as a shared memory whose producer and consumers interleave step by step: no reader
    sees a torn frame and a leased slot does not change.
  \<^item> \<open>Geometry\<close>, \<open>Minelog\<close>, \<open>Mission\<close>, \<open>Mission_Properties\<close>, \<open>Backproject\<close>, \<open>Anchor\<close>, \<open>Tiles\<close>: the
    mission engine's core (\<open>geometry.py\<close>, \<open>minelog.py\<close>, \<open>mission.py\<close>, \<open>backproject.py\<close> with \<open>ingest.py\<close>
    and \<open>config.py\<close>, \<open>anchor.py\<close>, \<open>tiles.py\<close>). The engine never raises, leaves no gap in a completed survey,
    does not come back from an abort, respects its fence and lands settled; cluster statistics equal their batch
    definitions; projection and back-projection are inverse; the rigid fit is optimal.
  \<^item> \<open>Hungarian\<close>, \<open>Hungarian_Properties\<close>, \<open>Associate\<close>, \<open>Tracklet_Properties\<close>, \<open>Associate_Properties\<close>:
    \<open>core/associate.py\<close>; the assignment solver ends and returns a minimum-cost matching (dual feasibility and tight
    trails as invariants of its loops), every tracklet is matched or born and every track matched, missed or out of
    view exactly once, and the matching of a pass is the best gated one (locale \<open>minimal_solver\<close>).
    \<open>Visibility\<close>, \<open>Visibility_Properties\<close>: \<open>core/visibility.py\<close>; the visits of a cell are the maximal runs of the
    times the camera model puts it in view, queries are exact, and a track is charged with a miss only where the
    pass looked.
  \<^item> \<open>Controller\<close>, \<open>Controller_Properties\<close>: \<open>px4_offboard/controller.py\<close>; callbacks, gates, launch datum, timer
    state machine. It never arms without a datum, an abort lands, failsafe is silent, mission setpoints are gated.
  \<^item> \<open>Mission_Node\<close>, \<open>Mission_Node_Properties\<close>: the places where the controller calls the hooks of a mission, a
    record of functions, and the contracts \<open>hosted_mission\<close> and \<open>modest_hooks\<close> under which a node keeps its
    mission's invariant, raises only the controller's own exceptions and refines the controller.
  \<^item> \<open>Phased\<close>, \<open>Phased_Frames\<close>, \<open>Phased_Properties\<close>: \<open>phased_orbits_mission.py\<close> on these hooks;
    \<open>Survey_Mission\<close>, \<open>Survey_Mission_Properties\<close>: \<open>survey_mission.py\<close>. Both keep flying, start only when they
    may, and command continuous setpoints; the orbit mission commutes with estimator resets.
  \<^item> \<open>Dump\<close>: \<open>core/dumpproto.py\<close>; the document of a mission and the length-prefixed frame of its body, read back
    exactly up to the reader's limit. \<open>Engine_Node\<close>, \<open>Engine_Node_Properties\<close>: \<open>rim/engine_node.py\<close>, the
    node that composes the controller's hooks, the mission engine, the tag anchor with its setpoint correction,
    the pose history and the mine log. It never raises in flight, its setpoints keep the mission's fence up to the
    bounded correction, resets of the flight frame are invisible to the mission, the motors are cut only after a
    touchdown the range finder saw; a dump that was not acknowledged is never sent again.
  \<^item> \<open>Prop_Idle\<close>, \<open>Prop_Idle_Properties\<close>: \<open>prop_idle_dummy_mission.py\<close>, a machine of its own beside the controller;
    it arms once, runs the motors for a bounded time, and its shutdown loop ends when the vehicle is disarmed.
  \<^item> \<open>Orbit\<close>, \<open>Deconflict\<close>, \<open>Orca\<close>, \<open>Survey\<close> and their \<open>_Properties\<close>: \<open>flight_lib\<close>; the choreography and
    its exact separation, the barrier of the phase guard, the ORCA half-planes and their linear program, survey
    paths flown home without jumps.
  \<^item> \<open>Search\<close>, \<open>Pathfinder\<close>, \<open>Pathfinder_Properties\<close>: \<open>drones/iarc_pathfinder.py\<close>; the clearance map and the
    optimal corridor.
  \<^item> \<open>Jarvis\<close>: \<open>jarvis_web\<close> (\<open>grammar.py\<close>, the handler of \<open>app.py\<close>, \<open>node.py\<close>); an utterance publishes a gate
    exactly when it spells the command, every word is sure enough and the whole fleet listens.

  \<^bold>\<open>Bounds and fuel.\<close> Structural recursion is used where the source iterates over a list. The loops that grow a search
  (\<open>Pathfinder\<close>) terminate by the number of unvisited cells, the bisection of \<open>Backproject\<close> and the decoder of \<open>Cobs\<close> by the
  part of the list that is left; following parents in \<open>Pathfinder\<close> is a \<open>partial_function (option)\<close> shown to return.
  The search and the augmentation of \<open>Hungarian\<close> are \<open>partial_function (option)\<close>, shown to return for every matrix
  by the number of columns not reached; the alignment has the eight turns of the source.
  The clean-up loop of \<open>Prop_Idle\<close> is a function of the turns the environment grants it.

  \<^bold>\<open>Findings.\<close> Where the code does not do what it means to, a lemma says so and the manifest lists it: among others the
  frame splitter that drops a good frame after a full run of garbage, the staging slot and the survey anchor that are
  not moved by an estimator reset, the dump that hovers for an answer after its only attempt, a settle time of zero that lands unsettled, the yaw that flips at the seam between
  insertion and orbit, and a shutdown during which the timer still runs the motors.

  \<^bold>\<open>Not modelled.\<close> Operating-system I/O (opening and mapping the shared segments, sockets, the ground station's
  MAVSDK calls, the recorder, the JSON text of a dump), ROS wiring and log lines, the simulator bridges and launch files, and the code that
  is numpy, OpenCV, torch or a detector from end to end (relative localisation, optical flow, tag detection, data
  generation, training, the localisation experiments): its meaning is that of the libraries it calls.
\<close>

end
